(* ===== verification/Prelude.thy ===== *)
theory Prelude
  imports Main "HOL-Library.Word" "HOL-Library.Log_Nat" "HOL-Library.Multiset" "HOL-Library.Sublist"
begin

text \<open>
  Shared vocabulary of the development: what every component uses of the JavaScript language
  and its standard library.

  \<^item> \<open>res_bind\<close> sequences fallible code; \<^typ>\<open>'e + 'a\<close> is a computation that throws
    (\<open>Inl\<close>) or returns (\<open>Inr\<close>).
  \<^item> \<open>fl53\<close> and \<open>js_add\<close> are addition on the non-negative integers a JavaScript number can
    hold: exact up to \<open>2 ^ 53\<close>, rounded to 53 significant bits (ties to even) above.
  \<^item> \<open>map_get\<close>, \<open>map_set\<close> and \<open>map_delete\<close> are \<^verbatim>\<open>Map\<close> with its insertion order; the locale
    \<open>js_map\<close> is the contract its clients rely on.
  \<^item> \<open>sort_desc\<close> is \<^verbatim>\<open>Array.prototype.sort\<close> with the comparator \<^verbatim>\<open>(a, b) => b.k - a.k\<close> (stable).
  \<^item> the string functions are those of \<^verbatim>\<open>String.prototype\<close> on strings whose code units are below
    256, which is what \<^typ>\<open>string\<close> can represent.
\<close>

named_theorems reader_mono \<open>an operation of the reader keeps the buffer and never moves backwards\<close>

type_synonym byte = "8 word"

section \<open>Fallible computations\<close>

definition res_bind :: "'e + 'a \<Rightarrow> ('a \<Rightarrow> 'e + 'b) \<Rightarrow> 'e + 'b" where
  "res_bind m f = (case m of Inl e \<Rightarrow> Inl e | Inr x \<Rightarrow> f x)"

lemma res_bind_simps [simp]:
  "res_bind (Inl e) f = Inl e"
  "res_bind (Inr x) f = f x"
  by (simp_all add: res_bind_def)

lemma res_bind_eq_Inr [simp]: "res_bind m f = Inr y \<longleftrightarrow> (\<exists>x. m = Inr x \<and> f x = Inr y)"
  by (cases m) auto

lemma res_bind_eq_Inl: "res_bind m f = Inl e \<longleftrightarrow> m = Inl e \<or> (\<exists>x. m = Inr x \<and> f x = Inl e)"
  by (cases m) auto

lemma res_bind_cong [fundef_cong]:
  assumes "m = m'" and "\<And>x. m' = Inr x \<Longrightarrow> f x = f' x"
  shows "res_bind m f = res_bind m' f'"
  using assms by (cases m') auto

section \<open>Numbers\<close>

text \<open>The nearest integer with at most 53 significant bits, ties to even.\<close>

definition fl53 :: "nat \<Rightarrow> nat" where
  "fl53 n = (if n < 2 ^ 53 then n
     else let e = floorlog 2 n - 53; q = n div 2 ^ e; r = n mod 2 ^ e; h = 2 ^ (e - 1)
          in (if h < r \<or> (r = h \<and> odd q) then q + 1 else q) * 2 ^ e)"

text \<open>
  Addition of two JavaScript numbers that are non-negative integers.  Rounding is monotone, so on
  operands that are themselves representable the sum is just \<open>fl53 (a + b)\<close> (\<open>js_add_fl53\<close>
  below); the maximum only fixes a value for the natural numbers that are no JavaScript number.
\<close>

definition js_add :: "nat \<Rightarrow> nat \<Rightarrow> nat" where
  "js_add a b = max (max a b) (fl53 (a + b))"

lemma fl53_exact: "n < 2 ^ 53 \<Longrightarrow> fl53 n = n"
  by (simp add: fl53_def)

lemma js_add_exact: "a + b < 2 ^ 53 \<Longrightarrow> js_add a b = a + b"
  by (simp add: js_add_def fl53_exact)

lemma js_add_ge [simp]: "a \<le> js_add a b" "b \<le> js_add a b"
  by (simp_all add: js_add_def)

lemma floorlog2_bounds:
  assumes "0 < n"
  shows "2 ^ (floorlog 2 n - 1) \<le> n" and "n < 2 ^ floorlog 2 n"
  using floorlog_bounds [of n 2] assms by auto

lemma floorlog2_unique:
  assumes "2 ^ k \<le> n" and "n < 2 ^ Suc k"
  shows "floorlog 2 n = Suc k"
proof -
  have n: "0 < n" using assms(1) by (meson less_le_trans zero_less_numeral zero_less_power)
  note b = floorlog2_bounds [OF n]
  have "2 ^ k < (2::nat) ^ floorlog 2 n" using assms(1) b(2) by linarith
  moreover have "2 ^ (floorlog 2 n - 1) < (2::nat) ^ Suc k" using assms(2) b(1) by linarith
  ultimately have "k < floorlog 2 n" and "floorlog 2 n - 1 < Suc k"
    by (auto simp only: power_strict_increasing_iff one_less_numeral_iff semiring_norm)
  then show ?thesis by linarith
qed

text \<open>Above \<open>2 ^ 53\<close> rounding keeps the multiples of the unit in the last place.\<close>

lemma fl53_large:
  assumes "2 ^ 53 \<le> n"
  obtains e where "floorlog 2 n = 53 + e" and "2 ^ 53 \<le> n div 2 ^ e * 2 ^ e"
    and "n div 2 ^ e * 2 ^ e \<le> fl53 n" and "2 ^ e dvd fl53 n"
proof -
  have n: "0 < n" using assms by (meson less_le_trans zero_less_numeral zero_less_power)
  define e where "e = floorlog 2 n - 53"
  have "53 < floorlog 2 n"
  proof -
    have "(2::nat) ^ 53 < 2 ^ floorlog 2 n" using assms floorlog2_bounds(2) [OF n] by linarith
    then show ?thesis by (auto simp only: power_strict_increasing_iff one_less_numeral_iff semiring_norm)
  qed
  then have k: "floorlog 2 n = 53 + e" by (simp add: e_def)
  have le: "2 ^ (52 + e) \<le> n" using floorlog2_bounds(1) [OF n] k by simp
  have "2 ^ 52 \<le> n div 2 ^ e"
    using div_le_mono [OF le, of "2 ^ e"] by (simp add: power_add)
  then have "2 ^ 52 * 2 ^ e \<le> n div 2 ^ e * 2 ^ e" by simp
  moreover have "(2::nat) ^ 53 \<le> 2 ^ 52 * 2 ^ e"
  proof -
    have "1 \<le> e" using \<open>53 < floorlog 2 n\<close> by (simp add: e_def)
    then have "(2::nat) ^ 1 \<le> 2 ^ e" by (intro power_increasing) auto
    then show ?thesis by simp
  qed
  ultimately have t: "2 ^ 53 \<le> n div 2 ^ e * 2 ^ e" by linarith
  have fl: "fl53 n = (if 2 ^ (e - 1) < n mod 2 ^ e \<or> (n mod 2 ^ e = 2 ^ (e - 1) \<and> odd (n div 2 ^ e))
      then n div 2 ^ e + 1 else n div 2 ^ e) * 2 ^ e"
    using assms by (simp add: fl53_def Let_def e_def)
  show thesis
  proof (rule that [OF k t])
    show "n div 2 ^ e * 2 ^ e \<le> fl53 n" unfolding fl by (rule mult_le_mono1) auto
    show "2 ^ e dvd fl53 n" unfolding fl by simp
  qed
qed

lemma js_add_small:
  assumes "js_add a b < 2 ^ 53"
  shows "js_add a b = a + b"
proof (cases "a + b < 2 ^ 53")
  case False
  then have "2 ^ 53 \<le> a + b" by simp
  then have "2 ^ 53 \<le> fl53 (a + b)" by (rule fl53_large) (rule le_trans)
  then show ?thesis using assms by (simp add: js_add_def)
qed (rule js_add_exact)

lemma fl53_mono_fix:
  assumes "fl53 a = a" and "a \<le> n"
  shows "a \<le> fl53 n"
proof (cases "n < 2 ^ 53")
  case True
  then show ?thesis using assms by (simp add: fl53_exact)
next
  case False
  then obtain e where e: "floorlog 2 n = 53 + e" and t: "2 ^ 53 \<le> n div 2 ^ e * 2 ^ e"
    and le: "n div 2 ^ e * 2 ^ e \<le> fl53 n"
    using fl53_large [of n] by (metis not_less)
  show ?thesis
  proof (rule ccontr)
    assume "\<not> a \<le> fl53 n"
    with le have lt: "n div 2 ^ e * 2 ^ e < a" by linarith
    with t have a53: "2 ^ 53 \<le> a" by linarith
    have "0 < n" using assms(2) a53 by (meson less_le_trans zero_less_numeral zero_less_power)
    note nb = floorlog2_bounds [OF this]
    have "2 ^ (52 + e) \<le> n div 2 ^ e * 2 ^ e"
      using div_le_mono [of "2 ^ (52 + e)" n "2 ^ e"] nb(1) e by (simp add: power_add)
    then have "2 ^ (52 + e) \<le> a" using lt by linarith
    moreover have "a < 2 ^ Suc (52 + e)" using nb(2) e assms(2) by simp
    ultimately have "floorlog 2 a = 53 + e" using floorlog2_unique by fastforce
    moreover obtain e' where "floorlog 2 a = 53 + e'" and "2 ^ e' dvd fl53 a"
      using fl53_large [OF a53] by metis
    ultimately have dvd: "2 ^ e dvd a" using assms(1) by simp
    have "a < (n div 2 ^ e + 1) * 2 ^ e"
      using assms(2) by (metis add.commute dividend_less_times_div le_less_trans mult.commute
          mult_Suc_right plus_1_eq_Suc pos2 zero_less_power)
    then have "a div 2 ^ e < n div 2 ^ e + 1" by (simp add: div_less_iff_less_mult)
    moreover have "n div 2 ^ e < a div 2 ^ e"
      using lt dvd by (metis dvd_div_mult_self mult_less_cancel2)
    ultimately show False by linarith
  qed
qed

lemma js_add_fl53:
  assumes "fl53 a = a" and "fl53 b = b"
  shows "js_add a b = fl53 (a + b)"
  using fl53_mono_fix [OF assms(1), of "a + b"] fl53_mono_fix [OF assms(2), of "a + b"]
  by (simp add: js_add_def)

section \<open>Insertion-ordered maps\<close>

type_synonym ('k, 'v) js_map = "('k \<times> 'v) list"

definition map_get :: "('k, 'v) js_map \<Rightarrow> 'k \<Rightarrow> 'v option" where
  "map_get m k = map_of m k"

fun map_set :: "('k, 'v) js_map \<Rightarrow> 'k \<Rightarrow> 'v \<Rightarrow> ('k, 'v) js_map" where
  "map_set [] k v = [(k, v)]"
| "map_set ((k', v') # m) k v = (if k' = k then (k, v) # m else (k', v') # map_set m k v)"

definition map_delete :: "('k, 'v) js_map \<Rightarrow> 'k \<Rightarrow> ('k, 'v) js_map" where
  "map_delete m k = filter (\<lambda>(k', v). k' \<noteq> k) m"

definition map_wf :: "('k, 'v) js_map \<Rightarrow> bool" where
  "map_wf m \<longleftrightarrow> distinct (map fst m)"

lemma map_get_set: "map_get (map_set m k v) k' = (if k' = k then Some v else map_get m k')"
  by (induction m) (auto simp: map_get_def)

lemma map_set_keys:
  "map fst (map_set m k v) = (if k \<in> set (map fst m) then map fst m else map fst m @ [k])"
  by (induction m) (auto simp del: set_map simp: list.set_map [symmetric])

lemma set_map_set_keys: "fst ` set (map_set m k v) = insert k (fst ` set m)"
proof -
  have "set (map fst (map_set m k v)) = insert k (set (map fst m))"
    by (auto simp: map_set_keys simp del: set_map)
  then show ?thesis by simp
qed

lemma map_set_append: "k \<notin> fst ` set m \<Longrightarrow> map_set m k v = m @ [(k, v)]"
  by (induction m) auto

lemma map_wf_set: "map_wf m \<Longrightarrow> map_wf (map_set m k v)"
  by (simp add: map_wf_def map_set_keys del: set_map)

lemma map_get_delete: "map_get (map_delete m k) k' = (if k' = k then None else map_get m k')"
  by (induction m) (auto simp: map_get_def map_delete_def)

lemma map_wf_delete: "map_wf m \<Longrightarrow> map_wf (map_delete m k)"
  by (induction m) (auto simp: map_wf_def map_delete_def)

text \<open>The contract of \<^verbatim>\<open>Map\<close>, as its clients use it.\<close>

locale js_map_contract =
  fixes get :: "'m \<Rightarrow> 'k \<Rightarrow> 'v option"
    and put :: "'m \<Rightarrow> 'k \<Rightarrow> 'v \<Rightarrow> 'm"
    and remove :: "'m \<Rightarrow> 'k \<Rightarrow> 'm"
    and keys :: "'m \<Rightarrow> 'k list"
    and wf :: "'m \<Rightarrow> bool"
  assumes get_put: "get (put m k v) k' = (if k' = k then Some v else get m k')"
    and get_remove: "get (remove m k) k' = (if k' = k then None else get m k')"
    and keys_put: "keys (put m k v) = (if k \<in> set (keys m) then keys m else keys m @ [k])"
    and keys_get: "k \<in> set (keys m) \<longleftrightarrow> get m k \<noteq> None"
    and wf_put: "wf m \<Longrightarrow> wf (put m k v)"
    and wf_remove: "wf m \<Longrightarrow> wf (remove m k)"
    and wf_keys: "wf m \<Longrightarrow> distinct (keys m)"
begin

lemma size_put: "length (keys (put m k v)) = length (keys m) + (if get m k = None then 1 else 0)"
  using keys_get [of k m] by (auto simp: keys_put)

lemma get_fold_put: "k \<notin> set (map fst kvs) \<Longrightarrow>
    get (foldl (\<lambda>m (k, v). put m k v) m kvs) k = get m k"
  by (induction kvs arbitrary: m) (auto simp: get_put)

lemma keys_fold_put: "set (keys (foldl (\<lambda>m (k, v). put m k v) m kvs)) = set (keys m) \<union> fst ` set kvs"
  by (induction kvs arbitrary: m) (auto simp: keys_put split: if_splits)

lemma wf_fold_put: "wf m \<Longrightarrow> wf (foldl (\<lambda>m (k, v). put m k v) m kvs)"
  by (induction kvs arbitrary: m) (auto simp: wf_put)

end

interpretation amap: js_map_contract map_get map_set map_delete "map fst" map_wf
proof unfold_locales
  fix m :: "('k \<times> 'v) list" and k
  show "k \<in> set (map fst m) \<longleftrightarrow> map_get m k \<noteq> None"
    by (force simp: map_get_def map_of_eq_None_iff)
  show "map_wf m \<Longrightarrow> map_wf (map_delete m k)" by (rule map_wf_delete)
qed (simp_all only: map_get_set map_get_delete map_set_keys map_wf_set, simp add: map_wf_def)

lemma foldl_map_set_distinct:
  assumes "distinct (map fst kvs)" and "fst ` set kvs \<inter> fst ` set m = {}"
  shows "foldl (\<lambda>m (k, v). map_set m k v) m kvs = m @ kvs"
  using assms
proof (induction kvs arbitrary: m)
  case (Cons kv kvs)
  obtain k v where kv: "kv = (k, v)" by (cases kv)
  with Cons.prems have "map_set m k v = m @ [(k, v)]"
    by (intro map_set_append) auto
  moreover from Cons.prems kv have "fst ` set kvs \<inter> fst ` set (m @ [(k, v)]) = {}"
    by auto
  ultimately show ?case using Cons.IH [of "m @ [(k, v)]"] Cons.prems kv by simp
qed simp

lemma sum_map_set:
  "sum_list (map (\<lambda>e. f (snd e)) (map_set m k v)) + (case map_get m k of None \<Rightarrow> 0 | Some u \<Rightarrow> f u)
     = sum_list (map (\<lambda>e. f (snd e)) m) + (f v :: nat)"
  by (induction m) (auto simp: map_get_def)

lemma set_map_set: "set (map_set m k v) \<subseteq> insert (k, v) (set m)"
  by (induction m) (auto split: if_splits)

lemma map_get_in: "map_get m k = Some v \<Longrightarrow> (k, v) \<in> set m"
  by (simp add: map_get_def map_of_SomeD)

section \<open>Sorting\<close>

definition sort_desc :: "('a \<Rightarrow> int) \<Rightarrow> 'a list \<Rightarrow> 'a list" where
  "sort_desc k xs = sort_key (\<lambda>x. - k x) xs"

lemma mset_sort_desc [simp]: "mset (sort_desc k xs) = mset xs"
  by (simp add: sort_desc_def)

lemma sum_sort_desc: "sum_list (map f (sort_desc k xs)) = (sum_list (map f xs) :: nat)"
  by (metis mset_map mset_sort_desc sum_mset_sum_list)

lemma set_sort_desc [simp]: "set (sort_desc k xs) = set xs"
  by (simp add: sort_desc_def)

lemma length_sort_desc [simp]: "length (sort_desc k xs) = length xs"
  by (simp add: sort_desc_def)

lemma distinct_sort_desc [simp]: "distinct (sort_desc k xs) = distinct xs"
  by (simp add: sort_desc_def)

lemma sorted_sort_desc: "sorted_wrt (\<lambda>a b. k b \<le> k a) (sort_desc k xs)"
proof -
  have "sorted (map (\<lambda>x. - k x) (sort_desc k xs))"
    by (simp add: sort_desc_def)
  then show ?thesis by (simp add: sorted_wrt_map)
qed

lemma sort_desc_stable: "filter (\<lambda>x. k x = c) (sort_desc k xs) = filter (\<lambda>x. k x = c) xs"
proof -
  have "filter (\<lambda>x. - k x = - c) (sort_key (\<lambda>x. - k x) xs) = filter (\<lambda>x. - k x = - c) xs"
    by (rule sort_key_stable)
  then show ?thesis by (simp add: sort_desc_def)
qed

section \<open>Strings\<close>

definition char_code :: "char \<Rightarrow> nat" where
  "char_code c = of_char c"

definition lower_char :: "char \<Rightarrow> char" where
  "lower_char c = (let n = char_code c in
     if (65 \<le> n \<and> n \<le> 90) \<or> (192 \<le> n \<and> n \<le> 222 \<and> n \<noteq> 215) then char_of (n + 32) else c)"

definition toLowerCase :: "string \<Rightarrow> string" where
  "toLowerCase s = map lower_char s"

definition is_space :: "char \<Rightarrow> bool" where
  "is_space c = (char_code c \<in> {9, 10, 11, 12, 13, 32, 160})"

definition trim :: "string \<Rightarrow> string" where
  "trim s = rev (dropWhile is_space (rev (dropWhile is_space s)))"

definition startsWith :: "string \<Rightarrow> string \<Rightarrow> bool" where
  "startsWith s p = (take (length p) s = p)"

definition endsWith :: "string \<Rightarrow> string \<Rightarrow> bool" where
  "endsWith s p = (length p \<le> length s \<and> drop (length s - length p) s = p)"

definition is_hex_char :: "char \<Rightarrow> bool" where
  "is_hex_char c = (let n = char_code c in
     (48 \<le> n \<and> n \<le> 57) \<or> (65 \<le> n \<and> n \<le> 70) \<or> (97 \<le> n \<and> n \<le> 102))"

lemma char_code_lt: "char_code c < 256"
  by (simp add: char_code_def)

lemma char_code_of: "n < 256 \<Longrightarrow> char_code (char_of n) = n"
  by (simp add: char_code_def)

lemma lower_char_idem: "lower_char (lower_char c) = lower_char c"
  using char_code_lt [of c] by (auto simp: lower_char_def Let_def char_code_of)

lemma toLowerCase_idem [simp]: "toLowerCase (toLowerCase s) = toLowerCase s"
  by (simp add: toLowerCase_def lower_char_idem)

lemma length_toLowerCase [simp]: "length (toLowerCase s) = length s"
  by (simp add: toLowerCase_def)

lemma is_hex_lower [simp]: "is_hex_char (lower_char c) \<longleftrightarrow> is_hex_char c"
  using char_code_lt [of c] by (auto simp: is_hex_char_def lower_char_def Let_def char_code_of)

section \<open>Sets, indexing and numerals\<close>

text \<open>\<^verbatim>\<open>Set.prototype.add\<close> on the insertion order of the set.\<close>

definition set_add :: "'a list \<Rightarrow> 'a \<Rightarrow> 'a list" where
  "set_add xs x = (if x \<in> set xs then xs else xs @ [x])"

lemma set_set_add [simp]: "set (set_add xs x) = insert x (set xs)"
  by (auto simp: set_add_def)

lemma distinct_set_add [simp]: "distinct xs \<Longrightarrow> distinct (set_add xs x)"
  by (simp add: set_add_def)

text \<open>\<^verbatim>\<open>xs[i]\<close>, where \<^verbatim>\<open>undefined\<close> is \<open>None\<close>.\<close>

definition at_index :: "'a list \<Rightarrow> nat \<Rightarrow> 'a option" where
  "at_index xs i = (if i < length xs then Some (xs ! i) else None)"

text \<open>The decimal numeral of a number, as in a template string.\<close>

fun decimal :: "nat \<Rightarrow> string" where
  "decimal n = (if n < 10 then [char_of (48 + n)] else decimal (n div 10) @ [char_of (48 + n mod 10)])"

declare decimal.simps [simp del]

section \<open>Grouping\<close>

text \<open>
  Many loops of the program build a \<^verbatim>\<open>Map\<close> of accumulators: look the key up, start from a fresh entry
  if there is none, update the entry, store it back.  \<open>group_step\<close> is one turn of such a loop and
  \<open>group_by\<close> what the loop means: the keys in the order of their first occurrence, each with the
  update folded over the items of that key.
\<close>

definition group_step ::
  "('x \<Rightarrow> 'k) \<Rightarrow> ('x \<Rightarrow> 'v) \<Rightarrow> ('x \<Rightarrow> 'v \<Rightarrow> 'v) \<Rightarrow> ('k, 'v) js_map \<Rightarrow> 'x \<Rightarrow> ('k, 'v) js_map" where
  "group_step key init upd m x =
     map_set m (key x) (upd x (case map_get m (key x) of None \<Rightarrow> init x | Some v \<Rightarrow> v))"

definition firsts :: "'a list \<Rightarrow> 'a list" where
  "firsts xs = rev (remdups (rev xs))"

definition group_value :: "('x \<Rightarrow> 'k) \<Rightarrow> ('x \<Rightarrow> 'v) \<Rightarrow> ('x \<Rightarrow> 'v \<Rightarrow> 'v) \<Rightarrow> 'x list \<Rightarrow> 'k \<Rightarrow> 'v" where
  "group_value key init upd xs k =
     (let ys = filter (\<lambda>x. key x = k) xs in foldl (\<lambda>v x. upd x v) (init (hd ys)) ys)"

definition group_by :: "('x \<Rightarrow> 'k) \<Rightarrow> ('x \<Rightarrow> 'v) \<Rightarrow> ('x \<Rightarrow> 'v \<Rightarrow> 'v) \<Rightarrow> 'x list \<Rightarrow> ('k, 'v) js_map" where
  "group_by key init upd xs = map (\<lambda>k. (k, group_value key init upd xs k)) (firsts (map key xs))"

lemma set_firsts [simp]: "set (firsts xs) = set xs"
  by (simp add: firsts_def)

lemma distinct_firsts [simp]: "distinct (firsts xs)"
  by (simp add: firsts_def)

lemma firsts_Nil [simp]: "firsts [] = []"
  by (simp add: firsts_def)

lemma firsts_snoc: "firsts (xs @ [x]) = set_add (firsts xs) x"
  by (simp add: firsts_def set_add_def)

lemma foldl_set_add: "foldl set_add [] xs = firsts xs"
  by (induction xs rule: rev_induct) (simp_all add: firsts_snoc)

lemma map_get_tabulate: "map_get (map (\<lambda>k. (k, g k)) ks) k = (if k \<in> set ks then Some (g k) else None)"
  by (induction ks) (auto simp: map_get_def)

lemma map_set_tabulate:
  "distinct ks \<Longrightarrow> map_set (map (\<lambda>k. (k, g k)) ks) k v =
     map (\<lambda>k'. (k', (g(k := v)) k')) (set_add ks k)"
  by (induction ks) (auto simp: set_add_def)

lemma group_value_snoc:
  "group_value key init upd (xs @ [x]) = (group_value key init upd xs)
     (key x := upd x (if key x \<in> key ` set xs then group_value key init upd xs (key x) else init x))"
proof
  fix k
  have "filter (\<lambda>y. key y = key x) xs \<noteq> [] \<longleftrightarrow> key x \<in> key ` set xs"
    by (auto simp: filter_empty_conv image_iff; metis)
  then show "group_value key init upd (xs @ [x]) k = ((group_value key init upd xs)
     (key x := upd x (if key x \<in> key ` set xs then group_value key init upd xs (key x) else init x))) k"
    by (auto simp: group_value_def Let_def)
qed

theorem foldl_group_step: "foldl (group_step key init upd) [] xs = group_by key init upd xs"
proof (induction xs rule: rev_induct)
  case Nil
  show ?case by (simp add: group_by_def)
next
  case (snoc x xs)
  then have "foldl (group_step key init upd) [] (xs @ [x]) = group_step key init upd (group_by key init upd xs) x"
    by simp
  also have "\<dots> = group_by key init upd (xs @ [x])"
    by (auto simp: group_by_def group_step_def map_get_tabulate map_set_tabulate firsts_snoc group_value_snoc)
  finally show ?case .
qed

lemma keys_group_by: "map fst (group_by key init upd xs) = firsts (map key xs)"
  by (simp add: group_by_def comp_def)

end
