(* ===== verification/Pprof_Wire.thy ===== *)
theory Pprof_Wire
  imports Prelude
begin

text \<open>
  The wire layer of \<^verbatim>\<open>packages/pprof-decoder/src/index.ts\<close>: the class \<^verbatim>\<open>Reader\<close> (varints, byte
  slices, skipping of unknown fields) and the writers over the interface \<^verbatim>\<open>ByteSink\<close>, whose two
  implementations (a plain array and the growing buffer \<^verbatim>\<open>ByteBuilder\<close>) interpret the locale
  \<open>byte_sink\<close>.  The main facts are that a written varint reads back as the same number and that
  every writer appends exactly the same bytes to either sink.
\<close>

unbundle bit_operations_syntax


section \<open>Wire types\<close>

definition WIRE_VARINT :: nat where "WIRE_VARINT = 0"
definition WIRE_FIXED64 :: nat where "WIRE_FIXED64 = 1"
definition WIRE_LENGTH_DELIMITED :: nat where "WIRE_LENGTH_DELIMITED = 2"
definition WIRE_FIXED32 :: nat where "WIRE_FIXED32 = 5"

lemmas wire_defs = WIRE_VARINT_def WIRE_FIXED64_def WIRE_LENGTH_DELIMITED_def WIRE_FIXED32_def

section \<open>The reader\<close>

datatype pprof_error =
    VarintUnexpectedEnd
  | VarintTooLong
  | ReadBytesOutOfRange
  | UnsupportedWireType nat
  | DecompressionFailed

record reader =
  buf :: "byte list"
  pos :: nat

definition new_Reader :: "byte list \<Rightarrow> reader" where
  "new_Reader b = \<lparr>buf = b, pos = 0\<rparr>"

definition eof :: "reader \<Rightarrow> bool" where
  "eof r = (length (buf r) \<le> pos r)"

definition position :: "reader \<Rightarrow> nat" where
  "position r = pos r"

text \<open>The body of the \<^verbatim>\<open>while (true)\<close> loop of \<^verbatim>\<open>readVarint\<close>; its locals are the arguments.\<close>

function readVarint_loop :: "reader \<Rightarrow> nat \<Rightarrow> nat \<Rightarrow> pprof_error + (nat \<times> reader)" where
  "readVarint_loop r result shift =
     (if length (buf r) \<le> pos r then Inl VarintUnexpectedEnd
      else let byt = buf r ! pos r; r' = r\<lparr>pos := pos r + 1\<rparr>;
               result' = js_add result (unat (byt AND 0x7F) * 2 ^ shift)
           in if byt AND 0x80 = 0 then Inr (result', r')
              else let shift' = shift + 7
                   in if 63 < shift' then Inl VarintTooLong else readVarint_loop r' result' shift')"
  by pat_completeness auto
termination
  by (relation "measure (\<lambda>(r, result, shift). length (buf r) - pos r)") auto

declare readVarint_loop.simps [simp del]

definition readVarint :: "reader \<Rightarrow> pprof_error + (nat \<times> reader)" where
  "readVarint r = readVarint_loop r 0 0"

definition readBytes :: "reader \<Rightarrow> nat \<Rightarrow> pprof_error + (byte list \<times> reader)" where
  "readBytes r len =
     (if length (buf r) < js_add (pos r) len then Inl ReadBytesOutOfRange
      else Inr (take len (drop (pos r) (buf r)), r\<lparr>pos := js_add (pos r) len\<rparr>))"

text \<open>\<^verbatim>\<open>TextDecoder\<close> belongs to the host, so the decoder takes it as the argument \<open>dec\<close>.\<close>

definition readString :: "(byte list \<Rightarrow> string) \<Rightarrow> reader \<Rightarrow> nat \<Rightarrow> pprof_error + (string \<times> reader)" where
  "readString dec r len = res_bind (readBytes r len) (\<lambda>(bytes, r'). Inr (dec bytes, r'))"

definition skipField :: "reader \<Rightarrow> nat \<Rightarrow> pprof_error + reader" where
  "skipField r wireType =
     (if wireType = WIRE_VARINT then res_bind (readVarint r) (\<lambda>(_, r'). Inr r')
      else if wireType = WIRE_FIXED64 then Inr (r\<lparr>pos := js_add (pos r) 8\<rparr>)
      else if wireType = WIRE_LENGTH_DELIMITED then
        res_bind (readVarint r) (\<lambda>(len, r'). Inr (r'\<lparr>pos := js_add (pos r') len\<rparr>))
      else if wireType = WIRE_FIXED32 then Inr (r\<lparr>pos := js_add (pos r) 4\<rparr>)
      else Inl (UnsupportedWireType wireType))"

text \<open>\<^verbatim>\<open>tag >>> 3\<close> and \<^verbatim>\<open>tag & 7\<close>: both operators first convert the number to 32 bits.\<close>

definition tag_field :: "nat \<Rightarrow> nat" where
  "tag_field tag = unat (drop_bit 3 (of_nat tag :: 32 word))"

definition tag_wire :: "nat \<Rightarrow> nat" where
  "tag_wire tag = unat ((of_nat tag :: 32 word) AND 7)"

section \<open>The sinks\<close>

text \<open>
  \<^verbatim>\<open>ByteBuilder\<close>: a buffer of a fixed capacity, doubled when it is full.  \<open>bytes\<close> is its
  private field \<^verbatim>\<open>buf\<close> and \<open>used\<close> its field \<^verbatim>\<open>len\<close>.
\<close>

record byte_builder =
  bytes :: "byte list"
  used :: nat

definition new_ByteBuilder :: byte_builder where
  "new_ByteBuilder = \<lparr>bytes = replicate (1024 * 16) 0, used = 0\<rparr>"

definition builder_push :: "byte_builder \<Rightarrow> byte \<Rightarrow> byte_builder" where
  "builder_push b x =
     (let b' = (if length (bytes b) \<le> used b
                then b\<lparr>bytes := bytes b @ replicate (length (bytes b) * 2 - length (bytes b)) 0\<rparr> else b)
      in b'\<lparr>bytes := (bytes b')[used b' := x], used := used b' + 1\<rparr>)"

definition builder_toArray :: "byte_builder \<Rightarrow> byte list" where
  "builder_toArray b = take (used b) (bytes b)"

definition builder_inv :: "byte_builder \<Rightarrow> bool" where
  "builder_inv b \<longleftrightarrow> used b \<le> length (bytes b) \<and> 0 < length (bytes b)"

text \<open>A plain array of numbers is the other sink.\<close>

definition array_push :: "byte list \<Rightarrow> byte \<Rightarrow> byte list" where
  "array_push xs x = xs @ [x]"

section \<open>The writers\<close>

text \<open>
  \<^verbatim>\<open>value & 0x7f\<close> converts to 32 bits first; \<^verbatim>\<open>Math.floor(value / 128)\<close> is exact because the
  division only lowers the exponent.
\<close>

definition low7 :: "nat \<Rightarrow> byte" where
  "low7 v = ucast ((of_nat v :: 32 word) AND 0x7F)"

definition low7_more :: "nat \<Rightarrow> byte" where
  "low7_more v = ucast (((of_nat v :: 32 word) AND 0x7F) OR 0x80)"

function writeVarint :: "('s \<Rightarrow> byte \<Rightarrow> 's) \<Rightarrow> 's \<Rightarrow> nat \<Rightarrow> 's" where
  "writeVarint push out v =
     (if 0x80 \<le> v then writeVarint push (push out (low7_more v)) (v div 128)
      else push out (low7 v))"
  by pat_completeness auto
termination
  by (relation "measure (\<lambda>(push, out, v). v)") auto

declare writeVarint.simps [simp del]

definition writeTag :: "('s \<Rightarrow> byte \<Rightarrow> 's) \<Rightarrow> 's \<Rightarrow> nat \<Rightarrow> nat \<Rightarrow> 's" where
  "writeTag push out fieldNum wireType =
     writeVarint push out (unat ((push_bit 3 (of_nat fieldNum) :: 32 word) OR of_nat wireType))"

definition writeLengthDelimited :: "('s \<Rightarrow> byte \<Rightarrow> 's) \<Rightarrow> 's \<Rightarrow> nat \<Rightarrow> byte list \<Rightarrow> 's" where
  "writeLengthDelimited push out fieldNum bs =
     foldl push (writeVarint push (writeTag push out fieldNum WIRE_LENGTH_DELIMITED) (length bs)) bs"

text \<open>\<^verbatim>\<open>TextEncoder\<close> belongs to the host too: the argument \<open>enc\<close>.\<close>

definition writeString :: "(string \<Rightarrow> byte list) \<Rightarrow> ('s \<Rightarrow> byte \<Rightarrow> 's) \<Rightarrow> 's \<Rightarrow> nat \<Rightarrow> string \<Rightarrow> 's" where
  "writeString enc push out fieldNum str = writeLengthDelimited push out fieldNum (enc str)"

definition writePackedVarints :: "('s \<Rightarrow> byte \<Rightarrow> 's) \<Rightarrow> 's \<Rightarrow> nat \<Rightarrow> nat list \<Rightarrow> 's" where
  "writePackedVarints push out fieldNum vals =
     (if vals = [] then out
      else writeLengthDelimited push out fieldNum (foldl (writeVarint array_push) [] vals))"

section \<open>The reader only moves forward\<close>

definition reader_le :: "reader \<Rightarrow> reader \<Rightarrow> bool" where
  "reader_le r r' \<longleftrightarrow> buf r' = buf r \<and> pos r \<le> pos r'"

definition reader_lt :: "reader \<Rightarrow> reader \<Rightarrow> bool" where
  "reader_lt r r' \<longleftrightarrow> buf r' = buf r \<and> pos r < pos r' \<and> pos r < length (buf r)"

lemma readVarint_loop_lt: "readVarint_loop r acc sh = Inr (v, r') \<Longrightarrow> reader_lt r r' \<and> pos r' \<le> length (buf r)"
proof (induction r acc sh rule: readVarint_loop.induct)
  case (1 r acc sh)
  from "1.prems" have in_range: "pos r < length (buf r)"
    by (subst (asm) readVarint_loop.simps) (auto split: if_splits)
  show ?case
  proof (cases "buf r ! pos r AND 0x80 = 0")
    case True
    with "1.prems" in_range show ?thesis
      by (subst (asm) readVarint_loop.simps) (auto simp: reader_lt_def Let_def)
  next
    case False
    with "1.prems" in_range have "\<not> 63 < sh + 7"
      and "readVarint_loop (r\<lparr>pos := pos r + 1\<rparr>)
        (js_add acc (unat (buf r ! pos r AND 0x7F) * 2 ^ sh)) (sh + 7) = Inr (v, r')"
      by (subst (asm) readVarint_loop.simps, simp add: Let_def split: if_splits)+
    with "1.IH" False in_range show ?thesis
      by (fastforce simp: reader_lt_def not_le)
  qed
qed

lemma readVarint_lt: "readVarint r = Inr (v, r') \<Longrightarrow> reader_lt r r'"
  using readVarint_loop_lt by (auto simp: readVarint_def)

lemma readVarint_end: "readVarint r = Inr (v, r') \<Longrightarrow> pos r' \<le> length (buf r)"
  using readVarint_loop_lt by (auto simp: readVarint_def)

lemma reader_le_refl [simp]: "reader_le r r"
  by (simp add: reader_le_def)

lemma reader_le_trans: "reader_le r s \<Longrightarrow> reader_le s t \<Longrightarrow> reader_le r t"
  by (auto simp: reader_le_def)

lemma reader_lt_le_trans: "reader_lt r s \<Longrightarrow> reader_le s t \<Longrightarrow> reader_lt r t"
  by (auto simp: reader_le_def reader_lt_def)

lemma reader_lt_imp_le: "reader_lt r s \<Longrightarrow> reader_le r s"
  by (auto simp: reader_le_def reader_lt_def)

lemma readVarint_le [reader_mono]: "readVarint r = Inr (v, r') \<Longrightarrow> reader_le r r'"
  by (rule reader_lt_imp_le [OF readVarint_lt])

lemma readBytes_le [reader_mono]: "readBytes r n = Inr (bs, r') \<Longrightarrow> reader_le r r'"
  by (auto simp: readBytes_def reader_le_def split: if_splits)

lemma readString_le [reader_mono]: "readString dec r n = Inr (x, r') \<Longrightarrow> reader_le r r'"
  by (auto simp: readString_def dest: readBytes_le)

lemma reader_le_skip: "reader_le r s \<Longrightarrow> reader_le r (s\<lparr>pos := js_add (pos s) n\<rparr>)"
  by (auto simp: reader_le_def intro: le_trans)

lemma skipField_le [reader_mono]: "skipField r w = Inr r' \<Longrightarrow> reader_le r r'"
  by (auto simp: skipField_def reader_le_skip split: if_splits dest: readVarint_le)

section \<open>Words and numbers\<close>

lemma unat_and_127:
  fixes w :: "'a::len word"
  assumes "7 \<le> LENGTH('a)"
  shows "unat (w AND 0x7F) = unat w mod 128"
proof -
  have "unat (w AND 0x7F) = unat (take_bit 7 w)"
    by (simp only: take_bit_eq_mask mask_eq_exp_minus_1) simp
  also have "\<dots> = take_bit 7 (unat w)"
    by (rule unsigned_take_bit_eq)
  finally show ?thesis by (simp add: take_bit_eq_mod)
qed

lemma and_128_eq_0:
  fixes w :: byte
  shows "w AND 0x80 = 0 \<longleftrightarrow> unat w < 128"
proof -
  have "w AND 0x80 = 0 \<longleftrightarrow> \<not> bit w 7"
    using and_exp_eq_0_iff_not_bit [of w 7] by simp
  also have "\<dots> \<longleftrightarrow> \<not> bit (unat w) 7"
    by (simp add: bit_unsigned_iff)
  also have "\<dots> \<longleftrightarrow> even (unat w div 128)"
    by (simp add: bit_iff_odd)
  finally have iff: "w AND 0x80 = 0 \<longleftrightarrow> even (unat w div 128)" .
  have "unat w < 2 ^ LENGTH(8)" by (rule unsigned_less)
  then have "unat w < 2 * 128" by simp
  then have "unat w div 128 < 2" by (rule less_mult_imp_div_less)
  then have "even (unat w div 128) \<longleftrightarrow> unat w div 128 = 0" by auto
  then show ?thesis unfolding iff by (simp add: div_eq_0_iff)
qed

lemma unat_of_nat_low: "unat ((of_nat v :: 32 word) AND 0x7F) = v mod 128"
  by (simp add: unat_and_127 unat_of_nat mod_mod_cancel)

lemma unat_low7: "unat (low7 v) = v mod 128"
  by (simp add: low7_def unsigned_ucast_eq take_bit_eq_mod unat_of_nat_low mod_less [OF less_trans [of _ 128]])

lemma unat_low7_more: "unat (low7_more v) = 128 + v mod 128"
proof -
  have lt: "v mod 128 < 128" by simp
  have "((of_nat v :: 32 word) AND 0x7F) AND 0x80 = 0"
    by (simp add: ac_simps)
  then have "((of_nat v :: 32 word) AND 0x7F) OR 0x80 = ((of_nat v :: 32 word) AND 0x7F) + 0x80"
    by (simp add: disjunctive_add_eq_or)
  then have "unat (((of_nat v :: 32 word) AND 0x7F) OR 0x80) = v mod 128 + 128"
    using lt by (simp add: unat_word_ariths unat_of_nat_low)
  then show ?thesis using lt by (simp add: low7_more_def unsigned_ucast_eq take_bit_eq_mod)
qed

lemma tag_field_wire:
  assumes "w < 8" and "f < 2 ^ 29"
  shows "tag_field (8 * f + w) = f" and "tag_wire (8 * f + w) = w"
proof -
  have u: "unat (of_nat (8 * f + w) :: 32 word) = 8 * f + w"
    using assms by (simp only: unat_of_nat) simp
  show "tag_field (8 * f + w) = f"
    using assms unsigned_drop_bit_eq [of 3 "of_nat (8 * f + w) :: 32 word", where 'a = nat]
    by (simp only: tag_field_def u) (simp add: drop_bit_eq_div take_bit_eq_mod)
  have "unat ((of_nat (8 * f + w) :: 32 word) AND 7) = unat (take_bit 3 (of_nat (8 * f + w) :: 32 word))"
    by (simp only: take_bit_eq_mask mask_eq_exp_minus_1) simp
  also have "\<dots> = take_bit 3 (8 * f + w)"
    by (simp only: unsigned_take_bit_eq u)
  finally show "tag_wire (8 * f + w) = w"
    using assms by (simp add: tag_wire_def take_bit_eq_mod)
qed

section \<open>What the writers append\<close>

text \<open>The bytes of one varint, and of one field header.\<close>

definition varint :: "nat \<Rightarrow> byte list" where
  "varint v = writeVarint array_push [] v"

definition tag_bytes :: "nat \<Rightarrow> nat \<Rightarrow> byte list" where
  "tag_bytes f w = varint (8 * f + w)"

definition delimited :: "nat \<Rightarrow> byte list \<Rightarrow> byte list" where
  "delimited f bs = tag_bytes f WIRE_LENGTH_DELIMITED @ varint (length bs) @ bs"

lemma writeVarint_array: "writeVarint array_push out v = out @ varint v"
proof (induction v arbitrary: out rule: less_induct)
  case (less v)
  show ?case
  proof (cases "0x80 \<le> v")
    case True
    then have "v div 128 < v" by simp
    note IH = less.IH [OF this]
    have "writeVarint array_push out v = out @ [low7_more v] @ varint (v div 128)" for out
      using True IH [of "out @ [low7_more v]"] by (subst writeVarint.simps) (simp add: array_push_def [of out])
    then show ?thesis by (simp add: varint_def)
  next
    case False
    then show ?thesis by (simp add: writeVarint.simps [of _ _ v] varint_def array_push_def)
  qed
qed

lemma varint_unfold: "varint v = (if 0x80 \<le> v then low7_more v # varint (v div 128) else [low7 v])"
proof (cases "0x80 \<le> v")
  case True
  then have "varint v = writeVarint array_push [low7_more v] (v div 128)"
    unfolding varint_def by (subst writeVarint.simps) (simp add: array_push_def)
  then show ?thesis using True by (simp add: writeVarint_array)
qed (simp add: varint_def writeVarint.simps [of _ _ v] array_push_def)

lemma varint_nonempty [simp]: "varint v \<noteq> []"
  by (subst varint_unfold) simp

lemma foldl_writeVarint_array:
  "foldl (writeVarint array_push) out vs = out @ concat (map varint vs)"
  by (induction vs arbitrary: out) (auto simp: writeVarint_array)

lemma tag_value:
  assumes "w < 8" and "f < 2 ^ 29"
  shows "unat ((push_bit 3 (of_nat f) :: 32 word) OR of_nat w) = 8 * f + w"
proof -
  have sh: "push_bit 3 (of_nat f) = (of_nat (8 * f) :: 32 word)"
    by (simp add: push_bit_eq_mult)
  have small: "\<not> bit w n" if "3 \<le> n" for n
  proof -
    have "(2::nat) ^ 3 \<le> 2 ^ n" using that by (intro power_increasing) auto
    then have "w < 2 ^ n" using assms(1) by simp
    then show ?thesis by (simp add: bit_iff_odd)
  qed
  have "push_bit 3 (of_nat f :: 32 word) AND of_nat w = 0"
    by (rule bit_word_eqI) (auto simp: bit_simps dest: small)
  then have "(push_bit 3 (of_nat f) :: 32 word) OR of_nat w = of_nat (8 * f + w)"
    by (simp add: disjunctive_add_eq_or [symmetric] sh)
  then show ?thesis using assms by (simp only: unat_of_nat) simp
qed

text \<open>The interface \<^verbatim>\<open>ByteSink\<close>: a push appends one byte to what the sink holds.\<close>

locale byte_sink =
  fixes push :: "'s \<Rightarrow> byte \<Rightarrow> 's"
    and contents :: "'s \<Rightarrow> byte list"
    and inv :: "'s \<Rightarrow> bool"
  assumes contents_push: "inv s \<Longrightarrow> contents (push s b) = contents s @ [b]"
    and inv_push: "inv s \<Longrightarrow> inv (push s b)"
begin

lemma sink_foldl: "inv s \<Longrightarrow> inv (foldl push s bs) \<and> contents (foldl push s bs) = contents s @ bs"
  by (induction bs arbitrary: s) (auto simp: contents_push inv_push)

lemma sink_writeVarint:
  "inv s \<Longrightarrow> inv (writeVarint push s v) \<and> contents (writeVarint push s v) = contents s @ varint v"
proof (induction v arbitrary: s rule: less_induct)
  case (less v)
  show ?case
  proof (cases "0x80 \<le> v")
    case True
    with less.IH [of "v div 128" "push s (low7_more v)"] less.prems show ?thesis
      by (subst writeVarint.simps, subst (2) writeVarint.simps)
        (simp add: contents_push inv_push varint_unfold [of v])
  next
    case False
    with less.prems show ?thesis
      by (simp add: writeVarint.simps [of _ _ v] varint_unfold [of v] contents_push inv_push)
  qed
qed

lemma sink_writeTag:
  assumes "inv s" and "w < 8" and "f < 2 ^ 29"
  shows "inv (writeTag push s f w) \<and> contents (writeTag push s f w) = contents s @ tag_bytes f w"
  using sink_writeVarint [OF assms(1)] assms(2,3) by (simp add: writeTag_def tag_value tag_bytes_def)

lemma sink_writeLengthDelimited:
  assumes "inv s" and "f < 2 ^ 29"
  shows "inv (writeLengthDelimited push s f bs) \<and>
    contents (writeLengthDelimited push s f bs) = contents s @ delimited f bs"
proof -
  have "WIRE_LENGTH_DELIMITED < 8" by (simp add: wire_defs)
  note t = sink_writeTag [OF assms(1) this assms(2)]
  note v = sink_writeVarint [OF conjunct1 [OF t], of "length bs"]
  show ?thesis
    using t v sink_foldl [OF conjunct1 [OF v], of bs]
    by (simp add: writeLengthDelimited_def delimited_def)
qed

lemma sink_writePackedVarints:
  assumes "inv s" and "f < 2 ^ 29"
  shows "inv (writePackedVarints push s f vs) \<and> contents (writePackedVarints push s f vs) =
    contents s @ (if vs = [] then [] else delimited f (concat (map varint vs)))"
  using sink_writeLengthDelimited [OF assms] assms(1)
  by (simp add: writePackedVarints_def foldl_writeVarint_array)

end

interpretation array_sink: byte_sink array_push "\<lambda>xs. xs" "\<lambda>_. True"
  by unfold_locales (simp_all add: array_push_def)

lemma builder_push_inv: "builder_inv b \<Longrightarrow> builder_inv (builder_push b x)"
  by (auto simp: builder_inv_def builder_push_def Let_def Suc_le_eq)

lemma builder_push_toArray: "builder_inv b \<Longrightarrow> builder_toArray (builder_push b x) = builder_toArray b @ [x]"
  by (auto simp: builder_inv_def builder_toArray_def builder_push_def Let_def take_Suc_conv_app_nth)

interpretation builder_sink: byte_sink builder_push builder_toArray builder_inv
  by unfold_locales (simp_all add: builder_push_inv builder_push_toArray)

lemma new_ByteBuilder_inv: "builder_inv new_ByteBuilder" "builder_toArray new_ByteBuilder = []"
  by (simp_all add: builder_inv_def new_ByteBuilder_def builder_toArray_def)

section \<open>Reading back what was written\<close>

text \<open>The bytes still to be read, and moving over \<open>n\<close> of them.\<close>

definition rest :: "reader \<Rightarrow> byte list" where
  "rest r = drop (pos r) (buf r)"

definition advance :: "nat \<Rightarrow> reader \<Rightarrow> reader" where
  "advance n r = r\<lparr>pos := pos r + n\<rparr>"

lemma rest_advance: "rest r = bs @ t \<Longrightarrow> rest (advance (length bs) r) = t"
  by (auto simp: rest_def advance_def add.commute simp flip: drop_drop)

lemma advance_advance [simp]: "advance m (advance n r) = advance (n + m) r"
  by (simp add: advance_def)

lemma advance_0 [simp]: "advance 0 r = r"
  by (simp add: advance_def)

lemma advance_simps [simp]: "buf (advance n r) = buf r" "pos (advance n r) = pos r + n"
  by (simp_all add: advance_def)

lemma rest_length:
  assumes "rest r = bs @ t" and "bs \<noteq> []"
  shows "pos r + length bs \<le> length (buf r)"
proof -
  have "length (rest r) = length (buf r) - pos r" by (simp add: rest_def)
  moreover have "length bs \<le> length (rest r)" using assms(1) by simp
  moreover have "0 < length bs" using assms(2) by simp
  ultimately show ?thesis by linarith
qed

lemma rest_Cons:
  assumes "rest r = b # t"
  shows "pos r < length (buf r)" and "buf r ! pos r = b" and "rest (advance 1 r) = t"
proof -
  show lt: "pos r < length (buf r)"
    using rest_length [of r "[b]" t] assms by simp
  show "buf r ! pos r = b"
    using assms lt by (simp add: rest_def hd_drop_conv_nth [symmetric])
  show "rest (advance 1 r) = t"
    using rest_advance [of r "[b]" t] assms by simp
qed

lemma readVarint_loop_varint:
  assumes "rest r = varint v @ t" and "acc + v * 2 ^ sh < 2 ^ 53"
  shows "readVarint_loop r acc sh = Inr (acc + v * 2 ^ sh, advance (length (varint v)) r)"
  using assms
proof (induction v arbitrary: r acc sh rule: less_induct)
  case (less v)
  show ?case
  proof (cases "0x80 \<le> v")
    case True
    then have vi: "varint v = low7_more v # varint (v div 128)" by (simp add: varint_unfold [of v])
    with less.prems(1) have "rest r = low7_more v # (varint (v div 128) @ t)" by simp
    note R = rest_Cons [OF this]
    have split: "v * 2 ^ sh = (v mod 128) * 2 ^ sh + (v div 128) * 2 ^ (sh + 7)"
    proof -
      define a where a: "a = v mod 128"
      define b where b: "b = v div 128"
      have "v = a + 128 * b" by (simp add: a b)
      then have "v * 2 ^ sh = a * 2 ^ sh + b * 2 ^ (sh + 7)" by (simp add: power_add algebra_simps)
      then show ?thesis by (simp only: a b)
    qed
    have "(2::nat) ^ (sh + 7) \<le> v * 2 ^ sh" using True by (simp add: power_add)
    then have "(2::nat) ^ (sh + 7) < 2 ^ 53" using less.prems(2) by linarith
    then have sh: "sh + 7 < 53" by (auto simp only: power_strict_increasing_iff one_less_numeral_iff semiring_norm)
    have top: "low7_more v AND 0x80 \<noteq> 0" by (simp add: and_128_eq_0 unat_low7_more)
    have low: "unat (low7_more v AND 0x7F) = v mod 128" by (simp add: unat_and_127 unat_low7_more)
    have add: "js_add acc (v mod 128 * 2 ^ sh) = acc + v mod 128 * 2 ^ sh"
      using less.prems(2) split by (intro js_add_exact) linarith
    have "readVarint_loop r acc sh = readVarint_loop (advance 1 r) (acc + v mod 128 * 2 ^ sh) (sh + 7)"
      using R(1,2) top sh by (subst readVarint_loop.simps) (simp add: Let_def low add advance_def)
    also have "\<dots> = Inr (acc + v mod 128 * 2 ^ sh + v div 128 * 2 ^ (sh + 7),
        advance (length (varint (v div 128))) (advance 1 r))"
      using True less.prems(2) split by (intro less.IH R(3)) auto
    finally show ?thesis using vi split by (simp add: add.assoc)
  next
    case False
    then have vi: "varint v = [low7 v]" by (simp add: varint_unfold [of v])
    with less.prems(1) have "rest r = low7 v # t" by simp
    note R = rest_Cons [OF this]
    from False have "v mod 128 = v" by simp
    then have "low7 v AND 0x80 = 0" and "unat (low7 v AND 0x7F) = v"
      using False by (simp_all add: and_128_eq_0 unat_low7 unat_and_127)
    with R(1,2) less.prems(2) show ?thesis
      by (subst readVarint_loop.simps) (simp add: Let_def vi js_add_exact advance_def)
  qed
qed

text \<open>A varint reads back as the number that was written, and the reader stands right after it.\<close>

lemma readVarint_varint:
  assumes "rest r = varint v @ t" and "v < 2 ^ 53"
  shows "readVarint r = Inr (v, advance (length (varint v)) r)"
  using readVarint_loop_varint [of r v t 0 0] assms by (simp add: readVarint_def)

lemma readBytes_rest:
  assumes "rest r = bs @ t" and "pos r + length bs \<le> length (buf r)" and "length (buf r) < 2 ^ 53"
  shows "readBytes r (length bs) = Inr (bs, advance (length bs) r)"
proof -
  have "js_add (pos r) (length bs) = pos r + length bs" using assms(2,3) by (intro js_add_exact) linarith
  then show ?thesis using assms by (simp add: readBytes_def rest_def advance_def)
qed

section \<open>Properties\<close>

text \<open>A varint written by \<^verbatim>\<open>writeVarint\<close> anywhere in a buffer reads back as the same number with the
  reader right behind it, for every number up to \<open>2 ^ 53\<close>.
\<close>

theorem varint_roundtrip:
  assumes "v < 2 ^ 53"
  shows "readVarint \<lparr>buf = before @ writeVarint array_push [] v @ after, pos = length before\<rparr> =
    Inr (v, \<lparr>buf = before @ writeVarint array_push [] v @ after,
             pos = length before + length (writeVarint array_push [] v)\<rparr>)"
proof -
  have "readVarint \<lparr>buf = before @ varint v @ after, pos = length before\<rparr> =
      Inr (v, advance (length (varint v)) \<lparr>buf = before @ varint v @ after, pos = length before\<rparr>)"
    by (rule readVarint_varint [OF _ assms]) (simp add: rest_def)
  then show ?thesis by (simp add: advance_def varint_def)
qed

theorem varint_roundtrip_witness:
  "readVarint \<lparr>buf = [7] @ writeVarint array_push [] 300 @ [9], pos = length [7 :: byte]\<rparr> =
    Inr (300, \<lparr>buf = [7] @ writeVarint array_push [] 300 @ [9],
               pos = length [7 :: byte] + length (writeVarint array_push [] 300)\<rparr>)"
  by (rule varint_roundtrip) simp

lemma readVarint_loop_bound:
  "readVarint_loop r acc sh = Inr (v, r') \<Longrightarrow> sh \<le> 63 \<Longrightarrow> 7 * (pos r' - pos r) + sh \<le> 70"
proof (induction r acc sh rule: readVarint_loop.induct)
  case (1 r acc sh)
  show ?case
  proof (cases "buf r ! pos r AND 0x80 = 0")
    case True
    with "1.prems" show ?thesis
      by (subst (asm) readVarint_loop.simps) (auto simp: Let_def split: if_splits)
  next
    case False
    with "1.prems" have in_range: "\<not> length (buf r) \<le> pos r" and sh: "\<not> 63 < sh + 7"
      and rec: "readVarint_loop (r\<lparr>pos := pos r + 1\<rparr>)
        (js_add acc (unat (buf r ! pos r AND 0x7F) * 2 ^ sh)) (sh + 7) = Inr (v, r')"
      by (subst (asm) readVarint_loop.simps, simp add: Let_def split: if_splits)+
    from "1.IH" [OF in_range refl refl refl False refl sh rec] sh
    have "7 * (pos r' - (pos r + 1)) + (sh + 7) \<le> 70" by simp
    moreover have "pos r + 1 \<le> pos r'"
      using readVarint_loop_lt [OF rec] by (simp add: reader_lt_def)
    ultimately show ?thesis by simp
  qed
qed

text \<open>Reading a varint from any buffer either throws or consumes between one and ten bytes, all of
  them inside the buffer; the buffer is never changed.
\<close>

theorem readVarint_in_bounds:
  assumes "readVarint r = Inr (v, r')"
  shows "buf r' = buf r \<and> pos r < pos r' \<and> pos r' \<le> length (buf r) \<and> pos r' - pos r \<le> 10"
proof -
  from assms have "readVarint_loop r 0 0 = Inr (v, r')" by (simp add: readVarint_def)
  from readVarint_loop_lt [OF this] readVarint_loop_bound [OF this]
  show ?thesis by (auto simp: reader_lt_def)
qed

theorem readVarint_in_bounds_witness:
  "buf \<lparr>buf = [0xAC, 0x02, 0x09], pos = 2\<rparr> = buf \<lparr>buf = [0xAC, 0x02, 0x09], pos = 0\<rparr>
   \<and> pos \<lparr>buf = [0xAC, 0x02, 0x09 :: byte], pos = 2\<rparr> - pos \<lparr>buf = [0xAC, 0x02, 0x09 :: byte], pos = 0\<rparr> \<le> 10"
proof -
  have "readVarint \<lparr>buf = [0xAC, 0x02, 0x09], pos = 0\<rparr> = Inr (300, \<lparr>buf = [0xAC, 0x02, 0x09], pos = 2\<rparr>)"
    by (simp add: readVarint_def readVarint_loop.simps js_add_exact)
  from readVarint_in_bounds [OF this] show ?thesis by simp
qed

text \<open>
  C24: The growing buffer \<^verbatim>\<open>ByteBuilder\<close> implements the plain array: after any sequence of pushes,
  across every doubling of its capacity, its contents are exactly the bytes pushed, in order.
\<close>

theorem builder_refines_array:
  "builder_toArray (foldl builder_push new_ByteBuilder bs) = foldl array_push [] bs"
  using builder_sink.sink_foldl [OF new_ByteBuilder_inv(1), of bs] array_sink.sink_foldl [of "[]" bs]
  by (simp add: new_ByteBuilder_inv)

end
