(* ===== verification/Pprof_Codec.thy ===== *)
theory Pprof_Codec
  imports Pprof_Wire
begin

text \<open>
  The message layer of \<^verbatim>\<open>packages/pprof-decoder/src/index.ts\<close>: the five message types, one decoder
  and one encoder per message, and the top-level \<^verbatim>\<open>decodePprof\<close>, \<^verbatim>\<open>encodePprof\<close> and
  \<^verbatim>\<open>decodePprofBlob\<close>.  Every decoder is a loop \<^verbatim>\<open>while (r.position < end)\<close> over fields; the locale
  \<open>message_loop\<close> holds what all of them share, and each decoder interprets it.  The result is that
  decoding an encoded profile gives the profile back.
\<close>

section \<open>Messages\<close>

record pprof_label =
  keyIdx :: nat
  strIdx :: nat
  lnum :: nat

record pprof_sample =
  locationIds :: "nat list"
  svalues :: "nat list"
  labels :: "pprof_label list"

record pprof_line =
  functionId :: nat
  line :: nat

record pprof_location =
  loc_id :: nat
  lines :: "pprof_line list"
  functionIds :: "nat list"

record pprof_function =
  fn_id :: nat
  nameIdx :: nat
  filenameIdx :: nat

record pprof_value_type =
  typeIdx :: nat
  unitIdx :: nat

record pprof_profile =
  sampleTypes :: "pprof_value_type list"
  samples :: "pprof_sample list"
  locationTable :: "(nat, pprof_location) js_map"
  functionTable :: "(nat, pprof_function) js_map"
  stringTable :: "string list"

section \<open>What the decoding loops share\<close>

text \<open>
  \<open>field_seq step x bs x'\<close>: the bytes \<open>bs\<close> are a sequence of fields which the body of a decoding loop
  turns, one after the other, from \<open>x\<close> into \<open>x'\<close>.
\<close>

inductive field_seq ::
  "('a \<Rightarrow> nat \<Rightarrow> nat \<Rightarrow> reader \<Rightarrow> pprof_error + ('a \<times> reader)) \<Rightarrow> 'a \<Rightarrow> byte list \<Rightarrow> 'a \<Rightarrow> bool"
  for step where
  seq_done: "field_seq step x [] x"
| seq_more: "f < 2 ^ 29 \<Longrightarrow> w < 8 \<Longrightarrow>
    (\<And>r t. rest r = body @ t \<Longrightarrow> pos r + length body \<le> length (buf r) \<Longrightarrow> length (buf r) < 2 ^ 53 \<Longrightarrow>
       step x f w r = Inr (x1, advance (length body) r)) \<Longrightarrow>
    field_seq step x1 bs x' \<Longrightarrow> field_seq step x (tag_bytes f w @ body @ bs) x'"

lemma fields_append: "field_seq step x bs y \<Longrightarrow> field_seq step y bs' z \<Longrightarrow> field_seq step x (bs @ bs') z"
proof (induction rule: field_seq.induct)
  case (seq_more f w body x x1 bs x')
  then have "field_seq step x (tag_bytes f w @ body @ (bs @ bs')) z"
    by (intro field_seq.seq_more) auto
  then show ?case by simp
qed auto

text \<open>A decoder of one message reads exactly \<open>m\<close> and returns \<open>y\<close>.\<close>

definition decodes :: "(reader \<Rightarrow> nat \<Rightarrow> pprof_error + ('a \<times> reader)) \<Rightarrow> byte list \<Rightarrow> 'a \<Rightarrow> bool" where
  "decodes d m y \<longleftrightarrow> (\<forall>r t. rest r = m @ t \<longrightarrow> pos r + length m \<le> length (buf r) \<longrightarrow>
     length (buf r) < 2 ^ 53 \<longrightarrow> d r (length m) = Inr (y, advance (length m) r))"

text \<open>Fields of the two wire types the encoder emits.\<close>

lemma fields_varint:
  assumes "f < 2 ^ 29" and "v < 2 ^ 53"
    and "\<And>r. step x f WIRE_VARINT r = res_bind (readVarint r) (\<lambda>(v, r'). Inr (upd v, r'))"
  shows "field_seq step x (tag_bytes f WIRE_VARINT @ varint v) (upd v)"
proof -
  have "field_seq step x (tag_bytes f WIRE_VARINT @ varint v @ []) (upd v)"
    using assms by (intro seq_more [where ?x1.0 = "upd v"] seq_done)
      (auto simp: readVarint_varint wire_defs)
  then show ?thesis by simp
qed

lemma fields_message:
  assumes "f < 2 ^ 29" and "decodes d m y"
    and "\<And>r. step x f WIRE_LENGTH_DELIMITED r =
      res_bind (readVarint r) (\<lambda>(len, r'). res_bind (d r' len) (\<lambda>(y, r''). Inr (upd y, r'')))"
  shows "field_seq step x (delimited f m) (upd y)"
proof -
  have "step x f WIRE_LENGTH_DELIMITED r = Inr (upd y, advance (length (varint (length m) @ m)) r)"
    if r: "rest r = (varint (length m) @ m) @ t"
      and le: "pos r + length (varint (length m) @ m) \<le> length (buf r)"
      and big: "length (buf r) < 2 ^ 53" for r t
  proof -
    let ?r = "advance (length (varint (length m))) r"
    have "readVarint r = Inr (length m, ?r)"
      using r le big by (intro readVarint_varint [where t = "m @ t"]) auto
    moreover have "rest ?r = m @ t"
      using r by (intro rest_advance) simp
    then have "d ?r (length m) = Inr (y, advance (length m) ?r)"
      using assms(2) le big unfolding decodes_def by (auto elim!: allE [of _ ?r])
    ultimately show ?thesis using assms(3) by simp
  qed
  then have "field_seq step x (tag_bytes f WIRE_LENGTH_DELIMITED @ (varint (length m) @ m) @ []) (upd y)"
    using assms(1) by (intro seq_more [where ?x1.0 = "upd y"] seq_done) (auto simp: wire_defs)
  then show ?thesis by (simp add: delimited_def)
qed

text \<open>A field that is written only when it is not zero, over a message that starts at zero.\<close>

definition opt_varint :: "nat \<Rightarrow> nat \<Rightarrow> byte list" where
  "opt_varint f v = (if v = 0 then [] else tag_bytes f WIRE_VARINT @ varint v)"

lemma fields_opt_varint:
  assumes "f < 2 ^ 29" and "v < 2 ^ 53"
    and "\<And>r. step x f WIRE_VARINT r = res_bind (readVarint r) (\<lambda>(v, r'). Inr (upd v, r'))"
    and "upd 0 = x"
  shows "field_seq step x (opt_varint f v) (upd v)"
  using fields_varint [OF assms(1,2), of step x upd] assms(3,4)
  by (cases "v = 0") (auto simp: opt_varint_def seq_done)

text \<open>
  The contract of a decoding loop: it is a \<^verbatim>\<open>while\<close> loop whose body reads a tag and lets \<open>step\<close>
  handle the field, and \<open>step\<close> never moves the reader backwards.
\<close>

locale message_loop =
  fixes step :: "'a \<Rightarrow> nat \<Rightarrow> nat \<Rightarrow> reader \<Rightarrow> pprof_error + ('a \<times> reader)"
    and cont :: "'e \<Rightarrow> reader \<Rightarrow> bool"
    and loop :: "'e \<Rightarrow> 'a \<Rightarrow> reader \<Rightarrow> pprof_error + ('a \<times> reader)"
  assumes unfold: "loop e x r =
      (if cont e r then res_bind (readVarint r) (\<lambda>(tag, r1).
         res_bind (step x (tag_field tag) (tag_wire tag) r1) (\<lambda>(x', r2). loop e x' r2))
       else Inr (x, r))"
    and step_le: "step x f w r = Inr (x', r') \<Longrightarrow> reader_le r r'"
begin

lemma loop_end: "loop e x r = Inr (x', r') \<Longrightarrow> reader_le r r' \<and> \<not> cont e r'"
proof (induction "length (buf r) - pos r" arbitrary: x r rule: less_induct)
  case less
  show ?case
  proof (cases "cont e r")
    case True
    with less.prems obtain tag r1 y r2
      where "readVarint r = Inr (tag, r1)" and "step x (tag_field tag) (tag_wire tag) r1 = Inr (y, r2)"
        and next_it: "loop e y r2 = Inr (x', r')"
      by (subst (asm) unfold) auto
    then have "reader_lt r r2"
      by (blast intro: reader_lt_le_trans readVarint_lt step_le)
    then have "buf r2 = buf r" and "pos r < pos r2" and "length (buf r2) - pos r2 < length (buf r) - pos r"
      by (auto simp: reader_lt_def)
    then show ?thesis
      using less.hyps [OF _ next_it] by (auto simp: reader_le_def)
  qed (use less.prems in \<open>auto simp: unfold [of e x r]\<close>)
qed

lemma loop_fields:
  assumes "field_seq step x bs x'" and "rest r = bs @ t" and "length (buf r) < 2 ^ 53"
    and "\<And>n. n < length bs \<Longrightarrow> cont e (advance n r)" and "\<not> cont e (advance (length bs) r)"
  shows "loop e x r = Inr (x', advance (length bs) r)"
  using assms
proof (induction arbitrary: r rule: field_seq.induct)
  case (seq_done x)
  then show ?case by (subst unfold) simp
next
  case (seq_more f w body x x1 bs x')
  let ?tag = "tag_bytes f w" and ?field = "tag_bytes f w @ body"
  have tag: "8 * f + w < 2 ^ 53" using seq_more.hyps(1,2) by simp
  have ne: "?tag \<noteq> []" by (simp add: tag_bytes_def)
  have "cont e r" using seq_more.prems(3) [of 0] ne by simp
  moreover have "readVarint r = Inr (8 * f + w, advance (length ?tag) r)"
    using seq_more.prems(1) tag unfolding tag_bytes_def
    by (intro readVarint_varint [where t = "body @ bs @ t"]) auto
  moreover have "rest (advance (length ?tag) r) = body @ bs @ t"
    using seq_more.prems(1) by (intro rest_advance) simp
  moreover have "pos r + length ?field \<le> length (buf r)"
    using seq_more.prems(1) ne by (intro rest_length [where t = "bs @ t"]) auto
  ultimately have "loop e x r = loop e x1 (advance (length ?field) r)"
    using seq_more.hyps(1-3) seq_more.prems(2)
    by (subst unfold) (simp add: tag_field_wire add.assoc)
  moreover have "loop e x1 (advance (length ?field) r) = Inr (x', advance (length bs) (advance (length ?field) r))"
  proof (rule seq_more.IH)
    show "rest (advance (length ?field) r) = bs @ t"
      using seq_more.prems(1) by (intro rest_advance) simp
    show "cont e (advance n (advance (length ?field) r))" if "n < length bs" for n
      using seq_more.prems(3) [of "length ?field + n"] that by simp
    show "\<not> cont e (advance (length bs) (advance (length ?field) r))"
      using seq_more.prems(4) by (simp add: add.assoc)
  qed (use seq_more.prems(2) in simp)
  ultimately show ?case by (simp add: add.assoc)
qed

end

text \<open>The loops that run up to an end position.\<close>

locale bounded_loop = message_loop step "\<lambda>e r. position r < e" loop
  for step :: "'a \<Rightarrow> nat \<Rightarrow> nat \<Rightarrow> reader \<Rightarrow> pprof_error + ('a \<times> reader)" and loop
begin

lemma loop_decodes:
  assumes "field_seq step x bs x'"
  shows "decodes (\<lambda>r len. loop (js_add (position r) len) x r) bs x'"
  unfolding decodes_def
proof (intro allI impI)
  fix r t
  assume r: "rest r = bs @ t" "pos r + length bs \<le> length (buf r)" "length (buf r) < 2 ^ 53"
  then have "js_add (position r) (length bs) = pos r + length bs"
    by (simp add: position_def js_add_exact)
  then show "loop (js_add (position r) (length bs)) x r = Inr (x', advance (length bs) r)"
    using r by (intro loop_fields [OF assms]) (auto simp: position_def)
qed

lemma loop_le: "loop e x r = Inr (x', r') \<Longrightarrow> reader_le r r'"
  using loop_end by blast

end

section \<open>Decoders\<close>

text \<open>
  Each message decoder is a body (\<open>_field\<close>: the \<^verbatim>\<open>if\<close> chain over the field number and the wire
  type), the \<^verbatim>\<open>while\<close> loop around it (\<open>_loop\<close>) and the call with its end position and its initial
  message.  The loops terminate because a round either throws or reads at least one byte.
\<close>

function decodePackedVarints_loop :: "nat \<Rightarrow> nat list \<Rightarrow> reader \<Rightarrow> pprof_error + (nat list \<times> reader)" where
  "decodePackedVarints_loop e out r =
     (if position r < e then res_bind (readVarint r) (\<lambda>(v, r'). decodePackedVarints_loop e (out @ [v]) r')
      else Inr (out, r))"
  by pat_completeness auto
termination
  by (relation "measure (\<lambda>(e, out, r). length (buf r) - pos r)")
    (auto dest!: readVarint_lt simp: reader_lt_def)

declare decodePackedVarints_loop.simps [simp del]

definition decodePackedVarints :: "reader \<Rightarrow> nat \<Rightarrow> pprof_error + (nat list \<times> reader)" where
  "decodePackedVarints r len = decodePackedVarints_loop (js_add (position r) len) [] r"

lemma decodePackedVarints_loop_le:
  "decodePackedVarints_loop e out r = Inr (vs, r') \<Longrightarrow> reader_le r r'"
proof (induction e out r rule: decodePackedVarints_loop.induct)
  case (1 e out r)
  show ?case
  proof (cases "position r < e")
    case True
    with "1.prems" obtain v r1 where v: "readVarint r = Inr (v, r1)"
      and "decodePackedVarints_loop e (out @ [v]) r1 = Inr (vs, r')"
      by (subst (asm) decodePackedVarints_loop.simps) auto
    with "1.IH" [OF True v refl] show ?thesis
      using reader_le_trans readVarint_le [OF v] by blast
  qed (use "1.prems" in \<open>auto simp: decodePackedVarints_loop.simps [of e out r]\<close>)
qed

lemma decodePackedVarints_le [reader_mono]: "decodePackedVarints r len = Inr (vs, r') \<Longrightarrow> reader_le r r'"
  unfolding decodePackedVarints_def by (rule decodePackedVarints_loop_le)

lemma decodePackedVarints_loop_varints:
  assumes "rest r = concat (map varint vs) @ t" and "\<And>v. v \<in> set vs \<Longrightarrow> v < 2 ^ 53"
  shows "decodePackedVarints_loop (pos r + length (concat (map varint vs))) out r =
    Inr (out @ vs, advance (length (concat (map varint vs))) r)"
  using assms
proof (induction vs arbitrary: out r)
  case (Cons v vs)
  let ?r = "advance (length (varint v)) r"
  have v: "readVarint r = Inr (v, ?r)"
    using Cons.prems by (intro readVarint_varint [where t = "concat (map varint vs) @ t"]) auto
  have "rest ?r = concat (map varint vs) @ t"
    using Cons.prems(1) by (intro rest_advance) simp
  from Cons.IH [OF this] Cons.prems(2) show ?case
    by (subst decodePackedVarints_loop.simps) (simp add: v position_def add.assoc)
qed (simp add: decodePackedVarints_loop.simps position_def)

lemma decodePackedVarints_decodes:
  assumes "\<And>v. v \<in> set vs \<Longrightarrow> v < 2 ^ 53"
  shows "decodes decodePackedVarints (concat (map varint vs)) vs"
  using decodePackedVarints_loop_varints [OF _ assms, where out = "[]"]
  by (auto simp: decodes_def decodePackedVarints_def position_def js_add_exact)

definition decodeLabel_field :: "pprof_label \<Rightarrow> nat \<Rightarrow> nat \<Rightarrow> reader \<Rightarrow> pprof_error + (pprof_label \<times> reader)" where
  "decodeLabel_field x fieldNum wire r =
     (if fieldNum = 1 \<and> wire = WIRE_VARINT then
        res_bind (readVarint r) (\<lambda>(v, r'). Inr (x\<lparr>keyIdx := v\<rparr>, r'))
      else if fieldNum = 2 \<and> wire = WIRE_VARINT then
        res_bind (readVarint r) (\<lambda>(v, r'). Inr (x\<lparr>strIdx := v\<rparr>, r'))
      else if fieldNum = 3 \<and> wire = WIRE_VARINT then
        res_bind (readVarint r) (\<lambda>(v, r'). Inr (x\<lparr>lnum := v\<rparr>, r'))
      else res_bind (skipField r wire) (\<lambda>r'. Inr (x, r')))"

lemma decodeLabel_field_le: "decodeLabel_field x f w r = Inr (x', r') \<Longrightarrow> reader_le r r'"
  by (auto simp: decodeLabel_field_def split: if_splits dest: reader_mono)

function decodeLabel_loop :: "nat \<Rightarrow> pprof_label \<Rightarrow> reader \<Rightarrow> pprof_error + (pprof_label \<times> reader)" where
  "decodeLabel_loop e x r =
     (if position r < e then res_bind (readVarint r) (\<lambda>(tag, r1).
        res_bind (decodeLabel_field x (tag_field tag) (tag_wire tag) r1) (\<lambda>(x', r2). decodeLabel_loop e x' r2))
      else Inr (x, r))"
  by pat_completeness auto
termination
  by (relation "measure (\<lambda>(e, x, r). length (buf r) - pos r)")
    (auto dest!: readVarint_lt decodeLabel_field_le simp: reader_lt_def reader_le_def)

declare decodeLabel_loop.simps [simp del]

definition decodeLabel :: "reader \<Rightarrow> nat \<Rightarrow> pprof_error + (pprof_label \<times> reader)" where
  "decodeLabel r len = decodeLabel_loop (js_add (position r) len) \<lparr>keyIdx = 0, strIdx = 0, lnum = 0\<rparr> r"

interpretation decodeLabel: bounded_loop decodeLabel_field decodeLabel_loop
  by unfold_locales (rule decodeLabel_loop.simps, erule decodeLabel_field_le)

lemma decodeLabel_le [reader_mono]: "decodeLabel r len = Inr (x, r') \<Longrightarrow> reader_le r r'"
  unfolding decodeLabel_def by (rule decodeLabel.loop_le)

lemma decodeLabel_decodes: "field_seq decodeLabel_field \<lparr>keyIdx = 0, strIdx = 0, lnum = 0\<rparr> bs x \<Longrightarrow> decodes decodeLabel bs x"
  using decodeLabel.loop_decodes by (simp add: decodeLabel_def decodes_def)

definition decodeSample_field :: "pprof_sample \<Rightarrow> nat \<Rightarrow> nat \<Rightarrow> reader \<Rightarrow> pprof_error + (pprof_sample \<times> reader)" where
  "decodeSample_field x fieldNum wire r =
     (if fieldNum = 1 then
        (if wire = WIRE_LENGTH_DELIMITED then
           res_bind (readVarint r) (\<lambda>(subLen, r'). res_bind (decodePackedVarints r' subLen) (\<lambda>(vs, r'').
             Inr (x\<lparr>locationIds := locationIds x @ vs\<rparr>, r'')))
         else if wire = WIRE_VARINT then
           res_bind (readVarint r) (\<lambda>(v, r'). Inr (x\<lparr>locationIds := locationIds x @ [v]\<rparr>, r'))
         else res_bind (skipField r wire) (\<lambda>r'. Inr (x, r')))
      else if fieldNum = 2 then
        (if wire = WIRE_LENGTH_DELIMITED then
           res_bind (readVarint r) (\<lambda>(subLen, r'). res_bind (decodePackedVarints r' subLen) (\<lambda>(vs, r'').
             Inr (x\<lparr>svalues := svalues x @ vs\<rparr>, r'')))
         else if wire = WIRE_VARINT then
           res_bind (readVarint r) (\<lambda>(v, r'). Inr (x\<lparr>svalues := svalues x @ [v]\<rparr>, r'))
         else res_bind (skipField r wire) (\<lambda>r'. Inr (x, r')))
      else if fieldNum = 3 \<and> wire = WIRE_LENGTH_DELIMITED then
        res_bind (readVarint r) (\<lambda>(subLen, r'). res_bind (decodeLabel r' subLen) (\<lambda>(l, r'').
          Inr (x\<lparr>labels := labels x @ [l]\<rparr>, r'')))
      else res_bind (skipField r wire) (\<lambda>r'. Inr (x, r')))"

lemma decodeSample_field_le: "decodeSample_field x f w r = Inr (x', r') \<Longrightarrow> reader_le r r'"
  by (auto simp: decodeSample_field_def split: if_splits dest: reader_mono intro: reader_le_trans)

function decodeSample_loop :: "nat \<Rightarrow> pprof_sample \<Rightarrow> reader \<Rightarrow> pprof_error + (pprof_sample \<times> reader)" where
  "decodeSample_loop e x r =
     (if position r < e then res_bind (readVarint r) (\<lambda>(tag, r1).
        res_bind (decodeSample_field x (tag_field tag) (tag_wire tag) r1) (\<lambda>(x', r2). decodeSample_loop e x' r2))
      else Inr (x, r))"
  by pat_completeness auto
termination
  by (relation "measure (\<lambda>(e, x, r). length (buf r) - pos r)")
    (auto dest!: readVarint_lt decodeSample_field_le simp: reader_lt_def reader_le_def)

declare decodeSample_loop.simps [simp del]

definition decodeSample :: "reader \<Rightarrow> nat \<Rightarrow> pprof_error + (pprof_sample \<times> reader)" where
  "decodeSample r len = decodeSample_loop (js_add (position r) len) \<lparr>locationIds = [], svalues = [], labels = []\<rparr> r"

interpretation decodeSample: bounded_loop decodeSample_field decodeSample_loop
  by unfold_locales (rule decodeSample_loop.simps, erule decodeSample_field_le)

lemma decodeSample_le [reader_mono]: "decodeSample r len = Inr (x, r') \<Longrightarrow> reader_le r r'"
  unfolding decodeSample_def by (rule decodeSample.loop_le)

lemma decodeSample_decodes: "field_seq decodeSample_field \<lparr>locationIds = [], svalues = [], labels = []\<rparr> bs x \<Longrightarrow> decodes decodeSample bs x"
  using decodeSample.loop_decodes by (simp add: decodeSample_def decodes_def)

definition decodeLine_field :: "pprof_line \<Rightarrow> nat \<Rightarrow> nat \<Rightarrow> reader \<Rightarrow> pprof_error + (pprof_line \<times> reader)" where
  "decodeLine_field x fieldNum wire r =
     (if fieldNum = 1 \<and> wire = WIRE_VARINT then
        res_bind (readVarint r) (\<lambda>(v, r'). Inr (x\<lparr>functionId := v\<rparr>, r'))
      else if fieldNum = 2 \<and> wire = WIRE_VARINT then
        res_bind (readVarint r) (\<lambda>(v, r'). Inr (x\<lparr>line := v\<rparr>, r'))
      else res_bind (skipField r wire) (\<lambda>r'. Inr (x, r')))"

lemma decodeLine_field_le: "decodeLine_field x f w r = Inr (x', r') \<Longrightarrow> reader_le r r'"
  by (auto simp: decodeLine_field_def split: if_splits dest: reader_mono)

function decodeLine_loop :: "nat \<Rightarrow> pprof_line \<Rightarrow> reader \<Rightarrow> pprof_error + (pprof_line \<times> reader)" where
  "decodeLine_loop e x r =
     (if position r < e then res_bind (readVarint r) (\<lambda>(tag, r1).
        res_bind (decodeLine_field x (tag_field tag) (tag_wire tag) r1) (\<lambda>(x', r2). decodeLine_loop e x' r2))
      else Inr (x, r))"
  by pat_completeness auto
termination
  by (relation "measure (\<lambda>(e, x, r). length (buf r) - pos r)")
    (auto dest!: readVarint_lt decodeLine_field_le simp: reader_lt_def reader_le_def)

declare decodeLine_loop.simps [simp del]

definition decodeLine :: "reader \<Rightarrow> nat \<Rightarrow> pprof_error + (pprof_line \<times> reader)" where
  "decodeLine r len = decodeLine_loop (js_add (position r) len) \<lparr>functionId = 0, line = 0\<rparr> r"

interpretation decodeLine: bounded_loop decodeLine_field decodeLine_loop
  by unfold_locales (rule decodeLine_loop.simps, erule decodeLine_field_le)

lemma decodeLine_le [reader_mono]: "decodeLine r len = Inr (x, r') \<Longrightarrow> reader_le r r'"
  unfolding decodeLine_def by (rule decodeLine.loop_le)

lemma decodeLine_decodes: "field_seq decodeLine_field \<lparr>functionId = 0, line = 0\<rparr> bs x \<Longrightarrow> decodes decodeLine bs x"
  using decodeLine.loop_decodes by (simp add: decodeLine_def decodes_def)

definition decodeLocation_field :: "pprof_location \<Rightarrow> nat \<Rightarrow> nat \<Rightarrow> reader \<Rightarrow> pprof_error + (pprof_location \<times> reader)" where
  "decodeLocation_field x fieldNum wire r =
     (if fieldNum = 1 \<and> wire = WIRE_VARINT then
        res_bind (readVarint r) (\<lambda>(v, r'). Inr (x\<lparr>loc_id := v\<rparr>, r'))
      else if fieldNum = 4 \<and> wire = WIRE_LENGTH_DELIMITED then
        res_bind (readVarint r) (\<lambda>(subLen, r'). res_bind (decodeLine r' subLen) (\<lambda>(l, r'').
          Inr (x\<lparr>lines := lines x @ [l], functionIds := functionIds x @ [functionId l]\<rparr>, r'')))
      else res_bind (skipField r wire) (\<lambda>r'. Inr (x, r')))"

lemma decodeLocation_field_le: "decodeLocation_field x f w r = Inr (x', r') \<Longrightarrow> reader_le r r'"
  by (auto simp: decodeLocation_field_def split: if_splits dest: reader_mono intro: reader_le_trans)

function decodeLocation_loop :: "nat \<Rightarrow> pprof_location \<Rightarrow> reader \<Rightarrow> pprof_error + (pprof_location \<times> reader)" where
  "decodeLocation_loop e x r =
     (if position r < e then res_bind (readVarint r) (\<lambda>(tag, r1).
        res_bind (decodeLocation_field x (tag_field tag) (tag_wire tag) r1) (\<lambda>(x', r2). decodeLocation_loop e x' r2))
      else Inr (x, r))"
  by pat_completeness auto
termination
  by (relation "measure (\<lambda>(e, x, r). length (buf r) - pos r)")
    (auto dest!: readVarint_lt decodeLocation_field_le simp: reader_lt_def reader_le_def)

declare decodeLocation_loop.simps [simp del]

definition decodeLocation :: "reader \<Rightarrow> nat \<Rightarrow> pprof_error + (pprof_location \<times> reader)" where
  "decodeLocation r len = decodeLocation_loop (js_add (position r) len) \<lparr>loc_id = 0, lines = [], functionIds = []\<rparr> r"

interpretation decodeLocation: bounded_loop decodeLocation_field decodeLocation_loop
  by unfold_locales (rule decodeLocation_loop.simps, erule decodeLocation_field_le)

lemma decodeLocation_le [reader_mono]: "decodeLocation r len = Inr (x, r') \<Longrightarrow> reader_le r r'"
  unfolding decodeLocation_def by (rule decodeLocation.loop_le)

lemma decodeLocation_decodes: "field_seq decodeLocation_field \<lparr>loc_id = 0, lines = [], functionIds = []\<rparr> bs x \<Longrightarrow> decodes decodeLocation bs x"
  using decodeLocation.loop_decodes by (simp add: decodeLocation_def decodes_def)

definition decodeFunction_field :: "pprof_function \<Rightarrow> nat \<Rightarrow> nat \<Rightarrow> reader \<Rightarrow> pprof_error + (pprof_function \<times> reader)" where
  "decodeFunction_field x fieldNum wire r =
     (if fieldNum = 1 \<and> wire = WIRE_VARINT then
        res_bind (readVarint r) (\<lambda>(v, r'). Inr (x\<lparr>fn_id := v\<rparr>, r'))
      else if fieldNum = 2 \<and> wire = WIRE_VARINT then
        res_bind (readVarint r) (\<lambda>(v, r'). Inr (x\<lparr>nameIdx := v\<rparr>, r'))
      else if fieldNum = 4 \<and> wire = WIRE_VARINT then
        res_bind (readVarint r) (\<lambda>(v, r'). Inr (x\<lparr>filenameIdx := v\<rparr>, r'))
      else res_bind (skipField r wire) (\<lambda>r'. Inr (x, r')))"

lemma decodeFunction_field_le: "decodeFunction_field x f w r = Inr (x', r') \<Longrightarrow> reader_le r r'"
  by (auto simp: decodeFunction_field_def split: if_splits dest: reader_mono)

function decodeFunction_loop :: "nat \<Rightarrow> pprof_function \<Rightarrow> reader \<Rightarrow> pprof_error + (pprof_function \<times> reader)" where
  "decodeFunction_loop e x r =
     (if position r < e then res_bind (readVarint r) (\<lambda>(tag, r1).
        res_bind (decodeFunction_field x (tag_field tag) (tag_wire tag) r1) (\<lambda>(x', r2). decodeFunction_loop e x' r2))
      else Inr (x, r))"
  by pat_completeness auto
termination
  by (relation "measure (\<lambda>(e, x, r). length (buf r) - pos r)")
    (auto dest!: readVarint_lt decodeFunction_field_le simp: reader_lt_def reader_le_def)

declare decodeFunction_loop.simps [simp del]

definition decodeFunction :: "reader \<Rightarrow> nat \<Rightarrow> pprof_error + (pprof_function \<times> reader)" where
  "decodeFunction r len = decodeFunction_loop (js_add (position r) len) \<lparr>fn_id = 0, nameIdx = 0, filenameIdx = 0\<rparr> r"

interpretation decodeFunction: bounded_loop decodeFunction_field decodeFunction_loop
  by unfold_locales (rule decodeFunction_loop.simps, erule decodeFunction_field_le)

lemma decodeFunction_le [reader_mono]: "decodeFunction r len = Inr (x, r') \<Longrightarrow> reader_le r r'"
  unfolding decodeFunction_def by (rule decodeFunction.loop_le)

lemma decodeFunction_decodes: "field_seq decodeFunction_field \<lparr>fn_id = 0, nameIdx = 0, filenameIdx = 0\<rparr> bs x \<Longrightarrow> decodes decodeFunction bs x"
  using decodeFunction.loop_decodes by (simp add: decodeFunction_def decodes_def)

definition decodeValueType_field :: "pprof_value_type \<Rightarrow> nat \<Rightarrow> nat \<Rightarrow> reader \<Rightarrow> pprof_error + (pprof_value_type \<times> reader)" where
  "decodeValueType_field x fieldNum wire r =
     (if fieldNum = 1 \<and> wire = WIRE_VARINT then
        res_bind (readVarint r) (\<lambda>(v, r'). Inr (x\<lparr>typeIdx := v\<rparr>, r'))
      else if fieldNum = 2 \<and> wire = WIRE_VARINT then
        res_bind (readVarint r) (\<lambda>(v, r'). Inr (x\<lparr>unitIdx := v\<rparr>, r'))
      else res_bind (skipField r wire) (\<lambda>r'. Inr (x, r')))"

lemma decodeValueType_field_le: "decodeValueType_field x f w r = Inr (x', r') \<Longrightarrow> reader_le r r'"
  by (auto simp: decodeValueType_field_def split: if_splits dest: reader_mono)

function decodeValueType_loop :: "nat \<Rightarrow> pprof_value_type \<Rightarrow> reader \<Rightarrow> pprof_error + (pprof_value_type \<times> reader)" where
  "decodeValueType_loop e x r =
     (if position r < e then res_bind (readVarint r) (\<lambda>(tag, r1).
        res_bind (decodeValueType_field x (tag_field tag) (tag_wire tag) r1) (\<lambda>(x', r2). decodeValueType_loop e x' r2))
      else Inr (x, r))"
  by pat_completeness auto
termination
  by (relation "measure (\<lambda>(e, x, r). length (buf r) - pos r)")
    (auto dest!: readVarint_lt decodeValueType_field_le simp: reader_lt_def reader_le_def)

declare decodeValueType_loop.simps [simp del]

definition decodeValueType :: "reader \<Rightarrow> nat \<Rightarrow> pprof_error + (pprof_value_type \<times> reader)" where
  "decodeValueType r len = decodeValueType_loop (js_add (position r) len) \<lparr>typeIdx = 0, unitIdx = 0\<rparr> r"

interpretation decodeValueType: bounded_loop decodeValueType_field decodeValueType_loop
  by unfold_locales (rule decodeValueType_loop.simps, erule decodeValueType_field_le)

lemma decodeValueType_le [reader_mono]: "decodeValueType r len = Inr (x, r') \<Longrightarrow> reader_le r r'"
  unfolding decodeValueType_def by (rule decodeValueType.loop_le)

lemma decodeValueType_decodes: "field_seq decodeValueType_field \<lparr>typeIdx = 0, unitIdx = 0\<rparr> bs x \<Longrightarrow> decodes decodeValueType bs x"
  using decodeValueType.loop_decodes by (simp add: decodeValueType_def decodes_def)

section \<open>The top-level decoder\<close>

definition decodePprof_field ::
  "(byte list \<Rightarrow> string) \<Rightarrow> pprof_profile \<Rightarrow> nat \<Rightarrow> nat \<Rightarrow> reader \<Rightarrow> pprof_error + (pprof_profile \<times> reader)" where
  "decodePprof_field dec x fieldNum wire r =
     (if fieldNum = 1 \<and> wire = WIRE_LENGTH_DELIMITED then
        res_bind (readVarint r) (\<lambda>(len, r'). res_bind (decodeValueType r' len) (\<lambda>(vt, r'').
          Inr (x\<lparr>sampleTypes := sampleTypes x @ [vt]\<rparr>, r'')))
      else if fieldNum = 2 \<and> wire = WIRE_LENGTH_DELIMITED then
        res_bind (readVarint r) (\<lambda>(len, r'). res_bind (decodeSample r' len) (\<lambda>(s, r'').
          Inr (x\<lparr>samples := samples x @ [s]\<rparr>, r'')))
      else if fieldNum = 4 \<and> wire = WIRE_LENGTH_DELIMITED then
        res_bind (readVarint r) (\<lambda>(len, r'). res_bind (decodeLocation r' len) (\<lambda>(loc, r'').
          Inr (x\<lparr>locationTable := map_set (locationTable x) (loc_id loc) loc\<rparr>, r'')))
      else if fieldNum = 5 \<and> wire = WIRE_LENGTH_DELIMITED then
        res_bind (readVarint r) (\<lambda>(len, r'). res_bind (decodeFunction r' len) (\<lambda>(fn, r'').
          Inr (x\<lparr>functionTable := map_set (functionTable x) (fn_id fn) fn\<rparr>, r'')))
      else if fieldNum = 6 \<and> wire = WIRE_LENGTH_DELIMITED then
        res_bind (readVarint r) (\<lambda>(len, r'). res_bind (readString dec r' len) (\<lambda>(str, r'').
          Inr (x\<lparr>stringTable := stringTable x @ [str]\<rparr>, r'')))
      else res_bind (skipField r wire) (\<lambda>r'. Inr (x, r')))"

lemma decodePprof_field_le: "decodePprof_field dec x f w r = Inr (x', r') \<Longrightarrow> reader_le r r'"
  by (auto simp: decodePprof_field_def split: if_splits dest: reader_mono intro: reader_le_trans)

function decodePprof_loop ::
  "(byte list \<Rightarrow> string) \<Rightarrow> pprof_profile \<Rightarrow> reader \<Rightarrow> pprof_error + (pprof_profile \<times> reader)" where
  "decodePprof_loop dec x r =
     (if \<not> eof r then res_bind (readVarint r) (\<lambda>(tag, r1).
        res_bind (decodePprof_field dec x (tag_field tag) (tag_wire tag) r1) (\<lambda>(x', r2).
          decodePprof_loop dec x' r2))
      else Inr (x, r))"
  by pat_completeness auto
termination
  by (relation "measure (\<lambda>(dec, x, r). length (buf r) - pos r)")
    (auto dest!: readVarint_lt decodePprof_field_le simp: reader_lt_def reader_le_def)

declare decodePprof_loop.simps [simp del]

definition empty_profile :: pprof_profile where
  "empty_profile = \<lparr>sampleTypes = [], samples = [], locationTable = [], functionTable = [], stringTable = []\<rparr>"

definition decodePprof :: "(byte list \<Rightarrow> string) \<Rightarrow> byte list \<Rightarrow> pprof_error + pprof_profile" where
  "decodePprof dec raw =
     res_bind (decodePprof_loop dec empty_profile (new_Reader raw)) (\<lambda>(profile, r). Inr profile)"

interpretation top_loop: message_loop "decodePprof_field dec" "\<lambda>u r. \<not> eof r" "\<lambda>u. decodePprof_loop dec"
  by unfold_locales (rule decodePprof_loop.simps, erule decodePprof_field_le)

text \<open>\<^verbatim>\<open>DecompressionStream\<close> is the host's: the argument \<open>gunzip\<close>, which may reject its input.\<close>

definition decodePprofBlob ::
  "(byte list \<Rightarrow> byte list option) \<Rightarrow> (byte list \<Rightarrow> string) \<Rightarrow> byte list \<Rightarrow> pprof_error + pprof_profile" where
  "decodePprofBlob gunzip dec body =
     (if 2 \<le> length body \<and> body ! 0 = 0x1F \<and> body ! 1 = 0x8B then
        (case gunzip body of None \<Rightarrow> Inl DecompressionFailed | Some raw \<Rightarrow> decodePprof dec raw)
      else decodePprof dec body)"

section \<open>Encoders\<close>

text \<open>The statement \<^verbatim>\<open>if (v) { writeTag(out, f, WIRE_VARINT); writeVarint(out, v); }\<close>.\<close>

definition write_nonzero :: "byte list \<Rightarrow> nat \<Rightarrow> nat \<Rightarrow> byte list" where
  "write_nonzero out f v =
     (if v \<noteq> 0 then writeVarint array_push (writeTag array_push out f WIRE_VARINT) v else out)"

definition encodeLabel :: "pprof_label \<Rightarrow> byte list" where
  "encodeLabel label =
     write_nonzero (write_nonzero (write_nonzero [] 1 (keyIdx label)) 2 (strIdx label)) 3 (lnum label)"

definition encodeSample :: "pprof_sample \<Rightarrow> byte list" where
  "encodeSample sample =
     foldl (\<lambda>out label. writeLengthDelimited array_push out 3 (encodeLabel label))
       (writePackedVarints array_push
          (writePackedVarints array_push [] 1 (locationIds sample)) 2 (svalues sample))
       (labels sample)"

definition encodeValueType :: "pprof_value_type \<Rightarrow> byte list" where
  "encodeValueType vt = write_nonzero (write_nonzero [] 1 (typeIdx vt)) 2 (unitIdx vt)"

definition encodeLine :: "pprof_line \<Rightarrow> byte list" where
  "encodeLine l = write_nonzero (write_nonzero [] 1 (functionId l)) 2 (line l)"

text \<open>\<^verbatim>\<open>loc.lines || ...\<close> always takes the left operand: an array is truthy even when it is empty.\<close>

definition encodeLocation :: "pprof_location \<Rightarrow> byte list" where
  "encodeLocation loc =
     foldl (\<lambda>out l. writeLengthDelimited array_push out 4 (encodeLine l))
       (write_nonzero [] 1 (loc_id loc)) (lines loc)"

definition encodeFunction :: "pprof_function \<Rightarrow> byte list" where
  "encodeFunction fn =
     write_nonzero (write_nonzero (write_nonzero [] 1 (fn_id fn)) 2 (nameIdx fn)) 4 (filenameIdx fn)"

definition encodePprof :: "(string \<Rightarrow> byte list) \<Rightarrow> pprof_profile \<Rightarrow> byte list" where
  "encodePprof enc profile =
     (let out1 = foldl (\<lambda>out vt. writeLengthDelimited builder_push out 1 (encodeValueType vt))
                   new_ByteBuilder (sampleTypes profile);
          out2 = foldl (\<lambda>out s. writeLengthDelimited builder_push out 2 (encodeSample s))
                   out1 (samples profile);
          out3 = foldl (\<lambda>out loc. writeLengthDelimited builder_push out 4 (encodeLocation loc))
                   out2 (map snd (locationTable profile));
          out4 = foldl (\<lambda>out fn. writeLengthDelimited builder_push out 5 (encodeFunction fn))
                   out3 (map snd (functionTable profile));
          out5 = foldl (\<lambda>out str. writeString enc builder_push out 6 str) out4 (stringTable profile)
      in builder_toArray out5)"

section \<open>The bytes the encoders produce\<close>

lemma write_nonzero_bytes:
  assumes "f < 2 ^ 29"
  shows "write_nonzero out f v = out @ opt_varint f v"
  using array_sink.sink_writeTag [of WIRE_VARINT f out] assms
  by (simp add: write_nonzero_def opt_varint_def writeVarint_array wire_defs)

lemma array_delimited:
  assumes "f < 2 ^ 29"
  shows "foldl (\<lambda>out x. writeLengthDelimited array_push out f (g x)) out xs =
    out @ concat (map (\<lambda>x. delimited f (g x)) xs)"
  using array_sink.sink_writeLengthDelimited assms by (induction xs arbitrary: out) auto

lemma builder_delimited:
  assumes "builder_inv b" and "f < 2 ^ 29"
  shows "builder_inv (foldl (\<lambda>out x. writeLengthDelimited builder_push out f (g x)) b xs) \<and>
    builder_toArray (foldl (\<lambda>out x. writeLengthDelimited builder_push out f (g x)) b xs) =
      builder_toArray b @ concat (map (\<lambda>x. delimited f (g x)) xs)"
  using assms(1)
proof (induction xs arbitrary: b)
  case (Cons x xs)
  note w = builder_sink.sink_writeLengthDelimited [OF Cons.prems assms(2), of "g x"]
  from Cons.IH [OF conjunct1 [OF w]] w show ?case by simp
qed simp

lemma encodeLabel_bytes:
  "encodeLabel l = opt_varint 1 (keyIdx l) @ opt_varint 2 (strIdx l) @ opt_varint 3 (lnum l)"
  by (simp add: encodeLabel_def write_nonzero_bytes)

definition packed :: "nat \<Rightarrow> nat list \<Rightarrow> byte list" where
  "packed f vs = (if vs = [] then [] else delimited f (concat (map varint vs)))"

lemma encodeSample_bytes:
  "encodeSample s = packed 1 (locationIds s) @ packed 2 (svalues s) @
     concat (map (\<lambda>l. delimited 3 (encodeLabel l)) (labels s))"
  using array_sink.sink_writePackedVarints
  by (simp add: encodeSample_def array_delimited packed_def)

lemma encodeValueType_bytes: "encodeValueType vt = opt_varint 1 (typeIdx vt) @ opt_varint 2 (unitIdx vt)"
  by (simp add: encodeValueType_def write_nonzero_bytes)

lemma encodeLine_bytes: "encodeLine l = opt_varint 1 (functionId l) @ opt_varint 2 (line l)"
  by (simp add: encodeLine_def write_nonzero_bytes)

lemma encodeLocation_bytes:
  "encodeLocation loc = opt_varint 1 (loc_id loc) @ concat (map (\<lambda>l. delimited 4 (encodeLine l)) (lines loc))"
  by (simp add: encodeLocation_def write_nonzero_bytes array_delimited)

lemma encodeFunction_bytes:
  "encodeFunction fn = opt_varint 1 (fn_id fn) @ opt_varint 2 (nameIdx fn) @ opt_varint 4 (filenameIdx fn)"
  by (simp add: encodeFunction_def write_nonzero_bytes)

lemma encodePprof_bytes:
  "encodePprof enc p =
     concat (map (\<lambda>x. delimited 1 (encodeValueType x)) (sampleTypes p)) @
     concat (map (\<lambda>x. delimited 2 (encodeSample x)) (samples p)) @
     concat (map (\<lambda>x. delimited 4 (encodeLocation x)) (map snd (locationTable p))) @
     concat (map (\<lambda>x. delimited 5 (encodeFunction x)) (map snd (functionTable p))) @
     concat (map (\<lambda>x. delimited 6 (enc x)) (stringTable p))"
proof -
  have lt: "(1::nat) < 2 ^ 29" "(2::nat) < 2 ^ 29" "(4::nat) < 2 ^ 29" "(5::nat) < 2 ^ 29" "(6::nat) < 2 ^ 29"
    by simp_all
  note b1 = builder_delimited [OF new_ByteBuilder_inv(1) lt(1), of encodeValueType "sampleTypes p"]
  note b2 = builder_delimited [OF conjunct1 [OF b1] lt(2), of encodeSample "samples p"]
  note b3 = builder_delimited [OF conjunct1 [OF b2] lt(3), of encodeLocation "map snd (locationTable p)"]
  note b4 = builder_delimited [OF conjunct1 [OF b3] lt(4), of encodeFunction "map snd (functionTable p)"]
  note b5 = builder_delimited [OF conjunct1 [OF b4] lt(5), of enc "stringTable p"]
  show ?thesis
    using b1 b2 b3 b4 b5 by (simp only: encodePprof_def Let_def writeString_def new_ByteBuilder_inv) simp
qed

section \<open>Decoding what was encoded\<close>

lemma fields_messages:
  assumes "\<And>acc x. x \<in> set xs \<Longrightarrow> field_seq step acc (g x) (upd acc x)"
  shows "field_seq step acc (concat (map g xs)) (foldl upd acc xs)"
  using assms
proof (induction xs arbitrary: acc)
  case (Cons x xs)
  then have "field_seq step acc (g x) (upd acc x)"
    and "field_seq step (upd acc x) (concat (map g xs)) (foldl upd (upd acc x) xs)" by auto
  then have "field_seq step acc (g x @ concat (map g xs)) (foldl upd (upd acc x) xs)" by (rule fields_append)
  then show ?case by simp
qed (simp add: seq_done)

text \<open>The numbers of a message are exact JavaScript integers.\<close>

definition label_ok :: "pprof_label \<Rightarrow> bool" where
  "label_ok l \<longleftrightarrow> keyIdx l < 2 ^ 53 \<and> strIdx l < 2 ^ 53 \<and> lnum l < 2 ^ 53"

definition sample_ok :: "pprof_sample \<Rightarrow> bool" where
  "sample_ok s \<longleftrightarrow> (\<forall>v \<in> set (locationIds s) \<union> set (svalues s). v < 2 ^ 53) \<and> list_all label_ok (labels s)"

definition line_ok :: "pprof_line \<Rightarrow> bool" where
  "line_ok l \<longleftrightarrow> functionId l < 2 ^ 53 \<and> line l < 2 ^ 53"

definition location_ok :: "pprof_location \<Rightarrow> bool" where
  "location_ok loc \<longleftrightarrow> loc_id loc < 2 ^ 53 \<and> list_all line_ok (lines loc) \<and>
     functionIds loc = map functionId (lines loc)"

definition function_ok :: "pprof_function \<Rightarrow> bool" where
  "function_ok fn \<longleftrightarrow> fn_id fn < 2 ^ 53 \<and> nameIdx fn < 2 ^ 53 \<and> filenameIdx fn < 2 ^ 53"

definition value_type_ok :: "pprof_value_type \<Rightarrow> bool" where
  "value_type_ok vt \<longleftrightarrow> typeIdx vt < 2 ^ 53 \<and> unitIdx vt < 2 ^ 53"

text \<open>
  A well-formed profile: exact numbers, each location and function stored under its own identifier
  and once only.  This is what the decoder builds.
\<close>

definition profile_ok :: "pprof_profile \<Rightarrow> bool" where
  "profile_ok p \<longleftrightarrow> list_all value_type_ok (sampleTypes p) \<and> list_all sample_ok (samples p) \<and>
     list_all (\<lambda>(k, l). k = loc_id l \<and> location_ok l) (locationTable p) \<and> map_wf (locationTable p) \<and>
     list_all (\<lambda>(k, f). k = fn_id f \<and> function_ok f) (functionTable p) \<and> map_wf (functionTable p)"

lemma decodeLabel_encode: "label_ok l \<Longrightarrow> decodes decodeLabel (encodeLabel l) l"
proof (rule decodeLabel_decodes)
  assume ok: "label_ok l"
  obtain k s n where l: "l = \<lparr>keyIdx = k, strIdx = s, lnum = n\<rparr>" by (cases l)
  have f1: "field_seq decodeLabel_field \<lparr>keyIdx = 0, strIdx = 0, lnum = 0\<rparr> (opt_varint 1 k) \<lparr>keyIdx = k, strIdx = 0, lnum = 0\<rparr>"
    by (rule fields_opt_varint) (use ok l in \<open>simp_all add: label_ok_def decodeLabel_field_def\<close>)
  have f2: "field_seq decodeLabel_field \<lparr>keyIdx = k, strIdx = 0, lnum = 0\<rparr> (opt_varint 2 s) \<lparr>keyIdx = k, strIdx = s, lnum = 0\<rparr>"
    by (rule fields_opt_varint) (use ok l in \<open>simp_all add: label_ok_def decodeLabel_field_def\<close>)
  have f3: "field_seq decodeLabel_field \<lparr>keyIdx = k, strIdx = s, lnum = 0\<rparr> (opt_varint 3 n) \<lparr>keyIdx = k, strIdx = s, lnum = n\<rparr>"
    by (rule fields_opt_varint) (use ok l in \<open>simp_all add: label_ok_def decodeLabel_field_def\<close>)
  show "field_seq decodeLabel_field \<lparr>keyIdx = 0, strIdx = 0, lnum = 0\<rparr> (encodeLabel l) l"
    using fields_append [OF f1 fields_append [OF f2 f3]] by (simp add: encodeLabel_bytes l)
qed

lemma decodeLine_encode: "line_ok l \<Longrightarrow> decodes decodeLine (encodeLine l) l"
proof (rule decodeLine_decodes)
  assume ok: "line_ok l"
  obtain k n where l: "l = \<lparr>functionId = k, line = n\<rparr>" by (cases l)
  have f1: "field_seq decodeLine_field \<lparr>functionId = 0, line = 0\<rparr> (opt_varint 1 k) \<lparr>functionId = k, line = 0\<rparr>"
    by (rule fields_opt_varint) (use ok l in \<open>simp_all add: line_ok_def decodeLine_field_def\<close>)
  have f2: "field_seq decodeLine_field \<lparr>functionId = k, line = 0\<rparr> (opt_varint 2 n) \<lparr>functionId = k, line = n\<rparr>"
    by (rule fields_opt_varint) (use ok l in \<open>simp_all add: line_ok_def decodeLine_field_def\<close>)
  show "field_seq decodeLine_field \<lparr>functionId = 0, line = 0\<rparr> (encodeLine l) l"
    using fields_append [OF f1 f2] by (simp add: encodeLine_bytes l)
qed

lemma decodeFunction_encode: "function_ok l \<Longrightarrow> decodes decodeFunction (encodeFunction l) l"
proof (rule decodeFunction_decodes)
  assume ok: "function_ok l"
  obtain k s n where l: "l = \<lparr>fn_id = k, nameIdx = s, filenameIdx = n\<rparr>" by (cases l)
  have f1: "field_seq decodeFunction_field \<lparr>fn_id = 0, nameIdx = 0, filenameIdx = 0\<rparr> (opt_varint 1 k) \<lparr>fn_id = k, nameIdx = 0, filenameIdx = 0\<rparr>"
    by (rule fields_opt_varint) (use ok l in \<open>simp_all add: function_ok_def decodeFunction_field_def\<close>)
  have f2: "field_seq decodeFunction_field \<lparr>fn_id = k, nameIdx = 0, filenameIdx = 0\<rparr> (opt_varint 2 s) \<lparr>fn_id = k, nameIdx = s, filenameIdx = 0\<rparr>"
    by (rule fields_opt_varint) (use ok l in \<open>simp_all add: function_ok_def decodeFunction_field_def\<close>)
  have f3: "field_seq decodeFunction_field \<lparr>fn_id = k, nameIdx = s, filenameIdx = 0\<rparr> (opt_varint 4 n) \<lparr>fn_id = k, nameIdx = s, filenameIdx = n\<rparr>"
    by (rule fields_opt_varint) (use ok l in \<open>simp_all add: function_ok_def decodeFunction_field_def\<close>)
  show "field_seq decodeFunction_field \<lparr>fn_id = 0, nameIdx = 0, filenameIdx = 0\<rparr> (encodeFunction l) l"
    using fields_append [OF f1 fields_append [OF f2 f3]] by (simp add: encodeFunction_bytes l)
qed

lemma decodeValueType_encode: "value_type_ok l \<Longrightarrow> decodes decodeValueType (encodeValueType l) l"
proof (rule decodeValueType_decodes)
  assume ok: "value_type_ok l"
  obtain k n where l: "l = \<lparr>typeIdx = k, unitIdx = n\<rparr>" by (cases l)
  have f1: "field_seq decodeValueType_field \<lparr>typeIdx = 0, unitIdx = 0\<rparr> (opt_varint 1 k) \<lparr>typeIdx = k, unitIdx = 0\<rparr>"
    by (rule fields_opt_varint) (use ok l in \<open>simp_all add: value_type_ok_def decodeValueType_field_def\<close>)
  have f2: "field_seq decodeValueType_field \<lparr>typeIdx = k, unitIdx = 0\<rparr> (opt_varint 2 n) \<lparr>typeIdx = k, unitIdx = n\<rparr>"
    by (rule fields_opt_varint) (use ok l in \<open>simp_all add: value_type_ok_def decodeValueType_field_def\<close>)
  show "field_seq decodeValueType_field \<lparr>typeIdx = 0, unitIdx = 0\<rparr> (encodeValueType l) l"
    using fields_append [OF f1 f2] by (simp add: encodeValueType_bytes l)
qed

text \<open>Repeated fields: the update of each element appends it to the message being built.\<close>

lemma fields_packed:
  assumes "f < 2 ^ 29" and "\<And>v. v \<in> set vs \<Longrightarrow> v < 2 ^ 53"
    and "\<And>r. step x f WIRE_LENGTH_DELIMITED r =
      res_bind (readVarint r) (\<lambda>(len, r'). res_bind (decodePackedVarints r' len) (\<lambda>(y, r''). Inr (upd y, r'')))"
    and "upd [] = x"
  shows "field_seq step x (packed f vs) (upd vs)"
proof (cases "vs = []")
  case False
  have "field_seq step x (delimited f (concat (map varint vs))) (upd vs)"
    by (rule fields_message [where d = decodePackedVarints and upd = upd and y = vs])
      (use assms in \<open>auto intro: decodePackedVarints_decodes\<close>)
  then show ?thesis using False by (simp add: packed_def)
qed (use assms(4) in \<open>simp add: packed_def seq_done\<close>)

lemma decodeSample_encode: "sample_ok s \<Longrightarrow> decodes decodeSample (encodeSample s) s"
proof (rule decodeSample_decodes)
  assume ok: "sample_ok s"
  obtain ls vs lb where s: "s = \<lparr>locationIds = ls, svalues = vs, labels = lb\<rparr>" by (cases s)
  let ?s = "\<lambda>ls vs lb. \<lparr>locationIds = ls, svalues = vs, labels = lb :: pprof_label list\<rparr>"
  have f1: "field_seq decodeSample_field (?s [] [] []) (packed 1 ls) (?s ls [] [])"
    by (rule fields_packed) (use ok s in \<open>auto simp: sample_ok_def decodeSample_field_def wire_defs\<close>)
  have f2: "field_seq decodeSample_field (?s ls [] []) (packed 2 vs) (?s ls vs [])"
    by (rule fields_packed) (use ok s in \<open>auto simp: sample_ok_def decodeSample_field_def wire_defs\<close>)
  have step: "field_seq decodeSample_field acc (delimited 3 (encodeLabel l)) (acc\<lparr>labels := labels acc @ [l]\<rparr>)"
    if "l \<in> set lb" for acc l
    by (rule fields_message [OF _ decodeLabel_encode])
      (use ok s that in \<open>auto simp: sample_ok_def list_all_iff decodeSample_field_def wire_defs\<close>)
  let ?upd = "\<lambda>acc l. acc\<lparr>labels := labels acc @ [l]\<rparr>"
  have upd: "foldl ?upd (?s ls vs bs) lb = ?s ls vs (bs @ lb)" for bs
    by (induction lb arbitrary: bs) auto
  have "field_seq decodeSample_field (?s ls vs [])
      (concat (map (\<lambda>l. delimited 3 (encodeLabel l)) lb)) (foldl ?upd (?s ls vs []) lb)"
    by (rule fields_messages) (rule step)
  then have f3: "field_seq decodeSample_field (?s ls vs [])
      (concat (map (\<lambda>l. delimited 3 (encodeLabel l)) lb)) (?s ls vs lb)"
    by (simp only: upd append_Nil)
  show "field_seq decodeSample_field (?s [] [] []) (encodeSample s) s"
    using fields_append [OF f1 fields_append [OF f2 f3]] by (simp add: encodeSample_bytes s)
qed

lemma decodeLocation_encode: "location_ok loc \<Longrightarrow> decodes decodeLocation (encodeLocation loc) loc"
proof (rule decodeLocation_decodes)
  assume ok: "location_ok loc"
  obtain i ls fs where loc: "loc = \<lparr>loc_id = i, lines = ls, functionIds = fs\<rparr>" by (cases loc)
  let ?l = "\<lambda>i ls fs. \<lparr>loc_id = i, lines = ls, functionIds = fs\<rparr>"
  have f1: "field_seq decodeLocation_field (?l 0 [] []) (opt_varint 1 i) (?l i [] [])"
    by (rule fields_opt_varint) (use ok loc in \<open>simp_all add: location_ok_def decodeLocation_field_def\<close>)
  let ?upd = "\<lambda>acc l. acc\<lparr>lines := lines acc @ [l], functionIds := functionIds acc @ [functionId l]\<rparr>"
  have step: "field_seq decodeLocation_field acc (delimited 4 (encodeLine l)) (?upd acc l)"
    if "l \<in> set ls" for acc l
    by (rule fields_message [OF _ decodeLine_encode])
      (use ok loc that in \<open>auto simp: location_ok_def list_all_iff decodeLocation_field_def wire_defs\<close>)
  have upd: "foldl ?upd (?l i as bs) ls = ?l i (as @ ls) (bs @ map functionId ls)" for as bs
    by (induction ls arbitrary: as bs) auto
  have "field_seq decodeLocation_field (?l i [] [])
      (concat (map (\<lambda>l. delimited 4 (encodeLine l)) ls)) (foldl ?upd (?l i [] []) ls)"
    by (rule fields_messages) (rule step)
  then have f2: "field_seq decodeLocation_field (?l i [] [])
      (concat (map (\<lambda>l. delimited 4 (encodeLine l)) ls)) (?l i ls (map functionId ls))"
    by (simp only: upd append_Nil)
  show "field_seq decodeLocation_field (?l 0 [] []) (encodeLocation loc) loc"
    using fields_append [OF f1 f2] ok by (simp add: encodeLocation_bytes loc location_ok_def)
qed

lemma readString_decodes: "decodes (readString dec) bs (dec bs)"
  by (auto simp: decodes_def readString_def readBytes_rest)

text \<open>
  The top level.  Its five groups of messages are five segments of the encoding; the decoder's state
  after each is the profile with one more table filled in.
\<close>

lemma top_value_types:
  assumes "list_all value_type_ok vts"
  shows "field_seq (decodePprof_field dec) x (concat (map (\<lambda>v. delimited 1 (encodeValueType v)) vts))
    (x\<lparr>sampleTypes := sampleTypes x @ vts\<rparr>)"
proof -
  let ?upd = "\<lambda>x v. x\<lparr>sampleTypes := sampleTypes x @ [v]\<rparr>"
  have "field_seq (decodePprof_field dec) acc (delimited 1 (encodeValueType v)) (?upd acc v)"
    if "v \<in> set vts" for acc v
    by (rule fields_message [OF _ decodeValueType_encode])
      (use assms that in \<open>auto simp: list_all_iff decodePprof_field_def wire_defs\<close>)
  then have "field_seq (decodePprof_field dec) x (concat (map (\<lambda>v. delimited 1 (encodeValueType v)) vts))
      (foldl ?upd x vts)"
    by (rule fields_messages)
  moreover have "foldl ?upd x vts = x\<lparr>sampleTypes := sampleTypes x @ vts\<rparr>"
    by (induction vts arbitrary: x) auto
  ultimately show ?thesis by simp
qed

lemma top_samples:
  assumes "list_all sample_ok ss"
  shows "field_seq (decodePprof_field dec) x (concat (map (\<lambda>v. delimited 2 (encodeSample v)) ss))
    (x\<lparr>samples := samples x @ ss\<rparr>)"
proof -
  let ?upd = "\<lambda>x v. x\<lparr>samples := samples x @ [v]\<rparr>"
  have "field_seq (decodePprof_field dec) acc (delimited 2 (encodeSample v)) (?upd acc v)"
    if "v \<in> set ss" for acc v
    by (rule fields_message [OF _ decodeSample_encode])
      (use assms that in \<open>auto simp: list_all_iff decodePprof_field_def wire_defs\<close>)
  then have "field_seq (decodePprof_field dec) x (concat (map (\<lambda>v. delimited 2 (encodeSample v)) ss))
      (foldl ?upd x ss)"
    by (rule fields_messages)
  moreover have "foldl ?upd x ss = x\<lparr>samples := samples x @ ss\<rparr>"
    by (induction ss arbitrary: x) auto
  ultimately show ?thesis by simp
qed

lemma foldl_map_set_keyed:
  assumes "map_wf kvs" and "list_all (\<lambda>(k, v). k = key v) kvs"
  shows "foldl (\<lambda>m v. map_set m (key v) v) [] (map snd kvs) = kvs"
proof -
  have "foldl (\<lambda>m v. map_set m (key v) v) m (map snd kvs) = foldl (\<lambda>m (k, v). map_set m k v) m kvs" for m
    using assms(2) by (induction kvs arbitrary: m) auto
  then show ?thesis using foldl_map_set_distinct [of kvs "[]"] assms(1) by (simp add: map_wf_def)
qed

lemma top_locations:
  assumes "list_all (\<lambda>(k, l). k = loc_id l \<and> location_ok l) kvs" and "map_wf kvs" and "locationTable x = []"
  shows "field_seq (decodePprof_field dec) x (concat (map (\<lambda>v. delimited 4 (encodeLocation v)) (map snd kvs)))
    (x\<lparr>locationTable := kvs\<rparr>)"
proof -
  let ?upd = "\<lambda>x v. x\<lparr>locationTable := map_set (locationTable x) (loc_id v) v\<rparr>"
  have "field_seq (decodePprof_field dec) acc (delimited 4 (encodeLocation v)) (?upd acc v)"
    if "v \<in> set (map snd kvs)" for acc v
    by (rule fields_message [OF _ decodeLocation_encode])
      (use assms that in \<open>auto simp: list_all_iff decodePprof_field_def wire_defs\<close>)
  then have "field_seq (decodePprof_field dec) x (concat (map (\<lambda>v. delimited 4 (encodeLocation v)) (map snd kvs)))
      (foldl ?upd x (map snd kvs))"
    by (rule fields_messages)
  moreover have "foldl ?upd x vs = x\<lparr>locationTable := foldl (\<lambda>m v. map_set m (loc_id v) v) (locationTable x) vs\<rparr>" for vs
    by (induction vs arbitrary: x) auto
  moreover have "list_all (\<lambda>(k, v). k = loc_id v) kvs" using assms(1) by (auto simp: list_all_iff)
  ultimately show ?thesis using foldl_map_set_keyed [OF assms(2)] assms(3) by simp
qed

lemma top_functions:
  assumes "list_all (\<lambda>(k, f). k = fn_id f \<and> function_ok f) kvs" and "map_wf kvs" and "functionTable x = []"
  shows "field_seq (decodePprof_field dec) x (concat (map (\<lambda>v. delimited 5 (encodeFunction v)) (map snd kvs)))
    (x\<lparr>functionTable := kvs\<rparr>)"
proof -
  let ?upd = "\<lambda>x v. x\<lparr>functionTable := map_set (functionTable x) (fn_id v) v\<rparr>"
  have "field_seq (decodePprof_field dec) acc (delimited 5 (encodeFunction v)) (?upd acc v)"
    if "v \<in> set (map snd kvs)" for acc v
    by (rule fields_message [OF _ decodeFunction_encode])
      (use assms that in \<open>auto simp: list_all_iff decodePprof_field_def wire_defs\<close>)
  then have "field_seq (decodePprof_field dec) x (concat (map (\<lambda>v. delimited 5 (encodeFunction v)) (map snd kvs)))
      (foldl ?upd x (map snd kvs))"
    by (rule fields_messages)
  moreover have "foldl ?upd x vs = x\<lparr>functionTable := foldl (\<lambda>m v. map_set m (fn_id v) v) (functionTable x) vs\<rparr>" for vs
    by (induction vs arbitrary: x) auto
  moreover have "list_all (\<lambda>(k, v). k = fn_id v) kvs" using assms(1) by (auto simp: list_all_iff)
  ultimately show ?thesis using foldl_map_set_keyed [OF assms(2)] assms(3) by simp
qed

lemma top_strings:
  assumes "\<And>s. s \<in> set ss \<Longrightarrow> dec (enc s) = s"
  shows "field_seq (decodePprof_field dec) x (concat (map (\<lambda>s. delimited 6 (enc s)) ss))
    (x\<lparr>stringTable := stringTable x @ ss\<rparr>)"
proof -
  let ?upd = "\<lambda>x s. x\<lparr>stringTable := stringTable x @ [dec (enc s)]\<rparr>"
  have "field_seq (decodePprof_field dec) acc (delimited 6 (enc s)) (?upd acc s)" for acc s
    by (rule fields_message [OF _ readString_decodes]) (auto simp: decodePprof_field_def wire_defs)
  then have "field_seq (decodePprof_field dec) x (concat (map (\<lambda>s. delimited 6 (enc s)) ss)) (foldl ?upd x ss)"
    by (rule fields_messages)
  moreover have "foldl ?upd x ss = x\<lparr>stringTable := stringTable x @ ss\<rparr>"
    using assms by (induction ss arbitrary: x) auto
  ultimately show ?thesis by simp
qed

lemma encodePprof_fields:
  assumes "profile_ok p" and "\<And>s. s \<in> set (stringTable p) \<Longrightarrow> dec (enc s) = s"
  shows "field_seq (decodePprof_field dec) empty_profile (encodePprof enc p) p"
proof -
  let ?x1 = "empty_profile\<lparr>sampleTypes := sampleTypes p\<rparr>"
  let ?x2 = "?x1\<lparr>samples := samples p\<rparr>"
  let ?x3 = "?x2\<lparr>locationTable := locationTable p\<rparr>"
  let ?x4 = "?x3\<lparr>functionTable := functionTable p\<rparr>"
  note ok = assms(1) [unfolded profile_ok_def]
  have 1: "field_seq (decodePprof_field dec) empty_profile
      (concat (map (\<lambda>v. delimited 1 (encodeValueType v)) (sampleTypes p))) ?x1"
    using top_value_types [of "sampleTypes p" dec empty_profile] ok by (simp add: empty_profile_def)
  have 2: "field_seq (decodePprof_field dec) ?x1
      (concat (map (\<lambda>v. delimited 2 (encodeSample v)) (samples p))) ?x2"
    using top_samples [of "samples p" dec ?x1] ok by (simp add: empty_profile_def)
  have 3: "field_seq (decodePprof_field dec) ?x2
      (concat (map (\<lambda>v. delimited 4 (encodeLocation v)) (map snd (locationTable p)))) ?x3"
    by (rule top_locations) (use ok in \<open>auto simp: empty_profile_def\<close>)
  have 4: "field_seq (decodePprof_field dec) ?x3
      (concat (map (\<lambda>v. delimited 5 (encodeFunction v)) (map snd (functionTable p)))) ?x4"
    by (rule top_functions) (use ok in \<open>auto simp: empty_profile_def\<close>)
  have 5: "field_seq (decodePprof_field dec) ?x4
      (concat (map (\<lambda>s. delimited 6 (enc s)) (stringTable p))) (?x4\<lparr>stringTable := stringTable p\<rparr>)"
    using top_strings [of "stringTable p" dec enc ?x4] assms(2) by (simp add: empty_profile_def)
  have "?x4\<lparr>stringTable := stringTable p\<rparr> = p" by (simp add: empty_profile_def)
  then show ?thesis
    using fields_append [OF 1 fields_append [OF 2 fields_append [OF 3 fields_append [OF 4 5]]]]
    by (simp only: encodePprof_bytes append_assoc)
qed

lemma decodePprof_encode:
  assumes "profile_ok p" and "\<And>s. s \<in> set (stringTable p) \<Longrightarrow> dec (enc s) = s"
    and "length (encodePprof enc p) < 2 ^ 53"
  shows "decodePprof dec (encodePprof enc p) = Inr p"
proof -
  let ?b = "encodePprof enc p"
  have "decodePprof_loop dec empty_profile (new_Reader ?b) = Inr (p, advance (length ?b) (new_Reader ?b))"
    by (rule top_loop.loop_fields [where t = "[]", OF encodePprof_fields])
      (use assms in \<open>auto simp: new_Reader_def rest_def eof_def\<close>)
  then show ?thesis by (simp add: decodePprof_def)
qed

text \<open>An encoding starts with one of the five field headers, so it is never taken for a gzip stream.\<close>

definition no_magic :: "byte list \<Rightarrow> bool" where
  "no_magic bs \<longleftrightarrow> bs = [] \<or> hd bs \<noteq> 0x1F"

lemma no_magic_delimited:
  assumes "f < 8" and "no_magic t"
  shows "no_magic (concat (map (\<lambda>x. delimited f (g x)) xs) @ t)"
proof (cases xs)
  case (Cons x ys)
  have "varint (8 * f + 2) = [low7 (8 * f + 2)]"
    using assms(1) by (subst varint_unfold) simp
  then have "hd (delimited f (g x)) = low7 (8 * f + 2)" and "delimited f (g x) \<noteq> []"
    by (simp_all add: delimited_def tag_bytes_def wire_defs)
  moreover have "low7 (8 * f + 2) \<noteq> 0x1F"
  proof
    assume "low7 (8 * f + 2) = 0x1F"
    then have "unat (low7 (8 * f + 2)) = unat (0x1F :: byte)" by (rule arg_cong)
    then have "(8 * f + 2) mod 128 = 31" by (simp only: unat_low7) simp
    moreover have "8 * f + 2 < 128" using assms(1) by simp
    ultimately have "8 * f + 2 = 31" by simp
    then show False by arith
  qed
  ultimately show ?thesis using Cons by (simp add: no_magic_def)
qed (use assms in simp)

lemma no_magic_encodePprof: "no_magic (encodePprof enc p)"
proof -
  have "no_magic (concat (map (\<lambda>x. delimited 6 (enc x)) (stringTable p)) @ [])"
    by (rule no_magic_delimited) (simp_all add: no_magic_def)
  then show ?thesis
    unfolding encodePprof_bytes by (intro no_magic_delimited) simp_all
qed

section \<open>Properties\<close>

text \<open>
  C1: \<^verbatim>\<open>decodePprof(encodePprof(p))\<close> returns the profile \<open>p\<close> itself, for every well-formed profile
  whose numbers are exact JavaScript integers and whose strings survive \<^verbatim>\<open>TextEncoder\<close> followed by
  \<^verbatim>\<open>TextDecoder\<close>: no message, table entry or order is lost.
\<close>

theorem pprof_decode_encode:
  assumes "profile_ok p" and "\<forall>s \<in> set (stringTable p). dec (enc s) = s"
    and "length (encodePprof enc p) < 2 ^ 53"
  shows "decodePprof dec (encodePprof enc p) = Inr p"
  using decodePprof_encode assms by blast

definition ascii_enc :: "string \<Rightarrow> byte list" where
  "ascii_enc s = map (\<lambda>c. of_nat (of_char c)) s"

definition ascii_dec :: "byte list \<Rightarrow> string" where
  "ascii_dec bs = map (\<lambda>b. char_of (unat b)) bs"

definition sample_profile :: pprof_profile where
  "sample_profile = \<lparr>sampleTypes = [\<lparr>typeIdx = 1, unitIdx = 2\<rparr>],
     samples = [\<lparr>locationIds = [300, 2], svalues = [1000], labels = [\<lparr>keyIdx = 3, strIdx = 4, lnum = 0\<rparr>]\<rparr>],
     locationTable = [(300, \<lparr>loc_id = 300, lines = [\<lparr>functionId = 7, line = 12\<rparr>], functionIds = [7]\<rparr>)],
     functionTable = [(7, \<lparr>fn_id = 7, nameIdx = 1, filenameIdx = 0\<rparr>)],
     stringTable = ['''', ''cpu'', ''ns'', ''trace_id'', ''0af7651916cd43dd'']\<rparr>"

lemma ascii_dec_enc: "ascii_dec (ascii_enc s) = s"
  by (induction s) (simp_all add: ascii_dec_def ascii_enc_def unat_of_nat)

lemma sample_profile_ok: "profile_ok sample_profile"
  by (simp add: profile_ok_def sample_profile_def value_type_ok_def sample_ok_def label_ok_def
      location_ok_def line_ok_def function_ok_def map_wf_def)

lemma sample_profile_small: "length (encodePprof ascii_enc sample_profile) < 2 ^ 53"
  by (simp add: encodePprof_bytes sample_profile_def delimited_def tag_bytes_def wire_defs
      encodeValueType_bytes encodeSample_bytes encodeLocation_bytes encodeFunction_bytes encodeLabel_bytes
      encodeLine_bytes opt_varint_def packed_def varint_unfold ascii_enc_def)

theorem pprof_decode_encode_witness:
  "decodePprof ascii_dec (encodePprof ascii_enc sample_profile) = Inr sample_profile"
  by (rule pprof_decode_encode [OF sample_profile_ok _ sample_profile_small]) (simp add: ascii_dec_enc)

text \<open>\<^verbatim>\<open>decodePprofBlob\<close> accepts both forms of an upload.  An encoded profile is never mistaken for a
  gzip stream, whatever the decompressor does, and a compressed one is decompressed first; both give
  the profile back.  The compressor's documented contract is that its output starts with the gzip magic
  bytes and decompresses to its input.
\<close>

theorem pprof_blob_decode:
  assumes "profile_ok p" and "\<forall>s \<in> set (stringTable p). dec (enc s) = s"
    and "length (encodePprof enc p) < 2 ^ 53"
    and "\<forall>bs. 2 \<le> length (gzip bs) \<and> gzip bs ! 0 = 0x1F \<and> gzip bs ! 1 = 0x8B \<and> gunzip (gzip bs) = Some bs"
  shows "decodePprofBlob gunzip dec (gzip (encodePprof enc p)) = Inr p \<and>
    decodePprofBlob gunzip' dec (encodePprof enc p) = Inr p"
proof
  have d: "decodePprof dec (encodePprof enc p) = Inr p"
    using decodePprof_encode assms(1-3) by blast
  then show "decodePprofBlob gunzip dec (gzip (encodePprof enc p)) = Inr p"
    using assms(4) by (simp add: decodePprofBlob_def)
  have "\<not> (2 \<le> length (encodePprof enc p) \<and> encodePprof enc p ! 0 = 0x1F)"
    using no_magic_encodePprof [of enc p] by (cases "encodePprof enc p") (auto simp: no_magic_def)
  then show "decodePprofBlob gunzip' dec (encodePprof enc p) = Inr p"
    using d by (auto simp: decodePprofBlob_def)
qed

theorem pprof_blob_decode_witness:
  "decodePprofBlob (\<lambda>bs. Some (drop 2 bs)) ascii_dec (0x1F # 0x8B # encodePprof ascii_enc empty_profile)
     = Inr empty_profile
   \<and> decodePprofBlob (\<lambda>_. None) ascii_dec (encodePprof ascii_enc empty_profile) = Inr empty_profile"
proof -
  have e: "encodePprof ascii_enc empty_profile = []"
    by (simp add: encodePprof_bytes empty_profile_def)
  have "profile_ok empty_profile"
    by (simp add: profile_ok_def empty_profile_def map_wf_def)
  moreover have "\<forall>s \<in> set (stringTable empty_profile). ascii_dec (ascii_enc s) = s"
    by (simp add: empty_profile_def)
  moreover have "length (encodePprof ascii_enc empty_profile) < 2 ^ 53" by (simp add: e)
  moreover have "\<forall>bs. 2 \<le> length (0x1F # 0x8B # bs) \<and> (0x1F # 0x8B # bs) ! 0 = (0x1F :: byte) \<and>
      (0x1F # 0x8B # bs) ! 1 = (0x8B :: byte) \<and> Some (drop 2 (0x1F # 0x8B # bs)) = Some bs"
    by simp
  ultimately show ?thesis
    by (rule pprof_blob_decode [where gzip = "\<lambda>bs. 0x1F # 0x8B # bs"])
qed

text \<open>The sums that leave the exact range while the ten bytes of -1 are read.\<close>

lemma fl53_minus_one:
  "fl53 72057594037927935 = 72057594037927936"
  "fl53 9223372036854775808 = 9223372036854775808"
  "fl53 18446744073709551616 = 18446744073709551616"
  using floorlog2_unique [of 55 72057594037927935] floorlog2_unique [of 63 9223372036854775808]
    floorlog2_unique [of 64 18446744073709551616]
  by (simp_all add: fl53_def Let_def)

text \<open>The decoder reads every sample value as an unsigned number: the ten bytes by which protobuf
  writes the int64 value -1 decode to 18446744073709551616, not to -1.
\<close>

theorem negative_sample_value:
  "decodePprof dec [0x12, 0x0C, 0x12, 0x0A, 0xFF, 0xFF, 0xFF, 0xFF, 0xFF, 0xFF, 0xFF, 0xFF, 0xFF, 0x01]
     = Inr (empty_profile\<lparr>samples := [\<lparr>locationIds = [], svalues = [18446744073709551616], labels = []\<rparr>]\<rparr>)"
  by (simp add: decodePprof_def decodePprof_loop.simps new_Reader_def eof_def empty_profile_def
      readVarint_def readVarint_loop.simps js_add_def fl53_exact fl53_minus_one tag_field_def tag_wire_def
      decodePprof_field_def wire_defs decodeSample_def decodeSample_loop.simps decodeSample_field_def
      position_def decodePackedVarints_def decodePackedVarints_loop.simps)

end
