(* ===== verification/Profile_Index.thy ===== *)
theory Profile_Index
  imports Pprof_Codec
begin

text \<open>
  The collector's profile helpers, \<^verbatim>\<open>packages/obs-collector/src/lib/parse-pprof.ts\<close>: the trace index of
  an uploaded profile (\<open>extractTraceIdsFromProfile\<close>), the server-side filter that re-emits only the
  samples of one trace (\<open>filterPprofByTraceId\<close>) and the per-frame summary.  Shown: the index lists
  exactly the trace ids the filter can answer for, the filtered upload decodes to exactly the matching
  samples, and the summary accounts for every frame of every selected sample.
\<close>

section \<open>Definitions\<close>

definition TRACE_ID_LABEL_KEYS :: "string list" where
  "TRACE_ID_LABEL_KEYS = [''trace_id'', ''trace.id'']"

text \<open>\<^verbatim>\<open>/^[0-9a-f]{16,32}$/i\<close>\<close>

definition TRACE_ID_RE :: "string \<Rightarrow> bool" where
  "TRACE_ID_RE s \<longleftrightarrow> 16 \<le> length s \<and> length s \<le> 32 \<and> list_all is_hex_char s"

record code_reference =
  originalPath :: string
  relativePath :: "string option"
  absolutePath :: "string option"
  lineNumber :: "nat option"
  symbol :: string

record frame_summary =
  frame_name :: string
  frame_value :: nat
  sampleCount :: nat
  codeReference :: "code_reference option"

text \<open>The loop that collects the indices of the two label keys in the string table.\<close>

definition traceIdKeyIxs :: "pprof_profile \<Rightarrow> nat list" where
  "traceIdKeyIxs profile =
     foldl (\<lambda>ixs i. if stringTable profile ! i \<in> set TRACE_ID_LABEL_KEYS then set_add ixs i else ixs)
       [] [0..<length (stringTable profile)]"

text \<open>\<^verbatim>\<open>traceIdKeyIxs.has(l.keyIdx) && stringTable[l.strIdx]?.toLowerCase() === want\<close>\<close>

definition label_matches :: "pprof_profile \<Rightarrow> string \<Rightarrow> pprof_label \<Rightarrow> bool" where
  "label_matches profile want l \<longleftrightarrow> keyIdx l \<in> set (traceIdKeyIxs profile) \<and>
     map_option toLowerCase (at_index (stringTable profile) (strIdx l)) = Some want"

definition sampleHasTraceId :: "pprof_profile \<Rightarrow> pprof_sample \<Rightarrow> string option \<Rightarrow> bool" where
  "sampleHasTraceId profile sample traceIdFilter =
     (case traceIdFilter of None \<Rightarrow> True
      | Some t \<Rightarrow> if t = '''' then True
                  else list_ex (label_matches profile (toLowerCase t)) (labels sample))"

definition frame_key :: "string \<Rightarrow> string \<Rightarrow> nat \<Rightarrow> string" where
  "frame_key name filename lineNo = name @ [CHR 0x00] @ filename @ [CHR 0x00] @ decimal lineNo"

definition new_frame :: "string \<Rightarrow> string \<Rightarrow> nat \<Rightarrow> frame_summary" where
  "new_frame name filename lineNo =
     \<lparr>frame_name = name, frame_value = 0, sampleCount = 0,
      codeReference = (if filename = '''' then None
        else Some \<lparr>originalPath = filename,
                   relativePath = (if startsWith filename ''/'' then None else Some filename),
                   absolutePath = (if startsWith filename ''/'' then Some filename else None),
                   lineNumber = (if lineNo = 0 then None else Some lineNo),
                   symbol = name\<rparr>)\<rparr>"

text \<open>The body of the innermost loop: one line of one location.\<close>

definition add_frame ::
  "pprof_profile \<Rightarrow> nat \<Rightarrow> (string, frame_summary) js_map \<Rightarrow> pprof_line \<Rightarrow> (string, frame_summary) js_map" where
  "add_frame profile v byFrame l =
     (case map_get (functionTable profile) (functionId l) of None \<Rightarrow> byFrame
      | Some fn \<Rightarrow>
          let name = (case at_index (stringTable profile) (nameIdx fn) of None \<Rightarrow> ''?'' | Some s \<Rightarrow> s);
              filename = (case at_index (stringTable profile) (filenameIdx fn) of None \<Rightarrow> '''' | Some s \<Rightarrow> s);
              key = frame_key name filename (line l);
              existing = (case map_get byFrame key of None \<Rightarrow> new_frame name filename (line l) | Some f \<Rightarrow> f)
          in map_set byFrame key
               (existing\<lparr>frame_value := js_add (frame_value existing) v, sampleCount := sampleCount existing + 1\<rparr>))"

definition add_location ::
  "pprof_profile \<Rightarrow> nat \<Rightarrow> (string, frame_summary) js_map \<Rightarrow> nat \<Rightarrow> (string, frame_summary) js_map" where
  "add_location profile v byFrame locationId =
     (case map_get (locationTable profile) locationId of None \<Rightarrow> byFrame
      | Some loc \<Rightarrow> foldl (add_frame profile v) byFrame (lines loc))"

definition sample_value :: "pprof_sample \<Rightarrow> nat \<Rightarrow> nat" where
  "sample_value s i = (case at_index (svalues s) i of None \<Rightarrow> 0 | Some v \<Rightarrow> v)"

definition add_sample ::
  "pprof_profile \<Rightarrow> string option \<Rightarrow> (string, frame_summary) js_map \<Rightarrow> pprof_sample \<Rightarrow> (string, frame_summary) js_map" where
  "add_sample profile traceIdFilter byFrame sample =
     (if \<not> sampleHasTraceId profile sample traceIdFilter then byFrame
      else foldl (add_location profile (sample_value sample 0)) byFrame (locationIds sample))"

definition summary_limit :: "int option \<Rightarrow> nat" where
  "summary_limit limit = nat (max 1 (min (case limit of None \<Rightarrow> 50 | Some n \<Rightarrow> n) 500))"

definition summarizeProfileFrames ::
  "pprof_profile \<Rightarrow> int option \<Rightarrow> string option \<Rightarrow> frame_summary list" where
  "summarizeProfileFrames profile limit traceIdFilter =
     take (summary_limit limit) (sort_desc (\<lambda>f. int (frame_value f))
       (map snd (foldl (add_sample profile traceIdFilter) [] (samples profile))))"

definition extractTraceIdsFromProfile :: "pprof_profile \<Rightarrow> string list" where
  "extractTraceIdsFromProfile profile =
     (if traceIdKeyIxs profile = [] then []
      else foldl (\<lambda>ids sample. foldl (\<lambda>ids l.
               if keyIdx l \<notin> set (traceIdKeyIxs profile) then ids
               else case at_index (stringTable profile) (strIdx l) of None \<Rightarrow> ids
                    | Some v \<Rightarrow> if v \<noteq> '''' \<and> TRACE_ID_RE v then set_add ids (toLowerCase v) else ids)
             ids (labels sample)) [] (samples profile))"

definition filterPprofByTraceId ::
  "(byte list \<Rightarrow> byte list) \<Rightarrow> (string \<Rightarrow> byte list) \<Rightarrow> pprof_profile \<Rightarrow> string \<Rightarrow> byte list" where
  "filterPprofByTraceId gzip enc profile traceIdFilter =
     (let want = toLowerCase traceIdFilter;
          filtered = profile\<lparr>samples := filter (\<lambda>s. list_ex (label_matches profile want) (labels s)) (samples profile)\<rparr>
      in gzip (encodePprof enc filtered))"

section \<open>The key indices and the two forms of the filter\<close>

lemma foldl_set_add_filter:
  "set (foldl (\<lambda>ixs i. if P i then set_add ixs i else ixs) acc xs) = set acc \<union> {i \<in> set xs. P i}"
  by (induction xs arbitrary: acc) auto

lemma set_traceIdKeyIxs: "i \<in> set (traceIdKeyIxs p) \<longleftrightarrow>
    i < length (stringTable p) \<and> stringTable p ! i \<in> set TRACE_ID_LABEL_KEYS"
  by (auto simp: traceIdKeyIxs_def foldl_set_add_filter)

lemma sampleHasTraceId_some: "t \<noteq> '''' \<Longrightarrow>
    sampleHasTraceId p s (Some t) \<longleftrightarrow> (\<exists>l \<in> set (labels s). label_matches p (toLowerCase t) l)"
  by (simp add: sampleHasTraceId_def list_ex_iff)

section \<open>The trace index\<close>

text \<open>The trace ids a sample carries, as the index normalises them.\<close>

definition sample_trace_ids :: "pprof_profile \<Rightarrow> pprof_sample \<Rightarrow> string set" where
  "sample_trace_ids p s = {toLowerCase v |v l. l \<in> set (labels s) \<and> keyIdx l \<in> set (traceIdKeyIxs p) \<and>
     at_index (stringTable p) (strIdx l) = Some v \<and> v \<noteq> '''' \<and> TRACE_ID_RE v}"

lemma foldl_collect:
  assumes "\<And>acc x. set (f acc x) = set acc \<union> g x"
  shows "set (foldl f acc xs) = set acc \<union> (\<Union>x \<in> set xs. g x)"
  by (induction xs arbitrary: acc) (auto simp: assms)

lemma foldl_distinct:
  assumes "\<And>acc x. distinct acc \<Longrightarrow> distinct (f acc x)" and "distinct acc"
  shows "distinct (foldl f acc xs)"
  using assms(2) by (induction xs arbitrary: acc) (auto simp: assms(1))

lemma set_extractTraceIds:
  "set (extractTraceIdsFromProfile p) = (\<Union>s \<in> set (samples p). sample_trace_ids p s)"
proof (cases "traceIdKeyIxs p = []")
  case False
  let ?add = "\<lambda>ids l. if keyIdx l \<notin> set (traceIdKeyIxs p) then ids
      else case at_index (stringTable p) (strIdx l) of None \<Rightarrow> ids
           | Some v \<Rightarrow> if v \<noteq> '''' \<and> TRACE_ID_RE v then set_add ids (toLowerCase v) else ids"
  let ?ids = "\<lambda>l. {toLowerCase v |v. keyIdx l \<in> set (traceIdKeyIxs p) \<and>
      at_index (stringTable p) (strIdx l) = Some v \<and> v \<noteq> '''' \<and> TRACE_ID_RE v}"
  have "set (?add ids l) = set ids \<union> ?ids l" for ids l
    by (auto split: option.splits)
  then have fold: "set (foldl ?add ids ls) = set ids \<union> (\<Union>l \<in> set ls. ?ids l)" for ids ls
    by (rule foldl_collect)
  have "(\<Union>l \<in> set (labels s). ?ids l) = sample_trace_ids p s" for s
    by (auto simp: sample_trace_ids_def)
  from arg_cong [OF this] have "set (foldl ?add ids (labels s)) = set ids \<union> sample_trace_ids p s" for ids s
    by (rule trans [OF fold])
  from foldl_collect [of "\<lambda>ids s. foldl ?add ids (labels s)", OF this] False show ?thesis
    by (simp add: extractTraceIdsFromProfile_def)
qed (simp add: extractTraceIdsFromProfile_def sample_trace_ids_def)

lemma distinct_extractTraceIds: "distinct (extractTraceIdsFromProfile p)"
  unfolding extractTraceIdsFromProfile_def
  by (auto intro!: foldl_distinct split: option.split)

lemma TRACE_ID_RE_lower [simp]: "TRACE_ID_RE (toLowerCase v) \<longleftrightarrow> TRACE_ID_RE v"
  by (simp add: TRACE_ID_RE_def toLowerCase_def list_all_iff)

lemma TRACE_ID_RE_nonempty: "TRACE_ID_RE v \<Longrightarrow> v \<noteq> ''''"
  by (auto simp: TRACE_ID_RE_def)

section \<open>Properties\<close>

text \<open>The index entries \<^verbatim>\<open>extractTraceIdsFromProfile\<close> returns are pairwise distinct, lower-case,
  well-formed trace ids, and every one of them selects at least one sample when it is used as the filter.
\<close>

theorem trace_index_sound:
  "distinct (extractTraceIdsFromProfile p) \<and>
   list_all (\<lambda>t. toLowerCase t = t \<and> TRACE_ID_RE t \<and>
     list_ex (\<lambda>s. sampleHasTraceId p s (Some t)) (samples p)) (extractTraceIdsFromProfile p)"
proof -
  have "toLowerCase t = t \<and> TRACE_ID_RE t \<and> (\<exists>s \<in> set (samples p). sampleHasTraceId p s (Some t))"
    if "t \<in> set (extractTraceIdsFromProfile p)" for t
  proof -
    from that obtain s l v where s: "s \<in> set (samples p)" and l: "l \<in> set (labels s)"
      and m: "keyIdx l \<in> set (traceIdKeyIxs p)" "at_index (stringTable p) (strIdx l) = Some v"
        "TRACE_ID_RE v" "t = toLowerCase v"
      by (auto simp: set_extractTraceIds sample_trace_ids_def)
    from m have t: "toLowerCase t = t" "TRACE_ID_RE t" by simp_all
    from m t have "label_matches p (toLowerCase t) l" by (simp add: label_matches_def)
    with l t TRACE_ID_RE_nonempty have "sampleHasTraceId p s (Some t)"
      by (auto simp: sampleHasTraceId_some)
    with s t show ?thesis by blast
  qed
  then show ?thesis by (auto simp: distinct_extractTraceIds list_all_iff list_ex_iff)
qed

text \<open>The index is complete: whenever some sample answers to a well-formed trace id, in whatever
  letter case the caller writes it, the lower-case form of that id is in the index.
\<close>

theorem trace_index_complete:
  assumes "TRACE_ID_RE t" and "s \<in> set (samples p)" and "sampleHasTraceId p s (Some t)"
  shows "toLowerCase t \<in> set (extractTraceIdsFromProfile p)"
proof -
  from assms(1,3) obtain l v where l: "l \<in> set (labels s)" "keyIdx l \<in> set (traceIdKeyIxs p)"
      "at_index (stringTable p) (strIdx l) = Some v" "toLowerCase v = toLowerCase t"
    by (auto simp: sampleHasTraceId_some TRACE_ID_RE_nonempty label_matches_def)
  have "TRACE_ID_RE v"
    using assms(1) l(4) TRACE_ID_RE_lower by metis
  with l TRACE_ID_RE_nonempty have "toLowerCase v \<in> sample_trace_ids p s"
    unfolding sample_trace_ids_def by blast
  with assms(2) l(4) show ?thesis by (auto simp: set_extractTraceIds)
qed

theorem trace_index_complete_witness:
  "''0af7651916cd43dd'' \<in> set (extractTraceIdsFromProfile sample_profile)"
proof -
  have "toLowerCase ''0AF7651916CD43DD'' \<in> set (extractTraceIdsFromProfile sample_profile)"
  proof (rule trace_index_complete)
    show "TRACE_ID_RE ''0AF7651916CD43DD''" by code_simp
    show "samples sample_profile ! 0 \<in> set (samples sample_profile)" by (simp add: sample_profile_def)
    show "sampleHasTraceId sample_profile (samples sample_profile ! 0) (Some ''0AF7651916CD43DD'')"
      by code_simp
  qed
  moreover have "toLowerCase ''0AF7651916CD43DD'' = ''0af7651916cd43dd''" by code_simp
  ultimately show ?thesis by simp
qed

section \<open>The filtered upload\<close>

definition select_trace :: "string \<Rightarrow> pprof_profile \<Rightarrow> pprof_profile" where
  "select_trace t p = p\<lparr>samples := filter (\<lambda>s. sampleHasTraceId p s (Some t)) (samples p)\<rparr>"

lemma filterPprof_select: "t \<noteq> '''' \<Longrightarrow>
    filterPprofByTraceId gzip enc p t = gzip (encodePprof enc (select_trace t p))"
  by (simp add: filterPprofByTraceId_def select_trace_def sampleHasTraceId_def Let_def)

lemma profile_ok_select: "profile_ok p \<Longrightarrow> profile_ok (select_trace t p)"
  by (auto simp: profile_ok_def select_trace_def list_all_iff)

lemma stringTable_select [simp]: "stringTable (select_trace t p) = stringTable p"
  by (simp add: select_trace_def)

text \<open>
  C9: \<^verbatim>\<open>filterPprofByTraceId\<close> emits an upload that \<^verbatim>\<open>decodePprofBlob\<close> reads back as the original profile
  with exactly the samples of the trace, in order, and every table intact.
\<close>

theorem filter_upload_roundtrip:
  assumes "profile_ok p" and "\<forall>s \<in> set (stringTable p). dec (enc s) = s" and "t \<noteq> ''''"
    and "length (encodePprof enc (p\<lparr>samples := filter (\<lambda>s. sampleHasTraceId p s (Some t)) (samples p)\<rparr>)) < 2 ^ 53"
    and "\<forall>bs. 2 \<le> length (gzip bs) \<and> gzip bs ! 0 = 0x1F \<and> gzip bs ! 1 = 0x8B \<and> gunzip (gzip bs) = Some bs"
  shows "decodePprofBlob gunzip dec (filterPprofByTraceId gzip enc p t)
    = Inr (p\<lparr>samples := filter (\<lambda>s. sampleHasTraceId p s (Some t)) (samples p)\<rparr>)"
proof -
  have "decodePprof dec (encodePprof enc (select_trace t p)) = Inr (select_trace t p)"
    using assms(1,2,4) by (intro decodePprof_encode profile_ok_select) (auto simp: select_trace_def)
  then show ?thesis
    using assms(3,5) by (simp add: decodePprofBlob_def filterPprof_select select_trace_def)
qed

lemma sample_profile_select:
  "sample_profile\<lparr>samples := filter (\<lambda>s. sampleHasTraceId sample_profile s (Some ''0AF7651916CD43DD''))
     (samples sample_profile)\<rparr> = sample_profile"
  by code_simp

theorem filter_upload_roundtrip_witness:
  "decodePprofBlob (\<lambda>bs. Some (drop 2 bs)) ascii_dec
     (filterPprofByTraceId (\<lambda>bs. 0x1F # 0x8B # bs) ascii_enc sample_profile ''0AF7651916CD43DD'')
   = Inr sample_profile"
  using filter_upload_roundtrip [of sample_profile ascii_dec ascii_enc "''0AF7651916CD43DD''"
      "\<lambda>bs. 0x1F # 0x8B # bs" "\<lambda>bs. Some (drop 2 bs)"]
    sample_profile_ok sample_profile_small
  by (simp add: sample_profile_select ascii_dec_enc)

section \<open>The frame summary\<close>

text \<open>
  One occurrence of a frame: its key, the entry it would start and the sample's value.  The
  occurrences of a profile are those of the selected samples, in the order the loops visit them.
\<close>

definition line_occurrences :: "pprof_profile \<Rightarrow> nat \<Rightarrow> pprof_line \<Rightarrow> (string \<times> frame_summary \<times> nat) list" where
  "line_occurrences p v l = (case map_get (functionTable p) (functionId l) of None \<Rightarrow> []
     | Some fn \<Rightarrow>
         let name = (case at_index (stringTable p) (nameIdx fn) of None \<Rightarrow> ''?'' | Some s \<Rightarrow> s);
             filename = (case at_index (stringTable p) (filenameIdx fn) of None \<Rightarrow> '''' | Some s \<Rightarrow> s)
         in [(frame_key name filename (line l), new_frame name filename (line l), v)])"

definition location_occurrences where
  "location_occurrences p v i = (case map_get (locationTable p) i of None \<Rightarrow> []
     | Some loc \<Rightarrow> concat (map (line_occurrences p v) (lines loc)))"

definition frame_occurrences :: "pprof_profile \<Rightarrow> string option \<Rightarrow> (string \<times> frame_summary \<times> nat) list" where
  "frame_occurrences p f = concat (map (\<lambda>s. concat (map (location_occurrences p (sample_value s 0)) (locationIds s)))
     (filter (\<lambda>s. sampleHasTraceId p s f) (samples p)))"

definition count_frame :: "string \<times> frame_summary \<times> nat \<Rightarrow> frame_summary \<Rightarrow> frame_summary" where
  "count_frame x f = f\<lparr>frame_value := js_add (frame_value f) (snd (snd x)), sampleCount := sampleCount f + 1\<rparr>"

abbreviation frame_step where
  "frame_step \<equiv> group_step fst (\<lambda>x. fst (snd x)) count_frame"

lemma foldl_concat_map: "foldl f acc (concat (map g xs)) = foldl (\<lambda>acc x. foldl f acc (g x)) acc xs"
  by (induction xs arbitrary: acc) simp_all

lemma add_frame_step: "add_frame p v = (\<lambda>m l. foldl frame_step m (line_occurrences p v l))"
  by (intro ext) (simp add: add_frame_def line_occurrences_def group_step_def count_frame_def Let_def split: option.split)

lemma add_location_step: "add_location p v = (\<lambda>m i. foldl frame_step m (location_occurrences p v i))"
  by (intro ext) (simp add: add_location_def location_occurrences_def add_frame_step foldl_concat_map split: option.split)

lemma add_samples_step:
  "foldl (add_sample p f) m ss = foldl frame_step m
     (concat (map (\<lambda>s. concat (map (location_occurrences p (sample_value s 0)) (locationIds s)))
       (filter (\<lambda>s. sampleHasTraceId p s f) ss)))"
  by (induction ss arbitrary: m) (simp_all add: add_sample_def foldl_concat_map add_location_step)

lemma summary_groups:
  "foldl (add_sample p f) [] (samples p) = group_by fst (\<lambda>x. fst (snd x)) count_frame (frame_occurrences p f)"
  unfolding add_samples_step frame_occurrences_def by (rule foldl_group_step)

lemma fold_count_frame:
  "foldl (\<lambda>v x. count_frame x v) f xs =
     f\<lparr>frame_value := foldl js_add (frame_value f) (map (\<lambda>x. snd (snd x)) xs), sampleCount := sampleCount f + length xs\<rparr>"
  by (induction xs arbitrary: f) (simp_all add: count_frame_def)

text \<open>\<^verbatim>\<open>summarizeProfileFrames\<close> returns at most \<^verbatim>\<open>limit\<close> frames (never more than 500), in descending order of value, and
  they are the first ones of the stable sort of the frames that occur in the selected samples: one entry
  per frame key, whose \<^verbatim>\<open>sampleCount\<close> is the number of its occurrences and whose \<^verbatim>\<open>value\<close> is the sum of
  their sample values.
\<close>

theorem frame_summary_correct:
  "summarizeProfileFrames p limit f = take (summary_limit limit) (sort_desc (\<lambda>fr. int (frame_value fr))
     (map (\<lambda>k. let occ = filter (\<lambda>x. fst x = k) (frame_occurrences p f); start = fst (snd (hd occ))
                in start\<lparr>frame_value := foldl js_add (frame_value start) (map (\<lambda>x. snd (snd x)) occ),
                         sampleCount := sampleCount start + length occ\<rparr>)
        (firsts (map fst (frame_occurrences p f))))) \<and>
   length (summarizeProfileFrames p limit f) \<le> summary_limit limit \<and> summary_limit limit \<le> 500 \<and>
   sorted_wrt (\<lambda>a b. frame_value b \<le> frame_value a) (summarizeProfileFrames p limit f)"
proof -
  have "sorted_wrt (\<lambda>a b. frame_value b \<le> frame_value a) (summarizeProfileFrames p limit f)"
    using sorted_sort_desc [of "\<lambda>fr. int (frame_value fr)"]
    by (auto simp: summarizeProfileFrames_def intro!: sorted_wrt_take)
  then show ?thesis
    by (auto simp: summarizeProfileFrames_def summary_groups group_by_def group_value_def fold_count_frame
        Let_def summary_limit_def comp_def)
qed

end
