(* ===== verification/Flame_Graph.thy ===== *)
theory Flame_Graph
  imports Profile_Index
begin

text \<open>
  The dashboard's flame graph, \<^verbatim>\<open>packages/dashboard/src/components/flame-graph/parse-pprof.ts\<close>: fetching a
  profile, aggregating its samples into a tree of call paths (\<open>aggregateFlameTree\<close>) and laying the tree
  out as bars (\<open>flattenFlameTree\<close>).  The source descends the tree with a mutable cursor; every node has
  one parent, so \<open>add_path\<close> is the same update as a function on the tree.

  Shown: the value of a node is the sum of the samples whose call path runs through it; the bars of a
  row never overlap and lie within the total; what the dashboard draws from a server-filtered upload
  is what it would draw by filtering itself, as long as the trace labels are in lower case.
\<close>

section \<open>Definitions\<close>

record flame_ref =
  ref_relativePath :: "string option"
  ref_absolutePath :: "string option"
  ref_originalPath :: string
  ref_lineNumber :: "nat option"

datatype flame_node =
  FlameNode (node_name: string) (node_value: nat) (children: "(string, flame_node) js_map")
    (codeRef: "flame_ref option")

datatype fetch_error = BadStatus nat string | BadProfile pprof_error

record fetch_response =
  response_ok :: bool
  response_status :: nat
  response_statusText :: string
  response_body :: "byte list"

definition fetchAndDecodePprof ::
  "(string \<Rightarrow> fetch_response) \<Rightarrow> (byte list \<Rightarrow> byte list option) \<Rightarrow> (byte list \<Rightarrow> string) \<Rightarrow> string
     \<Rightarrow> fetch_error + pprof_profile" where
  "fetchAndDecodePprof fetch gunzip dec url =
     (let res = fetch url in
      if \<not> response_ok res then Inl (BadStatus (response_status res) (response_statusText res))
      else case decodePprofBlob gunzip dec (response_body res) of
             Inl e \<Rightarrow> Inl (BadProfile e) | Inr p \<Rightarrow> Inr p)"

text \<open>The filter of the aggregation: label values are compared verbatim.\<close>

definition sample_selected :: "pprof_profile \<Rightarrow> string option \<Rightarrow> pprof_sample \<Rightarrow> bool" where
  "sample_selected profile traceIdFilter sample =
     (case traceIdFilter of None \<Rightarrow> True
      | Some t \<Rightarrow> list_ex (\<lambda>l. keyIdx l \<in> set (traceIdKeyIxs profile) \<and>
                     at_index (stringTable profile) (strIdx l) = Some t) (labels sample))"

definition line_codeRef :: "string \<Rightarrow> nat \<Rightarrow> flame_ref option" where
  "line_codeRef filename lineNo =
     (if filename = '''' then None
      else Some \<lparr>ref_relativePath = (if startsWith filename ''/'' then None else Some filename),
                 ref_absolutePath = (if startsWith filename ''/'' then Some filename else None),
                 ref_originalPath = filename,
                 ref_lineNumber = (if lineNo = 0 then None else Some lineNo)\<rparr>)"

text \<open>The frames of a line: none when its function is missing.\<close>

definition line_frames :: "pprof_profile \<Rightarrow> pprof_line \<Rightarrow> (string \<times> flame_ref option) list" where
  "line_frames profile l =
     (case map_get (functionTable profile) (functionId l) of None \<Rightarrow> []
      | Some fn \<Rightarrow>
          let name = (case at_index (stringTable profile) (nameIdx fn) of None \<Rightarrow> ''?'' | Some s \<Rightarrow> s);
              filename = (case at_index (stringTable profile) (filenameIdx fn) of None \<Rightarrow> '''' | Some s \<Rightarrow> s)
          in [(name, line_codeRef filename (line l))])"

text \<open>The frames the two inner loops visit, root first.\<close>

definition sample_frames :: "pprof_profile \<Rightarrow> pprof_sample \<Rightarrow> (string \<times> flame_ref option) list" where
  "sample_frames profile sample =
     concat (map (\<lambda>i. case map_get (locationTable profile) i of None \<Rightarrow> []
                      | Some loc \<Rightarrow> concat (map (line_frames profile) (rev (lines loc))))
       (rev (locationIds sample)))"

fun bump :: "flame_node \<Rightarrow> nat \<Rightarrow> flame_node" where
  "bump (FlameNode nm x ch cr) v = FlameNode nm (js_add x v) ch cr"

fun add_path :: "(string \<times> flame_ref option) list \<Rightarrow> nat \<Rightarrow> flame_node \<Rightarrow> flame_node" where
  "add_path [] v node = node"
| "add_path ((name, ref) # frames) v (FlameNode nm x ch cr) =
     (let child = (case map_get ch name of None \<Rightarrow> FlameNode name 0 [] ref | Some c \<Rightarrow> c)
      in FlameNode nm x (map_set ch name (add_path frames v (bump child v))) cr)"

definition flame_step ::
  "pprof_profile \<Rightarrow> string option \<Rightarrow> nat \<Rightarrow> flame_node \<times> nat \<Rightarrow> pprof_sample \<Rightarrow> flame_node \<times> nat" where
  "flame_step profile traceIdFilter valueIndex st sample =
     (let (root, total) = st; v = sample_value sample valueIndex in
      if \<not> sample_selected profile traceIdFilter sample then st
      else if v \<le> 0 then st
      else (add_path (sample_frames profile sample) v (bump root v), js_add total v))"

definition flame_root :: flame_node where
  "flame_root = FlameNode ''__root__'' 0 [] None"

definition aggregateFlameTree :: "pprof_profile \<Rightarrow> string option \<Rightarrow> nat \<Rightarrow> flame_node \<times> nat" where
  "aggregateFlameTree profile traceIdFilter valueIndex =
     foldl (flame_step profile traceIdFilter valueIndex) (flame_root, 0) (samples profile)"

text \<open>One bar of the layout: the node with its depth and offset.\<close>

record flame_bar =
  bar_node :: flame_node
  bar_depth :: nat
  bar_offset :: nat

lemma size_sorted_children:
  "sum_list (map size (sort_desc k (map snd ch))) + length ch < size (FlameNode nm x ch cr)"
  unfolding sum_sort_desc by (induction ch) auto

function (sequential) walk :: "flame_node \<Rightarrow> nat \<Rightarrow> nat \<Rightarrow> flame_bar list"
  and walk_children :: "flame_node list \<Rightarrow> nat \<Rightarrow> nat \<Rightarrow> flame_bar list" where
  "walk (FlameNode nm x ch cr) depth off =
     \<lparr>bar_node = FlameNode nm x ch cr, bar_depth = depth, bar_offset = off\<rparr>
     # walk_children (sort_desc (\<lambda>c. int (node_value c)) (map snd ch)) (depth + 1) off"
| "walk_children [] depth cursor = []"
| "walk_children (c # cs) depth cursor =
     walk c depth cursor @ walk_children cs depth (js_add cursor (node_value c))"
  by pat_completeness auto
termination
proof (relation "measure (case_sum (\<lambda>(n, _, _). 2 * size n)
    (\<lambda>(cs, _, _). 2 * sum_list (map size cs) + length cs + 1))", goal_cases)
  case (2 nm x ch cr depth off)
  show ?case
    using size_sorted_children [of "\<lambda>c. int (node_value c)" ch nm x cr] by simp
qed auto

definition flattenFlameTree :: "flame_node \<Rightarrow> flame_bar list" where
  "flattenFlameTree node = walk node 0 0"

section \<open>The value of a call path\<close>

fun node_at :: "string list \<Rightarrow> flame_node \<Rightarrow> flame_node option" where
  "node_at [] node = Some node"
| "node_at (name # path) node =
     (case map_get (children node) name of None \<Rightarrow> None | Some c \<Rightarrow> node_at path c)"

definition path_value :: "string list \<Rightarrow> flame_node \<Rightarrow> nat" where
  "path_value path node = (case node_at path node of None \<Rightarrow> 0 | Some n \<Rightarrow> node_value n)"

text \<open>The weights and call paths of the samples that are drawn.\<close>

definition drawn_stacks :: "pprof_profile \<Rightarrow> string option \<Rightarrow> nat \<Rightarrow> (nat \<times> string list) list" where
  "drawn_stacks p f i = map (\<lambda>s. (sample_value s i, map fst (sample_frames p s)))
     (filter (\<lambda>s. sample_selected p f s \<and> 0 < sample_value s i) (samples p))"

lemma flame_step_eq: "flame_step p f i (n, ttl) s =
    (if sample_selected p f s \<and> 0 < sample_value s i
     then (add_path (sample_frames p s) (sample_value s i) (bump n (sample_value s i)), js_add ttl (sample_value s i))
     else (n, ttl))"
  by (simp add: flame_step_def Let_def)

lemma bump_simps [simp]:
  "node_value (bump n v) = js_add (node_value n) v" "children (bump n v) = children n"
  by (cases n; simp)+

lemma node_value_add_path [simp]: "node_value (add_path fs v n) = node_value n"
  by (induction fs v n rule: add_path.induct) (simp_all add: Let_def)

lemma path_value_Nil [simp]: "path_value [] n = node_value n"
  by (simp add: path_value_def)

lemma path_value_Cons: "path_value (name # path) n =
    (case map_get (children n) name of None \<Rightarrow> 0 | Some c \<Rightarrow> path_value path c)"
  by (simp add: path_value_def split: option.split)

lemma path_value_bump: "path_value path (bump n v) =
    (if path = [] then js_add (node_value n) v else path_value path n)"
  by (cases path) (simp_all add: path_value_Cons)

lemma path_value_fresh: "path_value path (FlameNode nm 0 [] cr) = 0"
  by (cases path) (simp_all add: path_value_Cons map_get_def)

lemma path_value_add_path:
  "path_value path (add_path fs v (bump n v)) =
     (if prefix path (map fst fs) then js_add (path_value path n) v else path_value path n)"
proof (induction fs arbitrary: n path)
  case Nil
  show ?case by (simp add: path_value_bump)
next
  case (Cons fr fs)
  show ?case
  proof (cases path)
    case (Cons name path')
    obtain nm x ch cr where n: "n = FlameNode nm x ch cr" by (cases n)
    obtain k ref where fr: "fr = (k, ref)" by (cases fr)
    show ?thesis
      using Cons.IH Cons
      by (auto simp: n fr path_value_Cons map_get_set path_value_fresh Let_def split: option.split)
  qed simp
qed

lemma node_at_add_path:
  "node_at path (add_path fs v (bump n v)) = None \<longleftrightarrow>
     node_at path n = None \<and> \<not> prefix path (map fst fs)"
proof (induction fs arbitrary: n path)
  case Nil
  show ?case by (cases path) (simp_all)
next
  case (Cons fr fs)
  show ?case
  proof (cases path)
    case (Cons name path')
    obtain nm x ch cr where n: "n = FlameNode nm x ch cr" by (cases n)
    obtain k ref where fr: "fr = (k, ref)" by (cases fr)
    have "node_at path' (FlameNode k 0 [] ref) = None \<longleftrightarrow> path' \<noteq> []"
      by (cases path') (simp_all add: map_get_def)
    then show ?thesis
      using Cons.IH Cons
      by (auto simp: n fr map_get_set Let_def split: option.split)
  qed simp
qed

definition draw_stacks :: "(nat \<times> string list) list \<Rightarrow> string list \<Rightarrow> nat" where
  "draw_stacks stacks path = foldl js_add 0 (map fst (filter (\<lambda>x. prefix path (snd x)) stacks))"

lemma aggregate_fold:
  "let (n, total) = foldl (flame_step p f i) (flame_root, 0) ss;
       stacks = map (\<lambda>s. (sample_value s i, map fst (sample_frames p s)))
         (filter (\<lambda>s. sample_selected p f s \<and> 0 < sample_value s i) ss)
   in path_value path n = draw_stacks stacks path \<and> total = draw_stacks stacks [] \<and>
      (node_at path n = None \<longleftrightarrow> path \<noteq> [] \<and> \<not> list_ex (\<lambda>x. prefix path (snd x)) stacks)"
proof (induction ss rule: rev_induct)
  case Nil
  show ?case by (cases path) (simp_all add: draw_stacks_def flame_root_def path_value_fresh map_get_def)
next
  case (snoc s ss)
  obtain n ttl where "foldl (flame_step p f i) (flame_root, 0) ss = (n, ttl)" by force
  with snoc show ?case
    by (auto simp: flame_step_eq Let_def case_prod_beta path_value_add_path node_at_add_path draw_stacks_def)
qed

text \<open>In the flame graph the value of the node at a call path is the sum of the values of the selected
  samples whose stack, root first, starts with that path; a node exists exactly for the paths that occur;
  and the total is the value of the root.
\<close>

theorem flame_path_value:
  "case aggregateFlameTree p f i of (tree, ttl) \<Rightarrow>
     path_value path tree
       = foldl js_add 0 (map fst (filter (\<lambda>x. prefix path (snd x)) (drawn_stacks p f i))) \<and>
     ttl = node_value tree \<and>
     (node_at path tree \<noteq> None \<longleftrightarrow> path = [] \<or> list_ex (\<lambda>x. prefix path (snd x)) (drawn_stacks p f i))"
  using aggregate_fold [of p f i "samples p" path] aggregate_fold [of p f i "samples p" "[]"]
  by (auto simp: aggregateFlameTree_def drawn_stacks_def draw_stacks_def Let_def case_prod_beta)

section \<open>The layout\<close>

fun wf_node :: "flame_node \<Rightarrow> bool" where
  "wf_node (FlameNode nm x ch cr) \<longleftrightarrow>
     sum_list (map (\<lambda>e. node_value (snd e)) ch) \<le> x \<and> list_all (\<lambda>e. wf_node (snd e)) ch"

fun node_count :: "flame_node \<Rightarrow> nat" where
  "node_count (FlameNode nm x ch cr) = 1 + sum_list (map (\<lambda>e. node_count (snd e)) ch)"

abbreviation child_sum :: "flame_node \<Rightarrow> nat" where
  "child_sum n \<equiv> sum_list (map (\<lambda>e. node_value (snd e)) (children n))"

lemma wf_node_sum: "wf_node n \<Longrightarrow> child_sum n \<le> node_value n"
  by (cases n) simp

lemma wf_node_bump: "wf_node n \<Longrightarrow> wf_node (bump n v)"
  using js_add_ge(1) [of "node_value n" v] by (cases n) (auto simp del: js_add_ge)

lemma child_value_le: "(k, c) \<in> set ch \<Longrightarrow> node_value c \<le> sum_list (map (\<lambda>e. node_value (snd e)) ch)"
  by (induction ch) auto

lemma wf_add_path:
  assumes "wf_node n" and "child_sum n + v \<le> node_value n" and "node_value n < 2 ^ 53"
  shows "wf_node (add_path fs v n)"
  using assms
proof (induction fs arbitrary: n)
  case (Cons fr fs)
  obtain nm x ch cr where n: "n = FlameNode nm x ch cr" by (cases n)
  obtain k ref where fr: "fr = (k, ref)" by (cases fr)
  define c where "c = (case map_get ch k of None \<Rightarrow> FlameNode k 0 [] ref | Some c \<Rightarrow> c)"
  have c: "wf_node c \<and> node_value c = (case map_get ch k of None \<Rightarrow> 0 | Some c \<Rightarrow> node_value c)
      \<and> node_value c + v \<le> x"
  proof (cases "map_get ch k")
    case (Some d)
    then show ?thesis
      using Cons.prems map_get_in [OF Some] child_value_le [of k d ch]
      by (auto simp: c_def n list_all_iff)
  qed (use Cons.prems in \<open>simp add: c_def n\<close>)
  have bump: "node_value (bump c v) = node_value c + v"
    using c Cons.prems by (simp add: n js_add_exact)
  have "wf_node (add_path fs v (bump c v))"
    using Cons.IH [of "bump c v"] wf_node_bump c wf_node_sum [of c] Cons.prems bump by (simp add: n)
  moreover have "sum_list (map (\<lambda>e. node_value (snd e)) (map_set ch k (add_path fs v (bump c v)))) \<le> x"
    using sum_map_set [of node_value ch k "add_path fs v (bump c v)"] Cons.prems c bump by (simp add: n)
  ultimately show ?case
    using Cons.prems set_map_set [of ch k "add_path fs v (bump c v)"]
    by (auto simp: n fr Let_def c_def list_all_iff)
qed simp

lemma aggregate_wf:
  "snd (foldl (flame_step p f i) (flame_root, 0) ss) < 2 ^ 53 \<Longrightarrow>
   wf_node (fst (foldl (flame_step p f i) (flame_root, 0) ss)) \<and>
   node_value (fst (foldl (flame_step p f i) (flame_root, 0) ss)) = snd (foldl (flame_step p f i) (flame_root, 0) ss)"
proof (induction ss rule: rev_induct)
  case (snoc s ss)
  obtain n t where st: "foldl (flame_step p f i) (flame_root, 0) ss = (n, t)" by force
  let ?v = "sample_value s i"
  show ?case
  proof (cases "sample_selected p f s \<and> 0 < ?v")
    case True
    then have lt: "js_add t ?v < 2 ^ 53" using snoc.prems st by (simp add: flame_step_eq)
    then have "t < 2 ^ 53" using js_add_ge(1) [of t ?v] by linarith
    then have n: "wf_node n" "node_value n = t" using snoc.IH st by simp_all
    have "js_add t ?v = t + ?v" using lt by (rule js_add_small)
    then have "wf_node (add_path (sample_frames p s) ?v (bump n ?v))"
      using lt n wf_node_sum [of n] by (intro wf_add_path wf_node_bump) simp_all
    then show ?thesis using True st n by (simp add: flame_step_eq)
  next
    case False
    then show ?thesis using snoc st by (auto simp: flame_step_eq)
  qed
qed (simp add: flame_root_def)

abbreviation bar_end :: "flame_bar \<Rightarrow> nat" where
  "bar_end b \<equiv> bar_offset b + node_value (bar_node b)"

definition row_disjoint :: "flame_bar \<Rightarrow> flame_bar \<Rightarrow> bool" where
  "row_disjoint a b \<longleftrightarrow> (bar_depth a = bar_depth b \<longrightarrow> bar_end a \<le> bar_offset b)"

lemma wf_children: "wf_node (FlameNode nm x ch cr) \<Longrightarrow> c \<in> snd ` set ch \<Longrightarrow> wf_node c"
  by (auto simp: list_all_iff)

lemma sum_children:
  "sum_list (map f (sort_desc k (map snd ch))) = (sum_list (map (\<lambda>e. f (snd e)) ch) :: nat)"
  by (simp add: sum_sort_desc comp_def)

definition layout_ok :: "nat \<Rightarrow> nat \<Rightarrow> nat \<Rightarrow> flame_bar list \<Rightarrow> bool" where
  "layout_ok depth off fin bars \<longleftrightarrow> sorted_wrt row_disjoint bars \<and>
     list_all (\<lambda>b. depth \<le> bar_depth b \<and> off \<le> bar_offset b \<and> bar_end b \<le> fin) bars"

lemma layout_ok_append:
  assumes "layout_ok d off mid xs" and "layout_ok d mid fin ys" and "off \<le> mid" and "mid \<le> fin"
  shows "layout_ok d off fin (xs @ ys)"
  using assms by (fastforce simp: layout_ok_def sorted_wrt_append list_all_iff row_disjoint_def)

lemma layout_ok_Cons:
  assumes "layout_ok (Suc d) off fin xs" and "bar_depth b = d" and "off = bar_offset b" and "bar_end b = fin"
  shows "layout_ok d off fin (b # xs)"
  using assms by (fastforce simp: layout_ok_def list_all_iff row_disjoint_def)

lemma layout_ok_widen: "layout_ok d off mid xs \<Longrightarrow> mid \<le> fin \<Longrightarrow> layout_ok d off fin xs"
  by (auto simp: layout_ok_def list_all_iff)

lemma walk_layout:
  "wf_node n \<Longrightarrow> off + node_value n < 2 ^ 53 \<Longrightarrow> layout_ok depth off (off + node_value n) (walk n depth off)"
  "list_all wf_node cs \<Longrightarrow> off + sum_list (map node_value cs) < 2 ^ 53 \<Longrightarrow>
     layout_ok depth off (off + sum_list (map node_value cs)) (walk_children cs depth off)"
proof (induction n depth off and cs depth off rule: walk_walk_children.induct)
  case (1 nm x ch cr depth off)
  let ?cs = "sort_desc (\<lambda>c. int (node_value c)) (map snd ch)"
  have le: "sum_list (map node_value ?cs) \<le> x"
    using "1.prems"(1) by (simp add: sum_children)
  have "list_all wf_node ?cs" using wf_children [OF "1.prems"(1)] by (simp add: list_all_iff)
  then have "layout_ok (depth + 1) off (off + sum_list (map node_value ?cs)) (walk_children ?cs (depth + 1) off)"
    using "1.IH" le "1.prems"(2) by simp
  then have "layout_ok (Suc depth) off (off + x) (walk_children ?cs (depth + 1) off)"
    using le by (auto intro: layout_ok_widen)
  then show ?case by (auto intro: layout_ok_Cons)
next
  case (3 c cs depth cursor)
  then have e: "js_add cursor (node_value c) = cursor + node_value c" by (intro js_add_exact) simp
  have "layout_ok depth cursor (cursor + node_value c) (walk c depth cursor)"
    and "layout_ok depth (cursor + node_value c) (cursor + node_value c + sum_list (map node_value cs))
      (walk_children cs depth (cursor + node_value c))"
    using 3 e by simp_all
  then show ?case using e by (auto intro!: layout_ok_append simp: add.assoc)
qed (simp add: layout_ok_def)

lemma walk_length:
  "length (walk n depth off) = node_count n"
  "length (walk_children cs depth off) = sum_list (map node_count cs)"
  by (induction n depth off and cs depth off rule: walk_walk_children.induct)
    (simp_all add: sum_children)

text \<open>In the layout of a profile's flame graph every node of the tree is one bar, no two bars of a row
  overlap, and every bar ends within the total, as long as the total is an exact JavaScript integer.
\<close>

theorem flame_layout_disjoint:
  assumes "snd (aggregateFlameTree p f i) < 2 ^ 53"
  shows "let bars = flattenFlameTree (fst (aggregateFlameTree p f i)) in
    length bars = node_count (fst (aggregateFlameTree p f i)) \<and>
    sorted_wrt (\<lambda>a b. bar_depth a = bar_depth b \<longrightarrow>
      bar_offset a + node_value (bar_node a) \<le> bar_offset b) bars \<and>
    list_all (\<lambda>b. bar_offset b + node_value (bar_node b) \<le> snd (aggregateFlameTree p f i)) bars"
proof -
  note wf = aggregate_wf [of p f i "samples p", folded aggregateFlameTree_def, OF assms]
  then have "layout_ok 0 0 (snd (aggregateFlameTree p f i)) (flattenFlameTree (fst (aggregateFlameTree p f i)))"
    using walk_layout(1) [of "fst (aggregateFlameTree p f i)" 0 0] assms by (simp add: flattenFlameTree_def)
  then show ?thesis
    by (simp add: layout_ok_def row_disjoint_def [abs_def] Let_def list_all_iff flattenFlameTree_def walk_length)
qed

theorem flame_layout_disjoint_witness:
  "snd (aggregateFlameTree sample_profile None 0) < 2 ^ 53 \<and>
   list_all (\<lambda>b. bar_offset b + node_value (bar_node b) \<le> 1000)
     (flattenFlameTree (fst (aggregateFlameTree sample_profile None 0)))"
proof -
  have t: "snd (aggregateFlameTree sample_profile None 0) = 1000"
    by (simp add: aggregateFlameTree_def sample_profile_def flame_step_eq sample_selected_def
        sample_value_def at_index_def js_add_exact)
  then show ?thesis using flame_layout_disjoint [of sample_profile None 0] by (simp add: Let_def)
qed

section \<open>Server-side and browser-side filtering\<close>

lemma tables_select [simp]:
  "locationTable (select_trace t p) = locationTable p" "functionTable (select_trace t p) = functionTable p"
  by (simp_all add: select_trace_def)

lemma foldl_flame_filter:
  assumes "\<And>s. s \<in> set ss \<Longrightarrow> sample_selected p (Some t) s = sampleHasTraceId p s (Some t)"
  shows "foldl (flame_step (select_trace t p) None i) st (filter (\<lambda>s. sampleHasTraceId p s (Some t)) ss)
    = foldl (flame_step p (Some t) i) st ss"
  using assms
proof (induction ss arbitrary: st)
  case (Cons s ss)
  have "sample_frames (select_trace t p) s = sample_frames p s" for s
    by (simp add: sample_frames_def line_frames_def [abs_def] cong: option.case_cong)
  then have "flame_step (select_trace t p) None i st s = flame_step p (Some t) i st s"
    if "sample_selected p (Some t) s"
    using that by (cases st) (simp add: flame_step_eq sample_selected_def)
  moreover have "flame_step p (Some t) i st s = st" if "\<not> sample_selected p (Some t) s"
    using that by (cases st) (simp add: flame_step_eq)
  ultimately show ?case using Cons by auto
qed simp

text \<open>When the strings of the profile and the requested trace id are in lower case, the flame graph the
  dashboard fetches from the server-side filter is the one it would draw by filtering the full profile
  itself.
\<close>

theorem flame_filter_agrees:
  assumes "profile_ok p" and "\<forall>s \<in> set (stringTable p). dec (enc s) = s \<and> toLowerCase s = s"
    and "t \<noteq> ''''" and "toLowerCase t = t"
    and "length (encodePprof enc (p\<lparr>samples := filter (\<lambda>s. sampleHasTraceId p s (Some t)) (samples p)\<rparr>)) < 2 ^ 53"
    and "\<forall>bs. 2 \<le> length (gzip bs) \<and> gzip bs ! 0 = 0x1F \<and> gzip bs ! 1 = 0x8B \<and> gunzip (gzip bs) = Some bs"
    and "response_ok (fetch url)" and "response_body (fetch url) = filterPprofByTraceId gzip enc p t"
  shows "map_sum id (\<lambda>q. aggregateFlameTree q None i) (fetchAndDecodePprof fetch gunzip dec url)
    = Inr (aggregateFlameTree p (Some t) i)"
proof -
  have "decodePprof dec (encodePprof enc (select_trace t p)) = Inr (select_trace t p)"
    using assms(1,2,5) by (intro decodePprof_encode profile_ok_select) (auto simp: select_trace_def)
  then have "fetchAndDecodePprof fetch gunzip dec url = Inr (select_trace t p)"
    using assms(3,6,7,8) by (simp add: fetchAndDecodePprof_def decodePprofBlob_def filterPprof_select)
  moreover have "map_option toLowerCase (at_index (stringTable p) k) = at_index (stringTable p) k" for k
    using assms(2) by (simp add: at_index_def)
  then have "sample_selected p (Some t) s = sampleHasTraceId p s (Some t)" for s
    using assms(3,4) by (simp add: sample_selected_def sampleHasTraceId_def label_matches_def [abs_def] del: map_option_eq_Some)
  ultimately show ?thesis
    using foldl_flame_filter [of "samples p" p t i "(flame_root, 0)"]
    by (simp add: aggregateFlameTree_def) (simp add: select_trace_def)
qed

theorem flame_filter_agrees_witness:
  "map_sum id (\<lambda>q. aggregateFlameTree q None 0)
     (fetchAndDecodePprof (\<lambda>_. \<lparr>response_ok = True, response_status = 200, response_statusText = ''OK'',
        response_body = filterPprofByTraceId (\<lambda>bs. 0x1F # 0x8B # bs) ascii_enc sample_profile ''0af7651916cd43dd''\<rparr>)
      (\<lambda>bs. Some (drop 2 bs)) ascii_dec ''/profile'')
   = Inr (aggregateFlameTree sample_profile (Some ''0af7651916cd43dd'') 0)"
proof (rule flame_filter_agrees [where gzip = "\<lambda>bs. 0x1F # 0x8B # bs" and enc = ascii_enc, OF sample_profile_ok])
  have "list_all (\<lambda>s. toLowerCase s = s) (stringTable sample_profile)" by code_simp
  then show "\<forall>s \<in> set (stringTable sample_profile). ascii_dec (ascii_enc s) = s \<and> toLowerCase s = s"
    by (simp add: ascii_dec_enc list_all_iff)
  show "toLowerCase ''0af7651916cd43dd'' = ''0af7651916cd43dd''" by code_simp
  have "sample_profile\<lparr>samples := filter (\<lambda>s. sampleHasTraceId sample_profile s (Some ''0af7651916cd43dd''))
      (samples sample_profile)\<rparr> = sample_profile" by code_simp
  then show "length (encodePprof ascii_enc (sample_profile\<lparr>samples :=
      filter (\<lambda>s. sampleHasTraceId sample_profile s (Some ''0af7651916cd43dd'')) (samples sample_profile)\<rparr>)) < 2 ^ 53"
    using sample_profile_small by simp
qed simp_all

definition upper_case_profile :: pprof_profile where
  "upper_case_profile = sample_profile\<lparr>stringTable := ['''', ''cpu'', ''ns'', ''trace_id'', ''0AF7651916CD43DD'']\<rparr>"

text \<open>The two filters disagree on letter case: for a profile whose trace label is in upper case, the
  collector's index lists the trace and the collector's filter keeps its sample, while the dashboard's
  filter, given the id of the index, draws nothing.
\<close>

theorem flame_filter_case_mismatch:
  "extractTraceIdsFromProfile upper_case_profile = [''0af7651916cd43dd''] \<and>
   filter (\<lambda>s. sampleHasTraceId upper_case_profile s (Some ''0af7651916cd43dd'')) (samples upper_case_profile)
     = samples upper_case_profile \<and>
   aggregateFlameTree upper_case_profile (Some ''0af7651916cd43dd'') 0 = (flame_root, 0) \<and>
   snd (aggregateFlameTree upper_case_profile None 0) = 1000"
proof (intro conjI)
  show "extractTraceIdsFromProfile upper_case_profile = [''0af7651916cd43dd'']" by code_simp
  show "filter (\<lambda>s. sampleHasTraceId upper_case_profile s (Some ''0af7651916cd43dd'')) (samples upper_case_profile)
     = samples upper_case_profile" by code_simp
  show "aggregateFlameTree upper_case_profile (Some ''0af7651916cd43dd'') 0 = (flame_root, 0)" by code_simp
  show "snd (aggregateFlameTree upper_case_profile None 0) = 1000"
    by (simp add: aggregateFlameTree_def upper_case_profile_def sample_profile_def flame_step_eq
        sample_selected_def sample_value_def at_index_def js_add_exact)
qed

end
