(* ===== verification/Span_Tree.thy ===== *)
theory Span_Tree
  imports Prelude
begin

text \<open>
  The trace waterfall, \<^verbatim>\<open>packages/dashboard/src/dashboards/telemetry/span-tree.ts\<close>, and the instrumentation-gap
  gate it uses from \<^verbatim>\<open>packages/obs-types/src/constants.ts\<close>.  \<open>buildSpanTree\<close> groups the spans of a trace by
  parent and walks the groups recursively.  The recursion of the source ends only if the parent
  pointers below the roots are acyclic, so \<open>walk_spans\<close> carries the depth of the JavaScript call stack as
  fuel: \<open>None\<close> is the \<^verbatim>\<open>RangeError\<close> of an exhausted stack.  Durations are exact rationals; the fields
  of a span that the walk never reads are left out.  \<^verbatim>\<open>localeCompare\<close> orders by a collation key,
  which is a parameter.

  Shown: when the span ids are distinct, one frame of stack per span suffices and the result lists
  every span exactly once, children right below their parents; self times and ratios stay in range;
  duplicate span ids can make the walk run forever.
\<close>

section \<open>Definitions\<close>

record span_detail =
  spanId :: string
  parentSpanId :: "string option"
  spanName :: string
  spanKind :: int
  startTime :: string
  durationMs :: rat

record span_tree_node =
  node_span :: span_detail
  depth :: nat
  selfMs :: rat
  selfRatio :: rat
  asyncParent :: bool
  childCount :: nat

type_synonym span_children = "(string option, span_detail list) js_map"

text \<open>The first loop: \<^verbatim>\<open>if (!children.has(k)) children.set(k, []); children.get(k)?.push(s)\<close>.\<close>

definition add_child :: "span_children \<Rightarrow> span_detail \<Rightarrow> span_children" where
  "add_child m s =
     (let parentKey = parentSpanId s;
          m' = (if map_get m parentKey = None then map_set m parentKey [] else m)
      in case map_get m' parentKey of None \<Rightarrow> m' | Some kids \<Rightarrow> map_set m' parentKey (kids @ [s]))"

definition children_of :: "span_detail list \<Rightarrow> span_children" where
  "children_of spans = foldl add_child [] spans"

definition kids_of :: "span_children \<Rightarrow> string option \<Rightarrow> span_detail list" where
  "kids_of m parentId = (case map_get m parentId of None \<Rightarrow> [] | Some kids \<Rightarrow> kids)"

definition tree_node :: "span_children \<Rightarrow> nat \<Rightarrow> span_detail \<Rightarrow> span_tree_node" where
  "tree_node m d s =
     (let myKids = kids_of m (Some (spanId s));
          childWall = foldl (\<lambda>acc c. acc + durationMs c) 0 myKids;
          rawSelf = durationMs s - childWall;
          self = max 0 rawSelf
      in \<lparr>node_span = s, depth = d, selfMs = self,
          selfRatio = (if durationMs s > 0 then min 1 (self / durationMs s) else 0),
          asyncParent = (rawSelf < 0), childCount = length myKids\<rparr>)"

fun walk_spans ::
  "(string \<Rightarrow> 'k::linorder) \<Rightarrow> span_children \<Rightarrow> nat \<Rightarrow> string option \<Rightarrow> nat \<Rightarrow> span_tree_node list option"
and walk_kids ::
  "(string \<Rightarrow> 'k::linorder) \<Rightarrow> span_children \<Rightarrow> nat \<Rightarrow> span_detail list \<Rightarrow> nat \<Rightarrow> span_tree_node list option" where
  "walk_spans collate m 0 parentId d = None"
| "walk_spans collate m (Suc stack) parentId d =
     walk_kids collate m stack (sort_key (\<lambda>s. collate (startTime s)) (kids_of m parentId)) d"
| "walk_kids collate m stack [] d = Some []"
| "walk_kids collate m stack (s # kids) d =
     (case walk_spans collate m stack (Some (spanId s)) (d + 1) of None \<Rightarrow> None
      | Some below \<Rightarrow> (case walk_kids collate m stack kids d of None \<Rightarrow> None
          | Some after \<Rightarrow> Some (tree_node m d s # below @ after)))"

definition orphan_node :: "span_detail \<Rightarrow> span_tree_node" where
  "orphan_node s = \<lparr>node_span = s, depth = 0, selfMs = durationMs s, selfRatio = 1, asyncParent = False,
     childCount = 0\<rparr>"

definition buildSpanTree ::
  "(string \<Rightarrow> 'k::linorder) \<Rightarrow> nat \<Rightarrow> span_detail list \<Rightarrow> span_tree_node list option" where
  "buildSpanTree collate stack spans =
     (case walk_spans collate (children_of spans) stack None 0 of None \<Rightarrow> None
      | Some result \<Rightarrow>
          if length result < length spans
          then Some (result @ map orphan_node
                 (filter (\<lambda>s. spanId s \<notin> set (map (\<lambda>n. spanId (node_span n)) result)) spans))
          else Some result)"

record gap_thresholds =
  minDurationMs :: rat
  minSelfRatio :: rat
  maxChildSpanCount :: nat
  excludedSpanKinds :: "int list"

definition DEFAULT_INSTRUMENTATION_GAP_THRESHOLDS :: gap_thresholds where
  "DEFAULT_INSTRUMENTATION_GAP_THRESHOLDS =
     \<lparr>minDurationMs = 100, minSelfRatio = 7 / 10, maxChildSpanCount = 1, excludedSpanKinds = [3, 4, 5]\<rparr>"

definition isInstrumentationGapCandidate ::
  "rat \<Rightarrow> rat \<Rightarrow> nat \<Rightarrow> bool \<Rightarrow> int option \<Rightarrow> gap_thresholds \<Rightarrow> bool" where
  "isInstrumentationGapCandidate dur ratio childSpanCount async kind th \<longleftrightarrow>
     \<not> async \<and> dur > minDurationMs th \<and> ratio > minSelfRatio th \<and>
     childSpanCount \<le> maxChildSpanCount th \<and>
     (case kind of None \<Rightarrow> True | Some k \<Rightarrow> k \<notin> set (excludedSpanKinds th))"

definition isLikelyUninstrumented :: "span_tree_node \<Rightarrow> bool" where
  "isLikelyUninstrumented n =
     isInstrumentationGapCandidate (durationMs (node_span n)) (selfRatio n) (childCount n) (asyncParent n)
       (Some (spanKind (node_span n))) DEFAULT_INSTRUMENTATION_GAP_THRESHOLDS"

section \<open>The children map\<close>

lemma add_child_group: "add_child = group_step parentSpanId (\<lambda>_. []) (\<lambda>s kids. kids @ [s])"
proof (intro ext)
  fix m s
  have "map_set (map_set m k []) k v = map_set m k v" for k :: "string option" and v :: "span_detail list"
    by (induction m) auto
  then show "add_child m s = group_step parentSpanId (\<lambda>_. []) (\<lambda>s kids. kids @ [s]) m s"
    by (auto simp: add_child_def group_step_def Let_def map_get_set split: option.split)
qed

lemma kids_of_children: "kids_of (children_of spans) k = filter (\<lambda>s. parentSpanId s = k) spans"
proof -
  have "foldl (\<lambda>v x. v @ [x]) acc xs = acc @ xs" for acc xs :: "span_detail list"
    by (induction xs arbitrary: acc) simp_all
  moreover have "k \<notin> parentSpanId ` set spans \<Longrightarrow> filter (\<lambda>s. parentSpanId s = k) spans = []"
    by (auto simp: filter_empty_conv)
  ultimately show ?thesis
    by (auto simp: kids_of_def children_of_def add_child_group foldl_group_step group_by_def map_get_tabulate
        group_value_def Let_def)
qed

section \<open>Levels of a forest\<close>

text \<open>
  \<open>at_depth spans s d\<close>: following the parent pointers from \<open>s\<close> reaches a root after \<open>d\<close> steps.
  \<open>under spans k s\<close>: \<open>s\<close> is a descendant of the spans whose parent is \<open>k\<close>.
\<close>

inductive at_depth :: "span_detail list \<Rightarrow> span_detail \<Rightarrow> nat \<Rightarrow> bool" for spans where
  top: "s \<in> set spans \<Longrightarrow> parentSpanId s = None \<Longrightarrow> at_depth spans s 0"
| below: "at_depth spans q d \<Longrightarrow> s \<in> set spans \<Longrightarrow> parentSpanId s = Some (spanId q) \<Longrightarrow> at_depth spans s (Suc d)"

inductive under :: "span_detail list \<Rightarrow> string option \<Rightarrow> span_detail \<Rightarrow> bool" for spans k where
  child: "s \<in> set spans \<Longrightarrow> parentSpanId s = k \<Longrightarrow> under spans k s"
| descend: "under spans k q \<Longrightarrow> s \<in> set spans \<Longrightarrow> parentSpanId s = Some (spanId q) \<Longrightarrow> under spans k s"

inductive_cases at_depth_zeroE: "at_depth spans s 0"
inductive_cases at_depth_SucE: "at_depth spans s (Suc d)"

definition distinct_ids :: "span_detail list \<Rightarrow> bool" where
  "distinct_ids spans \<longleftrightarrow> distinct (map spanId spans)"

definition at_level :: "span_detail list \<Rightarrow> string option \<Rightarrow> nat \<Rightarrow> bool" where
  "at_level spans k d \<longleftrightarrow>
     (case d of 0 \<Rightarrow> k = None | Suc e \<Rightarrow> (\<exists>q. at_depth spans q e \<and> k = Some (spanId q)))"

lemma at_depth_in: "at_depth spans s d \<Longrightarrow> s \<in> set spans"
  by (induction rule: at_depth.induct) auto

lemma same_id: "distinct_ids spans \<Longrightarrow> s \<in> set spans \<Longrightarrow> q \<in> set spans \<Longrightarrow> spanId s = spanId q \<Longrightarrow> s = q"
  by (auto simp: distinct_ids_def distinct_map inj_on_def)

lemma at_depth_unique:
  "at_depth spans s d \<Longrightarrow> distinct_ids spans \<Longrightarrow> at_depth spans s d' \<Longrightarrow> d = d'"
proof (induction arbitrary: d' rule: at_depth.induct)
  case (top s)
  then show ?case by (auto elim: at_depth.cases)
next
  case (below q d s)
  from below.prems(2) below.hyps(3) obtain q' e where "d' = Suc e" "at_depth spans q' e" "spanId q' = spanId q"
    by (auto elim: at_depth.cases)
  then show ?case using below.IH below.prems(1) below.hyps(1) same_id at_depth_in by blast
qed

lemma at_depth_ancestors: "at_depth spans s d \<Longrightarrow> e \<le> d \<Longrightarrow> \<exists>q. at_depth spans q e"
  by (induction rule: at_depth.induct) (auto intro: at_depth.intros simp: le_Suc_eq)

lemma at_depth_bound:
  assumes "at_depth spans s d" and "distinct_ids spans"
  shows "d < length spans"
proof -
  define f where "f e = (SOME q. at_depth spans q e)" for e
  have f: "at_depth spans (f e) e" if "e \<le> d" for e
    unfolding f_def using at_depth_ancestors [OF assms(1) that] by (rule someI_ex)
  have "inj_on f {..d}"
    using f at_depth_unique [OF _ assms(2)] by (metis atMost_iff inj_onI)
  moreover have "f ` {..d} \<subseteq> set spans" using f at_depth_in by auto
  ultimately have "card {..d} \<le> card (set spans)" by (metis card_image card_mono finite_set)
  then show ?thesis using card_length [of spans] by simp
qed

lemma at_level_child: "at_level spans k d \<Longrightarrow> s \<in> set spans \<Longrightarrow> parentSpanId s = k \<Longrightarrow> at_depth spans s d"
  by (auto simp: at_level_def intro: at_depth.intros split: nat.splits)

lemma at_level_Suc: "at_depth spans s d \<Longrightarrow> at_level spans (Some (spanId s)) (Suc d)"
  by (auto simp: at_level_def)

lemma under_in: "under spans k s \<Longrightarrow> s \<in> set spans"
  by (induction rule: under.induct) auto

lemma under_depth: "under spans k s \<Longrightarrow> at_level spans k d \<Longrightarrow> \<exists>e \<ge> d. at_depth spans s e"
  by (induction rule: under.induct) (blast intro: at_level_child at_depth.below le_SucI)+

lemma under_level_unique:
  assumes "under spans (Some (spanId a)) s" and "under spans (Some (spanId b)) s"
    and "at_depth spans a d" and "at_depth spans b d" and ids: "distinct_ids spans"
  shows "a = b"
  using assms(1,2)
proof (induction rule: under.induct)
  have not_above: False if "under spans (Some (spanId x)) y" "at_depth spans x d" "at_depth spans y d" for x y
    using under_depth [OF that(1) at_level_Suc [OF that(2)]] at_depth_unique [OF _ ids that(3)]
    by (metis not_less_eq_eq order_refl)
  have sib: "a = b" if "parentSpanId s = Some (spanId a)" "under spans (Some (spanId b)) s"
      "at_depth spans a d" "at_depth spans b d" for a b s
    using that(2)
  proof (cases rule: under.cases)
    case child
    then show ?thesis using that same_id [OF ids] at_depth_in by auto
  next
    case (descend q)
    then have "q = a" using that same_id [OF ids] at_depth_in under_in by (metis option.inject)
    then show ?thesis using not_above descend(1) that by blast
  qed
  case (child s)
  then show ?case using sib assms(3,4) by blast
next
  case (descend q s)
  from descend.prems show ?case
  proof (cases rule: under.cases)
    case child
    then have "q = b" using descend.hyps same_id [OF ids] at_depth_in [OF assms(4)] under_in
      by (metis option.inject)
    with descend.hyps(1) have "under spans (Some (spanId a)) b" by simp
    then show ?thesis
      using under_depth [OF _ at_level_Suc [OF assms(3)]] at_depth_unique [OF _ ids assms(4)]
      by (metis not_less_eq_eq order_refl)
  next
    case (descend q')
    then have "q' = q" using \<open>under spans (Some (spanId a)) q\<close> \<open>parentSpanId s = Some (spanId q)\<close>
        same_id [OF ids] under_in by (metis option.inject)
    then show ?thesis using \<open>under spans (Some (spanId b)) q \<Longrightarrow> a = b\<close> descend by blast
  qed
qed

section \<open>The walk returns and visits every descendant once\<close>

lemma walk_kids_Some:
  "(\<And>s. s \<in> set kids \<Longrightarrow> walk_spans collate m stack (Some (spanId s)) (d + 1) \<noteq> None) \<Longrightarrow>
   walk_kids collate m stack kids d \<noteq> None"
  by (induction kids) (auto split: option.splits)

lemma walk_returns:
  assumes "distinct_ids spans" and "at_level spans k d" and "length spans < stack + d"
  shows "walk_spans collate (children_of spans) stack k d \<noteq> None"
  using assms(2,3)
proof (induction stack arbitrary: k d)
  case 0
  then obtain e q where "d = Suc e" "at_depth spans q e"
    by (auto simp: at_level_def split: nat.splits)
  then show ?case using 0 at_depth_bound [OF _ assms(1)] by fastforce
next
  case (Suc stack)
  have "at_level spans (Some (spanId s)) (Suc d)" if "s \<in> set spans" "parentSpanId s = k" for s
    using that Suc.prems(1) by (intro at_level_Suc at_level_child)
  then have "walk_kids collate (children_of spans) stack
      (sort_key (\<lambda>s. collate (startTime s)) (kids_of (children_of spans) k)) d \<noteq> None"
    using Suc.IH Suc.prems(2) by (intro walk_kids_Some) (simp add: kids_of_children del: not_None_eq)
  then show ?case by (simp only: walk_spans.simps not_False_eq_True)
qed

definition lists_once :: "span_detail set \<Rightarrow> span_tree_node list \<Rightarrow> bool" where
  "lists_once S r \<longleftrightarrow> distinct (map node_span r) \<and> set (map node_span r) = S"

lemma lists_once_Cons:
  assumes "lists_once A xs" and "lists_once B ys" and "A \<inter> B = {}" and "node_span n \<notin> A \<union> B"
  shows "lists_once (insert (node_span n) (A \<union> B)) (n # xs @ ys)"
  using assms by (auto simp: lists_once_def)

lemma under_unfold:
  "{s. under spans k s} = {s \<in> set spans. parentSpanId s = k} \<union>
     (\<Union>c \<in> {s \<in> set spans. parentSpanId s = k}. {s. under spans (Some (spanId c)) s})"
proof -
  have "\<exists>c \<in> {s \<in> set spans. parentSpanId s = k}. s = c \<or> under spans (Some (spanId c)) s"
    if "under spans k s" for s
    using that by (induction rule: under.induct) (auto intro: under.intros)
  moreover have "under spans k s"
    if "under spans (Some (spanId c)) s" "c \<in> set spans" "parentSpanId c = k" for c s
    using that by (induction rule: under.induct) (auto intro: under.intros)
  ultimately show ?thesis by (auto intro: under.child)
qed

abbreviation subtree :: "span_detail list \<Rightarrow> span_detail \<Rightarrow> span_detail set" where
  "subtree spans s \<equiv> {q. under spans (Some (spanId s)) q}"

lemma siblings_disjoint:
  assumes "distinct_ids spans" and "at_depth spans a d" and "at_depth spans b d" and "a \<noteq> b"
  shows "subtree spans a \<inter> subtree spans b = {}"
  using under_level_unique assms by blast

lemma not_in_subtree:
  assumes "distinct_ids spans" and "at_depth spans a d" and "at_depth spans b d"
  shows "b \<notin> subtree spans a"
  using under_depth [OF _ at_level_Suc [OF assms(2)]] at_depth_unique [OF assms(3,1)]
  by (metis mem_Collect_eq not_less_eq_eq order_refl)

lemma walk_content:
  fixes collate :: "string \<Rightarrow> 'k::linorder"
  assumes ids: "distinct_ids spans"
  shows "walk_spans collate m stack k d = Some r \<Longrightarrow> m = children_of spans \<Longrightarrow> at_level spans k d \<Longrightarrow>
      lists_once {s. under spans k s} r"
    and "walk_kids collate m stack kids d = Some r \<Longrightarrow> m = children_of spans \<Longrightarrow>
      list_all (\<lambda>s. at_depth spans s d) kids \<Longrightarrow> distinct kids \<Longrightarrow>
      lists_once (set kids \<union> (\<Union>c \<in> set kids. subtree spans c)) r"
proof (induction collate m stack k d and collate m stack kids d arbitrary: r and r
    rule: walk_spans_walk_kids.induct)
  case (2 collate m stack k d)
  let ?kids = "sort_key (\<lambda>s. collate (startTime s)) (kids_of m k)"
  have "distinct spans" using ids by (simp add: distinct_ids_def distinct_map)
  moreover have "list_all (\<lambda>s. at_depth spans s d) ?kids"
    using "2.prems" at_level_child by (fastforce simp: kids_of_children list_all_iff)
  ultimately have "lists_once (set ?kids \<union> (\<Union>c \<in> set ?kids. subtree spans c)) r"
    using 2 by (simp add: kids_of_children)
  then show ?case
    unfolding under_unfold [of spans k] using "2.prems" by (simp add: kids_of_children)
next
  case (4 collate m stack s kids d)
  from "4.prems"(1) obtain xs ys where xs: "walk_spans collate m stack (Some (spanId s)) (d + 1) = Some xs"
    and ys: "walk_kids collate m stack kids d = Some ys" and r: "r = tree_node m d s # xs @ ys"
    by (auto split: option.splits)
  have s: "at_depth spans s d" and kids: "list_all (\<lambda>s. at_depth spans s d) kids" "distinct kids" "s \<notin> set kids"
    using "4.prems" by simp_all
  have "lists_once (subtree spans s) xs"
    using "4.IH"(1) [OF xs] "4.prems" at_level_Suc [OF s] by simp
  moreover have "lists_once (set kids \<union> (\<Union>c \<in> set kids. subtree spans c)) ys"
    using "4.IH"(2) [OF _ ys] xs "4.prems" by simp
  moreover have "subtree spans s \<inter> (set kids \<union> (\<Union>c \<in> set kids. subtree spans c)) = {}"
    using siblings_disjoint [OF ids s] not_in_subtree [OF ids s] kids by (fastforce simp: list_all_iff)
  moreover have "node_span (tree_node m d s) \<notin> subtree spans s \<union> (set kids \<union> (\<Union>c \<in> set kids. subtree spans c))"
    using not_in_subtree [OF ids _ s] s kids by (auto simp: tree_node_def Let_def list_all_iff)
  ultimately have "lists_once (insert (node_span (tree_node m d s))
      (subtree spans s \<union> (set kids \<union> (\<Union>c \<in> set kids. subtree spans c)))) r"
    unfolding r by (rule lists_once_Cons)
  then show ?case by (simp add: tree_node_def Let_def Un_ac)
qed (auto simp: lists_once_def)

text \<open>The last loop of the source appends exactly the spans the walk has not listed.\<close>

definition with_orphans :: "span_detail list \<Rightarrow> span_tree_node list \<Rightarrow> span_tree_node list" where
  "with_orphans spans r = (if length r < length spans then r @ map orphan_node
     (filter (\<lambda>s. spanId s \<notin> set (map (\<lambda>n. spanId (node_span n)) r)) spans) else r)"

lemma buildSpanTree_orphans:
  "buildSpanTree collate stack spans =
     map_option (with_orphans spans) (walk_spans collate (children_of spans) stack None 0)"
  by (simp add: buildSpanTree_def with_orphans_def split: option.split)

lemma with_orphans_complete:
  assumes ids: "distinct_ids spans" and once: "distinct (map node_span r)" and sub: "node_span ` set r \<subseteq> set spans"
  shows "mset (map node_span (with_orphans spans r)) = mset spans"
proof -
  have ds: "distinct spans" using ids by (simp add: distinct_ids_def distinct_map)
  have "distinct (map node_span (with_orphans spans r)) \<and> set (map node_span (with_orphans spans r)) = set spans"
  proof (cases "length r < length spans")
    case True
    have o: "map node_span (map orphan_node xs) = xs" for xs
      by (induction xs) (simp_all add: orphan_node_def)
    have "spanId s \<in> set (map (\<lambda>n. spanId (node_span n)) r) \<longleftrightarrow> s \<in> node_span ` set r" if "s \<in> set spans" for s
      using that sub same_id [OF ids] by (auto simp: image_iff)
    then have "filter (\<lambda>s. spanId s \<notin> set (map (\<lambda>n. spanId (node_span n)) r)) spans
        = filter (\<lambda>s. s \<notin> node_span ` set r) spans"
      by (intro filter_cong) auto
    then have "map node_span (with_orphans spans r) = map node_span r @ filter (\<lambda>s. s \<notin> node_span ` set r) spans"
      using True o by (simp only: with_orphans_def map_append if_True)
    then show ?thesis using once ds sub by auto
  next
    case False
    then have "card (node_span ` set r) = card (set spans)"
      using once(1) ds sub
      by (metis card_mono distinct_card finite_set length_map linorder_not_less list.set_map le_antisym)
    then have "node_span ` set r = set spans" using sub by (simp add: card_subset_eq)
    then show ?thesis using False once(1) by (simp add: with_orphans_def)
  qed
  then show ?thesis using ds by (metis set_eq_iff_mset_eq_distinct)
qed

text \<open>
  C23: When the span ids of a trace are distinct, \<^verbatim>\<open>buildSpanTree\<close> returns as soon as the call stack allows
  one frame more than there are spans, whatever the parent pointers (missing parents and cycles
  included), and its result lists every span of the trace exactly once.
\<close>

theorem span_tree_complete:
  assumes "distinct (map spanId spans)" and "length spans < stack"
  shows "\<exists>r. buildSpanTree collate stack spans = Some r \<and> mset (map node_span r) = mset spans"
proof -
  have ids: "distinct_ids spans" using assms(1) by (simp add: distinct_ids_def)
  have top: "at_level spans None 0" by (simp add: at_level_def)
  obtain r where r: "walk_spans collate (children_of spans) stack None 0 = Some r"
    using walk_returns [OF ids top] assms(2) by fastforce
  have "distinct (map node_span r)" "node_span ` set r \<subseteq> set spans"
    using walk_content(1) [OF ids r refl top] under_in by (auto simp: lists_once_def)
  then show ?thesis using r with_orphans_complete [OF ids] by (simp add: buildSpanTree_orphans)
qed

definition example_trace :: "span_detail list" where
  "example_trace =
     [\<lparr>spanId = ''b'', parentSpanId = Some ''a'', spanName = ''db'', spanKind = 3, startTime = ''2'', durationMs = 40\<rparr>,
      \<lparr>spanId = ''a'', parentSpanId = None, spanName = ''GET /'', spanKind = 2, startTime = ''1'', durationMs = 200\<rparr>,
      \<lparr>spanId = ''x'', parentSpanId = Some ''x'', spanName = ''loop'', spanKind = 1, startTime = ''3'', durationMs = 5\<rparr>]"

theorem span_tree_complete_witness:
  "\<exists>r. buildSpanTree length 4 example_trace = Some r \<and> mset (map node_span r) = mset example_trace"
  by (rule span_tree_complete) (simp_all add: example_trace_def)

text \<open>Span ids that are not distinct can make \<^verbatim>\<open>buildSpanTree\<close> recurse without end: with a root span and a
  second span that reuses its id and names it as its parent, no call stack is deep enough.
\<close>

theorem span_tree_duplicate_ids_diverge:
  "buildSpanTree collate stack
     [\<lparr>spanId = x, parentSpanId = None, spanName = n1, spanKind = k1, startTime = t1, durationMs = d1\<rparr>,
      \<lparr>spanId = x, parentSpanId = Some x, spanName = n2, spanKind = k2, startTime = t2, durationMs = d2\<rparr>] = None"
proof -
  let ?a = "\<lparr>spanId = x, parentSpanId = None, spanName = n1, spanKind = k1, startTime = t1, durationMs = d1\<rparr>"
  let ?b = "\<lparr>spanId = x, parentSpanId = Some x, spanName = n2, spanKind = k2, startTime = t2, durationMs = d2\<rparr>"
  have k: "kids_of (children_of [?a, ?b]) None = [?a]" "kids_of (children_of [?a, ?b]) (Some x) = [?b]"
    by (simp_all add: kids_of_children)
  have below: "walk_spans collate (children_of [?a, ?b]) stack (Some x) d = None" for stack d
    by (induction stack arbitrary: d) (simp_all add: k)
  then show ?thesis
    by (cases stack) (simp_all add: buildSpanTree_def k)
qed

section \<open>Indentation\<close>

text \<open>
  What the waterfall relies on when it indents a flat list by depth: the parent of a nested row is the
  nearest row above it that is less deep.
\<close>

definition indented :: "string option \<Rightarrow> nat \<Rightarrow> span_tree_node list \<Rightarrow> bool" where
  "indented k d r \<longleftrightarrow> (\<forall>i < length r. d \<le> depth (r ! i) \<and>
     (depth (r ! i) = d \<longrightarrow> parentSpanId (node_span (r ! i)) = k) \<and>
     (d < depth (r ! i) \<longrightarrow> (\<exists>j < i. parentSpanId (node_span (r ! i)) = Some (spanId (node_span (r ! j))) \<and>
        depth (r ! i) = Suc (depth (r ! j)) \<and> (\<forall>l. j < l \<and> l < i \<longrightarrow> depth (r ! j) < depth (r ! l)))))"

lemma indented_append:
  assumes "indented k d xs" and "indented k d ys"
  shows "indented k d (xs @ ys)"
  unfolding indented_def
proof (intro allI impI)
  fix i assume i: "i < length (xs @ ys)"
  let ?r = "xs @ ys"
  show "d \<le> depth (?r ! i) \<and> (depth (?r ! i) = d \<longrightarrow> parentSpanId (node_span (?r ! i)) = k) \<and>
     (d < depth (?r ! i) \<longrightarrow> (\<exists>j < i. parentSpanId (node_span (?r ! i)) = Some (spanId (node_span (?r ! j))) \<and>
        depth (?r ! i) = Suc (depth (?r ! j)) \<and> (\<forall>l. j < l \<and> l < i \<longrightarrow> depth (?r ! j) < depth (?r ! l))))"
  proof (cases "i < length xs")
    case True
    then have nth: "?r ! l = xs ! l" if "l \<le> i" for l using that by (simp add: nth_append)
    have "\<forall>j < i. (?r ! j = xs ! j \<and> (\<forall>l. j < l \<and> l < i \<longrightarrow> ?r ! l = xs ! l))" using nth by simp
    moreover have "?r ! i = xs ! i" using nth by simp
    ultimately show ?thesis using assms(1) True unfolding indented_def by (metis (no_types, lifting))
  next
    case False
    define i' where "i' = i - length xs"
    have i': "i' < length ys" "?r ! i = ys ! i'" using i False by (simp_all add: i'_def nth_append)
    show ?thesis
    proof (intro conjI impI)
      assume "d < depth (?r ! i)"
      then obtain j where j: "j < i'" "parentSpanId (node_span (ys ! i')) = Some (spanId (node_span (ys ! j)))"
          "depth (ys ! i') = Suc (depth (ys ! j))" "\<forall>l. j < l \<and> l < i' \<longrightarrow> depth (ys ! j) < depth (ys ! l)"
        using assms(2) i' unfolding indented_def by metis
      have "depth (?r ! (length xs + j)) < depth (?r ! l)" if "length xs + j < l" "l < i" for l
      proof -
        have "j < l - length xs" "l - length xs < i'" using that False by (auto simp: i'_def)
        then show ?thesis using j(4) that by (simp add: nth_append)
      qed
      then show "\<exists>j < i. parentSpanId (node_span (?r ! i)) = Some (spanId (node_span (?r ! j))) \<and>
          depth (?r ! i) = Suc (depth (?r ! j)) \<and> (\<forall>l. j < l \<and> l < i \<longrightarrow> depth (?r ! j) < depth (?r ! l))"
        using j(1-3) i' False by (intro exI [of _ "length xs + j"]) (auto simp: i'_def nth_append)
    qed (use assms(2) i' in \<open>auto simp: indented_def\<close>)
  qed
qed

lemma indented_Cons:
  assumes "indented (Some (spanId (node_span n))) (Suc d) xs" and "depth n = d" and "parentSpanId (node_span n) = k"
  shows "indented k d (n # xs)"
  unfolding indented_def
proof (intro allI impI)
  fix i assume i: "i < length (n # xs)"
  let ?r = "n # xs"
  show "d \<le> depth (?r ! i) \<and> (depth (?r ! i) = d \<longrightarrow> parentSpanId (node_span (?r ! i)) = k) \<and>
     (d < depth (?r ! i) \<longrightarrow> (\<exists>j < i. parentSpanId (node_span (?r ! i)) = Some (spanId (node_span (?r ! j))) \<and>
        depth (?r ! i) = Suc (depth (?r ! j)) \<and> (\<forall>l. j < l \<and> l < i \<longrightarrow> depth (?r ! j) < depth (?r ! l))))"
  proof (cases i)
    case 0
    then show ?thesis using assms by simp
  next
    case (Suc i')
    then have i': "i' < length xs" using i by simp
    then have ge: "Suc d \<le> depth (xs ! i')"
      and eq: "depth (xs ! i') = Suc d \<longrightarrow> parentSpanId (node_span (xs ! i')) = Some (spanId (node_span n))"
      and deep: "Suc d < depth (xs ! i') \<longrightarrow> (\<exists>j < i'. parentSpanId (node_span (xs ! i')) = Some (spanId (node_span (xs ! j))) \<and>
        depth (xs ! i') = Suc (depth (xs ! j)) \<and> (\<forall>l. j < l \<and> l < i' \<longrightarrow> depth (xs ! j) < depth (xs ! l)))"
      using assms(1) by (auto simp: indented_def)
    have all: "\<forall>l < length xs. Suc d \<le> depth (xs ! l)" using assms(1) by (auto simp: indented_def)
    show ?thesis
    proof (cases "depth (xs ! i') = Suc d")
      case True
      then show ?thesis using Suc assms eq all i'
        by (auto intro!: exI [of _ 0] simp: nth_Cons' less_eq_Suc_le)
    next
      case False
      then obtain j where j: "j < i'" "parentSpanId (node_span (xs ! i')) = Some (spanId (node_span (xs ! j)))"
          "depth (xs ! i') = Suc (depth (xs ! j))" "\<forall>l. j < l \<and> l < i' \<longrightarrow> depth (xs ! j) < depth (xs ! l)"
        using deep ge by auto
      have "depth (xs ! j) < depth ((n # xs) ! l)" if "Suc j < l" "l < Suc i'" for l
        using j(4) that by (cases l) auto
      then show ?thesis using Suc ge False j(1-3) by (auto intro!: exI [of _ "Suc j"])
    qed
  qed
qed

lemma walk_indented:
  fixes collate :: "string \<Rightarrow> 'k::linorder"
  shows "walk_spans collate m stack k d = Some r \<Longrightarrow> m = children_of spans \<Longrightarrow> indented k d r"
    and "walk_kids collate m stack kids d = Some r \<Longrightarrow> m = children_of spans \<Longrightarrow>
      list_all (\<lambda>s. parentSpanId s = k') kids \<Longrightarrow> indented k' d r"
proof (induction collate m stack k d and collate m stack kids d arbitrary: r and r k'
    rule: walk_spans_walk_kids.induct)
  case (2 collate m stack k d)
  then show ?case by (simp add: kids_of_children list_all_iff)
next
  case (4 collate m stack s kids d)
  from "4.prems"(1) obtain xs ys where xs: "walk_spans collate m stack (Some (spanId s)) (d + 1) = Some xs"
    and ys: "walk_kids collate m stack kids d = Some ys" and r: "r = (tree_node m d s # xs) @ ys"
    by (auto split: option.splits)
  have "indented k' d (tree_node m d s # xs)"
    using "4.IH"(1) [OF xs] "4.prems" by (intro indented_Cons) (simp_all add: tree_node_def Let_def)
  moreover have "indented k' d ys" using "4.IH"(2) [OF _ ys] xs "4.prems" by simp
  ultimately show ?case unfolding r by (rule indented_append)
qed (auto simp: indented_def)

lemma nth_with_orphans: "i < length (with_orphans spans r) \<Longrightarrow> 0 < depth (with_orphans spans r ! i) \<Longrightarrow> i < length r"
  by (auto simp: with_orphans_def nth_append orphan_node_def split: if_splits)

lemma nth_with_orphans_walked: "i < length r \<Longrightarrow> with_orphans spans r ! i = r ! i"
  by (simp add: with_orphans_def nth_append)

text \<open>In the result of \<^verbatim>\<open>buildSpanTree\<close> every row of depth greater than zero has its parent as the nearest
  less deep row above it, one level up, so that indenting the flat list by depth draws the span tree.
\<close>

theorem span_tree_indentation:
  assumes "buildSpanTree collate stack spans = Some r" and "i < length r" and "0 < depth (r ! i)"
  shows "\<exists>j < i. parentSpanId (node_span (r ! i)) = Some (spanId (node_span (r ! j))) \<and>
    depth (r ! i) = Suc (depth (r ! j)) \<and> (\<forall>l. j < l \<and> l < i \<longrightarrow> depth (r ! j) < depth (r ! l))"
proof -
  from assms(1) obtain w where w: "walk_spans collate (children_of spans) stack None 0 = Some w"
    and r: "r = with_orphans spans w" by (auto simp: buildSpanTree_orphans)
  have i: "i < length w" using assms(2,3) nth_with_orphans r by blast
  then have nth: "r ! l = w ! l" if "l \<le> i" for l using that by (simp add: r nth_with_orphans_walked)
  from walk_indented(1) [OF w refl] i assms(3) nth [of i]
  obtain j where "j < i" "parentSpanId (node_span (w ! i)) = Some (spanId (node_span (w ! j)))"
      "depth (w ! i) = Suc (depth (w ! j))" "\<forall>l. j < l \<and> l < i \<longrightarrow> depth (w ! j) < depth (w ! l)"
    by (auto simp: indented_def)
  then show ?thesis using nth by (intro exI [of _ j]) auto
qed

lemma example_tree:
  "map_option (map (\<lambda>n. (spanId (node_span n), depth n))) (buildSpanTree length 4 example_trace)
     = Some [(''a'', 0), (''b'', 1), (''x'', 0)]"
  by code_simp

theorem span_tree_indentation_witness:
  "\<exists>r. buildSpanTree length 4 example_trace = Some r \<and>
     (\<exists>j < 1. Some ''a'' = Some (spanId (node_span (r ! j))) \<and> 1 = Suc (depth (r ! j)))"
proof -
  from example_tree obtain r where r: "buildSpanTree length 4 example_trace = Some r"
    and m: "map (\<lambda>n. (spanId (node_span n), depth n)) r = [(''a'', 0), (''b'', 1), (''x'', 0)]" by auto
  then have len: "1 < length r" and d: "depth (r ! 1) = 1" and n: "spanId (node_span (r ! 0)) = ''a''"
      "depth (r ! 0) = 0"
    by (auto simp: map_eq_Cons_conv)
  from span_tree_indentation [OF r len] d n show ?thesis using r by auto
qed

section \<open>Self time\<close>

lemma walk_nodes:
  fixes collate :: "string \<Rightarrow> 'k::linorder"
  shows "walk_spans collate m stack k d = Some r \<Longrightarrow> m = children_of spans \<Longrightarrow>
      list_all (\<lambda>n. n = tree_node m (depth n) (node_span n) \<and> node_span n \<in> set spans) r"
    and "walk_kids collate m stack kids d = Some r \<Longrightarrow> m = children_of spans \<Longrightarrow> set kids \<subseteq> set spans \<Longrightarrow>
      list_all (\<lambda>n. n = tree_node m (depth n) (node_span n) \<and> node_span n \<in> set spans) r"
proof (induction collate m stack k d and collate m stack kids d arbitrary: r and r
    rule: walk_spans_walk_kids.induct)
  case (2 collate m stack k d)
  then show ?case by (auto simp: kids_of_children)
next
  case (4 collate m stack s kids d)
  moreover have "depth (tree_node m d s) = d" "node_span (tree_node m d s) = s"
    by (simp_all add: tree_node_def Let_def)
  ultimately show ?case by (auto split: option.splits)
qed auto

lemma foldl_sum: "foldl (\<lambda>acc c. acc + f c) a xs = a + (sum_list (map f xs) :: rat)"
  by (induction xs arbitrary: a) (simp_all add: add.assoc)

text \<open>Every row of the waterfall is either a walked span, whose self time is its duration less the
  durations of its children, clamped to zero exactly when the row is flagged as an async parent, or an
  unreached span shown at depth zero with its whole duration.  With non-negative durations the self time
  lies between zero and the duration and the ratio between zero and one, and an async parent is
  never reported as likely uninstrumented.
\<close>

theorem span_tree_self_time:
  assumes "buildSpanTree collate stack spans = Some r" and "n \<in> set r"
    and "\<forall>s \<in> set spans. 0 \<le> durationMs s"
  shows "(let kids = filter (\<lambda>s. parentSpanId s = Some (spanId (node_span n))) spans;
              own = durationMs (node_span n) - sum_list (map durationMs kids) in
     (childCount n = length kids \<and> selfMs n = max 0 own \<and> (asyncParent n \<longleftrightarrow> own < 0)) \<or>
     (depth n = 0 \<and> selfMs n = durationMs (node_span n) \<and> \<not> asyncParent n)) \<and>
   0 \<le> selfMs n \<and> selfMs n \<le> durationMs (node_span n) \<and> 0 \<le> selfRatio n \<and> selfRatio n \<le> 1 \<and>
   \<not> (asyncParent n \<and> isLikelyUninstrumented n)"
proof -
  from assms(1) obtain w where w: "walk_spans collate (children_of spans) stack None 0 = Some w"
    and r: "r = with_orphans spans w" by (auto simp: buildSpanTree_orphans)
  have likely: "\<not> (asyncParent n \<and> isLikelyUninstrumented n)"
    by (simp add: isLikelyUninstrumented_def isInstrumentationGapCandidate_def)
  have nodes: "list_all (\<lambda>n. n = tree_node (children_of spans) (depth n) (node_span n) \<and> node_span n \<in> set spans) w"
    using w by (rule walk_nodes(1)) simp
  have "n \<in> set w \<or> n = orphan_node (node_span n) \<and> node_span n \<in> set spans"
    using assms(2) by (auto simp: r with_orphans_def orphan_node_def split: if_splits)
  then have dur: "0 \<le> durationMs (node_span n)" and "n \<in> set w \<or> n = orphan_node (node_span n)"
    using nodes assms(3) by (auto simp: list_all_iff)
  from this(2) show ?thesis
  proof
    assume "n \<in> set w"
    then have n: "n = tree_node (children_of spans) (depth n) (node_span n)"
      using nodes by (simp add: list_all_iff)
    define kids where "kids = filter (\<lambda>s. parentSpanId s = Some (spanId (node_span n))) spans"
    have "0 \<le> sum_list (map durationMs kids)"
      using assms(3) by (intro sum_list_nonneg) (auto simp: kids_def)
    moreover note likely dur
    ultimately show ?thesis
      using n [THEN arg_cong, of selfMs] n [THEN arg_cong, of selfRatio] n [THEN arg_cong, of asyncParent]
        n [THEN arg_cong, of childCount]
      by (simp add: tree_node_def Let_def foldl_sum kids_of_children flip: kids_def)
  next
    assume "n = orphan_node (node_span n)"
    then have "depth n = 0" "selfMs n = durationMs (node_span n)" "\<not> asyncParent n" "selfRatio n = 1"
      by (metis orphan_node_def span_tree_node.select_convs)+
    then show ?thesis using likely dur by simp
  qed
qed

theorem span_tree_self_time_witness:
  "\<exists>r. buildSpanTree length 4 example_trace = Some r \<and> 1 < length r \<and> 0 \<le> selfMs (r ! 0) \<and> selfMs (r ! 0) \<le> 200"
proof -
  have "map_option (map (\<lambda>n. durationMs (node_span n))) (buildSpanTree length 4 example_trace) = Some [200, 40, 5]"
    by code_simp
  then obtain r where r: "buildSpanTree length 4 example_trace = Some r"
    and m: "map (\<lambda>n. durationMs (node_span n)) r = [200, 40, 5]" by auto
  then have "r ! 0 \<in> set r" "durationMs (node_span (r ! 0)) = 200" "1 < length r" by (auto simp: map_eq_Cons_conv)
  then show ?thesis using span_tree_self_time [OF r, of "r ! 0"] r by (simp add: example_trace_def)
qed

end
