(* ===== verification/Interaction.thy ===== *)
theory Interaction
  imports Prelude
begin

text \<open>
  The browser SDK's interaction context, \<^verbatim>\<open>packages/analytics-sdk/src/interaction.ts\<close>: the ids minted at a
  click, the module-level stack of active contexts and the wrappers that hold a context for the
  duration of a handler.  The stack is a list with its top at the end, as in the source.  A handler is
  a function from the stack to its outcome and the stack it leaves; promises are the \<open>Settle\<close> events of
  an explicit schedule.  \<^verbatim>\<open>Date.now()\<close> and the random bytes are parameters.

  Shown: ids sort by time; a synchronous wrapper restores the stack it found; a schedule whose
  asynchronous handlers are properly nested restores it too, and one whose handlers overlap pops the wrong
  context.
\<close>

section \<open>Definitions\<close>

definition ENCODING :: string where
  "ENCODING = ''0123456789ABCDEFGHJKMNPQRSTVWXYZ''"

text \<open>The loop body prepends the lowest digit and divides; \<open>len\<close> counts the turns left.\<close>

fun encodeTime_loop :: "nat \<Rightarrow> nat \<Rightarrow> string \<Rightarrow> string" where
  "encodeTime_loop 0 n str = str"
| "encodeTime_loop (Suc turns) n str = encodeTime_loop turns (n div 32) ((ENCODING ! (n mod 32)) # str)"

definition encodeTime :: "nat \<Rightarrow> nat \<Rightarrow> string" where
  "encodeTime millis len = encodeTime_loop len millis ''''"

definition encodeRandom :: "8 word list \<Rightarrow> string" where
  "encodeRandom bytes = foldl (\<lambda>str b. str @ [ENCODING ! (unat b mod 32)]) '''' bytes"

definition generateInteractionId :: "nat \<Rightarrow> 8 word list \<Rightarrow> string" where
  "generateInteractionId now random = encodeTime now 10 @ encodeRandom random"

record action_context =
  interactionId :: string
  rootActionId :: string
  actionId :: string

record context_options =
  opt_rootActionId :: "string option"
  opt_actionId :: "string option"

abbreviation no_options :: context_options where
  "no_options \<equiv> \<lparr>opt_rootActionId = None, opt_actionId = None\<rparr>"

definition coalesceActionContext :: "string \<Rightarrow> context_options \<Rightarrow> action_context" where
  "coalesceActionContext i opts =
     \<lparr>interactionId = i,
      rootActionId = (case opt_rootActionId opts of Some r \<Rightarrow> r | None \<Rightarrow> i),
      actionId = (case opt_actionId opts of Some a \<Rightarrow> a
                  | None \<Rightarrow> (case opt_rootActionId opts of Some r \<Rightarrow> r | None \<Rightarrow> i))\<rparr>"

type_synonym istack = "action_context list"

definition currentContext :: "istack \<Rightarrow> action_context option" where
  "currentContext stack = (if length stack = 0 then None else at_index stack (length stack - 1))"

definition currentInteractionId :: "istack \<Rightarrow> string option" where
  "currentInteractionId stack = map_option interactionId (currentContext stack)"

definition currentRootActionId :: "istack \<Rightarrow> string option" where
  "currentRootActionId stack = map_option rootActionId (currentContext stack)"

definition currentActionId :: "istack \<Rightarrow> string option" where
  "currentActionId stack = map_option actionId (currentContext stack)"

definition currentInteractionContext :: "istack \<Rightarrow> action_context option" where
  "currentInteractionContext stack = currentContext stack"

definition pushInteraction :: "string \<Rightarrow> context_options \<Rightarrow> istack \<Rightarrow> istack" where
  "pushInteraction i opts stack = stack @ [coalesceActionContext i opts]"

text \<open>The search of \<^verbatim>\<open>popInteraction\<close> from the top; \<open>n\<close> is the number of entries still to be looked at.\<close>

fun last_index_of :: "string \<Rightarrow> istack \<Rightarrow> nat \<Rightarrow> nat option" where
  "last_index_of i stack 0 = None"
| "last_index_of i stack (Suc n) =
     (if map_option interactionId (at_index stack n) = Some i then Some n else last_index_of i stack n)"

definition splice1 :: "'a list \<Rightarrow> nat \<Rightarrow> 'a list" where
  "splice1 xs i = take i xs @ drop (Suc i) xs"

definition popInteraction :: "string option \<Rightarrow> istack \<Rightarrow> istack" where
  "popInteraction i stack =
     (case i of None \<Rightarrow> butlast stack
      | Some i' \<Rightarrow>
          if currentInteractionId stack = Some i' then butlast stack
          else case last_index_of i' stack (length stack) of None \<Rightarrow> stack | Some n \<Rightarrow> splice1 stack n)"

text \<open>What running a handler yields: a value, an exception, or a promise that settles later.\<close>

datatype ('a, 'e) outcome = Returned 'a | Threw 'e | Pending nat

type_synonym ('a, 'e) handler = "istack \<Rightarrow> ('a, 'e) outcome \<times> istack"

definition withInteractionContext :: "string \<Rightarrow> context_options \<Rightarrow> ('a, 'e) handler \<Rightarrow> ('a, 'e) handler" where
  "withInteractionContext i opts fn stack =
     (let (out, stack') = fn (pushInteraction i opts stack) in (out, popInteraction None stack'))"

text \<open>
  The part of \<^verbatim>\<open>wrapInteraction\<close> that runs when the wrapped handler is called.  The flag says whether a
  \<^verbatim>\<open>finally(popInteraction)\<close> was attached to the returned promise.
\<close>

definition wrapInteraction :: "('a, 'e) handler \<Rightarrow> istack \<Rightarrow> (('a, 'e) outcome \<times> bool) \<times> istack" where
  "wrapInteraction handler stack =
     (case currentInteractionContext stack of
        None \<Rightarrow> let (out, stack') = handler stack in ((out, False), stack')
      | Some ctx \<Rightarrow>
          let (out, stack') = handler (pushInteraction (interactionId ctx)
                \<lparr>opt_rootActionId = Some (rootActionId ctx), opt_actionId = Some (actionId ctx)\<rparr> stack)
          in case out of Pending p \<Rightarrow> ((out, True), stack')
             | _ \<Rightarrow> ((out, False), popInteraction None stack'))"

text \<open>
  Asynchronous handlers: \<^verbatim>\<open>withInteractionContextAsync\<close> pushes when it is called and pops when its body
  settles.  A schedule is the order in which the calls and settlements of a page happen.
\<close>

datatype async_event = Call nat string context_options | Settle nat

definition async_step :: "istack \<Rightarrow> async_event \<Rightarrow> istack" where
  "async_step stack e =
     (case e of Call task i opts \<Rightarrow> pushInteraction i opts stack
      | Settle task \<Rightarrow> popInteraction None stack)"

definition async_run :: "istack \<Rightarrow> async_event list \<Rightarrow> istack" where
  "async_run stack es = foldl async_step stack es"

section \<open>Ids sort by time\<close>

definition code_less :: "(char \<times> char) set" where
  "code_less = {(a, b). char_code a < char_code b}"

lemma length_ENCODING [simp]: "length ENCODING = 32"
  by (simp add: ENCODING_def)

lemma ENCODING_in [simp]: "ENCODING ! (n mod 32) \<in> set ENCODING"
  by (rule nth_mem) simp

lemma ENCODING_increasing:
  assumes "i < j" and "j < 32"
  shows "(ENCODING ! i, ENCODING ! j) \<in> code_less"
proof -
  have "sorted_wrt (<) (map char_code ENCODING)" by code_simp
  then have "map char_code ENCODING ! i < map char_code ENCODING ! j"
    using assms by (auto simp: sorted_wrt_iff_nth_less)
  then show ?thesis using assms by (simp add: code_less_def)
qed

lemma encodeTime_loop_append: "encodeTime_loop len n str = encodeTime_loop len n '''' @ str"
proof (induction len arbitrary: n str)
  case (Suc len)
  show ?case using Suc [of "n div 32" "_ # str"] Suc [of "n div 32" "[_]"] by simp
qed simp

lemma encodeTime_0 [simp]: "encodeTime n 0 = ''''"
  by (simp add: encodeTime_def)

lemma encodeTime_Suc: "encodeTime n (Suc len) = encodeTime (n div 32) len @ [ENCODING ! (n mod 32)]"
  by (simp add: encodeTime_def) (rule encodeTime_loop_append)

lemma length_encodeTime [simp]: "length (encodeTime n len) = len"
  by (induction len arbitrary: n) (simp_all add: encodeTime_Suc)

lemma encodeTime_less:
  "m < n \<Longrightarrow> n < 32 ^ len \<Longrightarrow> (encodeTime m len, encodeTime n len) \<in> lexord code_less"
proof (induction len arbitrary: m n)
  case (Suc len)
  show ?case
  proof (cases "m div 32 = n div 32")
    case True
    then have "m mod 32 < n mod 32"
      using Suc.prems(1) by (metis add_less_cancel_left mult_div_mod_eq)
    then have "(ENCODING ! (m mod 32), ENCODING ! (n mod 32)) \<in> code_less"
      by (intro ENCODING_increasing) simp_all
    then show ?thesis using True by (simp add: encodeTime_Suc lexord_append_leftI)
  next
    case False
    then have "m div 32 < n div 32" using Suc.prems(1) div_le_mono [of m n 32] by linarith
    moreover have "n div 32 < 32 ^ len" using Suc.prems(2) by (simp add: div_less_iff_less_mult mult.commute)
    ultimately show ?thesis using Suc.IH by (simp add: encodeTime_Suc lexord_sufI)
  qed
qed simp

lemma encodeRandom_map: "encodeRandom bs = map (\<lambda>b. ENCODING ! (unat b mod 32)) bs"
proof -
  have "foldl (\<lambda>str b. str @ [f b]) acc bs = acc @ map f bs" for acc and f :: "8 word \<Rightarrow> char"
    by (induction bs arbitrary: acc) simp_all
  then show ?thesis by (simp add: encodeRandom_def)
qed

lemma encodeTime_chars: "set (encodeTime n len) \<subseteq> set ENCODING"
  by (induction len arbitrary: n) (auto simp: encodeTime_Suc)

text \<open>Interaction ids sort by the time they are minted: of two ids minted at different milliseconds before
  2^50, the earlier is smaller in the order of code units, whatever the random parts; and an id is always
  26 characters of the Crockford alphabet.
\<close>

theorem interaction_ids_sort_by_time:
  assumes "t1 < t2" and "t2 < 2 ^ 50" and "length r1 = 16" and "length r2 = 16"
  shows "(generateInteractionId t1 r1, generateInteractionId t2 r2) \<in> lexord {(a, b). char_code a < char_code b}
    \<and> length (generateInteractionId t1 r1) = 26 \<and> set (generateInteractionId t1 r1) \<subseteq> set ENCODING"
proof -
  have "(encodeTime t1 10, encodeTime t2 10) \<in> lexord code_less"
    using assms(1,2) by (intro encodeTime_less) simp_all
  then have "(generateInteractionId t1 r1, generateInteractionId t2 r2) \<in> lexord code_less"
    by (simp add: generateInteractionId_def lexord_sufI)
  moreover have "set (encodeRandom r1) \<subseteq> set ENCODING"
    by (auto simp: encodeRandom_map)
  ultimately show ?thesis
    using assms(3) encodeTime_chars [of t1 10]
    by (simp add: generateInteractionId_def code_less_def encodeRandom_map)
qed

theorem interaction_ids_sort_by_time_witness:
  "(generateInteractionId 1700000000000 (replicate 16 255), generateInteractionId 1700000000001 (replicate 16 0))
     \<in> lexord {(a, b). char_code a < char_code b}"
  using interaction_ids_sort_by_time [of 1700000000000 1700000000001 "replicate 16 255" "replicate 16 0"] by simp

section \<open>The stack\<close>

lemma butlast_push [simp]: "butlast (pushInteraction i opts stack) = stack"
  by (simp add: pushInteraction_def)

lemma interactionId_coalesce [simp]: "interactionId (coalesceActionContext i opts) = i"
  by (simp add: coalesceActionContext_def)

lemma currentContext_last: "currentContext stack = (if stack = [] then None else Some (last stack))"
  by (simp add: currentContext_def at_index_def last_conv_nth)

lemma currentContext_push [simp]: "currentContext (pushInteraction i opts stack) = Some (coalesceActionContext i opts)"
  by (simp add: currentContext_last pushInteraction_def)

lemma last_index_of_Some: "last_index_of i stack n = Some k \<Longrightarrow> n \<le> length stack \<Longrightarrow>
    k < n \<and> interactionId (stack ! k) = i \<and> (\<forall>j. k < j \<and> j < n \<longrightarrow> interactionId (stack ! j) \<noteq> i)"
  by (induction n) (auto simp: at_index_def less_Suc_eq split: if_splits)

lemma last_index_of_None: "last_index_of i stack n = None \<Longrightarrow> n \<le> length stack \<Longrightarrow> j < n \<Longrightarrow>
    interactionId (stack ! j) \<noteq> i"
  by (induction n) (auto simp: at_index_def less_Suc_eq split: if_splits)

lemma pop_absent:
  assumes "i \<notin> interactionId ` set stack"
  shows "popInteraction (Some i) stack = stack"
proof -
  have "last_index_of i stack (length stack) = None"
    using last_index_of_Some [of i stack "length stack"] assms
    by (cases "last_index_of i stack (length stack)") (auto simp: image_iff)
  moreover have "currentInteractionId stack \<noteq> Some i"
    using assms by (auto simp: currentInteractionId_def currentContext_last)
  ultimately show ?thesis by (simp add: popInteraction_def)
qed

text \<open>Popping by id removes the topmost context with that id and nothing else.\<close>

lemma pop_by_id:
  assumes "interactionId c = i" and "i \<notin> interactionId ` set ys"
  shows "popInteraction (Some i) (xs @ c # ys) = xs @ ys"
proof (cases "ys = []")
  case True
  then show ?thesis using assms by (simp add: popInteraction_def currentInteractionId_def currentContext_last)
next
  case False
  then have cur: "currentInteractionId (xs @ c # ys) \<noteq> Some i"
    using assms(2) by (auto simp: currentInteractionId_def currentContext_last)
  let ?s = "xs @ c # ys"
  have above: "interactionId (?s ! j) \<noteq> i" if "length xs < j" "j < length ?s" for j
  proof -
    have "?s ! j = ys ! (j - Suc (length xs))" using that by (simp add: nth_append)
    then have "?s ! j \<in> set ys" using that by simp
    then show ?thesis using assms(2) by blast
  qed
  obtain k where k: "last_index_of i ?s (length ?s) = Some k"
    using last_index_of_None [of i ?s "length ?s" "length xs"] assms(1) by fastforce
  from last_index_of_Some [OF k] have k': "k < length ?s" "interactionId (?s ! k) = i"
    "\<forall>j. k < j \<and> j < length ?s \<longrightarrow> interactionId (?s ! j) \<noteq> i" by simp_all
  have "\<not> length xs < k" using above k'(1,2) by blast
  moreover have "\<not> k < length xs"
  proof
    assume "k < length xs"
    then have "interactionId (?s ! length xs) \<noteq> i" using k'(3) [rule_format, of "length xs"] by simp
    then show False using assms(1) by simp
  qed
  ultimately have "k = length xs" by simp
  then show ?thesis using k cur by (simp add: popInteraction_def splice1_def)
qed

text \<open>
  A synchronous handler run by \<^verbatim>\<open>withInteractionContext\<close> sees the id it was given, with the action ids
  coalesced to it, and whether it returns or throws the caller finds its own stack again, provided
  the handler itself leaves the stack as it found it.
\<close>

theorem with_context_scoped:
  assumes "\<And>st. snd (fn st) = st"
  shows "withInteractionContext i no_options fn stack = (fst (fn (pushInteraction i no_options stack)), stack) \<and>
    currentInteractionContext (pushInteraction i no_options stack)
      = Some \<lparr>interactionId = i, rootActionId = i, actionId = i\<rparr>"
  using assms [of "pushInteraction i no_options stack"]
  by (simp add: withInteractionContext_def popInteraction_def case_prod_beta currentInteractionContext_def
      coalesceActionContext_def)

theorem with_context_scoped_witness:
  "withInteractionContext ''click-1'' no_options
     (withInteractionContext ''click-2'' no_options (\<lambda>st. (Threw (currentInteractionId st) :: (unit, string option) outcome, st)))
     [] = (Threw (Some ''click-2''), [])"
proof -
  let ?inner = "withInteractionContext ''click-2'' no_options
    (\<lambda>st. (Threw (currentInteractionId st) :: (unit, string option) outcome, st))"
  have "snd (?inner st) = st" for st
    by (simp add: withInteractionContext_def popInteraction_def)
  from with_context_scoped [of ?inner, OF this] show ?thesis
    by (simp add: withInteractionContext_def currentInteractionId_def)
qed

section \<open>Asynchronous handlers\<close>

text \<open>Schedules in which every handler settles before the handlers that were active at its call.\<close>

inductive nested :: "async_event list \<Rightarrow> bool" where
  nested_Nil: "nested []"
| nested_Call: "nested es \<Longrightarrow> nested es' \<Longrightarrow> nested (Call task i opts # es @ Settle task # es')"

lemma nested_run: "nested es \<Longrightarrow> async_run stack es = stack"
  by (induction arbitrary: stack rule: nested.induct)
    (simp_all add: async_run_def async_step_def popInteraction_def)

text \<open>In a schedule of \<^verbatim>\<open>withInteractionContextAsync\<close> calls whose lifetimes are nested, the stack is restored
  at the end, and whenever the inner handlers of a call have settled the context of that call is current
  again.
\<close>

theorem async_nested_restores:
  assumes "nested es" and "nested es'"
  shows "async_run stack (Call task i opts # es @ Settle task # es') = stack \<and>
    currentInteractionId (async_run stack (Call task i opts # es)) = Some i"
proof
  show "async_run stack (Call task i opts # es @ Settle task # es') = stack"
    using assms by (intro nested_run nested_Call)
  have "async_run stack (Call task i opts # es) = async_run (pushInteraction i opts stack) es"
    by (simp add: async_run_def async_step_def)
  then show "currentInteractionId (async_run stack (Call task i opts # es)) = Some i"
    using nested_run [OF assms(1)] by (simp add: currentInteractionId_def)
qed

theorem async_nested_restores_witness:
  "currentInteractionId (async_run [] [Call 1 ''a'' no_options, Call 2 ''b'' no_options, Settle 2]) = Some ''a''"
proof -
  have n: "nested [Call 2 ''b'' no_options, Settle 2]"
    using nested_Call [OF nested_Nil nested_Nil, of 2 "''b''" no_options] by simp
  show ?thesis using async_nested_restores [OF n nested_Nil, of "[]" 1 "''a''" no_options] by simp
qed

text \<open>Handlers whose lifetimes overlap corrupt the context: when the handler called first settles first, it
  pops the other one's context, so the handler that is still running is attributed to the interaction that
  has already finished.
\<close>

theorem async_overlap_misattributes:
  "async_run stack [Call task1 a opts1, Call task2 b opts2, Settle task1]
     = stack @ [coalesceActionContext a opts1] \<and>
   currentInteractionId (async_run stack [Call task1 a opts1, Call task2 b opts2, Settle task1]) = Some a"
  by (simp add: async_run_def async_step_def popInteraction_def)
    (simp add: currentInteractionId_def pushInteraction_def currentContext_last)

text \<open>\<^verbatim>\<open>wrapInteraction\<close> never invents a context: with no interaction active the handler runs on the empty
  stack as it is; with one active the handler sees exactly that context, and a handler that returns or throws
  leaves the stack as it was, while for a promise the context stays until it settles.
\<close>

theorem wrap_interaction_cases:
  assumes "\<And>st. snd (handler st) = st"
  shows "wrapInteraction handler [] = ((fst (handler []), False), []) \<and>
    (let stack = rest @ [ctx]; held = stack @ [ctx] in
     wrapInteraction handler stack =
       (case fst (handler held) of Pending p \<Rightarrow> ((Pending p, True), held)
        | out \<Rightarrow> ((out, False), stack)))"
proof -
  have c: "coalesceActionContext (interactionId ctx)
      \<lparr>opt_rootActionId = Some (rootActionId ctx), opt_actionId = Some (actionId ctx)\<rparr> = ctx"
    by (simp add: coalesceActionContext_def)
  show ?thesis
    using assms by (simp add: wrapInteraction_def currentInteractionContext_def currentContext_last Let_def
        case_prod_beta pushInteraction_def c popInteraction_def butlast_append split: outcome.split)
qed

theorem wrap_interaction_cases_witness:
  "wrapInteraction (\<lambda>st. (Pending (length st) :: (unit, unit) outcome, st))
     [\<lparr>interactionId = ''i'', rootActionId = ''r'', actionId = ''a''\<rparr>]
   = ((Pending 2, True), replicate 2 \<lparr>interactionId = ''i'', rootActionId = ''r'', actionId = ''a''\<rparr>)"
  using wrap_interaction_cases [of "\<lambda>st. (Pending (length st) :: (unit, unit) outcome, st)" "[]"
      "\<lparr>interactionId = ''i'', rootActionId = ''r'', actionId = ''a''\<rparr>"]
  by (simp add: Let_def numeral_2_eq_2)

end
