(* ===== verification/Auto_Correlate.thy ===== *)
theory Auto_Correlate
  imports Interaction
begin

text \<open>
  Automatic propagation in the browser, \<^verbatim>\<open>packages/analytics-sdk/src/auto-correlate.ts\<close>: header injection for
  \<^verbatim>\<open>fetch\<close>, the patched \<^verbatim>\<open>XMLHttpRequest\<close>, the click listeners and the reference-counted installer.
  Functions that the code compares by identity (the wrapped \<^verbatim>\<open>fetch\<close>, the patched prototype methods)
  are values of \<open>fn_ref\<close>, tagged with the installation that made them.  \<^verbatim>\<open>Headers\<close> and
  \<^verbatim>\<open>setRequestHeader\<close> follow the Fetch and XHR standards: names are case-insensitive, and a header
  set twice on an \<^verbatim>\<open>XMLHttpRequest\<close> combines its values.
\<close>

section \<open>Headers\<close>

definition INTERACTION_HEADER :: string where "INTERACTION_HEADER = ''x-obs-interaction''"
definition ROOT_ACTION_HEADER :: string where "ROOT_ACTION_HEADER = ''x-obs-root-action''"
definition ACTION_HEADER :: string where "ACTION_HEADER = ''x-obs-action''"

type_synonym headers = "(string, string) js_map"

definition headers_has :: "headers \<Rightarrow> string \<Rightarrow> bool" where
  "headers_has h name \<longleftrightarrow> map_get h (toLowerCase name) \<noteq> None"

definition headers_set :: "headers \<Rightarrow> string \<Rightarrow> string \<Rightarrow> headers" where
  "headers_set h name v = map_set h (toLowerCase name) v"

definition headers_append :: "headers \<Rightarrow> string \<Rightarrow> string \<Rightarrow> headers" where
  "headers_append h name v = (case map_get h (toLowerCase name) of
     None \<Rightarrow> map_set h (toLowerCase name) v | Some old \<Rightarrow> map_set h (toLowerCase name) (old @ '', '' @ v))"

definition new_Headers :: "(string \<times> string) list option \<Rightarrow> headers" where
  "new_Headers given = (case given of None \<Rightarrow> []
     | Some kvs \<Rightarrow> foldl (\<lambda>h (k, v). headers_append h k v) [] kvs)"

text \<open>A \<^verbatim>\<open>RequestInit\<close>: its headers and everything else, which is copied.\<close>

record 'o request_init =
  init_headers :: "(string \<times> string) list option"
  init_other :: "'o option"

definition set_default :: "headers \<Rightarrow> string \<Rightarrow> string \<Rightarrow> headers" where
  "set_default h name v = (if headers_has h name then h else headers_set h name v)"

definition init_given :: "'o request_init option \<Rightarrow> (string \<times> string) list option" where
  "init_given init = (case init of None \<Rightarrow> None | Some r \<Rightarrow> init_headers r)"

definition with_headers :: "'o request_init option \<Rightarrow> headers \<Rightarrow> 'o request_init" where
  "with_headers init h =
     \<lparr>init_headers = Some h, init_other = (case init of None \<Rightarrow> None | Some r \<Rightarrow> init_other r)\<rparr>"

definition injectInteractionHeader :: "'o request_init option \<Rightarrow> string \<Rightarrow> 'o request_init" where
  "injectInteractionHeader init i =
     with_headers init (set_default (new_Headers (init_given init)) INTERACTION_HEADER i)"

definition injectInteractionHeaders :: "'o request_init option \<Rightarrow> action_context \<Rightarrow> 'o request_init" where
  "injectInteractionHeaders init ctx =
     (let h0 = new_Headers (init_given init);
          h1 = set_default h0 INTERACTION_HEADER (interactionId ctx);
          h2 = set_default h1 ROOT_ACTION_HEADER (rootActionId ctx);
          h3 = set_default h2 ACTION_HEADER (actionId ctx)
      in with_headers init h3)"

definition wrapFetchWithActionCorrelation ::
  "('i \<Rightarrow> 'o request_init option \<Rightarrow> 'r) \<Rightarrow> (istack \<Rightarrow> action_context option) \<Rightarrow> istack
     \<Rightarrow> 'i \<Rightarrow> 'o request_init option \<Rightarrow> 'r" where
  "wrapFetchWithActionCorrelation originalFetch getContext stack input init =
     (case getContext stack of None \<Rightarrow> originalFetch input init
      | Some ctx \<Rightarrow> originalFetch input (Some (injectInteractionHeaders init ctx)))"

definition fetch_context :: "(istack \<Rightarrow> string option) \<Rightarrow> istack \<Rightarrow> action_context option" where
  "fetch_context getId stack =
     (case getId stack of None \<Rightarrow> None
      | Some i \<Rightarrow> (case currentInteractionContext stack of
          Some ctx \<Rightarrow> if interactionId ctx = i then Some ctx
                      else Some \<lparr>interactionId = i, rootActionId = i, actionId = i\<rparr>
        | None \<Rightarrow> Some \<lparr>interactionId = i, rootActionId = i, actionId = i\<rparr>))"

definition wrapFetchWithCorrelation ::
  "('i \<Rightarrow> 'o request_init option \<Rightarrow> 'r) \<Rightarrow> (istack \<Rightarrow> string option) \<Rightarrow> istack
     \<Rightarrow> 'i \<Rightarrow> 'o request_init option \<Rightarrow> 'r" where
  "wrapFetchWithCorrelation originalFetch getId =
     wrapFetchWithActionCorrelation originalFetch (fetch_context getId)"

section \<open>Click listeners\<close>

text \<open>
  What happens to the stack on a page with the listeners installed: a trusted or a programmatic event,
  and the second queued microtask of an earlier trusted event.
\<close>

datatype click_event = TrustedEvent string | SyntheticEvent | PopDue string

definition click_step :: "istack \<Rightarrow> click_event \<Rightarrow> istack" where
  "click_step stack e =
     (case e of TrustedEvent minted \<Rightarrow> pushInteraction minted no_options stack
      | SyntheticEvent \<Rightarrow> stack
      | PopDue minted \<Rightarrow> popInteraction (Some minted) stack)"

definition click_run :: "istack \<Rightarrow> click_event list \<Rightarrow> istack" where
  "click_run stack es = foldl click_step stack es"

section \<open>XMLHttpRequest\<close>

record xhr =
  opened :: bool
  request_headers :: headers

type_synonym xhr_contexts = "(nat, action_context) js_map"

definition patchedOpen :: "action_context option \<Rightarrow> nat \<Rightarrow> xhr_contexts \<Rightarrow> xhr \<Rightarrow> xhr_contexts \<times> xhr" where
  "patchedOpen ctx this contexts x =
     ((case ctx of None \<Rightarrow> contexts | Some c \<Rightarrow> map_set contexts this c),
      \<lparr>opened = True, request_headers = []\<rparr>)"

definition setRequestHeader :: "string \<Rightarrow> string \<Rightarrow> xhr \<Rightarrow> string + xhr" where
  "setRequestHeader name v x =
     (if opened x then Inr (x\<lparr>request_headers := headers_append (request_headers x) name v\<rparr>)
      else Inl ''InvalidStateError'')"

text \<open>The \<^verbatim>\<open>try\<close> block: an exception of one call skips the rest and is swallowed.\<close>

fun set_headers :: "(string \<times> string) list \<Rightarrow> xhr \<Rightarrow> xhr" where
  "set_headers [] x = x"
| "set_headers ((k, v) # kvs) x = (case setRequestHeader k v x of Inl e \<Rightarrow> x | Inr x' \<Rightarrow> set_headers kvs x')"

definition patchedSend :: "nat \<Rightarrow> xhr_contexts \<Rightarrow> xhr \<Rightarrow> xhr" where
  "patchedSend this contexts x =
     (case map_get contexts this of None \<Rightarrow> x
      | Some ctx \<Rightarrow> set_headers [(INTERACTION_HEADER, interactionId ctx),
                     (ROOT_ACTION_HEADER, rootActionId ctx), (ACTION_HEADER, actionId ctx)] x)"

section \<open>The installer\<close>

datatype fn_ref = Native string | Patched nat fn_ref

definition TRIGGER_EVENTS :: "string list" where
  "TRIGGER_EVENTS = [''click'', ''submit'', ''keydown'']"

text \<open>What the active cleanup closure captured.\<close>

record installation =
  handler_tag :: nat
  saved_fetch :: "(fn_ref \<times> fn_ref) option"
  saved_xhr :: "(fn_ref \<times> fn_ref \<times> fn_ref \<times> fn_ref) option"

record page =
  has_document :: bool
  global_fetch :: "fn_ref option"
  xhr_prototype :: "(fn_ref \<times> fn_ref) option"
  listeners :: "(string \<times> nat) list"
  installRefCount :: nat
  activeCleanup :: "installation option"
  next_tag :: nat

definition add_listeners :: "nat \<Rightarrow> (string \<times> nat) list \<Rightarrow> (string \<times> nat) list" where
  "add_listeners tag ls = foldl (\<lambda>ls evt. set_add ls (evt, tag)) ls TRIGGER_EVENTS"

definition remove_listeners :: "nat \<Rightarrow> (string \<times> nat) list \<Rightarrow> (string \<times> nat) list" where
  "remove_listeners tag ls = foldl (\<lambda>ls evt. filter (\<lambda>l. l \<noteq> (evt, tag)) ls) ls TRIGGER_EVENTS"

text \<open>The closure an installer call returns: \<open>None\<close> is the no-op outside a browser.\<close>

datatype cleanup = NoCleanup | Release

definition installAutoCorrelate :: "page \<Rightarrow> cleanup \<times> page" where
  "installAutoCorrelate p =
     (if activeCleanup p \<noteq> None then (Release, p\<lparr>installRefCount := installRefCount p + 1\<rparr>)
      else if \<not> has_document p then (NoCleanup, p)
      else
        let tag = next_tag p;
            p1 = p\<lparr>installRefCount := 1, next_tag := tag + 1, listeners := add_listeners tag (listeners p)\<rparr>;
            sf = map_option (\<lambda>original. (Patched tag original, original)) (global_fetch p1);
            p2 = p1\<lparr>global_fetch := map_option fst sf\<rparr>;
            sx = map_option (\<lambda>(op, se). (Patched tag op, op, Patched tag se, se)) (xhr_prototype p2);
            p3 = p2\<lparr>xhr_prototype := map_option (\<lambda>(po, op, ps, se). (po, ps)) sx\<rparr>
        in (Release, p3\<lparr>activeCleanup := Some \<lparr>handler_tag = tag, saved_fetch = sf, saved_xhr = sx\<rparr>\<rparr>))"

definition run_active_cleanup :: "installation \<Rightarrow> page \<Rightarrow> page" where
  "run_active_cleanup inst p =
     (let p1 = p\<lparr>listeners := remove_listeners (handler_tag inst) (listeners p)\<rparr>;
          p2 = (case saved_fetch inst of None \<Rightarrow> p1
                | Some (wrapped, original) \<Rightarrow>
                    if global_fetch p1 = Some wrapped then p1\<lparr>global_fetch := Some original\<rparr> else p1)
      in case saved_xhr inst of None \<Rightarrow> p2
         | Some (patched_open, original_open, patched_send, original_send) \<Rightarrow>
             p2\<lparr>xhr_prototype := map_option (\<lambda>(op, se).
                  (if op = patched_open then original_open else op,
                   if se = patched_send then original_send else se)) (xhr_prototype p2)\<rparr>)"

definition run_cleanup :: "cleanup \<Rightarrow> page \<Rightarrow> page" where
  "run_cleanup c p =
     (case c of NoCleanup \<Rightarrow> p
      | Release \<Rightarrow>
          let n = max 0 (installRefCount p - 1); p1 = p\<lparr>installRefCount := n\<rparr> in
          if n = 0
          then (case activeCleanup p1 of None \<Rightarrow> p1 | Some inst \<Rightarrow> run_active_cleanup inst p1)\<lparr>activeCleanup := None\<rparr>
          else p1)"

section \<open>Injected headers\<close>

lemma toLowerCase_headers [simp]:
  "toLowerCase INTERACTION_HEADER = INTERACTION_HEADER" "toLowerCase ROOT_ACTION_HEADER = ROOT_ACTION_HEADER"
  "toLowerCase ACTION_HEADER = ACTION_HEADER"
  by (code_simp)+

lemma headers_distinct [simp]:
  "INTERACTION_HEADER \<noteq> ROOT_ACTION_HEADER" "INTERACTION_HEADER \<noteq> ACTION_HEADER" "ROOT_ACTION_HEADER \<noteq> ACTION_HEADER"
  "ROOT_ACTION_HEADER \<noteq> INTERACTION_HEADER" "ACTION_HEADER \<noteq> INTERACTION_HEADER" "ACTION_HEADER \<noteq> ROOT_ACTION_HEADER"
  by (simp_all add: INTERACTION_HEADER_def ROOT_ACTION_HEADER_def ACTION_HEADER_def)

lemma map_get_set_default: "map_get (set_default h name v) k =
    (case map_get h k of Some u \<Rightarrow> Some u | None \<Rightarrow> if k = toLowerCase name then Some v else None)"
  by (auto simp: set_default_def headers_has_def headers_set_def map_get_set split: option.split)

text \<open>A correlated \<^verbatim>\<open>fetch\<close> sends the caller's request with at most three headers added: every header the
  caller set, under any letter case, keeps its value, the three correlation headers get the ids of the
  active context where the caller set none, and with no active interaction the request is passed on
  unchanged.
\<close>

theorem fetch_headers_respect_caller:
  "wrapFetchWithCorrelation (\<lambda>_. Some) currentInteractionId [] input init = Some init \<and>
   (let sent = wrapFetchWithCorrelation (\<lambda>_ i. i) currentInteractionId (rest @ [ctx]) input init in
    map_option init_other sent = Some (case init of None \<Rightarrow> None | Some r \<Rightarrow> init_other r) \<and>
    map_get (the (init_headers (the sent))) k =
      (case map_get (new_Headers (init_given init)) k of Some v \<Rightarrow> Some v
       | None \<Rightarrow> if k = INTERACTION_HEADER then Some (interactionId ctx)
                 else if k = ROOT_ACTION_HEADER then Some (rootActionId ctx)
                 else if k = ACTION_HEADER then Some (actionId ctx) else None))"
  by (auto simp: wrapFetchWithCorrelation_def wrapFetchWithActionCorrelation_def fetch_context_def
      currentInteractionId_def currentInteractionContext_def currentContext_last injectInteractionHeaders_def
      with_headers_def Let_def map_get_set_default split: option.split)

section \<open>Click interactions settle in any order\<close>

definition minted :: "click_event list \<Rightarrow> string list" where
  "minted es = concat (map (\<lambda>e. case e of TrustedEvent i \<Rightarrow> [i] | _ \<Rightarrow> []) es)"

definition still_open :: "click_event list \<Rightarrow> string list" where
  "still_open es = filter (\<lambda>i. PopDue i \<notin> set es) (minted es)"

text \<open>A pop is due only for an id minted earlier, and once.\<close>

fun pops_follow :: "click_event list \<Rightarrow> string list \<Rightarrow> bool" where
  "pops_follow [] due = True"
| "pops_follow (TrustedEvent i # es) due = pops_follow es (due @ [i])"
| "pops_follow (SyntheticEvent # es) due = pops_follow es due"
| "pops_follow (PopDue i # es) due = (i \<in> set due \<and> pops_follow es (removeAll i due))"

abbreviation click_context :: "string \<Rightarrow> action_context" where
  "click_context i \<equiv> coalesceActionContext i no_options"

lemma pops_follow_in: "pops_follow es due \<Longrightarrow> PopDue i \<in> set es \<Longrightarrow> i \<in> set due \<union> set (minted es)"
  by (induction es due rule: pops_follow.induct) (auto simp: minted_def)

lemma pop_click:
  assumes "distinct due" and "interactionId ` set base \<inter> set due = {}"
  shows "popInteraction (Some i) (base @ map click_context due) =
    (if i \<in> set due then base @ map click_context (removeAll i due) else popInteraction (Some i) (base @ map click_context due))"
proof (cases "i \<in> set due")
  case True
  then obtain xs ys where due: "due = xs @ i # ys" by (auto simp: in_set_conv_decomp)
  then have "removeAll i due = xs @ ys" "i \<notin> set ys" using assms(1) by auto
  moreover have "popInteraction (Some i) ((base @ map click_context xs) @ click_context i # map click_context ys)
      = (base @ map click_context xs) @ map click_context ys"
    using \<open>i \<notin> set ys\<close> by (intro pop_by_id) (auto simp: image_iff)
  ultimately show ?thesis using True due by simp
qed simp

lemma click_run_open:
  assumes "pops_follow es due" and "distinct (due @ minted es)" and "interactionId ` set base \<inter> set (due @ minted es) = {}"
  shows "click_run (base @ map click_context due) es
    = base @ map click_context (filter (\<lambda>i. PopDue i \<notin> set es) (due @ minted es))"
  using assms
proof (induction es arbitrary: due)
  case Nil
  then show ?case by (simp add: click_run_def minted_def)
next
  case (Cons e es)
  show ?case
  proof (cases e)
    case (TrustedEvent i)
    have m: "minted (e # es) = i # minted es" by (simp add: minted_def TrustedEvent)
    have "click_run (base @ map click_context due) (e # es) = click_run (base @ map click_context (due @ [i])) es"
      by (simp add: click_run_def click_step_def TrustedEvent pushInteraction_def)
    also have "\<dots> = base @ map click_context (filter (\<lambda>i. PopDue i \<notin> set es) ((due @ [i]) @ minted es))"
      using Cons.prems m by (intro Cons.IH) (auto simp: TrustedEvent)
    finally show ?thesis by (simp add: m [unfolded TrustedEvent] TrustedEvent)
  next
    case SyntheticEvent
    then show ?thesis using Cons by (simp add: click_run_def click_step_def minted_def)
  next
    case (PopDue i)
    have m: "minted (e # es) = minted es" by (simp add: minted_def PopDue)
    from Cons.prems have i: "i \<in> set due" "distinct due" "interactionId ` set base \<inter> set due = {}"
      by (auto simp: PopDue)
    have again: "PopDue i \<notin> set es"
      using pops_follow_in [of es "removeAll i due" i] Cons.prems i m by (auto simp: PopDue)
    have "click_run (base @ map click_context due) (e # es)
        = click_run (popInteraction (Some i) (base @ map click_context due)) es"
      by (simp add: click_run_def click_step_def PopDue)
    also have "\<dots> = click_run (base @ map click_context (removeAll i due)) es"
      by (subst pop_click [OF i(2,3)]) (simp add: i)
    also have "\<dots> = base @ map click_context (filter (\<lambda>i. PopDue i \<notin> set es) (removeAll i due @ minted es))"
      using Cons.prems m by (intro Cons.IH) (auto simp: PopDue distinct_removeAll)
    also have "filter (\<lambda>i. PopDue i \<notin> set es) (removeAll i due @ minted es)
        = filter (\<lambda>j. PopDue j \<notin> set (e # es)) (due @ minted (e # es))"
    proof -
      have "i \<notin> set (minted es)" using Cons.prems(2) i m by auto
      then have "filter (\<lambda>j. PopDue j \<notin> set es) (minted es) = filter (\<lambda>j. j \<noteq> i \<and> PopDue j \<notin> set es) (minted es)"
        by (intro filter_cong) auto
      then show ?thesis
        by (simp add: PopDue m [unfolded PopDue] removeAll_filter_not_eq eq_commute [of i])
    qed
    finally show ?thesis .
  qed
qed

text \<open>The contexts pushed by the click listeners are popped by id, so they settle correctly in whatever
  order the queued microtasks run: the stack holds what was there before, below the contexts of exactly the
  interactions whose pop is still outstanding, oldest first.
\<close>

theorem click_contexts_any_order:
  assumes "pops_follow es []" and "distinct (minted es)" and "interactionId ` set stack \<inter> set (minted es) = {}"
  shows "click_run stack es = stack @ map (\<lambda>i. coalesceActionContext i no_options) (still_open es)"
  using click_run_open [of es "[]" stack] assms by (simp add: still_open_def)

theorem click_contexts_any_order_witness:
  "click_run [] [TrustedEvent ''a'', TrustedEvent ''b'', SyntheticEvent, PopDue ''a''] = [coalesceActionContext ''b'' no_options]"
  using click_contexts_any_order [of "[TrustedEvent ''a'', TrustedEvent ''b'', SyntheticEvent, PopDue ''a'']" "[]"]
  by (simp add: minted_def still_open_def)

section \<open>XMLHttpRequest contexts\<close>

text \<open>The context recorded at \<^verbatim>\<open>open()\<close> is never cleared: a request object that is opened again while no
  interaction is active still sends the headers of the interaction of its previous use.
\<close>

theorem xhr_reuse_sends_stale_context:
  "let (contexts1, x1) = patchedOpen (Some ctx) this contexts x;
       sent1 = patchedSend this contexts1 x1;
       (contexts2, x2) = patchedOpen None this contexts1 sent1
   in request_headers (patchedSend this contexts2 x2)
        = [(INTERACTION_HEADER, interactionId ctx), (ROOT_ACTION_HEADER, rootActionId ctx), (ACTION_HEADER, actionId ctx)]"
  by (simp add: patchedOpen_def patchedSend_def map_get_set setRequestHeader_def headers_append_def Let_def)
    (simp add: map_get_def)

section \<open>Installing and releasing\<close>

fun install_times :: "nat \<Rightarrow> page \<Rightarrow> page" where
  "install_times 0 p = p"
| "install_times (Suc n) p = snd (installAutoCorrelate (install_times n p))"

fun release_times :: "nat \<Rightarrow> page \<Rightarrow> page" where
  "release_times 0 p = p"
| "release_times (Suc n) p = run_cleanup Release (release_times n p)"

lemma install_times_Suc:
  assumes "activeCleanup p = None" and "has_document p"
  shows "install_times (Suc n) p = (snd (installAutoCorrelate p))\<lparr>installRefCount := Suc n\<rparr>"
proof (induction n)
  case 0
  show ?case using assms by (simp add: installAutoCorrelate_def Let_def)
next
  case (Suc n)
  have "activeCleanup (snd (installAutoCorrelate p)) \<noteq> None"
    using assms by (simp add: installAutoCorrelate_def Let_def)
  then show ?case by (subst install_times.simps, subst Suc) (simp add: installAutoCorrelate_def)
qed

lemma release_times_less:
  "k < n \<Longrightarrow> installRefCount q = n \<Longrightarrow> release_times k q = q\<lparr>installRefCount := n - k\<rparr>"
  by (induction k) (simp_all add: run_cleanup_def Let_def)

lemma remove_add_listeners:
  assumes "tag \<notin> snd ` set ls"
  shows "remove_listeners tag (add_listeners tag ls) = ls"
proof -
  have add: "add_listeners tag ls = ls @ [(''click'', tag), (''submit'', tag), (''keydown'', tag)]"
    using assms by (force simp: add_listeners_def TRIGGER_EVENTS_def set_add_def)
  have "filter (\<lambda>l. l \<noteq> (evt, tag)) ls = ls" for evt
    using assms by (force intro: filter_True)
  then show ?thesis unfolding add by (simp add: remove_listeners_def TRIGGER_EVENTS_def)
qed

text \<open>Installing any number of times patches the page once, the instrumentation stays in place until the
  last of the returned cleanups has run, and then \<^verbatim>\<open>fetch\<close>, the \<^verbatim>\<open>XMLHttpRequest\<close> prototype and the
  listeners are exactly what they were before.
\<close>

theorem install_release_restores:
  assumes "activeCleanup p = None" and "has_document p" and "\<forall>l \<in> set (listeners p). snd l < next_tag p"
  shows "(\<forall>k < Suc n. activeCleanup (release_times k (install_times (Suc n) p)) \<noteq> None \<and>
       global_fetch (release_times k (install_times (Suc n) p)) = map_option (Patched (next_tag p)) (global_fetch p)) \<and>
    release_times (Suc n) (install_times (Suc n) p) = p\<lparr>installRefCount := 0, next_tag := next_tag p + 1\<rparr>"
proof (intro conjI allI impI)
  let ?q = "snd (installAutoCorrelate p)"
  note inst = install_times_Suc [OF assms(1,2), of n]
  have less: "release_times k (install_times (Suc n) p) = ?q\<lparr>installRefCount := Suc n - k\<rparr>" if "k < Suc n" for k
    using release_times_less [OF that, of "install_times (Suc n) p"] inst by simp
  have q: "activeCleanup ?q \<noteq> None" "global_fetch ?q = map_option (Patched (next_tag p)) (global_fetch p)"
    using assms by (simp_all add: installAutoCorrelate_def Let_def option.map_comp comp_def)
  show "activeCleanup (release_times k (install_times (Suc n) p)) \<noteq> None" if "k < Suc n" for k
    using q less [OF that] by simp
  show "global_fetch (release_times k (install_times (Suc n) p)) = map_option (Patched (next_tag p)) (global_fetch p)"
    if "k < Suc n" for k
    using q less [OF that] by simp
  have "next_tag p \<notin> snd ` set (listeners p)" using assms(3) by auto
  then have "run_cleanup Release (?q\<lparr>installRefCount := 1\<rparr>) = p\<lparr>installRefCount := 0, next_tag := next_tag p + 1\<rparr>"
    using assms(1,2)
    by (cases "global_fetch p"; cases "xhr_prototype p")
      (auto simp: run_cleanup_def Let_def run_active_cleanup_def installAutoCorrelate_def remove_add_listeners)
  then show "release_times (Suc n) (install_times (Suc n) p) = p\<lparr>installRefCount := 0, next_tag := next_tag p + 1\<rparr>"
    using less [of n] by simp
qed

definition fresh_page :: page where
  "fresh_page = \<lparr>has_document = True, global_fetch = Some (Native ''fetch''),
     xhr_prototype = Some (Native ''open'', Native ''send''), listeners = [], installRefCount = 0,
     activeCleanup = None, next_tag = 7\<rparr>"

theorem install_release_restores_witness:
  "release_times 2 (install_times 2 fresh_page) = fresh_page\<lparr>installRefCount := 0, next_tag := 8\<rparr>"
proof -
  have "activeCleanup fresh_page = None" "has_document fresh_page"
    "\<forall>l \<in> set (listeners fresh_page). snd l < next_tag fresh_page" by (simp_all add: fresh_page_def)
  from install_release_restores [OF this, of 1] show ?thesis by (simp add: numeral_2_eq_2 fresh_page_def)
qed

end
