(* ===== verification/Js_Text.thy ===== *)
theory Js_Text
  imports Prelude
begin

text \<open>
  Text and number conversions of JavaScript that the collector uses: \<^verbatim>\<open>split\<close> and \<^verbatim>\<open>join\<close>, \<^verbatim>\<open>Number(s)\<close> and
  \<^verbatim>\<open>toFixed\<close>.  A number is a rational or one of the non-finite values.  Integers are rounded to 53 bits as
  a double is; fractions are kept exact.
\<close>

section \<open>Numbers\<close>

datatype js_number = Num rat | NaN | Infinity bool

definition isFinite :: "js_number \<Rightarrow> bool" where
  "isFinite x = (case x of Num _ \<Rightarrow> True | _ \<Rightarrow> False)"

definition is_digit :: "char \<Rightarrow> bool" where
  "is_digit c \<longleftrightarrow> 48 \<le> char_code c \<and> char_code c \<le> 57"

definition digits_val :: "string \<Rightarrow> nat" where
  "digits_val s = foldl (\<lambda>n c. 10 * n + (char_code c - 48)) 0 s"

text \<open>From here on the exact value of a literal overflows to infinity.\<close>

definition number_limit :: rat where
  "number_limit = of_nat (2 ^ 1024 - 2 ^ 970)"

definition round53 :: "int \<Rightarrow> int" where
  "round53 i = sgn i * int (fl53 (nat \<bar>i\<bar>))"

definition clamp_number :: "rat \<Rightarrow> js_number" where
  "clamp_number q =
     (if \<bar>q\<bar> < number_limit then Num (if of_int \<lfloor>q\<rfloor> = q then of_int (round53 \<lfloor>q\<rfloor>) else q) else Infinity (0 < q))"

text \<open>\<^verbatim>\<open>Number(n)\<close> of a big integer within the range of a double.\<close>

definition bigint_number :: "int \<Rightarrow> js_number" where
  "bigint_number i = Num (of_int (round53 i))"

text \<open>An exponent part: nothing, or a letter e, an optional sign and digits.\<close>

definition exponent_part :: "string \<Rightarrow> int option" where
  "exponent_part r =
     (case r of [] \<Rightarrow> Some 0
      | c # cs \<Rightarrow>
          if c = CHR ''e'' \<or> c = CHR ''E''
          then let neg = startsWith cs ''-''; ds = (if startsWith cs ''-'' \<or> startsWith cs ''+'' then tl cs else cs)
               in if ds \<noteq> [] \<and> list_all is_digit ds
                  then Some (if neg then - int (digits_val ds) else int (digits_val ds)) else None
          else None)"

definition unsigned_number :: "string \<Rightarrow> rat option" where
  "unsigned_number s =
     (let ip = takeWhile is_digit s; r = dropWhile is_digit s;
          fp = (if startsWith r ''.'' then takeWhile is_digit (tl r) else []);
          r' = (if startsWith r ''.'' then dropWhile is_digit (tl r) else r)
      in if ip @ fp = [] then None
         else case exponent_part r' of None \<Rightarrow> None
              | Some e \<Rightarrow>
                  let m = of_nat (digits_val (ip @ fp)) / 10 ^ length fp
                  in Some (if 0 \<le> e then m * 10 ^ nat e else m / 10 ^ nat (- e)))"

definition radix_digit :: "char \<Rightarrow> nat" where
  "radix_digit c = (let n = char_code (lower_char c) in
     if 48 \<le> n \<and> n \<le> 57 then n - 48 else if 97 \<le> n \<and> n \<le> 102 then n - 87 else 99)"

definition radix_number :: "nat \<Rightarrow> string \<Rightarrow> js_number" where
  "radix_number b s =
     (if s \<noteq> [] \<and> list_all (\<lambda>c. radix_digit c < b) s
      then clamp_number (of_nat (foldl (\<lambda>n c. b * n + radix_digit c) 0 s)) else NaN)"

definition js_Number :: "string \<Rightarrow> js_number" where
  "js_Number s =
     (let t = trim s; u = toLowerCase (take 2 t); body = drop 2 t in
      if t = [] then Num 0
      else if u = ''0x'' then radix_number 16 body
      else if u = ''0o'' then radix_number 8 body
      else if u = ''0b'' then radix_number 2 body
      else
        let neg = startsWith t ''-''; rest = (if startsWith t ''-'' \<or> startsWith t ''+'' then tl t else t) in
        if rest = ''Infinity'' then Infinity (\<not> neg)
        else case unsigned_number rest of None \<Rightarrow> NaN
             | Some q \<Rightarrow> clamp_number (if neg then - q else q))"

section \<open>Printing numbers\<close>

definition pad_left :: "nat \<Rightarrow> string \<Rightarrow> string" where
  "pad_left n s = replicate (n - length s) (CHR ''0'') @ s"

definition fixed_abs :: "nat \<Rightarrow> rat \<Rightarrow> string" where
  "fixed_abs f x =
     (let n = nat \<lfloor>x * 10 ^ f + 1 / 2\<rfloor> in
      decimal (n div 10 ^ f) @ (if f = 0 then [] else ''.'' @ pad_left f (decimal (n mod 10 ^ f))))"

definition toFixed :: "nat \<Rightarrow> rat \<Rightarrow> string" where
  "toFixed f x = (if x < 0 then ''-'' @ fixed_abs f (- x) else fixed_abs f x)"

definition int_text :: "int \<Rightarrow> string" where
  "int_text i = (if i < 0 then ''-'' @ decimal (nat (- i)) else decimal (nat i))"

section \<open>Splitting and joining\<close>

fun split_go :: "string \<Rightarrow> string \<Rightarrow> string \<Rightarrow> string list" where
  "split_go sep cur [] = [cur]"
| "split_go sep cur (c # cs) =
     (if sep \<noteq> [] \<and> startsWith (c # cs) sep then cur # split_go sep [] (drop (length sep - 1) cs)
      else split_go sep (cur @ [c]) cs)"

definition js_split :: "string \<Rightarrow> string \<Rightarrow> string list" where
  "js_split sep s = split_go sep [] s"

fun js_join :: "string \<Rightarrow> string list \<Rightarrow> string" where
  "js_join sep [] = []"
| "js_join sep [s] = s"
| "js_join sep (s # ss) = s @ sep @ js_join sep ss"

lemma startsWith_Cons_diff: "sep = a # sep' \<Longrightarrow> c \<noteq> a \<Longrightarrow> \<not> startsWith (c # cs) sep"
  by (simp add: startsWith_def)

lemma split_go_piece:
  assumes "sep = a # sep'" and "a \<notin> set p"
  shows "split_go sep cur (p @ s) = split_go sep (cur @ p) s"
  using assms by (induction p arbitrary: cur) (auto simp: startsWith_def)

lemma split_go_sep:
  assumes "sep = a # sep'"
  shows "split_go sep cur (sep @ s) = cur # split_go sep [] s"
  using assms by (simp add: startsWith_def)

text \<open>Splitting at a separator undoes joining with it, for pieces free of its first character.\<close>

lemma split_join:
  assumes "sep = a # sep'" and "ps \<noteq> []" and "\<forall>p \<in> set ps. a \<notin> set p"
  shows "js_split sep (js_join sep ps) = ps"
proof -
  have "split_go sep cur (js_join sep ps) = (cur @ hd ps) # tl ps" for cur
    using assms(2,3)
  proof (induction ps arbitrary: cur rule: induct_list012)
    case (2 p)
    then show ?case using split_go_piece [OF assms(1), of p cur "[]"] by simp
  next
    case (3 p q ps)
    then have "split_go sep cur (p @ sep @ js_join sep (q # ps)) = (cur @ p) # split_go sep [] (js_join sep (q # ps))"
      using split_go_piece [OF assms(1)] split_go_sep [OF assms(1)] by simp
    then show ?case using 3 by simp
  qed simp
  then show ?thesis using assms(2) by (simp add: js_split_def)
qed

section \<open>Reading back a numeral\<close>

lemma char_code_digit: "d < 10 \<Longrightarrow> char_code (char_of (48 + d)) = 48 + d"
  by (simp add: char_code_of)

lemma digits_val_snoc: "digits_val (s @ [c]) = 10 * digits_val s + (char_code c - 48)"
  by (simp add: digits_val_def)

lemma decimal_digits: "list_all is_digit (decimal n) \<and> decimal n \<noteq> [] \<and> digits_val (decimal n) = n"
proof (induction n rule: decimal.induct)
  case (1 n)
  show ?case
  proof (cases "n < 10")
    case True
    then show ?thesis
      by (simp add: decimal.simps [of n] is_digit_def char_code_digit digits_val_def)
  next
    case False
    then have "list_all is_digit (decimal (n div 10)) \<and> decimal (n div 10) \<noteq> [] \<and> digits_val (decimal (n div 10)) = n div 10"
      using 1 by simp
    moreover have c: "char_code (char_of (48 + n mod 10)) = 48 + n mod 10" by (rule char_code_digit) simp
    moreover have "n mod 10 < 10" by simp
    then have "is_digit (char_of (48 + n mod 10))" unfolding is_digit_def c by simp
    ultimately show ?thesis
      using False by (simp add: decimal.simps [of n] digits_val_snoc)
  qed
qed

lemma decimal_inj: "decimal m = decimal n \<Longrightarrow> m = n"
  by (metis decimal_digits)

lemma is_digit_not_space: "is_digit c \<Longrightarrow> \<not> is_space c"
  by (auto simp: is_digit_def is_space_def)

lemma trim_id:
  assumes "list_all (\<lambda>c. \<not> is_space c) s"
  shows "trim s = s"
proof -
  have d: "dropWhile is_space xs = xs" if "list_all (\<lambda>c. \<not> is_space c) xs" for xs
    using that by (cases xs) simp_all
  have "list_all (\<lambda>c. \<not> is_space c) (rev s)" using assms by (simp add: list_all_iff)
  then show ?thesis using assms by (simp add: trim_def d)
qed

lemma toLowerCase_digits: "list_all is_digit s \<Longrightarrow> toLowerCase s = s"
  by (induction s) (auto simp: toLowerCase_def lower_char_def is_digit_def Let_def)

text \<open>A numeral with an optional sign is read as its integer, rounded to a double.\<close>

lemma js_Number_int_text:
  assumes "\<bar>of_int i :: rat\<bar> < number_limit"
  shows "js_Number (int_text i) = bigint_number i"
proof -
  define n where "n = nat \<bar>i\<bar>"
  define s where "s = decimal n"
  have s: "list_all is_digit s" "s \<noteq> []" "digits_val s = n" using decimal_digits by (simp_all add: s_def)
  have itext: "int_text i = (if i < 0 then ''-'' @ s else s)" by (auto simp: int_text_def s_def n_def)
  have nd: "\<not> is_digit (CHR ''x'')" "\<not> is_digit (CHR ''o'')" "\<not> is_digit (CHR ''b'')" "\<not> is_digit (CHR ''-'')"
    "\<not> is_digit (CHR ''+'')" "\<not> is_digit (CHR ''I'')" by (simp_all add: is_digit_def char_code_def)
  have "\<not> is_space (CHR ''-'')" by (simp add: is_space_def char_code_def)
  then have t: "trim (int_text i) = int_text i"
    using s(1) is_digit_not_space by (auto intro!: trim_id simp: itext list_all_iff)
  obtain d ds where ds: "s = d # ds" "is_digit d" using s by (cases s) auto
  have "list_all is_digit (take 2 s)" using s(1) set_take_subset by (fastforce simp: list_all_iff)
  then have u: "toLowerCase (take 2 (int_text i)) \<noteq> ''0x''" "toLowerCase (take 2 (int_text i)) \<noteq> ''0o''"
    "toLowerCase (take 2 (int_text i)) \<noteq> ''0b''"
    using nd by (auto simp: itext toLowerCase_digits) (simp_all add: toLowerCase_def lower_char_def char_code_def)
  have w: "takeWhile is_digit s = s" "dropWhile is_digit s = []"
    using s(1) by (simp_all add: takeWhile_eq_all_conv list_all_iff dropWhile_eq_Nil_conv)
  have num: "unsigned_number s = Some (of_nat n)"
    unfolding unsigned_number_def w using s(2,3) by (simp add: Let_def startsWith_def exponent_part_def)
  have "d \<noteq> CHR ''-''" "d \<noteq> CHR ''+''" "d \<noteq> CHR ''I''" using ds nd by auto
  then have sg: "\<not> startsWith s ''-''" "\<not> startsWith s ''+''" "s \<noteq> ''Infinity''" by (simp_all add: ds startsWith_def)
  have clamp: "clamp_number (of_int i) = bigint_number i"
    using assms by (simp add: clamp_number_def bigint_number_def)
  show ?thesis
  proof (cases "i < 0")
    case True
    then have "- (of_nat n) = (of_int i :: rat)" by (simp add: n_def)
    then show ?thesis
      using True t u sg num clamp unfolding js_Number_def itext by (simp add: Let_def startsWith_def)
  next
    case False
    then have "of_nat n = (of_int i :: rat)" by (simp add: n_def)
    then show ?thesis
      using False t u sg num clamp s(2) unfolding js_Number_def itext by (simp add: Let_def)
  qed
qed

lemma js_Number_decimal:
  assumes "n < 2 ^ 53"
  shows "js_Number (decimal n) = Num (of_nat n)"
proof -
  have "(of_nat n :: rat) < of_nat (2 ^ 53)" using assms by (simp only: of_nat_less_iff)
  also have "\<dots> < number_limit" by (simp add: number_limit_def)
  finally have "\<bar>of_int (int n) :: rat\<bar> < number_limit" by simp
  from js_Number_int_text [OF this] assms show ?thesis
    by (simp add: int_text_def bigint_number_def round53_def fl53_exact sgn_if)
qed

end
