(* ===== verification/Narrate_Gate.thy ===== *)
theory Narrate_Gate
  imports Js_Text
begin

text \<open>
  The gate of the narrative layer, \<^verbatim>\<open>packages/obs-collector/src/lib/narrate-gate.ts\<close>: a small predicate
  language (\<open>parsePredicate\<close>), its evaluation against the current and the previous result of an analysis, the
  decision what to do with the narrative (\<open>evaluateGate\<close>) and the signature that stands for the state
  of the world (\<open>computeSignature\<close>).

  Shown: printing and parsing a predicate gives it back; the decision table of the gate, from which no
  narrative is paid for twice; a threshold left empty is read as zero.
\<close>

section \<open>Definitions\<close>

datatype narrative_intent = Call | Reuse | Skip

record analysis_result =
  ar_status :: string
  primaryValue :: "js_number option"
  baselineValue :: "js_number option"
  deltaPct :: "js_number option"
  narrative :: "string option"
  narrativeSignature :: "string option"

datatype comparator = Le | Ge | Eq | Ne | Lt | Gt

definition COMPARATORS :: "(string \<times> comparator) list" where
  "COMPARATORS = [(''<='', Le), (''>='', Ge), (''=='', Eq), (''!='', Ne), (''<'', Lt), (''>'', Gt)]"

datatype gate_atom = StatusChanged | SignatureChanged | Always | Never | DeltaPct comparator rat

definition stripWhitespace :: "string \<Rightarrow> string" where
  "stripWhitespace s = filter (\<lambda>c. \<not> is_space c) s"

text \<open>The loop over the comparators, longest first.\<close>

fun parse_comparison :: "(string \<times> comparator) list \<Rightarrow> string \<Rightarrow> string + gate_atom" where
  "parse_comparison [] r = Inl ''delta_pct: missing comparator (>, >=, <, <=, ==, !=)''"
| "parse_comparison ((op, c) # ops) r =
     (if startsWith r op
      then let numStr = drop (length op) r in
           case js_Number numStr of Num v \<Rightarrow> Inr (DeltaPct c v)
           | _ \<Rightarrow> Inl (''delta_pct: not a number after '' @ op @ '': '' @ [CHR 0x22] @ numStr @ [CHR 0x22])
      else parse_comparison ops r)"

definition parseAtom :: "string \<Rightarrow> string + gate_atom" where
  "parseAtom raw =
     (let t = stripWhitespace raw in
      if t = [] then Inl ''empty atom''
      else if t = ''status_changed'' then Inr StatusChanged
      else if t = ''signature_changed'' then Inr SignatureChanged
      else if t = ''always'' then Inr Always
      else if t = ''never'' then Inr Never
      else if startsWith t ''delta_pct'' then parse_comparison COMPARATORS (drop (length ''delta_pct'') t)
      else Inl (''unknown atom: '' @ [CHR 0x22] @ t @ [CHR 0x22]))"

fun parse_all :: "('a \<Rightarrow> string + 'b) \<Rightarrow> 'a list \<Rightarrow> string + 'b list" where
  "parse_all f [] = Inr []"
| "parse_all f (x # xs) = res_bind (f x) (\<lambda>y. res_bind (parse_all f xs) (\<lambda>ys. Inr (y # ys)))"

definition parsePredicate :: "string \<Rightarrow> string + gate_atom list list" where
  "parsePredicate predicate =
     parse_all (\<lambda>part. parse_all parseAtom (js_split ''&&'' part)) (js_split ''||'' predicate)"

fun compare :: "comparator \<Rightarrow> rat \<Rightarrow> rat \<Rightarrow> bool" where
  "compare Gt a b \<longleftrightarrow> a > b"
| "compare Ge a b \<longleftrightarrow> a \<ge> b"
| "compare Lt a b \<longleftrightarrow> a < b"
| "compare Le a b \<longleftrightarrow> a \<le> b"
| "compare Eq a b \<longleftrightarrow> a = b"
| "compare Ne a b \<longleftrightarrow> a \<noteq> b"

fun evalAtom :: "analysis_result \<Rightarrow> analysis_result option \<Rightarrow> gate_atom \<Rightarrow> bool" where
  "evalAtom current previous Always = True"
| "evalAtom current previous Never = False"
| "evalAtom current previous StatusChanged =
     (case previous of None \<Rightarrow> True | Some p \<Rightarrow> ar_status current \<noteq> ar_status p)"
| "evalAtom current previous SignatureChanged =
     (case previous of None \<Rightarrow> True | Some p \<Rightarrow> narrativeSignature current \<noteq> narrativeSignature p)"
| "evalAtom current previous (DeltaPct op v) =
     (case deltaPct current of Some (Num dp) \<Rightarrow> compare op \<bar>dp\<bar> v | _ \<Rightarrow> False)"

fun evaluateConjunctions :: "gate_atom list list \<Rightarrow> analysis_result \<Rightarrow> analysis_result option \<Rightarrow> bool" where
  "evaluateConjunctions [] current previous = False"
| "evaluateConjunctions (atoms # groups) current previous =
     (if list_all (evalAtom current previous) atoms then True
      else evaluateConjunctions groups current previous)"

definition truthy :: "string option \<Rightarrow> bool" where
  "truthy s = (case s of None \<Rightarrow> False | Some t \<Rightarrow> t \<noteq> [])"

definition evaluateGate :: "string option \<Rightarrow> analysis_result \<Rightarrow> analysis_result option \<Rightarrow> narrative_intent" where
  "evaluateGate predicate current previous =
     (let expr = trim (case predicate of None \<Rightarrow> ''status_changed'' | Some p \<Rightarrow> p) in
      if expr = [] \<or> expr = ''never'' then Skip
      else case previous of
        None \<Rightarrow> Call
      | Some prev \<Rightarrow>
          if truthy (narrative prev) \<and> narrativeSignature current \<noteq> None \<and>
             narrativeSignature current = narrativeSignature prev
          then Reuse
          else case parsePredicate expr of
            Inl _ \<Rightarrow>
              (case parsePredicate ''status_changed'' of Inl _ \<Rightarrow> Skip
               | Inr fallback \<Rightarrow> if evaluateConjunctions fallback current previous then Call
                                 else if truthy (narrative prev) then Reuse else Skip)
          | Inr conjunctions \<Rightarrow>
              if evaluateConjunctions conjunctions current previous then Call
              else if truthy (narrative prev) then Reuse else Skip)"

definition round_value :: "js_number option \<Rightarrow> string" where
  "round_value v =
     (case v of Some (Num x) \<Rightarrow>
        if \<bar>x\<bar> \<ge> 100 then int_text \<lfloor>x + 1 / 2\<rfloor>
        else if \<bar>x\<bar> \<ge> 1 then toFixed 1 x else toFixed 2 x
      | _ \<Rightarrow> ''n'')"

definition computeSignature ::
  "string \<Rightarrow> js_number option \<Rightarrow> js_number option \<Rightarrow> string option \<Rightarrow> string" where
  "computeSignature st primary baseline signatureKey =
     st @ ''|'' @ round_value primary @ ''|'' @ round_value baseline @ ''|'' @
     (case signatureKey of None \<Rightarrow> [] | Some k \<Rightarrow> k)"

section \<open>Printing and parsing a predicate\<close>

fun show_comparator :: "comparator \<Rightarrow> string" where
  "show_comparator Le = ''<=''"
| "show_comparator Ge = ''>=''"
| "show_comparator Eq = ''==''"
| "show_comparator Ne = ''!=''"
| "show_comparator Lt = ''<''"
| "show_comparator Gt = ''>''"

text \<open>Predicates whose thresholds are written as plain numerals.\<close>

datatype shown_atom = Flag gate_atom | Threshold comparator nat

fun atom_of :: "shown_atom \<Rightarrow> gate_atom" where
  "atom_of (Flag a) = a"
| "atom_of (Threshold c n) = DeltaPct c (of_nat n)"

fun flag_text :: "gate_atom \<Rightarrow> string" where
  "flag_text StatusChanged = ''status_changed''"
| "flag_text SignatureChanged = ''signature_changed''"
| "flag_text Always = ''always''"
| "flag_text Never = ''never''"
| "flag_text (DeltaPct c v) = []"

fun show_atom :: "shown_atom \<Rightarrow> string" where
  "show_atom (Flag a) = '' '' @ flag_text a @ '' ''"
| "show_atom (Threshold c n) = '' delta_pct '' @ show_comparator c @ '' '' @ decimal n @ '' ''"

fun printable :: "shown_atom \<Rightarrow> bool" where
  "printable (Flag a) \<longleftrightarrow> flag_text a \<noteq> []"
| "printable (Threshold c n) \<longleftrightarrow> n < 2 ^ 53"

definition show_predicate :: "shown_atom list list \<Rightarrow> string" where
  "show_predicate groups = js_join ''||'' (map (\<lambda>g. js_join ''&&'' (map show_atom g)) groups)"

lemma strip_append [simp]: "stripWhitespace (a @ b) = stripWhitespace a @ stripWhitespace b"
  by (simp add: stripWhitespace_def)

lemma strip_decimal [simp]: "stripWhitespace (decimal n) = decimal n"
  using decimal_digits [of n] is_digit_not_space by (auto simp: stripWhitespace_def list_all_iff filter_id_conv)

lemma parse_threshold:
  assumes "n < 2 ^ 53"
  shows "parse_comparison COMPARATORS (show_comparator c @ decimal n) = Inr (DeltaPct c (of_nat n))"
proof -
  obtain d ds where d: "decimal n = d # ds" "is_digit d" using decimal_digits [of n] by (cases "decimal n") auto
  then have "d \<noteq> CHR ''=''" by (auto simp: is_digit_def char_code_def)
  then have "\<not> startsWith (decimal n) ''=''" by (simp add: startsWith_def d)
  then show ?thesis
    by (cases c) (simp_all add: COMPARATORS_def startsWith_def d js_Number_decimal [OF assms, unfolded d(1)] Let_def)
qed

lemma parse_show_atom: "printable a \<Longrightarrow> parseAtom (show_atom a) = Inr (atom_of a)"
proof (cases a)
  case (Flag x)
  assume "printable a"
  moreover have "parseAtom (show_atom (Flag StatusChanged)) = Inr StatusChanged"
    "parseAtom (show_atom (Flag SignatureChanged)) = Inr SignatureChanged"
    "parseAtom (show_atom (Flag Always)) = Inr Always" "parseAtom (show_atom (Flag Never)) = Inr Never"
    by code_simp+
  ultimately show ?thesis unfolding Flag by (cases x) (simp_all only: atom_of.simps printable.simps flag_text.simps simp_thms)
next
  case (Threshold c n)
  assume "printable a"
  have s: "stripWhitespace '' delta_pct '' = ''delta_pct''" "stripWhitespace '' '' = ''''" by code_simp+
  have c: "stripWhitespace (show_comparator c) = show_comparator c" by (cases c) (simp_all add: stripWhitespace_def is_space_def char_code_def)
  have "stripWhitespace (show_atom a) = ''delta_pct'' @ show_comparator c @ decimal n"
    unfolding Threshold show_atom.simps strip_append s c strip_decimal by simp
  then show ?thesis
    using parse_threshold [of n c] \<open>printable a\<close> by (simp add: parseAtom_def Threshold startsWith_def)
qed

lemma parse_all_map: "\<forall>x \<in> set xs. f (g x) = Inr (h x) \<Longrightarrow> parse_all f (map g xs) = Inr (map h xs)"
  by (induction xs) simp_all

lemma show_atom_chars: "CHR ''|'' \<notin> set (show_atom a)" "CHR ''&'' \<notin> set (show_atom a)"
proof -
  have d: "CHR ''|'' \<notin> set (decimal n)" "CHR ''&'' \<notin> set (decimal n)" for n
    using decimal_digits [of n] by (auto simp: list_all_iff is_digit_def char_code_def)
  show "CHR ''|'' \<notin> set (show_atom a)" "CHR ''&'' \<notin> set (show_atom a)"
  proof (induction a)
    case (Flag x)
    { case 1 show ?case by (cases x) simp_all }
    { case 2 show ?case by (cases x) simp_all }
  next
    case (Threshold c n)
    { case 1 show ?case using d by (cases c) simp_all }
    { case 2 show ?case using d by (cases c) simp_all }
  qed
qed

lemma set_join: "set (js_join sep ss) \<subseteq> set sep \<union> (\<Union>s \<in> set ss. set s)"
  by (induction sep ss rule: js_join.induct) auto

text \<open>The predicate language round-trips: for every non-empty disjunction of non-empty conjunctions, spaced and
  joined with \<^verbatim>\<open>&&\<close> and \<^verbatim>\<open>||\<close>, \<^verbatim>\<open>parsePredicate\<close> returns exactly those groups, so \<^verbatim>\<open>&&\<close> binds tighter.
\<close>

theorem predicate_roundtrip:
  assumes "groups \<noteq> []" and "\<forall>g \<in> set groups. g \<noteq> [] \<and> list_all printable g"
  shows "parsePredicate (show_predicate groups) = Inr (map (map atom_of) groups)"
proof -
  let ?show = "\<lambda>g. js_join ''&&'' (map show_atom g)"
  have bar: "CHR ''|'' \<notin> set (?show g)" for g
    using set_join [of "''&&''" "map show_atom g"] show_atom_chars(1) by auto
  have "js_split ''||'' (show_predicate groups) = map ?show groups"
    unfolding show_predicate_def using assms(1) bar by (intro split_join) auto
  moreover have "parse_all parseAtom (js_split ''&&'' (?show g)) = Inr (map atom_of g)" if "g \<in> set groups" for g
  proof -
    have "js_split ''&&'' (?show g) = map show_atom g"
      using that assms(2) show_atom_chars(2) by (intro split_join) auto
    then show ?thesis
      using that assms(2) parse_show_atom by (auto intro!: parse_all_map simp: list_all_iff)
  qed
  ultimately show ?thesis unfolding parsePredicate_def by (auto intro!: parse_all_map)
qed

theorem predicate_roundtrip_witness:
  "parsePredicate '' status_changed && delta_pct > 20 || signature_changed ''
     = Inr [[StatusChanged, DeltaPct Gt 20], [SignatureChanged]]"
proof -
  have "show_predicate [[Flag StatusChanged, Threshold Gt 20], [Flag SignatureChanged]]
      = '' status_changed && delta_pct > 20 || signature_changed ''" by code_simp
  moreover have "list_all printable [Flag StatusChanged, Threshold Gt 20]" "list_all printable [Flag SignatureChanged]"
    by simp_all
  ultimately show ?thesis
    using predicate_roundtrip [of "[[Flag StatusChanged, Threshold Gt 20], [Flag SignatureChanged]]"] by simp
qed

section \<open>The decision\<close>

lemma evaluateConjunctions_iff:
  "evaluateConjunctions groups cur prev \<longleftrightarrow> list_ex (list_all (evalAtom cur prev)) groups"
  by (induction groups) auto

lemma parse_default: "parsePredicate ''status_changed'' = Inr [[StatusChanged]]"
  by code_simp

definition gate_fires :: "string \<Rightarrow> analysis_result \<Rightarrow> analysis_result option \<Rightarrow> bool" where
  "gate_fires expr cur prev \<longleftrightarrow> (\<exists>g \<in> set (case parsePredicate expr of Inl _ \<Rightarrow> [[StatusChanged]] | Inr gs \<Rightarrow> gs).
     \<forall>a \<in> set g. evalAtom cur prev a)"

text \<open>The gate follows its documented table.  It skips an empty or \<^verbatim>\<open>never\<close> predicate; otherwise the
  first run calls the model; a repeat of a signature that already has a narrative reuses it, whatever the
  predicate says; and else it calls exactly when some conjunction of the predicate (of \<^verbatim>\<open>status_changed\<close>,
  when the predicate does not parse) holds, and reuses the previous narrative if there is one.
\<close>

theorem gate_decision:
  "evaluateGate predicate cur prev =
     (let expr = trim (case predicate of None \<Rightarrow> ''status_changed'' | Some p \<Rightarrow> p);
          kept = (case prev of None \<Rightarrow> False | Some p \<Rightarrow> narrative p \<noteq> None \<and> narrative p \<noteq> Some []);
          same = (case prev of None \<Rightarrow> False | Some p \<Rightarrow>
            narrativeSignature cur \<noteq> None \<and> narrativeSignature cur = narrativeSignature p)
      in if expr = [] \<or> expr = ''never'' then Skip
         else if prev = None then Call
         else if kept \<and> same then Reuse
         else if list_ex (list_all (evalAtom cur prev))
                    (case parsePredicate expr of Inl _ \<Rightarrow> [[StatusChanged]] | Inr gs \<Rightarrow> gs) then Call
         else if kept then Reuse else Skip)"
proof -
  have truthy: "truthy s \<longleftrightarrow> s \<noteq> None \<and> s \<noteq> Some []" for s by (simp add: truthy_def split: option.split)
  show ?thesis
    by (cases prev; cases "parsePredicate (trim (case predicate of None \<Rightarrow> ''status_changed'' | Some p \<Rightarrow> p))")
      (simp_all only: evaluateGate_def Let_def truthy option.case sum.case evaluateConjunctions_iff parse_default
        option.distinct simp_thms if_cancel if_False if_True cong: if_cong)
qed

text \<open>
  A comparison whose number was left out is not an error: \<^verbatim>\<open>delta_pct>\<close> parses as a threshold of zero,
  since \<^verbatim>\<open>Number("")\<close> is 0, and so fires on every change.
\<close>

theorem gate_empty_threshold:
  "parsePredicate ''delta_pct>'' = Inr [[DeltaPct Gt 0]] \<and>
   (evaluateConjunctions [[DeltaPct Gt 0]] (cur\<lparr>deltaPct := Some (Num d)\<rparr>) prev \<longleftrightarrow> d \<noteq> 0)"
proof -
  have "parsePredicate ''delta_pct>'' = Inr [[DeltaPct Gt 0]]" by code_simp
  then show ?thesis by simp
qed

end
