(* ===== verification/Json.thy ===== *)
theory Json
  imports Js_Text "HOL-Library.List_Lexorder" "HOL-Library.Char_ord"
begin

text \<open>
  JSON values as the collector handles them, plain objects with JavaScript's property order, and
  \<^verbatim>\<open>JSON.stringify\<close>.  How a finite number prints (\<^verbatim>\<open>Number::toString\<close>) is a parameter; what is relied on
  is that it is injective and uses only the characters of a numeral.  Shown: printing is injective on values
  without non-finite numbers, so that a printed value can serve as a key.
\<close>

section \<open>Values and objects\<close>

datatype json = JNull | JBool bool | JNum js_number | JStr string | JArr "json list" | JObj "(string \<times> json) list"

text \<open>The array-index keys of an object come first, in ascending order.\<close>

definition is_index :: "string \<Rightarrow> bool" where
  "is_index k \<longleftrightarrow> k \<noteq> [] \<and> list_all is_digit k \<and> (hd k \<noteq> CHR ''0'' \<or> k = ''0'') \<and> digits_val k < 4294967295"

fun insert_index :: "string \<Rightarrow> 'v \<Rightarrow> (string \<times> 'v) list \<Rightarrow> (string \<times> 'v) list" where
  "insert_index k v [] = [(k, v)]"
| "insert_index k v ((k', v') # m) =
     (if is_index k' \<and> digits_val k' < digits_val k then (k', v') # insert_index k v m
      else (k, v) # (k', v') # m)"

text \<open>Defining an own property, as \<^verbatim>\<open>Object.fromEntries\<close> and \<^verbatim>\<open>JSON.parse\<close> do.\<close>

definition obj_define :: "(string \<times> 'v) list \<Rightarrow> string \<Rightarrow> 'v \<Rightarrow> (string \<times> 'v) list" where
  "obj_define m k v =
     (if k \<in> fst ` set m then map_set m k v else if is_index k then insert_index k v m else m @ [(k, v)])"

text \<open>
  Assigning to a property of a plain object, \<^verbatim>\<open>out[k] = v\<close>: the key \<^verbatim>\<open>__proto__\<close> reaches the accessor of
  \<^verbatim>\<open>Object.prototype\<close> and creates no own property.
\<close>

definition obj_assign :: "(string \<times> 'v) list \<Rightarrow> string \<Rightarrow> 'v \<Rightarrow> (string \<times> 'v) list" where
  "obj_assign m k v = (if k = ''__proto__'' then m else obj_define m k v)"

lemma set_insert_index: "set (insert_index k v m) = insert (k, v) (set m)"
  by (induction m) (auto split: if_splits)

lemma keys_insert_index: "fst ` set (insert_index k v m) = insert k (fst ` set m)"
  by (simp add: set_insert_index)

lemma map_get_insert_index: "k \<notin> fst ` set m \<Longrightarrow>
    map_get (insert_index k v m) k' = (if k' = k then Some v else map_get m k')"
  by (induction m) (auto simp: map_get_def)

lemma map_get_define: "map_get (obj_define m k v) k' = (if k' = k then Some v else map_get m k')"
proof (cases "k \<in> fst ` set m \<or> is_index k")
  case True
  then show ?thesis by (auto simp: obj_define_def map_get_set map_get_insert_index)
next
  case False
  then have "map_of m k = None" by (simp add: map_of_eq_None_iff)
  then show ?thesis
    using False by (auto simp: obj_define_def map_get_def map_add_def split: option.split)
qed

lemma wf_insert_index: "k \<notin> fst ` set m \<Longrightarrow> map_wf m \<Longrightarrow> map_wf (insert_index k v m)"
  by (induction m) (auto simp: map_wf_def keys_insert_index)

lemma map_wf_define: "map_wf m \<Longrightarrow> map_wf (obj_define m k v)"
  by (auto simp: obj_define_def map_wf_set wf_insert_index) (simp add: map_wf_def)

lemma keys_define: "fst ` set (obj_define m k v) = insert k (fst ` set m)"
  by (auto simp: obj_define_def set_map_set_keys keys_insert_index)

section \<open>Printing\<close>

definition hex_digit :: "nat \<Rightarrow> char" where
  "hex_digit n = ''0123456789abcdef'' ! n"

definition escape_char :: "char \<Rightarrow> string" where
  "escape_char c =
     (let n = char_code c in
      if c = CHR 0x22 then [CHR 0x5C, CHR 0x22]
      else if n = 92 then [CHR 0x5C, CHR 0x5C]
      else if n = 8 then [CHR 0x5C, CHR ''b'']
      else if n = 9 then [CHR 0x5C, CHR ''t'']
      else if n = 10 then [CHR 0x5C, CHR ''n'']
      else if n = 12 then [CHR 0x5C, CHR ''f'']
      else if n = 13 then [CHR 0x5C, CHR ''r'']
      else if n < 32 then [CHR 0x5C, CHR ''u'', CHR ''0'', CHR ''0'', hex_digit (n div 16), hex_digit (n mod 16)]
      else [c])"

definition quote :: "string \<Rightarrow> string" where
  "quote s = [CHR 0x22] @ concat (map escape_char s) @ [CHR 0x22]"

fun stringify :: "(rat \<Rightarrow> string) \<Rightarrow> json \<Rightarrow> string" where
  "stringify num JNull = ''null''"
| "stringify num (JBool b) = (if b then ''true'' else ''false'')"
| "stringify num (JNum x) = (case x of Num q \<Rightarrow> num q | _ \<Rightarrow> ''null'')"
| "stringify num (JStr s) = quote s"
| "stringify num (JArr xs) = ''['' @ js_join '','' (map (stringify num) xs) @ '']''"
| "stringify num (JObj kvs) = ''{'' @ js_join '','' (map (\<lambda>kv. quote (fst kv) @ '':'' @ stringify num (snd kv)) kvs) @ ''}''"

section \<open>Printing is injective\<close>

text \<open>What the printed string of a value tells when the text goes on: a reader for the escapes.\<close>

definition unescape_simple :: "char \<Rightarrow> char" where
  "unescape_simple c = (if c = CHR ''b'' then CHR 0x08 else if c = CHR ''t'' then CHR 0x09
     else if c = CHR ''n'' then CHR 0x0A else if c = CHR ''f'' then CHR 0x0C else if c = CHR ''r'' then CHR 0x0D else c)"

fun read_string :: "string \<Rightarrow> (string \<times> string) option" where
  "read_string [] = None"
| "read_string (c # cs) =
     (if c = CHR 0x22 then Some ([], cs)
      else if c \<noteq> CHR 0x5C then map_option (\<lambda>(s, r). (c # s, r)) (read_string cs)
      else case cs of
          [] \<Rightarrow> None
        | d # ds \<Rightarrow>
            if d = CHR ''u''
            then map_option (\<lambda>(s, r). (char_of (16 * radix_digit (ds ! 2) + radix_digit (ds ! 3)) # s, r)) (read_string (drop 4 ds))
            else map_option (\<lambda>(s, r). (unescape_simple d # s, r)) (read_string ds))"

lemma radix_hex_digit:
  assumes "n < 16"
  shows "radix_digit (hex_digit n) = n"
proof -
  from assms have "n \<in> {0, 1, 2, 3, 4, 5, 6, 7, 8, 9, 10, 11, 12, 13, 14, 15}" by simp presburger
  then show ?thesis unfolding insert_iff empty_iff
    by (elim disjE) (simp_all add: hex_digit_def radix_digit_def lower_char_def char_code_def Let_def)
qed

lemma char_code_inj: "char_code c = char_code d \<Longrightarrow> c = d"
  by (simp add: char_code_def)

lemma char_codes:
  "char_code (CHR 0x08) = 8" "char_code (CHR 0x09) = 9" "char_code (CHR 0x0A) = 10" "char_code (CHR 0x0C) = 12"
  "char_code (CHR 0x0D) = 13" "char_code (CHR 0x5C) = 92"
  by (simp_all add: char_code_def)

lemma read_escape: "read_string (escape_char c @ r) = map_option (\<lambda>(s, r). (c # s, r)) (read_string r)"
proof (cases "char_code c < 32")
  case True
  have c: "char_of (char_code c) = c" by (simp add: char_code_def)
  show ?thesis
  proof (cases "char_code c \<in> {8, 9, 10, 12, 13}")
    case True
    then have "c = CHR 0x08 \<or> c = CHR 0x09 \<or> c = CHR 0x0A \<or> c = CHR 0x0C \<or> c = CHR 0x0D"
      using char_code_inj char_codes by (metis insertE emptyE)
    then show ?thesis
      by (elim disjE) (simp_all add: escape_char_def unescape_simple_def char_code_def)
  next
    case False
    define h l where "h = hex_digit (char_code c div 16)" and "l = hex_digit (char_code c mod 16)"
    have "c \<noteq> CHR 0x22" using True by (auto simp: char_code_def)
    then have "escape_char c = [CHR 0x5C, CHR ''u'', CHR ''0'', CHR ''0'', h, l]"
      using True False by (simp add: escape_char_def Let_def h_def l_def)
    moreover have "16 * radix_digit h + radix_digit l = char_code c"
      using True by (simp add: h_def l_def radix_hex_digit)
    ultimately show ?thesis
      using c by (simp add: numeral_2_eq_2 numeral_3_eq_3)
  qed
next
  case False
  show ?thesis
  proof (cases "c = CHR 0x22 \<or> char_code c = 92")
    case True
    then have "c = CHR 0x22 \<or> c = CHR 0x5C" using char_code_inj char_codes by metis
    then show ?thesis
      by (elim disjE) (simp_all add: escape_char_def unescape_simple_def char_code_def)
  next
    case other: False
    then have "escape_char c = [c]" using False by (simp add: escape_char_def Let_def)
    moreover have "c \<noteq> CHR 0x5C" using other by (auto simp: char_code_def)
    ultimately show ?thesis using other by simp
  qed
qed

lemma read_quote: "read_string (tl (quote s @ r)) = Some (s, r)"
proof -
  have "read_string (concat (map escape_char s) @ CHR 0x22 # r) = Some (s, r)"
    by (induction s) (simp_all add: read_escape del: read_string.simps(2), simp)
  then show ?thesis by (simp add: quote_def)
qed

lemma quote_inject:
  assumes "quote s @ r = quote s' @ r'"
  shows "s = s' \<and> r = r'"
proof -
  have "Some (s, r) = Some (s', r')"
    using read_quote [of s r] read_quote [of s' r'] unfolding assms by (rule trans [OF sym])
  then show ?thesis by simp
qed

definition number_char :: "char \<Rightarrow> bool" where
  "number_char c \<longleftrightarrow> is_digit c \<or> c \<in> {CHR ''-'', CHR ''+'', CHR ''.'', CHR ''e''}"

text \<open>What is relied on of \<^verbatim>\<open>Number::toString\<close> for finite numbers.\<close>

definition number_text :: "(rat \<Rightarrow> string) \<Rightarrow> bool" where
  "number_text num \<longleftrightarrow> inj num \<and> (\<forall>q. num q \<noteq> [] \<and> list_all number_char (num q))"

fun finite_json :: "json \<Rightarrow> bool" where
  "finite_json (JNum x) = isFinite x"
| "finite_json (JArr xs) = list_all finite_json xs"
| "finite_json (JObj kvs) = list_all (\<lambda>kv. finite_json (snd kv)) kvs"
| "finite_json _ = True"

text \<open>The text after a value: the end, a comma or a closing bracket.\<close>

definition stops :: "string \<Rightarrow> bool" where
  "stops r \<longleftrightarrow> r = [] \<or> hd r \<in> {CHR '','', CHR '']'', CHR ''}''}"

lemma stops_simps [simp]: "stops []" "stops (CHR '','' # r)" "stops (CHR '']'' # r)" "stops (CHR ''}'' # r)"
  by (simp_all add: stops_def)

lemma number_run:
  assumes "list_all number_char a" and "stops r"
  shows "takeWhile number_char (a @ r) = a" and "dropWhile number_char (a @ r) = r"
proof -
  have "\<not> number_char (CHR '','')" "\<not> number_char (CHR '']'')" "\<not> number_char (CHR ''}'')"
    by (simp_all add: number_char_def is_digit_def char_code_def)
  then have "takeWhile number_char r = []" "dropWhile number_char r = r"
    using assms(2) by (cases r; auto simp: stops_def)+
  then show "takeWhile number_char (a @ r) = a" "dropWhile number_char (a @ r) = r"
    using assms(1) by (induction a) simp_all
qed

lemma number_inject:
  assumes "number_text num" and "num q @ r = num q' @ r'" and "stops r" and "stops r'"
  shows "q = q' \<and> r = r'"
proof -
  have a: "list_all number_char (num q)" "list_all number_char (num q')" using assms(1) by (simp_all add: number_text_def)
  have "num q = num q'" "r = r'"
    using number_run [OF a(1) assms(3)] number_run [OF a(2) assms(4)] assms(2) by simp_all
  then show ?thesis using assms(1) by (auto simp: number_text_def dest: injD)
qed

text \<open>Lists printed with commas and a closing bracket, given that the elements are told apart.\<close>

definition separates :: "('a \<Rightarrow> string) \<Rightarrow> 'a \<Rightarrow> 'a \<Rightarrow> bool" where
  "separates f x y \<longleftrightarrow> (\<forall>r r'. stops r \<longrightarrow> stops r' \<longrightarrow> f x @ r = f y @ r' \<longrightarrow> x = y \<and> r = r')"

lemma join_Cons: "js_join sep (x # xs) = x @ (if xs = [] then [] else sep @ js_join sep xs)"
  by (cases xs) simp_all

lemma join_inject:
  assumes "\<forall>x \<in> set xs. \<forall>y \<in> set ys. separates f x y"
    and "\<forall>x \<in> set xs \<union> set ys. f x \<noteq> [] \<and> hd (f x) \<noteq> close" and "close \<in> {CHR '']'', CHR ''}''}"
    and "js_join '','' (map f xs) @ close # r = js_join '','' (map f ys) @ close # r'"
  shows "xs = ys \<and> r = r'"
  using assms
proof (induction xs arbitrary: ys)
  case Nil
  then show ?case
    by (cases ys) (auto simp: join_Cons hd_append Cons_eq_append_conv split: if_splits dest!: sym [of "_ # _" "f _"])
next
  case (Cons x xs)
  show ?case
  proof (cases ys)
    case Nil
    then show ?thesis using Cons.prems by (auto simp: join_Cons append_eq_Cons_conv split: if_splits)
  next
    case ys: (Cons y ys')
    let ?tail = "\<lambda>zs r. (if zs = [] then [] else '','' @ js_join '','' (map f zs)) @ close # r"
    have st: "stops (?tail zs r)" for zs r using Cons.prems(3) by auto
    have eq: "f x @ ?tail xs r = f y @ ?tail ys' r'" using Cons.prems(4) ys by (simp add: join_Cons)
    moreover have "separates f x y" using Cons.prems(1) ys by simp
    ultimately have xy: "x = y" and tl: "?tail xs r = ?tail ys' r'"
      using st unfolding separates_def by blast+
    have "close \<noteq> CHR '',''" using Cons.prems(3) by auto
    then have "js_join '','' (map f xs) @ close # r = js_join '','' (map f ys') @ close # r'"
      using tl by (auto split: if_splits)
    then show ?thesis using Cons.IH [of ys'] Cons.prems xy ys by simp
  qed
qed

text \<open>The first character of a printed value tells its constructor.\<close>

fun json_kind :: "json \<Rightarrow> nat" where
  "json_kind JNull = 0"
| "json_kind (JBool b) = (if b then 1 else 2)"
| "json_kind (JNum x) = 3"
| "json_kind (JStr s) = 4"
| "json_kind (JArr xs) = 5"
| "json_kind (JObj kvs) = 6"

definition char_kind :: "char \<Rightarrow> nat" where
  "char_kind c = (if c = CHR ''n'' then 0 else if c = CHR ''t'' then 1 else if c = CHR ''f'' then 2
     else if number_char c then 3 else if c = CHR 0x22 then 4 else if c = CHR ''['' then 5
     else if c = CHR ''{'' then 6 else 7)"

lemma number_char_others:
  "\<not> number_char (CHR ''n'')" "\<not> number_char (CHR ''t'')" "\<not> number_char (CHR ''f'')" "\<not> number_char (CHR 0x22)"
  "\<not> number_char (CHR ''['')" "\<not> number_char (CHR ''{'')" "\<not> number_char (CHR '']'')" "\<not> number_char (CHR ''}'')"
  by (simp_all add: number_char_def is_digit_def char_code_def)

lemma stringify_hd:
  assumes "number_text num" and "finite_json j"
  shows "stringify num j \<noteq> [] \<and> char_kind (hd (stringify num j)) = json_kind j"
proof (cases j)
  case (JNum x)
  then obtain q where q: "x = Num q" using assms(2) by (cases x) (simp_all add: isFinite_def)
  have "num q \<noteq> []" "\<forall>c \<in> set (num q). number_char c"
    using assms(1) by (simp_all add: number_text_def list_all_iff)
  then have "num q \<noteq> []" "number_char (hd (num q))" by (simp_all add: hd_in_set)
  then show ?thesis using number_char_others by (auto simp: JNum q char_kind_def)
qed (auto simp: quote_def char_kind_def number_char_others)

lemma stringify_not_close:
  assumes "number_text num" and "finite_json j"
  shows "stringify num j \<noteq> [] \<and> hd (stringify num j) \<noteq> CHR '']'' \<and> hd (stringify num j) \<noteq> CHR ''}''"
proof -
  have "json_kind j \<noteq> 7" by (cases j) auto
  moreover have "char_kind (CHR '']'') = 7" "char_kind (CHR ''}'') = 7" by (simp_all add: char_kind_def number_char_others)
  ultimately show ?thesis using stringify_hd [OF assms] by auto
qed

lemma stringify_kind:
  assumes "number_text num" and "finite_json j" and "finite_json j'" and "stringify num j @ r = stringify num j' @ r'"
  shows "json_kind j = json_kind j'"
  using stringify_hd [OF assms(1,2)] stringify_hd [OF assms(1,3)] assms(4) by (metis hd_append2)

lemma separates_array:
  assumes num: "number_text num" and fin: "list_all finite_json xs" "list_all finite_json ys"
    and sep: "\<And>x y. x \<in> set xs \<Longrightarrow> y \<in> set ys \<Longrightarrow> separates (stringify num) x y"
    and e: "stringify num (JArr xs) @ r = stringify num (JArr ys) @ r'"
  shows "xs = ys \<and> r = r'"
proof (rule join_inject)
  show "\<forall>x \<in> set xs. \<forall>y \<in> set ys. separates (stringify num) x y" using sep by blast
  show "\<forall>x \<in> set xs \<union> set ys. stringify num x \<noteq> [] \<and> hd (stringify num x) \<noteq> CHR '']''"
    using stringify_not_close [OF num] fin by (auto simp: list_all_iff)
  show "js_join '','' (map (stringify num) xs) @ CHR '']'' # r = js_join '','' (map (stringify num) ys) @ CHR '']'' # r'"
    using e by simp
qed simp

lemma separates_object:
  assumes sep: "\<And>k v k' v'. (k, v) \<in> set kvs \<Longrightarrow> (k', v') \<in> set kvs' \<Longrightarrow> separates (stringify num) v v'"
    and e: "stringify num (JObj kvs) @ r = stringify num (JObj kvs') @ r'"
  shows "kvs = kvs' \<and> r = r'"
proof (rule join_inject)
  let ?f = "\<lambda>kv. quote (fst kv) @ '':'' @ stringify num (snd kv)"
  show "\<forall>kv \<in> set kvs. \<forall>kv' \<in> set kvs'. separates ?f kv kv'"
    using sep by (force simp: separates_def dest!: quote_inject)
  show "\<forall>kv \<in> set kvs \<union> set kvs'. ?f kv \<noteq> [] \<and> hd (?f kv) \<noteq> CHR ''}''" by (simp add: quote_def)
  show "js_join '','' (map ?f kvs) @ CHR ''}'' # r = js_join '','' (map ?f kvs') @ CHR ''}'' # r'"
    using e by simp
qed simp

lemma stringify_separates:
  assumes num: "number_text num"
  shows "finite_json j \<Longrightarrow> finite_json j' \<Longrightarrow> separates (stringify num) j j'"
proof (induction j arbitrary: j')
  case JNull
  then show ?case using stringify_kind [OF num JNull] by (cases j') (auto simp: separates_def)
next
  case (JBool b)
  then show ?case using stringify_kind [OF num JBool] by (cases j') (auto simp: separates_def split: if_splits)
next
  case (JNum x)
  then obtain q where q: "x = Num q" by (cases x) (simp_all add: isFinite_def)
  show ?case unfolding separates_def
  proof (intro allI impI)
    fix r r' assume st: "stops r" "stops r'" and e: "stringify num (JNum x) @ r = stringify num j' @ r'"
    from stringify_kind [OF num JNum e] obtain x' where "j' = JNum x'" by (cases j') (simp_all split: if_splits)
    with JNum.prems(2) obtain q' where j': "j' = JNum (Num q')" by (cases x') (simp_all add: isFinite_def)
    have "num q @ r = num q' @ r'" using e by (simp add: q j')
    from number_inject [OF num this st] show "JNum x = j' \<and> r = r'" by (simp add: q j')
  qed
next
  case (JStr s)
  show ?case unfolding separates_def
  proof (intro allI impI)
    fix r r' assume e: "stringify num (JStr s) @ r = stringify num j' @ r'"
    from stringify_kind [OF num JStr e] obtain s' where j': "j' = JStr s'" by (cases j') (auto split: if_splits)
    have "quote s @ r = quote s' @ r'" using e by (simp add: j')
    from quote_inject [OF this] show "JStr s = j' \<and> r = r'" by (simp add: j')
  qed
next
  case (JArr xs)
  show ?case unfolding separates_def
  proof (intro allI impI)
    fix r r' assume e: "stringify num (JArr xs) @ r = stringify num j' @ r'"
    from stringify_kind [OF num JArr.prems e] obtain ys where j': "j' = JArr ys" by (cases j') (auto split: if_splits)
    have "xs = ys \<and> r = r'"
    proof (rule separates_array [OF num])
      show "separates (stringify num) x y" if "x \<in> set xs" "y \<in> set ys" for x y
        using JArr j' that by (auto simp: list_all_iff)
    qed (use JArr.prems j' e in simp_all)
    then show "JArr xs = j' \<and> r = r'" using j' by simp
  qed
next
  case (JObj kvs)
  show ?case unfolding separates_def
  proof (intro allI impI)
    fix r r' assume e: "stringify num (JObj kvs) @ r = stringify num j' @ r'"
    from stringify_kind [OF num JObj.prems e] obtain kvs' where j': "j' = JObj kvs'" by (cases j') (auto split: if_splits)
    have "kvs = kvs' \<and> r = r'"
    proof (rule separates_object)
      show "separates (stringify num) v v'" if "(k, v) \<in> set kvs" "(k', v') \<in> set kvs'" for k v k' v'
      proof (rule JObj.IH [OF that(1)])
        show "finite_json v" "finite_json v'" using JObj.prems j' that by (fastforce simp: list_all_iff)+
      qed simp
    qed (use j' e in simp)
    then show "JObj kvs = j' \<and> r = r'" using j' by simp
  qed
qed

lemma stringify_inject:
  assumes "number_text num" and "finite_json j" and "finite_json j'" and "stringify num j = stringify num j'"
  shows "j = j'"
  using stringify_separates [OF assms(1-3)] assms(4) stops_simps(1) unfolding separates_def by blast

section \<open>Conversions\<close>

text \<open>The text of a value where a string is expected (\<^verbatim>\<open>String(v)\<close>); \<open>undefined\<close> for an absent member.\<close>

fun js_String :: "(rat \<Rightarrow> string) \<Rightarrow> json \<Rightarrow> string" where
  "js_String num (JStr s) = s"
| "js_String num (JBool b) = (if b then ''true'' else ''false'')"
| "js_String num (JNum x) = (case x of Num q \<Rightarrow> num q | NaN \<Rightarrow> ''NaN'' | Infinity p \<Rightarrow> if p then ''Infinity'' else ''-Infinity'')"
| "js_String num JNull = ''null''"
| "js_String num (JArr xs) = js_join '','' (map (\<lambda>x. if x = JNull then [] else js_String num x) xs)"
| "js_String num (JObj kvs) = ''[object Object]''"

definition member_of :: "json \<Rightarrow> string \<Rightarrow> json option" where
  "member_of j k = (case j of JObj kvs \<Rightarrow> map_get kvs k | _ \<Rightarrow> None)"

definition member_text :: "(rat \<Rightarrow> string) \<Rightarrow> json option \<Rightarrow> string" where
  "member_text num v = (case v of None \<Rightarrow> ''undefined'' | Some j \<Rightarrow> js_String num j)"

definition js_truthy :: "json option \<Rightarrow> bool" where
  "js_truthy v = (case v of None \<Rightarrow> False | Some j \<Rightarrow>
     (case j of JNull \<Rightarrow> False | JBool b \<Rightarrow> b | JNum x \<Rightarrow> x \<noteq> Num 0 \<and> x \<noteq> NaN | JStr s \<Rightarrow> s \<noteq> [] | _ \<Rightarrow> True))"

end
