(* ===== verification/Otlp_Body.thy ===== *)
theory Otlp_Body
  imports Json
begin

text \<open>
  Reading an OTLP request body, \<^verbatim>\<open>packages/obs-collector/src/otlp/decode/body.ts\<close>, with the byte helpers
  \<open>bytesToHex\<close> and \<open>bytesToBase64\<close> of \<^verbatim>\<open>decode/values.ts\<close>: content negotiation, decompression and the rewriting of
  hexadecimal ids in OTLP/JSON.  The decompressor, the text decoder and \<^verbatim>\<open>JSON.parse\<close> are
  parameters; an exception that is not an \<^verbatim>\<open>OtlpDecodeError\<close> is \<open>Foreign\<close>.

  Shown: an id written in hexadecimal reaches the decoder as the base64 text of exactly its bytes, so
  the JSON and the binary encoding of a request give the same ids; the rewriting is idempotent; which
  requests are refused, and that malformed gzip is not among the refusals the code documents.
\<close>

unbundle bit_operations_syntax

section \<open>Definitions\<close>

datatype otlp_wire_format = WireJson | WireProtobuf

record read_body_result =
  body_bytes :: "byte list"
  body_format :: otlp_wire_format

datatype body_error = OtlpDecodeError string nat | Foreign string

definition js_includes :: "string \<Rightarrow> string \<Rightarrow> bool" where
  "js_includes s p \<longleftrightarrow> (\<exists>i \<in> {0..length s}. startsWith (drop i s) p)"

definition detectWireFormat :: "string \<Rightarrow> body_error + otlp_wire_format" where
  "detectWireFormat contentType =
     (if js_includes contentType ''application/x-protobuf'' then Inr WireProtobuf
      else if js_includes contentType ''application/json'' then Inr WireJson
      else Inl (OtlpDecodeError (''Unsupported content-type: '' @
             (if contentType = [] then ''(missing)'' else contentType)) 415))"

text \<open>The \<open>gunzip\<close> parameter is the platform's \<^verbatim>\<open>DecompressionStream\<close>: \<open>None\<close> when the stream is not valid gzip.\<close>

definition gunzip_body :: "(byte list \<Rightarrow> byte list option) \<Rightarrow> byte list \<Rightarrow> body_error + byte list" where
  "gunzip_body gunzip input =
     (case gunzip input of None \<Rightarrow> Inl (Foreign ''TypeError'') | Some out \<Rightarrow> Inr out)"

definition header_or_empty :: "(string \<Rightarrow> string option) \<Rightarrow> string \<Rightarrow> string" where
  "header_or_empty header name = toLowerCase (case header name of None \<Rightarrow> [] | Some v \<Rightarrow> v)"

definition readOtlpBody ::
  "(byte list \<Rightarrow> byte list option) \<Rightarrow> (string \<Rightarrow> string option) \<Rightarrow> byte list \<Rightarrow> body_error + read_body_result" where
  "readOtlpBody gunzip header body =
     res_bind (detectWireFormat (header_or_empty header ''content-type'')) (\<lambda>wireFormat.
       let encoding = header_or_empty header ''content-encoding'' in
       res_bind (if encoding = ''gzip'' then gunzip_body gunzip body
                 else if encoding \<noteq> [] \<and> encoding \<noteq> ''identity''
                 then Inl (OtlpDecodeError (''Unsupported content-encoding: '' @ encoding) 415)
                 else Inr body) (\<lambda>bytes.
         Inr \<lparr>body_bytes = bytes, body_format = wireFormat\<rparr>))"

definition isHex :: "string \<Rightarrow> nat \<Rightarrow> bool" where
  "isHex s n \<longleftrightarrow> length s = n \<and> s \<noteq> [] \<and> list_all is_hex_char s"

definition isTimestampKey :: "string \<Rightarrow> bool" where
  "isTimestampKey key \<longleftrightarrow> key = ''timeUnixNano'' \<or> key = ''observedTimeUnixNano'' \<or>
     key = ''startTimeUnixNano'' \<or> key = ''endTimeUnixNano''"

definition isUint64String :: "string \<Rightarrow> bool" where
  "isUint64String s \<longleftrightarrow> s \<noteq> [] \<and> list_all is_digit s"

definition B64 :: string where
  "B64 = ''ABCDEFGHIJKLMNOPQRSTUVWXYZabcdefghijklmnopqrstuvwxyz0123456789+/''"

text \<open>\<^verbatim>\<open>btoa\<close> on the code units of a binary string.\<close>

fun btoa :: "nat list \<Rightarrow> string" where
  "btoa [] = []"
| "btoa [a] = [B64 ! (a div 4), B64 ! (a mod 4 * 16), CHR ''='', CHR ''='']"
| "btoa [a, b] = [B64 ! (a div 4), B64 ! (a mod 4 * 16 + b div 16), B64 ! (b mod 16 * 4), CHR ''='']"
| "btoa (a # b # c # r) =
     [B64 ! (a div 4), B64 ! (a mod 4 * 16 + b div 16), B64 ! (b mod 16 * 4 + c div 64), B64 ! (c mod 64)] @ btoa r"

text \<open>The first loop of \<^verbatim>\<open>hexToBase64\<close>; \<^verbatim>\<open>parseInt\<close> of two hexadecimal digits.\<close>

fun hex_bytes :: "string \<Rightarrow> byte list" where
  "hex_bytes (h # l # r) = of_nat (16 * radix_digit h + radix_digit l) # hex_bytes r"
| "hex_bytes _ = []"

definition bytesToBase64 :: "byte list \<Rightarrow> string" where
  "bytesToBase64 bytes = btoa (map unat bytes)"

definition hexToBase64 :: "string \<Rightarrow> string" where
  "hexToBase64 hex = btoa (map unat (hex_bytes hex))"

definition bytesToHex :: "byte list \<Rightarrow> string" where
  "bytesToHex bytes = foldl (\<lambda>out b. out @ [hex_digit (unat (drop_bit 4 b)), hex_digit (unat (b AND 0xF))]) [] bytes"

text \<open>What happens to a field whose value is a string: kept, replaced, or deleted.\<close>

definition rewrite_string :: "string \<Rightarrow> string \<Rightarrow> (string \<times> json) list" where
  "rewrite_string key v =
     (if (key = ''traceId'' \<or> key = ''trace_id'') \<and> isHex v 32 then [(key, JStr (hexToBase64 v))]
      else if (key = ''spanId'' \<or> key = ''span_id'' \<or> key = ''parentSpanId'' \<or> key = ''parent_span_id'') \<and> isHex v 16
      then [(key, JStr (hexToBase64 v))]
      else if isTimestampKey key \<and> \<not> isUint64String v then []
      else [(key, JStr v)])"

fun is_number :: "json \<Rightarrow> bool" where
  "is_number (JNum x) = True"
| "is_number _ = False"

fun rewriteHexIdsToBase64 :: "json \<Rightarrow> json" where
  "rewriteHexIdsToBase64 (JArr xs) = JArr (map rewriteHexIdsToBase64 xs)"
| "rewriteHexIdsToBase64 (JObj kvs) = JObj (concat (map (\<lambda>kv.
     case snd kv of JStr s \<Rightarrow> rewrite_string (fst kv) s
     | v \<Rightarrow> if isTimestampKey (fst kv) \<and> \<not> is_number v then [] else [(fst kv, rewriteHexIdsToBase64 (snd kv))]) kvs))"
| "rewriteHexIdsToBase64 v = v"

definition decodeJsonBody ::
  "(byte list \<Rightarrow> string) \<Rightarrow> (string \<Rightarrow> json option) \<Rightarrow> byte list \<Rightarrow> json option" where
  "decodeJsonBody dec json_parse bytes =
     (let text = dec bytes in
      if text = [] then Some (JObj [])
      else map_option rewriteHexIdsToBase64 (json_parse text))"

section \<open>Hexadecimal ids\<close>

lemma unat_byte_lt: "unat (b :: byte) < 256"
  by (rule order_less_le_trans [OF unsigned_less]) simp

lemma bytesToHex_concat: "bytesToHex bs = concat (map (\<lambda>b. [hex_digit (unat b div 16), hex_digit (unat b mod 16)]) bs)"
proof -
  have low: "unat (b AND 0xF) = unat b mod 16" for b :: byte
  proof -
    have "unat (b AND 0xF) = unat (take_bit 4 b)"
      by (simp only: take_bit_eq_mask mask_eq_exp_minus_1) simp
    also have "\<dots> = take_bit 4 (unat b)" by (rule unsigned_take_bit_eq)
    finally show ?thesis by (simp add: take_bit_eq_mod)
  qed
  have high: "unat (drop_bit 4 b) = unat b div 16" for b :: byte
  proof -
    have "unat (drop_bit 4 b) = drop_bit 4 (unat b)" 
      using unat_byte_lt [of b] by (simp add: unsigned_drop_bit_eq take_bit_nat_eq_self)
    then show ?thesis by (simp add: drop_bit_eq_div)
  qed
  have "foldl (\<lambda>out b. out @ f b) acc bs = acc @ concat (map f bs)" for acc and f :: "byte \<Rightarrow> string"
    by (induction bs arbitrary: acc) simp_all
  then show ?thesis by (simp add: bytesToHex_def low high)
qed

lemma length_bytesToHex [simp]: "length (bytesToHex bs) = 2 * length bs"
  by (simp add: bytesToHex_concat length_concat comp_def sum_list_triv)

lemma char_code_hex_digit:
  assumes "n < 16"
  shows "char_code (hex_digit n) = (if n < 10 then 48 + n else 87 + n)"
proof -
  from assms have "n \<in> {0, 1, 2, 3, 4, 5, 6, 7, 8, 9, 10, 11, 12, 13, 14, 15}" by simp presburger
  then show ?thesis unfolding insert_iff empty_iff by (elim disjE) (simp_all add: hex_digit_def char_code_def)
qed

lemma hex_digit_radix:
  assumes "is_hex_char c"
  shows "radix_digit c < 16" and "hex_digit (radix_digit c) = lower_char c"
proof -
  let ?m = "char_code (lower_char c)"
  have m: "(48 \<le> ?m \<and> ?m \<le> 57) \<or> (97 \<le> ?m \<and> ?m \<le> 102)"
    using assms char_code_lt [of c] by (auto simp: is_hex_char_def lower_char_def Let_def char_code_of)
  then show r: "radix_digit c < 16" by (auto simp: radix_digit_def Let_def)
  have "char_code (hex_digit (radix_digit c)) = ?m"
    unfolding char_code_hex_digit [OF r] using m by (auto simp: radix_digit_def Let_def)
  then show "hex_digit (radix_digit c) = lower_char c" by (rule char_code_inj)
qed

lemma hex_digit_lower:
  assumes "n < 16"
  shows "is_hex_char (hex_digit n) \<and> lower_char (hex_digit n) = hex_digit n"
  using assms by (auto simp: is_hex_char_def lower_char_def char_code_hex_digit Let_def)

lemma bytesToHex_lower: "list_all (\<lambda>c. is_hex_char c \<and> lower_char c = c) (bytesToHex bs)"
proof -
  have "unat b div 16 < 16" "unat b mod 16 < 16" for b :: byte
    using unat_byte_lt [of b] by simp_all
  then show ?thesis by (auto simp: bytesToHex_concat list_all_iff hex_digit_lower)
qed

lemma hex_bytes_inverse:
  "even (length h) \<Longrightarrow> list_all is_hex_char h \<Longrightarrow> bytesToHex (hex_bytes h) = toLowerCase h"
proof (induction h rule: hex_bytes.induct)
  case (1 a b r)
  then have "radix_digit a < 16" "radix_digit b < 16" by (simp_all add: hex_digit_radix)
  then have "16 * radix_digit a + radix_digit b < 256" by linarith
  then have "unat (of_nat (16 * radix_digit a + radix_digit b) :: byte) = 16 * radix_digit a + radix_digit b"
    by (simp add: unat_of_nat del: of_nat_add of_nat_mult)
  then show ?case
    using 1 by (simp add: bytesToHex_concat toLowerCase_def hex_digit_radix)
qed (auto simp: bytesToHex_def toLowerCase_def)

lemma length_hex_bytes: "length (hex_bytes h) = length h div 2"
  by (induction h rule: hex_bytes.induct) auto

text \<open>A trace or span id that arrives as hexadecimal text in OTLP/JSON is handed on as the base64 text of
  exactly the bytes it denotes: those bytes print back, as the binary encoding's ids do, to the lower-case
  form of the id, half as many as there were digits.
\<close>

theorem hex_id_preserved:
  assumes "isHex h (2 * n)"
  shows "hexToBase64 h = bytesToBase64 (hex_bytes h) \<and> bytesToHex (hex_bytes h) = toLowerCase h \<and>
    length (hex_bytes h) = n"
  using assms by (simp add: isHex_def hexToBase64_def bytesToBase64_def hex_bytes_inverse length_hex_bytes)

theorem hex_id_preserved_witness:
  "bytesToHex (hex_bytes ''00F067AA0BA902B7'') = toLowerCase ''00F067AA0BA902B7''"
proof -
  have "isHex ''00F067AA0BA902B7'' (2 * 8)" by (simp add: isHex_def is_hex_char_def char_code_def Let_def)
  from hex_id_preserved [OF this] show ?thesis by simp
qed

section \<open>The rewriting is idempotent\<close>

lemma length_btoa: "length (btoa xs) = 4 * ((length xs + 2) div 3)"
proof (induction xs rule: btoa.induct)
  case (4 a b c r)
  have "(length (a # b # c # r) + 2) div 3 = Suc ((length r + 2) div 3)" by simp
  then show ?case using 4 by (simp del: length_Cons)
qed simp_all

lemma length_hexToBase64: "length (hexToBase64 h) = 4 * ((length h div 2 + 2) div 3)"
  by (simp add: hexToBase64_def length_btoa length_hex_bytes)

lemma isHex_base64:
  "isHex v 32 \<Longrightarrow> \<not> isHex (hexToBase64 v) 32" "isHex v 16 \<Longrightarrow> \<not> isHex (hexToBase64 v) 16"
  "isHex v 32 \<Longrightarrow> \<not> isHex (hexToBase64 v) 16" "isHex v 16 \<Longrightarrow> \<not> isHex (hexToBase64 v) 32"
  by (auto simp: isHex_def length_hexToBase64)

lemma rewrite_string_stable:
  "\<forall>kv \<in> set (rewrite_string k s). fst kv = k \<and> (\<exists>t. snd kv = JStr t \<and> rewrite_string k t = [(k, JStr t)])"
  using isHex_base64 [of s]
  by (auto simp: rewrite_string_def isTimestampKey_def split: if_splits)

lemma rewrite_kind:
  "is_number (rewriteHexIdsToBase64 v) = is_number v"
  "(\<forall>s. v \<noteq> JStr s) \<Longrightarrow> rewriteHexIdsToBase64 v \<noteq> JStr t"
  by (cases v; simp)+

abbreviation rewrite_field :: "string \<times> json \<Rightarrow> (string \<times> json) list" where
  "rewrite_field kv \<equiv> (case snd kv of JStr s \<Rightarrow> rewrite_string (fst kv) s
     | v \<Rightarrow> if isTimestampKey (fst kv) \<and> \<not> is_number v then [] else [(fst kv, rewriteHexIdsToBase64 (snd kv))])"

lemma rewrite_field_stable:
  assumes "rewriteHexIdsToBase64 (rewriteHexIdsToBase64 v) = rewriteHexIdsToBase64 v" and "kv \<in> set (rewrite_field (k, v))"
  shows "rewrite_field kv = [kv]"
proof (cases "\<exists>s. v = JStr s")
  case True
  then show ?thesis using assms(2) rewrite_string_stable [of k] by (cases kv) fastforce
next
  case False
  then have kv: "kv = (k, rewriteHexIdsToBase64 v)" "\<not> (isTimestampKey k \<and> \<not> is_number v)"
    using assms(2) by (cases v; auto split: if_splits)+
  have "rewriteHexIdsToBase64 v \<noteq> JStr t" for t using False rewrite_kind(2) [of v] by blast
  then have "rewrite_field kv = (if isTimestampKey k \<and> \<not> is_number (rewriteHexIdsToBase64 v) then []
      else [(k, rewriteHexIdsToBase64 (rewriteHexIdsToBase64 v))])"
    by (simp add: kv split: json.split)
  then show ?thesis using kv assms(1) rewrite_kind(1) by simp
qed

lemma concat_map_stable: "(\<And>x y. x \<in> set xs \<Longrightarrow> y \<in> set (f x) \<Longrightarrow> f y = [y]) \<Longrightarrow>
    concat (map f (concat (map f xs))) = concat (map f xs)"
proof -
  have one: "concat (map f ys) = ys" if "\<forall>y \<in> set ys. f y = [y]" for ys
    using that by (induction ys) simp_all
  show "(\<And>x y. x \<in> set xs \<Longrightarrow> y \<in> set (f x) \<Longrightarrow> f y = [y]) \<Longrightarrow> concat (map f (concat (map f xs))) = concat (map f xs)"
    by (rule one) auto
qed

text \<open>Rewriting a parsed OTLP/JSON body twice gives the same as once: no rewritten id looks like a hexadecimal
  id again, and a timestamp field that survived is kept.
\<close>

theorem rewrite_ids_idempotent:
  "rewriteHexIdsToBase64 (rewriteHexIdsToBase64 j) = rewriteHexIdsToBase64 j"
proof (induction j)
  case (JObj kvs)
  have "concat (map rewrite_field (concat (map rewrite_field kvs))) = concat (map rewrite_field kvs)"
  proof (rule concat_map_stable)
    fix x y assume x: "x \<in> set kvs" and y: "y \<in> set (rewrite_field x)"
    obtain k v where kv: "x = (k, v)" by (cases x)
    have "rewriteHexIdsToBase64 (rewriteHexIdsToBase64 v) = rewriteHexIdsToBase64 v"
      by (rule JObj [of x v]) (use x kv in simp_all)
    then show "rewrite_field y = [y]" by (rule rewrite_field_stable [OF _ y [unfolded kv]])
  qed
  then show ?case by simp
qed simp_all

section \<open>Refused requests\<close>

text \<open>A gzip body that does not decompress is not refused with the 400 the code documents: whatever the
  content type, \<^verbatim>\<open>readOtlpBody\<close> lets the platform's own exception escape.
\<close>

theorem malformed_gzip_escapes:
  assumes "gunzip body = None" and "header ''content-encoding'' = Some ''gzip''"
    and "header ''content-type'' = Some ''application/x-protobuf''"
  shows "readOtlpBody gunzip header body = Inl (Foreign ''TypeError'')"
proof -
  have "header_or_empty header ''content-encoding'' = ''gzip''"
    "header_or_empty header ''content-type'' = ''application/x-protobuf''"
    by (simp_all add: header_or_empty_def assms toLowerCase_def lower_char_def char_code_def Let_def)
  moreover have "js_includes ''application/x-protobuf'' ''application/x-protobuf''"
    unfolding js_includes_def by (intro bexI [of _ 0]) (simp_all add: startsWith_def)
  ultimately show ?thesis using assms(1) by (simp add: readOtlpBody_def detectWireFormat_def gunzip_body_def)
qed

theorem malformed_gzip_escapes_witness:
  "readOtlpBody (\<lambda>_. None) [''content-encoding'' \<mapsto> ''gzip'', ''content-type'' \<mapsto> ''application/x-protobuf''] [1, 2, 3]
     = Inl (Foreign ''TypeError'')"
  by (rule malformed_gzip_escapes) simp_all

end
