(* ===== verification/Otlp_Values.thy ===== *)
theory Otlp_Values
  imports Otlp_Body
begin

text \<open>
  Attribute values on their way into the collector: \<^verbatim>\<open>packages/obs-collector/src/otlp/decode/values.ts\<close> (the decoded
  protobuf messages) and the conversions of \<^verbatim>\<open>packages/obs-collector/src/lib/otlp.ts\<close> (the older plain-object
  shape).  \<open>any_value\<close> is the generated message, \<open>otlp_any_value\<close> the older shape.  Shown: the direct conversion to
  JSON and the one through the older shape agree on every value without a \<^verbatim>\<open>__proto__\<close> key, and the
  direct one loses such a key.
\<close>

section \<open>Protobuf values\<close>

datatype any_value =
    StringValue string | BoolValue bool | IntValue int | DoubleValue js_number | BytesValue "byte list"
  | ArrayValue "any_value list" | KvlistValue "(string \<times> any_value option) list" | NoValue

type_synonym key_value = "string \<times> any_value option"

definition extractServiceName :: "key_value list option \<Rightarrow> string option" where
  "extractServiceName attrs =
     (case attrs of None \<Rightarrow> None
      | Some as \<Rightarrow> (case find (\<lambda>a. fst a = ''service.name'') as of
          Some (_, Some (StringValue s)) \<Rightarrow> Some s | _ \<Rightarrow> None))"

definition upper_char :: "char \<Rightarrow> char" where
  "upper_char c = (let n = char_code c in
     if (97 \<le> n \<and> n \<le> 122) \<or> (224 \<le> n \<and> n \<le> 254 \<and> n \<noteq> 247) then char_of (n - 32) else c)"

definition severityFromNumber :: "int \<Rightarrow> string \<Rightarrow> string" where
  "severityFromNumber n t =
     (if n \<ge> 21 then ''FATAL'' else if n \<ge> 17 then ''ERROR'' else if n \<ge> 13 then ''WARN''
      else if n \<ge> 9 then ''INFO'' else if n \<ge> 5 then ''DEBUG'' else if n \<ge> 1 then ''DEBUG''
      else let upper = map upper_char t in
           if upper \<in> {''FATAL'', ''ERROR'', ''WARN'', ''INFO'', ''DEBUG''} then upper else ''INFO'')"

section \<open>The older shape\<close>

datatype otlp_any_value =
    OString string | OBool bool | OInt string | ODouble js_number
  | OArray "otlp_any_value list" | OKvlist "(string \<times> otlp_any_value option) list" | OEmpty

type_synonym otlp_key_value = "string \<times> otlp_any_value option"

fun adaptAnyValue :: "any_value \<Rightarrow> otlp_any_value" where
  "adaptAnyValue (StringValue s) = OString s"
| "adaptAnyValue (BoolValue b) = OBool b"
| "adaptAnyValue (IntValue i) = OInt (int_text i)"
| "adaptAnyValue (DoubleValue d) = ODouble d"
| "adaptAnyValue (ArrayValue vs) = OArray (map adaptAnyValue vs)"
| "adaptAnyValue (KvlistValue kvs) = OKvlist (map (\<lambda>kv. (fst kv, map_option adaptAnyValue (snd kv))) kvs)"
| "adaptAnyValue (BytesValue bs) = OString (bytesToBase64 bs)"
| "adaptAnyValue NoValue = OEmpty"

definition adaptKeyValue :: "key_value \<Rightarrow> otlp_key_value" where
  "adaptKeyValue kv = (fst kv, map_option adaptAnyValue (snd kv))"

section \<open>Conversion to JSON\<close>

text \<open>\<^verbatim>\<open>anyValueToJson\<close> and \<^verbatim>\<open>keyValuesToRecord\<close> of \<^verbatim>\<open>values.ts\<close>: the record is filled by assignment.\<close>

fun anyValueToJson :: "any_value \<Rightarrow> json" where
  "anyValueToJson (StringValue s) = JStr s"
| "anyValueToJson (BoolValue b) = JBool b"
| "anyValueToJson (IntValue i) = JNum (bigint_number i)"
| "anyValueToJson (DoubleValue d) = JNum d"
| "anyValueToJson (BytesValue bs) = JStr (bytesToBase64 bs)"
| "anyValueToJson (ArrayValue vs) = JArr (map anyValueToJson vs)"
| "anyValueToJson (KvlistValue kvs) =
     JObj (foldl (\<lambda>out kv. obj_assign out (fst kv) (snd kv)) []
       (map (\<lambda>kv. (fst kv, case snd kv of None \<Rightarrow> JNull | Some v \<Rightarrow> anyValueToJson v)) kvs))"
| "anyValueToJson NoValue = JNull"

definition keyValuesToRecord :: "key_value list \<Rightarrow> (string \<times> json) list" where
  "keyValuesToRecord kvs =
     foldl (\<lambda>out kv. obj_assign out (fst kv) (case snd kv of None \<Rightarrow> JNull | Some v \<Rightarrow> anyValueToJson v)) [] kvs"

text \<open>\<^verbatim>\<open>anyValueToString\<close>: how a number prints is the parameter of \<open>stringify\<close>.\<close>

fun otlp_any_json :: "otlp_any_value \<Rightarrow> json" where
  "otlp_any_json (OString s) = JObj [(''stringValue'', JStr s)]"
| "otlp_any_json (OBool b) = JObj [(''boolValue'', JBool b)]"
| "otlp_any_json (OInt s) = JObj [(''intValue'', JStr s)]"
| "otlp_any_json (ODouble d) = JObj [(''doubleValue'', JNum d)]"
| "otlp_any_json (OArray vs) = JObj [(''arrayValue'', JObj [(''values'', JArr (map otlp_any_json vs))])]"
| "otlp_any_json (OKvlist kvs) = JObj [(''kvlistValue'', JObj [(''values'', JArr (map (\<lambda>kv.
     JObj ((''key'', JStr (fst kv)) # (case snd kv of None \<Rightarrow> [] | Some v \<Rightarrow> [(''value'', otlp_any_json v)]))) kvs))])]"
| "otlp_any_json OEmpty = JObj []"

definition number_string :: "(rat \<Rightarrow> string) \<Rightarrow> js_number \<Rightarrow> string" where
  "number_string num x = (case x of Num q \<Rightarrow> num q | NaN \<Rightarrow> ''NaN''
     | Infinity pos \<Rightarrow> if pos then ''Infinity'' else ''-Infinity'')"

definition anyValueToString :: "(rat \<Rightarrow> string) \<Rightarrow> any_value option \<Rightarrow> string" where
  "anyValueToString num v =
     (case v of None \<Rightarrow> []
      | Some (StringValue s) \<Rightarrow> s
      | Some (BoolValue b) \<Rightarrow> (if b then ''true'' else ''false'')
      | Some (IntValue i) \<Rightarrow> int_text i
      | Some (DoubleValue d) \<Rightarrow> number_string num d
      | Some (BytesValue bs) \<Rightarrow> bytesToBase64 bs
      | Some (ArrayValue vs) \<Rightarrow> stringify num (otlp_any_json (adaptAnyValue (ArrayValue vs)))
      | Some (KvlistValue kvs) \<Rightarrow> stringify num (otlp_any_json (adaptAnyValue (KvlistValue kvs)))
      | Some NoValue \<Rightarrow> [])"

text \<open>
  The functions of the same names in \<^verbatim>\<open>lib/otlp.ts\<close>, on the older shape: the record comes from
  \<^verbatim>\<open>Object.fromEntries\<close>.
\<close>

fun legacy_anyValueToJson :: "otlp_any_value \<Rightarrow> json" where
  "legacy_anyValueToJson (OString s) = JStr s"
| "legacy_anyValueToJson (OBool b) = JBool b"
| "legacy_anyValueToJson (ODouble d) = JNum d"
| "legacy_anyValueToJson (OInt s) = (case js_Number s of Num q \<Rightarrow> JNum (Num q) | _ \<Rightarrow> JStr s)"
| "legacy_anyValueToJson (OArray vs) = JArr (map legacy_anyValueToJson vs)"
| "legacy_anyValueToJson (OKvlist kvs) =
     JObj (foldl (\<lambda>out kv. obj_define out (fst kv) (snd kv)) []
       (map (\<lambda>kv. (fst kv, case snd kv of None \<Rightarrow> JNull | Some v \<Rightarrow> legacy_anyValueToJson v)) kvs))"
| "legacy_anyValueToJson OEmpty = JNull"

definition legacy_keyValuesToRecord :: "otlp_key_value list \<Rightarrow> (string \<times> json) list" where
  "legacy_keyValuesToRecord kvs =
     foldl (\<lambda>out kv. obj_define out (fst kv) (case snd kv of None \<Rightarrow> JNull | Some v \<Rightarrow> legacy_anyValueToJson v)) [] kvs"

section \<open>The two conversions agree\<close>

text \<open>Values a protobuf message can hold: 64-bit integers; and no \<^verbatim>\<open>__proto__\<close> key at any depth.\<close>

fun value_ok :: "any_value \<Rightarrow> bool" where
  "value_ok (IntValue i) \<longleftrightarrow> - (2 ^ 63) \<le> i \<and> i < 2 ^ 63"
| "value_ok (ArrayValue vs) \<longleftrightarrow> list_all value_ok vs"
| "value_ok (KvlistValue kvs) \<longleftrightarrow> list_all (\<lambda>kv. fst kv \<noteq> ''__proto__'' \<and>
     (case snd kv of None \<Rightarrow> True | Some v \<Rightarrow> value_ok v)) kvs"
| "value_ok _ = True"

definition record_ok :: "key_value list \<Rightarrow> bool" where
  "record_ok kvs \<longleftrightarrow> list_all (\<lambda>kv. fst kv \<noteq> ''__proto__'' \<and> (case snd kv of None \<Rightarrow> True | Some v \<Rightarrow> value_ok v)) kvs"

lemma int64_below_limit: "- (2 ^ 63) \<le> i \<Longrightarrow> i < 2 ^ 63 \<Longrightarrow> \<bar>of_int i :: rat\<bar> < number_limit"
proof -
  assume i: "- (2 ^ 63) \<le> i" "i < 2 ^ 63"
  then have "\<bar>i\<bar> \<le> 2 ^ 63" by linarith
  then have "(of_int \<bar>i\<bar> :: rat) \<le> of_int (2 ^ 63)" by (simp only: of_int_le_iff)
  also have "\<dots> < number_limit" by (simp add: number_limit_def)
  finally show ?thesis by simp
qed

lemma foldl_obj_agree:
  assumes "\<And>kv. kv \<in> set kvs \<Longrightarrow> fst kv \<noteq> ''__proto__''"
  shows "foldl (\<lambda>out kv. obj_define out (fst kv) (f kv)) acc kvs = foldl (\<lambda>out kv. obj_assign out (fst kv) (f kv)) acc kvs"
  using assms by (induction kvs arbitrary: acc) (simp_all add: obj_assign_def)

lemma adapt_agrees: "value_ok v \<Longrightarrow> legacy_anyValueToJson (adaptAnyValue v) = anyValueToJson v"
proof (induction v rule: anyValueToJson.induct)
  case (3 i)
  then show ?case using js_Number_int_text [OF int64_below_limit, of i] by (simp add: bigint_number_def)
next
  case (6 vs)
  then show ?case by (auto simp: list_all_iff)
next
  case (7 kvs)
  let ?f = "\<lambda>kv. (fst kv, case snd kv of None \<Rightarrow> JNull | Some v \<Rightarrow> anyValueToJson v)"
  let ?g = "\<lambda>kv. (fst kv, case snd kv of None \<Rightarrow> JNull | Some v \<Rightarrow> legacy_anyValueToJson v)"
  have "map ?g (map (\<lambda>kv. (fst kv, map_option adaptAnyValue (snd kv))) kvs) = map ?f kvs"
    using 7 by (force simp: list_all_iff split: option.splits)
  moreover have "foldl (\<lambda>out kv. obj_define out (fst kv) (snd kv)) [] (map ?f kvs)
      = foldl (\<lambda>out kv. obj_assign out (fst kv) (snd kv)) [] (map ?f kvs)"
    using "7.prems" by (intro foldl_obj_agree) (auto simp: list_all_iff)
  ultimately show ?case by (simp only: adaptAnyValue.simps legacy_anyValueToJson.simps anyValueToJson.simps)
qed simp_all

text \<open>The collector converts attributes to JSON along two paths, directly (logs and metrics) and through the
  older object shape (spans).  Both give the same record for every list of attributes with 64-bit integers and
  without a key \<^verbatim>\<open>__proto__\<close>.
\<close>

theorem attribute_paths_agree:
  assumes "record_ok kvs"
  shows "legacy_keyValuesToRecord (map adaptKeyValue kvs) = keyValuesToRecord kvs"
proof -
  have "(case map_option adaptAnyValue (snd kv) of None \<Rightarrow> JNull | Some v \<Rightarrow> legacy_anyValueToJson v)
      = (case snd kv of None \<Rightarrow> JNull | Some v \<Rightarrow> anyValueToJson v)" if "kv \<in> set kvs" for kv
    using that assms adapt_agrees by (auto simp: record_ok_def list_all_iff split: option.splits)
  then have "legacy_keyValuesToRecord (map adaptKeyValue kvs) = foldl (\<lambda>out kv. obj_define out (fst kv)
      (case snd kv of None \<Rightarrow> JNull | Some v \<Rightarrow> anyValueToJson v)) [] kvs"
    by (auto simp: legacy_keyValuesToRecord_def adaptKeyValue_def foldl_map intro: foldl_cong)
  also have "\<dots> = keyValuesToRecord kvs"
    unfolding keyValuesToRecord_def using assms by (intro foldl_obj_agree) (auto simp: record_ok_def list_all_iff)
  finally show ?thesis .
qed

theorem attribute_paths_agree_witness:
  "legacy_keyValuesToRecord (map adaptKeyValue [(''n'', Some (IntValue (- 7))), (''xs'', Some (ArrayValue [BoolValue True]))])
     = [(''n'', JNum (Num (- 7))), (''xs'', JArr [JBool True])]"
proof -
  have "record_ok [(''n'', Some (IntValue (- 7))), (''xs'', Some (ArrayValue [BoolValue True]))]"
    by (simp add: record_ok_def)
  from attribute_paths_agree [OF this] show ?thesis
    by (simp add: keyValuesToRecord_def obj_assign_def obj_define_def is_index_def is_digit_def char_code_def
        bigint_number_def round53_def fl53_exact)
qed

text \<open>
  The direct path loses an attribute named \<^verbatim>\<open>__proto__\<close>, which the path through the older shape keeps.
\<close>

theorem proto_attribute_lost:
  "keyValuesToRecord [(''__proto__'', Some (StringValue s))] = [] \<and>
   legacy_keyValuesToRecord (map adaptKeyValue [(''__proto__'', Some (StringValue s))]) = [(''__proto__'', JStr s)]"
  by (simp add: keyValuesToRecord_def legacy_keyValuesToRecord_def obj_assign_def obj_define_def adaptKeyValue_def
      is_index_def is_digit_def char_code_def)

end
