(* ===== verification/Js_Time.thy ===== *)
theory Js_Time
  imports Js_Text
begin

text \<open>
  Time values in milliseconds since the epoch and their ISO form (\<^verbatim>\<open>Date.prototype.toISOString\<close>), \<^verbatim>\<open>BigInt(s)\<close> and
  \<^verbatim>\<open>Number.parseInt(s, 10)\<close>, and the retention setting of \<^verbatim>\<open>packages/obs-types/src/constants.ts\<close>.
\<close>

section \<open>Time values\<close>

text \<open>The largest time value a \<^verbatim>\<open>Date\<close> accepts.\<close>

definition valid_time :: "int \<Rightarrow> bool" where
  "valid_time ms \<longleftrightarrow> \<bar>ms\<bar> \<le> 8640000000000000"

text \<open>Day number to year, month and day in the proleptic Gregorian calendar, by 400-year eras.\<close>

definition civil_from_days :: "int \<Rightarrow> int \<times> int \<times> int" where
  "civil_from_days days =
     (let z = days + 719468;
          era = z div 146097;
          doe = z mod 146097;
          yoe = (doe - doe div 1460 + doe div 36524 - doe div 146096) div 365;
          doy = doe - (365 * yoe + yoe div 4 - yoe div 100);
          mp = (5 * doy + 2) div 153;
          d = doy - (153 * mp + 2) div 5 + 1;
          m = (if mp < 10 then mp + 3 else mp - 9)
      in (yoe + era * 400 + (if m \<le> 2 then 1 else 0), m, d))"

definition padded :: "nat \<Rightarrow> int \<Rightarrow> string" where
  "padded n i = pad_left n (decimal (nat i))"

definition year_text :: "int \<Rightarrow> string" where
  "year_text y = (if 0 \<le> y \<and> y \<le> 9999 then padded 4 y
     else (if y < 0 then ''-'' else ''+'') @ padded 6 \<bar>y\<bar>)"

definition toISOString :: "int \<Rightarrow> string" where
  "toISOString ms =
     (let days = ms div 86400000; t = ms mod 86400000; (y, m, d) = civil_from_days days
      in year_text y @ ''-'' @ padded 2 m @ ''-'' @ padded 2 d @ ''T'' @
         padded 2 (t div 3600000) @ '':'' @ padded 2 (t div 60000 mod 60) @ '':'' @
         padded 2 (t div 1000 mod 60) @ ''.'' @ padded 3 (t mod 1000) @ ''Z'')"

section \<open>Reading integers\<close>

definition sign_split :: "string \<Rightarrow> bool \<times> string" where
  "sign_split s = (startsWith s ''-'', if startsWith s ''-'' \<or> startsWith s ''+'' then tl s else s)"

text \<open>\<open>None\<close> is the \<^verbatim>\<open>SyntaxError\<close>.\<close>

definition js_BigInt :: "string \<Rightarrow> int option" where
  "js_BigInt s =
     (let t = trim s; u = toLowerCase (take 2 t); body = drop 2 t;
          radix = (\<lambda>b. if body \<noteq> [] \<and> list_all (\<lambda>c. radix_digit c < b) body
                       then Some (int (foldl (\<lambda>n c. b * n + radix_digit c) 0 body)) else None);
          (neg, ds) = sign_split t
      in if t = [] then Some 0
         else if u = ''0x'' then radix 16 else if u = ''0o'' then radix 8 else if u = ''0b'' then radix 2
         else if ds \<noteq> [] \<and> list_all is_digit ds
         then Some (if neg then - int (digits_val ds) else int (digits_val ds)) else None)"

text \<open>\<open>None\<close> is \<^verbatim>\<open>NaN\<close>.\<close>

definition parseInt10 :: "string \<Rightarrow> int option" where
  "parseInt10 s =
     (let (neg, r) = sign_split (dropWhile is_space s); ds = takeWhile is_digit r
      in if ds = [] then None else Some (if neg then - int (digits_val ds) else int (digits_val ds)))"

definition RETENTION_HOURS :: int where "RETENTION_HOURS = 72"
definition DEFAULT_WINDOW_HOURS :: int where "DEFAULT_WINDOW_HOURS = 72"
definition MAX_RETENTION_HOURS :: int where "MAX_RETENTION_HOURS = 720"

definition getConfiguredRetentionHours :: "string option \<Rightarrow> int" where
  "getConfiguredRetentionHours envValue =
     (case envValue of None \<Rightarrow> RETENTION_HOURS
      | Some v \<Rightarrow>
          if v = [] then RETENTION_HOURS
          else case parseInt10 v of None \<Rightarrow> RETENTION_HOURS
               | Some parsed \<Rightarrow> if parsed < 1 then RETENTION_HOURS else min parsed MAX_RETENTION_HOURS)"

lemma retention_bounds: "1 \<le> getConfiguredRetentionHours v \<and> getConfiguredRetentionHours v \<le> 720"
  by (auto simp: getConfiguredRetentionHours_def RETENTION_HOURS_def MAX_RETENTION_HOURS_def split: option.split)

lemma js_BigInt_decimal: "js_BigInt (decimal n) = Some (int n)"
proof -
  define s where "s = decimal n"
  have s: "list_all is_digit s" "s \<noteq> []" "digits_val s = n" using decimal_digits by (simp_all add: s_def)
  then obtain d ds where ds: "s = d # ds" "is_digit d" by (cases s) auto
  have nd: "\<not> is_digit (CHR ''x'')" "\<not> is_digit (CHR ''o'')" "\<not> is_digit (CHR ''b'')" "\<not> is_digit (CHR ''-'')"
    "\<not> is_digit (CHR ''+'')" by (simp_all add: is_digit_def char_code_def)
  have t: "trim s = s" using s(1) is_digit_not_space by (auto intro!: trim_id simp: list_all_iff)
  have "list_all is_digit (take 2 s)" using s(1) set_take_subset by (fastforce simp: list_all_iff)
  then have u: "toLowerCase (take 2 s) \<noteq> ''0x''" "toLowerCase (take 2 s) \<noteq> ''0o''" "toLowerCase (take 2 s) \<noteq> ''0b''"
    using nd by (auto simp: toLowerCase_digits)
  have "sign_split s = (False, s)" using ds nd by (auto simp: sign_split_def startsWith_def)
  then show ?thesis using s t u unfolding js_BigInt_def by (simp add: Let_def flip: s_def)
qed

end
