(* ===== verification/Otlp_Traces.thy ===== *)
theory Otlp_Traces
  imports Otlp_Values Js_Time
begin

text \<open>
  Trace ingestion, from the decoded protobuf request to the response: the adapters of
  \<^verbatim>\<open>packages/obs-collector/src/otlp/decode/traces.ts\<close>, \<open>toStoredSpans\<close> of \<^verbatim>\<open>lib/otlp.ts\<close>, the
  \<^verbatim>\<open>/v1/traces\<close> handler of \<^verbatim>\<open>plugins/otlp-receiver.ts\<close> and the response envelope of \<^verbatim>\<open>otlp/response.ts\<close>.
  The schema decoders, the span processors and the store are parameters of the handler.

  Shown: the spans stored are the first 500 well-formed ones, in order, under the hexadecimal form of their
  ids; a request is acknowledged with exactly the number cut off by the cap; and, since the adapters
  drop spans with malformed ids before the handler counts, those are never reported.
\<close>

section \<open>The decoded request\<close>

record proto_event =
  pe_name :: string
  pe_timeUnixNano :: nat
  pe_attributes :: "key_value list"
  pe_droppedAttributesCount :: nat

record proto_link =
  pl_traceId :: "byte list"
  pl_spanId :: "byte list"
  pl_traceState :: string
  pl_attributes :: "key_value list"
  pl_droppedAttributesCount :: nat

record proto_span =
  ps_traceId :: "byte list"
  ps_spanId :: "byte list"
  ps_parentSpanId :: "byte list"
  ps_traceState :: string
  ps_name :: string
  ps_kind :: int
  ps_startTimeUnixNano :: nat
  ps_endTimeUnixNano :: nat
  ps_attributes :: "key_value list"
  ps_droppedAttributesCount :: nat
  ps_events :: "proto_event list"
  ps_droppedEventsCount :: nat
  ps_links :: "proto_link list"
  ps_droppedLinksCount :: nat
  ps_status :: "(int \<times> string) option"

record proto_scope_spans =
  pss_scope :: "(string \<times> string) option"
  pss_spans :: "proto_span list"

record proto_resource_spans =
  prs_resource :: "key_value list option"
  prs_scopeSpans :: "proto_scope_spans list"

section \<open>The older shape\<close>

record otlp_event =
  oe_name :: string
  oe_timeUnixNano :: "string option"
  oe_attributes :: "otlp_key_value list"
  oe_droppedAttributesCount :: "nat option"

record otlp_link =
  ol_traceId :: "string option"
  ol_spanId :: "string option"
  ol_traceState :: "string option"
  ol_attributes :: "otlp_key_value list"
  ol_droppedAttributesCount :: "nat option"

record otlp_span =
  os_traceId :: "string option"
  os_spanId :: "string option"
  os_parentSpanId :: "string option"
  os_traceState :: "string option"
  os_name :: string
  os_kind :: "int option"
  os_startTimeUnixNano :: "string option"
  os_endTimeUnixNano :: "string option"
  os_attributes :: "otlp_key_value list"
  os_droppedAttributesCount :: "nat option"
  os_events :: "otlp_event list"
  os_droppedEventsCount :: "nat option"
  os_links :: "otlp_link list"
  os_droppedLinksCount :: "nat option"
  os_status :: "(int \<times> string) option"

record otlp_scope_spans =
  oss_scope :: "(string \<times> string) option"
  oss_spans :: "otlp_span list"

record otlp_resource_spans =
  ors_resource :: "otlp_key_value list option"
  ors_scopeSpans :: "otlp_scope_spans list"

text \<open>\<^verbatim>\<open>x || undefined\<close> on numbers and strings.\<close>

definition nonzero :: "nat \<Rightarrow> nat option" where
  "nonzero n = (if n = 0 then None else Some n)"

definition nonempty :: "'a list \<Rightarrow> 'a list option" where
  "nonempty s = (if s = [] then None else Some s)"

definition bigintToString :: "nat \<Rightarrow> string" where
  "bigintToString n = decimal n"

definition adapt_event :: "proto_event \<Rightarrow> otlp_event" where
  "adapt_event e = \<lparr>oe_name = pe_name e, oe_timeUnixNano = Some (bigintToString (pe_timeUnixNano e)),
     oe_attributes = map adaptKeyValue (pe_attributes e),
     oe_droppedAttributesCount = nonzero (pe_droppedAttributesCount e)\<rparr>"

definition adapt_link :: "proto_link \<Rightarrow> otlp_link list" where
  "adapt_link l =
     (if length (pl_traceId l) = 16 \<and> length (pl_spanId l) = 8
      then [\<lparr>ol_traceId = Some (bytesToHex (pl_traceId l)), ol_spanId = Some (bytesToHex (pl_spanId l)),
             ol_traceState = nonempty (pl_traceState l), ol_attributes = map adaptKeyValue (pl_attributes l),
             ol_droppedAttributesCount = nonzero (pl_droppedAttributesCount l)\<rparr>]
      else [])"

definition adapt_span :: "proto_span \<Rightarrow> otlp_span list" where
  "adapt_span s =
     (if length (ps_traceId s) \<noteq> 16 \<or> length (ps_spanId s) \<noteq> 8 then []
      else [\<lparr>os_traceId = Some (bytesToHex (ps_traceId s)),
             os_spanId = Some (bytesToHex (ps_spanId s)),
             os_parentSpanId = (if length (ps_parentSpanId s) = 8 then Some (bytesToHex (ps_parentSpanId s)) else None),
             os_traceState = nonempty (ps_traceState s),
             os_name = ps_name s,
             os_kind = Some (ps_kind s),
             os_startTimeUnixNano = Some (bigintToString (ps_startTimeUnixNano s)),
             os_endTimeUnixNano = Some (bigintToString (ps_endTimeUnixNano s)),
             os_attributes = map adaptKeyValue (ps_attributes s),
             os_droppedAttributesCount = nonzero (ps_droppedAttributesCount s),
             os_events = map adapt_event (ps_events s),
             os_droppedEventsCount = nonzero (ps_droppedEventsCount s),
             os_links = concat (map adapt_link (ps_links s)),
             os_droppedLinksCount = nonzero (ps_droppedLinksCount s),
             os_status = ps_status s\<rparr>])"

definition adaptResourceSpans :: "proto_resource_spans \<Rightarrow> otlp_resource_spans" where
  "adaptResourceSpans rs =
     \<lparr>ors_resource = map_option (map adaptKeyValue) (prs_resource rs),
      ors_scopeSpans = map (\<lambda>ss. \<lparr>oss_scope = pss_scope ss,
        oss_spans = concat (map adapt_span (pss_spans ss))\<rparr>) (prs_scopeSpans rs)\<rparr>"

text \<open>
  The schema decoders are the parameters \<open>fromBinary\<close> and \<open>fromJson\<close>, which give an error message or the
  request; \<open>bodyJson\<close> is \<open>decodeJsonBody\<close> with its own parameters, whose failure is the exception of
  \<^verbatim>\<open>JSON.parse\<close>.
\<close>

definition decode_message ::
  "(byte list \<Rightarrow> string + 'm) \<Rightarrow> (json \<Rightarrow> string + 'm) \<Rightarrow> (byte list \<Rightarrow> json option) \<Rightarrow> read_body_result
     \<Rightarrow> body_error + 'm" where
  "decode_message fromBinary fromJson bodyJson body =
     (case (case body_format body of WireProtobuf \<Rightarrow> fromBinary (body_bytes body)
            | WireJson \<Rightarrow> (case bodyJson (body_bytes body) of None \<Rightarrow> Inl ''SyntaxError'' | Some j \<Rightarrow> fromJson j)) of
        Inl e \<Rightarrow> Inl (OtlpDecodeError (''Malformed OTLP body: '' @ e) 400)
      | Inr msg \<Rightarrow> Inr msg)"

definition decodeTraceRequest ::
  "(byte list \<Rightarrow> string + proto_resource_spans list) \<Rightarrow> (json \<Rightarrow> string + proto_resource_spans list)
     \<Rightarrow> (byte list \<Rightarrow> json option) \<Rightarrow> read_body_result \<Rightarrow> body_error + otlp_resource_spans list" where
  "decodeTraceRequest fromBinary fromJson bodyJson body =
     res_bind (decode_message fromBinary fromJson bodyJson body) (\<lambda>msg. Inr (map adaptResourceSpans msg))"

section \<open>Stored spans\<close>

record stored_span =
  st_projectId :: string
  st_traceId :: string
  st_spanId :: string
  st_parentSpanId :: "string option"
  st_traceState :: "string option"
  st_serviceName :: "string option"
  st_scopeName :: "string option"
  st_scopeVersion :: "string option"
  st_spanName :: string
  st_spanKind :: int
  st_statusCode :: int
  st_statusMessage :: "string option"
  st_startTime :: string
  st_endTime :: string
  st_durationMs :: nat
  st_attributesJson :: string
  st_droppedAttributesCount :: nat
  st_resourceAttributesJson :: string
  st_eventsJson :: string
  st_droppedEventsCount :: nat
  st_linksJson :: string
  st_droppedLinksCount :: nat
  st_receivedAt :: string
  st_expiresAt :: string
  st_sessionId :: "string option"
  st_interactionId :: "string option"
  st_telemetrySdkName :: "string option"

definition normalizeHex :: "string option \<Rightarrow> nat \<Rightarrow> string option" where
  "normalizeHex v n =
     (case v of None \<Rightarrow> None
      | Some s \<Rightarrow>
          if s = [] then None
          else let normalized = toLowerCase (trim s) in
               if normalized = [] \<or> \<not> list_all is_hex_char normalized \<or> length normalized \<noteq> n then None
               else Some normalized)"

definition or_zero :: "string option \<Rightarrow> string" where
  "or_zero v = (case v of None \<Rightarrow> ''0'' | Some s \<Rightarrow> s)"

definition nanosToMs :: "string option \<Rightarrow> string option \<Rightarrow> nat" where
  "nanosToMs start fin =
     (case (js_BigInt (or_zero start), js_BigInt (or_zero fin)) of
        (Some startNs, Some endNs) \<Rightarrow>
          if endNs < startNs then 0 else fl53 (nat ((endNs - startNs) div 1000000))
      | _ \<Rightarrow> 0)"

definition nanosToIso :: "string option \<Rightarrow> int \<Rightarrow> string" where
  "nanosToIso v fallback =
     (case v of None \<Rightarrow> toISOString fallback
      | Some s \<Rightarrow>
          if s = [] then toISOString fallback
          else case js_BigInt s of None \<Rightarrow> toISOString fallback
               | Some ns \<Rightarrow>
                   if ns \<le> 0 then toISOString fallback
                   else let ms = ns div 1000000 in
                        if valid_time ms then toISOString ms else toISOString fallback)"

definition json_string :: "json option \<Rightarrow> string option" where
  "json_string j = (case j of Some (JStr s) \<Rightarrow> if trim s = [] then None else Some (trim s) | _ \<Rightarrow> None)"

definition getServiceName :: "(string \<times> json) list \<Rightarrow> (string \<times> json) list \<Rightarrow> string option" where
  "getServiceName resourceAttributes spanAttributes =
     (case json_string (map_get resourceAttributes ''service.name'') of Some s \<Rightarrow> Some s
      | None \<Rightarrow> json_string (map_get spanAttributes ''server.address''))"

definition json_opt :: "string option \<Rightarrow> json" where
  "json_opt s = (case s of None \<Rightarrow> JNull | Some t \<Rightarrow> JStr t)"

definition json_nat :: "nat \<Rightarrow> json" where
  "json_nat n = JNum (Num (of_nat n))"

definition event_json :: "otlp_event \<Rightarrow> json" where
  "event_json e = JObj [(''name'', JStr (oe_name e)), (''timeUnixNano'', json_opt (oe_timeUnixNano e)),
     (''attributes'', JObj (legacy_keyValuesToRecord (oe_attributes e))),
     (''droppedAttributesCount'', json_nat (case oe_droppedAttributesCount e of None \<Rightarrow> 0 | Some n \<Rightarrow> n))]"

definition link_json :: "otlp_link \<Rightarrow> json" where
  "link_json l = JObj [(''traceId'', json_opt (normalizeHex (ol_traceId l) 32)),
     (''spanId'', json_opt (normalizeHex (ol_spanId l) 16)), (''traceState'', json_opt (ol_traceState l)),
     (''attributes'', JObj (legacy_keyValuesToRecord (ol_attributes l))),
     (''droppedAttributesCount'', json_nat (case ol_droppedAttributesCount l of None \<Rightarrow> 0 | Some n \<Rightarrow> n))]"

text \<open>\<^verbatim>\<open>serializeJson\<close> on the values it is given here, which are never missing and always print.\<close>

definition serializeJson :: "(rat \<Rightarrow> string) \<Rightarrow> json \<Rightarrow> string" where
  "serializeJson num v = stringify num v"

definition retentionExpiry :: "int \<Rightarrow> int \<Rightarrow> string" where
  "retentionExpiry receivedAt retentionHours = toISOString (receivedAt + retentionHours * 60 * 60 * 1000)"

abbreviation or_nat :: "nat option \<Rightarrow> nat" where
  "or_nat n \<equiv> (case n of None \<Rightarrow> 0 | Some k \<Rightarrow> k)"

definition to_stored_span ::
  "(rat \<Rightarrow> string) \<Rightarrow> otlp_resource_spans \<Rightarrow> otlp_scope_spans \<Rightarrow> int \<Rightarrow> int \<Rightarrow> string \<Rightarrow> otlp_span \<Rightarrow> stored_span list" where
  "to_stored_span num resourceSpans scopeSpans receivedAt retentionHours projectId sp =
     (let resourceAttributes =
            (case ors_resource resourceSpans of None \<Rightarrow> [] | Some as \<Rightarrow> legacy_keyValuesToRecord as) in
      case (normalizeHex (os_traceId sp) 32, normalizeHex (os_spanId sp) 16) of
        (Some traceId, Some spanId) \<Rightarrow>
          let attributes = legacy_keyValuesToRecord (os_attributes sp) in
          [\<lparr>st_projectId = projectId, st_traceId = traceId, st_spanId = spanId,
            st_parentSpanId = normalizeHex (os_parentSpanId sp) 16,
            st_traceState = os_traceState sp,
            st_serviceName = getServiceName resourceAttributes attributes,
            st_scopeName = map_option fst (oss_scope scopeSpans),
            st_scopeVersion = map_option snd (oss_scope scopeSpans),
            st_spanName = (if os_name sp = [] then ''unnamed-span'' else os_name sp),
            st_spanKind = (case os_kind sp of None \<Rightarrow> 0 | Some k \<Rightarrow> k),
            st_statusCode = (case os_status sp of None \<Rightarrow> 0 | Some (code, _) \<Rightarrow> code),
            st_statusMessage = map_option snd (os_status sp),
            st_startTime = nanosToIso (os_startTimeUnixNano sp) receivedAt,
            st_endTime = nanosToIso (os_endTimeUnixNano sp) receivedAt,
            st_durationMs = nanosToMs (os_startTimeUnixNano sp) (os_endTimeUnixNano sp),
            st_attributesJson = serializeJson num (JObj attributes),
            st_droppedAttributesCount = or_nat (os_droppedAttributesCount sp),
            st_resourceAttributesJson = serializeJson num (JObj resourceAttributes),
            st_eventsJson = serializeJson num (JArr (map event_json (os_events sp))),
            st_droppedEventsCount = or_nat (os_droppedEventsCount sp),
            st_linksJson = serializeJson num (JArr (map link_json (os_links sp))),
            st_droppedLinksCount = or_nat (os_droppedLinksCount sp),
            st_receivedAt = toISOString receivedAt,
            st_expiresAt = retentionExpiry receivedAt retentionHours,
            st_sessionId = None, st_interactionId = None, st_telemetrySdkName = None\<rparr>]
      | _ \<Rightarrow> [])"

definition scopeToStoredSpans ::
  "(rat \<Rightarrow> string) \<Rightarrow> otlp_resource_spans \<Rightarrow> otlp_scope_spans \<Rightarrow> int \<Rightarrow> int \<Rightarrow> string \<Rightarrow> stored_span list" where
  "scopeToStoredSpans num resourceSpans scopeSpans receivedAt retentionHours projectId =
     concat (map (to_stored_span num resourceSpans scopeSpans receivedAt retentionHours projectId) (oss_spans scopeSpans))"

definition toStoredSpans :: "(rat \<Rightarrow> string) \<Rightarrow> otlp_resource_spans list \<Rightarrow> string \<Rightarrow> int \<Rightarrow> int \<Rightarrow> stored_span list" where
  "toStoredSpans num payload projectId receivedAt retentionHours =
     concat (map (\<lambda>rs. concat (map (\<lambda>ss. scopeToStoredSpans num rs ss receivedAt retentionHours projectId)
       (ors_scopeSpans rs))) payload)"

section \<open>The handler\<close>

definition MAX_SPANS_PER_REQUEST :: nat where "MAX_SPANS_PER_REQUEST = 500"

text \<open>The counting loops, one level each; the state is \<open>(total, rejected)\<close>.\<close>

fun trim_spans :: "nat \<times> nat \<Rightarrow> otlp_span list \<Rightarrow> otlp_span list \<times> nat \<times> nat" where
  "trim_spans st [] = ([], st)"
| "trim_spans (ttl, rejected) (s # ss) =
     (if ttl \<ge> MAX_SPANS_PER_REQUEST then trim_spans (ttl, rejected + 1) ss
      else let (spans, st) = trim_spans (ttl + 1, rejected) ss in (s # spans, st))"

fun trim_scopes :: "nat \<times> nat \<Rightarrow> otlp_scope_spans list \<Rightarrow> otlp_scope_spans list \<times> nat \<times> nat" where
  "trim_scopes st [] = ([], st)"
| "trim_scopes st (ss # sss) =
     (let (spans, st1) = trim_spans st (oss_spans ss); (rest, st2) = trim_scopes st1 sss
      in (ss\<lparr>oss_spans := spans\<rparr> # rest, st2))"

fun trim_resources :: "nat \<times> nat \<Rightarrow> otlp_resource_spans list \<Rightarrow> otlp_resource_spans list \<times> nat \<times> nat" where
  "trim_resources st [] = ([], st)"
| "trim_resources st (rs # rss) =
     (let (scopes, st1) = trim_scopes st (ors_scopeSpans rs); (rest, st2) = trim_resources st1 rss
      in (rs\<lparr>ors_scopeSpans := scopes\<rparr> # rest, st2))"

record partial_success =
  rejected_count :: nat
  errorMessage :: string

datatype http_response =
    ErrorResponse nat string
  | RetryableError nat string nat
  | ExportResponse otlp_wire_format "partial_success option"

text \<open>\<^verbatim>\<open>otlpRetryableError\<close> with its default of five seconds, and the success envelope.\<close>

definition otlpRetryableError :: "nat \<Rightarrow> string \<Rightarrow> http_response" where
  "otlpRetryableError status message = RetryableError status message 5"

definition traceResponse :: "otlp_wire_format \<Rightarrow> partial_success option \<Rightarrow> http_response" where
  "traceResponse wireFormat partial = ExportResponse wireFormat partial"

definition rejection_parts :: "nat \<Rightarrow> nat \<Rightarrow> string list" where
  "rejection_parts rejected malformed =
     (if rejected > 0 then [decimal rejected @ '' span(s) dropped over '' @ decimal MAX_SPANS_PER_REQUEST @ ''-span cap''] else [])
     @ (if malformed > 0 then [decimal malformed @ '' span(s) rejected (invalid trace_id or span_id)''] else [])"

text \<open>
  The part of the handler after decoding.  The result is the response, the spans handed to the store and
  the spans published to the live tail.
\<close>

definition ingest_traces ::
  "(rat \<Rightarrow> string) \<Rightarrow> (stored_span list \<Rightarrow> string + stored_span list) \<Rightarrow> (stored_span list \<Rightarrow> bool) \<Rightarrow> bool \<Rightarrow> string \<Rightarrow> int \<Rightarrow>
     string option \<Rightarrow> otlp_wire_format \<Rightarrow> otlp_resource_spans list \<Rightarrow> string + http_response \<times> stored_span list \<times> stored_span list" where
  "ingest_traces num runSpanProcessors store_ingest has_tail projectId now retentionEnv wireFormat payload =
     (let (trimmed, ttl, rejected) = trim_resources (0, 0) payload;
          parsedSpans = toStoredSpans num trimmed projectId now (getConfiguredRetentionHours retentionEnv);
          malformed = ttl - length parsedSpans;
          totalRejected = rejected + malformed
      in res_bind (runSpanProcessors parsedSpans) (\<lambda>spans.
         if \<not> store_ingest spans then Inr (otlpRetryableError 503 ''Storage temporarily unavailable'', [], [])
         else Inr
           (if totalRejected > 0
            then traceResponse wireFormat (Some \<lparr>rejected_count = totalRejected,
                   errorMessage = js_join ''; '' (rejection_parts rejected malformed)\<rparr>)
            else traceResponse wireFormat None,
            spans, if spans \<noteq> [] \<and> has_tail then spans else [])))"

text \<open>The whole handler: an exception that is no \<^verbatim>\<open>OtlpDecodeError\<close> is rethrown, and one of a span processor is not caught.\<close>

definition post_v1_traces ::
  "(rat \<Rightarrow> string) \<Rightarrow> (byte list \<Rightarrow> byte list option) \<Rightarrow> (byte list \<Rightarrow> string + proto_resource_spans list)
     \<Rightarrow> (json \<Rightarrow> string + proto_resource_spans list) \<Rightarrow> (byte list \<Rightarrow> json option)
     \<Rightarrow> (stored_span list \<Rightarrow> string + stored_span list) \<Rightarrow> (stored_span list \<Rightarrow> bool) \<Rightarrow> bool \<Rightarrow> string \<Rightarrow> int \<Rightarrow> string option
     \<Rightarrow> (string \<Rightarrow> string option) \<Rightarrow> byte list
     \<Rightarrow> string + (http_response \<times> stored_span list \<times> stored_span list)" where
  "post_v1_traces num gunzip fromBinary fromJson bodyJson runSpanProcessors store_ingest has_tail projectId now
       retentionEnv header body =
     (case readOtlpBody gunzip header body of
        Inl (OtlpDecodeError msg status) \<Rightarrow> Inr (ErrorResponse status msg, [], [])
      | Inl (Foreign e) \<Rightarrow> Inl e
      | Inr read \<Rightarrow>
          (case decodeTraceRequest fromBinary fromJson bodyJson read of
             Inl (OtlpDecodeError msg status) \<Rightarrow> Inr (ErrorResponse status msg, [], [])
           | Inl (Foreign e) \<Rightarrow> Inl e
           | Inr payload \<Rightarrow> ingest_traces num runSpanProcessors store_ingest has_tail projectId now retentionEnv
               (body_format read) payload))"

section \<open>The cap\<close>

definition all_spans :: "otlp_resource_spans list \<Rightarrow> otlp_span list" where
  "all_spans payload = concat (map (\<lambda>rs. concat (map oss_spans (ors_scopeSpans rs))) payload)"

definition capped :: "nat \<times> nat \<Rightarrow> 'a list \<Rightarrow> 'a list \<Rightarrow> nat \<times> nat \<Rightarrow> bool" where
  "capped st xs kept st' \<longleftrightarrow> kept = take (MAX_SPANS_PER_REQUEST - fst st) xs \<and>
     fst st' = fst st + length kept \<and> snd st' = snd st + (length xs - length kept)"

lemma capped_append:
  assumes "capped st xs kept st1" and "capped st1 ys kept' st2" and "fst st \<le> MAX_SPANS_PER_REQUEST"
  shows "capped st (xs @ ys) (kept @ kept') st2"
proof -
  let ?n = "MAX_SPANS_PER_REQUEST - fst st"
  have kept: "kept = take ?n xs" and kept': "kept' = take (?n - length xs) ys"
    using assms by (auto simp: capped_def min_def)
  then have "kept @ kept' = take ?n (xs @ ys)" by simp
  moreover have "length kept \<le> length xs" "length kept' \<le> length ys" by (simp_all add: kept kept')
  ultimately show ?thesis using assms(1,2) by (simp add: capped_def add.assoc)
qed

lemma capped_le: "capped st xs kept st' \<Longrightarrow> fst st \<le> MAX_SPANS_PER_REQUEST \<Longrightarrow> fst st' \<le> MAX_SPANS_PER_REQUEST"
  by (auto simp: capped_def)

lemma trim_spans_capped: "fst st \<le> MAX_SPANS_PER_REQUEST \<Longrightarrow> capped st ss (fst (trim_spans st ss)) (snd (trim_spans st ss))"
proof (induction st ss rule: trim_spans.induct)
  case (2 ttl rejected s ss)
  show ?case
  proof (cases "ttl \<ge> MAX_SPANS_PER_REQUEST")
    case True
    then show ?thesis using 2 by (simp add: capped_def)
  next
    case False
    then obtain k where k: "MAX_SPANS_PER_REQUEST - ttl = Suc k" "MAX_SPANS_PER_REQUEST - Suc ttl = k"
      by (metis Suc_diff_Suc not_le)
    then show ?thesis using 2 False by (auto simp: capped_def Let_def case_prod_beta)
  qed
qed (simp add: capped_def)

lemma trim_scopes_capped:
  "fst st \<le> MAX_SPANS_PER_REQUEST \<Longrightarrow>
   capped st (concat (map oss_spans sss)) (concat (map oss_spans (fst (trim_scopes st sss)))) (snd (trim_scopes st sss))"
proof (induction sss arbitrary: st)
  case (Cons ss sss)
  have head: "capped st (oss_spans ss) (fst (trim_spans st (oss_spans ss))) (snd (trim_spans st (oss_spans ss)))"
    using Cons.prems by (rule trim_spans_capped)
  have "capped (snd (trim_spans st (oss_spans ss))) (concat (map oss_spans sss))
      (concat (map oss_spans (fst (trim_scopes (snd (trim_spans st (oss_spans ss))) sss))))
      (snd (trim_scopes (snd (trim_spans st (oss_spans ss))) sss))"
    using capped_le [OF head Cons.prems] by (rule Cons.IH)
  from capped_append [OF head this Cons.prems] show ?case by (simp add: Let_def case_prod_beta)
qed (simp add: capped_def)

lemma trim_resources_capped:
  "fst st \<le> MAX_SPANS_PER_REQUEST \<Longrightarrow>
   capped st (all_spans rss) (all_spans (fst (trim_resources st rss))) (snd (trim_resources st rss))"
proof (induction rss arbitrary: st)
  case (Cons rs rss)
  let ?head = "trim_scopes st (ors_scopeSpans rs)"
  have head: "capped st (concat (map oss_spans (ors_scopeSpans rs))) (concat (map oss_spans (fst ?head))) (snd ?head)"
    using Cons.prems by (rule trim_scopes_capped)
  have "capped (snd ?head) (all_spans rss) (all_spans (fst (trim_resources (snd ?head) rss)))
      (snd (trim_resources (snd ?head) rss))"
    using capped_le [OF head Cons.prems] by (rule Cons.IH)
  from capped_append [OF head this Cons.prems] show ?case by (simp add: Let_def case_prod_beta all_spans_def)
qed (simp add: capped_def all_spans_def)

section \<open>Spans with well-formed ids\<close>

definition proto_spans :: "proto_resource_spans list \<Rightarrow> proto_span list" where
  "proto_spans msg = concat (map (\<lambda>rs. concat (map pss_spans (prs_scopeSpans rs))) msg)"

definition well_formed_ids :: "proto_span \<Rightarrow> bool" where
  "well_formed_ids s \<longleftrightarrow> length (ps_traceId s) = 16 \<and> length (ps_spanId s) = 8"

lemma concat_concat_map: "concat (map f (concat (map g xs))) = concat (map (\<lambda>x. concat (map f (g x))) xs)"
  by (induction xs) simp_all

lemma all_spans_adapt: "all_spans (map adaptResourceSpans msg) = concat (map adapt_span (proto_spans msg))"
  by (simp add: all_spans_def proto_spans_def concat_concat_map adaptResourceSpans_def comp_def)

lemma adapt_span_filter: "concat (map adapt_span ss) = concat (map adapt_span (filter well_formed_ids ss))"
  by (induction ss) (auto simp: adapt_span_def well_formed_ids_def)

lemma trim_hex:
  assumes "list_all is_hex_char s"
  shows "trim s = s"
proof (rule trim_id)
  have "\<not> is_space c" if "is_hex_char c" for c
    using that by (auto simp: is_hex_char_def is_space_def Let_def)
  then show "list_all (\<lambda>c. \<not> is_space c) s" using assms by (auto simp: list_all_iff)
qed

lemma normalizeHex_bytes:
  assumes "length bs = n" and "0 < n"
  shows "normalizeHex (Some (bytesToHex bs)) (2 * n) = Some (bytesToHex bs)"
proof -
  have hex: "list_all is_hex_char (bytesToHex bs)" and low: "toLowerCase (bytesToHex bs) = bytesToHex bs"
    using bytesToHex_lower [of bs] by (auto simp: list_all_iff toLowerCase_def map_idI)
  have "bytesToHex bs \<noteq> []" using length_bytesToHex [of bs] assms by (metis list.size(3) nat_0_less_mult_iff pos2 less_irrefl)
  then show ?thesis using assms hex by (simp add: normalizeHex_def Let_def trim_hex [OF hex] low)
qed

definition ids_of :: "otlp_span \<Rightarrow> string \<times> string" where
  "ids_of s = (the (os_traceId s), the (os_spanId s))"

definition ids_normal :: "otlp_span \<Rightarrow> bool" where
  "ids_normal s \<longleftrightarrow> os_traceId s \<noteq> None \<and> os_spanId s \<noteq> None \<and>
     normalizeHex (os_traceId s) 32 = os_traceId s \<and> normalizeHex (os_spanId s) 16 = os_spanId s"

lemma adapt_span_ids:
  "well_formed_ids s \<Longrightarrow> \<exists>a. adapt_span s = [a] \<and> ids_normal a \<and>
     ids_of a = (bytesToHex (ps_traceId s), bytesToHex (ps_spanId s))"
  using normalizeHex_bytes [of "ps_traceId s" 16] normalizeHex_bytes [of "ps_spanId s" 8]
  by (simp add: well_formed_ids_def adapt_span_def ids_normal_def ids_of_def)

lemma adapt_spans_ids:
  "list_all well_formed_ids ss \<Longrightarrow>
   list_all ids_normal (concat (map adapt_span ss)) \<and>
   map ids_of (concat (map adapt_span ss)) = map (\<lambda>s. (bytesToHex (ps_traceId s), bytesToHex (ps_spanId s))) ss"
proof (induction ss)
  case (Cons s ss)
  then show ?case using adapt_span_ids [of s] by auto
qed simp

lemma stored_span_ids:
  "ids_normal sp \<Longrightarrow> \<exists>r. to_stored_span num rs ss now ret pid sp = [r] \<and> (st_traceId r, st_spanId r) = ids_of sp"
  by (auto simp: to_stored_span_def ids_normal_def ids_of_def Let_def)

lemma stored_spans_ids:
  assumes "list_all ids_normal (all_spans payload)"
  shows "map (\<lambda>r. (st_traceId r, st_spanId r)) (toStoredSpans num payload pid now ret) = map ids_of (all_spans payload)"
proof -
  let ?ids = "\<lambda>r. (st_traceId r, st_spanId r)"
  have spans: "map ?ids (concat (map (to_stored_span num rs ss now ret pid) sps)) = map ids_of sps"
    if "list_all ids_normal sps" for rs ss sps
    using that by (induction sps) (auto dest!: stored_span_ids [of _ num rs ss now ret pid])
  have scopes: "map ?ids (concat (map (\<lambda>ss. scopeToStoredSpans num rs ss now ret pid) sss))
      = map ids_of (concat (map oss_spans sss))" if "list_all ids_normal (concat (map oss_spans sss))" for rs sss
    using that by (induction sss) (simp_all add: scopeToStoredSpans_def spans)
  show ?thesis
    using assms unfolding all_spans_def toStoredSpans_def by (induction payload) (simp_all add: scopes)
qed

text \<open>What the handler makes of a decoded request, before the span processors run.\<close>

lemma decoded_request:
  fixes msg :: "proto_resource_spans list"
  defines "tr \<equiv> trim_resources (0, 0) (map adaptResourceSpans msg)"
    and "ok \<equiv> filter well_formed_ids (proto_spans msg)"
  shows "map (\<lambda>r. (st_traceId r, st_spanId r)) (toStoredSpans num (fst tr) pid now ret)
      = map (\<lambda>s. (bytesToHex (ps_traceId s), bytesToHex (ps_spanId s))) (take 500 ok)"
    and "snd tr = (min (length ok) 500, length ok - 500)"
proof -
  have "list_all well_formed_ids ok" by (simp add: ok_def list_all_iff)
  note ids = adapt_spans_ids [OF this]
  have all: "all_spans (map adaptResourceSpans msg) = concat (map adapt_span ok)"
    unfolding all_spans_adapt ok_def by (rule adapt_span_filter)
  have cap: "capped (0, 0) (concat (map adapt_span ok)) (all_spans (fst tr)) (snd tr)"
    using trim_resources_capped [of "(0, 0)" "map adaptResourceSpans msg"] by (simp add: all tr_def)
  then have kept: "all_spans (fst tr) = take 500 (concat (map adapt_span ok))"
    by (simp add: capped_def MAX_SPANS_PER_REQUEST_def)
  have len: "length (concat (map adapt_span ok)) = length ok" using ids by (metis length_map)
  show "snd tr = (min (length ok) 500, length ok - 500)"
    using cap len by (auto simp: capped_def MAX_SPANS_PER_REQUEST_def kept intro: prod_eqI)
  have "list_all ids_normal (all_spans (fst tr))"
    unfolding kept using ids set_take_subset by (fastforce simp: list_all_iff)
  from stored_spans_ids [OF this, of num pid now ret] ids
  show "map (\<lambda>r. (st_traceId r, st_spanId r)) (toStoredSpans num (fst tr) pid now ret)
      = map (\<lambda>s. (bytesToHex (ps_traceId s), bytesToHex (ps_spanId s))) (take 500 ok)"
    by (simp add: kept take_map [symmetric])
qed

text \<open>What reaches the span processors from a decoded trace request are the first 500 spans with a 16-byte trace
  id and an 8-byte span id, in request order, under the lower-case hexadecimal form of those ids; what the processors return is
  what is stored, and an error they throw is the handler's.  A stored request is acknowledged in its own wire format, with a
  partial success exactly when more than 500 of its spans have well-formed ids, reporting the excess over the cap.  Spans with
  malformed ids are dropped by the adapter before anything is counted, so the response never mentions them, whatever their number.
\<close>

definition acknowledged :: "otlp_wire_format \<Rightarrow> nat \<Rightarrow> http_response" where
  "acknowledged wire n =
     (if n \<le> 500 then ExportResponse wire None
      else ExportResponse wire (Some \<lparr>rejected_count = n - 500,
             errorMessage = decimal (n - 500) @ '' span(s) dropped over 500-span cap''\<rparr>))"

lemma decoded_traces:
  "\<exists>parsed. map (\<lambda>r. (st_traceId r, st_spanId r)) parsed
       = map (\<lambda>s. (bytesToHex (ps_traceId s), bytesToHex (ps_spanId s)))
           (take 500 (filter (\<lambda>s. length (ps_traceId s) = 16 \<and> length (ps_spanId s) = 8) (proto_spans msg))) \<and>
     ingest_traces num processors store has_tail pid now env wire (map adaptResourceSpans msg) =
       res_bind (processors parsed) (\<lambda>spans.
         Inr (if store spans
              then (acknowledged wire (length (filter (\<lambda>s. length (ps_traceId s) = 16 \<and> length (ps_spanId s) = 8) (proto_spans msg))),
                    spans, if spans \<noteq> [] \<and> has_tail then spans else [])
              else (otlpRetryableError 503 ''Storage temporarily unavailable'', [], [])))"
proof -
  define tr where "tr = trim_resources (0, 0) (map adaptResourceSpans msg)"
  define n where "n = length (filter well_formed_ids (proto_spans msg))"
  define parsed where "parsed = toStoredSpans num (fst tr) pid now (getConfiguredRetentionHours env)"
  have wf: "well_formed_ids = (\<lambda>s. length (ps_traceId s) = 16 \<and> length (ps_spanId s) = 8)"
    by (simp add: well_formed_ids_def [abs_def])
  have cnt: "snd tr = (min n 500, n - 500)"
    using decoded_request(2) [of msg] by (simp add: tr_def n_def)
  have ids: "map (\<lambda>r. (st_traceId r, st_spanId r)) parsed =
      map (\<lambda>s. (bytesToHex (ps_traceId s), bytesToHex (ps_spanId s))) (take 500 (filter well_formed_ids (proto_spans msg)))"
    using decoded_request(1) [of num msg pid now "getConfiguredRetentionHours env"] by (simp add: parsed_def tr_def)
  have len: "length parsed = min n 500" using arg_cong [OF ids, of length] by (simp add: n_def)
  have cap: "decimal 500 = ''500''" by code_simp
  have "ingest_traces num processors store has_tail pid now env wire (map adaptResourceSpans msg) =
      res_bind (processors parsed) (\<lambda>spans.
        Inr (if store spans then (acknowledged wire n, spans, if spans \<noteq> [] \<and> has_tail then spans else [])
             else (otlpRetryableError 503 ''Storage temporarily unavailable'', [], [])))"
    using cnt len by (auto simp: ingest_traces_def Let_def case_prod_beta traceResponse_def acknowledged_def rejection_parts_def
        MAX_SPANS_PER_REQUEST_def cap simp flip: tr_def parsed_def intro!: arg_cong [of _ _ "res_bind (processors parsed)"])
  then show ?thesis using ids unfolding n_def wf by blast
qed

end
