(* ===== verification/Otlp_Metrics.thy ===== *)
theory Otlp_Metrics
  imports Otlp_Traces
begin

text \<open>
  Metric ingestion: \<^verbatim>\<open>packages/obs-collector/src/otlp/decode/metrics.ts\<close> and the \<^verbatim>\<open>/v1/metrics\<close> handler of
  \<^verbatim>\<open>plugins/metrics-receiver.ts\<close>.  A point carries the identity of its series, a printed JSON array.  Shown: the
  identity does not depend on the order of the attributes, two points with the same identity agree in
  resource, scope, metric name and attributes, and every data point of a request becomes one stored point,
  in order, up to the cap.
\<close>

section \<open>The decoded request\<close>

datatype number_value = AsDouble js_number | AsInt int | NoNumber

record proto_exemplar =
  ex_value :: number_value
  ex_traceId :: "byte list"
  ex_spanId :: "byte list"
  ex_timeUnixNano :: nat

record number_point =
  np_attributes :: "key_value list"
  np_startTimeUnixNano :: nat
  np_timeUnixNano :: nat
  np_value :: number_value
  np_exemplars :: "proto_exemplar list"

record histogram_point =
  hp_attributes :: "key_value list"
  hp_startTimeUnixNano :: nat
  hp_timeUnixNano :: nat
  hp_count :: nat
  hp_sum :: "js_number option"
  hp_min :: "js_number option"
  hp_max :: "js_number option"
  hp_explicitBounds :: "js_number list"
  hp_bucketCounts :: "nat list"
  hp_exemplars :: "proto_exemplar list"

record exp_histogram_point =
  ep_attributes :: "key_value list"
  ep_startTimeUnixNano :: nat
  ep_timeUnixNano :: nat
  ep_count :: nat
  ep_sum :: "js_number option"
  ep_min :: "js_number option"
  ep_max :: "js_number option"
  ep_scale :: int
  ep_zeroCount :: nat
  ep_zeroThreshold :: js_number
  ep_positive :: "(int \<times> nat list) option"
  ep_negative :: "(int \<times> nat list) option"
  ep_exemplars :: "proto_exemplar list"

record summary_point =
  sp_attributes :: "key_value list"
  sp_startTimeUnixNano :: nat
  sp_timeUnixNano :: nat
  sp_count :: nat
  sp_sum :: js_number
  sp_quantileValues :: "(js_number \<times> js_number) list"

datatype metric_data =
    Gauge "number_point list"
  | Sum "number_point list" bool int
  | Histogram "histogram_point list" int
  | ExponentialHistogram "exp_histogram_point list" int
  | Summary "summary_point list"
  | NoData

record proto_metric =
  mt_name :: string
  mt_description :: string
  mt_unit :: string
  mt_data :: metric_data

record proto_scope_metrics =
  psm_scope :: "(string \<times> string) option"
  psm_metrics :: "proto_metric list"

record proto_resource_metrics =
  prm_resource :: "key_value list option"
  prm_scopeMetrics :: "proto_scope_metrics list"

section \<open>Decoded points\<close>

datatype metric_type = TGauge | TSum | THistogram | TExpHistogram | TSummary

record metric_point =
  mp_name :: string
  mp_description :: "string option"
  mp_unit :: "string option"
  mp_scopeName :: "string option"
  mp_scopeVersion :: "string option"
  mp_serviceName :: "string option"
  mp_resourceAttrsJson :: "string option"
  mp_type :: metric_type
  mp_isMonotonic :: "bool option"
  mp_temporality :: "int option"
  mp_attributesJson :: "string option"
  mp_identity :: string
  mp_tsNs :: string
  mp_startTsNs :: "string option"
  mp_value :: "js_number option"
  mp_count :: "js_number option"
  mp_sum :: "js_number option"
  mp_min :: "js_number option"
  mp_max :: "js_number option"
  mp_boundsJson :: "string option"
  mp_bucketCountsJson :: "string option"
  mp_extraJson :: "string option"
  mp_exemplarsJson :: "string option"

text \<open>\<^verbatim>\<open>SeriesCommon\<close>: the fields a metric shares with all its points.\<close>

record series_common =
  sc_name :: string
  sc_description :: "string option"
  sc_unit :: "string option"
  sc_scopeName :: "string option"
  sc_scopeVersion :: "string option"
  sc_serviceName :: "string option"
  sc_resourceAttrsJson :: "string option"

definition lookup_json :: "(string \<times> json) list \<Rightarrow> string \<Rightarrow> json" where
  "lookup_json r k = (case map_get r k of None \<Rightarrow> JNull | Some v \<Rightarrow> v)"

definition canonicalKeyValues :: "(rat \<Rightarrow> string) \<Rightarrow> key_value list \<Rightarrow> string" where
  "canonicalKeyValues num attrs =
     (if attrs = [] then []
      else let r = keyValuesToRecord attrs; keys = sort (map fst r)
           in stringify num (JArr (map (\<lambda>k. JArr [JStr k, lookup_json r k]) keys)))"

definition buildIdentity :: "(rat \<Rightarrow> string) \<Rightarrow> string \<Rightarrow> string option \<Rightarrow> string \<Rightarrow> key_value list \<Rightarrow> string" where
  "buildIdentity num resourceFragment scopeName metricName attrs =
     stringify num (JArr [JStr resourceFragment, JStr (case scopeName of None \<Rightarrow> [] | Some s \<Rightarrow> s), JStr metricName,
       JStr (canonicalKeyValues num attrs)])"

definition exemplar_json :: "proto_exemplar \<Rightarrow> json" where
  "exemplar_json e = JObj [
     (''value'', JNum (case ex_value e of AsDouble d \<Rightarrow> d | AsInt i \<Rightarrow> bigint_number i | NoNumber \<Rightarrow> Num 0)),
     (''traceId'', json_opt (if length (ex_traceId e) = 16 then Some (bytesToHex (ex_traceId e)) else None)),
     (''spanId'', json_opt (if length (ex_spanId e) = 8 then Some (bytesToHex (ex_spanId e)) else None)),
     (''tsNs'', JStr (bigintToString (ex_timeUnixNano e)))]"

definition encodeExemplars :: "(rat \<Rightarrow> string) \<Rightarrow> proto_exemplar list \<Rightarrow> string option" where
  "encodeExemplars num exemplars =
     (if exemplars = [] then None else Some (stringify num (JArr (map exemplar_json exemplars))))"

definition record_text :: "(rat \<Rightarrow> string) \<Rightarrow> key_value list \<Rightarrow> string option" where
  "record_text num attrs = (if attrs = [] then None else Some (stringify num (JObj (keyValuesToRecord attrs))))"

definition positive_ns :: "nat \<Rightarrow> string option" where
  "positive_ns n = (if n > 0 then Some (bigintToString n) else None)"

text \<open>The fields every kind of point starts from.\<close>

definition base_point ::
  "(rat \<Rightarrow> string) \<Rightarrow> proto_metric \<Rightarrow> series_common \<Rightarrow> string \<Rightarrow> metric_type \<Rightarrow> key_value list \<Rightarrow> nat \<Rightarrow> nat \<Rightarrow> metric_point" where
  "base_point num metric common resourceFragment ty attrs time start =
     \<lparr>mp_name = sc_name common, mp_description = sc_description common, mp_unit = sc_unit common,
      mp_scopeName = sc_scopeName common, mp_scopeVersion = sc_scopeVersion common,
      mp_serviceName = sc_serviceName common, mp_resourceAttrsJson = sc_resourceAttrsJson common,
      mp_type = ty, mp_isMonotonic = None, mp_temporality = None,
      mp_attributesJson = record_text num attrs,
      mp_identity = buildIdentity num resourceFragment (sc_scopeName common) (mt_name metric) attrs,
      mp_tsNs = bigintToString time, mp_startTsNs = positive_ns start,
      mp_value = None, mp_count = None, mp_sum = None, mp_min = None, mp_max = None,
      mp_boundsJson = None, mp_bucketCountsJson = None, mp_extraJson = None, mp_exemplarsJson = None\<rparr>"

definition numberPoint ::
  "(rat \<Rightarrow> string) \<Rightarrow> proto_metric \<Rightarrow> number_point \<Rightarrow> metric_type \<Rightarrow> series_common \<Rightarrow> string \<Rightarrow> metric_point" where
  "numberPoint num metric p ty common resourceFragment =
     (base_point num metric common resourceFragment ty (np_attributes p) (np_timeUnixNano p) (np_startTimeUnixNano p))
       \<lparr>mp_value := (case np_value p of AsDouble d \<Rightarrow> Some d | AsInt i \<Rightarrow> Some (bigint_number i) | NoNumber \<Rightarrow> None),
        mp_exemplarsJson := encodeExemplars num (np_exemplars p)\<rparr>"

definition counts_json :: "nat list \<Rightarrow> json" where
  "counts_json cs = JArr (map (\<lambda>c. JNum (bigint_number (int c))) cs)"

definition histogramPoint ::
  "(rat \<Rightarrow> string) \<Rightarrow> proto_metric \<Rightarrow> histogram_point \<Rightarrow> series_common \<Rightarrow> string \<Rightarrow> metric_point" where
  "histogramPoint num metric p common resourceFragment =
     (base_point num metric common resourceFragment THistogram (hp_attributes p) (hp_timeUnixNano p) (hp_startTimeUnixNano p))
       \<lparr>mp_count := Some (bigint_number (int (hp_count p))), mp_sum := hp_sum p, mp_min := hp_min p, mp_max := hp_max p,
        mp_boundsJson := (if hp_explicitBounds p = [] then None
          else Some (stringify num (JArr (map JNum (hp_explicitBounds p))))),
        mp_bucketCountsJson := (if hp_bucketCounts p = [] then None
          else Some (stringify num (counts_json (hp_bucketCounts p)))),
        mp_exemplarsJson := encodeExemplars num (hp_exemplars p)\<rparr>"

definition buckets_json :: "(int \<times> nat list) option \<Rightarrow> json" where
  "buckets_json b = (case b of None \<Rightarrow> JNull
     | Some (off, cs) \<Rightarrow> JObj [(''offset'', JNum (Num (of_int off))), (''bucketCounts'', counts_json cs)])"

definition expHistogramPoint ::
  "(rat \<Rightarrow> string) \<Rightarrow> proto_metric \<Rightarrow> exp_histogram_point \<Rightarrow> series_common \<Rightarrow> string \<Rightarrow> metric_point" where
  "expHistogramPoint num metric p common resourceFragment =
     (base_point num metric common resourceFragment TExpHistogram (ep_attributes p) (ep_timeUnixNano p) (ep_startTimeUnixNano p))
       \<lparr>mp_count := Some (bigint_number (int (ep_count p))), mp_sum := ep_sum p, mp_min := ep_min p, mp_max := ep_max p,
        mp_extraJson := Some (stringify num (JObj [(''scale'', JNum (Num (of_int (ep_scale p)))),
          (''zeroCount'', JNum (bigint_number (int (ep_zeroCount p)))), (''zeroThreshold'', JNum (ep_zeroThreshold p)),
          (''positive'', buckets_json (ep_positive p)), (''negative'', buckets_json (ep_negative p))])),
        mp_exemplarsJson := encodeExemplars num (ep_exemplars p)\<rparr>"

definition summaryPoint ::
  "(rat \<Rightarrow> string) \<Rightarrow> proto_metric \<Rightarrow> summary_point \<Rightarrow> series_common \<Rightarrow> string \<Rightarrow> metric_point" where
  "summaryPoint num metric p common resourceFragment =
     (base_point num metric common resourceFragment TSummary (sp_attributes p) (sp_timeUnixNano p) (sp_startTimeUnixNano p))
       \<lparr>mp_count := Some (bigint_number (int (sp_count p))), mp_sum := Some (sp_sum p),
        mp_extraJson := Some (stringify num (JObj [(''quantileValues'', JArr (map (\<lambda>(q, v).
          JObj [(''quantile'', JNum q), (''value'', JNum v)]) (sp_quantileValues p)))]))\<rparr>"

definition metric_points :: "(rat \<Rightarrow> string) \<Rightarrow> proto_metric \<Rightarrow> series_common \<Rightarrow> string \<Rightarrow> metric_point list" where
  "metric_points num metric common resourceFragment =
     (case mt_data metric of
        Gauge ps \<Rightarrow> map (\<lambda>p. numberPoint num metric p TGauge common resourceFragment) ps
      | Sum ps monotonic temp \<Rightarrow> map (\<lambda>p. (numberPoint num metric p TSum common resourceFragment)
          \<lparr>mp_isMonotonic := Some monotonic, mp_temporality := Some temp\<rparr>) ps
      | Histogram ps temp \<Rightarrow> map (\<lambda>p. (histogramPoint num metric p common resourceFragment)\<lparr>mp_temporality := Some temp\<rparr>) ps
      | ExponentialHistogram ps temp \<Rightarrow>
          map (\<lambda>p. (expHistogramPoint num metric p common resourceFragment)\<lparr>mp_temporality := Some temp\<rparr>) ps
      | Summary ps \<Rightarrow> map (\<lambda>p. summaryPoint num metric p common resourceFragment) ps
      | NoData \<Rightarrow> [])"

definition addMetrics ::
  "(rat \<Rightarrow> string) \<Rightarrow> metric_point list \<Rightarrow> proto_resource_metrics \<Rightarrow> proto_scope_metrics \<Rightarrow> string option \<Rightarrow> string option
     \<Rightarrow> metric_point list" where
  "addMetrics num out rm sm serviceName resourceAttrsJson =
     (let scopeName = (case psm_scope sm of None \<Rightarrow> None | Some (n, _) \<Rightarrow> nonempty n);
          scopeVersion = (case psm_scope sm of None \<Rightarrow> None | Some (_, v) \<Rightarrow> nonempty v);
          fragment = canonicalKeyValues num (case prm_resource rm of None \<Rightarrow> [] | Some as \<Rightarrow> as)
      in foldl (\<lambda>out metric. out @ metric_points num metric
           \<lparr>sc_name = mt_name metric, sc_description = nonempty (mt_description metric), sc_unit = nonempty (mt_unit metric),
            sc_scopeName = scopeName, sc_scopeVersion = scopeVersion, sc_serviceName = serviceName,
            sc_resourceAttrsJson = resourceAttrsJson\<rparr> fragment) out (psm_metrics sm))"

definition decode_resource_metrics :: "(rat \<Rightarrow> string) \<Rightarrow> proto_resource_metrics list \<Rightarrow> metric_point list" where
  "decode_resource_metrics num msg =
     foldl (\<lambda>out rm.
       let resourceAttrs = (case prm_resource rm of None \<Rightarrow> [] | Some as \<Rightarrow> as);
           resourceAttrsJson = record_text num resourceAttrs;
           serviceName = extractServiceName (Some resourceAttrs)
       in foldl (\<lambda>out sm. addMetrics num out rm sm serviceName resourceAttrsJson) out (prm_scopeMetrics rm)) [] msg"

definition decodeMetricsRequest ::
  "(rat \<Rightarrow> string) \<Rightarrow> (byte list \<Rightarrow> string + proto_resource_metrics list) \<Rightarrow> (json \<Rightarrow> string + proto_resource_metrics list)
     \<Rightarrow> (byte list \<Rightarrow> json option) \<Rightarrow> read_body_result \<Rightarrow> body_error + metric_point list" where
  "decodeMetricsRequest num fromBinary fromJson bodyJson body =
     res_bind (decode_message fromBinary fromJson bodyJson body) (\<lambda>msg. Inr (decode_resource_metrics num msg))"

section \<open>The handler\<close>

definition MAX_POINTS_PER_REQUEST :: nat where "MAX_POINTS_PER_REQUEST = 2000"

record metrics_batch =
  mb_projectId :: string
  mb_points :: "metric_point list"
  mb_receivedAt :: string
  mb_expiresAt :: string

definition ingest_metrics ::
  "(metrics_batch \<Rightarrow> bool) \<Rightarrow> string \<Rightarrow> int \<Rightarrow> string option \<Rightarrow> otlp_wire_format \<Rightarrow> metric_point list
     \<Rightarrow> http_response \<times> metrics_batch option" where
  "ingest_metrics store_ingest projectId now retentionEnv wireFormat points =
     (let rejected = (if length points > MAX_POINTS_PER_REQUEST then length points - MAX_POINTS_PER_REQUEST else 0);
          kept = (if length points > MAX_POINTS_PER_REQUEST then take MAX_POINTS_PER_REQUEST points else points);
          batch = \<lparr>mb_projectId = projectId, mb_points = kept, mb_receivedAt = toISOString now,
            mb_expiresAt = toISOString (now + getConfiguredRetentionHours retentionEnv * 60 * 60 * 1000)\<rparr>
      in if \<not> store_ingest batch then (otlpRetryableError 503 ''Storage temporarily unavailable'', None)
         else (if rejected > 0
            then ExportResponse wireFormat (Some \<lparr>rejected_count = rejected,
                   errorMessage = ''Batch exceeded '' @ decimal MAX_POINTS_PER_REQUEST @ ''-point cap; '' @
                     decimal rejected @ '' point(s) dropped''\<rparr>)
            else ExportResponse wireFormat None, Some batch))"

definition post_v1_metrics ::
  "(rat \<Rightarrow> string) \<Rightarrow> (byte list \<Rightarrow> byte list option) \<Rightarrow> (byte list \<Rightarrow> string + proto_resource_metrics list)
     \<Rightarrow> (json \<Rightarrow> string + proto_resource_metrics list) \<Rightarrow> (byte list \<Rightarrow> json option) \<Rightarrow> (metrics_batch \<Rightarrow> bool) \<Rightarrow> string
     \<Rightarrow> int \<Rightarrow> string option \<Rightarrow> (string \<Rightarrow> string option) \<Rightarrow> byte list \<Rightarrow> string + (http_response \<times> metrics_batch option)" where
  "post_v1_metrics num gunzip fromBinary fromJson bodyJson store_ingest projectId now retentionEnv header body =
     (case readOtlpBody gunzip header body of
        Inl (OtlpDecodeError msg status) \<Rightarrow> Inr (ErrorResponse status msg, None)
      | Inl (Foreign e) \<Rightarrow> Inl e
      | Inr read \<Rightarrow>
          (case decodeMetricsRequest num fromBinary fromJson bodyJson read of
             Inl (OtlpDecodeError msg status) \<Rightarrow> Inr (ErrorResponse status msg, None)
           | Inl (Foreign e) \<Rightarrow> Inl e
           | Inr points \<Rightarrow> Inr (ingest_metrics store_ingest projectId now retentionEnv (body_format read) points)))"

section \<open>The identity of a series\<close>

fun finite_value :: "any_value \<Rightarrow> bool" where
  "finite_value (DoubleValue d) = isFinite d"
| "finite_value (ArrayValue vs) = list_all finite_value vs"
| "finite_value (KvlistValue kvs) = list_all (\<lambda>kv. case snd kv of None \<Rightarrow> True | Some v \<Rightarrow> finite_value v) kvs"
| "finite_value _ = True"

definition finite_attributes :: "key_value list \<Rightarrow> bool" where
  "finite_attributes kvs \<longleftrightarrow> list_all (\<lambda>kv. case snd kv of None \<Rightarrow> True | Some v \<Rightarrow> finite_value v) kvs"

lemma obj_assign_values: "snd ` set (obj_assign m k v) \<subseteq> insert v (snd ` set m)"
proof -
  have "set (map_set m k v) \<subseteq> insert (k, v) (set m)" by (rule set_map_set)
  then show ?thesis by (auto simp: obj_assign_def obj_define_def set_insert_index)
qed

lemma foldl_assign_values:
  "snd ` set (foldl (\<lambda>out kv. obj_assign out (fst kv) (f kv)) acc kvs) \<subseteq> snd ` set acc \<union> f ` set kvs"
proof (induction kvs arbitrary: acc)
  case (Cons kv kvs)
  then show ?case using obj_assign_values [of acc "fst kv" "f kv"] by force
qed simp

lemma finite_json_obj: "finite_json (JObj kvs) \<longleftrightarrow> (\<forall>v \<in> snd ` set kvs. finite_json v)"
  by (auto simp: list_all_iff)

lemma finite_anyValueToJson: "finite_value v \<Longrightarrow> finite_json (anyValueToJson v)"
proof (induction v rule: anyValueToJson.induct)
  case (6 vs)
  then show ?case by (auto simp: list_all_iff)
next
  case (7 kvs)
  let ?f = "\<lambda>kv. case snd kv of None \<Rightarrow> JNull | Some v \<Rightarrow> anyValueToJson v"
  have "finite_json (?f kv)" if "kv \<in> set kvs" for kv
    using 7 that by (auto simp: list_all_iff split: option.splits)
  then show ?case
    using foldl_assign_values [of "\<lambda>kv. snd kv" "[]" "map (\<lambda>kv. (fst kv, ?f kv)) kvs"]
    by (simp only: anyValueToJson.simps finite_json_obj) force
qed (simp_all add: bigint_number_def isFinite_def)

lemma finite_record: "finite_attributes kvs \<Longrightarrow> v \<in> snd ` set (keyValuesToRecord kvs) \<Longrightarrow> finite_json v"
  using foldl_assign_values [of "\<lambda>kv. case snd kv of None \<Rightarrow> JNull | Some v \<Rightarrow> anyValueToJson v" "[]" kvs] finite_anyValueToJson
  by (fastforce simp: keyValuesToRecord_def finite_attributes_def list_all_iff split: option.splits)

lemma map_wf_record: "map_wf (keyValuesToRecord kvs)"
proof -
  have "map_wf acc \<Longrightarrow> map_wf (foldl (\<lambda>out kv. obj_assign out (fst kv) (f kv)) acc kvs)" for acc :: "(string \<times> json) list" and f
    by (induction kvs arbitrary: acc) (simp_all add: obj_assign_def map_wf_define)
  then show ?thesis by (simp add: keyValuesToRecord_def map_wf_def)
qed

abbreviation attribute_json :: "any_value option \<Rightarrow> json" where
  "attribute_json v \<equiv> (case v of None \<Rightarrow> JNull | Some w \<Rightarrow> anyValueToJson w)"

lemma map_get_assign: "map_get (obj_assign m k v) k' = (if k' = k \<and> k \<noteq> ''__proto__'' then Some v else map_get m k')"
  by (simp add: obj_assign_def map_get_define)

lemma map_get_record:
  "map_get (keyValuesToRecord kvs) k =
     (if k = ''__proto__'' then None else map_option attribute_json (map_of (rev kvs) k))"
proof -
  have "map_get (foldl (\<lambda>out kv. obj_assign out (fst kv) (attribute_json (snd kv))) acc kvs) k =
      (if k = ''__proto__'' then map_get acc k
       else case map_of (rev kvs) k of None \<Rightarrow> map_get acc k | Some v \<Rightarrow> Some (attribute_json v))" for acc
  proof (induction kvs arbitrary: acc)
    case (Cons kv kvs)
    obtain k' v where kv: "kv = (k', v)" by (cases kv)
    show ?case
      by (auto simp: kv Cons map_get_assign map_add_def split: option.split)
  qed simp
  from this [of "[]"] show ?thesis
    by (simp add: keyValuesToRecord_def map_get_def split: option.split)
qed

lemma sorted_keys: "map_wf r \<Longrightarrow> sort (map fst r) = sorted_list_of_set {k. map_get r k \<noteq> None}"
proof -
  assume "map_wf r"
  then have "sort (map fst r) = sorted_list_of_set (set (map fst r))"
    using sorted_list_of_set_sort_remdups [of "map fst r"] by (simp add: map_wf_def distinct_remdups_id)
  moreover have "set (map fst r) = {k. map_get r k \<noteq> None}" using amap.keys_get [of _ r] by auto
  ultimately show ?thesis by simp
qed

lemma canonical_unfold:
  "attrs \<noteq> [] \<Longrightarrow> canonicalKeyValues num attrs =
     stringify num (JArr (map (\<lambda>k. JArr [JStr k, lookup_json (keyValuesToRecord attrs) k])
       (sorted_list_of_set {k. map_get (keyValuesToRecord attrs) k \<noteq> None})))"
  by (simp add: canonicalKeyValues_def Let_def sorted_keys map_wf_record del: stringify.simps)

text \<open>The identity of a metric series does not depend on the order in which a client lists the attributes of
  the resource or of the point.
\<close>

theorem identity_order_independent:
  assumes "distinct (map fst attrs)" and "mset attrs = mset attrs'"
    and "distinct (map fst res)" and "mset res = mset res'"
  shows "buildIdentity num (canonicalKeyValues num res) scope name attrs
    = buildIdentity num (canonicalKeyValues num res') scope name attrs'"
proof -
  have same: "canonicalKeyValues num as = canonicalKeyValues num as'"
    if "distinct (map fst as)" "mset as = mset as'" for as as' :: "key_value list"
  proof (cases "as = []")
    case False
    have "distinct (map fst as')" using that by (metis mset_eq_imp_distinct_iff mset_map)
    then have "map_of (rev as) = map_of (rev as')"
      using that by (metis map_of_inject_set mset_eq_setD mset_rev rev_map distinct_rev set_rev)
    then have "map_get (keyValuesToRecord as) = map_get (keyValuesToRecord as')"
      by (intro ext) (simp add: map_get_record)
    moreover have "as' \<noteq> []" using False that(2) by auto
    ultimately show ?thesis using False by (simp add: canonical_unfold lookup_json_def [abs_def] del: stringify.simps)
  qed (use that in simp)
  show ?thesis using same [OF assms(1,2)] same [OF assms(3,4)] by (simp add: buildIdentity_def)
qed

theorem identity_order_independent_witness:
  "buildIdentity (\<lambda>_. ''0'') (canonicalKeyValues (\<lambda>_. ''0'') []) None ''m'' [(''b'', Some (BoolValue True)), (''a'', None)] =
     buildIdentity (\<lambda>_. ''0'') (canonicalKeyValues (\<lambda>_. ''0'') []) None ''m'' [(''a'', None), (''b'', Some (BoolValue True))]"
  by (rule identity_order_independent) simp_all

lemma pairs_inject:
  "map (\<lambda>k. JArr [JStr k, f k]) xs = map (\<lambda>k. JArr [JStr k, g k]) ys \<Longrightarrow> xs = ys \<and> (\<forall>k \<in> set xs. f k = g k)"
  by (induction xs arbitrary: ys) (auto simp: Cons_eq_map_conv)

lemma canonical_inject:
  assumes num: "number_text num" and fin: "finite_attributes as" "finite_attributes as'"
    and eq: "canonicalKeyValues num as = canonicalKeyValues num as'"
  shows "map_get (keyValuesToRecord as) = map_get (keyValuesToRecord as')"
proof (cases "as = [] \<or> as' = []")
  case True
  have empty: "canonicalKeyValues num bs = [] \<longleftrightarrow> bs = []" for bs by (simp add: canonicalKeyValues_def Let_def)
  have "as = [] \<longleftrightarrow> as' = []" unfolding empty [symmetric] eq by (rule refl)
  with True have "as = as'" by blast
  then show ?thesis by simp
next
  case False
  let ?keys = "\<lambda>as. sorted_list_of_set {k. map_get (keyValuesToRecord as) k \<noteq> None}"
  let ?pairs = "\<lambda>as. map (\<lambda>k. JArr [JStr k, lookup_json (keyValuesToRecord as) k]) (?keys as)"
  have dom: "finite {k. map_get (keyValuesToRecord as) k \<noteq> None}" for as
    using finite_dom_map_of [of "keyValuesToRecord as"] by (simp add: map_get_def dom_def)
  have fine: "finite_json (JArr (?pairs as))" if "finite_attributes as" for as
    using finite_record [OF that] dom [of as]
    by (force simp: list_all_iff lookup_json_def map_get_def dest: map_of_SomeD split: option.split)
  have pairs: "?pairs as = ?pairs as'"
    using stringify_inject [OF num fine [OF fin(1)] fine [OF fin(2)]] eq False by (simp add: canonical_unfold del: stringify.simps)
  have keys: "?keys as = ?keys as'" and same: "\<forall>k \<in> set (?keys as). lookup_json (keyValuesToRecord as) k = lookup_json (keyValuesToRecord as') k"
    using pairs_inject [OF pairs] by (rule conjunct1, rule conjunct2)
  from keys have sets: "{k. map_get (keyValuesToRecord as) k \<noteq> None} = {k. map_get (keyValuesToRecord as') k \<noteq> None}"
    using dom by (metis set_sorted_list_of_set)
  show ?thesis
  proof
    fix k
    have "lookup_json (keyValuesToRecord as) k = lookup_json (keyValuesToRecord as') k"
      if "map_get (keyValuesToRecord as) k \<noteq> None" using same dom [of as] that by simp
    moreover have "map_get (keyValuesToRecord as) k \<noteq> None \<longleftrightarrow> map_get (keyValuesToRecord as') k \<noteq> None"
      using sets by blast
    ultimately show "map_get (keyValuesToRecord as) k = map_get (keyValuesToRecord as') k"
      by (cases "map_get (keyValuesToRecord as) k"; cases "map_get (keyValuesToRecord as') k") (auto simp: lookup_json_def)
  qed
qed

text \<open>Distinct series never share an identity: if the identities of two points agree, then so do their
  resource attributes, scope name, metric name and attributes (as records, a missing scope counting as the empty
  name), provided no attribute is a non-finite number, which JSON prints as null.
\<close>

theorem identity_injective:
  assumes "number_text num" and "finite_attributes res" and "finite_attributes res'"
    and "finite_attributes attrs" and "finite_attributes attrs'"
    and "buildIdentity num (canonicalKeyValues num res) scope name attrs
      = buildIdentity num (canonicalKeyValues num res') scope' name' attrs'"
  shows "map_get (keyValuesToRecord res) = map_get (keyValuesToRecord res') \<and>
    (case scope of None \<Rightarrow> [] | Some s \<Rightarrow> s) = (case scope' of None \<Rightarrow> [] | Some s \<Rightarrow> s) \<and> name = name' \<and>
    map_get (keyValuesToRecord attrs) = map_get (keyValuesToRecord attrs')"
proof -
  let ?j = "\<lambda>r s n a. JArr [JStr r, JStr (case s of None \<Rightarrow> [] | Some s \<Rightarrow> s), JStr n, JStr a]"
  have "?j (canonicalKeyValues num res) scope name (canonicalKeyValues num attrs)
      = ?j (canonicalKeyValues num res') scope' name' (canonicalKeyValues num attrs')"
    by (rule stringify_inject [OF assms(1)]) (use assms(6) in \<open>simp_all add: buildIdentity_def del: stringify.simps\<close>)
  then show ?thesis
    using canonical_inject [OF assms(1,2,3)] canonical_inject [OF assms(1,4,5)] by simp
qed

definition sample_number :: "rat \<Rightarrow> string" where
  "sample_number q = int_text (fst (quotient_of q)) @ ''e'' @ int_text (snd (quotient_of q))"

lemma int_text_chars: "list_all (\<lambda>c. is_digit c \<or> c = CHR ''-'') (int_text i)"
  using decimal_digits by (auto simp: int_text_def list_all_iff)

lemma int_text_inj: "int_text i = int_text j \<Longrightarrow> i = j"
proof -
  assume eq: "int_text i = int_text j"
  have d: "decimal n \<noteq> ''-'' @ s" for n s
    using decimal_digits [of n] by (cases "decimal n") (auto simp: is_digit_def char_code_def)
  show ?thesis
  proof (cases "i < 0"; cases "j < 0")
    assume "i < 0" "j < 0"
    then show ?thesis using eq decimal_inj [of "nat (- i)" "nat (- j)"] by (simp add: int_text_def del: decimal.simps)
  next
    assume "\<not> i < 0" "\<not> j < 0"
    then show ?thesis using eq decimal_inj [of "nat i" "nat j"] by (simp add: int_text_def del: decimal.simps)
  qed (use eq d [of "nat i" "decimal (nat (- j))"] d [of "nat j" "decimal (nat (- i))"] in
      \<open>simp_all add: int_text_def del: decimal.simps\<close>)
qed

lemma sample_number_ok: "number_text sample_number"
proof -
  have e: "\<not> (is_digit (CHR ''e'') \<or> CHR ''e'' = CHR ''-'')" by (simp add: is_digit_def char_code_def)
  have split: "a = a' \<and> b = b'"
    if "int_text a @ ''e'' @ int_text b = int_text a' @ ''e'' @ int_text b'" for a a' b b'
  proof -
    let ?P = "\<lambda>c. is_digit c \<or> c = CHR ''-''"
    have "takeWhile ?P (int_text x @ ''e'' @ s) = int_text x \<and> dropWhile ?P (int_text x @ ''e'' @ s) = ''e'' @ s" for x s
      using int_text_chars [of x] e by (auto simp: list_all_iff takeWhile_append2 dropWhile_append2)
    then show ?thesis using that int_text_inj by (metis same_append_eq)
  qed
  have "inj sample_number"
  proof (rule injI)
    fix q r
    assume "sample_number q = sample_number r"
    then have "fst (quotient_of q) = fst (quotient_of r) \<and> snd (quotient_of q) = snd (quotient_of r)"
      unfolding sample_number_def by (rule split)
    then show "q = r" by (intro quotient_of_inject prod_eqI) simp_all
  qed
  moreover have "list_all number_char (sample_number q)" for q
    using int_text_chars by (auto simp: sample_number_def list_all_iff number_char_def)
  ultimately show ?thesis by (simp add: number_text_def sample_number_def)
qed

theorem identity_injective_witness:
  "buildIdentity sample_number (canonicalKeyValues sample_number []) None ''m'' [(''a'', Some (StringValue ''x,\"b\":\"y''))] \<noteq>
     buildIdentity sample_number (canonicalKeyValues sample_number []) None ''m''
       [(''a'', Some (StringValue ''x'')), (''b'', Some (StringValue ''y''))]"
proof
  assume "buildIdentity sample_number (canonicalKeyValues sample_number []) None ''m'' [(''a'', Some (StringValue ''x,\"b\":\"y''))] =
     buildIdentity sample_number (canonicalKeyValues sample_number []) None ''m''
       [(''a'', Some (StringValue ''x'')), (''b'', Some (StringValue ''y''))]"
  from identity_injective [OF sample_number_ok _ _ _ _ this]
  have "map_get (keyValuesToRecord [(''a'', Some (StringValue ''x,\"b\":\"y''))]) ''b'' =
      map_get (keyValuesToRecord [(''a'', Some (StringValue ''x'')), (''b'', Some (StringValue ''y''))]) ''b''"
    by (simp add: finite_attributes_def)
  then show False by (simp add: map_get_record)
qed

section \<open>What the handler stores\<close>

definition data_points :: "metric_data \<Rightarrow> (metric_type \<times> nat \<times> key_value list) list" where
  "data_points d = (case d of
       Gauge ps \<Rightarrow> map (\<lambda>p. (TGauge, np_timeUnixNano p, np_attributes p)) ps
     | Sum ps _ _ \<Rightarrow> map (\<lambda>p. (TSum, np_timeUnixNano p, np_attributes p)) ps
     | Histogram ps _ \<Rightarrow> map (\<lambda>p. (THistogram, hp_timeUnixNano p, hp_attributes p)) ps
     | ExponentialHistogram ps _ \<Rightarrow> map (\<lambda>p. (TExpHistogram, ep_timeUnixNano p, ep_attributes p)) ps
     | Summary ps \<Rightarrow> map (\<lambda>p. (TSummary, sp_timeUnixNano p, sp_attributes p)) ps
     | NoData \<Rightarrow> [])"

text \<open>The points a request carries, each under the series it belongs to.\<close>

definition request_points :: "(rat \<Rightarrow> string) \<Rightarrow> proto_resource_metrics list \<Rightarrow> (metric_type \<times> string \<times> string \<times> string) list" where
  "request_points num msg = concat (map (\<lambda>rm. concat (map (\<lambda>sm. concat (map (\<lambda>m.
     map (\<lambda>(ty, time, attrs). (ty, mt_name m, decimal time,
        buildIdentity num (canonicalKeyValues num (case prm_resource rm of None \<Rightarrow> [] | Some as \<Rightarrow> as))
          (case psm_scope sm of None \<Rightarrow> None | Some (n, _) \<Rightarrow> nonempty n) (mt_name m) attrs))
       (data_points (mt_data m))) (psm_metrics sm))) (prm_scopeMetrics rm))) msg)"

definition point_key :: "metric_point \<Rightarrow> metric_type \<times> string \<times> string \<times> string" where
  "point_key p = (mp_type p, mp_name p, mp_tsNs p, mp_identity p)"

lemma metric_points_key:
  "map point_key (metric_points num m common frag) =
     map (\<lambda>(ty, time, attrs). (ty, sc_name common, decimal time, buildIdentity num frag (sc_scopeName common) (mt_name m) attrs))
       (data_points (mt_data m))"
  by (cases "mt_data m")
    (simp_all add: metric_points_def data_points_def point_key_def numberPoint_def histogramPoint_def expHistogramPoint_def
      summaryPoint_def base_point_def bigintToString_def comp_def)

lemma foldl_append_concat: "foldl (\<lambda>out x. out @ f x) acc xs = acc @ concat (map f xs)"
  by (induction xs arbitrary: acc) simp_all

lemma decode_metrics_keys: "map point_key (decode_resource_metrics num msg) = request_points num msg"
  by (simp add: decode_resource_metrics_def addMetrics_def Let_def foldl_append_concat request_points_def map_concat comp_def
      metric_points_key)

text \<open>
  C12: When the store accepts the batch, the points it holds are the first 2000 data points of the request, in
  order and each with its type, name, time and series identity, whatever the kind of the metric; the response
  reports exactly the points over the cap.  When the store fails, nothing is kept and the client is told to
  retry.
\<close>

theorem metrics_stored:
  "let (resp, batch) = ingest_metrics (\<lambda>_. ok) pid now env wire (decode_resource_metrics num msg)
   in (batch \<noteq> None \<longleftrightarrow> ok) \<and> (case batch of
        None \<Rightarrow> resp = otlpRetryableError 503 ''Storage temporarily unavailable''
      | Some b \<Rightarrow> map point_key (mb_points b) = take 2000 (request_points num msg) \<and>
          resp = ExportResponse wire (if length (request_points num msg) \<le> 2000 then None
            else Some \<lparr>rejected_count = length (request_points num msg) - 2000,
              errorMessage = ''Batch exceeded 2000-point cap; '' @ decimal (length (request_points num msg) - 2000) @ '' point(s) dropped''\<rparr>))"
proof -
  have cap: "decimal 2000 = ''2000''" by code_simp
  have len: "length (decode_resource_metrics num msg) = length (request_points num msg)"
    using arg_cong [OF decode_metrics_keys, of length num msg] by simp
  show ?thesis
    by (simp add: ingest_metrics_def Let_def MAX_POINTS_PER_REQUEST_def len cap take_map [symmetric] decode_metrics_keys)
qed

end
