(* ===== verification/Otlp_Logs.thy ===== *)
theory Otlp_Logs
  imports Otlp_Traces
begin

text \<open>
  Log ingestion: \<^verbatim>\<open>packages/obs-collector/src/otlp/decode/logs.ts\<close> and the \<^verbatim>\<open>/v1/logs\<close> handler of
  \<^verbatim>\<open>plugins/logs-receiver.ts\<close>.  The clock, the generated log ids and the store are parameters.  Shown: the
  records of a request are stored in order up to the cap, the excess is what the response reports, and
  the stored severity and its number never contradict each other.
\<close>

section \<open>Decoding\<close>

record proto_log =
  lg_timeUnixNano :: nat
  lg_observedTimeUnixNano :: nat
  lg_traceId :: "byte list"
  lg_spanId :: "byte list"
  lg_severityNumber :: int
  lg_severityText :: string
  lg_body :: "any_value option"
  lg_attributes :: "key_value list"
  lg_flags :: nat
  lg_droppedAttributesCount :: nat

record proto_scope_logs =
  psl_scope_name :: "string option"
  psl_logRecords :: "proto_log list"

record proto_resource_logs =
  prl_resource :: "key_value list option"
  prl_scopeLogs :: "proto_scope_logs list"

record decoded_log =
  dl_serviceName :: "string option"
  dl_loggerName :: "string option"
  dl_traceId :: "string option"
  dl_spanId :: "string option"
  dl_severity :: string
  dl_severityNumber :: int
  dl_message :: string
  dl_attributes :: "(string \<times> json) list option"
  dl_flags :: nat
  dl_droppedAttributesCount :: nat
  dl_occurredAt :: string

definition adaptLogRecord ::
  "(rat \<Rightarrow> string) \<Rightarrow> int \<Rightarrow> proto_log \<Rightarrow> string option \<Rightarrow> string option \<Rightarrow> decoded_log" where
  "adaptLogRecord num now rcd serviceName loggerName =
     (let ts = (if lg_timeUnixNano rcd \<noteq> 0 then lg_timeUnixNano rcd else lg_observedTimeUnixNano rcd)
      in \<lparr>dl_serviceName = serviceName, dl_loggerName = loggerName,
          dl_traceId = (if length (lg_traceId rcd) = 16 then Some (bytesToHex (lg_traceId rcd)) else None),
          dl_spanId = (if length (lg_spanId rcd) = 8 then Some (bytesToHex (lg_spanId rcd)) else None),
          dl_severity = severityFromNumber (lg_severityNumber rcd) (lg_severityText rcd),
          dl_severityNumber = lg_severityNumber rcd,
          dl_message = anyValueToString num (lg_body rcd),
          dl_attributes = (if lg_attributes rcd \<noteq> [] then Some (keyValuesToRecord (lg_attributes rcd)) else None),
          dl_flags = lg_flags rcd,
          dl_droppedAttributesCount = lg_droppedAttributesCount rcd,
          dl_occurredAt = (if ts > 0 then toISOString (int (ts div 1000000)) else toISOString now)\<rparr>)"

definition decode_resource_logs :: "(rat \<Rightarrow> string) \<Rightarrow> int \<Rightarrow> proto_resource_logs list \<Rightarrow> decoded_log list" where
  "decode_resource_logs num now msg =
     concat (map (\<lambda>rl. let serviceName = extractServiceName (prl_resource rl) in
       concat (map (\<lambda>sl. let loggerName = Option.bind (psl_scope_name sl) nonempty in
         map (\<lambda>rcd. adaptLogRecord num now rcd serviceName loggerName) (psl_logRecords sl)) (prl_scopeLogs rl))) msg)"

definition decodeLogsRequest ::
  "(rat \<Rightarrow> string) \<Rightarrow> int \<Rightarrow> (byte list \<Rightarrow> string + proto_resource_logs list) \<Rightarrow> (json \<Rightarrow> string + proto_resource_logs list)
     \<Rightarrow> (byte list \<Rightarrow> json option) \<Rightarrow> read_body_result \<Rightarrow> body_error + decoded_log list" where
  "decodeLogsRequest num now fromBinary fromJson bodyJson body =
     res_bind (decode_message fromBinary fromJson bodyJson body) (\<lambda>msg. Inr (decode_resource_logs num now msg))"

section \<open>The handler\<close>

definition MAX_LOGS_PER_REQUEST :: nat where "MAX_LOGS_PER_REQUEST = 1000"

definition severityToNumber :: "string \<Rightarrow> int" where
  "severityToNumber s = (if s = ''DEBUG'' then 5 else if s = ''INFO'' then 9 else if s = ''WARN'' then 13
     else if s = ''ERROR'' then 17 else 21)"

record log_record =
  lr_projectId :: string
  lr_logId :: string
  lr_traceId :: "string option"
  lr_spanId :: "string option"
  lr_serviceName :: "string option"
  lr_severity :: string
  lr_severityNumber :: int
  lr_loggerName :: "string option"
  lr_message :: string
  lr_attributesJson :: "string option"
  lr_flags :: nat
  lr_droppedAttributesCount :: nat
  lr_occurredAt :: string
  lr_receivedAt :: string
  lr_expiresAt :: string
  lr_sessionId :: "string option"
  lr_interactionId :: "string option"

definition string_attribute :: "(string \<times> json) list option \<Rightarrow> string \<Rightarrow> string option" where
  "string_attribute attributes key =
     (case attributes of None \<Rightarrow> None
      | Some as \<Rightarrow> (case map_get as key of Some (JStr s) \<Rightarrow> if s \<noteq> [] then Some s else None | _ \<Rightarrow> None))"

definition to_log_record ::
  "(rat \<Rightarrow> string) \<Rightarrow> string \<Rightarrow> int \<Rightarrow> int \<Rightarrow> string \<Rightarrow> decoded_log \<Rightarrow> log_record" where
  "to_log_record num projectId now retentionHours uuid d =
     \<lparr>lr_projectId = projectId, lr_logId = uuid, lr_traceId = dl_traceId d, lr_spanId = dl_spanId d,
      lr_serviceName = dl_serviceName d, lr_severity = dl_severity d,
      lr_severityNumber = (if dl_severityNumber d \<noteq> 0 then dl_severityNumber d else severityToNumber (dl_severity d)),
      lr_loggerName = dl_loggerName d, lr_message = dl_message d,
      lr_attributesJson = map_option (\<lambda>as. stringify num (JObj as)) (dl_attributes d),
      lr_flags = dl_flags d, lr_droppedAttributesCount = dl_droppedAttributesCount d,
      lr_occurredAt = dl_occurredAt d, lr_receivedAt = toISOString now,
      lr_expiresAt = toISOString (now + retentionHours * 60 * 60 * 1000),
      lr_sessionId = string_attribute (dl_attributes d) ''session.id'',
      lr_interactionId = string_attribute (dl_attributes d) ''obs.interaction.id''\<rparr>"

text \<open>The handler after decoding; \<open>uuid i\<close> is the id generated for the i-th record.\<close>

definition ingest_logs ::
  "(rat \<Rightarrow> string) \<Rightarrow> (nat \<Rightarrow> string) \<Rightarrow> (log_record list \<Rightarrow> bool) \<Rightarrow> bool \<Rightarrow> string \<Rightarrow> int \<Rightarrow> string option
     \<Rightarrow> otlp_wire_format \<Rightarrow> decoded_log list \<Rightarrow> http_response \<times> log_record list \<times> log_record list" where
  "ingest_logs num uuid store_ingest has_tail projectId now retentionEnv wireFormat decoded =
     (let rejected = (if length decoded > MAX_LOGS_PER_REQUEST then length decoded - MAX_LOGS_PER_REQUEST else 0);
          kept = (if length decoded > MAX_LOGS_PER_REQUEST then take MAX_LOGS_PER_REQUEST decoded else decoded);
          retentionHours = getConfiguredRetentionHours retentionEnv;
          records = map (\<lambda>(i, d). to_log_record num projectId now retentionHours (uuid i) d) (zip [0..<length kept] kept)
      in if \<not> store_ingest records then (otlpRetryableError 503 ''Storage temporarily unavailable'', [], [])
         else
           (if rejected > 0
            then ExportResponse wireFormat (Some \<lparr>rejected_count = rejected,
                   errorMessage = ''Batch exceeded '' @ decimal MAX_LOGS_PER_REQUEST @ ''-record cap; '' @
                     decimal rejected @ '' record(s) dropped''\<rparr>)
            else ExportResponse wireFormat None,
            records, if records \<noteq> [] \<and> has_tail then records else []))"

definition post_v1_logs ::
  "(rat \<Rightarrow> string) \<Rightarrow> (byte list \<Rightarrow> byte list option) \<Rightarrow> (byte list \<Rightarrow> string + proto_resource_logs list)
     \<Rightarrow> (json \<Rightarrow> string + proto_resource_logs list) \<Rightarrow> (byte list \<Rightarrow> json option) \<Rightarrow> (nat \<Rightarrow> string)
     \<Rightarrow> (log_record list \<Rightarrow> bool) \<Rightarrow> bool \<Rightarrow> string \<Rightarrow> int \<Rightarrow> string option \<Rightarrow> (string \<Rightarrow> string option) \<Rightarrow> byte list
     \<Rightarrow> string + (http_response \<times> log_record list \<times> log_record list)" where
  "post_v1_logs num gunzip fromBinary fromJson bodyJson uuid store_ingest has_tail projectId now retentionEnv header body =
     (case readOtlpBody gunzip header body of
        Inl (OtlpDecodeError msg status) \<Rightarrow> Inr (ErrorResponse status msg, [], [])
      | Inl (Foreign e) \<Rightarrow> Inl e
      | Inr read \<Rightarrow>
          (case decodeLogsRequest num now fromBinary fromJson bodyJson read of
             Inl (OtlpDecodeError msg status) \<Rightarrow> Inr (ErrorResponse status msg, [], [])
           | Inl (Foreign e) \<Rightarrow> Inl e
           | Inr decoded \<Rightarrow> Inr (ingest_logs num uuid store_ingest has_tail projectId now retentionEnv
               (body_format read) decoded)))"

section \<open>Properties\<close>

definition severities :: "string set" where
  "severities = {''FATAL'', ''ERROR'', ''WARN'', ''INFO'', ''DEBUG''}"

lemma severityFromNumber_in: "severityFromNumber n t \<in> severities"
  by (simp add: severityFromNumber_def severities_def Let_def)

lemma severity_number_back: "s \<in> severities \<Longrightarrow> severityFromNumber (severityToNumber s) t = s"
  by (auto simp: severities_def severityToNumber_def severityFromNumber_def)

lemma severity_text_irrelevant: "1 \<le> n \<Longrightarrow> severityFromNumber n t = severityFromNumber n t'"
  by (simp add: severityFromNumber_def)

lemma record_severity:
  assumes "dl_severity d = severityFromNumber n t" and "dl_severityNumber d = n" and "0 \<le> n"
  shows "lr_severity (to_log_record num pid now ret u d) \<in> severities \<and>
    severityFromNumber (lr_severityNumber (to_log_record num pid now ret u d)) [] = lr_severity (to_log_record num pid now ret u d)"
proof (cases "n = 0")
  case True
  then show ?thesis using assms severityFromNumber_in severity_number_back by (simp add: to_log_record_def)
next
  case False
  then show ?thesis using assms severityFromNumber_in severity_text_irrelevant [of n] by (simp add: to_log_record_def)
qed

definition proto_logs :: "proto_resource_logs list \<Rightarrow> proto_log list" where
  "proto_logs msg = concat (map (\<lambda>rl. concat (map psl_logRecords (prl_scopeLogs rl))) msg)"

lemma map_zip_index: "map (\<lambda>x. f (snd x)) (zip [0..<length xs] xs) = map f xs"
  by (intro nth_equalityI) auto

lemma decode_logs_flat:
  assumes "\<And>rcd sv lg. f (adaptLogRecord num now rcd sv lg) = g rcd"
  shows "map f (decode_resource_logs num now msg) = map g (proto_logs msg)"
  by (simp add: decode_resource_logs_def proto_logs_def Let_def map_concat comp_def assms)

text \<open>
  C11: For every log record stored from a decoded request with a non-negative severity number, the severity is
  one of the five names and is the one its stored number stands for; and the records stored are the first
  1000 of the request, in order, with the excess over the cap being what the response reports.
\<close>

theorem logs_stored:
  assumes "\<forall>rcd \<in> set (proto_logs msg). 0 \<le> lg_severityNumber rcd"
  shows "let (resp, stored, tail) = ingest_logs num uuid (\<lambda>_. True) has_tail pid now env wire (decode_resource_logs num now msg)
    in map lr_message stored = map (\<lambda>rcd. anyValueToString num (lg_body rcd)) (take 1000 (proto_logs msg)) \<and>
       resp = ExportResponse wire (if length (proto_logs msg) \<le> 1000 then None
         else Some \<lparr>rejected_count = length (proto_logs msg) - 1000, errorMessage = ''Batch exceeded 1000-record cap; '' @
           decimal (length (proto_logs msg) - 1000) @ '' record(s) dropped''\<rparr>) \<and>
       list_all (\<lambda>r. lr_severity r \<in> {''FATAL'', ''ERROR'', ''WARN'', ''INFO'', ''DEBUG''} \<and>
         severityFromNumber (lr_severityNumber r) [] = lr_severity r) stored"
proof -
  define decoded where "decoded = decode_resource_logs num now msg"
  define ret where "ret = getConfiguredRetentionHours env"
  define stored where "stored = map (\<lambda>(i, d). to_log_record num pid now ret (uuid i) d)
      (zip [0..<length (take 1000 decoded)] (take 1000 decoded))"
  have cap: "decimal 1000 = ''1000''" by code_simp
  have flat: "map dl_message decoded = map (\<lambda>rcd. anyValueToString num (lg_body rcd)) (proto_logs msg)"
    and sev: "map (\<lambda>d. (dl_severity d, dl_severityNumber d)) decoded
      = map (\<lambda>rcd. (severityFromNumber (lg_severityNumber rcd) (lg_severityText rcd), lg_severityNumber rcd)) (proto_logs msg)"
    unfolding decoded_def by (rule decode_logs_flat; simp add: adaptLogRecord_def Let_def)+
  have len: "length decoded = length (proto_logs msg)" using arg_cong [OF flat, of length] by simp
  have out: "ingest_logs num uuid (\<lambda>_. True) has_tail pid now env wire decoded =
      (ExportResponse wire (if length decoded \<le> 1000 then None
         else Some \<lparr>rejected_count = length decoded - 1000, errorMessage = ''Batch exceeded 1000-record cap; '' @
           decimal (length decoded - 1000) @ '' record(s) dropped''\<rparr>), stored, if stored \<noteq> [] \<and> has_tail then stored else [])"
    by (simp add: ingest_logs_def Let_def MAX_LOGS_PER_REQUEST_def cap stored_def ret_def)
  have "map lr_message stored = map dl_message (take 1000 decoded)"
  proof -
    have "lr_message (to_log_record num pid now ret u d) = dl_message d" for u d by (simp add: to_log_record_def)
    then show ?thesis using map_zip_index [of dl_message "take 1000 decoded"]
      by (simp add: stored_def comp_def case_prod_beta)
  qed
  then have msgs: "map lr_message stored = map (\<lambda>rcd. anyValueToString num (lg_body rcd)) (take 1000 (proto_logs msg))"
    by (simp add: flat take_map [symmetric])
  have "lr_severity r \<in> severities \<and> severityFromNumber (lr_severityNumber r) [] = lr_severity r" if r: "r \<in> set stored" for r
  proof -
    from r obtain d u where d: "d \<in> set decoded" and rd: "r = to_log_record num pid now ret u d"
      by (auto simp: stored_def dest!: set_zip_rightD in_set_takeD)
    then have "(dl_severity d, dl_severityNumber d) \<in> set (map (\<lambda>d. (dl_severity d, dl_severityNumber d)) decoded)" by simp
    then show ?thesis unfolding sev rd using assms record_severity [of d] by auto
  qed
  then have "list_all (\<lambda>r. lr_severity r \<in> {''FATAL'', ''ERROR'', ''WARN'', ''INFO'', ''DEBUG''} \<and>
      severityFromNumber (lr_severityNumber r) [] = lr_severity r) stored"
    unfolding list_all_iff severities_def by blast
  with msgs len show ?thesis unfolding decoded_def [symmetric] out by simp
qed

definition sample_log :: proto_log where
  "sample_log = \<lparr>lg_timeUnixNano = 1700000000123000000, lg_observedTimeUnixNano = 0, lg_traceId = [], lg_spanId = [],
     lg_severityNumber = 0, lg_severityText = ''warn'', lg_body = Some (StringValue ''disk full''), lg_attributes = [],
     lg_flags = 0, lg_droppedAttributesCount = 0\<rparr>"

definition sample_logs :: "proto_resource_logs list" where
  "sample_logs = [\<lparr>prl_resource = None, prl_scopeLogs = [\<lparr>psl_scope_name = Some '''', psl_logRecords = [sample_log]\<rparr>]\<rparr>]"

theorem logs_stored_witness:
  "map lr_message (fst (snd (ingest_logs (\<lambda>_. ''0'') decimal (\<lambda>_. True) False ''p'' 0 None WireJson (decode_resource_logs (\<lambda>_. ''0'') 0 sample_logs))))
     = [''disk full'']"
proof -
  have "\<forall>rcd \<in> set (proto_logs sample_logs). 0 \<le> lg_severityNumber rcd"
    by (simp add: proto_logs_def sample_logs_def sample_log_def)
  from logs_stored [OF this, of "\<lambda>_. ''0''" decimal False "''p''" 0 None WireJson] show ?thesis
    by (simp add: Let_def case_prod_beta proto_logs_def sample_logs_def sample_log_def anyValueToString_def)
qed

end
