(* ===== verification/Json_Parse.thy ===== *)
theory Json_Parse
  imports Json
begin

text \<open>
  \<^verbatim>\<open>JSON.parse\<close> of the language, and the helpers of \<^verbatim>\<open>packages/obs-collector/src/lib/json.ts\<close> around it.  Strings
  are sequences of code units below 256, so an escape beyond that range does not parse.  The parser spends one
  unit of fuel per call; every call reads a character before it calls on, so the length of the text is enough.
  Shown: parsing is the inverse of \<^verbatim>\<open>JSON.stringify\<close> on every value whose numbers print as JSON numerals.
\<close>

section \<open>The parser\<close>

definition json_space :: "char \<Rightarrow> bool" where
  "json_space c \<longleftrightarrow> char_code c \<in> {9, 10, 13, 32}"

definition skip_space :: "string \<Rightarrow> string" where
  "skip_space s = dropWhile json_space s"

definition push_char :: "char \<Rightarrow> (string \<times> 'a) option \<Rightarrow> (string \<times> 'a) option" where
  "push_char c x = map_option (\<lambda>(s, r). (c # s, r)) x"

definition hex_code :: "string \<Rightarrow> nat" where
  "hex_code hs = foldl (\<lambda>n c. 16 * n + radix_digit c) 0 hs"

fun scan_string :: "string \<Rightarrow> (string \<times> string) option" where
  "scan_string [] = None"
| "scan_string (c # cs) =
     (if c = CHR 0x22 then Some ([], cs)
      else if char_code c < 32 then None
      else if c \<noteq> CHR 0x5C then push_char c (scan_string cs)
      else case cs of
          [] \<Rightarrow> None
        | d # ds \<Rightarrow>
            if d = CHR ''u''
            then if 4 \<le> length ds \<and> list_all is_hex_char (take 4 ds) \<and> hex_code (take 4 ds) < 256
                 then push_char (char_of (hex_code (take 4 ds))) (scan_string (drop 4 ds)) else None
            else if d \<in> {CHR 0x22, CHR 0x5C, CHR 0x2F, CHR ''b'', CHR ''f'', CHR ''n'', CHR ''r'', CHR ''t''}
            then push_char (unescape_simple d) (scan_string ds) else None)"

definition numeral_char :: "char \<Rightarrow> bool" where
  "numeral_char c \<longleftrightarrow> number_char c \<or> c = CHR ''E''"

definition json_numeral :: "string \<Rightarrow> bool" where
  "json_numeral t =
     (let u = (if startsWith t ''-'' then tl t else t); ip = takeWhile is_digit u; r = dropWhile is_digit u;
          r' = (if startsWith r ''.'' then dropWhile is_digit (tl r) else r)
      in ip \<noteq> [] \<and> (hd ip \<noteq> CHR ''0'' \<or> length ip = 1) \<and>
         (\<not> startsWith r ''.'' \<or> takeWhile is_digit (tl r) \<noteq> []) \<and> exponent_part r' \<noteq> None)"

definition parse_number :: "string \<Rightarrow> (json \<times> string) option" where
  "parse_number s =
     (let t = takeWhile numeral_char s in
      if json_numeral t then Some (JNum (js_Number t), dropWhile numeral_char s) else None)"

definition parse_word :: "string \<Rightarrow> (json \<times> string) option" where
  "parse_word s =
     (if startsWith s ''null'' then Some (JNull, drop 4 s)
      else if startsWith s ''true'' then Some (JBool True, drop 4 s)
      else if startsWith s ''false'' then Some (JBool False, drop 5 s)
      else parse_number s)"

definition make_object :: "(string \<times> json) list \<Rightarrow> (string \<times> json) list" where
  "make_object kvs = foldl (\<lambda>m kv. obj_define m (fst kv) (snd kv)) [] kvs"

fun parse_value :: "nat \<Rightarrow> string \<Rightarrow> (json \<times> string) option"
  and parse_elems :: "nat \<Rightarrow> string \<Rightarrow> (json list \<times> string) option"
  and parse_members :: "nat \<Rightarrow> string \<Rightarrow> ((string \<times> json) list \<times> string) option" where
  "parse_value 0 s = None"
| "parse_value (Suc n) s =
     (case skip_space s of [] \<Rightarrow> None
      | c # cs \<Rightarrow>
          if c = CHR 0x22 then map_option (\<lambda>(t, r). (JStr t, r)) (scan_string cs)
          else if c = CHR ''['' then
            (if startsWith (skip_space cs) '']'' then Some (JArr [], tl (skip_space cs))
             else map_option (\<lambda>(xs, r). (JArr xs, r)) (parse_elems n cs))
          else if c = CHR ''{'' then
            (if startsWith (skip_space cs) ''}'' then Some (JObj [], tl (skip_space cs))
             else map_option (\<lambda>(kvs, r). (JObj (make_object kvs), r)) (parse_members n cs))
          else parse_word (c # cs))"
| "parse_elems 0 s = None"
| "parse_elems (Suc n) s =
     (case parse_value n s of None \<Rightarrow> None
      | Some (j, r) \<Rightarrow>
          (case skip_space r of [] \<Rightarrow> None
           | c # cs \<Rightarrow>
               if c = CHR '','' then map_option (\<lambda>(xs, r). (j # xs, r)) (parse_elems n cs)
               else if c = CHR '']'' then Some ([j], cs) else None))"
| "parse_members 0 s = None"
| "parse_members (Suc n) s =
     (if \<not> startsWith (skip_space s) [CHR 0x22] then None
      else case scan_string (tl (skip_space s)) of None \<Rightarrow> None
      | Some (k, r) \<Rightarrow>
          if \<not> startsWith (skip_space r) '':'' then None
          else case parse_value n (tl (skip_space r)) of None \<Rightarrow> None
          | Some (v, r) \<Rightarrow>
              (case skip_space r of [] \<Rightarrow> None
               | c # cs \<Rightarrow>
                   if c = CHR '','' then map_option (\<lambda>(kvs, r). ((k, v) # kvs, r)) (parse_members n cs)
                   else if c = CHR ''}'' then Some ([(k, v)], cs) else None))"

definition JSON_parse :: "string \<Rightarrow> json option" where
  "JSON_parse s =
     (case parse_value (Suc (length s)) s of None \<Rightarrow> None
      | Some (j, r) \<Rightarrow> if skip_space r = [] then Some j else None)"

section \<open>The helpers of the collector\<close>

definition parseJsonRecord :: "string option \<Rightarrow> (string \<times> json) list" where
  "parseJsonRecord v =
     (case v of None \<Rightarrow> []
      | Some s \<Rightarrow> if s = [] then []
          else case JSON_parse s of Some (JObj kvs) \<Rightarrow> kvs | _ \<Rightarrow> [])"

definition parseJsonValue :: "string \<Rightarrow> json" where
  "parseJsonValue s = (case JSON_parse s of None \<Rightarrow> JNull | Some j \<Rightarrow> j)"

definition parseJsonArray :: "string option \<Rightarrow> json list" where
  "parseJsonArray v =
     (case v of None \<Rightarrow> []
      | Some s \<Rightarrow> if s = [] then []
          else case JSON_parse s of Some (JArr xs) \<Rightarrow> xs | _ \<Rightarrow> [])"

section \<open>Parsing what was printed\<close>

text \<open>What is relied on of how a number prints: a JSON numeral that \<^verbatim>\<open>Number\<close> reads back.\<close>

definition numeral_ok :: "(rat \<Rightarrow> string) \<Rightarrow> rat \<Rightarrow> bool" where
  "numeral_ok num q \<longleftrightarrow> list_all number_char (num q) \<and> json_numeral (num q) \<and> js_Number (num q) = Num q"

fun printable_json :: "(rat \<Rightarrow> string) \<Rightarrow> json \<Rightarrow> bool" where
  "printable_json num (JNum x) = (case x of Num q \<Rightarrow> numeral_ok num q | _ \<Rightarrow> False)"
| "printable_json num (JArr xs) = list_all (printable_json num) xs"
| "printable_json num (JObj kvs) = (make_object kvs = kvs \<and> list_all (\<lambda>kv. printable_json num (snd kv)) kvs)"
| "printable_json num _ = True"

lemma startsWith_Cons [simp]: "startsWith (c # s) [d] \<longleftrightarrow> c = d" "\<not> startsWith [] [d]"
  by (auto simp: startsWith_def)

lemma push_char_simps [simp]: "push_char c None = None" "push_char c (Some (s, r)) = Some (c # s, r)"
  by (simp_all add: push_char_def)

lemma is_hex_hex_digit: "n < 16 \<Longrightarrow> is_hex_char (hex_digit n)"
proof -
  assume "n < 16"
  then have "n \<in> {0, 1, 2, 3, 4, 5, 6, 7, 8, 9, 10, 11, 12, 13, 14, 15}" by simp presburger
  then show ?thesis unfolding insert_iff empty_iff
    by (elim disjE) (simp_all add: hex_digit_def is_hex_char_def char_code_def)
qed

lemma scan_escape: "scan_string (escape_char c @ r) = push_char c (scan_string r)"
proof (cases "char_code c < 32")
  case True
  have c: "char_of (char_code c) = c" by (simp add: char_code_def)
  show ?thesis
  proof (cases "char_code c \<in> {8, 9, 10, 12, 13}")
    case True
    then have "c = CHR 0x08 \<or> c = CHR 0x09 \<or> c = CHR 0x0A \<or> c = CHR 0x0C \<or> c = CHR 0x0D"
      using char_code_inj char_codes by (metis insertE emptyE)
    then show ?thesis
      by (elim disjE) (simp_all add: escape_char_def unescape_simple_def char_code_def)
  next
    case False
    define h l where "h = hex_digit (char_code c div 16)" and "l = hex_digit (char_code c mod 16)"
    have "c \<noteq> CHR 0x22" using True by (auto simp: char_code_def)
    then have e: "escape_char c = [CHR 0x5C, CHR ''u'', CHR ''0'', CHR ''0'', h, l]"
      using True False by (simp add: escape_char_def Let_def h_def l_def)
    have "radix_digit (CHR ''0'') = 0" by (simp add: radix_digit_def lower_char_def char_code_def)
    then have "hex_code [CHR ''0'', CHR ''0'', h, l] = char_code c"
      using True by (simp add: hex_code_def h_def l_def radix_hex_digit)
    moreover have "list_all is_hex_char [CHR ''0'', CHR ''0'', h, l]"
      using True is_hex_hex_digit by (simp add: h_def l_def) (simp add: is_hex_char_def char_code_def)
    ultimately show ?thesis
      using c True by (simp add: e) (simp add: char_code_def)
  qed
next
  case False
  show ?thesis
  proof (cases "c = CHR 0x22 \<or> char_code c = 92")
    case True
    then have "c = CHR 0x22 \<or> c = CHR 0x5C" using char_code_inj char_codes by metis
    then show ?thesis
      by (elim disjE) (simp_all add: escape_char_def unescape_simple_def char_code_def)
  next
    case other: False
    then have "escape_char c = [c]" using False by (simp add: escape_char_def Let_def)
    moreover have "c \<noteq> CHR 0x5C" using other by (auto simp: char_code_def)
    ultimately show ?thesis using other False by simp
  qed
qed

lemma scan_quote: "scan_string (concat (map escape_char s) @ CHR 0x22 # r) = Some (s, r)"
  by (induction s) (simp_all add: scan_escape del: scan_string.simps(2), simp)

lemma not_space:
  "\<not> json_space (CHR 0x22)" "\<not> json_space (CHR ''['')" "\<not> json_space (CHR ''{'')" "\<not> json_space (CHR '','')"
  "\<not> json_space (CHR '']'')" "\<not> json_space (CHR ''}'')" "\<not> json_space (CHR '':'')" "\<not> json_space (CHR ''n'')"
  "\<not> json_space (CHR ''t'')" "\<not> json_space (CHR ''f'')" "number_char c \<Longrightarrow> \<not> json_space c"
  by (auto simp: json_space_def char_code_def number_char_def is_digit_def)

lemma skip_space_Cons [simp]: "\<not> json_space c \<Longrightarrow> skip_space (c # s) = c # s"
  by (simp add: skip_space_def)

lemma parse_numeral:
  assumes "numeral_ok num q" and "stops r"
  shows "parse_number (num q @ r) = Some (JNum (Num q), r)"
proof -
  have "\<not> numeral_char (CHR '','')" "\<not> numeral_char (CHR '']'')" "\<not> numeral_char (CHR ''}'')"
    by (simp_all add: numeral_char_def number_char_def is_digit_def char_code_def)
  then have "takeWhile numeral_char r = []" "dropWhile numeral_char r = r"
    using assms(2) by (cases r; auto simp: stops_def)+
  then have "takeWhile numeral_char (num q @ r) = num q \<and> dropWhile numeral_char (num q @ r) = r"
    using assms(1) by (auto simp: numeral_ok_def list_all_iff numeral_char_def)
  then show ?thesis using assms(1) by (simp add: parse_number_def Let_def numeral_ok_def)
qed

text \<open>The parser reads back one value, given enough fuel for its text.\<close>

definition reads :: "(rat \<Rightarrow> string) \<Rightarrow> json \<Rightarrow> bool" where
  "reads num j \<longleftrightarrow> (\<forall>n r. length (stringify num j) \<le> n \<longrightarrow> stops r \<longrightarrow> parse_value n (stringify num j @ r) = Some (j, r))"

lemma stringify_nonempty: "printable_json num j \<Longrightarrow> stringify num j \<noteq> []"
  by (cases j) (auto simp: quote_def numeral_ok_def json_numeral_def startsWith_def split: js_number.splits)

lemma elems_read:
  assumes "xs \<noteq> []" and "\<forall>x \<in> set xs. reads num x" and "length (js_join '','' (map (stringify num) xs)) < n"
  shows "parse_elems n (js_join '','' (map (stringify num) xs) @ CHR '']'' # r) = Some (xs, r)"
  using assms
proof (induction xs arbitrary: n)
  case (Cons x xs)
  obtain m where n: "n = Suc m" using Cons.prems(3) by (cases n) auto
  let ?rest = "(if xs = [] then [] else '','' @ js_join '','' (map (stringify num) xs)) @ CHR '']'' # r"
  have eqn: "js_join '','' (map (stringify num) (x # xs)) @ CHR '']'' # r = stringify num x @ ?rest" by (simp add: join_Cons)
  have len: "length (stringify num x) \<le> m" "xs \<noteq> [] \<Longrightarrow> length (js_join '','' (map (stringify num) xs)) < m"
    using Cons.prems(3) n by (auto simp: join_Cons split: if_splits)
  have "stops ?rest" by simp
  then have "parse_value m (stringify num x @ ?rest) = Some (x, ?rest)"
    using Cons.prems(2) len(1) by (simp add: reads_def)
  then show ?case
    using Cons.IH [of m] Cons.prems(2) len(2) unfolding eqn n by (cases "xs = []") (simp_all add: not_space)
qed simp

lemma members_read:
  assumes "kvs \<noteq> []" and "\<forall>kv \<in> set kvs. reads num (snd kv)"
    and "length (js_join '','' (map (\<lambda>kv. quote (fst kv) @ '':'' @ stringify num (snd kv)) kvs)) < n"
  shows "parse_members n (js_join '','' (map (\<lambda>kv. quote (fst kv) @ '':'' @ stringify num (snd kv)) kvs) @ CHR ''}'' # r)
    = Some (kvs, r)"
  using assms
proof (induction kvs arbitrary: n)
  case (Cons kv kvs)
  obtain m where n: "n = Suc m" using Cons.prems(3) by (cases n) auto
  obtain k v where kv: "kv = (k, v)" by (cases kv)
  let ?f = "\<lambda>kv. quote (fst kv) @ '':'' @ stringify num (snd kv)"
  let ?rest = "(if kvs = [] then [] else '','' @ js_join '','' (map ?f kvs)) @ CHR ''}'' # r"
  have eqn: "js_join '','' (map ?f (kv # kvs)) @ CHR ''}'' # r =
      CHR 0x22 # concat (map escape_char k) @ CHR 0x22 # CHR '':'' # stringify num v @ ?rest"
    by (simp add: join_Cons kv quote_def)
  have len: "length (stringify num v) \<le> m" "kvs \<noteq> [] \<Longrightarrow> length (js_join '','' (map ?f kvs)) < m"
    using Cons.prems(3) n by (auto simp: join_Cons kv quote_def split: if_splits)
  have "stops ?rest" by simp
  then have "parse_value m (stringify num v @ ?rest) = Some (v, ?rest)"
    using Cons.prems(2) len(1) by (simp add: reads_def kv)
  then show ?case
    using Cons.IH [of m] Cons.prems(2) len(2) unfolding eqn n
    by (cases "kvs = []") (simp_all add: not_space scan_quote kv del: scan_string.simps)
qed simp

lemma array_reads:
  assumes "\<forall>x \<in> set xs. reads num x \<and> stringify num x \<noteq> [] \<and> hd (stringify num x) \<noteq> CHR '']'' \<and> \<not> json_space (hd (stringify num x))"
  shows "reads num (JArr xs)"
  unfolding reads_def
proof (intro allI impI)
  fix n r
  assume len: "length (stringify num (JArr xs)) \<le> n"
  then obtain m where n: "n = Suc m" by (cases n) auto
  show "parse_value n (stringify num (JArr xs) @ r) = Some (JArr xs, r)"
  proof (cases xs)
    case (Cons x xs')
    let ?s = "js_join '','' (map (stringify num) xs) @ CHR '']'' # r"
    obtain c cs where "stringify num x = c # cs" "\<not> json_space c" "c \<noteq> CHR '']''" using assms Cons by (cases "stringify num x") auto
    then have "skip_space ?s = ?s" "\<not> startsWith ?s '']''" by (simp_all add: Cons join_Cons)
    moreover have "parse_elems m ?s = Some (xs, r)"
      by (rule elems_read) (use assms len n Cons in auto)
    ultimately show ?thesis by (simp add: n not_space)
  qed (simp add: n not_space)
qed

lemma object_reads:
  assumes "\<forall>kv \<in> set kvs. reads num (snd kv)" and "make_object kvs = kvs"
  shows "reads num (JObj kvs)"
  unfolding reads_def
proof (intro allI impI)
  fix n r
  assume len: "length (stringify num (JObj kvs)) \<le> n"
  then obtain m where n: "n = Suc m" by (cases n) auto
  show "parse_value n (stringify num (JObj kvs) @ r) = Some (JObj kvs, r)"
  proof (cases kvs)
    case (Cons kv kvs')
    let ?s = "js_join '','' (map (\<lambda>kv. quote (fst kv) @ '':'' @ stringify num (snd kv)) kvs) @ CHR ''}'' # r"
    have "skip_space ?s = ?s" "\<not> startsWith ?s ''}''" by (simp_all add: Cons join_Cons quote_def not_space)
    moreover have "parse_members m ?s = Some (kvs, r)"
      by (rule members_read) (use assms len n Cons in auto)
    ultimately show ?thesis using assms(2) by (simp add: n not_space)
  qed (simp add: n not_space)
qed

lemma numeral_start:
  assumes "numeral_ok num q"
  obtains c cs where "num q = c # cs" and "number_char c"
  using assms by (cases "num q") (auto simp: numeral_ok_def json_numeral_def startsWith_def)

lemma number_reads:
  assumes "numeral_ok num q"
  shows "reads num (JNum (Num q))"
  unfolding reads_def
proof (intro allI impI)
  fix n r
  assume len: "length (stringify num (JNum (Num q))) \<le> n" and st: "stops r"
  obtain c cs where q: "num q = c # cs" "number_char c" using assms by (rule numeral_start)
  then obtain m where n: "n = Suc m" using len by (cases n) auto
  have "c \<noteq> CHR 0x22" "c \<noteq> CHR ''['' " "c \<noteq> CHR ''{''" "c \<noteq> CHR ''n''" "c \<noteq> CHR ''t''" "c \<noteq> CHR ''f''"
    using q(2) number_char_others by auto
  moreover have "parse_word (c # s) = parse_number (c # s)" for s
    using \<open>c \<noteq> CHR ''n''\<close> \<open>c \<noteq> CHR ''t''\<close> \<open>c \<noteq> CHR ''f''\<close> by (simp add: parse_word_def startsWith_def)
  moreover have "parse_number (c # cs @ r) = Some (JNum (Num q), r)" using parse_numeral [OF assms st] q(1) by simp
  ultimately show "parse_value n (stringify num (JNum (Num q)) @ r) = Some (JNum (Num q), r)"
    using q(1) not_space(11) [OF q(2)] by (simp add: n)
qed

lemma printed_start:
  assumes "printable_json num j"
  shows "stringify num j \<noteq> [] \<and> hd (stringify num j) \<noteq> CHR '']'' \<and> \<not> json_space (hd (stringify num j))"
proof (cases j)
  case (JNum x)
  then obtain q where q: "x = Num q" "numeral_ok num q" using assms by (cases x) simp_all
  obtain c cs where c: "num q = c # cs" "number_char c" using q(2) by (rule numeral_start)
  have "c \<noteq> CHR '']''" using c(2) number_char_others by auto
  then show ?thesis using c(1) not_space(11) [OF c(2)] by (simp add: JNum q(1))
qed (auto simp: quote_def not_space)

lemma printable_reads: "printable_json num j \<Longrightarrow> reads num j"
proof (induction j)
  case (JNum x)
  then show ?case by (cases x) (simp_all add: number_reads)
next
  case (JStr s)
  show ?case unfolding reads_def
  proof (intro allI impI)
    fix n r
    assume "length (stringify num (JStr s)) \<le> n"
    then obtain m where "n = Suc m" by (cases n) (auto simp: quote_def)
    then show "parse_value n (stringify num (JStr s) @ r) = Some (JStr s, r)"
      by (simp add: quote_def not_space scan_quote del: scan_string.simps)
  qed
next
  case (JArr xs)
  then show ?case using printed_start by (intro array_reads) (auto simp: list_all_iff)
next
  case (JObj kvs)
  have "reads num (snd kv)" if "kv \<in> set kvs" for kv
  proof (cases kv)
    case (Pair k v)
    then show ?thesis using JObj.IH [of kv v] JObj.prems that by (auto simp: list_all_iff)
  qed
  then show ?case using JObj.prems by (intro object_reads) auto
next
  case JNull
  show ?case unfolding reads_def
  proof (intro allI impI)
    fix n r
    assume "length (stringify num JNull) \<le> n"
    then obtain m where "n = Suc m" by (cases n) auto
    then show "parse_value n (stringify num JNull @ r) = Some (JNull, r)"
      by (simp add: not_space parse_word_def startsWith_def)
  qed
next
  case (JBool b)
  show ?case unfolding reads_def
  proof (intro allI impI)
    fix n r
    assume "length (stringify num (JBool b)) \<le> n"
    then obtain m where "n = Suc m" by (cases n) (auto split: if_splits)
    then show "parse_value n (stringify num (JBool b) @ r) = Some (JBool b, r)"
      by (cases b) (simp_all add: not_space parse_word_def startsWith_def)
  qed
qed

lemma JSON_roundtrip: "printable_json num j \<Longrightarrow> JSON_parse (stringify num j) = Some j"
proof -
  assume "printable_json num j"
  then have "parse_value (Suc (length (stringify num j))) (stringify num j @ []) = Some (j, [])"
    using printable_reads unfolding reads_def by (metis le_Suc_eq order_refl stops_simps(1))
  then show ?thesis by (simp add: JSON_parse_def skip_space_def del: parse_value.simps)
qed

section \<open>Objects in property order\<close>

text \<open>The order of own properties: array indices first, ascending, then the other keys.\<close>

definition key_before :: "string \<Rightarrow> string \<Rightarrow> bool" where
  "key_before a b \<longleftrightarrow> (is_index b \<longrightarrow> is_index a \<and> digits_val a < digits_val b)"

definition canonical_object :: "(string \<times> 'v) list \<Rightarrow> bool" where
  "canonical_object kvs \<longleftrightarrow> distinct (map fst kvs) \<and> sorted_wrt key_before (map fst kvs)"

lemma decimal_digits_val: "k \<noteq> [] \<Longrightarrow> list_all is_digit k \<Longrightarrow> hd k \<noteq> CHR ''0'' \<or> length k = 1 \<Longrightarrow> decimal (digits_val k) = k"
proof (induction k rule: rev_induct)
  case (snoc c k)
  define d where "d = char_code c - 48"
  have c: "char_of (48 + d) = c" and d: "d < 10" using snoc.prems by (auto simp: d_def is_digit_def char_code_def)
  have v: "digits_val (k @ [c]) = 10 * digits_val k + d" by (simp add: digits_val_def d_def)
  show ?case
  proof (cases "k = []")
    case True
    then show ?thesis using c d v by (simp add: digits_val_def decimal.simps [of d])
  next
    case False
    have hd: "hd k \<noteq> CHR ''0''" using False snoc.prems(3) by (auto simp: hd_append)
    have rec: "decimal (digits_val k) = k" using snoc.IH [OF False] snoc.prems(2) hd by simp
    have "digits_val k \<noteq> 0"
    proof
      assume "digits_val k = 0"
      then have "k = [char_of (48 :: nat)]" using rec by (simp add: decimal.simps [of 0])
      moreover have "char_of (48 :: nat) = CHR ''0''" by code_simp
      ultimately show False using hd by simp
    qed
    then have "decimal (10 * digits_val k + d) = decimal (digits_val k) @ [char_of (48 + d)]"
      using d by (subst decimal.simps) simp
    then show ?thesis using v rec c by simp
  qed
qed simp

lemma index_inject: "is_index k \<Longrightarrow> is_index k' \<Longrightarrow> digits_val k = digits_val k' \<Longrightarrow> k = k'"
  using decimal_digits_val [of k] decimal_digits_val [of k'] unfolding is_index_def by (metis One_nat_def length_Cons list.size(3))

lemma canonical_Cons:
  "canonical_object (kv # m) \<longleftrightarrow> canonical_object m \<and> fst kv \<notin> fst ` set m \<and> (\<forall>k \<in> fst ` set m. key_before (fst kv) k)"
  by (auto simp: canonical_object_def)

lemma canonical_snoc:
  "canonical_object (m @ [(k, v)]) \<longleftrightarrow> canonical_object m \<and> k \<notin> fst ` set m \<and> (\<forall>k' \<in> fst ` set m. key_before k' k)"
  by (auto simp: canonical_object_def sorted_wrt_append)

lemma canonical_insert:
  assumes "canonical_object m" and "k \<notin> fst ` set m" and "is_index k"
  shows "canonical_object (insert_index k v m)"
  using assms(1,2)
proof (induction m)
  case (Cons kv m)
  obtain k' v' where kv: "kv = (k', v')" by (cases kv)
  show ?case
  proof (cases "is_index k' \<and> digits_val k' < digits_val k")
    case True
    then have "key_before k' k" by (simp add: key_before_def)
    then show ?thesis using Cons kv True by (auto simp: canonical_Cons keys_insert_index)
  next
    case False
    have lt: "digits_val k < digits_val k'" if "is_index k'"
      using False that index_inject [of k k'] Cons.prems(2) kv assms(3) by force
    then have "key_before k j" if "j \<in> insert k' (fst ` set m)" for j
      using that Cons.prems(1) kv assms(3) by (fastforce simp: key_before_def canonical_Cons)
    then show ?thesis using Cons.prems kv False by (auto simp: canonical_Cons [of "(k, v)"])
  qed
qed (simp add: canonical_object_def)

lemma canonical_cong: "map fst m = map fst m' \<Longrightarrow> canonical_object m \<longleftrightarrow> canonical_object m'"
  by (simp add: canonical_object_def)

lemma canonical_define: "canonical_object m \<Longrightarrow> canonical_object (obj_define m k v)"
proof -
  assume m: "canonical_object m"
  consider "k \<in> fst ` set m" | "k \<notin> fst ` set m" "is_index k" | "k \<notin> fst ` set m" "\<not> is_index k" by blast
  then show ?thesis
  proof cases
    case 1
    then have "map fst (map_set m k v) = map fst m" by (auto simp: map_set_keys)
    then show ?thesis using m 1 canonical_cong by (auto simp: obj_define_def)
  next
    case 2
    then show ?thesis using m canonical_insert by (simp add: obj_define_def)
  next
    case 3
    then show ?thesis using m by (auto simp: obj_define_def canonical_snoc key_before_def)
  qed
qed

lemma define_last:
  assumes "canonical_object (m @ [(k, v)])"
  shows "obj_define m k v = m @ [(k, v)]"
proof (cases "is_index k")
  case True
  have "list_all (\<lambda>kv. is_index (fst kv) \<and> digits_val (fst kv) < digits_val k) m"
    using assms True by (auto simp: canonical_snoc key_before_def list_all_iff)
  then have "insert_index k v m = m @ [(k, v)]" by (induction m) auto
  then show ?thesis using assms True by (auto simp: obj_define_def canonical_snoc)
qed (use assms in \<open>auto simp: obj_define_def canonical_snoc\<close>)

lemma make_object_canonical: "make_object kvs = kvs \<longleftrightarrow> canonical_object kvs"
proof
  have "canonical_object acc \<Longrightarrow> canonical_object (foldl (\<lambda>m kv. obj_define m (fst kv) (snd kv)) acc kvs)" for acc :: "(string \<times> json) list"
    by (induction kvs arbitrary: acc) (simp_all add: canonical_define)
  from this [of "[]"] show "canonical_object kvs" if "make_object kvs = kvs"
    using that by (simp add: make_object_def canonical_object_def)
next
  have "canonical_object (acc @ kvs) \<Longrightarrow> foldl (\<lambda>m kv. obj_define m (fst kv) (snd kv)) acc kvs = acc @ kvs" for acc
  proof (induction kvs arbitrary: acc)
    case (Cons kv kvs)
    have "canonical_object (acc @ [kv])" using Cons.prems by (auto simp: canonical_object_def sorted_wrt_append)
    then have "obj_define acc (fst kv) (snd kv) = acc @ [kv]" using define_last [of acc "fst kv" "snd kv"] by simp
    then show ?case using Cons by simp
  qed simp
  from this [of "[]"] show "make_object kvs = kvs" if "canonical_object kvs" using that by (simp add: make_object_def)
qed

lemma make_object_define: "make_object kvs = kvs \<Longrightarrow> make_object (obj_define kvs k v) = obj_define kvs k v"
  unfolding make_object_canonical by (rule canonical_define)

lemma canonical_map:
  fixes f :: "string \<Rightarrow> json \<Rightarrow> json"
  shows "canonical_object kvs \<longleftrightarrow> canonical_object (map (\<lambda>kv. (fst kv, f (fst kv) (snd kv))) kvs)"
  by (rule canonical_cong) (simp add: comp_def)

end
