(* ===== verification/Collector_Runtime.thy ===== *)
theory Collector_Runtime
  imports Otlp_Logs Json_Parse
begin

text \<open>
  The plugin runtime of \<^verbatim>\<open>packages/obs-collector/src/framework/collector.ts\<close>: the class \<^verbatim>\<open>CollectorRuntime\<close> with its
  registration and its two processor pipelines, and the routing table \<^verbatim>\<open>createTelemetryCollectorApp\<close> builds (CORS,
  authentication, plugin routes).  A processor is a function on batches that may throw; every step of a pipeline
  is recorded as the child span the code opens for it.  The locale \<open>batch_pipeline\<close> is the contract the
  receivers rely on; the concrete processors interpret it in their own theories.
\<close>

section \<open>Runtime and pipelines\<close>

record ('c, 'a) processor =
  processor_name :: string
  process :: "'a list \<Rightarrow> 'c \<Rightarrow> string + 'a list"

record child_span =
  span_label :: string
  processor_kind :: string
  input_count :: nat
  output_count :: nat
  delta_count :: "int option"

record ('c, 's, 'u) collector_runtime =
  spanProcessors :: "('c, 's) processor list"
  usageEventProcessors :: "('c, 'u) processor list"
  plugins :: "string list"

definition new_CollectorRuntime :: "('c, 's, 'u) collector_runtime" where
  "new_CollectorRuntime = \<lparr>spanProcessors = [], usageEventProcessors = [], plugins = []\<rparr>"

definition registerPlugin :: "string \<Rightarrow> ('c, 's, 'u) collector_runtime \<Rightarrow> ('c, 's, 'u) collector_runtime" where
  "registerPlugin name rt = rt\<lparr>plugins := plugins rt @ [name]\<rparr>"

definition addSpanProcessor :: "('c, 's) processor \<Rightarrow> ('c, 's, 'u) collector_runtime \<Rightarrow> ('c, 's, 'u) collector_runtime" where
  "addSpanProcessor p rt = rt\<lparr>spanProcessors := spanProcessors rt @ [p]\<rparr>"

definition addUsageEventProcessor ::
  "('c, 'u) processor \<Rightarrow> ('c, 's, 'u) collector_runtime \<Rightarrow> ('c, 's, 'u) collector_runtime" where
  "addUsageEventProcessor p rt = rt\<lparr>usageEventProcessors := usageEventProcessors rt @ [p]\<rparr>"

definition getRegisteredPluginNames :: "('c, 's, 'u) collector_runtime \<Rightarrow> string list" where
  "getRegisteredPluginNames rt = plugins rt"

definition step_span :: "string \<Rightarrow> ('c, 'a) processor \<Rightarrow> nat \<Rightarrow> 'a list \<Rightarrow> child_span" where
  "step_span kind p inputCount out =
     \<lparr>span_label = ''process.'' @ processor_name p, processor_kind = kind, input_count = inputCount,
      output_count = length out,
      delta_count = (if length out \<noteq> inputCount then Some (int (length out) - int inputCount) else None)\<rparr>"

fun run_processors ::
  "string \<Rightarrow> ('c, 'a) processor list \<Rightarrow> 'a list \<Rightarrow> 'c \<Rightarrow> string + ('a list \<times> child_span list)" where
  "run_processors kind [] batch ctx = Inr (batch, [])"
| "run_processors kind (p # ps) batch ctx =
     res_bind (process p batch ctx) (\<lambda>out.
     res_bind (run_processors kind ps out ctx) (\<lambda>(final, spans).
       Inr (final, step_span kind p (length batch) out # spans)))"

definition runSpanProcessors ::
  "('c, 's, 'u) collector_runtime \<Rightarrow> 's list \<Rightarrow> 'c \<Rightarrow> string + ('s list \<times> child_span list)" where
  "runSpanProcessors rt batch ctx = run_processors ''span'' (spanProcessors rt) batch ctx"

definition runUsageEventProcessors ::
  "('c, 's, 'u) collector_runtime \<Rightarrow> 'u list \<Rightarrow> 'c \<Rightarrow> string + ('u list \<times> child_span list)" where
  "runUsageEventProcessors rt batch ctx = run_processors ''usage'' (usageEventProcessors rt) batch ctx"

section \<open>Registration\<close>

text \<open>A plugin as the application sees it: its name, the processors and the routes it adds.\<close>

datatype http_method = GET | HEAD | POST | PUT | PATCH | DELETE | OPTIONS

datatype guard = IngestGuard | DashboardGuard

datatype route_entry = Use string guard | Handle http_method string string

record ('c, 's, 'u) plugin =
  plugin_name :: string
  plugin_spanProcessors :: "('c, 's) processor list"
  plugin_usageProcessors :: "('c, 'u) processor list"
  plugin_routes :: "(http_method \<times> string) list"

definition register_plugin ::
  "('c, 's, 'u) plugin \<Rightarrow> ('c, 's, 'u) collector_runtime \<times> route_entry list \<Rightarrow> ('c, 's, 'u) collector_runtime \<times> route_entry list" where
  "register_plugin p st =
     (let rt = registerPlugin (plugin_name p) (fst st);
          rt = foldl (\<lambda>rt x. addSpanProcessor x rt) rt (plugin_spanProcessors p);
          rt = foldl (\<lambda>rt x. addUsageEventProcessor x rt) rt (plugin_usageProcessors p)
      in (rt, snd st @ map (\<lambda>(m, path). Handle m path (plugin_name p)) (plugin_routes p)))"

text \<open>\<^verbatim>\<open>CollectorConfig\<close>: which middlewares are configured.\<close>

record collector_config =
  auth_middleware :: bool
  auth_ingest :: bool
  auth_query :: bool
  dashboardAuth :: bool
  allowedOrigins :: "string option"

definition ingest_guards :: "collector_config \<Rightarrow> route_entry list" where
  "ingest_guards cfg =
     (if auth_middleware cfg then [Use ''/v1/*'' IngestGuard]
      else if auth_ingest cfg then [Use ''/v1/*'' IngestGuard] else [])"

definition dashboard_guards :: "(http_method \<times> string) list \<Rightarrow> collector_config \<Rightarrow> route_entry list" where
  "dashboard_guards authRoutes cfg =
     (if dashboardAuth cfg
      then map (\<lambda>(m, path). Handle m path ''dashboard-auth'') authRoutes @
           [Use ''/dashboard/*'' DashboardGuard, Use ''/internal/*'' DashboardGuard]
      else if auth_middleware cfg then [Use ''/internal/*'' IngestGuard]
      else if auth_query cfg then [Use ''/internal/*'' DashboardGuard] else [])"

definition createTelemetryCollectorApp ::
  "(http_method \<times> string) list \<Rightarrow> collector_config \<Rightarrow> ('c, 's, 'u) plugin list
     \<Rightarrow> ('c, 's, 'u) collector_runtime \<times> route_entry list" where
  "createTelemetryCollectorApp authRoutes cfg ps =
     (let entries = [Handle GET ''/health'' ''health''] @ ingest_guards cfg @ dashboard_guards authRoutes cfg;
          st = foldl (\<lambda>st p. register_plugin p st) (new_CollectorRuntime, entries) ps
      in (fst st, snd st @ [Handle GET ''/internal/collector/plugins'' ''plugins'']))"

section \<open>Requests\<close>

definition nonempty_text :: "string option \<Rightarrow> string option" where
  "nonempty_text v = (case v of Some s \<Rightarrow> if s = [] then None else Some s | None \<Rightarrow> None)"

definition allowedCorsOrigin :: "string option \<Rightarrow> string option \<Rightarrow> string option \<Rightarrow> string option" where
  "allowedCorsOrigin configured envOrigins origin =
     (let allowed = (case nonempty_text configured of Some s \<Rightarrow> s
            | None \<Rightarrow> (case nonempty_text envOrigins of Some s \<Rightarrow> s | None \<Rightarrow> []));
          allowList = filter (\<lambda>s. s \<noteq> []) (map trim (js_split '','' allowed))
      in case nonempty_text origin of None \<Rightarrow> None | Some o' \<Rightarrow> if o' \<in> set allowList then Some o' else None)"

record response =
  response_status :: nat
  cors_origin :: "string option"
  served_by :: string

datatype verdict = Pass | Deny nat

text \<open>
  The router is the framework's (Hono), \<open>matches pattern path\<close>.  The entries are tried in the order they were
  registered: a guard on a matching pattern may answer itself, the first matching route answers, and without one
  the application answers 404.  The framework routes a HEAD request as the GET request it stands for.
\<close>

definition routed :: "http_method \<Rightarrow> http_method" where
  "routed m = (if m = HEAD then GET else m)"

fun dispatch ::
  "(string \<Rightarrow> string \<Rightarrow> bool) \<Rightarrow> (guard \<Rightarrow> verdict) \<Rightarrow> route_entry list \<Rightarrow> http_method \<Rightarrow> string \<Rightarrow> nat \<times> string" where
  "dispatch matches guards [] m path = (404, ''not-found'')"
| "dispatch matches guards (Use pat g # es) m path =
     (if matches pat path
      then (case guards g of Deny status \<Rightarrow> (status, ''guard'') | Pass \<Rightarrow> dispatch matches guards es m path)
      else dispatch matches guards es m path)"
| "dispatch matches guards (Handle m' pat h # es) m path =
     (if m' = routed m \<and> matches pat path then (200, h) else dispatch matches guards es m path)"

text \<open>
  The CORS middleware of the ingest routes comes first: it answers preflight requests itself and stamps the
  answer of everything after it, errors included.  The health route stamps its own answer.
\<close>

definition handle_request ::
  "(string \<Rightarrow> string \<Rightarrow> bool) \<Rightarrow> collector_config \<Rightarrow> string option \<Rightarrow> (guard \<Rightarrow> verdict) \<Rightarrow> route_entry list \<Rightarrow> http_method
     \<Rightarrow> string \<Rightarrow> string option \<Rightarrow> response" where
  "handle_request matches cfg envOrigins guards entries m path origin =
     (let allowed = allowedCorsOrigin (allowedOrigins cfg) envOrigins origin in
      if matches ''/v1/*'' path \<and> m = OPTIONS
      then \<lparr>response_status = 204, cors_origin = allowed, served_by = ''cors''\<rparr>
      else let (status, h) = dispatch matches guards entries m path
           in \<lparr>response_status = status,
               cors_origin = (if matches ''/v1/*'' path \<or> h = ''health'' then allowed else None), served_by = h\<rparr>)"

section \<open>The contract of a pipeline\<close>

text \<open>
  What the receivers rely on: no processor throws, and each keeps the batch element for element up to a key (the
  ids a record is stored under).
\<close>

definition keeps_batch :: "('a \<Rightarrow> 'k) \<Rightarrow> ('c, 'a) processor \<Rightarrow> bool" where
  "keeps_batch key p \<longleftrightarrow> (\<forall>batch ctx. \<exists>out. process p batch ctx = Inr out \<and> map key out = map key batch)"

lemma keeps_batchI: "(\<And>batch ctx. process p batch ctx = Inr (map (f ctx) batch)) \<Longrightarrow> (\<And>ctx x. key (f ctx x) = key x) \<Longrightarrow> keeps_batch key p"
  by (simp add: keeps_batch_def comp_def)

text \<open>A processor that may throw, and keeps the batch when it does not.\<close>

definition returns_batch :: "('a \<Rightarrow> 'k) \<Rightarrow> ('c, 'a) processor \<Rightarrow> bool" where
  "returns_batch key p \<longleftrightarrow> (\<forall>batch ctx out. process p batch ctx = Inr out \<longrightarrow> map key out = map key batch)"

lemma keeps_returns: "keeps_batch key p \<Longrightarrow> returns_batch key p"
  unfolding keeps_batch_def returns_batch_def by (metis sum.inject(2))

lemma run_returns:
  "(\<And>p. p \<in> set ps \<Longrightarrow> returns_batch key p) \<Longrightarrow> run_processors kind ps batch ctx = Inr (out, spans) \<Longrightarrow> map key out = map key batch"
proof (induction ps arbitrary: batch spans)
  case (Cons p ps)
  then obtain mid rest where "process p batch ctx = Inr mid" "run_processors kind ps mid ctx = Inr (out, rest)"
    by (auto simp: res_bind_eq_Inr)
  moreover have "returns_batch key p" by (rule Cons.prems) simp
  ultimately show ?case using Cons.IH [of mid rest] Cons.prems(1) unfolding returns_batch_def by (metis list.set_intros(2))
qed simp

locale batch_pipeline =
  fixes processors :: "('c, 'a) processor list" and key :: "'a \<Rightarrow> 'k"
  assumes keeps: "p \<in> set processors \<Longrightarrow> keeps_batch key p"
begin

lemma run_keeps:
  "\<exists>out spans. run_processors kind processors batch ctx = Inr (out, spans) \<and> map key out = map key batch \<and>
     map span_label spans = map (\<lambda>p. ''process.'' @ processor_name p) processors \<and>
     list_all (\<lambda>s. input_count s = length batch \<and> output_count s = length batch \<and> delta_count s = None) spans"
  using keeps
proof (induction processors arbitrary: batch)
  case (Cons p ps)
  have "keeps_batch key p" by (rule Cons.prems) simp
  then obtain mid where mid: "process p batch ctx = Inr mid" "map key mid = map key batch"
    unfolding keeps_batch_def by blast
  then have len: "length mid = length batch" by (metis length_map)
  from Cons.IH [of mid] Cons.prems obtain out spans where
    "run_processors kind ps mid ctx = Inr (out, spans)" "map key out = map key mid"
    "map span_label spans = map (\<lambda>p. ''process.'' @ processor_name p) ps"
    "list_all (\<lambda>s. input_count s = length mid \<and> output_count s = length mid \<and> delta_count s = None) spans"
    by auto
  then show ?case using mid len by (simp add: step_span_def)
qed simp

end

section \<open>Registration order\<close>

lemma add_processors:
  "spanProcessors (foldl (\<lambda>rt x. addSpanProcessor x rt) rt xs) = spanProcessors rt @ xs"
  "usageEventProcessors (foldl (\<lambda>rt x. addSpanProcessor x rt) rt xs) = usageEventProcessors rt"
  "plugins (foldl (\<lambda>rt x. addSpanProcessor x rt) rt xs) = plugins rt"
  "usageEventProcessors (foldl (\<lambda>rt x. addUsageEventProcessor x rt) rt ys) = usageEventProcessors rt @ ys"
  "spanProcessors (foldl (\<lambda>rt x. addUsageEventProcessor x rt) rt ys) = spanProcessors rt"
  "plugins (foldl (\<lambda>rt x. addUsageEventProcessor x rt) rt ys) = plugins rt"
  by (induction xs arbitrary: rt, simp_all add: addSpanProcessor_def)
    (induction ys arbitrary: rt, simp_all add: addUsageEventProcessor_def)+

lemma register_plugin_simps:
  "plugins (fst (register_plugin p st)) = plugins (fst st) @ [plugin_name p]"
  "spanProcessors (fst (register_plugin p st)) = spanProcessors (fst st) @ plugin_spanProcessors p"
  "usageEventProcessors (fst (register_plugin p st)) = usageEventProcessors (fst st) @ plugin_usageProcessors p"
  "snd (register_plugin p st) = snd st @ map (\<lambda>(m, path). Handle m path (plugin_name p)) (plugin_routes p)"
  by (simp_all add: register_plugin_def Let_def add_processors registerPlugin_def)

lemma register_plugins:
  "plugins (fst (foldl (\<lambda>st p. register_plugin p st) st ps)) = plugins (fst st) @ map plugin_name ps"
  "spanProcessors (fst (foldl (\<lambda>st p. register_plugin p st) st ps))
     = spanProcessors (fst st) @ concat (map plugin_spanProcessors ps)"
  "usageEventProcessors (fst (foldl (\<lambda>st p. register_plugin p st) st ps))
     = usageEventProcessors (fst st) @ concat (map plugin_usageProcessors ps)"
  "snd (foldl (\<lambda>st p. register_plugin p st) st ps)
     = snd st @ concat (map (\<lambda>p. map (\<lambda>(m, path). Handle m path (plugin_name p)) (plugin_routes p)) ps)"
  by (induction ps arbitrary: st) (simp_all add: register_plugin_simps)

lemma app_entries:
  "snd (createTelemetryCollectorApp authRoutes cfg ps) =
     [Handle GET ''/health'' ''health''] @ ingest_guards cfg @ dashboard_guards authRoutes cfg @
     concat (map (\<lambda>p. map (\<lambda>(m, path). Handle m path (plugin_name p)) (plugin_routes p)) ps) @
     [Handle GET ''/internal/collector/plugins'' ''plugins'']"
  by (simp add: createTelemetryCollectorApp_def Let_def register_plugins)

section \<open>Access\<close>

text \<open>A guard that denies answers for every path its pattern matches, unless an earlier route did.\<close>

definition passes_by :: "(string \<Rightarrow> string \<Rightarrow> bool) \<Rightarrow> http_method \<Rightarrow> string \<Rightarrow> route_entry \<Rightarrow> bool" where
  "passes_by matches m path e \<longleftrightarrow> (case e of Use pat _ \<Rightarrow> \<not> matches pat path | Handle m' pat _ \<Rightarrow> \<not> (m' = routed m \<and> matches pat path))"

lemma dispatch_passes:
  "list_all (passes_by matches m path) es \<Longrightarrow> dispatch matches guards (es @ es') m path = dispatch matches guards es' m path"
  by (induction es) (auto simp: passes_by_def split: route_entry.splits)

lemma dispatch_denied:
  assumes "list_all (passes_by matches m path) es" and "matches pat path" and "guards g = Deny status"
  shows "dispatch matches guards (es @ Use pat g # es') m path = (status, ''guard'')"
  using assms by (simp add: dispatch_passes)

text \<open>The guard that \<^verbatim>\<open>createTelemetryCollectorApp\<close> puts on the internal paths.\<close>

definition internal_guard :: "collector_config \<Rightarrow> guard option" where
  "internal_guard cfg =
     (if dashboardAuth cfg then Some DashboardGuard else if auth_middleware cfg then Some IngestGuard
      else if auth_query cfg then Some DashboardGuard else None)"

text \<open>
  C22: Whatever the plugins register, a request that the authentication of its path refuses is answered with the
  refusal: on every ingest path when ingest authentication is configured, CORS preflights apart, and then with the
  CORS header of an allowed origin; on every internal path outside the login routes when dashboard, unified or query
  authentication is configured; and on every dashboard path outside them when dashboard authentication is.
\<close>

theorem refused_requests:
  assumes "\<not> matches ''/health'' path" and "\<forall>(m', pat) \<in> set authRoutes. \<not> matches pat path"
    and "\<not> (matches ''/v1/*'' path \<and> (matches ''/internal/*'' path \<or> matches ''/dashboard/*'' path))"
  shows "let r = handle_request matches cfg env guards (snd (createTelemetryCollectorApp authRoutes cfg ps)) m path origin in
    (matches ''/v1/*'' path \<and> (auth_middleware cfg \<or> auth_ingest cfg) \<and> m \<noteq> OPTIONS \<and> guards IngestGuard = Deny status
       \<longrightarrow> r = \<lparr>response_status = status, cors_origin = allowedCorsOrigin (allowedOrigins cfg) env origin, served_by = ''guard''\<rparr>) \<and>
    (matches ''/internal/*'' path \<and> internal_guard cfg = Some g \<and> guards g = Deny status
       \<longrightarrow> served_by r = ''guard'' \<and> response_status r = status) \<and>
    (matches ''/dashboard/*'' path \<and> dashboardAuth cfg \<and> guards DashboardGuard = Deny status
       \<longrightarrow> served_by r = ''guard'' \<and> response_status r = status)"
proof -
  let ?entries = "snd (createTelemetryCollectorApp authRoutes cfg ps)"
  let ?plugins = "concat (map (\<lambda>p. map (\<lambda>(m, path). Handle m path (plugin_name p)) (plugin_routes p)) ps)"
  let ?rest = "?plugins @ [Handle GET ''/internal/collector/plugins'' ''plugins'']"
  have auth: "list_all (passes_by matches m path) (map (\<lambda>(m, path). Handle m path ''dashboard-auth'') authRoutes)"
    using assms(2) by (auto simp: list_all_iff passes_by_def)
  have v1: "dispatch matches guards ?entries m path = (status, ''guard'')"
    if "matches ''/v1/*'' path" "auth_middleware cfg \<or> auth_ingest cfg" "guards IngestGuard = Deny status"
    using that assms(1) by (auto simp: app_entries ingest_guards_def)
  have skip: "dispatch matches guards ?entries m path = dispatch matches guards (dashboard_guards authRoutes cfg @ ?rest) m path"
    if "\<not> matches ''/v1/*'' path"
    using that assms(1) by (simp add: app_entries ingest_guards_def)
  have internal: "dispatch matches guards ?entries m path = (status, ''guard'')"
    if "matches ''/internal/*'' path" "internal_guard cfg = Some g" "guards g = Deny status"
    using that assms(3) skip dispatch_passes [OF auth, of guards]
    by (auto simp: dashboard_guards_def internal_guard_def split: if_splits)
  have dashboard: "dispatch matches guards ?entries m path = (status, ''guard'')"
    if "matches ''/dashboard/*'' path" "dashboardAuth cfg" "guards DashboardGuard = Deny status"
    using that assms(3) skip dispatch_passes [OF auth, of guards] by (auto simp: dashboard_guards_def)
  show ?thesis using v1 internal dashboard assms(3) by (auto simp: handle_request_def Let_def)
qed

text \<open>Patterns without parameters: a wildcard suffix or an exact path.\<close>

definition plain_match :: "string \<Rightarrow> string \<Rightarrow> bool" where
  "plain_match pat path =
     (if endsWith pat ''/*'' then path = take (length pat - 2) pat \<or> startsWith path (take (length pat - 1) pat) else pat = path)"

definition sample_config :: collector_config where
  "sample_config = \<lparr>auth_middleware = True, auth_ingest = False, auth_query = False, dashboardAuth = True, allowedOrigins = None\<rparr>"

theorem refused_requests_witness:
  "response_status (handle_request plain_match sample_config None (\<lambda>g. case g of IngestGuard \<Rightarrow> Deny 401 | DashboardGuard \<Rightarrow> Deny 403)
     (snd (createTelemetryCollectorApp [] sample_config
       [\<lparr>plugin_name = ''otlp'', plugin_spanProcessors = [] :: (unit, nat) processor list, plugin_usageProcessors = [] :: (unit, nat) processor list,
         plugin_routes = [(POST, ''/v1/traces'')]\<rparr>])) POST ''/v1/traces'' None) = 401"
proof -
  have m: "\<not> plain_match ''/health'' ''/v1/traces''" "plain_match ''/v1/*'' ''/v1/traces''" "\<not> plain_match ''/internal/*'' ''/v1/traces''"
    "\<not> plain_match ''/dashboard/*'' ''/v1/traces''"
    by (simp_all add: plain_match_def endsWith_def startsWith_def)
  show ?thesis
    using refused_requests [of plain_match "''/v1/traces''" "[]" sample_config None "\<lambda>g. case g of IngestGuard \<Rightarrow> Deny 401 | DashboardGuard \<Rightarrow> Deny 403"
        "[\<lparr>plugin_name = ''otlp'', plugin_spanProcessors = [] :: (unit, nat) processor list,
          plugin_usageProcessors = [] :: (unit, nat) processor list, plugin_routes = [(POST, ''/v1/traces'')]\<rparr>]" POST None 401] m
    by (simp add: Let_def sample_config_def)
qed

end
