(* ===== verification/Json_Redaction.thy ===== *)
theory Json_Redaction
  imports Json_Parse
begin

text \<open>
  The contract of a recursive JSON redactor, which two processors of the collector implement independently
  (\<^verbatim>\<open>plugins/redaction-processor.ts\<close> on spans, \<^verbatim>\<open>plugins/usage-privacy.ts\<close> on usage events): members under a secret
  key are replaced by a placeholder, everything else is rebuilt.  Inside the locale: the result holds no secret
  at any depth, redaction keeps a value printable, and so survives being stored as text.
\<close>

definition REDACTED_VALUE :: string where "REDACTED_VALUE = ''[REDACTED]''"

fun redacted :: "(string \<Rightarrow> bool) \<Rightarrow> json \<Rightarrow> bool" where
  "redacted secret (JArr xs) = list_all (redacted secret) xs"
| "redacted secret (JObj kvs) =
     list_all (\<lambda>kv. if secret (fst kv) then snd kv = JStr REDACTED_VALUE else redacted secret (snd kv)) kvs"
| "redacted secret _ = True"

lemma set_define: "set (obj_define m k v) \<subseteq> insert (k, v) (set m)"
  using set_map_set [of m k v] by (auto simp: obj_define_def set_insert_index)

lemma set_make_object: "set (make_object kvs) \<subseteq> set kvs"
proof -
  have "set (foldl (\<lambda>m kv. obj_define m (fst kv) (snd kv)) acc kvs) \<subseteq> set acc \<union> set kvs" for acc
  proof (induction kvs arbitrary: acc)
    case (Cons kv kvs)
    then show ?case using set_define [of acc "fst kv" "snd kv"] by fastforce
  qed simp
  from this [of "[]"] show ?thesis by (simp add: make_object_def)
qed

lemma redacted_define:
  assumes "redacted secret (JObj kvs)" and "\<not> secret k" and "redacted secret v"
  shows "redacted secret (JObj (obj_define kvs k v))"
proof -
  have "if secret (fst kv) then snd kv = JStr REDACTED_VALUE else redacted secret (snd kv)"
    if "kv \<in> set (obj_define kvs k v)" for kv
    using subsetD [OF set_define that] assms by (auto simp: list_all_iff)
  then show ?thesis by (simp add: list_all_iff)
qed

lemma printable_define:
  assumes "printable_json num (JObj kvs)" and "printable_json num v"
  shows "printable_json num (JObj (obj_define kvs k v))"
proof -
  have "printable_json num (snd kv)" if "kv \<in> set (obj_define kvs k v)" for kv
    using subsetD [OF set_define that] assms by (auto simp: list_all_iff)
  then show ?thesis using assms(1) by (simp add: list_all_iff make_object_define)
qed

locale json_redactor =
  fixes secret :: "string \<Rightarrow> bool" and redact :: "json \<Rightarrow> json"
  assumes arrays: "redact (JArr xs) = JArr (map redact xs)"
    and objects: "redact (JObj kvs) =
      JObj (make_object (map (\<lambda>kv. (fst kv, if secret (fst kv) then JStr REDACTED_VALUE else redact (snd kv))) kvs))"
    and others: "\<not> (\<exists>xs. j = JArr xs) \<Longrightarrow> \<not> (\<exists>kvs. j = JObj kvs) \<Longrightarrow> redact j = j"
begin

definition member :: "string \<Rightarrow> json \<Rightarrow> json" where
  "member k v = (if secret k then JStr REDACTED_VALUE else redact v)"

lemma object_members: "redact (JObj kvs) = JObj (make_object (map (\<lambda>kv. (fst kv, member (fst kv) (snd kv))) kvs))"
  by (simp add: objects member_def)

lemma redact_redacted: "redacted secret (redact j)"
proof (induction j)
  case (JObj kvs)
  have "if secret k then v = JStr REDACTED_VALUE else redacted secret v"
    if "(k, v) \<in> set (make_object (map (\<lambda>kv. (fst kv, member (fst kv) (snd kv))) kvs))" for k v
  proof -
    from subsetD [OF set_make_object that] obtain w where "(k, w) \<in> set kvs" "v = member k w" by auto
    then show ?thesis using JObj.IH [of "(k, w)" w] by (auto simp: member_def)
  qed
  then show ?case unfolding object_members by (auto simp: list_all_iff)
qed (auto simp: arrays others list_all_iff)

lemma redact_printable: "printable_json num j \<Longrightarrow> printable_json num (redact j)"
proof (induction j)
  case (JObj kvs)
  let ?m = "map (\<lambda>kv. (fst kv, member (fst kv) (snd kv))) kvs"
  have "make_object kvs = kvs" using JObj.prems by simp
  then have m: "make_object ?m = ?m" unfolding make_object_canonical by (simp only: canonical_map [symmetric])
  have "printable_json num (member k v)" if "(k, v) \<in> set kvs" for k v
    using JObj.IH [of "(k, v)" v] JObj.prems that by (auto simp: member_def list_all_iff)
  then show ?case unfolding object_members by (auto simp: m list_all_iff)
qed (auto simp: arrays others list_all_iff)

lemma stored_text:
  assumes "printable_json num (parseJsonValue s)"
  shows "parseJsonValue (stringify num (redact (parseJsonValue s))) = redact (parseJsonValue s)"
  using JSON_roundtrip [OF redact_printable [OF assms]] by (simp add: parseJsonValue_def del: stringify.simps)

lemma stored_redacted:
  assumes "printable_json num (parseJsonValue s)"
  shows "redacted secret (parseJsonValue (stringify num (redact (parseJsonValue s))))"
  unfolding stored_text [OF assms] by (rule redact_redacted)

end

end
