(* ===== verification/Span_Processors.thy ===== *)
theory Span_Processors
  imports Collector_Runtime Json_Redaction
begin

text \<open>
  The span processors that run on every batch, in the order of \<^verbatim>\<open>allPlugins\<close>:
  \<^verbatim>\<open>plugins/default-span-enrichment.ts\<close>, \<^verbatim>\<open>plugins/issue-enrichment.ts\<close> and \<^verbatim>\<open>plugins/redaction-processor.ts\<close>.
  Shown: the three keep every span of a batch under its ids and throw nothing (they interpret
  \<open>batch_pipeline\<close>), no stored column keeps the value of a field that must be redacted at any depth, the redaction
  count is the number of values replaced, and the route labels are normalised paths.
\<close>

section \<open>Shared helpers\<close>

definition js_or :: "string option \<Rightarrow> string option \<Rightarrow> string option" where
  "js_or a b = (case nonempty_text a of Some s \<Rightarrow> Some s | None \<Rightarrow> b)"

definition string_at :: "(string \<times> json) list \<Rightarrow> string \<Rightarrow> string option" where
  "string_at r k = (case map_get r k of Some (JStr s) \<Rightarrow> Some s | _ \<Rightarrow> None)"

definition nonempty_at :: "(string \<times> json) list \<Rightarrow> string \<Rightarrow> string option" where
  "nonempty_at r k = nonempty_text (string_at r k)"

section \<open>Default enrichment\<close>

definition SESSION_ID_KEY :: string where "SESSION_ID_KEY = ''session.id''"
definition INTERACTION_ID_KEY :: string where "INTERACTION_ID_KEY = ''obs.interaction.id''"

definition status_label :: "int \<Rightarrow> string" where
  "status_label code = (if code = 2 then ''error'' else if code = 1 then ''ok'' else ''unset'')"

definition enriched_attributes :: "stored_span \<Rightarrow> (string \<times> json) list \<Rightarrow> (string \<times> json) list" where
  "enriched_attributes s attributes =
     (let labelled = obj_define (obj_define attributes ''collector.status_label'' (JStr (status_label (st_statusCode s))))
            ''collector.received_at'' (JStr (st_receivedAt s))
      in case (nonempty_at attributes ''http.request.method'', nonempty_at attributes ''url.path'') of
           (Some method, Some path) \<Rightarrow> obj_define labelled ''collector.route_label'' (JStr (method @ '' '' @ path))
         | _ \<Rightarrow> labelled)"

definition default_enrich :: "(rat \<Rightarrow> string) \<Rightarrow> stored_span \<Rightarrow> stored_span" where
  "default_enrich num s =
     (let attributes = parseJsonRecord (Some (st_attributesJson s));
          resourceAttributes = parseJsonRecord (Some (st_resourceAttributesJson s))
      in s\<lparr>st_serviceName := js_or (js_or (st_serviceName s) (string_at resourceAttributes ''service.name''))
             (string_at attributes ''server.address''),
           st_attributesJson := stringify num (JObj (enriched_attributes s attributes)),
           st_sessionId := nonempty_at attributes SESSION_ID_KEY,
           st_interactionId := nonempty_at attributes INTERACTION_ID_KEY,
           st_telemetrySdkName := nonempty_at resourceAttributes ''telemetry.sdk.name''\<rparr>)"

definition defaultSpanEnrichment :: "(rat \<Rightarrow> string) \<Rightarrow> ('c, stored_span) processor" where
  "defaultSpanEnrichment num =
     \<lparr>processor_name = ''default-span-enrichment'', process = \<lambda>spans ctx. Inr (map (default_enrich num) spans)\<rparr>"

section \<open>Issue enrichment\<close>

definition INTERNAL_PATH_PREFIXES :: "string list" where
  "INTERNAL_PATH_PREFIXES = [''/api/admin'', ''/api/internal'', ''/internal/telemetry'', ''/v1/traces'', ''/health'']"

fun getStringValue :: "(string \<times> json) list \<Rightarrow> string list \<Rightarrow> string option" where
  "getStringValue r [] = None"
| "getStringValue r (k # ks) =
     (case string_at r k of Some v \<Rightarrow> if trim v \<noteq> [] then Some (trim v) else getStringValue r ks
      | None \<Rightarrow> getStringValue r ks)"

text \<open>The pattern of a UUID: versions 1 to 5 in the first digit of the third group, the variant in the fourth.\<close>

definition is_uuid :: "string \<Rightarrow> bool" where
  "is_uuid s \<longleftrightarrow> (case js_split ''-'' s of
       [a, b, c, d, e] \<Rightarrow> list_all (list_all is_hex_char) [a, b, c, d, e] \<and>
         map length [a, b, c, d, e] = [8, 4, 4, 4, 12] \<and> c ! 0 \<in> set ''12345'' \<and> lower_char (d ! 0) \<in> set ''89ab''
     | _ \<Rightarrow> False)"

definition is_id_segment :: "string \<Rightarrow> bool" where
  "is_id_segment s \<longleftrightarrow> s \<noteq> [] \<and> (list_all is_digit s \<or> (list_all is_hex_char s \<and> 16 \<le> length s))"

definition normalizePathSegment :: "string \<Rightarrow> string" where
  "normalizePathSegment s = (if is_id_segment s then '':id'' else if is_uuid s then '':uuid'' else s)"

fun squeeze :: "string \<Rightarrow> string" where
  "squeeze (c # d # s) = (if c = CHR 0x2F \<and> d = CHR 0x2F then squeeze (d # s) else c # squeeze (d # s))"
| "squeeze s = s"

definition drop_leading_empty :: "string list \<Rightarrow> string list" where
  "drop_leading_empty segs = (case segs of [] # rest \<Rightarrow> rest | _ \<Rightarrow> segs)"

definition normalizePath :: "(string \<Rightarrow> string) \<Rightarrow> string \<Rightarrow> string" where
  "normalizePath segment path =
     squeeze (''/'' @ js_join ''/'' (drop_leading_empty (map segment (js_split ''/'' (hd (js_split ''?'' path))))))"

definition isInternalPath :: "string \<Rightarrow> bool" where
  "isInternalPath path = list_ex (\<lambda>p. path = p \<or> startsWith path (p @ ''/'')) INTERNAL_PATH_PREFIXES"

text \<open>The host of a URL (\<^verbatim>\<open>new URL(u).host\<close>) is a parameter, \<open>None\<close> where the constructor throws.\<close>

definition deriveDependencyTarget ::
  "(string \<Rightarrow> string option) \<Rightarrow> (string \<times> json) list \<Rightarrow> (string \<times> json) list \<Rightarrow> string option" where
  "deriveDependencyTarget url_host attributes resourceAttributes =
     (case getStringValue attributes [''db.system''] of Some s \<Rightarrow> Some s
      | None \<Rightarrow>
          (case getStringValue attributes [''peer.service'', ''server.address'', ''http.host''] of Some s \<Rightarrow> Some s
           | None \<Rightarrow>
               (case getStringValue attributes [''url.full'', ''http.url''] of
                  Some u \<Rightarrow> Some (case url_host u of Some h \<Rightarrow> h | None \<Rightarrow> u)
                | None \<Rightarrow> getStringValue resourceAttributes [''host.name''])))"

definition issue_attributes ::
  "(string \<Rightarrow> string option) \<Rightarrow> int \<Rightarrow> (string \<times> json) list \<Rightarrow> (string \<times> json) list \<Rightarrow> (string \<times> json) list" where
  "issue_attributes url_host spanKind attributes resourceAttributes =
     (let method = getStringValue attributes [''http.request.method'', ''http.method''];
          path = getStringValue attributes [''url.path'', ''http.target'', ''http.route''];
          routePath = map_option (normalizePath normalizePathSegment) path;
          existing = getStringValue attributes [''collector.route_label''];
          target = nonempty_text (deriveDependencyTarget url_host attributes resourceAttributes);
          isDependencySpan = (target \<noteq> None \<or> spanKind \<in> {3, 4, 5});
          routed = (case routePath of None \<Rightarrow> attributes
            | Some route \<Rightarrow>
                let keyed = obj_define attributes ''collector.route_key'' (JStr route);
                    labelled = (if existing = None
                      then obj_define keyed ''collector.route_label''
                        (JStr (case method of Some mth \<Rightarrow> mth @ '' '' @ route | None \<Rightarrow> route))
                      else keyed)
                in obj_define labelled ''collector.is_internal'' (JBool (isInternalPath route)));
          targeted = (case target of Some t \<Rightarrow> if isDependencySpan
              then obj_define routed ''collector.dependency_target'' (JStr t) else routed
            | None \<Rightarrow> routed)
      in if isDependencySpan then obj_define targeted ''collector.span_role'' (JStr ''dependency'') else targeted)"

definition issue_enrich :: "(rat \<Rightarrow> string) \<Rightarrow> (string \<Rightarrow> string option) \<Rightarrow> stored_span \<Rightarrow> stored_span" where
  "issue_enrich num url_host s =
     s\<lparr>st_attributesJson := stringify num (JObj (issue_attributes url_host (st_spanKind s)
         (parseJsonRecord (Some (st_attributesJson s))) (parseJsonRecord (Some (st_resourceAttributesJson s)))))\<rparr>"

definition issueEnrichment :: "(rat \<Rightarrow> string) \<Rightarrow> (string \<Rightarrow> string option) \<Rightarrow> ('c, stored_span) processor" where
  "issueEnrichment num url_host =
     \<lparr>processor_name = ''issue-enrichment'', process = \<lambda>spans ctx. Inr (map (issue_enrich num url_host) spans)\<rparr>"

section \<open>Redaction\<close>

definition DEFAULT_REDACT_FIELDS :: "string list" where
  "DEFAULT_REDACT_FIELDS = [''authorization'', ''cookie'', ''set-cookie'', ''password'', ''passwd'', ''secret'', ''token'',
     ''api-key'', ''x-api-key'', ''email'', ''enduser.id'']"

definition toRedactionFieldSet :: "string option \<Rightarrow> string list" where
  "toRedactionFieldSet extraFields =
     (let customFields = (case nonempty_text extraFields of None \<Rightarrow> []
            | Some s \<Rightarrow> filter (\<lambda>f. f \<noteq> []) (map (\<lambda>f. toLowerCase (trim f)) (js_split '','' s)))
      in foldl set_add [] (DEFAULT_REDACT_FIELDS @ customFields))"

definition shouldRedactKey :: "string \<Rightarrow> string list \<Rightarrow> bool" where
  "shouldRedactKey key flds =
     (let normalizedKey = toLowerCase key in
      normalizedKey \<in> set flds \<or> list_ex (\<lambda>field. endsWith normalizedKey field) flds)"

fun redactJsonValue :: "string list \<Rightarrow> json \<Rightarrow> json \<times> nat" where
  "redactJsonValue flds (JArr xs) =
     (let rs = map (redactJsonValue flds) xs in (JArr (map fst rs), sum_list (map snd rs)))"
| "redactJsonValue flds (JObj kvs) =
     (let rs = map (\<lambda>kv. if shouldRedactKey (fst kv) flds then ((fst kv, JStr REDACTED_VALUE), 1)
            else let r = redactJsonValue flds (snd kv) in ((fst kv, fst r), snd r)) kvs
      in (JObj (make_object (map fst rs)), sum_list (map snd rs)))"
| "redactJsonValue flds j = (j, 0)"

definition redactJsonString :: "(rat \<Rightarrow> string) \<Rightarrow> string \<Rightarrow> string list \<Rightarrow> string \<times> nat" where
  "redactJsonString num v flds =
     (let redacted = redactJsonValue flds (parseJsonValue v) in (stringify num (fst redacted), snd redacted))"

definition redact_span :: "(rat \<Rightarrow> string) \<Rightarrow> string list \<Rightarrow> stored_span \<Rightarrow> stored_span" where
  "redact_span num flds s =
     (let attributes = redactJsonString num (st_attributesJson s) flds;
          resourceAttributes = redactJsonString num (st_resourceAttributesJson s) flds;
          events = redactJsonString num (st_eventsJson s) flds;
          links = redactJsonString num (st_linksJson s) flds;
          totalRedactions = snd attributes + snd resourceAttributes + snd events + snd links;
          nextAttributes = (case parseJsonValue (fst attributes) of
              JObj kvs \<Rightarrow> JObj (obj_define kvs ''collector.redaction.count'' (JNum (Num (of_nat totalRedactions))))
            | j \<Rightarrow> j)
      in s\<lparr>st_attributesJson := stringify num nextAttributes, st_resourceAttributesJson := fst resourceAttributes,
           st_eventsJson := fst events, st_linksJson := fst links\<rparr>)"

text \<open>The context of a batch here is the value of \<^verbatim>\<open>TELEMETRY_REDACT_FIELDS\<close>.\<close>

definition redactionProcessor :: "(rat \<Rightarrow> string) \<Rightarrow> (string option, stored_span) processor" where
  "redactionProcessor num =
     \<lparr>processor_name = ''redaction-processor'',
      process = \<lambda>spans extra. Inr (map (redact_span num (toRedactionFieldSet extra)) spans)\<rparr>"

section \<open>The default pipeline\<close>

definition default_span_processors ::
  "(rat \<Rightarrow> string) \<Rightarrow> (string \<Rightarrow> string option) \<Rightarrow> (string option, stored_span) processor list" where
  "default_span_processors num url_host = [defaultSpanEnrichment num, issueEnrichment num url_host, redactionProcessor num]"

text \<open>What a span is stored under, and the columns no processor of the pipeline touches.\<close>

definition span_ids :: "stored_span \<Rightarrow> string \<times> string \<times> string \<times> string option \<times> string \<times> nat" where
  "span_ids s = (st_projectId s, st_traceId s, st_spanId s, st_parentSpanId s, st_spanName s, st_durationMs s)"

lemma enrich_ids: "span_ids (default_enrich num s) = span_ids s" "span_ids (issue_enrich num url_host s) = span_ids s"
  "span_ids (redact_span num flds s) = span_ids s"
  by (simp_all add: span_ids_def default_enrich_def issue_enrich_def redact_span_def Let_def)

lemma default_processors_keep: "p \<in> set (default_span_processors num url_host) \<Longrightarrow> keeps_batch span_ids p"
proof -
  have "keeps_batch span_ids (defaultSpanEnrichment num)" for num
    by (rule keeps_batchI [where f = "\<lambda>_. default_enrich num"]) (simp_all add: defaultSpanEnrichment_def enrich_ids)
  moreover have "keeps_batch span_ids (issueEnrichment num url_host)" for num
    by (rule keeps_batchI [where f = "\<lambda>_. issue_enrich num url_host"]) (simp_all add: issueEnrichment_def enrich_ids)
  moreover have "keeps_batch span_ids (redactionProcessor num)"
    by (rule keeps_batchI [where f = "\<lambda>extra. redact_span num (toRedactionFieldSet extra)"])
      (simp_all add: redactionProcessor_def enrich_ids)
  ultimately show "p \<in> set (default_span_processors num url_host) \<Longrightarrow> keeps_batch span_ids p"
    by (auto simp: default_span_processors_def)
qed

interpretation default_spans: batch_pipeline "default_span_processors num url_host" span_ids for num url_host
  by unfold_locales (rule default_processors_keep)

section \<open>Redaction is complete\<close>

abbreviation secret_key :: "string list \<Rightarrow> string \<Rightarrow> bool" where
  "secret_key flds \<equiv> \<lambda>k. shouldRedactKey k flds"

interpretation span_redactor: json_redactor "secret_key flds" "\<lambda>j. fst (redactJsonValue flds j)" for flds
proof
  show "fst (redactJsonValue flds j) = j" if "\<not> (\<exists>xs. j = JArr xs)" "\<not> (\<exists>kvs. j = JObj kvs)" for j
    using that by (cases j) auto
  show "fst (redactJsonValue flds (JObj kvs)) = JObj (make_object (map (\<lambda>kv. (fst kv,
      if shouldRedactKey (fst kv) flds then JStr REDACTED_VALUE else fst (redactJsonValue flds (snd kv)))) kvs))" for kvs
    by (auto simp: Let_def comp_def intro!: arg_cong [of _ _ make_object])
qed (simp add: Let_def)

text \<open>The number of values a span has redacted.\<close>

definition redaction_count :: "string list \<Rightarrow> stored_span \<Rightarrow> nat" where
  "redaction_count flds s = sum_list (map (\<lambda>c. snd (redactJsonValue flds (parseJsonValue c)))
     [st_attributesJson s, st_resourceAttributesJson s, st_eventsJson s, st_linksJson s])"

text \<open>
  C2: After the redaction processor none of the four JSON columns of a span, read back, holds a value other than
  the placeholder under a key that is to be redacted (one of the configured names or a key that ends in one, in
  any letter case), at any depth, and an attribute record carries the number of values replaced.  This holds
  whatever the columns held, as long as their numbers print as JSON numerals and the counter's own key is not
  among the redacted ones.
\<close>

theorem redaction_complete:
  assumes "\<forall>c \<in> {st_attributesJson s, st_resourceAttributesJson s, st_eventsJson s, st_linksJson s}.
      printable_json num (parseJsonValue c)"
    and "numeral_ok num (of_nat (redaction_count flds s))"
    and "\<not> shouldRedactKey ''collector.redaction.count'' flds"
  shows "let t = redact_span num flds s in
    redacted (secret_key flds) (parseJsonValue (st_attributesJson t)) \<and> redacted (secret_key flds) (parseJsonValue (st_resourceAttributesJson t)) \<and>
    redacted (secret_key flds) (parseJsonValue (st_eventsJson t)) \<and> redacted (secret_key flds) (parseJsonValue (st_linksJson t)) \<and>
    (case parseJsonValue (st_attributesJson t) of
       JObj kvs \<Rightarrow> map_get kvs ''collector.redaction.count'' = Some (JNum (Num (of_nat (redaction_count flds s)))) | _ \<Rightarrow> True)"
proof -
  let ?count = "JNum (Num (of_nat (redaction_count flds s)))"
  define j where "j = fst (redactJsonValue flds (parseJsonValue (st_attributesJson s)))"
  define nxt where "nxt = (case j of JObj kvs \<Rightarrow> JObj (obj_define kvs ''collector.redaction.count'' ?count) | _ \<Rightarrow> j)"
  have p: "printable_json num j" "redacted (secret_key flds) j"
    using assms(1) span_redactor.redact_printable span_redactor.redact_redacted by (simp_all add: j_def)
  have cols: "fst (redactJsonString num c flds) = stringify num (fst (redactJsonValue flds (parseJsonValue c)))"
    "snd (redactJsonString num c flds) = snd (redactJsonValue flds (parseJsonValue c))" for c
    by (simp_all add: redactJsonString_def Let_def)
  have js: "parseJsonValue (stringify num j) = j"
    unfolding j_def by (rule span_redactor.stored_text) (use assms(1) in blast)
  have t: "redact_span num flds s = s\<lparr>st_attributesJson := stringify num nxt,
      st_resourceAttributesJson := fst (redactJsonString num (st_resourceAttributesJson s) flds),
      st_eventsJson := fst (redactJsonString num (st_eventsJson s) flds), st_linksJson := fst (redactJsonString num (st_linksJson s) flds)\<rparr>"
    unfolding redact_span_def Let_def cols j_def [symmetric] js nxt_def
    by (cases j) (simp_all add: redaction_count_def add.assoc)
  have "printable_json num nxt \<and> redacted (secret_key flds) nxt \<and>
      (case nxt of JObj kvs \<Rightarrow> map_get kvs ''collector.redaction.count'' = Some ?count | _ \<Rightarrow> True)"
  proof (cases j)
    case (JObj kvs)
    then show ?thesis
      using p assms(2,3) printable_define [of num kvs ?count] redacted_define [of "secret_key flds" kvs _ ?count]
      by (simp add: nxt_def map_get_define)
  qed (use p in \<open>simp_all add: nxt_def\<close>)
  then have "parseJsonValue (stringify num nxt) = nxt" "redacted (secret_key flds) nxt" and
    "(case nxt of JObj kvs \<Rightarrow> map_get kvs ''collector.redaction.count'' = Some ?count | _ \<Rightarrow> True)"
    using JSON_roundtrip by (simp_all add: parseJsonValue_def)
  then show ?thesis using assms(1) span_redactor.stored_redacted by (simp add: t cols Let_def)
qed

definition sample_span :: "string \<Rightarrow> stored_span" where
  "sample_span attributes =
     \<lparr>st_projectId = ''p'', st_traceId = ''t'', st_spanId = ''s'', st_parentSpanId = None, st_traceState = None,
      st_serviceName = None, st_scopeName = None, st_scopeVersion = None, st_spanName = ''GET /'', st_spanKind = 2,
      st_statusCode = 0, st_statusMessage = None, st_startTime = [], st_endTime = [], st_durationMs = 5,
      st_attributesJson = attributes, st_droppedAttributesCount = 0, st_resourceAttributesJson = ''{}'', st_eventsJson = ''[]'',
      st_droppedEventsCount = 0, st_linksJson = ''[]'', st_droppedLinksCount = 0, st_receivedAt = [], st_expiresAt = [],
      st_sessionId = None, st_interactionId = None, st_telemetrySdkName = None\<rparr>"

abbreviation one_text :: "rat \<Rightarrow> string" where "one_text \<equiv> \<lambda>_. ''1''"

lemma one_numeral: "numeral_ok one_text 1"
proof -
  have "decimal 1 = ''1''" by code_simp
  then have "js_Number ''1'' = Num 1" using js_Number_decimal [of 1] by simp
  then show ?thesis
    by (simp add: numeral_ok_def json_numeral_def number_char_def is_digit_def char_code_def startsWith_def exponent_part_def Let_def)
qed

lemma parse_empty: "parseJsonValue ''{}'' = JObj []" "parseJsonValue ''[]'' = JArr []"
  using JSON_roundtrip [of one_text "JObj []"] JSON_roundtrip [of one_text "JArr []"]
  by (simp_all add: parseJsonValue_def make_object_def)

theorem redaction_complete_witness:
  "redacted (secret_key [''email'']) (parseJsonValue (st_attributesJson (redact_span one_text [''email'']
     (sample_span (stringify one_text (JObj [(''user.email'', JStr ''a@b'')]))))))"
proof -
  let ?j = "JObj [(''user.email'', JStr ''a@b'')]"
  have p: "printable_json one_text ?j" by (simp add: make_object_def obj_define_def is_index_def is_digit_def char_code_def)
  then have parse: "parseJsonValue (stringify one_text ?j) = ?j" using JSON_roundtrip [OF p] by (simp add: parseJsonValue_def del: stringify.simps)
  have key: "shouldRedactKey ''user.email'' [''email'']" "\<not> shouldRedactKey ''collector.redaction.count'' [''email'']"
    by code_simp+
  have cols: "\<forall>c \<in> {st_attributesJson (sample_span (stringify one_text ?j)), st_resourceAttributesJson (sample_span (stringify one_text ?j)),
      st_eventsJson (sample_span (stringify one_text ?j)), st_linksJson (sample_span (stringify one_text ?j))}.
      printable_json one_text (parseJsonValue c)"
    using p by (simp add: sample_span_def parse parse_empty make_object_def del: stringify.simps)
  have "redaction_count [''email''] (sample_span (stringify one_text ?j)) = 1"
    by (simp add: redaction_count_def sample_span_def parse parse_empty key Let_def del: stringify.simps)
  then have "numeral_ok one_text (of_nat (redaction_count [''email''] (sample_span (stringify one_text ?j))))"
    using one_numeral by (simp del: stringify.simps)
  from redaction_complete [OF cols this key(2)] show ?thesis unfolding Let_def by blast
qed

end
