(* ===== verification/Usage_Events.thy ===== *)
theory Usage_Events
  imports Span_Processors
begin

text \<open>
  Product-analytics events: the \<^verbatim>\<open>/v1/usage\<close> handler of \<^verbatim>\<open>plugins/usage-receiver.ts\<close>, its processors
  \<^verbatim>\<open>usage-normalization\<close>, \<^verbatim>\<open>usage-privacy\<close>, \<^verbatim>\<open>ua-enrichment\<close>, \<^verbatim>\<open>bot-filter\<close> and \<^verbatim>\<open>utm-enrichment\<close> (in the order of
  \<^verbatim>\<open>allPlugins\<close>) and the user-agent parser \<^verbatim>\<open>lib/ua-parser.ts\<close>.  Parsing a date (\<^verbatim>\<open>new Date(s)\<close>) is a parameter,
  and so is the store.  The handler is modelled from the parsed body on; events with members of other types than the client declares are left out.  Shown: the valid events of an accepted request are stored in order under their session
  and visitor, a larger request stores nothing, no context or property keeps a secret, no normalised path keeps an
  id, and the device type and the bot flag agree.
\<close>

section \<open>Records\<close>

record usage_input =
  ui_type :: "string option"
  ui_name :: "string option"
  ui_sessionId :: "string option"
  ui_visitorId :: "string option"
  ui_path :: "string option"
  ui_title :: "string option"
  ui_referrer :: "string option"
  ui_occurredAt :: "string option"
  ui_severity :: "string option"
  ui_properties :: "(string \<times> json) list option"
  ui_context :: "(string \<times> json) list option"
  ui_interactionId :: "string option"

record usage_event =
  ue_projectId :: string
  ue_eventId :: string
  ue_sessionId :: string
  ue_visitorId :: string
  ue_eventType :: string
  ue_eventName :: string
  ue_pagePath :: "string option"
  ue_pageTitle :: "string option"
  ue_referrer :: "string option"
  ue_severity :: string
  ue_source :: string
  ue_contextJson :: string
  ue_propertiesJson :: string
  ue_userAgent :: "string option"
  ue_occurredAt :: string
  ue_receivedAt :: string
  ue_expiresAt :: string
  ue_country :: "string option"
  ue_browser :: "string option"
  ue_os :: "string option"
  ue_deviceType :: "string option"
  ue_isBot :: bool
  ue_utmSource :: "string option"
  ue_utmMedium :: "string option"
  ue_utmCampaign :: "string option"
  ue_interactionId :: "string option"

section \<open>The user-agent parser\<close>

definition BOT_WORDS :: "string list" where
  "BOT_WORDS = [''bot'', ''crawler'', ''spider'', ''slurp'', ''facebookexternalhit'', ''headless'', ''monitoring'', ''uptime'',
     ''curl'', ''wget'', ''python-requests'', ''go-http-client'']"

text \<open>The classes \<^verbatim>\<open>\p{L}\<close> and \<^verbatim>\<open>\p{N}\<close> among the code units below 256.\<close>

definition letter_or_number :: "char \<Rightarrow> bool" where
  "letter_or_number c \<longleftrightarrow> (let n = char_code c in
     (48 \<le> n \<and> n \<le> 57) \<or> (65 \<le> n \<and> n \<le> 90) \<or> (97 \<le> n \<and> n \<le> 122) \<or> n \<in> {170, 178, 179, 181, 185, 186, 188, 189, 190} \<or>
     (192 \<le> n \<and> n \<noteq> 215 \<and> n \<noteq> 247))"

definition word_at :: "string \<Rightarrow> nat \<Rightarrow> string \<Rightarrow> bool" where
  "word_at s i w \<longleftrightarrow> startsWith (drop i s) w \<and> (i = 0 \<or> \<not> letter_or_number (s ! (i - 1))) \<and>
     (i + length w = length s \<or> \<not> letter_or_number (s ! (i + length w)))"

definition isBot :: "string option \<Rightarrow> bool" where
  "isBot userAgent =
     (case nonempty_text userAgent of None \<Rightarrow> False
      | Some ua \<Rightarrow> let s = toLowerCase ua in list_ex (\<lambda>i. list_ex (word_at s i) BOT_WORDS) [0..<length s])"

definition mentions :: "string \<Rightarrow> string list \<Rightarrow> bool" where
  "mentions ua ws = list_ex (js_includes (toLowerCase ua)) ws"

definition detectBrowser :: "string \<Rightarrow> string option" where
  "detectBrowser ua =
     (if mentions ua [''edg/''] then Some ''Edge''
      else if mentions ua [''opr/'', ''opera''] then Some ''Opera''
      else if mentions ua [''samsungbrowser/''] then Some ''Samsung Internet''
      else if mentions ua [''chrome/'', ''crios/''] then Some ''Chrome''
      else if mentions ua [''firefox/'', ''fxios/''] then Some ''Firefox''
      else if mentions ua [''safari/''] then Some ''Safari'' else None)"

definition detectOs :: "string \<Rightarrow> string option" where
  "detectOs ua =
     (if mentions ua [''windows nt''] then Some ''Windows''
      else if mentions ua [''iphone'', ''ipad'', ''ipod''] then Some ''iOS''
      else if mentions ua [''android''] then Some ''Android''
      else if mentions ua [''mac os x'', ''macintosh''] then Some ''macOS''
      else if mentions ua [''linux''] then Some ''Linux'' else None)"

definition detectDeviceType :: "string \<Rightarrow> string" where
  "detectDeviceType ua =
     (if mentions ua [''ipad'', ''tablet''] then ''tablet''
      else if mentions ua [''mobile'', ''iphone'', ''ipod'', ''android''] then ''mobile'' else ''desktop'')"

record parsed_user_agent =
  ua_browser :: "string option"
  ua_os :: "string option"
  ua_deviceType :: "string option"

definition parseUserAgent :: "string option \<Rightarrow> parsed_user_agent" where
  "parseUserAgent userAgent =
     (case nonempty_text userAgent of
        None \<Rightarrow> \<lparr>ua_browser = None, ua_os = None, ua_deviceType = None\<rparr>
      | Some ua \<Rightarrow>
          if isBot userAgent then \<lparr>ua_browser = detectBrowser ua, ua_os = detectOs ua, ua_deviceType = Some ''bot''\<rparr>
          else \<lparr>ua_browser = detectBrowser ua, ua_os = detectOs ua, ua_deviceType = Some (detectDeviceType ua)\<rparr>)"

section \<open>The processors\<close>

definition usage_normalizePathSegment :: "string \<Rightarrow> string" where
  "usage_normalizePathSegment s = (if is_id_segment s then '':id'' else s)"

definition usage_normalizePath :: "string option \<Rightarrow> string option" where
  "usage_normalizePath path = map_option (normalizePath usage_normalizePathSegment) (nonempty_text path)"

definition usage_normalize :: "(rat \<Rightarrow> string) \<Rightarrow> usage_event \<Rightarrow> usage_event" where
  "usage_normalize num e =
     (let path = usage_normalizePath (ue_pagePath e);
          admin = (case path of None \<Rightarrow> False | Some p \<Rightarrow> startsWith p ''/admin'')
      in e\<lparr>ue_pagePath := path,
           ue_contextJson := stringify num (JObj (obj_define (parseJsonRecord (Some (ue_contextJson e)))
             ''collector.is_admin_path'' (JBool admin)))\<rparr>)"

definition usage_secret_fields :: "string list" where
  "usage_secret_fields = [''email'', ''token'', ''password'', ''authorization'', ''cookie'']"

definition usage_shouldRedactKey :: "string \<Rightarrow> bool" where
  "usage_shouldRedactKey key =
     (let normalized = toLowerCase key in list_ex (\<lambda>field. normalized = field \<or> endsWith normalized field) usage_secret_fields)"

fun redactJson :: "json \<Rightarrow> json" where
  "redactJson (JArr xs) = JArr (map redactJson xs)"
| "redactJson (JObj kvs) = JObj (make_object (map (\<lambda>kv.
     if usage_shouldRedactKey (fst kv) then (fst kv, JStr REDACTED_VALUE) else (fst kv, redactJson (snd kv))) kvs))"
| "redactJson j = j"

definition usage_redact :: "(rat \<Rightarrow> string) \<Rightarrow> usage_event \<Rightarrow> usage_event" where
  "usage_redact num e =
     e\<lparr>ue_contextJson := stringify num (redactJson (parseJsonValue (ue_contextJson e))),
       ue_propertiesJson := stringify num (redactJson (parseJsonValue (ue_propertiesJson e)))\<rparr>"

definition ua_enrich :: "usage_event \<Rightarrow> usage_event" where
  "ua_enrich e =
     (let parsed = parseUserAgent (ue_userAgent e)
      in e\<lparr>ue_browser := ua_browser parsed, ue_os := ua_os parsed, ue_deviceType := ua_deviceType parsed\<rparr>)"

definition bot_flag :: "usage_event \<Rightarrow> usage_event" where
  "bot_flag e = e\<lparr>ue_isBot := isBot (ue_userAgent e)\<rparr>"

definition utm_enrich :: "usage_event \<Rightarrow> usage_event" where
  "utm_enrich e =
     (let properties = parseJsonRecord (Some (ue_propertiesJson e))
      in e\<lparr>ue_utmSource := js_or (string_at properties ''utmSource'') (ue_utmSource e),
           ue_utmMedium := js_or (string_at properties ''utmMedium'') (ue_utmMedium e),
           ue_utmCampaign := js_or (string_at properties ''utmCampaign'') (ue_utmCampaign e)\<rparr>)"

definition each :: "string \<Rightarrow> ('a \<Rightarrow> 'a) \<Rightarrow> ('c, 'a) processor" where
  "each name f = \<lparr>processor_name = name, process = \<lambda>batch ctx. Inr (map f batch)\<rparr>"

definition usage_processors :: "(rat \<Rightarrow> string) \<Rightarrow> ('c, usage_event) processor list" where
  "usage_processors num =
     [each ''usage-normalization'' (usage_normalize num), each ''usage-privacy'' (usage_redact num),
      each ''ua-enrichment'' ua_enrich, each ''bot-filter'' bot_flag, each ''utm-enrichment'' utm_enrich]"

section \<open>The receiver\<close>

definition sanitizeIsoTimestamp :: "(string \<Rightarrow> int option) \<Rightarrow> int \<Rightarrow> string option \<Rightarrow> string" where
  "sanitizeIsoTimestamp date_parse now v =
     (case nonempty_text v of None \<Rightarrow> toISOString now
      | Some s \<Rightarrow> (case date_parse s of None \<Rightarrow> toISOString now | Some t \<Rightarrow> toISOString t))"

definition text_of :: "string option \<Rightarrow> string" where
  "text_of v = (case v of None \<Rightarrow> [] | Some s \<Rightarrow> s)"

definition toUsageRecord ::
  "(rat \<Rightarrow> string) \<Rightarrow> (string \<Rightarrow> int option) \<Rightarrow> usage_input \<Rightarrow> string option \<Rightarrow> string option \<Rightarrow> int \<Rightarrow> string \<Rightarrow> int \<Rightarrow> string
     \<Rightarrow> usage_event" where
  "toUsageRecord num date_parse input userAgent country receivedAt projectId retentionHours uuid =
     \<lparr>ue_projectId = projectId, ue_eventId = uuid, ue_sessionId = text_of (ui_sessionId input),
      ue_visitorId = text_of (ui_visitorId input), ue_eventType = text_of (ui_type input), ue_eventName = text_of (ui_name input),
      ue_pagePath = nonempty_text (ui_path input), ue_pageTitle = nonempty_text (ui_title input),
      ue_referrer = nonempty_text (ui_referrer input),
      ue_severity = (case nonempty_text (ui_severity input) of None \<Rightarrow> ''info'' | Some s \<Rightarrow> s), ue_source = ''web'',
      ue_contextJson = stringify num (JObj (case ui_context input of None \<Rightarrow> [] | Some c \<Rightarrow> c)),
      ue_propertiesJson = stringify num (JObj (case ui_properties input of None \<Rightarrow> [] | Some c \<Rightarrow> c)),
      ue_userAgent = userAgent, ue_occurredAt = sanitizeIsoTimestamp date_parse receivedAt (ui_occurredAt input),
      ue_receivedAt = toISOString receivedAt, ue_expiresAt = retentionExpiry receivedAt retentionHours, ue_country = country,
      ue_browser = None, ue_os = None, ue_deviceType = None, ue_isBot = False,
      ue_utmSource = None, ue_utmMedium = None, ue_utmCampaign = None,
      ue_interactionId = nonempty_text (ui_interactionId input)\<rparr>"

definition valid_input :: "usage_input option \<Rightarrow> bool" where
  "valid_input e = (case e of None \<Rightarrow> False
     | Some i \<Rightarrow> list_all (\<lambda>v. nonempty_text v \<noteq> None) [ui_type i, ui_name i, ui_sessionId i, ui_visitorId i])"

datatype usage_response = UsageError nat string | UsageAccepted nat nat int

text \<open>
  The handler: \<open>body\<close> is the parsed payload's event list, \<open>None\<close> where the body is no JSON; the store answers with
  the number of rows and of sessions, or throws.
\<close>

definition post_v1_usage ::
  "(rat \<Rightarrow> string) \<Rightarrow> (string \<Rightarrow> int option) \<Rightarrow> (nat \<Rightarrow> string) \<Rightarrow> ('c, 's, usage_event) collector_runtime \<Rightarrow> 'c
     \<Rightarrow> (usage_event list \<Rightarrow> string + (nat \<times> nat)) \<Rightarrow> string \<Rightarrow> int \<Rightarrow> string option \<Rightarrow> (string \<Rightarrow> string option)
     \<Rightarrow> usage_input option list option \<Rightarrow> string + (usage_response \<times> usage_event list)" where
  "post_v1_usage num date_parse uuid rt ctx store_ingest projectId now retentionEnv header body =
     (case body of None \<Rightarrow> Inr (UsageError 400 ''Invalid JSON body'', [])
      | Some rawEvents \<Rightarrow>
          if length rawEvents > 200
          then Inr (UsageError 413 (''Too many events: '' @ decimal (length rawEvents) @ '' (max 200)''), [])
          else
            let validInputs = map the (filter valid_input rawEvents);
                country = nonempty_text (header ''X-Client-Country'');
                records = map (\<lambda>(i, e). toUsageRecord num date_parse e (nonempty_text (header ''User-Agent'')) country now projectId
                  (getConfiguredRetentionHours retentionEnv) (uuid i)) (zip [0..<length validInputs] validInputs)
            in res_bind (runUsageEventProcessors rt records ctx) (\<lambda>(processed, _).
               res_bind (store_ingest processed) (\<lambda>(inserted, sessionCount).
                 Inr (UsageAccepted inserted sessionCount DEFAULT_WINDOW_HOURS, processed))))"

text \<open>
  The parsed body in front of it.  Every member is read behind a test of truth, so a member that is null, zero or empty is as good as absent.  A body that is
  \<^verbatim>\<open>null\<close> has no \<^verbatim>\<open>events\<close> to read, and what is no array has no \<^verbatim>\<open>filter\<close>: both throw, which the framework answers with 500; a
  string or an object is measured by its \<^verbatim>\<open>length\<close> before that.  An event that passes the filter with a member that is neither text (an object, for
  \<^verbatim>\<open>context\<close> and \<^verbatim>\<open>properties\<close>) nor falsy goes into its record as it is, which the records above have no room for: there the result is \<open>None\<close>.
\<close>

definition event_members :: "string list" where
  "event_members = [''type'', ''name'', ''sessionId'', ''visitorId'']"

definition passes_filter :: "json \<Rightarrow> bool" where
  "passes_filter e = list_all (\<lambda>k. js_truthy (member_of e k)) event_members"

definition typed_event :: "json \<Rightarrow> bool" where
  "typed_event e \<longleftrightarrow>
     list_all (\<lambda>k. js_truthy (member_of e k) \<longrightarrow> (\<exists>s. member_of e k = Some (JStr s)))
       (event_members @ [''path'', ''title'', ''referrer'', ''occurredAt'', ''severity'', ''interactionId'']) \<and>
     list_all (\<lambda>k. js_truthy (member_of e k) \<longrightarrow> (\<exists>kvs. member_of e k = Some (JObj kvs))) [''properties'', ''context'']"

definition usage_text_member :: "json \<Rightarrow> string \<Rightarrow> string option" where
  "usage_text_member e k = (case member_of e k of Some (JStr s) \<Rightarrow> Some s | _ \<Rightarrow> None)"

definition usage_object_member :: "json \<Rightarrow> string \<Rightarrow> (string \<times> json) list option" where
  "usage_object_member e k = (case member_of e k of Some (JObj kvs) \<Rightarrow> Some kvs | _ \<Rightarrow> None)"

definition read_event :: "json \<Rightarrow> usage_input option" where
  "read_event e =
     (if e = JNull then None
      else Some \<lparr>ui_type = usage_text_member e ''type'', ui_name = usage_text_member e ''name'', ui_sessionId = usage_text_member e ''sessionId'',
        ui_visitorId = usage_text_member e ''visitorId'', ui_path = usage_text_member e ''path'', ui_title = usage_text_member e ''title'',
        ui_referrer = usage_text_member e ''referrer'', ui_occurredAt = usage_text_member e ''occurredAt'', ui_severity = usage_text_member e ''severity'',
        ui_properties = usage_object_member e ''properties'', ui_context = usage_object_member e ''context'', ui_interactionId = usage_text_member e ''interactionId''\<rparr>)"

fun json_number :: "(rat \<Rightarrow> string) \<Rightarrow> json \<Rightarrow> js_number" where
  "json_number num JNull = Num 0"
| "json_number num (JBool b) = Num (if b then 1 else 0)"
| "json_number num (JNum x) = x"
| "json_number num (JStr s) = js_Number s"
| "json_number num j = js_Number (js_String num j)"

definition over_limit :: "js_number \<Rightarrow> bool" where
  "over_limit x = (case x of Num q \<Rightarrow> 200 < q | NaN \<Rightarrow> False | Infinity positive \<Rightarrow> positive)"

definition length_member :: "json \<Rightarrow> json option" where
  "length_member e = (case e of JStr s \<Rightarrow> Some (JNum (Num (of_nat (length s)))) | _ \<Rightarrow> member_of e ''length'')"

definition post_v1_usage_body ::
  "(rat \<Rightarrow> string) \<Rightarrow> (string \<Rightarrow> int option) \<Rightarrow> (nat \<Rightarrow> string) \<Rightarrow> ('c, 's, usage_event) collector_runtime \<Rightarrow> 'c
     \<Rightarrow> (usage_event list \<Rightarrow> string + (nat \<times> nat)) \<Rightarrow> string \<Rightarrow> int \<Rightarrow> string option \<Rightarrow> (string \<Rightarrow> string option)
     \<Rightarrow> json option \<Rightarrow> (string + (usage_response \<times> usage_event list)) option" where
  "post_v1_usage_body num date_parse uuid rt ctx store_ingest projectId now retentionEnv header body =
     (let handle = post_v1_usage num date_parse uuid rt ctx store_ingest projectId now retentionEnv header in
      case body of None \<Rightarrow> Some (handle None)
      | Some JNull \<Rightarrow> Some (Inl ''TypeError'')
      | Some payload \<Rightarrow>
          (let events = member_of payload ''events'' in
           if \<not> js_truthy events then Some (handle (Some []))
           else (case the events of
               JArr es \<Rightarrow> if length es \<le> 200 \<and> list_ex (\<lambda>e. passes_filter e \<and> \<not> typed_event e) es then None else Some (handle (Some (map read_event es)))
             | e \<Rightarrow> (case length_member e of
                 Some n \<Rightarrow> if over_limit (json_number num n)
                   then Some (Inr (UsageError 413 (''Too many events: '' @ js_String num n @ '' (max 200)''), [])) else Some (Inl ''TypeError'')
               | None \<Rightarrow> Some (Inl ''TypeError'')))))"

text \<open>An event of the types passes the code's filter exactly if its reading is a valid input; a body without an array of events stores nothing.\<close>

lemma usage_text_member_truthy: "js_truthy (member_of e k) \<longrightarrow> (\<exists>s. member_of e k = Some (JStr s)) \<Longrightarrow> nonempty_text (usage_text_member e k) \<noteq> None \<longleftrightarrow> js_truthy (member_of e k)"
  by (auto simp: usage_text_member_def js_truthy_def nonempty_text_def split: option.splits json.splits)

lemma read_event_valid: "typed_event e \<Longrightarrow> valid_input (read_event e) \<longleftrightarrow> passes_filter e"
proof (cases "e = JNull")
  case True
  then show ?thesis by (simp add: read_event_def valid_input_def passes_filter_def event_members_def member_of_def js_truthy_def)
next
  case False
  assume "typed_event e"
  then have "nonempty_text (usage_text_member e k) \<noteq> None \<longleftrightarrow> js_truthy (member_of e k)" if "k \<in> set event_members" for k
    using that by (intro usage_text_member_truthy) (auto simp: typed_event_def list_all_iff)
  then show ?thesis using False by (simp add: read_event_def valid_input_def passes_filter_def event_members_def)
qed

lemma usage_body_refused:
  assumes "js_truthy (member_of payload ''events'')" and "\<nexists>es. member_of payload ''events'' = Some (JArr es)"
  shows "(\<exists>e. post_v1_usage_body num date_parse uuid rt ctx store pid now env header (Some payload) = Some (Inl e)) \<or>
    (\<exists>msg. post_v1_usage_body num date_parse uuid rt ctx store pid now env header (Some payload) = Some (Inr (UsageError 413 msg, [])))"
  using assms by (cases "member_of payload ''events''")
    (auto simp: post_v1_usage_body_def Let_def js_truthy_def member_of_def split: json.splits option.split)

section \<open>The usage pipeline keeps the batch\<close>

definition event_ids :: "usage_event \<Rightarrow> string \<times> string \<times> string \<times> string \<times> string \<times> string" where
  "event_ids e = (ue_projectId e, ue_eventId e, ue_sessionId e, ue_visitorId e, ue_eventType e, ue_eventName e)"

lemma usage_ids:
  "event_ids (usage_normalize num e) = event_ids e" "event_ids (usage_redact num e) = event_ids e"
  "event_ids (ua_enrich e) = event_ids e" "event_ids (bot_flag e) = event_ids e" "event_ids (utm_enrich e) = event_ids e"
  by (simp_all add: event_ids_def usage_normalize_def usage_redact_def ua_enrich_def bot_flag_def utm_enrich_def Let_def)

lemma each_keeps: "(\<And>x. key (f x) = key x) \<Longrightarrow> keeps_batch key (each name f)"
  by (rule keeps_batchI [where f = "\<lambda>_. f"]) (simp_all add: each_def)

interpretation usage_pipeline: batch_pipeline "usage_processors num" event_ids for num
  by unfold_locales (auto simp: usage_processors_def intro!: each_keeps usage_ids)

lemma run_usage:
  "run_processors kind (usage_processors num) batch ctx = Inr (out, spans) \<Longrightarrow>
     out = map (utm_enrich \<circ> bot_flag \<circ> ua_enrich \<circ> usage_redact num \<circ> usage_normalize num) batch"
  by (auto simp: usage_processors_def each_def)

text \<open>
  C6: A usage request of at most 200 events is answered with the counts of the store, and what was stored are
  exactly its valid events (those with a type, a name, a session and a visitor), in order, under their session
  and visitor in the caller's project; a larger request is refused with 413 and a body that is not JSON with 400,
  and neither stores anything.
\<close>

theorem usage_stored:
  assumes "usageEventProcessors rt = usage_processors num"
  shows "(let r = post_v1_usage num date_parse uuid rt ctx (\<lambda>es. Inr (length es, n)) pid now env header in
    r None = Inr (UsageError 400 ''Invalid JSON body'', []) \<and>
    (if length raw > 200 then \<exists>msg. r (Some raw) = Inr (UsageError 413 msg, [])
     else \<exists>stored. r (Some raw) = Inr (UsageAccepted (length (filter valid_input raw)) n 72, stored) \<and>
       map (\<lambda>e. (ue_projectId e, Some (ue_sessionId e), Some (ue_visitorId e), Some (ue_eventType e), Some (ue_eventName e))) stored
         = map (\<lambda>e. (pid, ui_sessionId (the e), ui_visitorId (the e), ui_type (the e), ui_name (the e))) (filter valid_input raw)))"
proof -
  define inputs where "inputs = map the (filter valid_input raw)"
  define records where "records = map (\<lambda>(i, e). toUsageRecord num date_parse e (nonempty_text (header ''User-Agent''))
      (nonempty_text (header ''X-Client-Country'')) now pid (getConfiguredRetentionHours env) (uuid i)) (zip [0..<length inputs] inputs)"
  obtain out spans where out: "runUsageEventProcessors rt records ctx = Inr (out, spans)" "map event_ids out = map event_ids records"
    using usage_pipeline.run_keeps [of "''usage''" num records ctx] assms by (auto simp: runUsageEventProcessors_def)
  have len: "length out = length inputs" using arg_cong [OF out(2), of length] by (simp add: records_def)
  let ?key = "\<lambda>(p, _, s, v, t, n). (p, Some s, Some v, Some t, Some n)"
  have filled: "Some (text_of v) = v" if "nonempty_text v \<noteq> None" for v
    using that by (cases v) (auto simp: nonempty_text_def text_of_def)
  have "map (\<lambda>e. (ue_projectId e, Some (ue_sessionId e), Some (ue_visitorId e), Some (ue_eventType e), Some (ue_eventName e))) out
      = map ?key (map event_ids out)" by (simp add: event_ids_def)
  also have "\<dots> = map (\<lambda>i. (pid, Some (text_of (ui_sessionId i)), Some (text_of (ui_visitorId i)), Some (text_of (ui_type i)), Some (text_of (ui_name i)))) inputs"
    unfolding out(2) using map_zip_index [of "\<lambda>i. (pid, Some (text_of (ui_sessionId i)), Some (text_of (ui_visitorId i)), Some (text_of (ui_type i)), Some (text_of (ui_name i)))" inputs]
    by (simp add: records_def event_ids_def toUsageRecord_def comp_def case_prod_beta)
  also have "\<dots> = map (\<lambda>e. (pid, ui_sessionId (the e), ui_visitorId (the e), ui_type (the e), ui_name (the e))) (filter valid_input raw)"
    unfolding inputs_def by (auto simp: valid_input_def filled split: option.splits)
  finally show ?thesis
    using out(1) len
    by (simp add: post_v1_usage_def Let_def inputs_def [symmetric] records_def [symmetric] DEFAULT_WINDOW_HOURS_def)
      (simp add: inputs_def)
qed

definition sample_input :: usage_input where
  "sample_input = \<lparr>ui_type = Some ''page_view'', ui_name = Some ''home'', ui_sessionId = Some ''s1'', ui_visitorId = Some ''v1'', ui_path = None,
     ui_title = None, ui_referrer = None, ui_occurredAt = None, ui_severity = None, ui_properties = None, ui_context = None,
     ui_interactionId = None\<rparr>"

definition usage_runtime :: "(unit, stored_span, usage_event) collector_runtime" where
  "usage_runtime = foldl (\<lambda>rt p. addUsageEventProcessor p rt) new_CollectorRuntime (usage_processors one_text)"

lemma usage_runtime_processors: "usageEventProcessors usage_runtime = usage_processors one_text"
  by (simp add: usage_runtime_def add_processors new_CollectorRuntime_def)

theorem usage_stored_witness:
  "\<exists>stored. post_v1_usage one_text (\<lambda>_. None) decimal usage_runtime () (\<lambda>es. Inr (length es, 1)) ''p'' 0 None (\<lambda>_. None)
      (Some [Some sample_input, None, Some (sample_input\<lparr>ui_sessionId := Some []\<rparr>)]) = Inr (UsageAccepted 1 1 72, stored) \<and>
    map ue_sessionId stored = [''s1'']"
proof -
  let ?raw = "[Some sample_input, None, Some (sample_input\<lparr>ui_sessionId := Some []\<rparr>)]"
  have valid: "filter valid_input ?raw = [Some sample_input]" by (simp add: valid_input_def sample_input_def nonempty_text_def)
  from usage_stored [OF usage_runtime_processors, of "\<lambda>_. None" decimal "()" 1 "''p''" 0 None "\<lambda>_. None" ?raw]
  have "\<exists>stored. post_v1_usage one_text (\<lambda>_. None) decimal usage_runtime () (\<lambda>es. Inr (length es, 1)) ''p'' 0 None (\<lambda>_. None) (Some ?raw)
      = Inr (UsageAccepted (length [Some sample_input]) 1 72, stored) \<and>
    map (\<lambda>e. (ue_projectId e, Some (ue_sessionId e), Some (ue_visitorId e), Some (ue_eventType e), Some (ue_eventName e))) stored
      = map (\<lambda>e. (''p'', ui_sessionId (the e), ui_visitorId (the e), ui_type (the e), ui_name (the e))) [Some sample_input]"
    unfolding valid Let_def by simp
  then obtain stored where st: "post_v1_usage one_text (\<lambda>_. None) decimal usage_runtime () (\<lambda>es. Inr (length es, 1)) ''p'' 0 None (\<lambda>_. None) (Some ?raw)
      = Inr (UsageAccepted (length [Some sample_input]) 1 72, stored)"
    and ids: "map (\<lambda>e. (ue_projectId e, Some (ue_sessionId e), Some (ue_visitorId e), Some (ue_eventType e), Some (ue_eventName e))) stored
      = map (\<lambda>e. (''p'', ui_sessionId (the e), ui_visitorId (the e), ui_type (the e), ui_name (the e))) [Some sample_input]"
    by (elim exE conjE) (rule that)
  have "length [Some sample_input] = 1" by simp
  moreover have "map ue_sessionId stored = [''s1'']" using ids by (cases stored) (simp_all add: sample_input_def)
  ultimately show ?thesis using st by (intro exI [of _ stored]) simp
qed

section \<open>Privacy\<close>

interpretation usage_redactor: json_redactor usage_shouldRedactKey redactJson
proof
  show "redactJson j = j" if "\<not> (\<exists>xs. j = JArr xs)" "\<not> (\<exists>kvs. j = JObj kvs)" for j using that by (cases j) auto
  show "redactJson (JObj kvs) = JObj (make_object (map (\<lambda>kv. (fst kv,
      if usage_shouldRedactKey (fst kv) then JStr REDACTED_VALUE else redactJson (snd kv))) kvs))" for kvs
    by (auto intro!: arg_cong [of _ _ make_object])
qed simp

text \<open>Splitting at a single character.\<close>

lemma split_char_Cons: "js_split [c] (d # s) = (if d = c then [] # js_split [c] s
    else (d # hd (js_split [c] s)) # tl (js_split [c] s))"
proof -
  have go: "split_go [c] cur s = (cur @ hd (split_go [c] [] s)) # tl (split_go [c] [] s)" for cur s
  proof (induction s arbitrary: cur)
    case (Cons d s)
    show ?case using Cons [of "cur @ [d]"] Cons [of "[d]"] by simp
  qed simp
  show ?thesis using go [of "[d]" s] by (simp add: js_split_def)
qed

lemma split_char_ne [simp]: "js_split [c] s \<noteq> []"
  by (cases s) (simp_all add: split_char_Cons, simp add: js_split_def)

lemma split_char_pieces: "p \<in> set (js_split [c] s) \<Longrightarrow> c \<notin> set p"
proof (induction s arbitrary: p)
  case (Cons d s)
  have "hd (js_split [c] s) \<in> set (js_split [c] s)" "set (tl (js_split [c] s)) \<subseteq> set (js_split [c] s)"
    by (simp, simp add: list.set_sel(2) subsetI)
  then show ?case using Cons by (auto simp: split_char_Cons split: if_splits)
qed (simp add: js_split_def)

lemma squeeze_pieces: "hd (js_split ''/'' (squeeze s)) = hd (js_split ''/'' s) \<and>
    set (tl (js_split ''/'' (squeeze s))) \<subseteq> insert [] (set (tl (js_split ''/'' s)))"
proof (induction s rule: squeeze.induct)
  case (1 c d s)
  obtain h t where A: "js_split ''/'' (d # s) = h # t" using split_char_ne by (metis list.exhaust)
  obtain h' t' where B: "js_split ''/'' (squeeze (d # s)) = h' # t'" using split_char_ne by (metis list.exhaust)
  have IH: "h' = h" "set t' \<subseteq> insert [] (set t)" using 1 A B by (cases "c = CHR 0x2F \<and> d = CHR 0x2F"; simp)+
  have h: "h = []" if "d = CHR 0x2F" using A that by (simp add: split_char_Cons)
  note split_char_Cons [of "CHR ''/''" c "d # s", unfolded A] split_char_Cons [of "CHR ''/''" c "squeeze (d # s)", unfolded B]
  then show ?case using IH h B by (cases "c = CHR 0x2F"; cases "d = CHR 0x2F") auto
qed (simp_all add: subset_insertI)

lemma normalizePath_pieces:
  assumes "\<And>s. CHR 0x2F \<notin> set s \<Longrightarrow> CHR 0x2F \<notin> set (seg s)"
  shows "set (js_split ''/'' (normalizePath seg p)) \<subseteq> insert [] (range seg)"
proof -
  define segs where "segs = drop_leading_empty (map seg (js_split ''/'' (hd (js_split ''?'' p))))"
  have "set segs \<subseteq> set (map seg (js_split ''/'' (hd (js_split ''?'' p))))"
    by (auto simp: segs_def drop_leading_empty_def split: list.splits)
  then have segs: "set segs \<subseteq> range seg" "\<forall>s \<in> set segs. CHR 0x2F \<notin> set s" using assms split_char_pieces by force+
  have "set (js_split ''/'' (js_join ''/'' segs)) \<subseteq> insert [] (set segs)"
    using split_join [of "''/''" "CHR 0x2F" "[]" segs] segs(2) by (cases segs) (auto simp: js_split_def)
  then have "set (js_split ''/'' (''/'' @ js_join ''/'' segs)) \<subseteq> insert [] (range seg)"
    using segs(1) by (auto simp: split_char_Cons)
  moreover have "set (js_split ''/'' (squeeze s)) \<subseteq> insert [] (set (js_split ''/'' s))" for s
    using squeeze_pieces [of s] split_char_ne [of "CHR 0x2F" s] split_char_ne [of "CHR 0x2F" "squeeze s"]
    by (cases "js_split ''/'' (squeeze s)"; cases "js_split ''/'' s") auto
  ultimately show ?thesis unfolding normalizePath_def segs_def [symmetric] by blast
qed

lemma no_ids_left: "list_all (\<lambda>s. \<not> is_id_segment s) (js_split ''/'' (normalizePath usage_normalizePathSegment p))"
proof -
  have "\<not> is_id_segment '':id''" "\<not> is_id_segment []" by (simp_all add: is_id_segment_def is_digit_def is_hex_char_def char_code_def)
  then have "\<not> is_id_segment (usage_normalizePathSegment s)" for s by (simp add: usage_normalizePathSegment_def)
  moreover have "set (js_split ''/'' (normalizePath usage_normalizePathSegment p)) \<subseteq> insert [] (range usage_normalizePathSegment)"
    by (rule normalizePath_pieces) (simp add: usage_normalizePathSegment_def)
  ultimately show ?thesis using \<open>\<not> is_id_segment []\<close> by (auto simp: list_all_iff)
qed

lemma bot_device: "ua_deviceType (parseUserAgent ua) = Some ''bot'' \<longleftrightarrow> isBot ua"
  by (auto simp: parseUserAgent_def detectDeviceType_def isBot_def split: option.split)

text \<open>
  C16: What the usage pipeline hands to the store holds no secret and no raw id: in the context and in the
  properties every member whose key is or ends in a secret name, in any letter case and at any depth, is the
  placeholder; no segment of the page path is numeric or a long hexadecimal id; and an event is flagged as a bot
  exactly when its device type says so.  The context and properties may be anything whose numbers print back.
\<close>

theorem usage_private:
  assumes "printable_json num (parseJsonValue (ue_contextJson e))" and "printable_json num (parseJsonValue (ue_propertiesJson e))"
    and "run_processors kind (usage_processors num) [e] ctx = Inr ([t], spans)"
  shows "redacted usage_shouldRedactKey (parseJsonValue (ue_contextJson t)) \<and>
    redacted usage_shouldRedactKey (parseJsonValue (ue_propertiesJson t)) \<and>
    (case ue_pagePath t of None \<Rightarrow> True | Some p \<Rightarrow> list_all (\<lambda>s. \<not> is_id_segment s) (js_split ''/'' p)) \<and>
    (ue_isBot t \<longleftrightarrow> ue_deviceType t = Some ''bot'')"
proof -
  have t: "t = utm_enrich (bot_flag (ua_enrich (usage_redact num (usage_normalize num e))))"
    using run_usage [OF assms(3)] by simp
  define rc where "rc = parseJsonRecord (Some (ue_contextJson e))"
  have "printable_json num (JObj rc)"
    using assms(1) by (auto simp: rc_def parseJsonRecord_def parseJsonValue_def make_object_def split: option.splits json.splits)
  then have ctx: "printable_json num (JObj (obj_define rc k (JBool b)))" for k b by (rule printable_define) simp
  have "printable_json num (parseJsonValue (ue_contextJson (usage_normalize num e)))"
    using ctx JSON_roundtrip [OF ctx]
    by (simp add: usage_normalize_def Let_def rc_def [symmetric] parseJsonValue_def del: stringify.simps printable_json.simps)
  moreover have "ue_propertiesJson (usage_normalize num e) = ue_propertiesJson e" by (simp add: usage_normalize_def Let_def)
  moreover have "ue_pagePath (usage_normalize num e) = usage_normalizePath (ue_pagePath e)" by (simp add: usage_normalize_def Let_def)
  ultimately show ?thesis
    using usage_redactor.stored_redacted [of num] assms(2) no_ids_left bot_device
    by (simp add: t utm_enrich_def bot_flag_def ua_enrich_def usage_redact_def Let_def usage_normalizePath_def split: option.split)
qed

definition sample_event :: usage_event where
  "sample_event = (toUsageRecord one_text (\<lambda>_. None) sample_input (Some ''curl/8.0'') None 0 ''p'' 72 ''u'')\<lparr>ue_pagePath := Some ''/users/42'',
     ue_contextJson := ''{}'', ue_propertiesJson := ''{}''\<rparr>"

theorem usage_private_witness:
  "list_all (\<lambda>s. \<not> is_id_segment s) (js_split ''/'' (normalizePath usage_normalizePathSegment ''/users/42''))"
proof -
  obtain t spans where run: "run_processors ''usage'' (usage_processors one_text) [sample_event] () = Inr ([t], spans)"
    by (simp add: usage_processors_def each_def)
  have "ue_pagePath t = Some (normalizePath usage_normalizePathSegment ''/users/42'')"
    using run_usage [OF run]
    by (simp add: sample_event_def utm_enrich_def bot_flag_def ua_enrich_def usage_redact_def usage_normalize_def Let_def
        usage_normalizePath_def nonempty_text_def)
  moreover have "printable_json one_text (parseJsonValue ''{}'')" by (simp add: parse_empty make_object_def)
  ultimately show ?thesis using usage_private [OF _ _ run] by (simp add: sample_event_def)
qed

end
