(* ===== verification/Alerts_Store.thy ===== *)
theory Alerts_Store
  imports Js_Time Json_Parse
begin

text \<open>
  Alert rules: \<^verbatim>\<open>packages/obs-collector/src/lib/alerts-store.ts\<close>.  The database is a record of tables, a table the
  list of its rows in insertion order, and each SQL statement of the store a function on it.  Of the engine the
  model uses the primary keys and the foreign keys of the migrations; whether foreign keys are enforced (as D1 and
  Postgres do) is a parameter, and so is \<^verbatim>\<open>LIKE\<close>.  A statement that fails, and every \<^verbatim>\<open>throw\<close>, is an \<open>Inl\<close>.
  Shown: a created rule reads back as given, only valid rules are ever stored, patches of another project change
  nothing, and two faults of \<^verbatim>\<open>deleteRule\<close>.
\<close>

section \<open>Numbers compared\<close>

fun js_less :: "js_number \<Rightarrow> js_number \<Rightarrow> bool" where
  "js_less NaN y = False"
| "js_less x NaN = False"
| "js_less (Num a) (Num b) = (a < b)"
| "js_less (Num a) (Infinity p) = p"
| "js_less (Infinity p) (Num b) = (\<not> p)"
| "js_less (Infinity p) (Infinity q) = (\<not> p \<and> q)"

definition js_le :: "js_number \<Rightarrow> js_number \<Rightarrow> bool" where
  "js_le x y \<longleftrightarrow> js_less x y \<or> (x = y \<and> x \<noteq> NaN)"

definition compareValue :: "js_number \<Rightarrow> js_number \<Rightarrow> string \<Rightarrow> bool" where
  "compareValue v threshold comparison =
     (if comparison = ''>'' then js_less threshold v
      else if comparison = ''>='' then js_le threshold v
      else if comparison = ''<'' then js_less v threshold
      else if comparison = ''<='' then js_le v threshold else False)"

section \<open>Rows and rules\<close>

datatype alert_state = Ok | Firing

record rule_row =
  rr_id :: string
  rr_project_id :: string
  rr_name :: string
  rr_signal :: string
  rr_query_json :: string
  rr_threshold :: js_number
  rr_window_mins :: js_number
  rr_comparison :: string
  rr_channels_json :: string
  rr_enabled :: nat
  rr_created_at :: string
  rr_updated_at :: string
  rr_analysis_id :: "string option"

record state_row =
  sr_rule_id :: string
  sr_project_id :: string
  sr_current_state :: alert_state
  sr_last_state_change :: string

record evaluation_row =
  er_id :: string
  er_rule_id :: string
  er_project_id :: string
  er_evaluated_at :: string
  er_value :: js_number
  er_state :: alert_state
  er_notified :: nat

record span_row =
  sp_project :: string
  sp_received_at :: string
  sp_service_name :: "string option"
  sp_span_name :: string
  sp_status_code :: int

record log_row =
  lo_project :: string
  lo_received_at :: string
  lo_service_name :: "string option"
  lo_severity :: string

record usage_row =
  us_project :: string
  us_occurred_at :: string
  us_event_type :: string
  us_event_name :: string
  us_page_path :: "string option"

record ai_row =
  ai_project :: string
  ai_received_at :: string
  ai_provider :: "string option"
  ai_model_name :: "string option"
  ai_is_error :: nat

record analysis_row =
  an_project :: string
  an_analysis_id :: string
  an_generated_at :: string
  an_primary_value :: "js_number option"
  an_narrative :: "string option"
  an_status :: "string option"

record alerts_db =
  projects :: "string list"
  alert_rules :: "rule_row list"
  alert_states :: "state_row list"
  alert_evaluations :: "evaluation_row list"
  telemetry_spans :: "span_row list"
  log_table :: "log_row list"
  usage_events :: "usage_row list"
  ai_calls :: "ai_row list"
  analysis_results :: "analysis_row list"

record alert_rule =
  ru_id :: string
  ru_projectId :: string
  ru_name :: string
  ru_signal :: string
  ru_query :: json
  ru_threshold :: js_number
  ru_windowMins :: js_number
  ru_comparison :: string
  ru_channels :: json
  ru_enabled :: bool
  ru_createdAt :: string
  ru_updatedAt :: string
  ru_analysisId :: "string option"
  ru_currentState :: "alert_state option"
  ru_lastStateChange :: "string option"

record rule_input =
  in_name :: "string option"
  in_signal :: string
  in_query :: json
  in_threshold :: js_number
  in_windowMins :: js_number
  in_comparison :: string
  in_channels :: json
  in_enabled :: "bool option"
  in_analysisId :: "string option"

text \<open>A patch: every field may be absent; the analysis id may also be present and null.\<close>

record rule_patch =
  pa_name :: "string option"
  pa_signal :: "string option"
  pa_query :: "json option"
  pa_threshold :: "js_number option"
  pa_windowMins :: "js_number option"
  pa_comparison :: "string option"
  pa_channels :: "json option"
  pa_enabled :: "bool option"
  pa_analysisId :: "string option option"

definition parseJsonField :: "string \<Rightarrow> string + json" where
  "parseJsonField v = (case JSON_parse v of None \<Rightarrow> Inl ''SyntaxError'' | Some j \<Rightarrow> Inr j)"

definition rowToRule :: "rule_row \<Rightarrow> state_row option \<Rightarrow> string + alert_rule" where
  "rowToRule row st =
     res_bind (parseJsonField (rr_query_json row)) (\<lambda>q.
     res_bind (parseJsonField (rr_channels_json row)) (\<lambda>ch.
     Inr \<lparr>ru_id = rr_id row, ru_projectId = rr_project_id row, ru_name = rr_name row, ru_signal = rr_signal row, ru_query = q,
          ru_threshold = rr_threshold row, ru_windowMins = rr_window_mins row, ru_comparison = rr_comparison row, ru_channels = ch,
          ru_enabled = (rr_enabled row = 1), ru_createdAt = rr_created_at row, ru_updatedAt = rr_updated_at row,
          ru_analysisId = rr_analysis_id row, ru_currentState = map_option sr_current_state st,
          ru_lastStateChange = map_option sr_last_state_change st\<rparr>))"

record evaluation =
  ev_id :: string
  ev_ruleId :: string
  ev_projectId :: string
  ev_evaluatedAt :: string
  ev_value :: js_number
  ev_state :: alert_state
  ev_notified :: bool

definition rowToEvaluation :: "evaluation_row \<Rightarrow> evaluation" where
  "rowToEvaluation row =
     \<lparr>ev_id = er_id row, ev_ruleId = er_rule_id row, ev_projectId = er_project_id row, ev_evaluatedAt = er_evaluated_at row,
      ev_value = er_value row, ev_state = er_state row, ev_notified = (er_notified row = 1)\<rparr>"

text \<open>The start of the window; a time value out of range makes \<^verbatim>\<open>toISOString\<close> throw.\<close>

definition windowCutoffIso :: "int \<Rightarrow> js_number \<Rightarrow> string + string" where
  "windowCutoffIso now windowMins =
     (case windowMins of
        Num w \<Rightarrow> let x = of_int now - w * 60 * 1000; t = (if 0 \<le> x then \<lfloor>x\<rfloor> else \<lceil>x\<rceil>)
          in if valid_time t then Inr (toISOString t) else Inl ''RangeError''
      | _ \<Rightarrow> Inl ''RangeError'')"

section \<open>Validation\<close>

definition SIGNALS :: "string list" where "SIGNALS = [''spans'', ''logs'', ''usage'', ''ai'']"
definition COMPARISONS :: "string list" where "COMPARISONS = [''>'', ''>='', ''<'', ''<='']"

definition http_url :: "string \<Rightarrow> bool" where
  "http_url s \<longleftrightarrow> startsWith s ''http://'' \<or> startsWith s ''https://''"

definition validateChannel :: "(rat \<Rightarrow> string) \<Rightarrow> json \<Rightarrow> string + unit" where
  "validateChannel num ch =
     (if ch = JNull then Inl ''TypeError''
      else if member_of ch ''type'' \<noteq> Some (JStr ''webhook'')
      then Inl (''unknown channel type: '' @ member_text num (member_of ch ''type''))
      else if \<not> js_truthy (member_of ch ''url'') \<or> \<not> http_url (member_text num (member_of ch ''url''))
      then Inl ''channel.url must be http(s)://''
      else Inr ())"

fun validate_channels :: "(rat \<Rightarrow> string) \<Rightarrow> json list \<Rightarrow> string + unit" where
  "validate_channels num [] = Inr ()"
| "validate_channels num (ch # chs) = res_bind (validateChannel num ch) (\<lambda>_. validate_channels num chs)"

definition validateInput :: "(rat \<Rightarrow> string) \<Rightarrow> rule_input \<Rightarrow> string + unit" where
  "validateInput num input =
     (if (case in_name input of None \<Rightarrow> True | Some s \<Rightarrow> trim s = []) then Inl ''name is required''
      else if in_signal input \<notin> set SIGNALS then Inl (''signal must be one of: '' @ js_join '', '' SIGNALS)
      else if \<not> isFinite (in_threshold input) then Inl ''threshold must be a finite number''
      else if \<not> isFinite (in_windowMins input) \<or> js_less (in_windowMins input) (Num 1) then Inl ''windowMins must be >= 1''
      else if in_comparison input \<notin> set COMPARISONS then Inl (''comparison must be one of: '' @ js_join '', '' COMPARISONS)
      else (case in_channels input of
              JArr chs \<Rightarrow> if chs = [] then Inl ''at least one channel is required'' else validate_channels num chs
            | _ \<Rightarrow> Inl ''at least one channel is required''))"

section \<open>Rules\<close>

definition find_row :: "('r \<Rightarrow> bool) \<Rightarrow> 'r list \<Rightarrow> 'r option" where
  "find_row p rows = List.find p rows"

definition order_desc :: "('r \<Rightarrow> string) \<Rightarrow> 'r list \<Rightarrow> 'r list" where
  "order_desc key rows = foldr (\<lambda>r acc. takeWhile (\<lambda>x. key r < key x) acc @ r # dropWhile (\<lambda>x. key r < key x) acc) rows []"

fun all_rules :: "(rule_row \<Rightarrow> state_row option) \<Rightarrow> rule_row list \<Rightarrow> string + alert_rule list" where
  "all_rules st [] = Inr []"
| "all_rules st (r # rs) = res_bind (rowToRule r (st r)) (\<lambda>x. res_bind (all_rules st rs) (\<lambda>xs. Inr (x # xs)))"

definition listRules :: "alerts_db \<Rightarrow> string \<Rightarrow> string + alert_rule list" where
  "listRules db projectId =
     (let rows = order_desc rr_created_at (filter (\<lambda>r. rr_project_id r = projectId) (alert_rules db));
          states = filter (\<lambda>s. sr_project_id s = projectId) (alert_states db)
      in all_rules (\<lambda>r. find_row (\<lambda>s. sr_rule_id s = rr_id r) (rev states)) rows)"

definition getRule :: "alerts_db \<Rightarrow> string \<Rightarrow> string \<Rightarrow> string + alert_rule option" where
  "getRule db ident projectId =
     (case find_row (\<lambda>r. rr_id r = ident \<and> rr_project_id r = projectId) (alert_rules db) of
        None \<Rightarrow> Inr None
      | Some row \<Rightarrow> res_bind (rowToRule row (find_row (\<lambda>s. sr_rule_id s = ident) (alert_states db))) (\<lambda>r. Inr (Some r)))"

definition enabled_column :: "bool option \<Rightarrow> nat" where
  "enabled_column e = (if e = Some False then 0 else 1)"

definition input_row :: "(rat \<Rightarrow> string) \<Rightarrow> string \<Rightarrow> string \<Rightarrow> string \<Rightarrow> string \<Rightarrow> rule_input \<Rightarrow> rule_row" where
  "input_row num ident projectId created now input =
     \<lparr>rr_id = ident, rr_project_id = projectId, rr_name = trim (the (in_name input)), rr_signal = in_signal input,
      rr_query_json = stringify num (in_query input), rr_threshold = in_threshold input, rr_window_mins = in_windowMins input,
      rr_comparison = in_comparison input, rr_channels_json = stringify num (in_channels input),
      rr_enabled = enabled_column (in_enabled input), rr_created_at = created, rr_updated_at = now,
      rr_analysis_id = in_analysisId input\<rparr>"

definition createRule ::
  "(rat \<Rightarrow> string) \<Rightarrow> bool \<Rightarrow> string \<Rightarrow> string \<Rightarrow> alerts_db \<Rightarrow> string \<Rightarrow> rule_input \<Rightarrow> string + (alert_rule \<times> alerts_db)" where
  "createRule num enforce ident now db projectId input =
     res_bind (validateInput num input) (\<lambda>_.
       if ident \<in> rr_id ` set (alert_rules db) then Inl ''UNIQUE constraint failed''
       else if enforce \<and> projectId \<notin> set (projects db) then Inl ''FOREIGN KEY constraint failed''
       else
         let db' = db\<lparr>alert_rules := alert_rules db @ [input_row num ident projectId now now input]\<rparr> in
         res_bind (getRule db' ident projectId) (\<lambda>created.
           case created of None \<Rightarrow> Inl ''Failed to create rule'' | Some r \<Rightarrow> Inr (r, db')))"

definition or_else :: "'a option \<Rightarrow> 'a \<Rightarrow> 'a" where
  "or_else v d = (case v of None \<Rightarrow> d | Some x \<Rightarrow> x)"

definition merge_patch :: "rule_patch \<Rightarrow> alert_rule \<Rightarrow> rule_input" where
  "merge_patch patch existing =
     \<lparr>in_name = Some (or_else (pa_name patch) (ru_name existing)), in_signal = or_else (pa_signal patch) (ru_signal existing),
      in_query = or_else (pa_query patch) (ru_query existing), in_threshold = or_else (pa_threshold patch) (ru_threshold existing),
      in_windowMins = or_else (pa_windowMins patch) (ru_windowMins existing),
      in_comparison = or_else (pa_comparison patch) (ru_comparison existing),
      in_channels = or_else (pa_channels patch) (ru_channels existing),
      in_enabled = Some (or_else (pa_enabled patch) (ru_enabled existing)),
      in_analysisId = or_else (pa_analysisId patch) (ru_analysisId existing)\<rparr>"

definition updateRule ::
  "(rat \<Rightarrow> string) \<Rightarrow> string \<Rightarrow> alerts_db \<Rightarrow> string \<Rightarrow> string \<Rightarrow> rule_patch \<Rightarrow> string + (alert_rule option \<times> alerts_db)" where
  "updateRule num now db ident projectId patch =
     res_bind (getRule db ident projectId) (\<lambda>found.
       case found of None \<Rightarrow> Inr (None, db)
       | Some existing \<Rightarrow>
           let merged = merge_patch patch existing in
           res_bind (validateInput num merged) (\<lambda>_.
             let db' = db\<lparr>alert_rules := map (\<lambda>r. if rr_id r = ident \<and> rr_project_id r = projectId
                   then input_row num ident projectId (rr_created_at r) now merged else r) (alert_rules db)\<rparr>
             in res_bind (getRule db' ident projectId) (\<lambda>r. Inr (r, db'))))"

text \<open>Three statements, each on its own: the rule first, then its state and its evaluations by rule id alone.\<close>

definition deleteRule :: "bool \<Rightarrow> alerts_db \<Rightarrow> string \<Rightarrow> string \<Rightarrow> string + (bool \<times> alerts_db)" where
  "deleteRule enforce db ident projectId =
     (let hit = (\<lambda>r. rr_id r = ident \<and> rr_project_id r = projectId);
          referenced = (ident \<in> sr_rule_id ` set (alert_states db) \<or> ident \<in> er_rule_id ` set (alert_evaluations db))
      in if enforce \<and> list_ex hit (alert_rules db) \<and> referenced then Inl ''FOREIGN KEY constraint failed''
         else Inr (list_ex hit (alert_rules db),
           db\<lparr>alert_rules := filter (\<lambda>r. \<not> hit r) (alert_rules db),
              alert_states := filter (\<lambda>s. sr_rule_id s \<noteq> ident) (alert_states db),
              alert_evaluations := filter (\<lambda>e. er_rule_id e \<noteq> ident) (alert_evaluations db)\<rparr>))"

definition listEnabledRules :: "alerts_db \<Rightarrow> string + alert_rule list" where
  "listEnabledRules db = all_rules (\<lambda>_. None) (filter (\<lambda>r. rr_enabled r = 1) (alert_rules db))"

section \<open>State and evaluations\<close>

definition getState :: "alerts_db \<Rightarrow> string \<Rightarrow> state_row option" where
  "getState db ruleId = find_row (\<lambda>s. sr_rule_id s = ruleId) (alert_states db)"

definition upsert_state :: "state_row list \<Rightarrow> state_row \<Rightarrow> state_row list" where
  "upsert_state rows new =
     (if sr_rule_id new \<in> sr_rule_id ` set rows
      then map (\<lambda>s. if sr_rule_id s = sr_rule_id new
             then s\<lparr>sr_current_state := sr_current_state new, sr_last_state_change := sr_last_state_change new\<rparr> else s) rows
      else rows @ [new])"

definition transitionState :: "bool \<Rightarrow> alerts_db \<Rightarrow> string \<Rightarrow> string \<Rightarrow> alert_state \<Rightarrow> string \<Rightarrow> string + alerts_db" where
  "transitionState enforce db ruleId projectId newState now =
     (if enforce \<and> ruleId \<notin> sr_rule_id ` set (alert_states db) \<and> ruleId \<notin> rr_id ` set (alert_rules db)
      then Inl ''FOREIGN KEY constraint failed''
      else Inr (db\<lparr>alert_states := upsert_state (alert_states db)
        \<lparr>sr_rule_id = ruleId, sr_project_id = projectId, sr_current_state = newState, sr_last_state_change = now\<rparr>\<rparr>))"

definition recordEvaluation ::
  "bool \<Rightarrow> string \<Rightarrow> string \<Rightarrow> alerts_db \<Rightarrow> string \<Rightarrow> string \<Rightarrow> js_number \<Rightarrow> alert_state \<Rightarrow> bool \<Rightarrow> string + alerts_db" where
  "recordEvaluation enforce ident now db ruleId projectId v st notified =
     (if enforce \<and> ruleId \<notin> rr_id ` set (alert_rules db) then Inl ''FOREIGN KEY constraint failed''
      else Inr (db\<lparr>alert_evaluations := alert_evaluations db @
        [\<lparr>er_id = ident, er_rule_id = ruleId, er_project_id = projectId, er_evaluated_at = now, er_value = v, er_state = st,
          er_notified = (if notified then 1 else 0)\<rparr>]\<rparr>))"

definition listEvaluations :: "alerts_db \<Rightarrow> int \<Rightarrow> string \<Rightarrow> int \<Rightarrow> nat option \<Rightarrow> evaluation list" where
  "listEvaluations db now ruleId hours n_max =
     (let cutoff = toISOString (now - hours * 60 * 60 * 1000);
          rows = filter (\<lambda>e. er_rule_id e = ruleId \<and> cutoff \<le> er_evaluated_at e) (alert_evaluations db)
      in map rowToEvaluation (take (min (or_else n_max 500) 1000) (order_desc er_evaluated_at rows)))"

section \<open>Evaluating a rule\<close>

definition query_text :: "(rat \<Rightarrow> string) \<Rightarrow> json \<Rightarrow> string \<Rightarrow> string option" where
  "query_text num q k = (if js_truthy (member_of q k) then Some (member_text num (member_of q k)) else None)"

definition matches_text :: "string option \<Rightarrow> string option \<Rightarrow> bool" where
  "matches_text wanted column = (case wanted of None \<Rightarrow> True | Some w \<Rightarrow> column = Some w)"

definition count_rows :: "'r list \<Rightarrow> ('r \<Rightarrow> bool) \<Rightarrow> js_number" where
  "count_rows rows p = Num (of_nat (length (filter p rows)))"

definition evaluateSpanRule :: "(rat \<Rightarrow> string) \<Rightarrow> alerts_db \<Rightarrow> int \<Rightarrow> alert_rule \<Rightarrow> string + js_number" where
  "evaluateSpanRule num db now rule =
     res_bind (windowCutoffIso now (ru_windowMins rule)) (\<lambda>cutoff.
       let q = ru_query rule in
       Inr (count_rows (telemetry_spans db) (\<lambda>r. sp_project r = ru_projectId rule \<and> cutoff \<le> sp_received_at r \<and>
         matches_text (query_text num q ''serviceName'') (sp_service_name r) \<and>
         matches_text (query_text num q ''spanName'') (Some (sp_span_name r)) \<and>
         (if member_of q ''statusCode'' = Some (JStr ''error'') then sp_status_code r = 2
          else if member_of q ''statusCode'' = Some (JStr ''ok'') then sp_status_code r \<noteq> 2 else True))))"

definition evaluateLogRule :: "(rat \<Rightarrow> string) \<Rightarrow> alerts_db \<Rightarrow> int \<Rightarrow> alert_rule \<Rightarrow> string + js_number" where
  "evaluateLogRule num db now rule =
     res_bind (windowCutoffIso now (ru_windowMins rule)) (\<lambda>cutoff.
       Inr (count_rows (log_table db) (\<lambda>r. lo_project r = ru_projectId rule \<and> cutoff \<le> lo_received_at r \<and>
         matches_text (query_text num (ru_query rule) ''serviceName'') (lo_service_name r) \<and>
         matches_text (query_text num (ru_query rule) ''severity'') (Some (lo_severity r)))))"

definition evaluateUsageRule ::
  "(rat \<Rightarrow> string) \<Rightarrow> (string \<Rightarrow> string \<Rightarrow> bool) \<Rightarrow> alerts_db \<Rightarrow> int \<Rightarrow> alert_rule \<Rightarrow> string + js_number" where
  "evaluateUsageRule num like db now rule =
     res_bind (windowCutoffIso now (ru_windowMins rule)) (\<lambda>cutoff.
       Inr (count_rows (usage_events db) (\<lambda>r. us_project r = ru_projectId rule \<and> cutoff \<le> us_occurred_at r \<and>
         us_event_type r = ''frontend_error'' \<and>
         matches_text (query_text num (ru_query rule) ''eventName'') (Some (us_event_name r)) \<and>
         (case query_text num (ru_query rule) ''pathPattern'' of None \<Rightarrow> True
          | Some pat \<Rightarrow> (case us_page_path r of None \<Rightarrow> False | Some path \<Rightarrow> like path pat)))))"

definition evaluateAIRule :: "(rat \<Rightarrow> string) \<Rightarrow> alerts_db \<Rightarrow> int \<Rightarrow> alert_rule \<Rightarrow> string + js_number" where
  "evaluateAIRule num db now rule =
     res_bind (windowCutoffIso now (ru_windowMins rule)) (\<lambda>cutoff.
       Inr (count_rows (ai_calls db) (\<lambda>r. ai_project r = ru_projectId rule \<and> cutoff \<le> ai_received_at r \<and>
         matches_text (query_text num (ru_query rule) ''provider'') (ai_provider r) \<and>
         matches_text (query_text num (ru_query rule) ''model'') (ai_model_name r) \<and>
         (if member_of (ru_query rule) ''isError'' = Some (JBool True) then ai_is_error r = 1 else True))))"

definition latest_analysis :: "alerts_db \<Rightarrow> string \<Rightarrow> string \<Rightarrow> analysis_row option" where
  "latest_analysis db projectId analysisId =
     find_row (\<lambda>_. True) (order_desc an_generated_at
       (filter (\<lambda>a. an_project a = projectId \<and> an_analysis_id a = analysisId) (analysis_results db)))"

definition evaluateRule ::
  "(rat \<Rightarrow> string) \<Rightarrow> (string \<Rightarrow> string \<Rightarrow> bool) \<Rightarrow> alerts_db \<Rightarrow> int \<Rightarrow> alert_rule \<Rightarrow> string + js_number" where
  "evaluateRule num like db now rule =
     (case ru_analysisId rule of
        Some (c # cs) \<Rightarrow> Inr (case latest_analysis db (ru_projectId rule) (c # cs) of
            None \<Rightarrow> Num 0 | Some a \<Rightarrow> or_else (an_primary_value a) (Num 0))
      | _ \<Rightarrow>
          if ru_signal rule = ''spans'' then evaluateSpanRule num db now rule
          else if ru_signal rule = ''logs'' then evaluateLogRule num db now rule
          else if ru_signal rule = ''usage'' then evaluateUsageRule num like db now rule
          else if ru_signal rule = ''ai'' then evaluateAIRule num db now rule
          else Inr NaN)"

definition getAnalysisNarrative :: "alerts_db \<Rightarrow> string \<Rightarrow> string \<Rightarrow> (string option \<times> string option) option" where
  "getAnalysisNarrative db projectId analysisId =
     map_option (\<lambda>a. (an_narrative a, an_status a)) (latest_analysis db projectId analysisId)"

section \<open>Validity\<close>

text \<open>What a stored rule promises to the evaluator: a recognised signal and comparison, finite numbers, and columns of
  JSON that parse, the channels to a non-empty list of webhooks.\<close>

definition valid_channels :: "(rat \<Rightarrow> string) \<Rightarrow> json \<Rightarrow> bool" where
  "valid_channels num j = (case j of JArr chs \<Rightarrow> chs \<noteq> [] \<and> validate_channels num chs = Inr () | _ \<Rightarrow> False)"

definition column_ok :: "(rat \<Rightarrow> string) \<Rightarrow> (json \<Rightarrow> bool) \<Rightarrow> string \<Rightarrow> bool" where
  "column_ok num p s = (case JSON_parse s of None \<Rightarrow> False | Some j \<Rightarrow> printable_json num j \<and> p j)"

definition valid_rule :: "(rat \<Rightarrow> string) \<Rightarrow> rule_row \<Rightarrow> bool" where
  "valid_rule num r \<longleftrightarrow> rr_name r \<noteq> [] \<and> rr_signal r \<in> set SIGNALS \<and> rr_comparison r \<in> set COMPARISONS \<and>
     isFinite (rr_threshold r) \<and> isFinite (rr_window_mins r) \<and> \<not> js_less (rr_window_mins r) (Num 1) \<and>
     column_ok num (\<lambda>_. True) (rr_query_json r) \<and> column_ok num (valid_channels num) (rr_channels_json r)"

text \<open>The foreign keys of \<^verbatim>\<open>alert_state\<close> and \<^verbatim>\<open>alert_evaluations\<close>.\<close>

definition references_ok :: "alerts_db \<Rightarrow> bool" where
  "references_ok db \<longleftrightarrow> sr_rule_id ` set (alert_states db) \<subseteq> rr_id ` set (alert_rules db) \<and>
     er_rule_id ` set (alert_evaluations db) \<subseteq> rr_id ` set (alert_rules db)"

definition store_ok :: "(rat \<Rightarrow> string) \<Rightarrow> bool \<Rightarrow> alerts_db \<Rightarrow> bool" where
  "store_ok num enforce db \<longleftrightarrow> list_all (valid_rule num) (alert_rules db) \<and> distinct (map rr_id (alert_rules db)) \<and>
     distinct (map sr_rule_id (alert_states db)) \<and> (enforce \<longrightarrow> references_ok db)"

lemma column_ok_stringify [simp]: "printable_json num j \<Longrightarrow> column_ok num p (stringify num j) = p j"
  by (simp add: column_ok_def JSON_roundtrip)

lemma parsed_stringify [simp]: "printable_json num j \<Longrightarrow> parseJsonField (stringify num j) = Inr j"
  by (simp add: parseJsonField_def JSON_roundtrip)

lemma validateInput_Inr:
  assumes "validateInput num input = Inr ()"
  shows "in_name input \<noteq> None" "trim (the (in_name input)) \<noteq> []" "in_signal input \<in> set SIGNALS"
    "isFinite (in_threshold input)" "isFinite (in_windowMins input)" "\<not> js_less (in_windowMins input) (Num 1)"
    "in_comparison input \<in> set COMPARISONS" "valid_channels num (in_channels input)"
  using assms
  by (auto simp: validateInput_def valid_channels_def simp del: validate_channels.simps split: if_splits option.splits json.splits)

lemma valid_input_row:
  assumes "validateInput num input = Inr ()" and "printable_json num (in_query input)" and "printable_json num (in_channels input)"
  shows "valid_rule num (input_row num ident p created now input)"
  using validateInput_Inr [OF assms(1)] assms(2, 3) by (simp add: valid_rule_def input_row_def)

lemma valid_row_parses:
  assumes "valid_rule num r"
  obtains x where "rowToRule r st = Inr x" and "printable_json num (ru_query x)" and "printable_json num (ru_channels x)"
  using assms by (auto simp: valid_rule_def column_ok_def rowToRule_def parseJsonField_def split: option.splits)

lemma all_rules_total:
  assumes "list_all (valid_rule num) rows"
  shows "\<exists>xs. all_rules st rows = Inr xs \<and> map ru_id xs = map rr_id rows"
  using assms
proof (induction rows)
  case (Cons r rows)
  then obtain xs where "all_rules st rows = Inr xs" "map ru_id xs = map rr_id rows" by auto
  moreover obtain x where "rowToRule r (st r) = Inr x" using valid_row_parses [of num r] Cons.prems by auto
  moreover have "ru_id x = rr_id r" using calculation(3) by (auto simp: rowToRule_def)
  ultimately show ?case by simp
qed simp

lemma find_row_SomeD: "find_row p rows = Some r \<Longrightarrow> p r \<and> r \<in> set rows"
  by (auto simp: find_row_def find_Some_iff)

section \<open>The store as a state machine\<close>

text \<open>Every operation that writes, with any clock, any fresh or colliding id and any input whose JSON prints.\<close>

inductive alerts_step :: "(rat \<Rightarrow> string) \<Rightarrow> bool \<Rightarrow> alerts_db \<Rightarrow> alerts_db \<Rightarrow> bool" for num enforce where
  step_create: "createRule num enforce ident now db p input = Inr (r, db') \<Longrightarrow> printable_json num (in_query input) \<Longrightarrow>
    printable_json num (in_channels input) \<Longrightarrow> alerts_step num enforce db db'"
| step_update: "updateRule num now db ident p patch = Inr (r, db') \<Longrightarrow> pred_option (printable_json num) (pa_query patch) \<Longrightarrow>
    pred_option (printable_json num) (pa_channels patch) \<Longrightarrow> alerts_step num enforce db db'"
| step_delete: "deleteRule enforce db ident p = Inr (hit, db') \<Longrightarrow> alerts_step num enforce db db'"
| step_transition: "transitionState enforce db ident p st now = Inr db' \<Longrightarrow> alerts_step num enforce db db'"
| step_record: "recordEvaluation enforce eid now db ident p v st notified = Inr db' \<Longrightarrow> alerts_step num enforce db db'"

lemma create_ok:
  assumes "store_ok num enforce db" and "createRule num enforce ident now db p input = Inr (r, db')"
    and "printable_json num (in_query input)" and "printable_json num (in_channels input)"
  shows "store_ok num enforce db'"
proof -
  have v: "validateInput num input = Inr ()" and fresh: "ident \<notin> rr_id ` set (alert_rules db)"
    and db': "db' = db\<lparr>alert_rules := alert_rules db @ [input_row num ident p now now input]\<rparr>"
    using assms(2) by (auto simp: createRule_def Let_def split: if_splits option.splits)
  have "rr_id (input_row num ident p now now input) = ident" by (simp add: input_row_def)
  then show ?thesis using assms(1) fresh valid_input_row [OF v assms(3, 4)]
    by (auto simp: db' store_ok_def references_ok_def)
qed

lemma update_ok:
  assumes "store_ok num enforce db" and "updateRule num now db ident p patch = Inr (r, db')"
    and "pred_option (printable_json num) (pa_query patch)" and "pred_option (printable_json num) (pa_channels patch)"
  shows "store_ok num enforce db'"
proof (cases "getRule db ident p = Inr None")
  case False
  then obtain e where e: "getRule db ident p = Inr (Some e)" and v: "validateInput num (merge_patch patch e) = Inr ()"
    and db': "db' = db\<lparr>alert_rules := map (\<lambda>r. if rr_id r = ident \<and> rr_project_id r = p
      then input_row num ident p (rr_created_at r) now (merge_patch patch e) else r) (alert_rules db)\<rparr>"
    using assms(2) by (auto simp: updateRule_def Let_def split: option.splits)
  obtain row st where row: "row \<in> set (alert_rules db)" "rowToRule row st = Inr e"
    using e by (auto simp: getRule_def dest: find_row_SomeD split: option.splits)
  then have "valid_rule num row" using assms(1) by (auto simp: store_ok_def list_all_iff)
  then have "printable_json num (ru_query e)" "printable_json num (ru_channels e)"
    using row(2) by (metis valid_row_parses sum.inject(2))+
  then have "printable_json num (in_query (merge_patch patch e))" "printable_json num (in_channels (merge_patch patch e))"
    using assms(3, 4) by (auto simp: merge_patch_def or_else_def split: option.splits)
  note new = valid_input_row [OF v this]
  have ids: "map rr_id (alert_rules db') = map rr_id (alert_rules db)" by (auto simp: db' input_row_def)
  then have "rr_id ` set (alert_rules db') = rr_id ` set (alert_rules db)" by (metis list.set_map)
  moreover have "alert_states db' = alert_states db" "alert_evaluations db' = alert_evaluations db" by (simp_all add: db')
  moreover have "list_all (valid_rule num) (alert_rules db')"
    using assms(1) new by (auto simp: db' store_ok_def list_all_iff)
  ultimately show ?thesis using assms(1) ids by (simp add: store_ok_def references_ok_def)
qed (use assms in \<open>auto simp: updateRule_def\<close>)

lemma delete_ok:
  assumes "store_ok num enforce db" and "deleteRule enforce db ident p = Inr (hit, db')"
  shows "store_ok num enforce db'"
proof -
  have db': "db' = db\<lparr>alert_rules := filter (\<lambda>r. \<not> (rr_id r = ident \<and> rr_project_id r = p)) (alert_rules db),
      alert_states := filter (\<lambda>s. sr_rule_id s \<noteq> ident) (alert_states db),
      alert_evaluations := filter (\<lambda>e. er_rule_id e \<noteq> ident) (alert_evaluations db)\<rparr>"
    using assms(2) by (auto simp: deleteRule_def Let_def split: if_splits)
  have keep: "k \<in> rr_id ` set (alert_rules db')" if "k \<in> rr_id ` set (alert_rules db)" "k \<noteq> ident" for k
    using that by (auto simp: db')
  have "references_ok db \<Longrightarrow> references_ok db'"
    unfolding references_ok_def image_subset_iff by (auto intro!: keep simp: db' simp del: image_iff)
  then show ?thesis using assms(1) by (auto simp: db' store_ok_def list_all_iff distinct_map_filter)
qed

lemma upsert_ids:
  "map sr_rule_id (upsert_state rows new) =
     (if sr_rule_id new \<in> sr_rule_id ` set rows then map sr_rule_id rows else map sr_rule_id rows @ [sr_rule_id new])"
  by (simp add: upsert_state_def)

lemma upsert_set: "sr_rule_id ` set (upsert_state rows new) = insert (sr_rule_id new) (sr_rule_id ` set rows)"
  using upsert_ids [of rows new] by (metis (no_types, lifting) insert_absorb list.set_map list.simps(15) rotate1.simps(2) set_rotate1)

lemma transition_ok:
  assumes "store_ok num enforce db" and "transitionState enforce db ident p st now = Inr db'"
  shows "store_ok num enforce db'"
proof -
  define new where "new = \<lparr>sr_rule_id = ident, sr_project_id = p, sr_current_state = st, sr_last_state_change = now\<rparr>"
  have db': "db' = db\<lparr>alert_states := upsert_state (alert_states db) new\<rparr>"
    and "enforce \<Longrightarrow> ident \<in> sr_rule_id ` set (alert_states db) \<or> ident \<in> rr_id ` set (alert_rules db)"
    using assms(2) by (auto simp: transitionState_def new_def split: if_splits)
  moreover have "sr_rule_id new = ident" by (simp add: new_def)
  ultimately show ?thesis using assms(1) by (auto simp: store_ok_def references_ok_def upsert_ids upsert_set simp del: image_set)
qed

lemma record_ok: "store_ok num enforce db \<Longrightarrow> recordEvaluation enforce eid now db ident p v st n = Inr db' \<Longrightarrow> store_ok num enforce db'"
  by (auto simp: recordEvaluation_def store_ok_def references_ok_def image_subset_iff split: if_splits)

lemma step_ok: "alerts_step num enforce db db' \<Longrightarrow> store_ok num enforce db \<Longrightarrow> store_ok num enforce db'"
  by (induction rule: alerts_step.induct) (blast intro: create_ok update_ok delete_ok transition_ok record_ok)+

lemma steps_ok: "(alerts_step num enforce)\<^sup>*\<^sup>* db db' \<Longrightarrow> store_ok num enforce db \<Longrightarrow> store_ok num enforce db'"
  by (induction rule: rtranclp_induct) (auto intro: step_ok)

section \<open>Properties of the store\<close>

lemma find_row_append: "find_row p (rows @ [r]) = (case find_row p rows of None \<Rightarrow> if p r then Some r else None | Some x \<Rightarrow> Some x)"
  unfolding find_row_def by (induction rows) auto

lemma find_row_None: "find_row p rows = None \<longleftrightarrow> (\<forall>r \<in> set rows. \<not> p r)"
  by (auto simp: find_row_def find_None_iff)

lemma createRule_Inr:
  assumes "validateInput num input = Inr ()" and "printable_json num (in_query input)" and "printable_json num (in_channels input)"
    and "ident \<notin> rr_id ` set (alert_rules db)" and "p \<in> set (projects db)"
  shows "\<exists>r. createRule num enforce ident now db p input = Inr (r, db\<lparr>alert_rules := alert_rules db @ [input_row num ident p now now input]\<rparr>)"
proof -
  have "find_row (\<lambda>r. rr_id r = ident \<and> rr_project_id r = p) (alert_rules db) = None" using assms(4) by (auto simp: find_row_None)
  then show ?thesis using assms
    by (simp add: createRule_def getRule_def find_row_append rowToRule_def input_row_def Let_def)
qed

text \<open>A valid rule created under a fresh id is returned and stored as given, the name trimmed and the rule enabled unless
  \<^verbatim>\<open>enabled\<close> is \<^verbatim>\<open>false\<close>; it reads back through \<^verbatim>\<open>getRule\<close>, for its own project only, and every other rule still
  reads as before.\<close>

theorem created_rule_reads_back:
  assumes "validateInput num input = Inr ()" and "printable_json num (in_query input)" and "printable_json num (in_channels input)"
    and "ident \<notin> rr_id ` set (alert_rules db)" and "p \<in> set (projects db)"
    and "find_row (\<lambda>s. sr_rule_id s = ident) (alert_states db) = None"
  shows "\<exists>db'. let r = \<lparr>ru_id = ident, ru_projectId = p, ru_name = trim (the (in_name input)), ru_signal = in_signal input,
        ru_query = in_query input, ru_threshold = in_threshold input, ru_windowMins = in_windowMins input,
        ru_comparison = in_comparison input, ru_channels = in_channels input, ru_enabled = (in_enabled input \<noteq> Some False),
        ru_createdAt = now, ru_updatedAt = now, ru_analysisId = in_analysisId input, ru_currentState = None,
        ru_lastStateChange = None\<rparr> in
      createRule num enforce ident now db p input = Inr (r, db') \<and> getRule db' ident p = Inr (Some r) \<and>
      (\<forall>q. q \<noteq> p \<longrightarrow> getRule db' ident q = Inr None) \<and> (\<forall>i q. i \<noteq> ident \<longrightarrow> getRule db' i q = getRule db i q)"
proof -
  define db' where "db' = db\<lparr>alert_rules := alert_rules db @ [input_row num ident p now now input]\<rparr>"
  have row: "rr_id (input_row num ident p now now input) = ident" "rr_project_id (input_row num ident p now now input) = p"
    by (simp_all add: input_row_def)
  have none: "find_row (\<lambda>r. rr_id r = ident \<and> rr_project_id r = q) (alert_rules db) = None" for q
    using assms(4) by (auto simp: find_row_None)
  have "getRule db' i q = getRule db i q" if "i \<noteq> ident" for i q
    using that row by (simp add: getRule_def db'_def find_row_append split: option.splits)
  moreover have "getRule db' ident q = Inr None" if "q \<noteq> p" for q
    using that row none by (simp add: getRule_def db'_def find_row_append)
  moreover have "getRule db' ident p = Inr (Some \<lparr>ru_id = ident, ru_projectId = p, ru_name = trim (the (in_name input)),
        ru_signal = in_signal input, ru_query = in_query input, ru_threshold = in_threshold input,
        ru_windowMins = in_windowMins input, ru_comparison = in_comparison input, ru_channels = in_channels input,
        ru_enabled = (in_enabled input \<noteq> Some False), ru_createdAt = now, ru_updatedAt = now,
        ru_analysisId = in_analysisId input, ru_currentState = None, ru_lastStateChange = None\<rparr>)"
    using assms(2, 3, 6) none row
    by (simp add: getRule_def db'_def find_row_append rowToRule_def input_row_def enabled_column_def)
  ultimately show ?thesis
    using assms(1, 4, 5) by (intro exI [of _ db']) (simp add: Let_def createRule_def db'_def [symmetric])
qed

definition empty_alerts :: "string \<Rightarrow> alerts_db" where
  "empty_alerts p = \<lparr>projects = [p], alert_rules = [], alert_states = [], alert_evaluations = [], telemetry_spans = [],
     log_table = [], usage_events = [], ai_calls = [], analysis_results = []\<rparr>"

definition sample_input :: rule_input where
  "sample_input = \<lparr>in_name = Some ''e '', in_signal = ''spans'', in_query = JObj [], in_threshold = Num 1, in_windowMins = Num 5,
     in_comparison = ''>'', in_channels = JArr [JObj [(''type'', JStr ''webhook''), (''url'', JStr ''https://a'')]],
     in_enabled = None, in_analysisId = None\<rparr>"

lemma sample_input_ok:
  "validateInput num sample_input = Inr ()" "printable_json num (in_query sample_input)" "printable_json num (in_channels sample_input)"
  by (simp_all add: validateInput_def sample_input_def SIGNALS_def COMPARISONS_def isFinite_def validateChannel_def member_of_def
      member_text_def js_truthy_def http_url_def startsWith_def trim_def is_space_def char_code_def map_get_def
      make_object_def obj_define_def is_index_def is_digit_def)

theorem created_rule_reads_back_witness:
  "\<exists>db'. createRule (\<lambda>_. ''1'') True ''r'' ''t'' (empty_alerts ''p'') ''p'' sample_input =
     Inr (\<lparr>ru_id = ''r'', ru_projectId = ''p'', ru_name = ''e'', ru_signal = ''spans'', ru_query = JObj [], ru_threshold = Num 1,
       ru_windowMins = Num 5, ru_comparison = ''>'', ru_channels = in_channels sample_input, ru_enabled = True, ru_createdAt = ''t'',
       ru_updatedAt = ''t'', ru_analysisId = None, ru_currentState = None, ru_lastStateChange = None\<rparr>, db')"
  using created_rule_reads_back [OF sample_input_ok, where ident = "''r''" and db = "empty_alerts ''p''" and p = "''p''" and num = "\<lambda>_. ''1''" and now = "''t''" and enforce = True]
  by (auto simp: Let_def empty_alerts_def find_row_def sample_input_def trim_def is_space_def char_code_def)

text \<open>C10: from an empty store, any sequence of creations, patches, deletions, state transitions and recorded evaluations
  leaves only valid rules with distinct ids, at most one state per rule and, where foreign keys are enforced, no state or
  evaluation without its rule; so \<^verbatim>\<open>listEnabledRules\<close> never throws and returns the enabled rules in order.\<close>

theorem alerts_store_invariant:
  assumes "(alerts_step num enforce)\<^sup>*\<^sup>* db0 db" and "alert_rules db0 = []" and "alert_states db0 = []" and "alert_evaluations db0 = []"
  shows "store_ok num enforce db \<and> (\<exists>rules. listEnabledRules db = Inr rules \<and>
    map ru_id rules = map rr_id (filter (\<lambda>r. rr_enabled r = 1) (alert_rules db)))"
proof -
  have ok: "store_ok num enforce db"
    using steps_ok [OF assms(1)] assms(2-4) by (simp add: store_ok_def references_ok_def)
  then have "list_all (valid_rule num) (filter (\<lambda>r. rr_enabled r = 1) (alert_rules db))" by (simp add: store_ok_def list_all_iff)
  then show ?thesis using ok all_rules_total by (auto simp: listEnabledRules_def)
qed

text \<open>Deleting under the wrong project answers false and keeps the rule, yet wipes the state and every evaluation of
  that project's rule; and where foreign keys are enforced, deleting a rule that has been evaluated or has a state throws,
  because the rule is deleted before the rows that refer to it.\<close>

theorem delete_rule_faults:
  "(find_row (\<lambda>r. rr_id r = ident \<and> rr_project_id r = p) (alert_rules db) = None \<longrightarrow>
     (\<exists>db'. deleteRule enforce db ident p = Inr (False, db') \<and> alert_rules db' = alert_rules db \<and> getState db' ident = None \<and>
       (\<forall>now hours n. listEvaluations db' now ident hours n = []))) \<and>
   (find_row (\<lambda>r. rr_id r = ident \<and> rr_project_id r = p) (alert_rules db) \<noteq> None \<and>
     (getState db ident \<noteq> None \<or> ident \<in> er_rule_id ` set (alert_evaluations db)) \<longrightarrow>
     deleteRule True db ident p = Inl ''FOREIGN KEY constraint failed'')"
proof (intro conjI impI)
  assume "find_row (\<lambda>r. rr_id r = ident \<and> rr_project_id r = p) (alert_rules db) = None"
  then have none: "\<forall>r \<in> set (alert_rules db). \<not> (rr_id r = ident \<and> rr_project_id r = p)" by (simp add: find_row_None)
  define db' where "db' = db\<lparr>alert_states := filter (\<lambda>s. sr_rule_id s \<noteq> ident) (alert_states db),
              alert_evaluations := filter (\<lambda>e. er_rule_id e \<noteq> ident) (alert_evaluations db)\<rparr>"
  have "filter (\<lambda>r. \<not> (rr_id r = ident \<and> rr_project_id r = p)) (alert_rules db) = alert_rules db"
    using none by (auto simp: filter_id_conv)
  then have "deleteRule enforce db ident p = Inr (False, db')"
    using none by (auto simp: deleteRule_def Let_def list_ex_iff db'_def)
  moreover have "getState db' ident = None" by (auto simp: getState_def find_row_None db'_def)
  moreover have "listEvaluations db' now ident hours n = []" for now hours n
    by (simp add: listEvaluations_def db'_def Let_def order_desc_def filter_empty_conv cong: conj_cong)
  ultimately show "\<exists>db'. deleteRule enforce db ident p = Inr (False, db') \<and> alert_rules db' = alert_rules db \<and> getState db' ident = None \<and>
       (\<forall>now hours n. listEvaluations db' now ident hours n = [])"
    by (intro exI [of _ db']) (simp add: db'_def)
next
  assume "find_row (\<lambda>r. rr_id r = ident \<and> rr_project_id r = p) (alert_rules db) \<noteq> None \<and>
    (getState db ident \<noteq> None \<or> ident \<in> er_rule_id ` set (alert_evaluations db))"
  then show "deleteRule True db ident p = Inl ''FOREIGN KEY constraint failed''"
    by (force simp: deleteRule_def Let_def list_ex_iff getState_def dest!: find_row_SomeD)
qed

definition sample_created :: alerts_db where
  "sample_created = (empty_alerts ''p'')\<lparr>alert_rules := [input_row (\<lambda>_. ''1'') ''r'' ''p'' ''t'' ''t'' sample_input]\<rparr>"

lemma sample_step: "alerts_step (\<lambda>_. ''1'') True (empty_alerts ''p'') sample_created"
  using createRule_Inr [OF sample_input_ok, where ident = "''r''" and db = "empty_alerts ''p''" and p = "''p''"
      and num = "\<lambda>_. ''1''" and now = "''t''" and enforce = True] step_create [OF _ sample_input_ok(2, 3)]
  by (auto simp: empty_alerts_def sample_created_def)

lemma sample_steps: "(alerts_step (\<lambda>_. ''1'') True)\<^sup>*\<^sup>* (empty_alerts ''p'') sample_created"
  by (rule r_into_rtranclp) (rule sample_step)

abbreviation sample_evaluated :: alerts_db where
  "sample_evaluated \<equiv> sample_created\<lparr>alert_states := [\<lparr>sr_rule_id = ''r'', sr_project_id = ''p'', sr_current_state = Ok,
     sr_last_state_change = ''t''\<rparr>]\<rparr>"

theorem alerts_store_invariant_witness:
  "store_ok (\<lambda>_. ''1'') True sample_created \<and> (\<exists>rules. listEnabledRules sample_created = Inr rules \<and> map ru_id rules = [''r''])"
  using alerts_store_invariant [OF sample_steps]
  by (simp add: empty_alerts_def sample_created_def input_row_def enabled_column_def sample_input_def)

theorem delete_rule_faults_witness:
  "deleteRule True sample_evaluated ''r'' ''p'' = Inl ''FOREIGN KEY constraint failed'' \<and>
   (\<exists>db'. deleteRule True sample_evaluated ''r'' ''q'' = Inr (False, db') \<and> getState db' ''r'' = None)"
  using delete_rule_faults [where ident = "''r''" and p = "''p''" and db = sample_evaluated and enforce = True]
    delete_rule_faults [where ident = "''r''" and p = "''q''" and db = sample_evaluated and enforce = True]
  by (auto simp: find_row_def sample_created_def getState_def input_row_def)

end
