(* ===== verification/Task_Pool.thy ===== *)
theory Task_Pool
  imports Prelude "HOL-Library.Multiset"
begin

text \<open>
  \<^verbatim>\<open>mapWithConcurrency\<close> of \<^verbatim>\<open>packages/obs-collector/src/plugins/alerts-evaluator.ts\<close>: a fixed number of workers share one index
  and one array of results.  A worker takes the next index in one turn and stores its result in a later one, so every
  interleaving of the workers is a run of \<open>pool_step\<close>.  The work on one item is one turn here; the theory \<open>Task_Turns\<close> has
  the same pool for a mapper with awaits of its own, of which this is the case of one await.  Shown: every run ends, after at
  most two turns per item, with every item done exactly once and its result at its own place.
\<close>

record ('s, 'r) pool =
  world :: 's
  nextIndex :: nat
  results :: "'r option list"
  running :: "nat option list"

definition start_pool :: "'a list \<Rightarrow> nat \<Rightarrow> 's \<Rightarrow> ('s, 'r) pool" where
  "start_pool items concurrency s =
     \<lparr>world = s, nextIndex = 0, results = replicate (length items) None,
      running = replicate (min concurrency (length items)) None\<rparr>"

inductive pool_step :: "('a \<Rightarrow> 's \<Rightarrow> 'r \<times> 's) \<Rightarrow> 'a list \<Rightarrow> ('s, 'r) pool \<Rightarrow> ('s, 'r) pool \<Rightarrow> bool" for mapper items where
  take_item: "w < length (running p) \<Longrightarrow> running p ! w = None \<Longrightarrow> nextIndex p < length items \<Longrightarrow>
    pool_step mapper items p (p\<lparr>nextIndex := Suc (nextIndex p), running := (running p)[w := Some (nextIndex p)]\<rparr>)"
| finish_item: "w < length (running p) \<Longrightarrow> running p ! w = Some i \<Longrightarrow> mapper (items ! i) (world p) = (r, s') \<Longrightarrow>
    pool_step mapper items p (p\<lparr>world := s', results := (results p)[i := Some r], running := (running p)[w := None]\<rparr>)"

inductive_cases pool_stepE: "pool_step mapper items p q"

definition all_returned :: "'a list \<Rightarrow> ('s, 'r) pool \<Rightarrow> bool" where
  "all_returned items p \<longleftrightarrow> list_all (\<lambda>x. x = None) (running p) \<and> (running p = [] \<or> length items \<le> nextIndex p)"

definition run_all :: "('a \<Rightarrow> 's \<Rightarrow> 'r \<times> 's) \<Rightarrow> 'a list \<Rightarrow> nat list \<Rightarrow> 's \<Rightarrow> 's" where
  "run_all mapper items order s = fold (\<lambda>i s. snd (mapper (items ! i) s)) order s"

text \<open>A schedule as data, to run one: the worker whose turn it is.\<close>

definition pool_turn :: "('a \<Rightarrow> 's \<Rightarrow> 'r \<times> 's) \<Rightarrow> 'a list \<Rightarrow> nat \<Rightarrow> ('s, 'r) pool \<Rightarrow> ('s, 'r) pool option" where
  "pool_turn mapper items w p =
     (if length (running p) \<le> w then None
      else case running p ! w of
        None \<Rightarrow> if nextIndex p < length items
          then Some (p\<lparr>nextIndex := Suc (nextIndex p), running := (running p)[w := Some (nextIndex p)]\<rparr>) else None
      | Some i \<Rightarrow> (case mapper (items ! i) (world p) of (r, s') \<Rightarrow>
          Some (p\<lparr>world := s', results := (results p)[i := Some r], running := (running p)[w := None]\<rparr>)))"

lemma pool_turn_step: "pool_turn mapper items w p = Some q \<Longrightarrow> pool_step mapper items p q"
  by (auto simp: pool_turn_def not_le intro: pool_step.intros split: if_splits option.splits prod.splits)

section \<open>Every schedule ends\<close>

definition pool_work :: "'a list \<Rightarrow> ('s, 'r) pool \<Rightarrow> nat" where
  "pool_work items p = 2 * (length items - nextIndex p) + length (filter (\<lambda>x. x \<noteq> None) (running p))"

lemma busy_mset:
  "w < length xs \<Longrightarrow> xs ! w = None \<Longrightarrow>
     mset (map the (filter (\<lambda>x. x \<noteq> None) (xs[w := Some i]))) = add_mset i (mset (map the (filter (\<lambda>x. x \<noteq> None) xs)))"
proof (induction xs arbitrary: w)
  case (Cons x xs)
  then show ?case by (cases w) auto
qed simp

lemma busy_mset':
  "w < length xs \<Longrightarrow> xs ! w = Some i \<Longrightarrow>
     mset (map the (filter (\<lambda>x. x \<noteq> None) xs)) = add_mset i (mset (map the (filter (\<lambda>x. x \<noteq> None) (xs[w := None]))))"
  using busy_mset [of w "xs[w := None]" i] list_update_id [of xs w] by simp

lemma busy_count:
  "w < length xs \<Longrightarrow> xs ! w = None \<Longrightarrow> length (filter (\<lambda>x. x \<noteq> None) (xs[w := Some i])) = Suc (length (filter (\<lambda>x. x \<noteq> None) xs))"
  "w < length xs \<Longrightarrow> xs ! w = Some i \<Longrightarrow> length (filter (\<lambda>x. x \<noteq> None) xs) = Suc (length (filter (\<lambda>x. x \<noteq> None) (xs[w := None])))"
  by (drule (1) busy_mset [THEN arg_cong [of _ _ size]] busy_mset' [THEN arg_cong [of _ _ size]],
      simp only: size_mset length_map size_add_mset)+

lemma step_work: "pool_step mapper items p q \<Longrightarrow> Suc (pool_work items q) = pool_work items p"
proof (elim pool_stepE)
  fix w
  assume "w < length (running p)" "running p ! w = None" "nextIndex p < length items"
    "q = p\<lparr>nextIndex := Suc (nextIndex p), running := (running p)[w := Some (nextIndex p)]\<rparr>"
  then show ?thesis using busy_count(1) [of w "running p" "nextIndex p"] by (simp add: pool_work_def)
next
  fix w i r s'
  assume "w < length (running p)" "running p ! w = Some i"
    "q = p\<lparr>world := s', results := (results p)[i := Some r], running := (running p)[w := None]\<rparr>"
  then show ?thesis using busy_count(2) [of w "running p" i] by (simp add: pool_work_def)
qed

lemma steps_work: "(pool_step mapper items ^^ n) p q \<Longrightarrow> n + pool_work items q = pool_work items p"
  by (induction n arbitrary: q) (use step_work in fastforce)+

lemma pool_progress: "\<not> all_returned items p \<Longrightarrow> \<exists>q. pool_step mapper items p q"
proof -
  assume "\<not> all_returned items p"
  then consider w i where "w < length (running p)" "running p ! w = Some i"
    | "0 < length (running p)" "running p ! 0 = None" "nextIndex p < length items"
    by (fastforce simp: all_returned_def list_all_length)
  then show ?thesis
  proof cases
    case 1
    then show ?thesis by (cases "mapper (items ! i) (world p)") (blast intro: finish_item)
  next
    case 2
    then show ?thesis by (blast intro: take_item)
  qed
qed

lemma pool_ends: "\<exists>q. (pool_step mapper items)\<^sup>*\<^sup>* p q \<and> all_returned items q"
proof (induction "pool_work items p" arbitrary: p rule: less_induct)
  case less
  show ?case
  proof (cases "all_returned items p")
    case False
    then obtain q where q: "pool_step mapper items p q" using pool_progress [of items p mapper] by blast
    have "pool_work items q < pool_work items p" using step_work [OF q] by simp
    then obtain r where "(pool_step mapper items)\<^sup>*\<^sup>* q r" "all_returned items r" using less by blast
    then show ?thesis using converse_rtranclp_into_rtranclp [of "pool_step mapper items", OF q] by blast
  qed blast
qed

section \<open>Every item exactly once\<close>

definition pool_inv :: "('a \<Rightarrow> 's \<Rightarrow> 'r \<times> 's) \<Rightarrow> 'a list \<Rightarrow> 's \<Rightarrow> nat \<Rightarrow> nat list \<Rightarrow> ('s, 'r) pool \<Rightarrow> bool" where
  "pool_inv mapper items s0 workers order p \<longleftrightarrow>
     length (results p) = length items \<and> length (running p) = workers \<and> nextIndex p \<le> length items \<and>
     mset order + mset (map the (filter (\<lambda>x. x \<noteq> None) (running p))) = mset [0..<nextIndex p] \<and>
     world p = run_all mapper items order s0 \<and>
     (\<forall>i < length items. i \<notin> set order \<longrightarrow> results p ! i = None) \<and>
     (\<forall>k < length order. results p ! (order ! k) = Some (fst (mapper (items ! (order ! k)) (run_all mapper items (take k order) s0))))"

lemma pool_inv_take:
  assumes "pool_inv mapper items s0 m order p" and "w < length (running p)" and "running p ! w = None" and "nextIndex p < length items"
  shows "pool_inv mapper items s0 m order (p\<lparr>nextIndex := Suc (nextIndex p), running := (running p)[w := Some (nextIndex p)]\<rparr>)"
  using assms busy_mset [OF assms(2, 3)] by (simp add: pool_inv_def)

lemma part_of_upt:
  assumes "mset xs + M = mset [0..<n]"
  shows "distinct xs" and "\<And>i. i \<in> set xs \<Longrightarrow> i < n"
proof -
  obtain ys where "M = mset ys" by (metis ex_mset)
  then have eq: "mset (xs @ ys) = mset [0..<n]" using assms by simp
  show "distinct xs" using mset_eq_imp_distinct_iff [OF eq] by simp
  show "\<And>i. i \<in> set xs \<Longrightarrow> i < n" using mset_eq_setD [OF eq] by auto
qed

lemma pool_inv_finish:
  assumes inv: "pool_inv mapper items s0 m order p" and w: "w < length (running p)" "running p ! w = Some i"
    and m: "mapper (items ! i) (world p) = (r, s')"
  shows "pool_inv mapper items s0 m (order @ [i]) (p\<lparr>world := s', results := (results p)[i := Some r], running := (running p)[w := None]\<rparr>)"
    (is "pool_inv _ _ _ _ _ ?q")
proof -
  have set: "mset (order @ [i]) + mset (map the (filter (\<lambda>x. x \<noteq> None) (running ?q))) = mset [0..<nextIndex p]"
    using inv busy_mset' [OF w] by (simp add: pool_inv_def)
  have world: "world p = run_all mapper items order s0" using inv by (simp add: pool_inv_def)
  note part = part_of_upt [OF set]
  have n: "nextIndex p \<le> length items" using inv by (simp add: pool_inv_def)
  have new: "i \<notin> set order" "i < length items" using part(1) part(2) [of i] n by auto
  have old: "order ! k \<noteq> i" "order ! k < length items" if "k < length order" for k
    using that new(1) part(2) [of "order ! k"] n nth_mem [OF that] by auto
  have "run_all mapper items (order @ [i]) s0 = s'" using m world by (simp add: run_all_def)
  moreover have "results ?q ! ((order @ [i]) ! k) = Some (fst (mapper (items ! ((order @ [i]) ! k)) (run_all mapper items (take k (order @ [i])) s0)))"
    if "k < length (order @ [i])" for k
  proof (cases "k < length order")
    case True
    then show ?thesis using old [OF True] inv by (simp add: pool_inv_def nth_append)
  next
    case False
    then have "k = length order" using that by simp
    then show ?thesis using new m world inv by (simp add: pool_inv_def)
  qed
  ultimately show ?thesis using inv set new unfolding pool_inv_def by (auto simp: nth_list_update)
qed

lemma pool_inv_start: "pool_inv mapper items s (min c (length items)) [] (start_pool items c s)"
  by (simp add: pool_inv_def start_pool_def run_all_def)

lemma pool_inv_steps:
  "(pool_step mapper items)\<^sup>*\<^sup>* (start_pool items c s) p \<Longrightarrow> \<exists>order. pool_inv mapper items s (min c (length items)) order p"
proof (induction rule: rtranclp_induct)
  case (step p q)
  then obtain order where inv: "pool_inv mapper items s (min c (length items)) order p" by blast
  from step(2) show ?case
    by (elim pool_stepE) (use pool_inv_take [OF inv] pool_inv_finish [OF inv] in \<open>simp only:, blast\<close>)+
qed (rule exI, rule pool_inv_start)

lemma pool_invD:
  assumes "pool_inv mapper items s0 m order p"
  shows "world p = run_all mapper items order s0"
    and "k < length order \<Longrightarrow> results p ! (order ! k) = Some (fst (mapper (items ! (order ! k)) (run_all mapper items (take k order) s0)))"
  using assms by (simp_all add: pool_inv_def)

lemma returned_order:
  assumes inv: "pool_inv mapper items s (min c (length items)) order p" and "all_returned items p" and "0 < c"
  shows "mset order = mset [0..<length items]"
proof -
  have idle: "filter (\<lambda>x. x \<noteq> None) (running p) = []" using assms(2) by (auto simp: all_returned_def filter_empty_conv list_all_iff)
  then have "mset order = mset [0..<nextIndex p]" using inv by (simp add: pool_inv_def)
  moreover have "nextIndex p = length items"
    using assms by (cases "items = []") (auto simp: pool_inv_def all_returned_def)
  ultimately show ?thesis by simp
qed

text \<open>C17: with the work on an item as one turn, and however its workers interleave, \<^verbatim>\<open>mapWithConcurrency\<close> with at least one worker takes exactly two turns per item and
  is never stuck before; when the workers have returned, the items were processed once each, in some order, and the array
  holds each item's result at that item's index.\<close>

theorem mapWithConcurrency_complete:
  assumes "(pool_step mapper items ^^ n) (start_pool items c s) p" and "0 < c"
  shows "n \<le> 2 * length items \<and> (all_returned items p \<or> (\<exists>q. pool_step mapper items p q)) \<and>
    (n = 2 * length items \<longleftrightarrow> all_returned items p) \<and>
    (all_returned items p \<longrightarrow> (\<exists>order. mset order = mset [0..<length items] \<and> world p = run_all mapper items order s \<and>
       (\<forall>k < length items. results p ! (order ! k) =
          Some (fst (mapper (items ! (order ! k)) (run_all mapper items (take k order) s))))))"
proof -
  have n: "n + pool_work items p = 2 * length items"
    using steps_work [OF assms(1)] by (simp add: pool_work_def start_pool_def)
  obtain order where inv: "pool_inv mapper items s (min c (length items)) order p"
    using pool_inv_steps [OF relpowp_imp_rtranclp [OF assms(1)]] by (elim exE)
  have "all_returned items p \<longleftrightarrow> pool_work items p = 0"
  proof
    show "all_returned items p \<Longrightarrow> pool_work items p = 0"
      using inv assms(2) by (cases "items = []")
        (auto simp: pool_work_def all_returned_def filter_empty_conv list_all_iff pool_inv_def)
    show "pool_work items p = 0 \<Longrightarrow> all_returned items p"
      by (auto simp: pool_work_def all_returned_def filter_empty_conv list_all_iff)
  qed
  moreover have "\<exists>order. mset order = mset [0..<length items] \<and> world p = run_all mapper items order s \<and>
       (\<forall>k < length items. results p ! (order ! k) =
          Some (fst (mapper (items ! (order ! k)) (run_all mapper items (take k order) s))))" if "all_returned items p"
  proof -
    have perm: "mset order = mset [0..<length items]" using returned_order [OF inv that assms(2)] .
    then have "length order = length items" using mset_eq_length [OF perm] by simp
    then show ?thesis using perm pool_invD [OF inv] by (intro exI [of _ order]) simp
  qed
  ultimately show ?thesis using n pool_progress [of items p mapper] by auto
qed

definition sample_mapper :: "nat \<Rightarrow> nat list \<Rightarrow> nat \<times> nat list" where "sample_mapper x xs = (x + length xs, xs @ [x])"

theorem mapWithConcurrency_complete_witness:
  "\<exists>p. (pool_step sample_mapper [7] ^^ 2) (start_pool [7::nat] 5 []) p \<and> all_returned [7::nat] p \<and> world p = [7] \<and> results p = [Some 7]"
proof -
  let ?p1 = "\<lparr>world = [], nextIndex = 1, results = [None], running = [Some 0]\<rparr>"
  let ?p2 = "\<lparr>world = [7], nextIndex = 1, results = [Some 7], running = [None]\<rparr>"
  have "pool_step sample_mapper [7] (start_pool [7::nat] 5 []) ?p1"
    by (rule pool_turn_step [where w = 0]) (simp add: pool_turn_def start_pool_def)
  moreover have "pool_step sample_mapper [7] ?p1 ?p2"
    by (rule pool_turn_step [where w = 0]) (simp add: pool_turn_def sample_mapper_def)
  ultimately have "(pool_step sample_mapper [7] ^^ 2) (start_pool [7::nat] 5 []) ?p2" by (auto simp: numeral_2_eq_2 relpowp_Suc_I)
  from this mapWithConcurrency_complete [OF this] show ?thesis by (intro exI [of _ ?p2]) simp
qed

end
