(* ===== verification/Task_Turns.thy ===== *)
theory Task_Turns
  imports Task_Pool
begin

text \<open>
  \<^verbatim>\<open>mapWithConcurrency\<close> of \<^verbatim>\<open>packages/obs-collector/src/plugins/alerts-evaluator.ts\<close> with the awaits of its mapper.
  A task is the tree of an asynchronous function: it has returned, or its next turn changes the world and gives the rest of
  it.  A worker takes the next index, runs the task of that item turn by turn, and stores what it returned; between any two
  turns the other workers may run, so \<open>task_step\<close> has every interleaving of the awaits.  The machine \<open>pool_step\<close> is the case
  of tasks of one turn.  Shown: no run is infinite and none is stuck before all workers have returned; and the contract
  \<open>independent_turns\<close>, under which every schedule gives each item the result of its task run alone.
\<close>

section \<open>Tasks\<close>

datatype ('s, 'r) task = Return 'r | Turn "'s \<Rightarrow> 's \<times> ('s, 'r) task"

text \<open>A task alone: its turns one after the other.\<close>

primrec run_task :: "('s, 'r) task \<Rightarrow> 's \<Rightarrow> 'r \<times> 's" where
  "run_task (Return r) = (\<lambda>s. (r, s))"
| "run_task (Turn f) = (\<lambda>s. case (map_prod id run_task \<circ> f) s of (s', run) \<Rightarrow> run s')"

lemma run_Turn: "run_task (Turn f) s = run_task (snd (f s)) (fst (f s))"
  by (cases "f s") simp

declare run_task.simps(2) [simp del] run_Turn [simp]

text \<open>An effect of one turn whose result the rest of the task takes.\<close>

definition act :: "('s \<Rightarrow> 'x \<times> 's) \<Rightarrow> ('x \<Rightarrow> ('s, 'r) task) \<Rightarrow> ('s, 'r) task" where
  "act m k = Turn (\<lambda>s. (snd (m s), k (fst (m s))))"

lemma run_act [simp]: "run_task (act m k) s = run_task (k (fst (m s))) (snd (m s))"
  by (simp add: act_def)

definition subtask :: "(('s, 'r) task \<times> ('s, 'r) task) set" where
  "subtask = {(snd (f s), Turn f) | f s. True}"

lemma wf_subtask: "wf subtask"
proof (rule wfUNIVI)
  fix P :: "('s, 'r) task \<Rightarrow> bool" and t
  assume step: "\<forall>t. (\<forall>u. (u, t) \<in> subtask \<longrightarrow> P u) \<longrightarrow> P t"
  show "P t"
  proof (induction t)
    case (Return r)
    show ?case using step by (simp add: subtask_def)
  next
    case (Turn f)
    have "P (snd (f s))" for s using Turn [of "f s" "snd (f s)"] by (simp add: snds.simps)
    then show ?case using step [rule_format, of "Turn f"] by (auto simp: subtask_def)
  qed
qed

section \<open>The pool\<close>

record ('s, 'r) task_pool =
  tp_world :: 's
  tp_nextIndex :: nat
  tp_results :: "'r option list"
  tp_running :: "(nat \<times> ('s, 'r) task) option list"

definition start_tasks :: "'a list \<Rightarrow> nat \<Rightarrow> 's \<Rightarrow> ('s, 'r) task_pool" where
  "start_tasks items concurrency s =
     \<lparr>tp_world = s, tp_nextIndex = 0, tp_results = replicate (length items) None,
      tp_running = replicate (min concurrency (length items)) None\<rparr>"

inductive task_step :: "('a \<Rightarrow> ('s, 'r) task) \<Rightarrow> 'a list \<Rightarrow> ('s, 'r) task_pool \<Rightarrow> ('s, 'r) task_pool \<Rightarrow> bool" for mapper items where
  take_task: "w < length (tp_running p) \<Longrightarrow> tp_running p ! w = None \<Longrightarrow> tp_nextIndex p < length items \<Longrightarrow>
    task_step mapper items p (p\<lparr>tp_nextIndex := Suc (tp_nextIndex p),
      tp_running := (tp_running p)[w := Some (tp_nextIndex p, mapper (items ! tp_nextIndex p))]\<rparr>)"
| turn_task: "w < length (tp_running p) \<Longrightarrow> tp_running p ! w = Some (i, Turn f) \<Longrightarrow>
    task_step mapper items p (p\<lparr>tp_world := fst (f (tp_world p)), tp_running := (tp_running p)[w := Some (i, snd (f (tp_world p)))]\<rparr>)"
| finish_task: "w < length (tp_running p) \<Longrightarrow> tp_running p ! w = Some (i, Return r) \<Longrightarrow>
    task_step mapper items p (p\<lparr>tp_results := (tp_results p)[i := Some r], tp_running := (tp_running p)[w := None]\<rparr>)"

inductive_cases task_stepE: "task_step mapper items p q"

definition tasks_returned :: "'a list \<Rightarrow> ('s, 'r) task_pool \<Rightarrow> bool" where
  "tasks_returned items p \<longleftrightarrow> list_all (\<lambda>x. x = None) (tp_running p) \<and> (tp_running p = [] \<or> length items \<le> tp_nextIndex p)"

section \<open>Every schedule ends\<close>

text \<open>A worker's progress: an idle worker is below a busy one, and a task below the task it is the rest of.\<close>

definition worker_order :: "((nat \<times> ('s, 'r) task) option \<times> (nat \<times> ('s, 'r) task) option) set" where
  "worker_order = {(None, Some x) | x. True} \<union> {(Some (i, u), Some (i, t)) | i u t. (u, t) \<in> subtask}"

lemma wf_worker_order: "wf worker_order"
proof (rule wfUNIVI)
  fix P :: "(nat \<times> ('s, 'r) task) option \<Rightarrow> bool" and x
  assume step: "\<forall>x. (\<forall>y. (y, x) \<in> worker_order \<longrightarrow> P y) \<longrightarrow> P x"
  have None: "P None" by (rule step [rule_format]) (simp add: worker_order_def)
  have "P (Some (i, t))" for i t
  proof (induction t rule: wf_induct_rule [OF wf_subtask])
    case (1 t)
    have "P y" if y: "(y, Some (i, t)) \<in> worker_order" for y
    proof (cases y)
      case (Some z)
      then obtain u where "y = Some (i, u)" "(u, t) \<in> subtask" using y by (auto simp: worker_order_def)
      then show ?thesis using 1 by simp
    qed (simp add: None)
    then show ?case by (rule step [rule_format])
  qed
  then show "P x" using None by (cases x) auto
qed

definition pool_order :: "'a list \<Rightarrow> (('s, 'r) task_pool \<times> ('s, 'r) task_pool) set" where
  "pool_order items = inv_image (less_than <*lex*> listrel1 worker_order) (\<lambda>p. (length items - tp_nextIndex p, tp_running p))"

lemma wf_pool_order: "wf (pool_order items)"
  by (simp add: pool_order_def wf_worker_order wf_lex_prod)

lemma listrel1_update: "w < length xs \<Longrightarrow> (y, xs ! w) \<in> r \<Longrightarrow> (xs[w := y], xs) \<in> listrel1 r"
  unfolding listrel1_iff_update by (metis length_list_update list_update_id list_update_overwrite nth_list_update_eq)

lemma task_step_order: "task_step mapper items p q \<Longrightarrow> (q, p) \<in> pool_order items"
proof (elim task_stepE)
  fix w assume "w < length (tp_running p)" "tp_running p ! w = None" "tp_nextIndex p < length items"
    "q = p\<lparr>tp_nextIndex := Suc (tp_nextIndex p), tp_running := (tp_running p)[w := Some (tp_nextIndex p, mapper (items ! tp_nextIndex p))]\<rparr>"
  then show ?thesis by (simp add: pool_order_def diff_less_mono2)
next
  fix w i f assume w: "w < length (tp_running p)" "tp_running p ! w = Some (i, Turn f)"
    and q: "q = p\<lparr>tp_world := fst (f (tp_world p)), tp_running := (tp_running p)[w := Some (i, snd (f (tp_world p)))]\<rparr>"
  have "(Some (i, snd (f (tp_world p))), tp_running p ! w) \<in> worker_order" unfolding w(2) worker_order_def subtask_def by blast
  then show ?thesis using listrel1_update [OF w(1)] by (simp add: pool_order_def q)
next
  fix w i r assume w: "w < length (tp_running p)" "tp_running p ! w = Some (i, Return r)"
    and q: "q = p\<lparr>tp_results := (tp_results p)[i := Some r], tp_running := (tp_running p)[w := None]\<rparr>"
  have "(None, tp_running p ! w) \<in> worker_order" unfolding w(2) worker_order_def by blast
  then show ?thesis using listrel1_update [OF w(1)] by (simp add: pool_order_def q)
qed

lemma no_infinite_run: "\<not> (\<exists>run. \<forall>k. task_step mapper items (run k) (run (Suc k)))"
  using wf_pool_order [of items] task_step_order unfolding wf_iff_no_infinite_down_chain by metis

lemma task_progress: "\<not> tasks_returned items p \<Longrightarrow> \<exists>q. task_step mapper items p q"
proof -
  assume "\<not> tasks_returned items p"
  then consider w i t where "w < length (tp_running p)" "tp_running p ! w = Some (i, t)"
    | "0 < length (tp_running p)" "tp_running p ! 0 = None" "tp_nextIndex p < length items"
    by (fastforce simp: tasks_returned_def list_all_length)
  then show ?thesis
  proof cases
    case 1
    then show ?thesis by (cases t) (blast intro: turn_task finish_task)+
  qed (blast intro: take_task)
qed

lemma returned_final: "tasks_returned items p \<Longrightarrow> \<not> task_step mapper items p q"
  by (auto simp: tasks_returned_def list_all_length elim!: task_stepE)

lemma tasks_end: "\<exists>q. (task_step mapper items)\<^sup>*\<^sup>* p q \<and> tasks_returned items q"
proof (induction p rule: wf_induct_rule [OF wf_pool_order [of items]])
  case (1 p)
  show ?case
  proof (cases "tasks_returned items p")
    case False
    then obtain q where "task_step mapper items p q" using task_progress by blast
    then show ?thesis using 1 [OF task_step_order] by (meson converse_rtranclp_into_rtranclp)
  qed blast
qed

section \<open>Tasks of one turn\<close>

text \<open>Every run of \<open>pool_step\<close> is a run of \<open>task_step\<close> over tasks of a single turn.\<close>

definition one_turn :: "('a \<Rightarrow> 's \<Rightarrow> 'r \<times> 's) \<Rightarrow> 'a \<Rightarrow> ('s, 'r) task" where
  "one_turn mapper a = act (mapper a) Return"

definition with_tasks :: "('a \<Rightarrow> 's \<Rightarrow> 'r \<times> 's) \<Rightarrow> 'a list \<Rightarrow> ('s, 'r) pool \<Rightarrow> ('s, 'r) task_pool" where
  "with_tasks mapper items p =
     \<lparr>tp_world = world p, tp_nextIndex = nextIndex p, tp_results = results p,
      tp_running = map (map_option (\<lambda>i. (i, one_turn mapper (items ! i)))) (running p)\<rparr>"

lemma pool_step_tasks:
  "pool_step mapper items p q \<Longrightarrow> (task_step (one_turn mapper) items)\<^sup>*\<^sup>* (with_tasks mapper items p) (with_tasks mapper items q)"
proof (elim pool_stepE)
  fix w assume "w < length (running p)" "running p ! w = None" "nextIndex p < length items"
    and q: "q = p\<lparr>nextIndex := Suc (nextIndex p), running := (running p)[w := Some (nextIndex p)]\<rparr>"
  then have "task_step (one_turn mapper) items (with_tasks mapper items p) (with_tasks mapper items q)"
    using take_task [of w "with_tasks mapper items p" items "one_turn mapper"] by (simp add: with_tasks_def map_update)
  then show ?thesis by blast
next
  fix w i r s' assume w: "w < length (running p)" "running p ! w = Some i" and m: "mapper (items ! i) (world p) = (r, s')"
    and q: "q = p\<lparr>world := s', results := (results p)[i := Some r], running := (running p)[w := None]\<rparr>"
  let ?p = "with_tasks mapper items p"
  let ?r = "?p\<lparr>tp_world := s', tp_running := (tp_running ?p)[w := Some (i, Return r)]\<rparr>"
  have "task_step (one_turn mapper) items ?p ?r"
    using turn_task [of w ?p i "\<lambda>s. (snd (mapper (items ! i) s), Return (fst (mapper (items ! i) s)))" "one_turn mapper" items] w m
    by (simp add: with_tasks_def one_turn_def act_def)
  moreover have "task_step (one_turn mapper) items ?r (with_tasks mapper items q)"
    using finish_task [of w ?r i r "one_turn mapper" items] w by (simp add: with_tasks_def q map_update)
  ultimately show ?thesis by (meson converse_rtranclp_into_rtranclp rtranclp.rtrancl_refl)
qed

section \<open>Tasks that do not meet\<close>

text \<open>A task that reads and changes only what \<open>V\<close> shows, and one that leaves what \<open>V\<close> shows.\<close>

inductive local_task :: "('s \<Rightarrow> 'v) \<Rightarrow> ('s, 'r) task \<Rightarrow> bool" for V where
  local_Return: "local_task V (Return r)"
| local_Turn: "(\<And>s t. V s = V t \<Longrightarrow> V (fst (f s)) = V (fst (f t)) \<and> snd (f s) = snd (f t)) \<Longrightarrow> (\<And>s. local_task V (snd (f s))) \<Longrightarrow>
    local_task V (Turn f)"

inductive frame_task :: "('s \<Rightarrow> 'v) \<Rightarrow> ('s, 'r) task \<Rightarrow> bool" for V where
  frame_Return: "frame_task V (Return r)"
| frame_Turn: "(\<And>s. V (fst (f s)) = V s) \<Longrightarrow> (\<And>s. frame_task V (snd (f s))) \<Longrightarrow> frame_task V (Turn f)"

lemma local_TurnD:
  assumes "local_task V (Turn f)"
  shows "V s = V t \<Longrightarrow> V (fst (f s)) = V (fst (f t)) \<and> snd (f s) = snd (f t)" and "local_task V (snd (f s))"
  using assms by (cases rule: local_task.cases, blast)+

lemma frame_TurnD:
  assumes "frame_task V (Turn f)"
  shows "V (fst (f s)) = V s" and "frame_task V (snd (f s))"
  using assms by (cases rule: frame_task.cases, blast)+

lemma run_local:
  "local_task V t \<Longrightarrow> V s = V s' \<Longrightarrow> fst (run_task t s) = fst (run_task t s') \<and> V (snd (run_task t s)) = V (snd (run_task t s'))"
proof (induction arbitrary: s s' rule: local_task.induct)
  case (local_Turn f)
  have "V (fst (f s)) = V (fst (f s'))" "snd (f s) = snd (f s')" using local_Turn.hyps(1) [OF local_Turn.prems] by simp_all
  then show ?case using local_Turn.IH [of "fst (f s)" "fst (f s')" s'] by simp
qed simp

lemma local_act:
  assumes "\<And>s t. V s = V t \<Longrightarrow> fst (m s) = fst (m t) \<and> V (snd (m s)) = V (snd (m t))" and "\<And>x. local_task V (k x)"
  shows "local_task V (act m k)"
  unfolding act_def
proof (intro local_Turn)
  fix s t assume "V s = V t"
  then show "V (fst (snd (m s), k (fst (m s)))) = V (fst (snd (m t), k (fst (m t)))) \<and> snd (snd (m s), k (fst (m s))) = snd (snd (m t), k (fst (m t)))"
    using assms(1) [of s t] by simp
qed (simp add: assms(2))

lemma frame_act:
  assumes "\<And>s. V (snd (m s)) = V s" and "\<And>x. frame_task V (k x)"
  shows "frame_task V (act m k)"
  unfolding act_def using assms by (intro frame_Turn) auto

definition at_work :: "('s, 'r) task_pool \<Rightarrow> nat \<Rightarrow> nat \<Rightarrow> ('s, 'r) task \<Rightarrow> bool" where
  "at_work p w i t \<longleftrightarrow> w < length (tp_running p) \<and> tp_running p ! w = Some (i, t)"

lemma at_work_update:
  "w < length (tp_running p) \<Longrightarrow> tp_running q = (tp_running p)[w := x] \<Longrightarrow>
     at_work q v i t \<longleftrightarrow> (if v = w then x = Some (i, t) else at_work p v i t)"
  by (auto simp: at_work_def)

locale independent_turns =
  fixes task :: "'a \<Rightarrow> ('s, 'r) task" and view :: "'a \<Rightarrow> 's \<Rightarrow> 'v" and apart :: "'a \<Rightarrow> 'a \<Rightarrow> bool"
  assumes own: "local_task (view a) (task a)"
    and others: "apart a b \<Longrightarrow> frame_task (view b) (task a)"
begin

text \<open>What is left of item \<open>i\<close> will end as the whole task alone does, whatever the others do; \<open>alone\<close> is that outcome.\<close>

definition alone :: "'s \<Rightarrow> 'a \<Rightarrow> 'r \<times> 'v" where
  "alone s a = (fst (run_task (task a) s), view a (snd (run_task (task a) s)))"

definition rest_ok :: "'a list \<Rightarrow> 's \<Rightarrow> 's \<Rightarrow> nat \<Rightarrow> ('s, 'r) task \<Rightarrow> bool" where
  "rest_ok items s0 s i t \<longleftrightarrow>
     local_task (view (items ! i)) t \<and> (\<forall>j < length items. j \<noteq> i \<longrightarrow> frame_task (view (items ! j)) t) \<and>
     (fst (run_task t s), view (items ! i) (snd (run_task t s))) = alone s0 (items ! i)"

definition turns_inv :: "'a list \<Rightarrow> 's \<Rightarrow> ('s, 'r) task_pool \<Rightarrow> bool" where
  "turns_inv items s0 p \<longleftrightarrow>
     length (tp_results p) = length items \<and> tp_nextIndex p \<le> length items \<and>
     (\<forall>w i t. at_work p w i t \<longrightarrow> i < tp_nextIndex p \<and> rest_ok items s0 (tp_world p) i t) \<and>
     (\<forall>w w' i t u. at_work p w i t \<longrightarrow> at_work p w' i u \<longrightarrow> w = w') \<and>
     (\<forall>i < tp_nextIndex p. (\<exists>w t. at_work p w i t) \<or>
        tp_results p ! i = Some (fst (alone s0 (items ! i))) \<and> view (items ! i) (tp_world p) = snd (alone s0 (items ! i))) \<and>
     (\<forall>i < length items. tp_nextIndex p \<le> i \<longrightarrow> view (items ! i) (tp_world p) = view (items ! i) s0)"

lemma turns_invD:
  assumes "turns_inv items s0 p"
  shows "length (tp_results p) = length items" and "tp_nextIndex p \<le> length items"
    and "at_work p w i t \<Longrightarrow> i < tp_nextIndex p" and "at_work p w i t \<Longrightarrow> rest_ok items s0 (tp_world p) i t"
    and "at_work p w i t \<Longrightarrow> at_work p w' i u \<Longrightarrow> w = w'"
    and "i < tp_nextIndex p \<Longrightarrow> (\<exists>w t. at_work p w i t) \<or>
        tp_results p ! i = Some (fst (alone s0 (items ! i))) \<and> view (items ! i) (tp_world p) = snd (alone s0 (items ! i))"
    and "i < length items \<Longrightarrow> tp_nextIndex p \<le> i \<Longrightarrow> view (items ! i) (tp_world p) = view (items ! i) s0"
  using assms unfolding turns_inv_def by blast+

lemma turns_inv_start:
  assumes "p = start_tasks items c s"
  shows "turns_inv items s p"
proof -
  have "\<not> at_work p w i t" for w i t by (simp add: assms start_tasks_def at_work_def)
  moreover have "tp_world p = s" "tp_nextIndex p = 0" "length (tp_results p) = length items" by (simp_all add: assms start_tasks_def)
  ultimately show ?thesis unfolding turns_inv_def by simp
qed

lemma alone_view: "view a s = view a s' \<Longrightarrow> alone s a = alone s' a"
  using run_local [OF own, of a s s'] by (simp add: alone_def)

lemma rest_view: "rest_ok items s0 s i t \<Longrightarrow> view (items ! i) s' = view (items ! i) s \<Longrightarrow> rest_ok items s0 s' i t"
  unfolding rest_ok_def using run_local [of "view (items ! i)" t s s'] by simp

lemma rest_turn: "rest_ok items s0 s i (Turn f) \<Longrightarrow> rest_ok items s0 (fst (f s)) i (snd (f s))"
proof -
  assume ok: "rest_ok items s0 s i (Turn f)"
  then have "local_task (view (items ! i)) (snd (f s))" by (intro local_TurnD(2)) (simp add: rest_ok_def)
  moreover have "frame_task (view (items ! j)) (snd (f s))" if "j < length items" "j \<noteq> i" for j
    using ok that by (intro frame_TurnD(2)) (simp add: rest_ok_def)
  ultimately show ?thesis using ok by (simp add: rest_ok_def)
qed

lemma rest_frame:
  "rest_ok items s0 s i (Turn f) \<Longrightarrow> j < length items \<Longrightarrow> j \<noteq> i \<Longrightarrow> view (items ! j) (fst (f s)) = view (items ! j) s"
  unfolding rest_ok_def using frame_TurnD(1) [of "view (items ! j)" f s] by simp

lemma turns_inv_take:
  assumes inv: "turns_inv items s0 p" and w: "w < length (tp_running p)" "tp_running p ! w = None" and n: "tp_nextIndex p < length items"
    and apart: "\<And>i j. i < length items \<Longrightarrow> j < length items \<Longrightarrow> i \<noteq> j \<Longrightarrow> apart (items ! i) (items ! j)"
    and q: "q = p\<lparr>tp_nextIndex := Suc (tp_nextIndex p), tp_running := (tp_running p)[w := Some (tp_nextIndex p, task (items ! tp_nextIndex p))]\<rparr>"
  shows "turns_inv items s0 q"
proof -
  note I = turns_invD [OF inv]
  have work: "at_work q v i t \<longleftrightarrow> (if v = w then i = tp_nextIndex p \<and> t = task (items ! i) else at_work p v i t)" for v i t
    using at_work_update [OF w(1), of q] by (auto simp: q)
  have idle: "\<not> at_work p w i t" for i t by (simp add: at_work_def w)
  have fresh: "rest_ok items s0 (tp_world p) (tp_nextIndex p) (task (items ! tp_nextIndex p))"
    using own others apart n alone_view [OF I(7) [OF n order_refl]] by (simp add: rest_ok_def alone_def)
  have "i < Suc (tp_nextIndex p) \<and> rest_ok items s0 (tp_world p) i t" if "at_work q v i t" for v i t
    using that fresh I(3, 4) [of v i t] unfolding work by (auto split: if_splits)
  moreover have "v = v'" if "at_work q v i t" "at_work q v' i u" for v v' i t u
    using that I(3) I(5) [of v i t v' u] unfolding work by (auto split: if_splits)
  moreover have "(\<exists>v t. at_work q v i t) \<or> tp_results p ! i = Some (fst (alone s0 (items ! i))) \<and> view (items ! i) (tp_world p) = snd (alone s0 (items ! i))"
    if i: "i < Suc (tp_nextIndex p)" for i
  proof (cases "i = tp_nextIndex p")
    case True
    then have "at_work q w i (task (items ! i))" by (simp add: work)
    then show ?thesis by blast
  next
    case False
    then have "i < tp_nextIndex p" using i by simp
    then consider v t where "at_work p v i t" | "tp_results p ! i = Some (fst (alone s0 (items ! i))) \<and> view (items ! i) (tp_world p) = snd (alone s0 (items ! i))"
      using I(6) by blast
    then show ?thesis
    proof cases
      case (1 v t)
      then have "at_work q v i t" using idle by (auto simp: work)
      then show ?thesis by blast
    qed simp
  qed
  moreover have "tp_world q = tp_world p" "tp_results q = tp_results p" "tp_nextIndex q = Suc (tp_nextIndex p)" by (simp_all add: q)
  ultimately show ?thesis using I(1, 7) n unfolding turns_inv_def by simp
qed

lemma turns_inv_turn:
  assumes inv: "turns_inv items s0 p" and w: "w < length (tp_running p)" "tp_running p ! w = Some (i, Turn f)"
    and q: "q = p\<lparr>tp_world := fst (f (tp_world p)), tp_running := (tp_running p)[w := Some (i, snd (f (tp_world p)))]\<rparr>"
  shows "turns_inv items s0 q"
proof -
  note I = turns_invD [OF inv]
  have work: "at_work q v j t \<longleftrightarrow> (if v = w then j = i \<and> t = snd (f (tp_world p)) else at_work p v j t)" for v j t
    using at_work_update [OF w(1), of q] by (auto simp: q)
  have W: "tp_world q = fst (f (tp_world p))" "tp_results q = tp_results p" "tp_nextIndex q = tp_nextIndex p" by (simp_all add: q)
  have here: "at_work p w i (Turn f)" by (simp add: at_work_def w)
  note rest = I(4) [OF here]
  have same: "view (items ! j) (tp_world q) = view (items ! j) (tp_world p)" if "j < length items" "j \<noteq> i" for j
    using rest_frame [OF rest that] by (simp add: W)
  have other: "j \<noteq> i" "j < length items" if "at_work p v j t" "v \<noteq> w" for v j t
    using that I(5) [OF here] I(3) [of v j t] I(2) by (metis, simp)
  have "j < tp_nextIndex p \<and> rest_ok items s0 (tp_world q) j t" if v: "at_work q v j t" for v j t
  proof (cases "v = w")
    case True
    then show ?thesis using v rest_turn [OF rest] I(3) [OF here] by (simp add: work W)
  next
    case False
    then have v: "at_work p v j t" using v by (simp add: work)
    show ?thesis using rest_view [OF I(4) [OF v] same] other [OF v False] I(3) [OF v] by simp
  qed
  moreover have "v = v'" if "at_work q v j t" "at_work q v' j u" for v v' j t u
    using that other [of v j t] other [of v' j u] I(5) [of v j t v' u] unfolding work by (auto split: if_splits)
  moreover have "(\<exists>v t. at_work q v j t) \<or> tp_results p ! j = Some (fst (alone s0 (items ! j))) \<and> view (items ! j) (tp_world q) = snd (alone s0 (items ! j))"
    if j: "j < tp_nextIndex p" for j
  proof (cases "j = i")
    case True
    then have "at_work q w j (snd (f (tp_world p)))" by (simp add: work)
    then show ?thesis by blast
  next
    case False
    from I(6) [OF j] show ?thesis
    proof (elim disjE exE)
      fix v t assume v: "at_work p v j t"
      then have "v \<noteq> w" using False w(2) by (auto simp: at_work_def)
      then have "at_work q v j t" using v by (simp add: work)
      then show ?thesis by blast
    qed (use same [OF _ False] j I(2) in simp)
  qed
  moreover have "view (items ! j) (tp_world q) = view (items ! j) s0" if "j < length items" "tp_nextIndex p \<le> j" for j
    using same [of j] I(7) [of j] I(3) [OF here] that by simp
  ultimately show ?thesis using I(1, 2) unfolding turns_inv_def by (simp add: W(2, 3))
qed

lemma turns_inv_finish:
  assumes inv: "turns_inv items s0 p" and w: "w < length (tp_running p)" "tp_running p ! w = Some (i, Return r)"
    and q: "q = p\<lparr>tp_results := (tp_results p)[i := Some r], tp_running := (tp_running p)[w := None]\<rparr>"
  shows "turns_inv items s0 q"
proof -
  note I = turns_invD [OF inv]
  have work: "at_work q v j t \<longleftrightarrow> v \<noteq> w \<and> at_work p v j t" for v j t
    using at_work_update [OF w(1), of q] by (auto simp: q)
  have here: "at_work p w i (Return r)" by (simp add: at_work_def w)
  have i: "i < length items" using I(2) I(3) [OF here] by simp
  have "(r, view (items ! i) (tp_world p)) = alone s0 (items ! i)" using I(4) [OF here] by (simp add: rest_ok_def)
  then have res: "r = fst (alone s0 (items ! i))" "view (items ! i) (tp_world p) = snd (alone s0 (items ! i))" by (metis fst_conv, metis snd_conv)
  have "(\<exists>v t. at_work q v j t) \<or> (tp_results p)[i := Some r] ! j = Some (fst (alone s0 (items ! j))) \<and> view (items ! j) (tp_world p) = snd (alone s0 (items ! j))"
    if j: "j < tp_nextIndex p" for j
  proof (cases "j = i")
    case True
    then show ?thesis using res i I(1) by simp
  next
    case False
    from I(6) [OF j] show ?thesis
    proof (elim disjE exE)
      fix v t assume v: "at_work p v j t"
      then have "v \<noteq> w" using False w(2) by (auto simp: at_work_def)
      then have "at_work q v j t" using v by (simp add: work)
      then show ?thesis by blast
    qed (use False in simp)
  qed
  moreover have "tp_world q = tp_world p" "tp_results q = (tp_results p)[i := Some r]" "tp_nextIndex q = tp_nextIndex p" by (simp_all add: q)
  moreover have "v = v'" if "at_work q v j t" "at_work q v' j u" for v v' j t u using that I(5) [of v j t v' u] by (simp add: work)
  moreover have "j < tp_nextIndex p \<and> rest_ok items s0 (tp_world p) j t" if "at_work q v j t" for v j t
    using that I(3, 4) [of v j t] by (simp add: work)
  ultimately show ?thesis using I(1, 2, 7) unfolding turns_inv_def by simp
qed

text \<open>Whatever the schedule, when the workers have returned, every item has the result of its task run alone on the initial
  world, and its view of the world is the one that run leaves.\<close>

lemma every_schedule:
  assumes run: "(task_step task items)\<^sup>*\<^sup>* (start_tasks items c s) p" and ret: "tasks_returned items p" and c: "0 < c"
    and apart: "\<And>i j. i < length items \<Longrightarrow> j < length items \<Longrightarrow> i \<noteq> j \<Longrightarrow> apart (items ! i) (items ! j)"
  shows "tp_results p = map (\<lambda>a. Some (fst (run_task (task a) s))) items"
    and "a \<in> set items \<Longrightarrow> view a (tp_world p) = view a (snd (run_task (task a) s))"
proof -
  have inv: "turns_inv items s p \<and> length (tp_running p) = min c (length items)" using run
  proof (induction rule: rtranclp_induct)
    case (step p q)
    then have inv: "turns_inv items s p" and l: "length (tp_running p) = min c (length items)" by simp_all
    from step(2) show ?case
    proof cases
      case (take_task w)
      then show ?thesis using turns_inv_take [OF inv take_task(2-4) apart take_task(1)] l by simp
    next
      case (turn_task w i f)
      then show ?thesis using turns_inv_turn [OF inv turn_task(2-3) turn_task(1)] l by simp
    next
      case (finish_task w i r)
      then show ?thesis using turns_inv_finish [OF inv finish_task(2-3) finish_task(1)] l by simp
    qed
  qed (intro conjI turns_inv_start [OF refl], simp add: start_tasks_def)
  note I = turns_invD [OF conjunct1 [OF inv]]
  have "tp_nextIndex p = length items"
    using I(2) ret c inv by (cases "items = []") (auto simp: tasks_returned_def)
  moreover have "\<not> at_work p w i t" for w i t using ret by (auto simp: at_work_def tasks_returned_def list_all_length)
  ultimately have each: "tp_results p ! i = Some (fst (alone s (items ! i))) \<and> view (items ! i) (tp_world p) = snd (alone s (items ! i))"
    if "i < length items" for i using that I(6) by metis
  show "tp_results p = map (\<lambda>a. Some (fst (run_task (task a) s))) items"
    using each I(1) by (auto simp: alone_def intro: nth_equalityI)
  show "a \<in> set items \<Longrightarrow> view a (tp_world p) = view a (snd (run_task (task a) s))"
    using each by (auto simp: alone_def in_set_conv_nth)
qed

end

end
