(* ===== verification/Alerts_Evaluator.thy ===== *)
theory Alerts_Evaluator
  imports Alerts_Store Task_Turns
begin

text \<open>
  The evaluator of alert rules: \<^verbatim>\<open>packages/obs-collector/src/plugins/alerts-evaluator.ts\<close>.  A store is a record of
  fallible operations on a state, as the interface \<^verbatim>\<open>AlertEvaluatorStore\<close> has it; the store of \<^verbatim>\<open>alerts-store.ts\<close> is one.
  The world also holds the webhook requests sent and the errors logged.  An evaluation is a task with one turn per await: the
  query of the rule, the read of its state, the narrative, the sending of the webhooks, each answer to one, the write of the
  state and the record of the evaluation; each turn is one statement or one event, and other evaluations may run between any
  two.  The clock, \<^verbatim>\<open>fetch\<close> and the time a query takes are parameters; the answers to the webhooks of one evaluation are
  taken in the order of its channels, and the child spans of the tracer are left out.  Shown: what one evaluation does on
  every outcome of its query, and that every schedule of a batch ends with the outcome of each rule evaluated alone.
\<close>

section \<open>Fallible turns\<close>

definition attempt :: "('w \<Rightarrow> ('e + 'a) \<times> 'w) \<Rightarrow> ('e \<Rightarrow> ('w, 'r) task) \<Rightarrow> ('a \<Rightarrow> ('w, 'r) task) \<Rightarrow> ('w, 'r) task" where
  "attempt m fail k = act m (\<lambda>x. case x of Inl e \<Rightarrow> fail e | Inr y \<Rightarrow> k y)"

lemma run_attempt [simp]:
  "run_task (attempt m fail k) w = (case fst (m w) of Inl e \<Rightarrow> run_task (fail e) (snd (m w)) | Inr y \<Rightarrow> run_task (k y) (snd (m w)))"
  by (simp add: attempt_def split: sum.splits)

text \<open>An effect that only reads what \<open>V\<close> shows, and one that leaves what \<open>V\<close> shows.\<close>

definition local_eff :: "('w \<Rightarrow> 'v) \<Rightarrow> ('w \<Rightarrow> 'a \<times> 'w) \<Rightarrow> bool" where
  "local_eff V m \<longleftrightarrow> (\<forall>s t. V s = V t \<longrightarrow> fst (m s) = fst (m t) \<and> V (snd (m s)) = V (snd (m t)))"

definition frame_eff :: "('w \<Rightarrow> 'v) \<Rightarrow> ('w \<Rightarrow> 'a \<times> 'w) \<Rightarrow> bool" where
  "frame_eff V m \<longleftrightarrow> (\<forall>s. V (snd (m s)) = V s)"

lemma local_turn: "local_eff V m \<Longrightarrow> (\<And>x. local_task V (k x)) \<Longrightarrow> local_task V (act m k)"
  unfolding local_eff_def by (rule local_act) blast+

lemma frame_turn: "frame_eff V m \<Longrightarrow> (\<And>x. frame_task V (k x)) \<Longrightarrow> frame_task V (act m k)"
  unfolding frame_eff_def by (rule frame_act) blast+

lemma local_attempt:
  "local_eff V m \<Longrightarrow> (\<And>e. local_task V (fail e)) \<Longrightarrow> (\<And>x. local_task V (k x)) \<Longrightarrow> local_task V (attempt m fail k)"
  unfolding attempt_def by (rule local_turn) (simp_all split: sum.splits)

lemma frame_attempt:
  "frame_eff V m \<Longrightarrow> (\<And>e. frame_task V (fail e)) \<Longrightarrow> (\<And>x. frame_task V (k x)) \<Longrightarrow> frame_task V (attempt m fail k)"
  unfolding attempt_def by (rule frame_turn) (simp_all split: sum.splits)

section \<open>The world of the evaluator\<close>

text \<open>A promise: when it settles, in milliseconds, and with what; never settling is \<open>None\<close>.\<close>

type_synonym 'a promise = "(nat \<times> (string + 'a)) option"

record 's alert_store =
  es_listEnabledRules :: "'s \<Rightarrow> string + alert_rule list"
  es_evaluateRule :: "'s \<Rightarrow> alert_rule \<Rightarrow> js_number promise"
  es_getState :: "'s \<Rightarrow> string \<Rightarrow> string + alert_state option"
  es_getAnalysisNarrative :: "'s \<Rightarrow> string \<Rightarrow> string \<Rightarrow> string + (string option \<times> string option) option"
  es_transitionState :: "'s \<Rightarrow> string \<Rightarrow> string \<Rightarrow> alert_state \<Rightarrow> string \<Rightarrow> string + 's"
  es_recordEvaluation :: "'s \<Rightarrow> string \<Rightarrow> string \<Rightarrow> js_number \<Rightarrow> alert_state \<Rightarrow> bool \<Rightarrow> string + 's"

record webhook_payload =
  wp_rule_id :: string
  wp_rule_name :: string
  wp_rule_signal :: string
  wp_value :: js_number
  wp_threshold :: js_number
  wp_comparison :: string
  wp_state :: alert_state
  wp_evaluatedAt :: string
  wp_projectId :: string
  wp_analysis :: "(string \<times> string option \<times> string option) option"

record webhook_request =
  po_url :: string
  po_headers :: "(string \<times> json) list"
  po_body :: webhook_payload

record 's eval_world =
  ew_store :: 's
  ew_posts :: "webhook_request list"
  ew_log :: "(string \<times> string \<times> string) list"

text \<open>What \<^verbatim>\<open>fetch\<close> answers: a rejection, or a status.\<close>

type_synonym fetcher = "webhook_request \<Rightarrow> string + nat"

definition store_get :: "('s \<Rightarrow> 'e + 'a) \<Rightarrow> 's eval_world \<Rightarrow> ('e + 'a) \<times> 's eval_world" where
  "store_get f w = (f (ew_store w), w)"

definition store_put :: "('s \<Rightarrow> 'e + 's) \<Rightarrow> 's eval_world \<Rightarrow> ('e + unit) \<times> 's eval_world" where
  "store_put f w = (case f (ew_store w) of Inl e \<Rightarrow> (Inl e, w) | Inr s \<Rightarrow> (Inr (), w\<lparr>ew_store := s\<rparr>))"

section \<open>Webhooks\<close>

definition webhook_headers :: "json \<Rightarrow> (string \<times> json) list" where
  "webhook_headers ch = foldl (\<lambda>o1 (k, v). obj_define o1 k v) [(''Content-Type'', JStr ''application/json'')]
     (case member_of ch ''headers'' of Some (JObj kvs) \<Rightarrow> kvs | _ \<Rightarrow> [])"

definition webhook_request_to :: "(rat \<Rightarrow> string) \<Rightarrow> webhook_payload \<Rightarrow> json \<Rightarrow> webhook_request" where
  "webhook_request_to num payload ch =
     \<lparr>po_url = member_text num (member_of ch ''url''), po_headers = webhook_headers ch, po_body = payload\<rparr>"

definition is_webhook :: "json \<Rightarrow> bool" where
  "is_webhook ch \<longleftrightarrow> member_of ch ''type'' = Some (JStr ''webhook'')"

text \<open>The channels a rule's webhooks go to, or the error that reading them gives.\<close>

definition webhook_channels :: "json \<Rightarrow> string + json list" where
  "webhook_channels j = (case j of JArr chs \<Rightarrow> if JNull \<in> set chs then Inl ''TypeError'' else Inr (filter is_webhook chs)
     | _ \<Rightarrow> Inl ''TypeError'')"

text \<open>All requests go out in one turn; each answer is a turn of its own.\<close>

definition send_webhooks ::
  "(rat \<Rightarrow> string) \<Rightarrow> json \<Rightarrow> webhook_payload \<Rightarrow> 's eval_world \<Rightarrow> (string + webhook_request list) \<times> 's eval_world" where
  "send_webhooks num channels payload w =
     (case webhook_channels channels of
        Inl e \<Rightarrow> (Inl e, w)
      | Inr chs \<Rightarrow> let reqs = map (webhook_request_to num payload) chs in (Inr reqs, w\<lparr>ew_posts := ew_posts w @ reqs\<rparr>))"

definition webhook_answered :: "fetcher \<Rightarrow> webhook_request \<Rightarrow> 's eval_world \<Rightarrow> bool \<times> 's eval_world" where
  "webhook_answered fetch req w =
     (case fetch req of
        Inr status \<Rightarrow> (200 \<le> status \<and> status < 300, w)
      | Inl e \<Rightarrow> (False, w\<lparr>ew_log := ew_log w @ [(''[alerts-evaluator] webhook delivery failed'', po_url req, e)]\<rparr>))"

fun await_answers :: "fetcher \<Rightarrow> webhook_request list \<Rightarrow> bool \<Rightarrow> (bool \<Rightarrow> ('s eval_world, 'r) task) \<Rightarrow> ('s eval_world, 'r) task" where
  "await_answers fetch [] ok k = k ok"
| "await_answers fetch (req # reqs) ok k = act (webhook_answered fetch req) (\<lambda>b. await_answers fetch reqs (ok \<and> b) k)"

definition fireChannels ::
  "(rat \<Rightarrow> string) \<Rightarrow> fetcher \<Rightarrow> json \<Rightarrow> webhook_payload \<Rightarrow> (string \<Rightarrow> ('s eval_world, 'r) task) \<Rightarrow> (bool \<Rightarrow> ('s eval_world, 'r) task) \<Rightarrow>
   ('s eval_world, 'r) task" where
  "fireChannels num fetch channels payload fail k =
     attempt (send_webhooks num channels payload) fail (\<lambda>reqs. await_answers fetch reqs True k)"

definition withTimeout :: "'a promise \<Rightarrow> nat \<Rightarrow> string \<Rightarrow> string + 'a" where
  "withTimeout p ms message = (case p of Some (t, r) \<Rightarrow> if t < ms then r else Inl message | None \<Rightarrow> Inl message)"

section \<open>One rule\<close>

definition alert_payload ::
  "alert_rule \<Rightarrow> js_number \<Rightarrow> alert_state \<Rightarrow> string \<Rightarrow> (string \<times> string option \<times> string option) option \<Rightarrow> webhook_payload" where
  "alert_payload rule v st now att =
     \<lparr>wp_rule_id = ru_id rule, wp_rule_name = ru_name rule, wp_rule_signal = ru_signal rule, wp_value = v,
      wp_threshold = ru_threshold rule, wp_comparison = ru_comparison rule, wp_state = st, wp_evaluatedAt = now,
      wp_projectId = ru_projectId rule, wp_analysis = att\<rparr>"

text \<open>The narrative of a bound analysis; an error of the store reads as no attachment.\<close>

definition analysisAttachment :: "'s alert_store \<Rightarrow> alert_rule \<Rightarrow> 's \<Rightarrow> (string \<times> string option \<times> string option) option" where
  "analysisAttachment store rule s =
     (case ru_analysisId rule of
        Some (c # cs) \<Rightarrow> (case es_getAnalysisNarrative store s (ru_projectId rule) (c # cs) of
            Inr (Some (narrative, status)) \<Rightarrow> Some (c # cs, narrative, status) | _ \<Rightarrow> None)
      | _ \<Rightarrow> None)"

definition analysis_turn ::
  "'s alert_store \<Rightarrow> alert_rule \<Rightarrow> ((string \<times> string option \<times> string option) option \<Rightarrow> ('s eval_world, 'r) task) \<Rightarrow> ('s eval_world, 'r) task" where
  "analysis_turn store rule k =
     (case ru_analysisId rule of
        Some (c # cs) \<Rightarrow> act (\<lambda>w. (analysisAttachment store rule (ew_store w), w)) k
      | _ \<Rightarrow> k None)"

definition change_state ::
  "(rat \<Rightarrow> string) \<Rightarrow> fetcher \<Rightarrow> 's alert_store \<Rightarrow> alert_rule \<Rightarrow> js_number \<Rightarrow> alert_state \<Rightarrow> string \<Rightarrow>
   (string \<times> string option \<times> string option) option \<Rightarrow> (string \<Rightarrow> ('s eval_world, 'r) task) \<Rightarrow> 'r \<Rightarrow> ('s eval_world, 'r) task" where
  "change_state num fetch store rule v st now att fail r =
     fireChannels num fetch (ru_channels rule) (alert_payload rule v st now att) fail (\<lambda>ok.
     attempt (store_put (\<lambda>s. es_transitionState store s (ru_id rule) (ru_projectId rule) st now)) fail (\<lambda>_.
     attempt (store_put (\<lambda>s. es_recordEvaluation store s (ru_id rule) (ru_projectId rule) v st ok)) fail (\<lambda>_. Return r)))"

text \<open>The catch of the whole evaluation.\<close>

definition rule_failed :: "alert_rule \<Rightarrow> string \<Rightarrow> ('s eval_world, nat \<times> nat) task" where
  "rule_failed rule e =
     act (\<lambda>w. ((), w\<lparr>ew_log := ew_log w @ [(''[alerts-evaluator] rule evaluation failed'', ru_id rule, e)]\<rparr>)) (\<lambda>_. Return (0, 0))"

definition timeout_message :: "nat \<Rightarrow> string" where
  "timeout_message ms = ''rule evaluation timed out after '' @ decimal ms @ ''ms''"

definition evaluateOneRule ::
  "(rat \<Rightarrow> string) \<Rightarrow> fetcher \<Rightarrow> (alert_rule \<Rightarrow> string) \<Rightarrow> 's alert_store \<Rightarrow> nat \<Rightarrow> alert_rule \<Rightarrow> ('s eval_world, nat \<times> nat) task" where
  "evaluateOneRule num fetch clock store ruleTimeoutMs rule =
     attempt (store_get (\<lambda>s. withTimeout (es_evaluateRule store s rule) ruleTimeoutMs (timeout_message ruleTimeoutMs))) (rule_failed rule) (\<lambda>v.
     attempt (store_get (\<lambda>s. es_getState store s (ru_id rule))) (rule_failed rule) (\<lambda>priorState.
     analysis_turn store rule (\<lambda>att.
       let shouldFire = compareValue v (ru_threshold rule) (ru_comparison rule);
           previous = or_else priorState Ok; new = (if shouldFire then Firing else Ok); now = clock rule in
       if previous = Ok \<and> new = Firing then change_state num fetch store rule v Firing now att (rule_failed rule) (1, 0)
       else if previous = Firing \<and> new = Ok then change_state num fetch store rule v Ok now att (rule_failed rule) (0, 1)
       else attempt (store_put (\<lambda>s. es_recordEvaluation store s (ru_id rule) (ru_projectId rule) v new False)) (rule_failed rule)
              (\<lambda>_. Return (0, 0)))))"

section \<open>A batch\<close>

definition DEFAULT_RULE_CONCURRENCY :: rat where "DEFAULT_RULE_CONCURRENCY = 5"
definition DEFAULT_RULE_TIMEOUT_MS :: rat where "DEFAULT_RULE_TIMEOUT_MS = 10000"

record batch_options =
  bo_concurrency :: "rat option"
  bo_ruleTimeoutMs :: "rat option"

record batch_counts =
  bc_evaluated :: nat
  bc_fired :: nat
  bc_resolved :: nat

definition at_least_one :: "rat option \<Rightarrow> rat \<Rightarrow> nat" where
  "at_least_one v d = nat (max 1 \<lfloor>or_else v d\<rfloor>)"

definition batch_result :: "alert_rule list \<Rightarrow> (nat \<times> nat) option list \<Rightarrow> batch_counts" where
  "batch_result rules res =
     \<lparr>bc_evaluated = length rules,
      bc_fired = foldl (\<lambda>sum r. sum + fst (the r)) 0 res,
      bc_resolved = foldl (\<lambda>sum r. sum + snd (the r)) 0 res\<rparr>"

inductive evaluateRuleBatch ::
  "(rat \<Rightarrow> string) \<Rightarrow> fetcher \<Rightarrow> (alert_rule \<Rightarrow> string) \<Rightarrow> 's alert_store \<Rightarrow> batch_options \<Rightarrow> alert_rule list \<Rightarrow> 's eval_world \<Rightarrow>
   batch_counts \<Rightarrow> 's eval_world \<Rightarrow> bool" for num fetch clock store opts rules w where
  batch_done: "(task_step (evaluateOneRule num fetch clock store (at_least_one (bo_ruleTimeoutMs opts) DEFAULT_RULE_TIMEOUT_MS)) rules)\<^sup>*\<^sup>*
      (start_tasks rules (at_least_one (bo_concurrency opts) DEFAULT_RULE_CONCURRENCY) w) p \<Longrightarrow>
    tasks_returned rules p \<Longrightarrow>
    evaluateRuleBatch num fetch clock store opts rules w (batch_result rules (tp_results p)) (tp_world p)"

inductive evaluateAllRules ::
  "(rat \<Rightarrow> string) \<Rightarrow> fetcher \<Rightarrow> (alert_rule \<Rightarrow> string) \<Rightarrow> 's alert_store \<Rightarrow> batch_options \<Rightarrow> 's eval_world \<Rightarrow>
   string + batch_counts \<Rightarrow> 's eval_world \<Rightarrow> bool" for num fetch clock store opts w where
  all_listed: "es_listEnabledRules store (ew_store w) = Inr rules \<Longrightarrow>
    evaluateRuleBatch num fetch clock store opts rules w counts w' \<Longrightarrow>
    evaluateAllRules num fetch clock store opts w (Inr counts) w'"
| list_failed: "es_listEnabledRules store (ew_store w) = Inl e \<Longrightarrow> evaluateAllRules num fetch clock store opts w (Inl e) w"

section \<open>The store of the collector\<close>

text \<open>Time \<open>now\<close>, the ids of evaluations and the latency of a rule's query are given per rule.\<close>

definition alerts_store ::
  "(rat \<Rightarrow> string) \<Rightarrow> (string \<Rightarrow> string \<Rightarrow> bool) \<Rightarrow> bool \<Rightarrow> int \<Rightarrow> (string \<Rightarrow> string) \<Rightarrow> (string \<Rightarrow> string) \<Rightarrow> (string \<Rightarrow> nat option) \<Rightarrow>
   alerts_db alert_store" where
  "alerts_store num like enforce now stamp eid latency =
     \<lparr>es_listEnabledRules = listEnabledRules,
      es_evaluateRule = (\<lambda>db rule. map_option (\<lambda>t. (t, evaluateRule num like db now rule)) (latency (ru_id rule))),
      es_getState = (\<lambda>db i. Inr (map_option sr_current_state (getState db i))),
      es_getAnalysisNarrative = (\<lambda>db p a. Inr (getAnalysisNarrative db p a)),
      es_transitionState = transitionState enforce,
      es_recordEvaluation = (\<lambda>db i p v st n. recordEvaluation enforce (eid i) (stamp i) db i p v st n)\<rparr>"

text \<open>What the evaluation of a rule can see or change: its own state and evaluations, the tables it only reads, and the
  webhooks sent for it.\<close>

definition own_evaluations :: "string \<Rightarrow> alerts_db \<Rightarrow> evaluation_row list" where
  "own_evaluations i db = filter (\<lambda>e. er_rule_id e = i) (alert_evaluations db)"

definition shared_tables where
  "shared_tables db = (projects db, alert_rules db, telemetry_spans db, log_table db, usage_events db, ai_calls db, analysis_results db)"

definition own_posts :: "string \<Rightarrow> 's eval_world \<Rightarrow> webhook_request list" where
  "own_posts i w = filter (\<lambda>r. wp_rule_id (po_body r) = i) (ew_posts w)"

definition rule_view where
  "rule_view i w = (getState (ew_store w) i, own_evaluations i (ew_store w), shared_tables (ew_store w), own_posts i w)"

lemma find_row_map: "(\<And>x. p (f x) = p x) \<Longrightarrow> find_row p (map f rows) = map_option f (find_row p rows)"
  unfolding find_row_def by (induction rows) simp_all

lemma getState_upsert:
  "find_row (\<lambda>s. sr_rule_id s = i) (upsert_state rows new) =
     (if i \<noteq> sr_rule_id new then find_row (\<lambda>s. sr_rule_id s = i) rows
      else Some (case find_row (\<lambda>s. sr_rule_id s = i) rows of None \<Rightarrow> new
        | Some s \<Rightarrow> s\<lparr>sr_current_state := sr_current_state new, sr_last_state_change := sr_last_state_change new\<rparr>))"
proof (cases "sr_rule_id new \<in> sr_rule_id ` set rows")
  case True
  define f :: "state_row \<Rightarrow> state_row" where "f = (\<lambda>s. if sr_rule_id s = sr_rule_id new
    then s\<lparr>sr_current_state := sr_current_state new, sr_last_state_change := sr_last_state_change new\<rparr> else s)"
  have "upsert_state rows new = map f rows" using True by (simp add: upsert_state_def f_def)
  moreover have "find_row (\<lambda>s. sr_rule_id s = i) (map f rows) = map_option f (find_row (\<lambda>s. sr_rule_id s = i) rows)"
    by (rule find_row_map) (simp add: f_def)
  moreover have "find_row (\<lambda>s. sr_rule_id s = sr_rule_id new) rows \<noteq> None"
    using True by (auto simp: find_row_None simp del: not_None_eq)
  ultimately show ?thesis by (cases "find_row (\<lambda>s. sr_rule_id s = i) rows") (auto simp: f_def dest: find_row_SomeD)
next
  case False
  then have "find_row (\<lambda>s. sr_rule_id s = sr_rule_id new) rows = None" unfolding find_row_None by (metis image_eqI)
  then show ?thesis using False by (auto simp: upsert_state_def find_row_append split: option.splits)
qed

lemma known_state: "i \<in> sr_rule_id ` set (alert_states db) \<longleftrightarrow> getState db i \<noteq> None"
  by (auto simp: getState_def find_row_None simp del: not_None_eq)

lemma transition_view:
  assumes "transitionState enforce db i p st now = Inr db'"
  shows "getState db' j = (if j \<noteq> i then getState db j else Some (case getState db i of
      None \<Rightarrow> \<lparr>sr_rule_id = i, sr_project_id = p, sr_current_state = st, sr_last_state_change = now\<rparr>
    | Some s \<Rightarrow> s\<lparr>sr_current_state := st, sr_last_state_change := now\<rparr>))"
    and "own_evaluations j db' = own_evaluations j db" and "shared_tables db' = shared_tables db"
  using assms by (auto simp: transitionState_def getState_def own_evaluations_def shared_tables_def getState_upsert split: if_splits option.splits)

lemma record_view:
  assumes "recordEvaluation enforce eid now db i p v st n = Inr db'"
  shows "getState db' j = getState db j"
    and "own_evaluations j db' = own_evaluations j db @ (if j = i then [\<lparr>er_id = eid, er_rule_id = i, er_project_id = p,
      er_evaluated_at = now, er_value = v, er_state = st, er_notified = (if n then 1 else 0)\<rparr>] else [])"
    and "shared_tables db' = shared_tables db"
  using assms by (auto simp: recordEvaluation_def getState_def own_evaluations_def shared_tables_def split: if_splits)

lemma transition_fails:
  "transitionState enforce db i p st now = Inl e \<longleftrightarrow>
     enforce \<and> getState db i = None \<and> i \<notin> rr_id ` set (alert_rules db) \<and> e = ''FOREIGN KEY constraint failed''"
  by (auto simp: transitionState_def known_state)

lemma record_fails:
  "recordEvaluation enforce eid now db i p v st n = Inl e \<longleftrightarrow>
     enforce \<and> i \<notin> rr_id ` set (alert_rules db) \<and> e = ''FOREIGN KEY constraint failed''"
  by (auto simp: recordEvaluation_def)

lemma evaluateRule_shared: "shared_tables db = shared_tables db' \<Longrightarrow> evaluateRule num like db now rule = evaluateRule num like db' now rule"
  by (simp add: shared_tables_def evaluateRule_def evaluateSpanRule_def evaluateLogRule_def evaluateUsageRule_def evaluateAIRule_def
      latest_analysis_def cong: option.case_cong list.case_cong)

lemma narrative_shared: "shared_tables db = shared_tables db' \<Longrightarrow> getAnalysisNarrative db p a = getAnalysisNarrative db' p a"
  by (simp add: shared_tables_def getAnalysisNarrative_def latest_analysis_def)

section \<open>Webhooks touch only the log of requests\<close>

definition delivered :: "fetcher \<Rightarrow> webhook_request \<Rightarrow> bool" where
  "delivered fetch req = (case fetch req of Inr status \<Rightarrow> 200 \<le> status \<and> status < 300 | Inl e \<Rightarrow> False)"

definition delivery_errors :: "fetcher \<Rightarrow> webhook_request list \<Rightarrow> (string \<times> string \<times> string) list" where
  "delivery_errors fetch reqs =
     concat (map (\<lambda>req. case fetch req of Inl e \<Rightarrow> [(''[alerts-evaluator] webhook delivery failed'', po_url req, e)] | _ \<Rightarrow> []) reqs)"

lemma run_answers:
  "run_task (await_answers fetch reqs ok k) w =
     run_task (k (ok \<and> list_all (delivered fetch) reqs)) (w\<lparr>ew_log := ew_log w @ delivery_errors fetch reqs\<rparr>)"
  by (induction reqs arbitrary: ok w) (auto simp: webhook_answered_def delivered_def delivery_errors_def split: sum.splits)

lemma run_channels:
  "run_task (fireChannels num fetch channels payload fail k) w =
     (case webhook_channels channels of
        Inl e \<Rightarrow> run_task (fail e) w
      | Inr chs \<Rightarrow> let reqs = map (webhook_request_to num payload) chs in
          run_task (k (list_all (delivered fetch) reqs)) (w\<lparr>ew_posts := ew_posts w @ reqs, ew_log := ew_log w @ delivery_errors fetch reqs\<rparr>))"
  by (simp add: fireChannels_def send_webhooks_def run_answers Let_def split: sum.splits)

lemma run_failed [simp]:
  "run_task (rule_failed rule e) w =
     ((0, 0), w\<lparr>ew_log := ew_log w @ [(''[alerts-evaluator] rule evaluation failed'', ru_id rule, e)]\<rparr>)"
  by (simp add: rule_failed_def)

lemma run_analysis [simp]: "run_task (analysis_turn store rule k) w = run_task (k (analysisAttachment store rule (ew_store w))) w"
  by (simp add: analysis_turn_def analysisAttachment_def split: option.splits list.splits)

section \<open>Rules do not meet\<close>

lemma local_get:
  assumes "\<And>s t. rule_view i s = rule_view i t \<Longrightarrow> g (ew_store s) = g (ew_store t)"
  shows "local_eff (rule_view i) (store_get g)"
  unfolding local_eff_def store_get_def fst_conv snd_conv using assms by blast

lemma frame_get: "frame_eff V (store_get g)"
  by (simp add: frame_eff_def store_get_def)

lemma own_posts_store [simp]: "own_posts i (w\<lparr>ew_store := s\<rparr>) = own_posts i w"
  by (simp add: own_posts_def)

lemma transition_cong:
  assumes "getState db i = getState db' i" and "shared_tables db = shared_tables db'"
  shows "(case transitionState enforce db i p st now of Inl e \<Rightarrow> Inl e | Inr _ \<Rightarrow> Inr ()) =
    (case transitionState enforce db' i p st now of Inl e \<Rightarrow> Inl e | Inr _ \<Rightarrow> Inr ())"
  using assms unfolding transitionState_def known_state by (simp add: shared_tables_def)

lemma local_transition: "local_eff (rule_view i) (store_put (\<lambda>s. transitionState enforce s i p st now))"
  unfolding local_eff_def
proof (intro allI impI)
  fix s t :: "alerts_db eval_world" assume "rule_view i s = rule_view i t"
  then have eq: "getState (ew_store s) i = getState (ew_store t) i" "shared_tables (ew_store s) = shared_tables (ew_store t)"
    "own_evaluations i (ew_store s) = own_evaluations i (ew_store t)" "own_posts i s = own_posts i t" by (simp_all add: rule_view_def)
  show "fst (store_put (\<lambda>s. transitionState enforce s i p st now) s) = fst (store_put (\<lambda>s. transitionState enforce s i p st now) t) \<and>
    rule_view i (snd (store_put (\<lambda>s. transitionState enforce s i p st now) s)) =
    rule_view i (snd (store_put (\<lambda>s. transitionState enforce s i p st now) t))"
  proof (cases "transitionState enforce (ew_store s) i p st now"; cases "transitionState enforce (ew_store t) i p st now")
    fix a b assume "transitionState enforce (ew_store s) i p st now = Inr a" "transitionState enforce (ew_store t) i p st now = Inr b"
    then show ?thesis using transition_view [of enforce "ew_store s" i p st now a] transition_view [of enforce "ew_store t" i p st now b] eq
      by (simp add: store_put_def rule_view_def)
  qed (use transition_cong [OF eq(1, 2), of enforce p st now] eq in \<open>simp_all add: store_put_def rule_view_def\<close>)
qed

lemma record_cong:
  assumes "shared_tables db = shared_tables db'"
  shows "(case recordEvaluation enforce e now db i p v st n of Inl e \<Rightarrow> Inl e | Inr _ \<Rightarrow> Inr ()) =
    (case recordEvaluation enforce e now db' i p v st n of Inl e \<Rightarrow> Inl e | Inr _ \<Rightarrow> Inr ())"
  using assms unfolding recordEvaluation_def by (simp add: shared_tables_def)

lemma local_record: "local_eff (rule_view i) (store_put (\<lambda>s. recordEvaluation enforce e now s i p v st n))"
  unfolding local_eff_def
proof (intro allI impI)
  fix s t :: "alerts_db eval_world" assume "rule_view i s = rule_view i t"
  then have eq: "getState (ew_store s) i = getState (ew_store t) i" "shared_tables (ew_store s) = shared_tables (ew_store t)"
    "own_evaluations i (ew_store s) = own_evaluations i (ew_store t)" "own_posts i s = own_posts i t" by (simp_all add: rule_view_def)
  show "fst (store_put (\<lambda>s. recordEvaluation enforce e now s i p v st n) s) = fst (store_put (\<lambda>s. recordEvaluation enforce e now s i p v st n) t) \<and>
    rule_view i (snd (store_put (\<lambda>s. recordEvaluation enforce e now s i p v st n) s)) =
    rule_view i (snd (store_put (\<lambda>s. recordEvaluation enforce e now s i p v st n) t))"
  proof (cases "recordEvaluation enforce e now (ew_store s) i p v st n"; cases "recordEvaluation enforce e now (ew_store t) i p v st n")
    fix a b assume "recordEvaluation enforce e now (ew_store s) i p v st n = Inr a" "recordEvaluation enforce e now (ew_store t) i p v st n = Inr b"
    then show ?thesis using record_view [of enforce e now "ew_store s" i p v st n a] record_view [of enforce e now "ew_store t" i p v st n b] eq
      by (simp add: store_put_def rule_view_def)
  qed (use record_cong [OF eq(2), of enforce e now i p v st n] eq in \<open>simp_all add: store_put_def rule_view_def\<close>)
qed

lemma frame_transition: "i \<noteq> j \<Longrightarrow> frame_eff (rule_view j) (store_put (\<lambda>s. transitionState enforce s i p st now))"
  unfolding frame_eff_def
proof
  fix w :: "alerts_db eval_world" assume "i \<noteq> j"
  then show "rule_view j (snd (store_put (\<lambda>s. transitionState enforce s i p st now) w)) = rule_view j w"
    using transition_view [of enforce "ew_store w" i p st now]
    by (cases "transitionState enforce (ew_store w) i p st now") (simp_all add: store_put_def rule_view_def)
qed

lemma frame_record: "i \<noteq> j \<Longrightarrow> frame_eff (rule_view j) (store_put (\<lambda>s. recordEvaluation enforce e now s i p v st n))"
  unfolding frame_eff_def
proof
  fix w :: "alerts_db eval_world" assume "i \<noteq> j"
  then show "rule_view j (snd (store_put (\<lambda>s. recordEvaluation enforce e now s i p v st n) w)) = rule_view j w"
    using record_view [of enforce e now "ew_store w" i p v st n]
    by (cases "recordEvaluation enforce e now (ew_store w) i p v st n") (simp_all add: store_put_def rule_view_def)
qed

lemma payload_id [simp]: "wp_rule_id (alert_payload rule v st now att) = ru_id rule"
  by (simp add: alert_payload_def)

lemma own_requests:
  "filter (\<lambda>r. wp_rule_id (po_body r) = i) (map (webhook_request_to num payload) chs) =
     (if wp_rule_id payload = i then map (webhook_request_to num payload) chs else [])"
  by (induction chs) (simp_all add: webhook_request_to_def)

lemma local_send: "local_eff (rule_view i) (send_webhooks num j payload)"
  unfolding local_eff_def by (auto simp: rule_view_def own_posts_def send_webhooks_def Let_def split: sum.splits)

lemma frame_send: "wp_rule_id payload \<noteq> i \<Longrightarrow> frame_eff (rule_view i) (send_webhooks num j payload)"
  unfolding frame_eff_def by (simp add: rule_view_def own_posts_def send_webhooks_def own_requests Let_def split: sum.splits)

lemma log_view [simp]: "rule_view i (w\<lparr>ew_log := l\<rparr>) = rule_view i w"
  by (simp add: rule_view_def own_posts_def)

lemma local_answer: "local_eff (rule_view i) (webhook_answered fetch req)"
  and frame_answer: "frame_eff (rule_view i) (webhook_answered fetch req)"
  by (auto simp: local_eff_def frame_eff_def webhook_answered_def split: sum.splits)

lemma local_answers: "(\<And>b. local_task (rule_view i) (k b)) \<Longrightarrow> local_task (rule_view i) (await_answers fetch reqs ok k)"
  by (induction reqs arbitrary: ok) (simp_all add: local_turn local_answer)

lemma frame_answers: "(\<And>b. frame_task (rule_view i) (k b)) \<Longrightarrow> frame_task (rule_view i) (await_answers fetch reqs ok k)"
  by (induction reqs arbitrary: ok) (simp_all add: frame_turn frame_answer)

lemma local_failed: "local_task (rule_view i) (rule_failed rule e)"
  unfolding rule_failed_def by (rule local_turn) (simp_all add: local_eff_def local_Return)

lemma frame_failed: "frame_task (rule_view i) (rule_failed rule e)"
  unfolding rule_failed_def by (rule frame_turn) (simp_all add: frame_eff_def frame_Return)

lemmas store_ops = alerts_store_def alert_store.simps

lemma local_change:
  "local_task (rule_view (ru_id rule)) (change_state num fetch (alerts_store num like enforce now stamp eid lat) rule v st t att (rule_failed rule) r)"
  unfolding change_state_def fireChannels_def store_ops
  by (intro local_attempt local_send local_failed local_answers local_transition local_record local_Return)

lemma frame_change:
  "ru_id rule \<noteq> j \<Longrightarrow>
     frame_task (rule_view j) (change_state num fetch (alerts_store num like enforce now stamp eid lat) rule v st t att (rule_failed rule) r)"
  unfolding change_state_def fireChannels_def store_ops
  by (intro frame_attempt frame_send frame_failed frame_answers frame_transition frame_record frame_Return) simp_all

lemma view_reads:
  assumes "rule_view i s = rule_view i t"
  shows "evaluateRule num like (ew_store s) now rule = evaluateRule num like (ew_store t) now rule"
    and "getState (ew_store s) i = getState (ew_store t) i"
    and "getAnalysisNarrative (ew_store s) p a = getAnalysisNarrative (ew_store t) p a"
proof -
  have sh: "shared_tables (ew_store s) = shared_tables (ew_store t)" using assms by (simp add: rule_view_def)
  show "evaluateRule num like (ew_store s) now rule = evaluateRule num like (ew_store t) now rule" by (rule evaluateRule_shared [OF sh])
  show "getAnalysisNarrative (ew_store s) p a = getAnalysisNarrative (ew_store t) p a" by (rule narrative_shared [OF sh])
  show "getState (ew_store s) i = getState (ew_store t) i" using assms by (simp add: rule_view_def)
qed

lemma attachment_reads:
  "rule_view i s = rule_view i t \<Longrightarrow> analysisAttachment (alerts_store num like enforce now stamp eid lat) rule (ew_store s) =
     analysisAttachment (alerts_store num like enforce now stamp eid lat) rule (ew_store t)"
  unfolding analysisAttachment_def store_ops by (simp only: view_reads(3) [of i s t])

lemma local_analysis:
  "(\<And>att. local_task (rule_view i) (k att)) \<Longrightarrow> local_task (rule_view i) (analysis_turn (alerts_store num like enforce now stamp eid lat) rule k)"
  unfolding analysis_turn_def
  by (auto intro!: local_turn split: option.splits list.splits) (auto simp: local_eff_def intro: attachment_reads)

lemma frame_analysis: "(\<And>att. frame_task V (k att)) \<Longrightarrow> frame_task V (analysis_turn store rule k)"
  unfolding analysis_turn_def by (auto simp: frame_eff_def intro!: frame_turn split: option.splits list.splits)

lemma local_if: "local_task V m \<Longrightarrow> local_task V m' \<Longrightarrow> local_task V (if b then m else m')"
  and frame_if: "frame_task V m \<Longrightarrow> frame_task V m' \<Longrightarrow> frame_task V (if b then m else m')"
  by simp_all

lemma local_rule:
  "local_task (rule_view (ru_id rule)) (evaluateOneRule num fetch clock (alerts_store num like enforce now stamp eid lat) ms rule)"
  unfolding evaluateOneRule_def Let_def
proof (intro local_attempt local_analysis local_if local_get local_change local_failed local_Return)
  fix s t :: "alerts_db eval_world" assume eq: "rule_view (ru_id rule) s = rule_view (ru_id rule) t"
  show "es_getState (alerts_store num like enforce now stamp eid lat) (ew_store s) (ru_id rule) =
    es_getState (alerts_store num like enforce now stamp eid lat) (ew_store t) (ru_id rule)"
    unfolding store_ops view_reads(2) [OF eq] ..
  show "withTimeout (es_evaluateRule (alerts_store num like enforce now stamp eid lat) (ew_store s) rule) ms (timeout_message ms) =
    withTimeout (es_evaluateRule (alerts_store num like enforce now stamp eid lat) (ew_store t) rule) ms (timeout_message ms)"
    unfolding store_ops view_reads(1) [OF eq] ..
qed (simp only: store_ops local_record)

lemma frame_rule:
  "ru_id rule \<noteq> j \<Longrightarrow> frame_task (rule_view j) (evaluateOneRule num fetch clock (alerts_store num like enforce now stamp eid lat) ms rule)"
  unfolding evaluateOneRule_def Let_def
  by (intro frame_attempt frame_analysis frame_if frame_get frame_change frame_failed frame_Return)
    (simp_all only: store_ops frame_record not_False_eq_True)

interpretation rules: independent_turns "evaluateOneRule num fetch clock (alerts_store num like enforce now stamp eid lat) ms"
  "\<lambda>rule. rule_view (ru_id rule)" "\<lambda>a b. ru_id a \<noteq> ru_id b"
  by unfold_locales (rule local_rule, rule frame_rule)

section \<open>One evaluation\<close>

definition state_before :: "alerts_db \<Rightarrow> string \<Rightarrow> alert_state" where
  "state_before db i = (case getState db i of None \<Rightarrow> Ok | Some s \<Rightarrow> sr_current_state s)"

definition state_after :: "alert_rule \<Rightarrow> js_number \<Rightarrow> alert_state" where
  "state_after rule v = (if compareValue v (ru_threshold rule) (ru_comparison rule) then Firing else Ok)"

lemma store_put_Inr: "f (ew_store w) = Inr s \<Longrightarrow> store_put f w = (Inr (), w\<lparr>ew_store := s\<rparr>)"
  by (simp add: store_put_def)

lemma transition_known:
  "i \<in> rr_id ` set (alert_rules db) \<Longrightarrow> \<exists>db'. transitionState enforce db i p st now = Inr db'"
  by (cases "transitionState enforce db i p st now") (auto simp: transition_fails)

lemma record_known:
  "i \<in> rr_id ` set (alert_rules db) \<Longrightarrow> \<exists>db'. recordEvaluation enforce e now db i p v st n = Inr db'"
  by (cases "recordEvaluation enforce e now db i p v st n") (auto simp: record_fails)

lemma change_state_runs:
  fixes w :: "alerts_db eval_world"
  assumes chs: "webhook_channels (ru_channels rule) = Inr chs" and known: "ru_id rule \<in> rr_id ` set (alert_rules (ew_store w))"
  shows "\<exists>w'. run_task (change_state num fetch (alerts_store num like enforce now stamp eid lat) rule v st t att fail r) w = (r, w') \<and>
    ew_posts w' = ew_posts w @ map (webhook_request_to num (alert_payload rule v st t att)) chs \<and>
    (\<exists>s. getState (ew_store w') (ru_id rule) = Some s \<and> sr_current_state s = st \<and> sr_last_state_change s = t) \<and>
    own_evaluations (ru_id rule) (ew_store w') = own_evaluations (ru_id rule) (ew_store w) @
      [\<lparr>er_id = eid (ru_id rule), er_rule_id = ru_id rule, er_project_id = ru_projectId rule, er_evaluated_at = stamp (ru_id rule),
        er_value = v, er_state = st,
        er_notified = (if list_all (delivered fetch) (map (webhook_request_to num (alert_payload rule v st t att)) chs) then 1 else 0)\<rparr>]"
proof -
  let ?i = "ru_id rule" and ?p = "ru_projectId rule" and ?reqs = "map (webhook_request_to num (alert_payload rule v st t att)) chs"
  obtain db1 where db1: "transitionState enforce (ew_store w) ?i ?p st t = Inr db1" using transition_known known by blast
  note tr = transition_view [OF db1]
  have "?i \<in> rr_id ` set (alert_rules db1)" using known tr(3) by (simp add: shared_tables_def)
  then obtain db2 where db2: "recordEvaluation enforce (eid ?i) (stamp ?i) db1 ?i ?p v st (list_all (delivered fetch) ?reqs) = Inr db2"
    using record_known by blast
  note rec = record_view [OF db2]
  have "run_task (change_state num fetch (alerts_store num like enforce now stamp eid lat) rule v st t att fail r) w =
    (r, w\<lparr>ew_posts := ew_posts w @ ?reqs, ew_log := ew_log w @ delivery_errors fetch ?reqs, ew_store := db2\<rparr>)"
    using chs db1 db2 by (simp add: change_state_def store_ops run_channels store_put_def Let_def)
  then show ?thesis using rec tr by (auto split: option.splits)
qed

lemma evaluation_alone:
  assumes "withTimeout (es_evaluateRule store (ew_store w) rule) ms (timeout_message ms) = Inr v"
    and "es_getState store (ew_store w) (ru_id rule) = Inr prior"
  shows "run_task (evaluateOneRule num fetch clock store ms rule) w =
    (if or_else prior Ok = state_after rule v
     then run_task (attempt (store_put (\<lambda>s. es_recordEvaluation store s (ru_id rule) (ru_projectId rule) v (state_after rule v) False))
            (rule_failed rule) (\<lambda>_. Return (0, 0))) w
     else run_task (change_state num fetch store rule v (state_after rule v) (clock rule) (analysisAttachment store rule (ew_store w))
            (rule_failed rule) (if state_after rule v = Firing then (1, 0) else (0, 1))) w)"
  using assms by (cases "or_else prior Ok"; cases "state_after rule v") (auto simp: evaluateOneRule_def store_get_def Let_def state_after_def split: if_splits)

text \<open>C4: the evaluation of a rule of the table, on every outcome of its query.  When the query fails or is not answered within
  the timeout, the error is logged, nothing is sent or recorded and no state moves.  When it gives a value, the rule's
  webhooks are sent exactly on an edge between ok and firing, one request per webhook channel, then the state moves, and one
  evaluation is recorded, marked notified only if every request of the edge was answered with a 2xx status; a channel list
  that cannot be read (no array, or with a null in it) fails an edge, and only an edge, before anything is sent.\<close>

theorem rule_evaluation_edges:
  assumes "ru_id rule \<in> rr_id ` set (alert_rules (ew_store w))"
    and run: "run = run_task (evaluateOneRule num fetch clock (alerts_store num like enforce now stamp eid lat) ms rule) w"
    and failed: "failed = (\<lambda>e. ((0, 0), w\<lparr>ew_log := ew_log w @ [(''[alerts-evaluator] rule evaluation failed'', ru_id rule, e)]\<rparr>))"
    and row: "row = (\<lambda>v st notified. \<lparr>er_id = eid (ru_id rule), er_rule_id = ru_id rule, er_project_id = ru_projectId rule,
      er_evaluated_at = stamp (ru_id rule), er_value = v, er_state = st, er_notified = notified\<rparr>)"
    and before: "before = state_before (ew_store w) (ru_id rule)"
  shows "case withTimeout (map_option (\<lambda>t. (t, evaluateRule num like (ew_store w) now rule)) (lat (ru_id rule))) ms (timeout_message ms) of
      Inl e \<Rightarrow> run = failed e
    | Inr v \<Rightarrow> (let after = state_after rule v in
        if before = after then
          \<exists>w'. run = ((0, 0), w') \<and> ew_posts w' = ew_posts w \<and> state_before (ew_store w') (ru_id rule) = before \<and>
            own_evaluations (ru_id rule) (ew_store w') = own_evaluations (ru_id rule) (ew_store w) @ [row v after 0]
        else case webhook_channels (ru_channels rule) of
          Inl e \<Rightarrow> run = failed e
        | Inr chs \<Rightarrow> \<exists>w' att. let reqs = map (webhook_request_to num (alert_payload rule v after (clock rule) att)) chs in
            run = (if after = Firing then (1, 0) else (0, 1), w') \<and> ew_posts w' = ew_posts w @ reqs \<and>
            state_before (ew_store w') (ru_id rule) = after \<and>
            own_evaluations (ru_id rule) (ew_store w') = own_evaluations (ru_id rule) (ew_store w) @
              [row v after (if list_all (delivered fetch) reqs then 1 else 0)])"
proof (cases "withTimeout (map_option (\<lambda>t. (t, evaluateRule num like (ew_store w) now rule)) (lat (ru_id rule))) ms (timeout_message ms)")
  case (Inl e)
  then show ?thesis by (simp add: run failed evaluateOneRule_def store_get_def store_ops)
next
  case (Inr v)
  let ?i = "ru_id rule" and ?st = "alerts_store num like enforce now stamp eid lat"
  have prior: "or_else (map_option sr_current_state (getState (ew_store w) ?i)) Ok = before"
    by (simp add: or_else_def state_before_def before split: option.splits)
  have gives: "withTimeout (es_evaluateRule ?st (ew_store w) rule) ms (timeout_message ms) = Inr v"
    "es_getState ?st (ew_store w) ?i = Inr (map_option sr_current_state (getState (ew_store w) ?i))" using Inr by (simp_all add: store_ops)
  note alone = evaluation_alone [OF gives, unfolded prior]
  obtain db where db: "recordEvaluation enforce (eid ?i) (stamp ?i) (ew_store w) ?i (ru_projectId rule) v (state_after rule v) False = Inr db"
    using record_known [OF assms(1)] by blast
  show ?thesis
  proof (cases "before = state_after rule v")
    case True
    have "run = ((0, 0), w\<lparr>ew_store := db\<rparr>)" unfolding run alone using True db by (simp add: store_put_def store_ops)
    then show ?thesis using True Inr record_view [OF db] by (simp add: Let_def state_before_def before row)
  next
    case False
    show ?thesis
    proof (cases "webhook_channels (ru_channels rule)")
      case (Inl e)
      then have "run = failed e" unfolding run alone using False by (simp add: change_state_def run_channels failed)
      then show ?thesis using False Inr Inl by (simp add: Let_def)
    next
      case chs: (Inr chs)
      show ?thesis
        using change_state_runs [OF chs assms(1), of num fetch like enforce now stamp eid lat v "state_after rule v" "clock rule"
            "analysisAttachment ?st rule (ew_store w)" "rule_failed rule" "if state_after rule v = Firing then (1, 0) else (0, 1)"]
        unfolding run alone using False Inr chs by (auto simp: Let_def state_before_def row)
    qed
  qed
qed

definition sample_alert :: alert_rule where
  "sample_alert = \<lparr>ru_id = ''r'', ru_projectId = ''p'', ru_name = ''e'', ru_signal = ''spans'', ru_query = JObj [], ru_threshold = Num 1,
     ru_windowMins = Num 5, ru_comparison = ''<'', ru_channels = in_channels sample_input, ru_enabled = True, ru_createdAt = ''t'',
     ru_updatedAt = ''t'', ru_analysisId = Some ''a'', ru_currentState = None, ru_lastStateChange = None\<rparr>"

definition sample_world :: "alerts_db eval_world" where
  "sample_world = \<lparr>ew_store = sample_created, ew_posts = [], ew_log = []\<rparr>"

lemma sample_value: "evaluateRule num like (ew_store sample_world) now sample_alert = Inr (Num 0)"
  by (simp add: evaluateRule_def sample_alert_def sample_world_def sample_created_def empty_alerts_def latest_analysis_def find_row_def order_desc_def)

lemma sample_channels: "webhook_channels (ru_channels sample_alert) = Inr [JObj [(''type'', JStr ''webhook''), (''url'', JStr ''https://a'')]]"
  by (simp add: webhook_channels_def sample_alert_def sample_input_def is_webhook_def member_of_def map_get_def)

lemma sample_known: "ru_id sample_alert \<in> rr_id ` set (alert_rules (ew_store sample_world))"
  by (simp add: sample_alert_def sample_world_def sample_created_def input_row_def)

theorem rule_evaluation_edges_witness:
  "\<exists>w'. run_task (evaluateOneRule (\<lambda>_. ''1'') (\<lambda>_. Inl ''down'') (\<lambda>_. ''t'')
      (alerts_store (\<lambda>_. ''1'') (\<lambda>_ _. False) True 0 (\<lambda>_. ''t'') (\<lambda>i. i) (\<lambda>_. Some 1)) 10 sample_alert) sample_world = ((1, 0), w') \<and>
    state_before (ew_store w') ''r'' = Firing \<and> map er_notified (own_evaluations ''r'' (ew_store w')) = [0]"
proof -
  have before: "state_before (ew_store sample_world) ''r'' = Ok"
    by (simp add: state_before_def getState_def find_row_def sample_world_def sample_created_def empty_alerts_def)
  have none: "own_evaluations ''r'' (ew_store sample_world) = []"
    by (simp add: own_evaluations_def sample_world_def sample_created_def empty_alerts_def)
  have after: "state_after sample_alert (Num 0) = Firing" by (simp add: state_after_def sample_alert_def compareValue_def)
  have i: "ru_id sample_alert = ''r''" by (simp add: sample_alert_def)
  show ?thesis
    using rule_evaluation_edges [OF sample_known refl refl refl refl, where lat = "\<lambda>_. Some 1" and ms = 10
        and num = "\<lambda>_. ''1''" and fetch = "\<lambda>_. Inl ''down''" and clock = "\<lambda>_. ''t''" and enforce = True and stamp = "\<lambda>_. ''t''" and eid = "\<lambda>i. i"
        and like = "\<lambda>_ _. False" and now = 0]
    by (auto simp: withTimeout_def sample_value sample_channels Let_def before none after i delivered_def)
qed

section \<open>Failures and batches\<close>

text \<open>When the store fails to move the state after the webhooks went out, the evaluation counts nothing, records nothing
  and leaves the state, so the next evaluation sends the same webhooks again: delivery is at least once per edge.\<close>

lemma failed_transition_refires:
  assumes "es_evaluateRule store s rule = Some (t, Inr v)" and "t < ms" and "es_getState store s (ru_id rule) = Inr prior"
    and "webhook_channels (ru_channels rule) = Inr chs" and "or_else prior Ok \<noteq> state_after rule v"
    and "es_transitionState store s (ru_id rule) (ru_projectId rule) (state_after rule v) (clock rule) = Inl e"
    and "ew_store w = s"
    and reqs: "reqs = map (webhook_request_to num (alert_payload rule v (state_after rule v) (clock rule) (analysisAttachment store rule s))) chs"
  shows "\<exists>w' w''. run_task (evaluateOneRule num fetch clock store ms rule) w = ((0, 0), w') \<and> ew_store w' = s \<and> ew_posts w' = ew_posts w @ reqs \<and>
    run_task (evaluateOneRule num fetch clock store ms rule) w' = ((0, 0), w'') \<and> ew_store w'' = s \<and> ew_posts w'' = ew_posts w @ reqs @ reqs"
proof -
  have once: "\<exists>u'. run_task (evaluateOneRule num fetch clock store ms rule) u = ((0, 0), u') \<and> ew_store u' = s \<and> ew_posts u' = ew_posts u @ reqs"
    if u: "ew_store u = s" for u
    using evaluation_alone [of store u rule ms v prior num fetch clock] assms(1-6) u
    by (simp add: withTimeout_def change_state_def run_channels Let_def store_put_def reqs)
  obtain w' where w': "run_task (evaluateOneRule num fetch clock store ms rule) w = ((0, 0), w')" "ew_store w' = s" "ew_posts w' = ew_posts w @ reqs"
    using once [OF assms(7)] by blast
  obtain w'' where "run_task (evaluateOneRule num fetch clock store ms rule) w' = ((0, 0), w'')" "ew_store w'' = s" "ew_posts w'' = ew_posts w' @ reqs"
    using once [OF w'(2)] by blast
  then show ?thesis using w' by auto
qed

lemma foldl_counts: "foldl (\<lambda>a r. a + f r) (n::nat) rs = n + sum_list (map f rs)"
  by (induction rs arbitrary: n) simp_all

text \<open>C3: over every interleaving of the turns of its evaluations, a batch of rules with distinct ids has no infinite run and is
  never stuck before its workers have returned; it then reports the sums of what each rule's evaluation alone reports, and
  leaves of each rule the state, the evaluations and the webhooks of that evaluation alone.\<close>

theorem batch_schedule_free:
  assumes "distinct (map ru_id rules)"
    and store: "store = alerts_store num like enforce now stamp eid lat"
    and one: "one = evaluateOneRule num fetch clock store (at_least_one (bo_ruleTimeoutMs opts) DEFAULT_RULE_TIMEOUT_MS)"
    and start: "start = start_tasks rules (at_least_one (bo_concurrency opts) DEFAULT_RULE_CONCURRENCY) w"
  shows "\<not> (\<exists>run. run 0 = start \<and> (\<forall>k. task_step one rules (run k) (run (Suc k)))) \<and>
    (\<forall>p. (task_step one rules)\<^sup>*\<^sup>* start p \<longrightarrow> (\<exists>q. task_step one rules p q) \<or>
      tasks_returned rules p \<and> evaluateRuleBatch num fetch clock store opts rules w (batch_result rules (tp_results p)) (tp_world p)) \<and>
    (\<forall>counts w'. evaluateRuleBatch num fetch clock store opts rules w counts w' \<longrightarrow>
      counts = \<lparr>bc_evaluated = length rules, bc_fired = (\<Sum>r\<leftarrow>rules. fst (fst (run_task (one r) w))),
        bc_resolved = (\<Sum>r\<leftarrow>rules. snd (fst (run_task (one r) w)))\<rparr> \<and>
      (\<forall>r \<in> set rules. rule_view (ru_id r) w' = rule_view (ru_id r) (snd (run_task (one r) w))))"
proof (intro conjI allI impI)
  show "\<not> (\<exists>run. run 0 = start \<and> (\<forall>k. task_step one rules (run k) (run (Suc k))))" using no_infinite_run by blast
next
  fix p assume "(task_step one rules)\<^sup>*\<^sup>* start p"
  then show "(\<exists>q. task_step one rules p q) \<or>
      tasks_returned rules p \<and> evaluateRuleBatch num fetch clock store opts rules w (batch_result rules (tp_results p)) (tp_world p)"
    using task_progress [of rules p one] batch_done [of num fetch clock store opts rules w p] by (auto simp: one start)
next
  fix counts w' assume "evaluateRuleBatch num fetch clock store opts rules w counts w'"
  then obtain p where run: "(task_step one rules)\<^sup>*\<^sup>* start p" and ret: "tasks_returned rules p"
    and res: "counts = batch_result rules (tp_results p)" "w' = tp_world p"
    by (cases rule: evaluateRuleBatch.cases) (auto simp: one start)
  have c: "0 < at_least_one (bo_concurrency opts) DEFAULT_RULE_CONCURRENCY" by (simp add: at_least_one_def)
  have apart: "ru_id (rules ! i) \<noteq> ru_id (rules ! j)" if "i < length rules" "j < length rules" "i \<noteq> j" for i j
    using assms(1) that by (metis distinct_conv_nth length_map nth_map)
  note free = rules.every_schedule [of num fetch clock like enforce now stamp eid lat, folded store, OF run [unfolded one start] ret c apart, folded one]
  show "counts = \<lparr>bc_evaluated = length rules, bc_fired = (\<Sum>r\<leftarrow>rules. fst (fst (run_task (one r) w))),
      bc_resolved = (\<Sum>r\<leftarrow>rules. snd (fst (run_task (one r) w)))\<rparr>"
    by (simp add: res free(1) batch_result_def foldl_counts comp_def)
  show "\<forall>r \<in> set rules. rule_view (ru_id r) w' = rule_view (ru_id r) (snd (run_task (one r) w))"
    using free(2) res(2) by blast
qed

theorem batch_schedule_free_witness:
  "\<exists>counts w'. evaluateRuleBatch (\<lambda>_. ''1'') (\<lambda>_. Inr 200) (\<lambda>_. ''t'')
     (alerts_store (\<lambda>_. ''1'') (\<lambda>_ _. False) True 0 (\<lambda>_. ''t'') (\<lambda>i. i) (\<lambda>_. Some 1)) \<lparr>bo_concurrency = None, bo_ruleTimeoutMs = None\<rparr>
     [sample_alert, sample_alert\<lparr>ru_id := ''s''\<rparr>] sample_world counts w' \<and> bc_evaluated counts = 2"
proof -
  let ?store = "alerts_store (\<lambda>_. ''1'') (\<lambda>_ _. False) True 0 (\<lambda>_. ''t'') (\<lambda>i. i) (\<lambda>_. Some 1)"
  let ?opts = "\<lparr>bo_concurrency = None, bo_ruleTimeoutMs = None\<rparr>" and ?rules = "[sample_alert, sample_alert\<lparr>ru_id := ''s''\<rparr>]"
  have "distinct (map ru_id ?rules)" by (simp add: sample_alert_def)
  note all = batch_schedule_free [OF this refl refl refl, where num = "\<lambda>_. ''1''" and fetch = "\<lambda>_. Inr 200" and clock = "\<lambda>_. ''t''"
      and like = "\<lambda>_ _. False" and enforce = True and now = 0 and stamp = "\<lambda>_. ''t''" and eid = "\<lambda>i. i" and lat = "\<lambda>_. Some 1"
      and opts = ?opts and w = sample_world]
  obtain p where "(task_step (evaluateOneRule (\<lambda>_. ''1'') (\<lambda>_. Inr 200) (\<lambda>_. ''t'') ?store (at_least_one (bo_ruleTimeoutMs ?opts) DEFAULT_RULE_TIMEOUT_MS)) ?rules)\<^sup>*\<^sup>*
      (start_tasks ?rules (at_least_one (bo_concurrency ?opts) DEFAULT_RULE_CONCURRENCY) sample_world) p" "tasks_returned ?rules p"
    using tasks_end by blast
  then have "evaluateRuleBatch (\<lambda>_. ''1'') (\<lambda>_. Inr 200) (\<lambda>_. ''t'') ?store ?opts ?rules sample_world (batch_result ?rules (tp_results p)) (tp_world p)"
    using all returned_final by blast
  then show ?thesis using all by (intro exI conjI) (assumption, simp add: batch_result_def)
qed

end
