(* ===== verification/Sql_Db.thy ===== *)
theory Sql_Db
  imports Js_Text
begin

text \<open>
  The storage seam of the collector, \<^verbatim>\<open>packages/obs-collector/src/lib/sql-db.ts\<close>, and its two adapters: D1 and Postgres
  (\<^verbatim>\<open>lib/sql-db-postgres.ts\<close>).  Statements are objects, so they live in a store of addresses: \<^verbatim>\<open>bind\<close> makes a new object on D1 and
  changes its own on Postgres.  How the engine executes one bound statement is a parameter.  Shown: a batch is atomic on both; binding
  a fresh statement per row runs every row on both; binding one statement for all rows, as most of the stores do, runs every row
  on D1 and the last row over and over on Postgres; and the rewriting of placeholders numbers them in order and touches no string
  literal.
\<close>

section \<open>Statements as objects\<close>

datatype dialect = Sqlite | Postgres

record ('q, 'r) sql_statement =
  stmt_sql :: 'q
  stmt_bound :: "'r option"

type_synonym ('q, 'r) sql_heap = "('q, 'r) sql_statement list"

definition db_prepare :: "'q \<Rightarrow> ('q, 'r) sql_heap \<Rightarrow> nat \<times> ('q, 'r) sql_heap" where
  "db_prepare sql h = (length h, h @ [\<lparr>stmt_sql = sql, stmt_bound = None\<rparr>])"

definition d1_bind :: "nat \<Rightarrow> 'r \<Rightarrow> ('q, 'r) sql_heap \<Rightarrow> nat \<times> ('q, 'r) sql_heap" where
  "d1_bind a args h = (length h, h @ [(h ! a)\<lparr>stmt_bound := Some args\<rparr>])"

definition pg_bind :: "nat \<Rightarrow> 'r \<Rightarrow> ('q, 'r) sql_heap \<Rightarrow> nat \<times> ('q, 'r) sql_heap" where
  "pg_bind a args h = (a, h[a := (h ! a)\<lparr>stmt_bound := Some args\<rparr>])"

fun db_bind :: "dialect \<Rightarrow> nat \<Rightarrow> 'r \<Rightarrow> ('q, 'r) sql_heap \<Rightarrow> nat \<times> ('q, 'r) sql_heap" where
  "db_bind Sqlite = d1_bind"
| "db_bind Postgres = pg_bind"

text \<open>
  One transaction: the statements in order, each with the arguments it is bound to when it runs.  \<open>Inl\<close> is the error that the
  adapter throws after the rollback; the second part is the number of changed rows per statement.
\<close>

fun run_batch :: "(('q, 'r) sql_statement \<Rightarrow> 'db \<Rightarrow> string + (nat \<times> 'db)) \<Rightarrow> ('q, 'r) sql_statement list \<Rightarrow> 'db \<Rightarrow> string + (nat list \<times> 'db)" where
  "run_batch exec [] db = Inr ([], db)"
| "run_batch exec (s # ss) db =
     res_bind (exec s db) (\<lambda>(n, db'). res_bind (run_batch exec ss db') (\<lambda>(ns, db''). Inr (n # ns, db'')))"

definition db_batch ::
  "(('q, 'r) sql_statement \<Rightarrow> 'db \<Rightarrow> string + (nat \<times> 'db)) \<Rightarrow> ('q, 'r) sql_heap \<Rightarrow> nat list \<Rightarrow> 'db \<Rightarrow> (string + nat list) \<times> 'db" where
  "db_batch exec h as db = (case run_batch exec (map ((!) h) as) db of Inl e \<Rightarrow> (Inl e, db) | Inr (ns, db') \<Rightarrow> (Inr ns, db'))"

section \<open>How the stores fill a batch\<close>

text \<open>
  Rows bound to statements prepared before, \<open>addr\<close> giving the one for a row; the addresses are what \<^verbatim>\<open>bind\<close> returned.
\<close>

fun bind_rows ::
  "(nat \<Rightarrow> 'r \<Rightarrow> ('q, 'r) sql_heap \<Rightarrow> nat \<times> ('q, 'r) sql_heap) \<Rightarrow> ('r \<Rightarrow> nat) \<Rightarrow> 'r list \<Rightarrow> ('q, 'r) sql_heap \<Rightarrow> nat list \<times> ('q, 'r) sql_heap" where
  "bind_rows bind addr [] h = ([], h)"
| "bind_rows bind addr (r # rs) h = (let (b, h1) = bind (addr r) r h; (bs, h2) = bind_rows bind addr rs h1 in (b # bs, h2))"

text \<open>\<^verbatim>\<open>const stmt = db.prepare(sql); rows.map((r) => stmt.bind(...))\<close>\<close>

definition prepare_once :: "dialect \<Rightarrow> 'q \<Rightarrow> 'r list \<Rightarrow> ('q, 'r) sql_heap \<Rightarrow> nat list \<times> ('q, 'r) sql_heap" where
  "prepare_once d sql rows h = (let (a, h1) = db_prepare sql h in bind_rows (db_bind d) (\<lambda>_. a) rows h1)"

text \<open>Two statements prepared before the loop that binds them, in the order of the rows.\<close>

definition prepare_two :: "dialect \<Rightarrow> 'q \<Rightarrow> 'q \<Rightarrow> ('a + 'b) list \<Rightarrow> ('q, 'a + 'b) sql_heap \<Rightarrow> nat list \<times> ('q, 'a + 'b) sql_heap" where
  "prepare_two d sql1 sql2 rows h =
     (let (a1, h1) = db_prepare sql1 h; (a2, h2) = db_prepare sql2 h1
      in bind_rows (db_bind d) (\<lambda>r. case r of Inl _ \<Rightarrow> a1 | Inr _ \<Rightarrow> a2) rows h2)"

text \<open>\<^verbatim>\<open>rows.map((r) => db.prepare(sql).bind(...))\<close>\<close>

fun prepare_each ::
  "(nat \<Rightarrow> 'r \<Rightarrow> ('q, 'r) sql_heap \<Rightarrow> nat \<times> ('q, 'r) sql_heap) \<Rightarrow> 'q \<Rightarrow> 'r list \<Rightarrow> ('q, 'r) sql_heap \<Rightarrow> nat list \<times> ('q, 'r) sql_heap" where
  "prepare_each bind sql [] h = ([], h)"
| "prepare_each bind sql (r # rs) h =
     (let (a, h1) = db_prepare sql h; (b, h2) = bind a r h1; (bs, h3) = prepare_each bind sql rs h2 in (b # bs, h3))"

text \<open>The statements such a batch runs.\<close>

definition once_statements :: "dialect \<Rightarrow> 'q \<Rightarrow> 'r list \<Rightarrow> ('q, 'r) sql_statement list" where
  "once_statements d sql rows = (let (as, h) = prepare_once d sql rows [] in map ((!) h) as)"

definition two_statements :: "dialect \<Rightarrow> 'q \<Rightarrow> 'q \<Rightarrow> ('a + 'b) list \<Rightarrow> ('q, 'a + 'b) sql_statement list" where
  "two_statements d sql1 sql2 rows = (let (as, h) = prepare_two d sql1 sql2 rows [] in map ((!) h) as)"

definition each_statements :: "dialect \<Rightarrow> 'q \<Rightarrow> 'r list \<Rightarrow> ('q, 'r) sql_statement list" where
  "each_statements d sql rows = (let (as, h) = prepare_each (db_bind d) sql rows [] in map ((!) h) as)"

abbreviation bound :: "'q \<Rightarrow> 'r \<Rightarrow> ('q, 'r) sql_statement" where
  "bound sql r \<equiv> \<lparr>stmt_sql = sql, stmt_bound = Some r\<rparr>"

section \<open>The contract of an adapter\<close>

text \<open>
  Every adapter: a prepared statement is new, binding sets its arguments and leaves the statements with other addresses alone.
\<close>

locale sql_adapter =
  fixes bind :: "nat \<Rightarrow> 'r \<Rightarrow> ('q, 'r) sql_heap \<Rightarrow> nat \<times> ('q, 'r) sql_heap"
  assumes bind_target: "a < length h \<Longrightarrow> bind a r h = (b, h') \<Longrightarrow> b < length h' \<and> h' ! b = bound (stmt_sql (h ! a)) r"
    and bind_other: "a < length h \<Longrightarrow> bind a r h = (b, h') \<Longrightarrow> length h \<le> length h' \<and> (\<forall>c < length h. c \<noteq> a \<longrightarrow> h' ! c = h ! c)"
begin

lemma fresh_bind:
  assumes "db_prepare sql h = (a, h1)" and "bind a r h1 = (b, h2)"
  shows "b < length h2" and "h2 ! b = bound sql r" and "length h < length h2" and "\<forall>c < length h. h2 ! c = h ! c"
proof -
  have a: "a = length h" "h1 = h @ [\<lparr>stmt_sql = sql, stmt_bound = None\<rparr>]" using assms(1) by (auto simp: db_prepare_def)
  have l: "a < length h1" using a by simp
  show "b < length h2" "h2 ! b = bound sql r" using bind_target [OF l assms(2)] a by simp_all
  have "length h1 \<le> length h2" "\<forall>c < length h1. c \<noteq> a \<longrightarrow> h2 ! c = h1 ! c" using bind_other [OF l assms(2)] by simp_all
  then show "length h < length h2" "\<forall>c < length h. h2 ! c = h ! c" using a by (auto simp: nth_append)
qed

lemma prepare_each_bound:
  "prepare_each bind sql rs h = (bs, h') \<Longrightarrow>
     length h \<le> length h' \<and> (\<forall>c < length h. h' ! c = h ! c) \<and> map ((!) h') bs = map (bound sql) rs"
proof (induction rs arbitrary: h bs)
  case (Cons r rs)
  obtain a h1 where p: "db_prepare sql h = (a, h1)" by (cases "db_prepare sql h")
  obtain b h2 where q: "bind a r h1 = (b, h2)" by (cases "bind a r h1")
  obtain bs1 h3 where e: "prepare_each bind sql rs h2 = (bs1, h3)" by (cases "prepare_each bind sql rs h2")
  have res: "bs = b # bs1" "h' = h3" using Cons.prems p q e by simp_all
  note fresh = fresh_bind [OF p q]
  have rec: "length h2 \<le> length h'" "\<forall>c < length h2. h' ! c = h2 ! c" "map ((!) h') bs1 = map (bound sql) rs"
    using Cons.IH [of h2 bs1] e res by simp_all
  have "h' ! b = bound sql r" using rec(2) fresh(1, 2) by simp
  then show ?case using rec fresh(3, 4) res by simp
qed simp

end

text \<open>A pure adapter also leaves the statement it binds alone, as the documentation of \<^verbatim>\<open>bind\<close> has it.\<close>

locale pure_sql_adapter = sql_adapter +
  assumes bind_pure: "a < length h \<Longrightarrow> bind a r h = (b, h') \<Longrightarrow> length h \<le> length h' \<and> (\<forall>c < length h. h' ! c = h ! c)"
begin

lemma bind_rows_pure:
  "\<forall>r \<in> set rs. addr r < length h \<Longrightarrow> bind_rows bind addr rs h = (bs, h') \<Longrightarrow>
     length h \<le> length h' \<and> (\<forall>c < length h. h' ! c = h ! c) \<and>
     map ((!) h') bs = map (\<lambda>r. bound (stmt_sql (h ! addr r)) r) rs"
proof (induction rs arbitrary: h bs h')
  case (Cons r rs)
  obtain b h1 bs1 where step: "bind (addr r) r h = (b, h1)" "bind_rows bind addr rs h1 = (bs1, h')" and res: "bs = b # bs1"
    using Cons.prems(2) by (auto split: prod.splits)
  have r: "addr r < length h" using Cons.prems(1) by simp
  have h1: "length h \<le> length h1" "\<forall>c < length h. h1 ! c = h ! c" using bind_pure [OF r step(1)] by simp_all
  have b: "b < length h1" "h1 ! b = bound (stmt_sql (h ! addr r)) r" using bind_target [OF r step(1)] by simp_all
  have a: "\<forall>r \<in> set rs. addr r < length h1" using Cons.prems(1) h1(1) by auto
  have sqls: "map (\<lambda>r. bound (stmt_sql (h1 ! addr r)) r) rs = map (\<lambda>r. bound (stmt_sql (h ! addr r)) r) rs"
    using Cons.prems(1) h1(2) by simp
  show ?case using Cons.IH [OF a step(2)] h1 b res sqls by auto
qed simp

end

interpretation d1: pure_sql_adapter d1_bind
proof unfold_locales
  fix a b :: nat and h h' :: "('q, 'r) sql_heap" and r :: 'r
  assume a: "a < length h" and b: "d1_bind a r h = (b, h')"
  show "b < length h' \<and> h' ! b = bound (stmt_sql (h ! a)) r"
    using b by (auto simp: d1_bind_def)
  show "length h \<le> length h' \<and> (\<forall>c < length h. c \<noteq> a \<longrightarrow> h' ! c = h ! c)" "length h \<le> length h' \<and> (\<forall>c < length h. h' ! c = h ! c)"
    using b by (auto simp: d1_bind_def nth_append)
qed

interpretation pg: sql_adapter pg_bind
  by unfold_locales (auto simp: pg_bind_def)


section \<open>What a batch runs\<close>

lemma bind_rows_d1:
  assumes "\<forall>r \<in> set rows. addr r < length h" and "bind_rows (db_bind Sqlite) addr rows h = (bs, h')"
  shows "map ((!) h') bs = map (\<lambda>r. bound (stmt_sql (h ! addr r)) r) rows"
  using d1.bind_rows_pure [of rows addr h bs h'] assms by simp

lemma rebound: "s\<lparr>stmt_bound := Some r\<rparr> = bound (stmt_sql s) r" for s :: "('q, 'r) sql_statement"
  by (cases s) simp

text \<open>On Postgres the addresses are those of the prepared statements, and each holds the last row bound to it.\<close>

lemma bind_rows_pg:
  "\<forall>r \<in> set rows. addr r < length h \<Longrightarrow>
     \<exists>h'. bind_rows (db_bind Postgres) addr rows h = (map addr rows, h') \<and> length h' = length h \<and>
       (\<forall>a < length h. h' ! a = (let rs = filter (\<lambda>r. addr r = a) rows in if rs = [] then h ! a else bound (stmt_sql (h ! a)) (last rs)))"
proof (induction rows arbitrary: h)
  case (Cons r rows)
  let ?h = "h[addr r := bound (stmt_sql (h ! addr r)) r]"
  have r: "addr r < length h" using Cons.prems by simp
  have "\<forall>r \<in> set rows. addr r < length ?h" using Cons.prems by simp
  from Cons.IH [OF this] obtain h' where h': "bind_rows (db_bind Postgres) addr rows ?h = (map addr rows, h')" "length h' = length h"
    and at: "\<forall>a < length h. h' ! a = (let rs = filter (\<lambda>r. addr r = a) rows in if rs = [] then ?h ! a else bound (stmt_sql (?h ! a)) (last rs))"
    by auto
  have val: "h' ! a = (let rs = filter (\<lambda>r. addr r = a) (r # rows) in if rs = [] then h ! a else bound (stmt_sql (h ! a)) (last rs))" if "a < length h" for a
    using at that r by (cases "addr r = a") (simp_all add: Let_def)
  have "bind_rows (db_bind Postgres) addr (r # rows) h = (map addr (r # rows), h')"
    using h'(1) by (simp add: pg_bind_def rebound)
  then show ?case using h'(2) val by blast
qed simp

lemma once_sqlite: "once_statements Sqlite sql rows = map (bound sql) rows"
  using bind_rows_d1 [of rows "\<lambda>_. 0" "[\<lparr>stmt_sql = sql, stmt_bound = None\<rparr>]"]
  by (auto simp: once_statements_def prepare_once_def db_prepare_def simp del: db_bind.simps split: prod.split)

lemma once_postgres: "once_statements Postgres sql rows = replicate (length rows) (bound sql (last rows))"
proof -
  obtain h' where h': "bind_rows (db_bind Postgres) (\<lambda>_. 0) rows [\<lparr>stmt_sql = sql, stmt_bound = None\<rparr>] = (map (\<lambda>_. 0) rows, h')"
    "h' ! 0 = (if rows = [] then \<lparr>stmt_sql = sql, stmt_bound = None\<rparr> else bound sql (last rows))"
    using bind_rows_pg [of rows "\<lambda>_. 0" "[\<lparr>stmt_sql = sql, stmt_bound = None\<rparr>]"] by (auto simp: Let_def simp del: db_bind.simps)
  then show ?thesis
    by (cases rows) (simp_all add: once_statements_def prepare_once_def db_prepare_def map_replicate_const del: db_bind.simps)
qed

lemma two_sqlite: "two_statements Sqlite sql1 sql2 rows = map (\<lambda>r. bound (case r of Inl _ \<Rightarrow> sql1 | Inr _ \<Rightarrow> sql2) r) rows"
proof -
  let ?h = "[\<lparr>stmt_sql = sql1, stmt_bound = None\<rparr>, \<lparr>stmt_sql = sql2, stmt_bound = None\<rparr>]"
  have "\<forall>r \<in> set rows. (case r of Inl _ \<Rightarrow> 0 | Inr _ \<Rightarrow> Suc 0) < length ?h" by (auto split: sum.split)
  from bind_rows_d1 [OF this] show ?thesis
    by (auto simp: two_statements_def prepare_two_def db_prepare_def simp del: db_bind.simps split: prod.split sum.split)
qed

lemma two_postgres:
  fixes rows :: "('a + 'b) list"
  shows "two_statements Postgres sql1 sql2 rows =
    map (\<lambda>r. if isl r then bound sql1 (last (filter isl rows)) else bound sql2 (last (filter (\<lambda>r. \<not> isl r) rows))) rows"
proof -
  define addr where "addr = (\<lambda>r :: 'a + 'b. case r of Inl _ \<Rightarrow> 0 | Inr _ \<Rightarrow> Suc 0)"
  let ?h = "[\<lparr>stmt_sql = sql1, stmt_bound = None :: ('a + 'b) option\<rparr>, \<lparr>stmt_sql = sql2, stmt_bound = None\<rparr>]"
  have addr: "addr r = (if isl r then 0 else Suc 0)" for r by (cases r) (simp_all add: addr_def)
  have small: "\<forall>r \<in> set rows. addr r < length ?h" by (simp add: addr)
  have kind: "(addr r = 0) = isl r" "(addr r = Suc 0) = (\<not> isl r)" for r by (simp_all add: addr)
  have kinds: "filter (\<lambda>r. addr r = 0) rows = filter isl rows" "filter (\<lambda>r. addr r = Suc 0) rows = filter (\<lambda>r. \<not> isl r) rows"
    by (simp_all only: kind)
  obtain h' where run: "bind_rows (db_bind Postgres) addr rows ?h = (map addr rows, h')"
    and at: "\<forall>a < length ?h. h' ! a = (let rs = filter (\<lambda>r. addr r = a) rows in if rs = [] then ?h ! a else bound (stmt_sql (?h ! a)) (last rs))"
    using bind_rows_pg [OF small] by (elim exE conjE) (rule that)
  have h0: "h' ! 0 = bound sql1 (last (filter isl rows))" if "r \<in> set rows" "isl r" for r
    using at [rule_format, of 0] that by (auto simp: kinds Let_def filter_empty_conv)
  have h1: "h' ! Suc 0 = bound sql2 (last (filter (\<lambda>r. \<not> isl r) rows))" if "r \<in> set rows" "\<not> isl r" for r
    using at [rule_format, of "Suc 0"] that by (auto simp: kinds Let_def filter_empty_conv)
  have "map ((!) h') (map addr rows) = map (\<lambda>r. if isl r then bound sql1 (last (filter isl rows)) else bound sql2 (last (filter (\<lambda>r. \<not> isl r) rows))) rows"
    using h0 h1 by (auto simp: addr)
  then show ?thesis
    using run by (simp add: two_statements_def prepare_two_def db_prepare_def addr_def [symmetric] del: db_bind.simps)
qed

lemma each_all: "each_statements d sql rows = map (bound sql) rows"
proof (cases d)
  case Sqlite
  then show ?thesis using d1.prepare_each_bound [of sql rows "[]"] by (auto simp: each_statements_def split: prod.split)
next
  case Postgres
  then show ?thesis using pg.prepare_each_bound [of sql rows "[]"] by (auto simp: each_statements_def split: prod.split)
qed

text \<open>
  C21: A store that prepares a statement for every row has every row of its batch run, in order, on both databases.  One that prepares a
  single statement and binds it to each row has so on D1 only: the Postgres adapter binds the statement itself, so its batch runs the
  last row as often as there are rows, and none of the others.
\<close>

theorem batch_statements:
  "each_statements d sql rows = map (bound sql) rows \<and> once_statements Sqlite sql rows = map (bound sql) rows \<and>
   once_statements Postgres sql rows = replicate (length rows) (bound sql (last rows))"
  by (simp add: each_all once_sqlite once_postgres)

text \<open>A batch is all or nothing, and reports one count per statement.\<close>

lemma batch_atomic:
  "db_batch exec h as db = (Inl e, db') \<Longrightarrow> db' = db"
  "db_batch exec h as db = (Inr ns, db') \<Longrightarrow> length ns = length as"
proof -
  show "db_batch exec h as db = (Inl e, db') \<Longrightarrow> db' = db" by (simp add: db_batch_def split: sum.splits prod.splits)
  have "run_batch exec ss db = Inr (ns, db') \<Longrightarrow> length ns = length ss" for ss
    by (induction ss arbitrary: db ns) (auto simp: res_bind_eq_Inr)
  then show "db_batch exec h as db = (Inr ns, db') \<Longrightarrow> length ns = length as"
    by (fastforce simp: db_batch_def split: sum.splits prod.splits)
qed

section \<open>Tables\<close>

type_synonym ('k, 'r) table = "'k \<Rightarrow> 'r option"

text \<open>\<^verbatim>\<open>INSERT OR IGNORE\<close> and, on Postgres, \<^verbatim>\<open>ON CONFLICT DO NOTHING\<close>; a statement without arguments is an error.\<close>

definition insert_or_ignore :: "('r \<Rightarrow> 'k) \<Rightarrow> ('q, 'r) sql_statement \<Rightarrow> ('k, 'r) table \<Rightarrow> string + (nat \<times> ('k, 'r) table)" where
  "insert_or_ignore key s tbl =
     (case stmt_bound s of None \<Rightarrow> Inl ''missing parameters''
      | Some r \<Rightarrow> Inr (if tbl (key r) = None then (1, tbl(key r \<mapsto> r)) else (0, tbl)))"

definition insert_row :: "('r \<Rightarrow> 'k) \<Rightarrow> ('q, 'r) sql_statement \<Rightarrow> ('k, 'r) table \<Rightarrow> string + (nat \<times> ('k, 'r) table)" where
  "insert_row key s tbl =
     (case stmt_bound s of None \<Rightarrow> Inl ''missing parameters''
      | Some r \<Rightarrow> if tbl (key r) = None then Inr (1, tbl(key r \<mapsto> r)) else Inl ''UNIQUE constraint failed'')"

text \<open>A batch of statements that are already bound, in one transaction; \<open>fault\<close> is an error of the engine.\<close>

definition commit ::
  "(('q, 'r) sql_statement \<Rightarrow> 'db \<Rightarrow> string + (nat \<times> 'db)) \<Rightarrow> string option \<Rightarrow> ('q, 'r) sql_statement list \<Rightarrow> 'db \<Rightarrow> (string + nat list) \<times> 'db" where
  "commit exec fault stmts db =
     (case fault of Some e \<Rightarrow> (Inl e, db)
      | None \<Rightarrow> (case run_batch exec stmts db of Inl e \<Rightarrow> (Inl e, db) | Inr (ns, db') \<Rightarrow> (Inr ns, db')))"

lemma commit_batch: "fst (db_batch exec h as db) = fst (commit exec None (map ((!) h) as) db)" "snd (db_batch exec h as db) = snd (commit exec None (map ((!) h) as) db)"
  by (simp_all add: db_batch_def commit_def)

section \<open>Contents of a table after a batch\<close>

text \<open>What a table holds once rows have been offered to it in order: the first row of each key, unless the key was taken.\<close>

definition absorbed :: "('r \<Rightarrow> 'k) \<Rightarrow> 'r list \<Rightarrow> ('k, 'r) table \<Rightarrow> ('k, 'r) table" where
  "absorbed key rows tbl k = (case tbl k of Some r \<Rightarrow> Some r | None \<Rightarrow> find (\<lambda>r. key r = k) rows)"

lemma absorbed_Nil: "absorbed key [] tbl = tbl"
  by (auto simp: absorbed_def fun_eq_iff split: option.split)

lemma absorbed_Cons: "absorbed key (r # rows) tbl = absorbed key rows (if tbl (key r) = None then tbl(key r \<mapsto> r) else tbl)"
  by (auto simp: absorbed_def fun_eq_iff split: option.split)

lemma absorbed_distinct: "distinct (map key rows) \<Longrightarrow> r \<in> set rows \<Longrightarrow> tbl (key r) = None \<Longrightarrow> absorbed key rows tbl (key r) = Some r"
  by (induction rows) (auto simp: absorbed_def image_iff)

lemma absorbed_repeat: "n \<noteq> 0 \<Longrightarrow> absorbed key (replicate n r) tbl = absorbed key [r] tbl"
  by (cases n) (auto simp: absorbed_def fun_eq_iff find_None_iff split: option.split)

lemma insert_bound:
  "insert_or_ignore key (bound sql r) tbl = Inr (if tbl (key r) = None then 1 else 0, if tbl (key r) = None then tbl(key r \<mapsto> r) else tbl)"
  "insert_row key (bound sql r) tbl = (if tbl (key r) = None then Inr (1, tbl(key r \<mapsto> r)) else Inl ''UNIQUE constraint failed'')"
  by (simp_all add: insert_or_ignore_def insert_row_def)

lemma run_ignore: "\<exists>ns. run_batch (insert_or_ignore key) (map (bound sql) rows) tbl = Inr (ns, absorbed key rows tbl)"
proof (induction rows arbitrary: tbl)
  case (Cons r rows)
  obtain ns where "run_batch (insert_or_ignore key) (map (bound sql) rows) (if tbl (key r) = None then tbl(key r \<mapsto> r) else tbl) =
      Inr (ns, absorbed key (r # rows) tbl)"
    using Cons.IH by (metis absorbed_Cons)
  then show ?case by (auto simp: insert_bound)
qed (simp add: absorbed_Nil)

lemma commit_ignore:
  "\<exists>ns. commit (insert_or_ignore key) None (each_statements d sql rows) tbl = (Inr ns, absorbed key rows tbl)"
  "\<exists>ns. commit (insert_or_ignore key) None (once_statements d sql rows) tbl =
     (Inr ns, absorbed key (if d = Sqlite then rows else replicate (length rows) (last rows)) tbl)"
proof -
  show "\<exists>ns. commit (insert_or_ignore key) None (each_statements d sql rows) tbl = (Inr ns, absorbed key rows tbl)"
    using run_ignore [of key sql rows tbl] by (auto simp: commit_def each_all)
  show "\<exists>ns. commit (insert_or_ignore key) None (once_statements d sql rows) tbl =
      (Inr ns, absorbed key (if d = Sqlite then rows else replicate (length rows) (last rows)) tbl)"
    using run_ignore [of key sql rows tbl] run_ignore [of key sql "replicate (length rows) (last rows)" tbl]
    by (cases d) (auto simp: commit_def once_sqlite once_postgres map_replicate)
qed

lemma run_rows:
  assumes "distinct (map key rows)" and "\<forall>r \<in> set rows. tbl (key r) = None"
  shows "\<exists>ns. run_batch (insert_row key) (map (bound sql) rows) tbl = Inr (ns, absorbed key rows tbl)"
  using assms
proof (induction rows arbitrary: tbl)
  case (Cons r rows)
  have "\<forall>r' \<in> set rows. (tbl(key r \<mapsto> r)) (key r') = None" using Cons.prems by (fastforce simp: image_iff)
  then obtain ns where "run_batch (insert_row key) (map (bound sql) rows) (tbl(key r \<mapsto> r)) = Inr (ns, absorbed key rows (tbl(key r \<mapsto> r)))"
    using Cons.IH [of "tbl(key r \<mapsto> r)"] Cons.prems(1) by (metis distinct.simps(2) list.simps(9))
  then show ?case using Cons.prems by (simp add: insert_bound absorbed_Cons)
qed (simp add: absorbed_Nil)

text \<open>\<^verbatim>\<open>INSERT ... ON CONFLICT(key) DO UPDATE SET\<close> of every other column.\<close>

definition upsert_row :: "('r \<Rightarrow> 'k) \<Rightarrow> ('q, 'r) sql_statement \<Rightarrow> ('k, 'r) table \<Rightarrow> string + (nat \<times> ('k, 'r) table)" where
  "upsert_row key s tbl =
     (case stmt_bound s of None \<Rightarrow> Inl ''missing parameters'' | Some r \<Rightarrow> Inr (1, tbl(key r \<mapsto> r)))"

definition upserted :: "('r \<Rightarrow> 'k) \<Rightarrow> 'r list \<Rightarrow> ('k, 'r) table \<Rightarrow> ('k, 'r) table" where
  "upserted key rows tbl = foldl (\<lambda>t r. t(key r \<mapsto> r)) tbl rows"

lemma upsert_bound: "upsert_row key (bound sql r) tbl = Inr (1, tbl(key r \<mapsto> r))"
  by (simp add: upsert_row_def)

lemma upserted_simps: "upserted key [] tbl = tbl" "upserted key (r # rows) tbl = upserted key rows (tbl(key r \<mapsto> r))"
  by (simp_all add: upserted_def)

lemma run_upsert: "\<exists>ns. run_batch (upsert_row key) (map (bound sql) rows) tbl = Inr (ns, upserted key rows tbl)"
proof (induction rows arbitrary: tbl)
  case (Cons r rows)
  obtain ns where "run_batch (upsert_row key) (map (bound sql) rows) (tbl(key r \<mapsto> r)) = Inr (ns, upserted key rows (tbl(key r \<mapsto> r)))"
    using Cons.IH by blast
  then show ?case by (auto simp: upserted_simps upsert_bound)
qed (simp add: upserted_simps)

lemma upserted_other: "k \<notin> key ` set rows \<Longrightarrow> upserted key rows tbl k = tbl k"
  unfolding upserted_def by (induction rows arbitrary: tbl) auto

lemma upserted_distinct: "distinct (map key rows) \<Longrightarrow> r \<in> set rows \<Longrightarrow> upserted key rows tbl (key r) = Some r"
proof (induction rows arbitrary: tbl)
  case (Cons a rows)
  show ?case
  proof (cases "r = a")
    case True
    then show ?thesis using Cons.prems(1) upserted_other [of "key a" key rows "tbl(key a \<mapsto> a)"] by (simp add: upserted_def)
  next
    case False
    then show ?thesis using Cons.IH Cons.prems by (simp add: upserted_simps)
  qed
qed simp

lemma upserted_repeat: "n \<noteq> 0 \<Longrightarrow> upserted key (replicate n r) tbl = tbl(key r \<mapsto> r)"
proof (induction n arbitrary: tbl)
  case (Suc n)
  then show ?case by (cases n) (simp_all add: upserted_simps)
qed simp

lemma commit_upsert:
  "\<exists>ns. commit (upsert_row key) None (once_statements d sql rows) tbl =
     (Inr ns, upserted key (if d = Sqlite then rows else replicate (length rows) (last rows)) tbl)"
  using run_upsert [of key sql rows tbl] run_upsert [of key sql "replicate (length rows) (last rows)" tbl]
  by (cases d) (auto simp: commit_def once_sqlite once_postgres map_replicate)

section \<open>Placeholders\<close>

fun rewrite_from :: "bool \<Rightarrow> nat \<Rightarrow> string \<Rightarrow> string" where
  "rewrite_from inString n [] = []"
| "rewrite_from inString n (ch # cs) =
     (if ch = CHR 0x27 then ch # rewrite_from (\<not> inString) n cs
      else if ch = CHR ''?'' \<and> \<not> inString then ''$'' @ decimal (n + 1) @ rewrite_from inString (n + 1) cs
      else ch # rewrite_from inString n cs)"

definition rewriteQuestionMarks :: "string \<Rightarrow> string" where
  "rewriteQuestionMarks sql = rewrite_from False 0 sql"

text \<open>SQL text as the pieces its author wrote: text without quotes and placeholders, string literals, placeholders.\<close>

datatype sql_piece = Plain string | Literal string | Hole

fun piece_ok :: "sql_piece \<Rightarrow> bool" where
  "piece_ok (Plain s) = (CHR 0x27 \<notin> set s \<and> CHR ''?'' \<notin> set s)"
| "piece_ok (Literal s) = (CHR 0x27 \<notin> set s)"
| "piece_ok Hole = True"

fun piece_source :: "sql_piece \<Rightarrow> string" where
  "piece_source (Plain s) = s"
| "piece_source (Literal s) = [CHR 0x27] @ s @ [CHR 0x27]"
| "piece_source Hole = ''?''"

fun numbered :: "nat \<Rightarrow> sql_piece list \<Rightarrow> string" where
  "numbered n [] = []"
| "numbered n (Hole # ps) = ''$'' @ decimal n @ numbered (n + 1) ps"
| "numbered n (p # ps) = piece_source p @ numbered n ps"

lemma rewrite_plain: "CHR 0x27 \<notin> set s \<Longrightarrow> CHR ''?'' \<notin> set s \<Longrightarrow> rewrite_from b n (s @ r) = s @ rewrite_from b n r"
  by (induction s) auto

lemma rewrite_literal: "CHR 0x27 \<notin> set s \<Longrightarrow> rewrite_from True n (s @ r) = s @ rewrite_from True n r"
  by (induction s) auto

text \<open>The rewriting of placeholders for Postgres numbers the placeholders from 1 in order, and copies everything else, a question mark
  inside a string literal included.
\<close>

theorem placeholders_numbered:
  assumes "list_all piece_ok ps"
  shows "rewriteQuestionMarks (concat (map piece_source ps)) = numbered 1 ps"
proof -
  have "rewrite_from False n (concat (map piece_source ps)) = numbered (n + 1) ps" for n
    using assms
  proof (induction ps arbitrary: n)
    case (Cons p ps)
    then show ?case by (cases p) (simp_all add: rewrite_plain rewrite_literal)
  qed simp
  then show ?thesis by (simp add: rewriteQuestionMarks_def)
qed

theorem placeholders_numbered_witness:
  "rewriteQuestionMarks ([CHR ''a'', CHR ''='', CHR ''?'', CHR '','', CHR 0x27, CHR ''?'', CHR 0x27, CHR ''?'']) =
     [CHR ''a'', CHR ''='', CHR ''$'', CHR ''1'', CHR '','', CHR 0x27, CHR ''?'', CHR 0x27, CHR ''$'', CHR ''2'']"
proof -
  have "decimal 1 = ''1''" "decimal 2 = ''2''" by code_simp+
  then show ?thesis
    using placeholders_numbered [of "[Plain ''a='', Hole, Plain '','', Literal ''?'', Hole]"] by (simp add: numeral_2_eq_2)
qed

end
