(* ===== verification/Metrics_Store.thy ===== *)
theory Metrics_Store
  imports Sql_Db Otlp_Metrics Collector_Runtime
begin

text \<open>
  The writing half of \<^verbatim>\<open>packages/obs-collector/src/lib/metrics-store.ts\<close>: the series of a batch are looked up and the missing ones
  inserted, then the points and their exemplars.  Random ids are a parameter, the \<open>n\<close>-th call giving \<open>uuid n\<close>; the series table is
  the map its unique index \<^verbatim>\<open>(project_id, identity)\<close> makes it (\<^verbatim>\<open>migrations/015_metrics.sql\<close>).  Shown: on D1 every point of a batch
  is stored and linked to the one series of its identity, known series keep their ids, and every exemplar names a stored point; on
  Postgres a batch of two points or more is never stored.
\<close>

section \<open>Rows\<close>

record series_row =
  ms_id :: string
  ms_projectId :: string
  ms_name :: string
  ms_description :: "string option"
  ms_unit :: "string option"
  ms_type :: metric_type
  ms_isMonotonic :: "nat option"
  ms_temporality :: "int option"
  ms_scopeName :: "string option"
  ms_scopeVersion :: "string option"
  ms_serviceName :: "string option"
  ms_resourceAttrsJson :: "string option"
  ms_attributesJson :: "string option"
  ms_identity :: string
  ms_createdAt :: string

record point_row =
  pt_id :: string
  pt_seriesId :: string
  pt_projectId :: string
  pt_tsNs :: string
  pt_startTsNs :: "string option"
  pt_value :: "js_number option"
  pt_count :: "js_number option"
  pt_sum :: "js_number option"
  pt_min :: "js_number option"
  pt_max :: "js_number option"
  pt_boundsJson :: "string option"
  pt_bucketCountsJson :: "string option"
  pt_extraJson :: "string option"
  pt_exemplarsJson :: "string option"
  pt_receivedAt :: string
  pt_expiresAt :: string

record exemplar_row =
  ex_id :: string
  ex_pointId :: string
  ex_seriesId :: string
  ex_projectId :: string
  ex_metricName :: string
  ex_serviceName :: "string option"
  ex_traceId :: "string option"
  ex_spanId :: "string option"
  ex_tsNs :: string
  ex_value :: js_number
  ex_receivedAt :: string
  ex_expiresAt :: string

record metric_tables =
  mt_series :: "(string \<times> string, series_row) table"
  mt_points :: "(string, point_row) table"
  mt_exemplars :: "(string, exemplar_row) table"

section \<open>Exemplars\<close>

record stored_exemplar =
  se_value :: js_number
  se_traceId :: "string option"
  se_spanId :: "string option"
  se_tsNs :: string

definition nullable_text :: "json option \<Rightarrow> string option option" where
  "nullable_text v = (case v of Some JNull \<Rightarrow> Some None | Some (JStr s) \<Rightarrow> Some (Some s) | _ \<Rightarrow> None)"

definition stored_exemplar_of :: "json \<Rightarrow> stored_exemplar option" where
  "stored_exemplar_of exemplar =
     (case (member_of exemplar ''value'', member_of exemplar ''tsNs'', nullable_text (member_of exemplar ''traceId''), nullable_text (member_of exemplar ''spanId'')) of
        (Some (JNum x), Some (JStr ts), Some t, Some s) \<Rightarrow>
          if isFinite x then Some \<lparr>se_value = x, se_traceId = t, se_spanId = s, se_tsNs = ts\<rparr> else None
      | _ \<Rightarrow> None)"

definition parseExemplars :: "string option \<Rightarrow> stored_exemplar list" where
  "parseExemplars raw =
     (case nonempty_text raw of None \<Rightarrow> []
      | Some s \<Rightarrow> (case JSON_parse s of Some (JArr xs) \<Rightarrow> List.map_filter stored_exemplar_of xs | _ \<Rightarrow> []))"

section \<open>Series\<close>

definition series_row_of :: "string \<Rightarrow> string \<Rightarrow> string \<Rightarrow> metric_point \<Rightarrow> series_row" where
  "series_row_of i projectId createdAt p =
     \<lparr>ms_id = i, ms_projectId = projectId, ms_name = mp_name p, ms_description = mp_description p, ms_unit = mp_unit p,
      ms_type = mp_type p, ms_isMonotonic = map_option (\<lambda>b. if b then 1 else 0) (mp_isMonotonic p),
      ms_temporality = mp_temporality p, ms_scopeName = mp_scopeName p, ms_scopeVersion = mp_scopeVersion p,
      ms_serviceName = mp_serviceName p, ms_resourceAttrsJson = mp_resourceAttrsJson p, ms_attributesJson = mp_attributesJson p,
      ms_identity = mp_identity p, ms_createdAt = createdAt\<rparr>"

definition by_identity :: "metric_point list \<Rightarrow> (string, metric_point) js_map" where
  "by_identity points =
     foldl (\<lambda>m p. if map_get m (mp_identity p) = None then map_set m (mp_identity p) p else m) [] points"

text \<open>The rows of one query, for at most 50 identities.\<close>

definition select_series :: "(string \<times> string, series_row) table \<Rightarrow> string \<Rightarrow> string list \<Rightarrow> (string \<times> string) list" where
  "select_series tbl projectId chunk = List.map_filter (\<lambda>i. map_option (\<lambda>r. (i, ms_id r)) (tbl (projectId, i))) chunk"

function existing_series ::
  "(string \<times> string, series_row) table \<Rightarrow> string \<Rightarrow> string list \<Rightarrow> (string, string) js_map \<Rightarrow> (string, string) js_map" where
  "existing_series tbl projectId identities existing =
     (if identities = [] then existing
      else existing_series tbl projectId (drop 50 identities)
        (foldl (\<lambda>m (i, r). map_set m i r) existing (select_series tbl projectId (take 50 identities))))"
  by pat_completeness auto
termination by (relation "measure (\<lambda>(_, _, identities, _). length identities)") auto

text \<open>The missing series: the map from identity to id, the rows to insert and the number of ids drawn so far.\<close>

fun missing_series ::
  "(nat \<Rightarrow> string) \<Rightarrow> string \<Rightarrow> string \<Rightarrow> (string, metric_point) js_map \<Rightarrow> nat \<Rightarrow> (string, string) js_map \<Rightarrow>
   (string, string) js_map \<times> series_row list \<times> nat" where
  "missing_series uuid projectId createdAt [] n existing = (existing, [], n)"
| "missing_series uuid projectId createdAt ((identity, p) # ps) n existing =
     (if map_get existing identity \<noteq> None then missing_series uuid projectId createdAt ps n existing
      else let (ids, rows, n') = missing_series uuid projectId createdAt ps (n + 1) (map_set existing identity (uuid n))
           in (ids, series_row_of (uuid n) projectId createdAt p # rows, n'))"

definition series_key :: "series_row \<Rightarrow> string \<times> string" where
  "series_key r = (ms_projectId r, ms_identity r)"

definition resolveSeries ::
  "dialect \<Rightarrow> string option \<Rightarrow> (nat \<Rightarrow> string) \<Rightarrow> int \<Rightarrow> string \<Rightarrow> metric_point list \<Rightarrow> (string \<times> string, series_row) table \<Rightarrow>
   (string + (string, string) js_map \<times> nat) \<times> (string \<times> string, series_row) table" where
  "resolveSeries d fault uuid now projectId points tbl =
     (let byIdentity = by_identity points;
          existing = existing_series tbl projectId (map fst byIdentity) [];
          (ids, toInsert, n) = missing_series uuid projectId (toISOString now) byIdentity 0 existing
      in if toInsert = [] then (Inr (ids, n), tbl)
         else case commit (insert_row series_key) fault (once_statements d ''metric_series'' toInsert) tbl of
             (Inl e, tbl') \<Rightarrow> (Inl e, tbl')
           | (Inr ns, tbl') \<Rightarrow> (Inr (ids, n), tbl'))"

section \<open>Points\<close>

definition point_row_of :: "string \<Rightarrow> string \<Rightarrow> string \<Rightarrow> string \<Rightarrow> string \<Rightarrow> metric_point \<Rightarrow> point_row" where
  "point_row_of i seriesId projectId receivedAt expiresAt p =
     \<lparr>pt_id = i, pt_seriesId = seriesId, pt_projectId = projectId, pt_tsNs = mp_tsNs p, pt_startTsNs = mp_startTsNs p,
      pt_value = mp_value p, pt_count = mp_count p, pt_sum = mp_sum p, pt_min = mp_min p, pt_max = mp_max p,
      pt_boundsJson = mp_boundsJson p, pt_bucketCountsJson = mp_bucketCountsJson p, pt_extraJson = mp_extraJson p,
      pt_exemplarsJson = mp_exemplarsJson p, pt_receivedAt = receivedAt, pt_expiresAt = expiresAt\<rparr>"

definition exemplar_row_of :: "string \<Rightarrow> point_row \<Rightarrow> metric_point \<Rightarrow> stored_exemplar \<Rightarrow> exemplar_row" where
  "exemplar_row_of i pt p e =
     \<lparr>ex_id = i, ex_pointId = pt_id pt, ex_seriesId = pt_seriesId pt, ex_projectId = pt_projectId pt, ex_metricName = mp_name p,
      ex_serviceName = mp_serviceName p, ex_traceId = se_traceId e, ex_spanId = se_spanId e, ex_tsNs = se_tsNs e, ex_value = se_value e,
      ex_receivedAt = pt_receivedAt pt, ex_expiresAt = pt_expiresAt pt\<rparr>"

fun exemplar_items ::
  "(nat \<Rightarrow> string) \<Rightarrow> nat \<Rightarrow> point_row \<Rightarrow> metric_point \<Rightarrow> stored_exemplar list \<Rightarrow> (point_row + exemplar_row) list \<times> nat" where
  "exemplar_items uuid n pt p [] = ([], n)"
| "exemplar_items uuid n pt p (e # es) =
     (if nonempty_text (se_traceId e) = None \<and> nonempty_text (se_spanId e) = None then exemplar_items uuid n pt p es
      else let (items, n') = exemplar_items uuid (n + 1) pt p es in (Inr (exemplar_row_of (uuid n) pt p e) # items, n'))"

fun point_items ::
  "(nat \<Rightarrow> string) \<Rightarrow> string \<Rightarrow> string \<Rightarrow> string \<Rightarrow> (string, string) js_map \<Rightarrow> nat \<Rightarrow> metric_point list \<Rightarrow> string + (point_row + exemplar_row) list" where
  "point_items uuid projectId receivedAt expiresAt series n [] = Inr []"
| "point_items uuid projectId receivedAt expiresAt series n (p # ps) =
     (case map_get series (mp_identity p) of
        None \<Rightarrow> Inl (''series not resolved: '' @ mp_identity p)
      | Some seriesId \<Rightarrow>
          (let pt = point_row_of (uuid n) seriesId projectId receivedAt expiresAt p;
               (exs, n') = exemplar_items uuid (n + 1) pt p (parseExemplars (mp_exemplarsJson p))
           in res_bind (point_items uuid projectId receivedAt expiresAt series n' ps) (\<lambda>items. Inr (Inl pt # exs @ items))))"

definition insert_metric :: "(string, point_row + exemplar_row) sql_statement \<Rightarrow> metric_tables \<Rightarrow> string + (nat \<times> metric_tables)" where
  "insert_metric s t =
     (case stmt_bound s of None \<Rightarrow> Inl ''missing parameters''
      | Some (Inl p) \<Rightarrow> res_bind (insert_row pt_id (bound (stmt_sql s) p) (mt_points t)) (\<lambda>(n, pts). Inr (n, t\<lparr>mt_points := pts\<rparr>))
      | Some (Inr e) \<Rightarrow> res_bind (insert_row ex_id (bound (stmt_sql s) e) (mt_exemplars t)) (\<lambda>(n, exs). Inr (n, t\<lparr>mt_exemplars := exs\<rparr>)))"

text \<open>Both batches may fail on their own: \<open>fault1\<close> is an error of the first, \<open>fault2\<close> of the second.\<close>

definition metrics_ingestBatch ::
  "dialect \<Rightarrow> string option \<Rightarrow> string option \<Rightarrow> (nat \<Rightarrow> string) \<Rightarrow> int \<Rightarrow> string \<Rightarrow> metric_point list \<Rightarrow> string \<Rightarrow> string \<Rightarrow>
   metric_tables \<Rightarrow> (string + unit) \<times> metric_tables" where
  "metrics_ingestBatch d fault1 fault2 uuid now projectId points receivedAt expiresAt t =
     (if points = [] then (Inr (), t)
      else case resolveSeries d fault1 uuid now projectId points (mt_series t) of
          (Inl e, series) \<Rightarrow> (Inl e, t\<lparr>mt_series := series\<rparr>)
        | (Inr (ids, n), series) \<Rightarrow>
            (let t' = t\<lparr>mt_series := series\<rparr> in
             case point_items uuid projectId receivedAt expiresAt ids n points of
               Inl e \<Rightarrow> (Inl e, t')
             | Inr items \<Rightarrow>
                 (case commit insert_metric fault2 (two_statements d ''metric_point'' ''metric_exemplars'' items) t' of
                    (Inl e, t'') \<Rightarrow> (Inl e, t'') | (Inr ns, t'') \<Rightarrow> (Inr (), t''))))"

section \<open>Series are resolved\<close>

declare existing_series.simps [simp del]

lemma by_identity_step:
  defines "step \<equiv> \<lambda>m p. if map_get m (mp_identity p) = None then map_set m (mp_identity p) p else m"
  assumes "map_wf m" and "\<forall>(i, p) \<in> set m. mp_identity p = i"
  shows "map_wf (foldl step m points) \<and> (\<forall>(i, p) \<in> set (foldl step m points). mp_identity p = i) \<and>
    fst ` set (foldl step m points) = fst ` set m \<union> mp_identity ` set points"
  using assms(2, 3)
proof (induction points arbitrary: m)
  case (Cons p points)
  have "map_wf (step m p)" "\<forall>(i, p) \<in> set (step m p). mp_identity p = i"
    using Cons.prems set_map_set [of m "mp_identity p" p] by (auto simp: step_def map_wf_set)
  moreover have "fst ` set (step m p) = insert (mp_identity p) (fst ` set m)"
    by (auto simp: step_def set_map_set_keys map_get_def map_of_eq_None_iff)
  ultimately show ?case using Cons.IH [of "step m p"] by simp
qed simp

lemma by_identity_keys:
  "map_wf (by_identity points)" "\<forall>(i, p) \<in> set (by_identity points). mp_identity p = i" "fst ` set (by_identity points) = mp_identity ` set points"
  using by_identity_step [of "[]" points] by (simp_all add: by_identity_def map_wf_def)

lemma get_selected:
  "map_get (foldl (\<lambda>m (i, r). map_set m i r) m (select_series tbl pid chunk)) i =
     (if i \<in> set chunk \<and> tbl (pid, i) \<noteq> None then map_option ms_id (tbl (pid, i)) else map_get m i)"
proof (induction chunk arbitrary: m)
  case (Cons j chunk)
  show ?case
  proof (cases "tbl (pid, j)")
    case None
    then show ?thesis using Cons.IH [of m] by (auto simp: select_series_def List.map_filter_simps)
  next
    case (Some r)
    then show ?thesis using Cons.IH [of "map_set m j (ms_id r)"] by (auto simp: select_series_def List.map_filter_simps map_get_set)
  qed
qed (simp add: select_series_def List.map_filter_simps)

lemma get_existing:
  "map_get (existing_series tbl pid ids m) i =
     (if i \<in> set ids \<and> tbl (pid, i) \<noteq> None then map_option ms_id (tbl (pid, i)) else map_get m i)"
proof (induction tbl pid ids m rule: existing_series.induct)
  case (1 tbl pid ids m)
  show ?case
  proof (cases "ids = []")
    case False
    have "set ids = set (take 50 ids) \<union> set (drop 50 ids)" by (metis append_take_drop_id set_append)
    then show ?thesis using 1 [OF False] False by (auto simp: existing_series.simps [of tbl pid ids] get_selected)
  qed (simp add: existing_series.simps)
qed

lemma series_row_simps:
  "series_key (series_row_of i pid now p) = (pid, mp_identity p)" "ms_id (series_row_of i pid now p) = i" "ms_identity (series_row_of i pid now p) = mp_identity p"
  by (simp_all add: series_row_of_def series_key_def)

lemma missing_ids:
  assumes "missing_series uuid pid now ps n ex = (ids, rows, n')" and "map_wf ps" and "\<forall>(i, p) \<in> set ps. mp_identity p = i"
  shows "(\<forall>i s. map_get ex i = Some s \<longrightarrow> map_get ids i = Some s) \<and> (\<forall>i \<in> fst ` set ps. map_get ids i \<noteq> None) \<and>
    (\<forall>i. map_get ids i \<noteq> None \<longrightarrow> map_get ex i \<noteq> None \<or> i \<in> fst ` set ps) \<and>
    map series_key rows = map (Pair pid) (filter (\<lambda>i. map_get ex i = None) (map fst ps)) \<and>
    (\<forall>r \<in> set rows. map_get ids (ms_identity r) = Some (ms_id r))"
  using assms
proof (induction uuid pid now ps n ex arbitrary: rows rule: missing_series.induct)
  case (2 uuid pid now i p ps n ex)
  have wf: "map_wf ps" "i \<notin> fst ` set ps" "mp_identity p = i" "\<forall>(i, p) \<in> set ps. mp_identity p = i"
    using "2.prems"(2, 3) by (auto simp: map_wf_def)
  show ?case
  proof (cases "map_get ex i = None")
    case True
    obtain rows' where rec: "missing_series uuid pid now ps (n + 1) (map_set ex i (uuid n)) = (ids, rows', n')"
      and rows: "rows = series_row_of (uuid n) pid now p # rows'"
      using "2.prems"(1) True by (auto split: prod.splits)
    have IH: "(\<forall>j s. map_get (map_set ex i (uuid n)) j = Some s \<longrightarrow> map_get ids j = Some s) \<and> (\<forall>j \<in> fst ` set ps. map_get ids j \<noteq> None) \<and>
      (\<forall>j. map_get ids j \<noteq> None \<longrightarrow> map_get (map_set ex i (uuid n)) j \<noteq> None \<or> j \<in> fst ` set ps) \<and>
      map series_key rows' = map (Pair pid) (filter (\<lambda>j. map_get (map_set ex i (uuid n)) j = None) (map fst ps)) \<and>
      (\<forall>r \<in> set rows'. map_get ids (ms_identity r) = Some (ms_id r))"
      using "2.IH"(2) [OF _ rec wf(1, 4)] True by simp
    have "filter (\<lambda>j. map_get (map_set ex i (uuid n)) j = None) (map fst ps) = filter (\<lambda>j. map_get ex j = None) (map fst ps)"
      using wf(2) by (intro filter_cong) (auto simp: map_get_set)
    then have keys: "map series_key rows' = map (Pair pid) (filter (\<lambda>j. map_get ex j = None) (map fst ps))" using IH by simp
    have kept: "map_get ids j = Some t" if "map_get ex j = Some t" for j t
      using IH that True by (metis map_get_set option.distinct(1))
    have "map_get ids i = Some (uuid n)" using IH by (simp add: map_get_set)
    then show ?thesis using IH True wf(3) kept by (auto simp: rows map_get_set series_row_simps keys split: if_splits)
  next
    case False
    then show ?thesis using "2.IH"(1) [of rows] "2.prems"(1) wf by (auto split: if_splits)
  qed
qed simp

text \<open>On D1 every identity of a batch has one series afterwards, and a series that was known keeps its row.\<close>

lemma series_resolved:
  assumes "resolveSeries Sqlite None uuid now pid points tbl = (res, tbl')"
  shows "\<exists>ids n. res = Inr (ids, n) \<and> (\<forall>k r. tbl k = Some r \<longrightarrow> tbl' k = Some r) \<and>
    (\<forall>p \<in> set points. \<exists>r. tbl' (pid, mp_identity p) = Some r \<and> map_get ids (mp_identity p) = Some (ms_id r))"
proof -
  define ps where "ps = by_identity points"
  define ex where "ex = existing_series tbl pid (map fst ps) []"
  obtain ids rows n where m: "missing_series uuid pid (toISOString now) ps 0 ex = (ids, rows, n)"
    by (cases "missing_series uuid pid (toISOString now) ps 0 ex")
  note wf = by_identity_keys [of points, folded ps_def]
  have ex: "map_get ex i = (if i \<in> fst ` set ps then map_option ms_id (tbl (pid, i)) else None)" for i
    using get_existing [of tbl pid "map fst ps" "[]" i] by (simp add: ex_def map_get_def [of "[]"])
  note ok = missing_ids [OF m wf(1, 2)]
  have keys: "map series_key rows = map (Pair pid) (filter (\<lambda>i. map_get ex i = None) (map fst ps))" using ok by blast
  have dist: "distinct (map series_key rows)"
    unfolding keys using wf(1) by (auto simp: distinct_map map_wf_def inj_on_def)
  have free: "tbl (series_key r) = None" if "r \<in> set rows" for r
  proof -
    have "series_key r \<in> set (map series_key rows)" using that by simp
    then show ?thesis unfolding keys using ex by (force split: if_splits)
  qed
  have res: "res = Inr (ids, n) \<and> tbl' = absorbed series_key rows tbl"
    using assms run_rows [OF dist, of tbl "''metric_series''"] free
    by (auto simp: resolveSeries_def Let_def ps_def [symmetric] ex_def [symmetric] m commit_def once_sqlite absorbed_Nil split: if_splits)
  have "\<exists>r. tbl' (pid, mp_identity p) = Some r \<and> map_get ids (mp_identity p) = Some (ms_id r)" if p: "p \<in> set points" for p
  proof (cases "tbl (pid, mp_identity p)")
    case (Some r)
    have "map_get ex (mp_identity p) = Some (ms_id r)" using ex p wf(3) Some by auto
    then show ?thesis using ok Some res by (auto simp: absorbed_def)
  next
    case None
    then have "(pid, mp_identity p) \<in> set (map series_key rows)" unfolding keys using ex p wf(3) by force
    then obtain r where r: "r \<in> set rows" "series_key r = (pid, mp_identity p)" by auto
    have "absorbed series_key rows tbl (series_key r) = Some r" using dist r(1) free [OF r(1)] by (rule absorbed_distinct)
    moreover have "map_get ids (ms_identity r) = Some (ms_id r)" using ok r(1) by blast
    ultimately show ?thesis using r(2) res by (auto simp: series_key_def)
  qed
  then show ?thesis using res by (auto simp: absorbed_def)
qed

section \<open>Points are stored and linked\<close>

fun item_id :: "point_row + exemplar_row \<Rightarrow> string" where
  "item_id (Inl p) = pt_id p"
| "item_id (Inr e) = ex_id e"

fun point_part :: "(point_row + exemplar_row) list \<Rightarrow> point_row list" where
  "point_part [] = []"
| "point_part (Inl p # xs) = p # point_part xs"
| "point_part (Inr e # xs) = point_part xs"

fun exemplar_part :: "(point_row + exemplar_row) list \<Rightarrow> exemplar_row list" where
  "exemplar_part [] = []"
| "exemplar_part (Inl p # xs) = exemplar_part xs"
| "exemplar_part (Inr e # xs) = e # exemplar_part xs"

lemma parts_append: "point_part (xs @ ys) = point_part xs @ point_part ys" "exemplar_part (xs @ ys) = exemplar_part xs @ exemplar_part ys"
  by (induction xs rule: point_part.induct) simp_all

lemma parts_set: "set (point_part xs) = {p. Inl p \<in> set xs}" "set (exemplar_part xs) = {e. Inr e \<in> set xs}"
  by (induction xs rule: point_part.induct) auto

lemma parts_distinct: "distinct (map item_id xs) \<Longrightarrow> distinct (map pt_id (point_part xs)) \<and> distinct (map ex_id (exemplar_part xs))"
  by (induction xs rule: point_part.induct) (force simp: parts_set)+

lemma exemplar_items_ok:
  "exemplar_items uuid n pt p es = (items, n') \<Longrightarrow> inj uuid \<Longrightarrow>
     n \<le> n' \<and> point_part items = [] \<and> distinct (map item_id items) \<and> item_id ` set items \<subseteq> uuid ` {n..<n'} \<and>
     (\<forall>e \<in> set (exemplar_part items). ex_pointId e = pt_id pt \<and> ex_seriesId e = pt_seriesId pt)"
proof (induction uuid n pt p es arbitrary: items rule: exemplar_items.induct)
  case (2 uuid n pt p e es)
  show ?case
  proof (cases "nonempty_text (se_traceId e) = None \<and> nonempty_text (se_spanId e) = None")
    case False
    obtain items' where rec: "exemplar_items uuid (n + 1) pt p es = (items', n')" and items: "items = Inr (exemplar_row_of (uuid n) pt p e) # items'"
      using "2.prems"(1) False by (auto split: prod.splits)
    have IH: "n + 1 \<le> n'" "point_part items' = []" "distinct (map item_id items')" "item_id ` set items' \<subseteq> uuid ` {n + 1..<n'}"
      "\<forall>e \<in> set (exemplar_part items'). ex_pointId e = pt_id pt \<and> ex_seriesId e = pt_seriesId pt"
      using "2.IH"(2) [OF False rec "2.prems"(2)] by blast+
    have "uuid n \<notin> uuid ` {n + 1..<n'}" using "2.prems"(2) by (auto dest: injD)
    moreover have "uuid n \<in> uuid ` {n..<n'}" "uuid ` {n + 1..<n'} \<subseteq> uuid ` {n..<n'}" using IH(1) by auto
    ultimately show ?thesis using IH by (auto simp: items exemplar_row_of_def)
  qed (use 2 in simp)
qed simp

definition same_point :: "metric_point \<Rightarrow> point_row \<Rightarrow> bool" where
  "same_point p r \<longleftrightarrow> (pt_tsNs r, pt_startTsNs r, pt_value r, pt_count r, pt_sum r, pt_min r, pt_max r, pt_boundsJson r, pt_bucketCountsJson r, pt_extraJson r, pt_exemplarsJson r) =
     (mp_tsNs p, mp_startTsNs p, mp_value p, mp_count p, mp_sum p, mp_min p, mp_max p, mp_boundsJson p, mp_bucketCountsJson p, mp_extraJson p, mp_exemplarsJson p)"

lemma point_items_ok:
  "\<forall>p \<in> set points. map_get ids (mp_identity p) \<noteq> None \<Longrightarrow> inj uuid \<Longrightarrow>
     \<exists>items. point_items uuid pid rat xat ids n points = Inr items \<and> distinct (map item_id items) \<and> item_id ` set items \<subseteq> uuid ` {n..} \<and>
       list_all2 (\<lambda>p r. same_point p r \<and> pt_projectId r = pid \<and> map_get ids (mp_identity p) = Some (pt_seriesId r)) points (point_part items) \<and>
       (\<forall>e \<in> set (exemplar_part items). \<exists>r \<in> set (point_part items). ex_pointId e = pt_id r \<and> ex_seriesId e = pt_seriesId r)"
proof (induction points arbitrary: n)
  case (Cons p points)
  obtain sid where sid: "map_get ids (mp_identity p) = Some sid" using Cons.prems(1) by auto
  define pt where "pt = point_row_of (uuid n) sid pid rat xat p"
  obtain exs n' where exs: "exemplar_items uuid (n + 1) pt p (parseExemplars (mp_exemplarsJson p)) = (exs, n')"
    by (cases "exemplar_items uuid (n + 1) pt p (parseExemplars (mp_exemplarsJson p))")
  note ex = exemplar_items_ok [OF exs Cons.prems(2)]
  obtain items where items: "point_items uuid pid rat xat ids n' points = Inr items" "distinct (map item_id items)" "item_id ` set items \<subseteq> uuid ` {n'..}"
    "list_all2 (\<lambda>p r. same_point p r \<and> pt_projectId r = pid \<and> map_get ids (mp_identity p) = Some (pt_seriesId r)) points (point_part items)"
    "\<forall>e \<in> set (exemplar_part items). \<exists>r \<in> set (point_part items). ex_pointId e = pt_id r \<and> ex_seriesId e = pt_seriesId r"
    using Cons.IH [of n'] Cons.prems by auto
  have run: "point_items uuid pid rat xat ids n (p # points) = Inr (Inl pt # exs @ items)"
    using sid exs items(1) by (simp add: pt_def Let_def)
  have disj: "uuid n \<notin> uuid ` {n + 1..<n'}" "uuid n \<notin> uuid ` {n'..}" "uuid ` {n + 1..<n'} \<inter> uuid ` {n'..} = {}"
    using Cons.prems(2) ex by (auto dest: injD)
  have sub: "uuid n \<in> uuid ` {n..}" "uuid ` {n + 1..<n'} \<subseteq> uuid ` {n..}" "uuid ` {n'..} \<subseteq> uuid ` {n..}" using ex by auto
  have id: "item_id (Inl pt) = uuid n" "same_point p pt" "pt_projectId pt = pid" "pt_seriesId pt = sid"
    by (simp_all add: pt_def point_row_of_def same_point_def)
  have e: "item_id ` set exs \<subseteq> uuid ` {n + 1..<n'}" using ex by blast
  have apart: "item_id ` set exs \<inter> item_id ` set items = {}" "uuid n \<notin> item_id ` set exs" "uuid n \<notin> item_id ` set items"
    using subset_empty [THEN iffD1, OF Int_mono [OF e items(3), unfolded disj(3)]] contra_subsetD [OF e disj(1)] contra_subsetD [OF items(3) disj(2)]
    by this+
  have "distinct (map item_id (Inl pt # exs @ items))"
    using apart ex items(2) id(1) by auto
  moreover have "item_id ` set (Inl pt # exs @ items) \<subseteq> uuid ` {n..}"
    using sub ex items(3) id(1) by auto
  ultimately show ?case using run ex items(4, 5) id sid by (auto simp: parts_append)
qed simp

lemma insert_metric_bound:
  "insert_metric (bound sql (Inl p)) t = (if mt_points t (pt_id p) = None then Inr (1, t\<lparr>mt_points := (mt_points t)(pt_id p \<mapsto> p)\<rparr>) else Inl ''UNIQUE constraint failed'')"
  "insert_metric (bound sql (Inr e)) t = (if mt_exemplars t (ex_id e) = None then Inr (1, t\<lparr>mt_exemplars := (mt_exemplars t)(ex_id e \<mapsto> e)\<rparr>) else Inl ''UNIQUE constraint failed'')"
  by (simp_all add: insert_metric_def insert_bound)

lemma run_metrics:
  assumes "distinct (map item_id items)"
    and "\<forall>x \<in> set items. mt_points t (item_id x) = None \<and> mt_exemplars t (item_id x) = None"
  shows "\<exists>ns. run_batch insert_metric (map (\<lambda>r. bound (sql r) r) items) t =
    Inr (ns, t\<lparr>mt_points := absorbed pt_id (point_part items) (mt_points t), mt_exemplars := absorbed ex_id (exemplar_part items) (mt_exemplars t)\<rparr>)"
  using assms
proof (induction items arbitrary: t)
  case (Cons x items)
  show ?case
  proof (cases x)
    case (Inl p)
    define t1 where "t1 = t\<lparr>mt_points := (mt_points t)(pt_id p \<mapsto> p)\<rparr>"
    have "\<forall>y \<in> set items. item_id y \<noteq> pt_id p" using Cons.prems(1) Inl by force
    then have "\<forall>x \<in> set items. mt_points t1 (item_id x) = None \<and> mt_exemplars t1 (item_id x) = None"
      using Cons.prems(2) by (simp add: t1_def)
    with Cons.IH [of t1] Cons.prems(1) show ?thesis
      using Cons.prems(2) Inl by (auto simp: insert_metric_bound absorbed_Cons t1_def [symmetric]) (auto simp: t1_def)
  next
    case (Inr e)
    define t1 where "t1 = t\<lparr>mt_exemplars := (mt_exemplars t)(ex_id e \<mapsto> e)\<rparr>"
    have "\<forall>y \<in> set items. item_id y \<noteq> ex_id e" using Cons.prems(1) Inr by force
    then have "\<forall>x \<in> set items. mt_points t1 (item_id x) = None \<and> mt_exemplars t1 (item_id x) = None"
      using Cons.prems(2) by (simp add: t1_def)
    with Cons.IH [of t1] Cons.prems(1) show ?thesis
      using Cons.prems(2) Inr by (auto simp: insert_metric_bound absorbed_Cons t1_def [symmetric]) (auto simp: t1_def)
  qed
qed (simp add: absorbed_Nil)

text \<open>
  C14: On D1, with random ids that were never used, ingesting a batch of points stores every one of them under an id of its own and
  links it to the one series of its project and identity; the series known before keep their rows, points and exemplars stored before
  stay, and every exemplar stored by the batch names a point of the batch and the series of that point.
\<close>

theorem metrics_linked:
  assumes "inj uuid" and "\<forall>n. mt_points t (uuid n) = None \<and> mt_exemplars t (uuid n) = None"
  shows "\<exists>t' rows. metrics_ingestBatch Sqlite None None uuid now pid points rat xat t = (Inr (), t') \<and>
    list_all2 (\<lambda>p r. same_point p r \<and> pt_projectId r = pid \<and> mt_points t' (pt_id r) = Some r \<and>
      (\<exists>s. mt_series t' (pid, mp_identity p) = Some s \<and> pt_seriesId r = ms_id s)) points rows \<and> distinct (map pt_id rows) \<and>
    (\<forall>k s. mt_series t k = Some s \<longrightarrow> mt_series t' k = Some s) \<and> (\<forall>k r. mt_points t k = Some r \<longrightarrow> mt_points t' k = Some r) \<and>
    (\<forall>k e. mt_exemplars t' k = Some e \<longrightarrow> mt_exemplars t k = Some e \<or> (\<exists>r \<in> set rows. ex_pointId e = pt_id r \<and> ex_seriesId e = pt_seriesId r))"
proof (cases "points = []")
  case True
  then show ?thesis by (auto simp: metrics_ingestBatch_def)
next
  case False
  obtain res series where res: "resolveSeries Sqlite None uuid now pid points (mt_series t) = (res, series)"
    by (cases "resolveSeries Sqlite None uuid now pid points (mt_series t)")
  obtain ids n where ids: "res = Inr (ids, n)" "\<forall>k r. mt_series t k = Some r \<longrightarrow> series k = Some r"
    "\<forall>p \<in> set points. \<exists>r. series (pid, mp_identity p) = Some r \<and> map_get ids (mp_identity p) = Some (ms_id r)"
    using series_resolved [OF res] by blast
  obtain items where items: "point_items uuid pid rat xat ids n points = Inr items" "distinct (map item_id items)" "item_id ` set items \<subseteq> uuid ` {n..}"
    and rows: "list_all2 (\<lambda>p r. same_point p r \<and> pt_projectId r = pid \<and> map_get ids (mp_identity p) = Some (pt_seriesId r)) points (point_part items)"
    and exs: "\<forall>e \<in> set (exemplar_part items). \<exists>r \<in> set (point_part items). ex_pointId e = pt_id r \<and> ex_seriesId e = pt_seriesId r"
    using point_items_ok [OF _ assms(1), of points ids pid rat xat n] ids(3) by fastforce
  have fresh: "\<forall>x \<in> set items. mt_points t (item_id x) = None \<and> mt_exemplars t (item_id x) = None"
    using items(3) assms(2) by (metis (no_types, lifting) image_iff image_subset_iff)
  define t' where "t' = t\<lparr>mt_series := series, mt_points := absorbed pt_id (point_part items) (mt_points t),
      mt_exemplars := absorbed ex_id (exemplar_part items) (mt_exemplars t)\<rparr>"
  obtain ns where "run_batch insert_metric (map (\<lambda>r. bound (case r of Inl _ \<Rightarrow> ''metric_point'' | Inr _ \<Rightarrow> ''metric_exemplars'') r) items) (t\<lparr>mt_series := series\<rparr>) = Inr (ns, t')"
    using run_metrics [OF items(2), of "t\<lparr>mt_series := series\<rparr>"] fresh by (auto simp: t'_def)
  then have run: "metrics_ingestBatch Sqlite None None uuid now pid points rat xat t = (Inr (), t')"
    using False by (simp add: metrics_ingestBatch_def res ids(1) Let_def items(1) commit_def two_sqlite)
  have dist: "distinct (map pt_id (point_part items))" using parts_distinct [OF items(2)] by simp
  have stored: "mt_points t' (pt_id r) = Some r" if "r \<in> set (point_part items)" for r
  proof -
    have "Inl r \<in> set items" using that by (simp add: parts_set)
    then have "mt_points t (pt_id r) = None" using fresh by force
    then show ?thesis using absorbed_distinct [OF dist that] by (simp add: t'_def)
  qed
  have "list_all2 (\<lambda>p r. same_point p r \<and> pt_projectId r = pid \<and> mt_points t' (pt_id r) = Some r \<and>
      (\<exists>s. mt_series t' (pid, mp_identity p) = Some s \<and> pt_seriesId r = ms_id s)) points (point_part items)"
    using rows stored ids(3) by (fastforce simp: list_all2_conv_all_nth t'_def all_set_conv_all_nth in_set_conv_nth)
  moreover have "\<exists>r \<in> set (point_part items). ex_pointId e = pt_id r \<and> ex_seriesId e = pt_seriesId r"
    if "mt_exemplars t' k = Some e" "mt_exemplars t k \<noteq> Some e" for k e
  proof -
    have "e \<in> set (exemplar_part items)"
      using that by (auto simp: t'_def absorbed_def find_Some_iff split: option.splits)
    then show ?thesis using exs by blast
  qed
  ultimately show ?thesis
    using run dist ids(2) by (intro exI [of _ t'] exI [of _ "point_part items"]) (auto simp: t'_def absorbed_def)
qed

definition sample_point :: metric_point where
  "sample_point =
     \<lparr>mp_name = ''up'', mp_description = None, mp_unit = None, mp_scopeName = None, mp_scopeVersion = None, mp_serviceName = None,
      mp_resourceAttrsJson = None, mp_type = TGauge, mp_isMonotonic = None, mp_temporality = None, mp_attributesJson = None,
      mp_identity = ''up'', mp_tsNs = ''0'', mp_startTsNs = None, mp_value = Some (Num 1), mp_count = None, mp_sum = None, mp_min = None,
      mp_max = None, mp_boundsJson = None, mp_bucketCountsJson = None, mp_extraJson = None, mp_exemplarsJson = None\<rparr>"

abbreviation no_metrics :: metric_tables where
  "no_metrics \<equiv> \<lparr>mt_series = (\<lambda>_. None), mt_points = (\<lambda>_. None), mt_exemplars = (\<lambda>_. None)\<rparr>"

theorem metrics_linked_witness:
  "\<exists>t' (rows :: point_row list). metrics_ingestBatch Sqlite None None (\<lambda>n. replicate n CHR ''x'') 0 ''p'' [sample_point, sample_point] [] [] no_metrics = (Inr (), t') \<and>
     length rows = 2 \<and> distinct (map pt_id rows)"
proof -
  have inj: "inj (\<lambda>n. replicate n CHR ''x'')" by (auto simp: inj_on_def replicate_eq_replicate)
  have "\<forall>n. mt_points no_metrics (replicate n CHR ''x'') = None \<and> mt_exemplars no_metrics (replicate n CHR ''x'') = None" by simp
  from metrics_linked [OF inj this, of 0 "''p''" "[sample_point, sample_point]" "[]" "[]"] obtain t' rows where
    run: "metrics_ingestBatch Sqlite None None (\<lambda>n. replicate n CHR ''x'') 0 ''p'' [sample_point, sample_point] [] [] no_metrics = (Inr (), t')"
    and rows: "list_all2 (\<lambda>p r. same_point p r \<and> pt_projectId r = ''p'' \<and> mt_points t' (pt_id r) = Some r \<and>
      (\<exists>s. mt_series t' (''p'', mp_identity p) = Some s \<and> pt_seriesId r = ms_id s)) [sample_point, sample_point] rows" "distinct (map pt_id rows)"
    by (elim exE conjE) (rule that)
  have "length rows = 2" using list_all2_lengthD [OF rows(1)] by simp
  then show ?thesis using run rows(2) by (intro exI [of _ t'] exI [of _ rows]) simp
qed

section \<open>Batches on Postgres\<close>

lemma exemplar_items_points: "exemplar_items uuid n pt p es = (items, n') \<Longrightarrow> point_part items = []"
  by (induction uuid n pt p es arbitrary: items rule: exemplar_items.induct) (auto split: if_splits prod.splits)

lemma point_items_length: "point_items uuid pid rat xat ids n points = Inr items \<Longrightarrow> length (point_part items) = length points"
proof (induction points arbitrary: n items)
  case (Cons p points)
  then show ?case
    by (auto simp: Let_def res_bind_eq_Inr parts_append split: option.splits prod.splits dest!: exemplar_items_points)
qed simp

lemma run_points:
  "run_batch insert_metric (map (\<lambda>r. bound (sql r) (f r)) xs) t = Inr (ns, t') \<Longrightarrow>
     distinct (map pt_id (point_part (map f xs))) \<and> (\<forall>p \<in> set (point_part (map f xs)). mt_points t (pt_id p) = None)"
proof (induction xs arbitrary: t ns)
  case (Cons x xs)
  show ?case
  proof (cases "f x")
    case (Inl p)
    define t1 where "t1 = t\<lparr>mt_points := (mt_points t)(pt_id p \<mapsto> p)\<rparr>"
    obtain ms where "mt_points t (pt_id p) = None" "run_batch insert_metric (map (\<lambda>r. bound (sql r) (f r)) xs) t1 = Inr (ms, t')"
      using Cons.prems Inl by (auto simp: res_bind_eq_Inr insert_metric_bound t1_def split: if_splits)
    then show ?thesis using Cons.IH [of t1 ms] Inl by (auto simp: t1_def split: if_splits)
  next
    case (Inr e)
    define t1 where "t1 = t\<lparr>mt_exemplars := (mt_exemplars t)(ex_id e \<mapsto> e)\<rparr>"
    obtain ms where "run_batch insert_metric (map (\<lambda>r. bound (sql r) (f r)) xs) t1 = Inr (ms, t')"
      using Cons.prems Inr by (auto simp: res_bind_eq_Inr insert_metric_bound t1_def split: if_splits)
    then show ?thesis using Cons.IH [of t1 ms] Inr by (simp add: t1_def)
  qed
qed simp

lemma point_part_filter: "point_part xs = map projl (filter isl xs)"
  by (induction xs rule: point_part.induct) simp_all

text \<open>What the two statements of a batch run on Postgres: for each item the last item of its kind.\<close>

definition last_alike :: "(point_row + exemplar_row) list \<Rightarrow> point_row + exemplar_row \<Rightarrow> point_row + exemplar_row" where
  "last_alike items r = (if isl r then last (filter isl items) else last (filter (\<lambda>r. \<not> isl r) items))"

lemma last_alike_kind:
  assumes "r \<in> set items"
  shows "isl (last_alike items r) = isl r"
proof -
  have "filter P items \<noteq> [] \<Longrightarrow> P (last (filter P items))" for P
    using last_in_set [of "filter P items"] by auto
  from this [of isl] this [of "\<lambda>r. \<not> isl r"] show ?thesis
    using assms by (auto simp: last_alike_def filter_empty_conv)
qed

lemma points_repeat:
  assumes "2 \<le> length (point_part items)"
  shows "\<not> distinct (map pt_id (point_part (map (last_alike items) items)))"
proof -
  have "filter isl (map (last_alike items) items) = map (last_alike items) (filter isl items)"
    unfolding filter_map by (intro arg_cong [of _ _ "map _"] filter_cong) (simp_all add: last_alike_kind)
  also have "\<dots> = map (\<lambda>_. last (filter isl items)) (filter isl items)"
    by (rule map_cong) (simp_all add: last_alike_def)
  also have "\<dots> = replicate (length (filter isl items)) (last (filter isl items))" by (simp add: map_replicate_const)
  finally have all: "filter isl (map (last_alike items) items) = replicate (length (filter isl items)) (last (filter isl items))" .
  obtain n where n: "length (filter isl items) = Suc (Suc n)"
    using assms by (metis Suc_le_D Suc_le_mono length_map numeral_2_eq_2 point_part_filter)
  show ?thesis by (simp add: point_part_filter all n)
qed

text \<open>On Postgres a batch of two points or more is refused, whatever the tables hold: the statement of the points is bound to the last
  of them only, which is then inserted twice under one id.  No point and no exemplar of the batch is stored.
\<close>

theorem metrics_postgres_refused:
  assumes "2 \<le> length points"
  shows "\<exists>e t'. metrics_ingestBatch Postgres None None uuid now pid points rat xat t = (Inl e, t') \<and>
    mt_points t' = mt_points t \<and> mt_exemplars t' = mt_exemplars t"
proof -
  have ne: "points \<noteq> []" using assms by auto
  obtain res series where res: "resolveSeries Postgres None uuid now pid points (mt_series t) = (res, series)"
    by (cases "resolveSeries Postgres None uuid now pid points (mt_series t)")
  let ?t = "t\<lparr>mt_series := series\<rparr>"
  show ?thesis
  proof (cases res)
    case (Inl e)
    then show ?thesis using ne res by (auto simp: metrics_ingestBatch_def)
  next
    case (Inr r)
    obtain ids n where r: "r = (ids, n)" by (cases r)
    show ?thesis
    proof (cases "point_items uuid pid rat xat ids n points")
      case (Inl e)
      then show ?thesis using ne res Inr r by (auto simp: metrics_ingestBatch_def Let_def)
    next
      case items: (Inr items)
      define sql where "sql = (\<lambda>r :: point_row + exemplar_row. if isl r then ''metric_point'' else ''metric_exemplars'')"
      have stmts: "two_statements Postgres ''metric_point'' ''metric_exemplars'' items = map (\<lambda>r. bound (sql r) (last_alike items r)) items"
        unfolding two_postgres by (rule map_cong) (simp_all add: sql_def last_alike_def)
      have "2 \<le> length (point_part items)" using point_items_length [OF items] assms by simp
      from points_repeat [OF this]
      have "\<exists>e. run_batch insert_metric (map (\<lambda>r. bound (sql r) (last_alike items r)) items) ?t = Inl e"
        using run_points [of sql "last_alike items" items ?t] by (cases "run_batch insert_metric (map (\<lambda>r. bound (sql r) (last_alike items r)) items) ?t") auto
      then show ?thesis using ne res Inr r items by (auto simp: metrics_ingestBatch_def Let_def stmts commit_def)
    qed
  qed
qed

theorem metrics_postgres_refused_witness:
  "\<exists>e t'. metrics_ingestBatch Postgres None None decimal 0 ''p'' [sample_point, sample_point] [] [] no_metrics = (Inl e, t') \<and>
     mt_points t' = (\<lambda>_. None)"
  using metrics_postgres_refused [of "[sample_point, sample_point]" decimal 0 "''p''" "[]" "[]" no_metrics] by auto

end
