(* ===== verification/Ingest_Stores.thy ===== *)
theory Ingest_Stores
  imports Sql_Db Usage_Events
begin

text \<open>
  What the ingest stores write: spans (\<^verbatim>\<open>lib/store/ingest.ts\<close>), usage events (\<^verbatim>\<open>lib/usage-store.ts\<close>), logs (\<^verbatim>\<open>lib/logs-store.ts\<close>), AI calls and
  evaluations (\<^verbatim>\<open>lib/ai-store\<close>).  A table is a map from its primary key (\<^verbatim>\<open>migrations\<close>); the failure of the engine is a parameter.
  Shown: on D1 every record of a batch is in its table afterwards unless the key was taken; on Postgres this holds of spans and usage
  events, while of logs, AI calls and evaluations only the last record of a batch is stored.
\<close>

section \<open>The stores\<close>

definition ingestTelemetrySpans ::
  "dialect \<Rightarrow> string option \<Rightarrow> stored_span list \<Rightarrow> (string \<times> string, stored_span) table \<Rightarrow> (string + nat \<times> nat) \<times> (string \<times> string, stored_span) table" where
  "ingestTelemetrySpans d fault spans tbl =
     (if spans = [] then (Inr (0, 0), tbl)
      else if list_ex (\<lambda>s. st_projectId s = []) spans then (Inl ''TelemetryStore.ingest: span.projectId is required'', tbl)
      else (case commit (insert_or_ignore (\<lambda>s. (st_traceId s, st_spanId s))) fault (each_statements d ''telemetry_spans'' spans) tbl of
          (Inl e, tbl') \<Rightarrow> (Inl e, tbl')
        | (Inr ns, tbl') \<Rightarrow>
            (Inr (length spans, length (remdups (map (\<lambda>s. st_projectId s @ '':'' @ st_traceId s) spans))), tbl')))"

definition usage_ingest ::
  "dialect \<Rightarrow> string option \<Rightarrow> usage_event list \<Rightarrow> (string, usage_event) table \<Rightarrow> (string + nat \<times> nat) \<times> (string, usage_event) table" where
  "usage_ingest d fault events tbl =
     (if events = [] then (Inr (0, 0), tbl)
      else if list_ex (\<lambda>e. ue_projectId e = []) events then (Inl ''UsageStore.ingest: event.projectId is required'', tbl)
      else (case commit (insert_or_ignore ue_eventId) fault (each_statements d ''usage_events'' events) tbl of
          (Inl e, tbl') \<Rightarrow> (Inl e, tbl')
        | (Inr ns, tbl') \<Rightarrow> (Inr (length events, length (remdups (map ue_sessionId events))), tbl')))"

definition logs_ingestBatch ::
  "dialect \<Rightarrow> string option \<Rightarrow> log_record list \<Rightarrow> (string, log_record) table \<Rightarrow> (string + unit) \<times> (string, log_record) table" where
  "logs_ingestBatch d fault logs tbl =
     (if logs = [] then (Inr (), tbl)
      else if list_ex (\<lambda>l. lr_projectId l = []) logs then (Inl ''LogsStore.ingestBatch: log.projectId is required'', tbl)
      else (case commit (insert_or_ignore lr_logId) fault (once_statements d ''logs'' logs) tbl of
          (Inl e, tbl') \<Rightarrow> (Inl e, tbl') | (Inr ns, tbl') \<Rightarrow> (Inr (), tbl')))"

record ai_call =
  ca_projectId :: string
  ca_callId :: string
  ca_traceId :: "string option"
  ca_spanId :: "string option"
  ca_serviceName :: "string option"
  ca_modelName :: string
  ca_provider :: string
  ca_callType :: string
  ca_requestJson :: "string option"
  ca_responseJson :: "string option"
  ca_promptTokens :: "js_number option"
  ca_completionTokens :: "js_number option"
  ca_totalCostUsd :: "js_number option"
  ca_latencyMs :: "js_number option"
  ca_isError :: bool
  ca_errorMessage :: "string option"
  ca_occurredAt :: string
  ca_receivedAt :: string
  ca_expiresAt :: string
  ca_sessionId :: "string option"
  ca_interactionId :: "string option"

definition ingestAICallBatch ::
  "dialect \<Rightarrow> string option \<Rightarrow> ai_call list \<Rightarrow> (string, ai_call) table \<Rightarrow> (string + unit) \<times> (string, ai_call) table" where
  "ingestAICallBatch d fault calls tbl =
     (if calls = [] then (Inr (), tbl)
      else if list_ex (\<lambda>c. ca_projectId c = []) calls then (Inl ''AIStore.ingestBatch: call.projectId is required'', tbl)
      else (case commit (insert_or_ignore ca_callId) fault (once_statements d ''ai_calls'' calls) tbl of
          (Inl e, tbl') \<Rightarrow> (Inl e, tbl') | (Inr ns, tbl') \<Rightarrow> (Inr (), tbl')))"

record ai_evaluation =
  av_projectId :: string
  av_evaluationId :: string
  av_traceId :: string
  av_spanId :: string
  av_name :: string
  av_score :: "js_number option"
  av_label :: "string option"
  av_explanation :: "string option"
  av_source :: string
  av_metadataJson :: "string option"
  av_createdAt :: string
  av_expiresAt :: string

definition ingestAIEvaluations ::
  "dialect \<Rightarrow> string option \<Rightarrow> ai_evaluation list \<Rightarrow> (string, ai_evaluation) table \<Rightarrow> (string + unit) \<times> (string, ai_evaluation) table" where
  "ingestAIEvaluations d fault evaluations tbl =
     (if evaluations = [] then (Inr (), tbl)
      else (case commit (insert_row av_evaluationId) fault (once_statements d ''ai_span_evaluations'' evaluations) tbl of
          (Inl e, tbl') \<Rightarrow> (Inl e, tbl') | (Inr ns, tbl') \<Rightarrow> (Inr (), tbl')))"

section \<open>What is stored\<close>

text \<open>
  C15: After spans or usage events were ingested without an error of the engine, on either database, the table holds the first
  record of every key of the batch whose key was free, and what it held before; the count returned is that of the batch, records
  ignored for a taken key included.
\<close>

theorem spans_and_events_persist:
  assumes "\<forall>s \<in> set spans. st_projectId s \<noteq> []" and "\<forall>e \<in> set events. ue_projectId e \<noteq> []"
  shows "(\<exists>n. ingestTelemetrySpans d None spans tbl = (Inr (length spans, n), absorbed (\<lambda>s. (st_traceId s, st_spanId s)) spans tbl)) \<and>
    (\<exists>n. usage_ingest d None events utbl = (Inr (length events, n), absorbed ue_eventId events utbl))"
  using assms commit_ignore(1) [where key = "\<lambda>s. (st_traceId s, st_spanId s)" and d = d and sql = "''telemetry_spans''" and rows = spans and tbl = tbl]
    commit_ignore(1) [where key = ue_eventId and d = d and sql = "''usage_events''" and rows = events and tbl = utbl]
  by (auto simp: ingestTelemetrySpans_def usage_ingest_def list_ex_iff absorbed_Nil split: prod.split sum.split)

theorem spans_and_events_persist_witness:
  "\<exists>n. fst (ingestTelemetrySpans Postgres None [sample_span [], sample_span [] \<lparr>st_spanId := ''u''\<rparr>] (\<lambda>_. None)) = Inr (2, n)"
  using spans_and_events_persist [of "[sample_span [], sample_span [] \<lparr>st_spanId := ''u''\<rparr>]" "[]" Postgres "\<lambda>_. None" "\<lambda>_. None"]
  by (fastforce simp: sample_span_def)

text \<open>Logs and AI calls of a batch are all in their table afterwards on D1, where a key was not taken; on Postgres only the last record
  of the batch is, and the others are lost without an error.  AI evaluations with fresh ids are all stored on D1; on Postgres a batch
  of two or more is always refused, because the last one is inserted twice.
\<close>

theorem postgres_keeps_last:
  assumes "logs \<noteq> []" and "\<forall>l \<in> set logs. lr_projectId l \<noteq> []" and "calls \<noteq> []" and "\<forall>c \<in> set calls. ca_projectId c \<noteq> []"
    and "distinct (map av_evaluationId evals)" and "\<forall>e \<in> set evals. etbl (av_evaluationId e) = None"
  shows "logs_ingestBatch Sqlite None logs ltbl = (Inr (), absorbed lr_logId logs ltbl) \<and>
    logs_ingestBatch Postgres None logs ltbl = (Inr (), absorbed lr_logId [last logs] ltbl) \<and>
    ingestAICallBatch Sqlite None calls ctbl = (Inr (), absorbed ca_callId calls ctbl) \<and>
    ingestAICallBatch Postgres None calls ctbl = (Inr (), absorbed ca_callId [last calls] ctbl) \<and>
    ingestAIEvaluations Sqlite None evals etbl = (Inr (), absorbed av_evaluationId evals etbl) \<and>
    (2 \<le> length evals \<longrightarrow> ingestAIEvaluations Postgres None evals etbl = (Inl ''UNIQUE constraint failed'', etbl))"
proof (intro conjI impI)
  have l: "\<not> list_ex (\<lambda>l. lr_projectId l = []) logs" and c: "\<not> list_ex (\<lambda>c. ca_projectId c = []) calls"
    using assms(2, 4) by (auto simp: list_ex_iff)
  show "logs_ingestBatch Sqlite None logs ltbl = (Inr (), absorbed lr_logId logs ltbl)"
    "logs_ingestBatch Postgres None logs ltbl = (Inr (), absorbed lr_logId [last logs] ltbl)"
    using commit_ignore(2) [where key = lr_logId and d = Sqlite and sql = "''logs''" and rows = logs and tbl = ltbl]
      commit_ignore(2) [where key = lr_logId and d = Postgres and sql = "''logs''" and rows = logs and tbl = ltbl]
      absorbed_repeat [of "length logs" lr_logId "last logs" ltbl] l assms(1)
    by (auto simp: logs_ingestBatch_def split: sum.split prod.split)
  show "ingestAICallBatch Sqlite None calls ctbl = (Inr (), absorbed ca_callId calls ctbl)"
    "ingestAICallBatch Postgres None calls ctbl = (Inr (), absorbed ca_callId [last calls] ctbl)"
    using commit_ignore(2) [where key = ca_callId and d = Sqlite and sql = "''ai_calls''" and rows = calls and tbl = ctbl]
      commit_ignore(2) [where key = ca_callId and d = Postgres and sql = "''ai_calls''" and rows = calls and tbl = ctbl]
      absorbed_repeat [of "length calls" ca_callId "last calls" ctbl] c assms(3)
    by (auto simp: ingestAICallBatch_def split: sum.split prod.split)
  show "ingestAIEvaluations Sqlite None evals etbl = (Inr (), absorbed av_evaluationId evals etbl)"
    using run_rows [OF assms(5, 6), of "''ai_span_evaluations''"]
    by (auto simp: ingestAIEvaluations_def commit_def once_sqlite absorbed_Nil)
  assume two: "2 \<le> length evals"
  obtain n where n: "length evals = Suc (Suc n)" using two by (metis Suc_le_D numeral_2_eq_2 Suc_le_mono)
  have "etbl (av_evaluationId (last evals)) = None" using assms(6) two by (cases evals) auto
  then show "ingestAIEvaluations Postgres None evals etbl = (Inl ''UNIQUE constraint failed'', etbl)"
    using two n by (cases "evals = []") (simp_all add: ingestAIEvaluations_def commit_def once_postgres insert_bound)
qed

definition sample_log_row :: "string \<Rightarrow> log_record" where
  "sample_log_row i =
     \<lparr>lr_projectId = ''p'', lr_logId = i, lr_traceId = None, lr_spanId = None, lr_serviceName = None, lr_severity = ''INFO'',
      lr_severityNumber = 9, lr_loggerName = None, lr_message = i, lr_attributesJson = None, lr_flags = 0,
      lr_droppedAttributesCount = 0, lr_occurredAt = [], lr_receivedAt = [], lr_expiresAt = [], lr_sessionId = None, lr_interactionId = None\<rparr>"

definition sample_call :: ai_call where
  "sample_call =
     \<lparr>ca_projectId = ''p'', ca_callId = ''c'', ca_traceId = None, ca_spanId = None, ca_serviceName = None, ca_modelName = ''m'',
      ca_provider = ''x'', ca_callType = ''chat'', ca_requestJson = None, ca_responseJson = None, ca_promptTokens = None,
      ca_completionTokens = None, ca_totalCostUsd = None, ca_latencyMs = None, ca_isError = False, ca_errorMessage = None,
      ca_occurredAt = [], ca_receivedAt = [], ca_expiresAt = [], ca_sessionId = None, ca_interactionId = None\<rparr>"

theorem postgres_keeps_last_witness:
  "snd (logs_ingestBatch Sqlite None [sample_log_row ''a'', sample_log_row ''b''] (\<lambda>_. None)) ''a'' = Some (sample_log_row ''a'') \<and>
   snd (logs_ingestBatch Postgres None [sample_log_row ''a'', sample_log_row ''b''] (\<lambda>_. None)) ''a'' = None"
proof -
  have ids: "lr_logId (sample_log_row i) = i" "lr_projectId (sample_log_row i) \<noteq> []" "ca_projectId sample_call \<noteq> []" for i
    by (simp_all add: sample_log_row_def sample_call_def)
  show ?thesis
    using postgres_keeps_last [of "[sample_log_row ''a'', sample_log_row ''b'']" "[sample_call]" "[]" "\<lambda>_. None" "\<lambda>_. None" "\<lambda>_. None"]
    by (simp add: ids absorbed_def)
qed

end
