(* ===== verification/Action_Identity.thy ===== *)
theory Action_Identity
  imports Span_Processors
begin

text \<open>
  The identity of an agent action: \<^verbatim>\<open>packages/obs-collector/src/lib/action-identity.ts\<close> with \<^verbatim>\<open>lib/hash.ts\<close>.  The digest of Web
  Crypto and the text encoder are parameters.  Shown: a derived id is always a valid action id and two spans share one exactly
  if the first 128 bits of their digests agree; and resolving the identity of a span again, from the attributes the first
  resolution wrote, gives the same identity, so that every later processor agrees on it.
\<close>

definition ACTION_ID_KEY :: string where "ACTION_ID_KEY = ''obs.action.id''"
definition ACTION_ROOT_ID_KEY :: string where "ACTION_ROOT_ID_KEY = ''obs.action.root_id''"
definition ACTION_CAUSED_BY_ID_KEY :: string where "ACTION_CAUSED_BY_ID_KEY = ''obs.action.caused_by_id''"
definition ACTION_KIND_KEY :: string where "ACTION_KIND_KEY = ''obs.action.kind''"
definition ACTION_CONFIDENCE_KEY :: string where "ACTION_CONFIDENCE_KEY = ''obs.action.confidence''"
definition AGENT_RUN_ID_KEY :: string where "AGENT_RUN_ID_KEY = ''obs.agent.run_id''"

lemmas action_keys = ACTION_ID_KEY_def ACTION_ROOT_ID_KEY_def ACTION_CAUSED_BY_ID_KEY_def ACTION_KIND_KEY_def
  ACTION_CONFIDENCE_KEY_def AGENT_RUN_ID_KEY_def

section \<open>Hashes\<close>

definition hex_text :: "nat \<Rightarrow> string" where
  "hex_text n = (if n < 16 then [hex_digit n] else [hex_digit (n div 16), hex_digit (n mod 16)])"

definition hash_bytesToHex :: "byte list \<Rightarrow> string" where
  "hash_bytesToHex bytes = foldl (\<lambda>out b. out @ pad_left 2 (hex_text (unat b))) [] bytes"

definition sha256Hex :: "(byte list \<Rightarrow> byte list) \<Rightarrow> (string \<Rightarrow> byte list) \<Rightarrow> string \<Rightarrow> string" where
  "sha256Hex digest encode input = hash_bytesToHex (digest (encode input))"

definition randomHex :: "byte list \<Rightarrow> string" where
  "randomHex buf = hash_bytesToHex buf"

section \<open>Action ids\<close>

definition crockford :: string where "crockford = ''0123456789ABCDEFGHJKMNPQRSTVWXYZ''"

fun base32_loop :: "nat \<Rightarrow> nat \<Rightarrow> string \<Rightarrow> string" where
  "base32_loop 0 n encoded = encoded"
| "base32_loop (Suc i) n encoded = base32_loop i (n div 32) (crockford ! (n mod 32) # encoded)"

definition deriveActionId :: "(string \<Rightarrow> string) \<Rightarrow> string \<Rightarrow> string \<Rightarrow> string \<Rightarrow> string" where
  "deriveActionId sha projectId traceId spanId =
     base32_loop 26 (hex_code (take 32 (sha (projectId @ '':'' @ traceId @ '':'' @ spanId)))) []"

text \<open>The character class of \<^verbatim>\<open>ACTION_ID_RE\<close>: digits and capitals without I, L, O and U.\<close>

definition action_char :: "char \<Rightarrow> bool" where
  "action_char c \<longleftrightarrow> (let n = char_code c in 48 \<le> n \<and> n \<le> 57 \<or> 65 \<le> n \<and> n \<le> 72 \<or> n \<in> {74, 75, 77, 78} \<or> 80 \<le> n \<and> n \<le> 84 \<or> 86 \<le> n \<and> n \<le> 90)"

definition ACTION_ID_RE :: "string \<Rightarrow> bool" where
  "ACTION_ID_RE s \<longleftrightarrow> length s = 26 \<and> list_all action_char s"

definition asValidActionId :: "json option \<Rightarrow> string option" where
  "asValidActionId v = (case v of Some (JStr s) \<Rightarrow> if ACTION_ID_RE (trim s) then Some (trim s) else None | _ \<Rightarrow> None)"

definition asConfidence :: "json option \<Rightarrow> string option" where
  "asConfidence v = (if v = Some (JStr ''explicit'') then Some ''explicit''
     else if v = Some (JStr ''fallback'') then Some ''fallback'' else None)"

record action_identity =
  ai_actionId :: string
  ai_rootActionId :: string
  ai_causedByActionId :: "string option"
  ai_agentRunId :: "string option"
  ai_confidence :: string

fun first_some :: "'a option list \<Rightarrow> 'a option" where
  "first_some [] = None"
| "first_some (v # vs) = (case v of Some x \<Rightarrow> Some x | None \<Rightarrow> first_some vs)"

definition agent_kind :: "(string \<times> json) list \<Rightarrow> bool" where
  "agent_kind attrs \<longleftrightarrow> string_at attrs ACTION_KIND_KEY \<in> {Some ''agent.run'', Some ''agent''}"

definition run_id_attrs :: "(string \<times> json) list \<Rightarrow> string option list" where
  "run_id_attrs attrs = map (\<lambda>k. asValidActionId (map_get attrs k)) [AGENT_RUN_ID_KEY, ''obs.action.agent_run_id'', ''obs.agent_run.id'']"

definition resolveActionIdentity :: "(string \<Rightarrow> string) \<Rightarrow> stored_span \<Rightarrow> (string \<times> json) list \<Rightarrow> action_identity" where
  "resolveActionIdentity sha s attrs =
     (let explicitActionId = asValidActionId (map_get attrs ACTION_ID_KEY);
          actionId = (case explicitActionId of Some i \<Rightarrow> i | None \<Rightarrow> deriveActionId sha (st_projectId s) (st_traceId s) (st_spanId s));
          confidence = (case asConfidence (map_get attrs ACTION_CONFIDENCE_KEY) of Some c \<Rightarrow> c
            | None \<Rightarrow> if explicitActionId \<noteq> None then ''explicit'' else ''fallback'');
          rootActionId = (case first_some (asValidActionId (map_get attrs ACTION_ROOT_ID_KEY) # run_id_attrs attrs) of Some i \<Rightarrow> i
            | None \<Rightarrow> if agent_kind attrs then actionId
                else deriveActionId sha (st_projectId s) (st_traceId s) (take 16 (st_traceId s)));
          causedByActionId = (case asValidActionId (map_get attrs ACTION_CAUSED_BY_ID_KEY) of Some i \<Rightarrow> Some i
            | None \<Rightarrow> if map_get attrs ACTION_CAUSED_BY_ID_KEY = Some JNull then None
                else map_option (deriveActionId sha (st_projectId s) (st_traceId s)) (nonempty_text (st_parentSpanId s)));
          agentRunId = (case first_some (run_id_attrs attrs) of Some i \<Rightarrow> Some i
            | None \<Rightarrow> if agent_kind attrs then Some actionId else None)
      in \<lparr>ai_actionId = actionId, ai_rootActionId = rootActionId, ai_causedByActionId = causedByActionId,
          ai_agentRunId = agentRunId, ai_confidence = confidence\<rparr>)"

section \<open>Derived ids are valid\<close>

lemma crockford_char:
  assumes "n < 32"
  shows "action_char (crockford ! n)"
proof -
  have "list_all action_char crockford" by code_simp
  moreover have "length crockford = 32" by code_simp
  ultimately show ?thesis using assms by (simp add: list_all_length)
qed

lemma crockford_distinct: "distinct crockford" "length crockford = 32"
  by code_simp+

lemma base32_shape:
  "list_all action_char enc \<Longrightarrow> list_all action_char (base32_loop i n enc) \<and> length (base32_loop i n enc) = i + length enc"
  by (induction i arbitrary: n enc) (simp_all add: crockford_char)

lemma derived_valid: "ACTION_ID_RE (deriveActionId sha p t s)"
  using base32_shape [of "[]" 26] by (simp add: ACTION_ID_RE_def deriveActionId_def)

lemma action_char_not_space: "action_char c \<Longrightarrow> \<not> is_space c"
  by (auto simp: action_char_def is_space_def Let_def)

lemma valid_id_trim: "ACTION_ID_RE i \<Longrightarrow> trim i = i"
  by (rule trim_id) (auto simp: ACTION_ID_RE_def list_all_iff dest: action_char_not_space)

lemma asValid_known [simp]: "ACTION_ID_RE i \<Longrightarrow> asValidActionId (Some (JStr i)) = Some i"
  by (simp add: asValidActionId_def valid_id_trim)

lemma asValid_Some: "asValidActionId v = Some i \<Longrightarrow> ACTION_ID_RE i"
  by (auto simp: asValidActionId_def split: option.splits json.splits if_splits)

lemma first_some_in: "first_some vs = Some x \<Longrightarrow> Some x \<in> set vs"
  by (induction vs) (auto split: option.splits)

lemma run_ids_valid: "first_some (run_id_attrs attrs) = Some i \<Longrightarrow> ACTION_ID_RE i"
  by (drule first_some_in) (auto simp: run_id_attrs_def dest: asValid_Some sym)

section \<open>Derived ids are distinct\<close>

lemma base32_acc: "base32_loop i n enc = base32_loop i n [] @ enc"
proof (induction i arbitrary: n enc)
  case (Suc i)
  have "base32_loop (Suc i) n enc = base32_loop i (n div 32) [] @ crockford ! (n mod 32) # enc"
    using Suc.IH [of "n div 32" "crockford ! (n mod 32) # enc"] by simp
  then show ?case using Suc.IH [of "n div 32" "[crockford ! (n mod 32)]"] by simp
qed simp

lemma base32_inj: "base32_loop i n [] = base32_loop i m [] \<Longrightarrow> n < 32 ^ i \<Longrightarrow> m < 32 ^ i \<Longrightarrow> n = m"
proof (induction i arbitrary: n m)
  case (Suc i)
  have step: "base32_loop (Suc i) k [] = base32_loop i (k div 32) [] @ [crockford ! (k mod 32)]" for k
    using base32_acc [of i "k div 32" "[crockford ! (k mod 32)]"] by simp
  have "base32_loop i (n div 32) [] = base32_loop i (m div 32) []" "crockford ! (n mod 32) = crockford ! (m mod 32)"
    using Suc.prems(1) unfolding step by simp_all
  moreover have "n div 32 < 32 ^ i" "m div 32 < 32 ^ i" using Suc.prems(2, 3) by (simp_all add: less_mult_imp_div_less)
  ultimately have "n div 32 = m div 32" "n mod 32 = m mod 32"
    using Suc.IH nth_eq_iff_index_eq [OF crockford_distinct(1)] crockford_distinct(2) by auto
  then show ?case by (metis div_mult_mod_eq)
qed simp

lemma pad_hex_text: "n < 256 \<Longrightarrow> pad_left 2 (hex_text n) = [hex_digit (n div 16), hex_digit (n mod 16)]"
  by (simp add: pad_left_def hex_text_def hex_digit_def)

lemma hash_hex_append: "hash_bytesToHex (bs @ [b]) = hash_bytesToHex bs @ [hex_digit (unat b div 16), hex_digit (unat b mod 16)]"
  by (simp add: hash_bytesToHex_def pad_hex_text [OF unat_byte_lt])

lemma hash_hex_length: "length (hash_bytesToHex bs) = 2 * length bs"
  by (induction bs rule: rev_induct) (simp add: hash_bytesToHex_def, simp add: hash_hex_append)

lemma hash_hex_split: "hash_bytesToHex (as @ bs) = hash_bytesToHex as @ hash_bytesToHex bs"
proof (induction bs rule: rev_induct)
  case (snoc b bs)
  then show ?case using hash_hex_append [of "as @ bs" b] hash_hex_append [of bs b] by simp
qed (simp add: hash_bytesToHex_def)

lemma hash_hex_take: "take (2 * n) (hash_bytesToHex bs) = hash_bytesToHex (take n bs)"
  using hash_hex_split [of "take n bs" "drop n bs"] hash_hex_length [of "take n bs"]
  by (cases "n \<le> length bs") (simp_all add: hash_hex_length)

lemma hex_code_snoc: "hex_code (xs @ [c]) = 16 * hex_code xs + radix_digit c"
  by (simp add: hex_code_def)

text \<open>The number a digest prefix reads as: its bytes in base 256.\<close>

lemma hex_code_bytes: "hex_code (hash_bytesToHex bs) = foldl (\<lambda>n b. 256 * n + unat b) 0 bs"
proof (induction bs rule: rev_induct)
  case (snoc b bs)
  have d: "unat b div 16 < 16" "unat b mod 16 < 16" using unat_byte_lt [of b] by (simp_all add: less_mult_imp_div_less)
  have "hex_code (hash_bytesToHex (bs @ [b])) = 16 * (16 * hex_code (hash_bytesToHex bs) + unat b div 16) + unat b mod 16"
    using hex_code_snoc [of "hash_bytesToHex bs @ [hex_digit (unat b div 16)]"] hex_code_snoc [of "hash_bytesToHex bs"]
    by (simp add: hash_hex_append radix_hex_digit [OF d(1)] radix_hex_digit [OF d(2)])
  also have "\<dots> = 256 * hex_code (hash_bytesToHex bs) + unat b"
    using div_mult_mod_eq [of "unat b" 16] by simp
  finally show ?case using snoc.IH by simp
qed (simp add: hash_bytesToHex_def hex_code_def)

lemma base256_bound: "foldl (\<lambda>n b. 256 * n + unat (b :: byte)) 0 bs < 256 ^ length bs"
proof (induction bs rule: rev_induct)
  case (snoc b bs)
  then show ?case using unat_byte_lt [of b] by simp
qed simp

lemma base256_inj:
  "length as = length bs \<Longrightarrow> foldl (\<lambda>n b. 256 * n + unat (b :: byte)) 0 as = foldl (\<lambda>n b. 256 * n + unat b) 0 bs \<Longrightarrow> as = bs"
proof (induction as arbitrary: bs rule: rev_induct)
  case (snoc a as)
  obtain b bs' where bs: "bs = bs' @ [b]" using snoc.prems(1) by (cases bs rule: rev_cases) auto
  let ?v = "\<lambda>xs. foldl (\<lambda>n b. 256 * n + unat (b :: byte)) 0 xs"
  have eq: "256 * ?v as + unat a = 256 * ?v bs' + unat b" using snoc.prems(2) by (simp add: bs)
  have "(256 * ?v as + unat a) div 256 = ?v as" "(256 * ?v as + unat a) mod 256 = unat a"
    "(256 * ?v bs' + unat b) div 256 = ?v bs'" "(256 * ?v bs' + unat b) mod 256 = unat b"
    using unat_byte_lt [of a] unat_byte_lt [of b] by simp_all
  then have "?v as = ?v bs'" "unat a = unat b" unfolding eq by simp_all
  then show ?case using snoc.IH [of bs'] snoc.prems(1) bs by (simp add: word_unat_eq_iff)
qed simp

text \<open>Every derived action id is a valid one (26 characters of Crockford's base 32), and, the digest having 32 bytes, two spans
  get the same id exactly if the first 16 bytes of the digests of their project, trace and span ids agree.
\<close>

theorem derived_ids_faithful:
  assumes "\<And>x. length (digest x) = 32"
  shows "ACTION_ID_RE (deriveActionId (sha256Hex digest encode) p t s) \<and>
    (deriveActionId (sha256Hex digest encode) p t s = deriveActionId (sha256Hex digest encode) p' t' s' \<longleftrightarrow>
     take 16 (digest (encode (p @ '':'' @ t @ '':'' @ s))) = take 16 (digest (encode (p' @ '':'' @ t' @ '':'' @ s'))))"
proof -
  define v where "v = (\<lambda>x. foldl (\<lambda>n b. 256 * n + unat (b :: byte)) 0 (take 16 (digest (encode x))))"
  have num: "hex_code (take 32 (sha256Hex digest encode x)) = v x" for x
    using hash_hex_take [of 16 "digest (encode x)"] by (simp add: sha256Hex_def hex_code_bytes v_def)
  have small: "v x < 32 ^ 26" for x
  proof -
    have "v x < 256 ^ 16" using base256_bound [of "take 16 (digest (encode x))"] assms by (simp add: v_def)
    also have "\<dots> \<le> (32 :: nat) ^ 26" by simp
    finally show ?thesis .
  qed
  have "deriveActionId (sha256Hex digest encode) p t s = deriveActionId (sha256Hex digest encode) p' t' s' \<longleftrightarrow>
      v (p @ '':'' @ t @ '':'' @ s) = v (p' @ '':'' @ t' @ '':'' @ s')"
    using base32_inj [OF _ small small] unfolding deriveActionId_def num by metis
  also have "\<dots> \<longleftrightarrow> take 16 (digest (encode (p @ '':'' @ t @ '':'' @ s))) = take 16 (digest (encode (p' @ '':'' @ t' @ '':'' @ s')))"
    unfolding v_def using base256_inj assms by (metis length_take)
  finally show ?thesis using derived_valid by blast
qed

theorem derived_ids_faithful_witness:
  "ACTION_ID_RE (deriveActionId (sha256Hex (\<lambda>x. replicate 32 7) (\<lambda>_. [])) ''p'' ''t'' ''s'')"
  using derived_ids_faithful [of "\<lambda>x. replicate 32 7" "\<lambda>_. []" "''p''" "''t''" "''s''"] by simp

section \<open>Identity is stable\<close>

text \<open>The four attributes a processor writes back.\<close>

definition write_identity :: "action_identity \<Rightarrow> (string \<times> json) list \<Rightarrow> (string \<times> json) list" where
  "write_identity d attrs =
     obj_define (obj_define (obj_define (obj_define attrs
       ACTION_ID_KEY (JStr (ai_actionId d)))
       ACTION_CONFIDENCE_KEY (JStr (ai_confidence d)))
       ACTION_ROOT_ID_KEY (JStr (ai_rootActionId d)))
       ACTION_CAUSED_BY_ID_KEY (case ai_causedByActionId d of None \<Rightarrow> JNull | Some c \<Rightarrow> JStr c)"

lemma resolved_valid:
  "ACTION_ID_RE (ai_actionId (resolveActionIdentity sha s attrs))"
  "ACTION_ID_RE (ai_rootActionId (resolveActionIdentity sha s attrs))"
  "pred_option ACTION_ID_RE (ai_causedByActionId (resolveActionIdentity sha s attrs))"
  "pred_option ACTION_ID_RE (ai_agentRunId (resolveActionIdentity sha s attrs))"
  by (auto simp: resolveActionIdentity_def Let_def derived_valid asValid_Some run_ids_valid option.pred_map pred_option_def split: option.splits)

lemma resolved_confidence: "ai_confidence (resolveActionIdentity sha s attrs) \<in> {''explicit'', ''fallback''}"
  by (auto simp: resolveActionIdentity_def Let_def asConfidence_def split: option.splits if_splits)

text \<open>Attributes that hold a valid identity resolve to it, with the run their own run ids and kind say.\<close>

lemma resolve_kept:
  assumes valid: "ACTION_ID_RE (ai_actionId d)" "ACTION_ID_RE (ai_rootActionId d)" "pred_option ACTION_ID_RE (ai_causedByActionId d)"
    and conf: "ai_confidence d \<in> {''explicit'', ''fallback''}"
    and get: "map_get m ACTION_ID_KEY = Some (JStr (ai_actionId d))" "map_get m ACTION_CONFIDENCE_KEY = Some (JStr (ai_confidence d))"
      "map_get m ACTION_ROOT_ID_KEY = Some (JStr (ai_rootActionId d))"
      "map_get m ACTION_CAUSED_BY_ID_KEY = Some (case ai_causedByActionId d of None \<Rightarrow> JNull | Some c \<Rightarrow> JStr c)"
    and run: "(case first_some (run_id_attrs m) of Some i \<Rightarrow> Some i | None \<Rightarrow> if agent_kind m then Some (ai_actionId d) else None) = r"
  shows "resolveActionIdentity sha s m = d\<lparr>ai_agentRunId := r\<rparr>"
proof -
  have conf: "asConfidence (Some (JStr (ai_confidence d))) = Some (ai_confidence d)" using conf by (auto simp: asConfidence_def)
  have caused: "(case asValidActionId (Some (case ai_causedByActionId d of None \<Rightarrow> JNull | Some c \<Rightarrow> JStr c)) of Some i \<Rightarrow> Some i
      | None \<Rightarrow> if Some (case ai_causedByActionId d of None \<Rightarrow> JNull | Some c \<Rightarrow> JStr c) = Some JNull then None else x) = ai_causedByActionId d" for x
    using valid(3) by (cases "ai_causedByActionId d") (simp_all add: asValidActionId_def [of "Some JNull"])
  show ?thesis
    unfolding resolveActionIdentity_def [of sha s m] Let_def get conf caused asValid_known [OF valid(1)]
      first_some.simps asValid_known [OF valid(2)] option.case run by simp
qed

lemma resolve_written: "resolveActionIdentity sha s (write_identity (resolveActionIdentity sha s attrs) attrs) = resolveActionIdentity sha s attrs"
proof -
  define d where "d = resolveActionIdentity sha s attrs"
  define m where "m = write_identity d attrs"
  have same: "agent_kind m = agent_kind attrs" "run_id_attrs m = run_id_attrs attrs"
    by (simp_all add: agent_kind_def run_id_attrs_def string_at_def m_def write_identity_def map_get_define action_keys)
  have "resolveActionIdentity sha s m = d\<lparr>ai_agentRunId := ai_agentRunId d\<rparr>"
  proof (rule resolve_kept)
    show "(case first_some (run_id_attrs m) of Some i \<Rightarrow> Some i | None \<Rightarrow> if agent_kind m then Some (ai_actionId d) else None) = ai_agentRunId d"
      unfolding same by (auto simp: d_def resolveActionIdentity_def Let_def split: option.split)
  qed (use resolved_valid resolved_confidence in \<open>simp_all add: d_def m_def write_identity_def map_get_define action_keys\<close>)
  then show ?thesis by (simp add: m_def d_def)
qed

text \<open>The identity resolved for a span is valid in every part, and resolving it again after it was written to the attributes
  gives the same identity: an id once assigned is never replaced by a derived one, nor an absent cause by a derived one.
\<close>

theorem identity_stable:
  "let d = resolveActionIdentity sha s attrs in
     ACTION_ID_RE (ai_actionId d) \<and> ACTION_ID_RE (ai_rootActionId d) \<and> pred_option ACTION_ID_RE (ai_causedByActionId d) \<and>
     resolveActionIdentity sha s (write_identity d attrs) = d"
  using resolved_valid resolve_written by (simp add: Let_def)


end
