(* ===== verification/Gen_Ai.thy ===== *)
theory Gen_Ai
  imports Action_Identity
begin

text \<open>
  The fourth span processor, \<^verbatim>\<open>packages/obs-collector/src/plugins/gen-ai-normalizer.ts\<close>: attributes of the OpenTelemetry GenAI
  and MCP conventions are rewritten to the collector's own.  Addition of two token counts is a parameter (it rounds above
  \<open>2 ^ 53\<close>).  Shown: the processor keeps every span of a batch under its ids, changes only the attributes it derives, gives each AI span a valid action identity, and lets no redacted secret reappear; but a field configured for
  redaction by its canonical name is not redacted on a GenAI span, because redaction runs first.
\<close>

definition OPENINFERENCE_SPAN_KIND_KEY :: string where "OPENINFERENCE_SPAN_KIND_KEY = ''openinference.span.kind''"
definition AI_PAYLOAD_INPUT_KEY :: string where "AI_PAYLOAD_INPUT_KEY = ''ai.payload.input''"
definition AI_PAYLOAD_OUTPUT_KEY :: string where "AI_PAYLOAD_OUTPUT_KEY = ''ai.payload.output''"
definition ACTOR_TYPE_KEY :: string where "ACTOR_TYPE_KEY = ''obs.actor.type''"
definition TOOL_CALL_ID_KEY :: string where "TOOL_CALL_ID_KEY = ''obs.tool.call_id''"
definition TOOL_NAME_KEY :: string where "TOOL_NAME_KEY = ''obs.tool.name''"
definition TOOL_ARGS_KEY :: string where "TOOL_ARGS_KEY = ''obs.tool.args''"
definition TOOL_SIDE_EFFECT_KEY :: string where "TOOL_SIDE_EFFECT_KEY = ''obs.tool.side_effect''"
definition GEN_AI_PREFIX :: string where "GEN_AI_PREFIX = ''gen_ai.''"
definition MCP_PREFIX :: string where "MCP_PREFIX = ''mcp.''"

lemmas ai_keys = action_keys OPENINFERENCE_SPAN_KIND_KEY_def AI_PAYLOAD_INPUT_KEY_def AI_PAYLOAD_OUTPUT_KEY_def ACTOR_TYPE_KEY_def
  TOOL_CALL_ID_KEY_def TOOL_NAME_KEY_def TOOL_ARGS_KEY_def TOOL_SIDE_EFFECT_KEY_def

section \<open>Values\<close>

text \<open>\<^verbatim>\<open>a || b\<close> and \<^verbatim>\<open>a ?? b\<close> on attribute values, \<open>None\<close> being \<^verbatim>\<open>undefined\<close>.\<close>

definition js_either :: "json option \<Rightarrow> json option \<Rightarrow> json option" where
  "js_either a b = (if js_truthy a then a else b)"

definition nullish :: "json option \<Rightarrow> json option \<Rightarrow> json option" where
  "nullish a b = (if a = None \<or> a = Some JNull then b else a)"

definition operationToKind :: "json option \<Rightarrow> string" where
  "operationToKind op = (case op of
     Some (JStr s) \<Rightarrow>
       (let lower = toLowerCase s in
        if js_includes lower ''embed'' then ''EMBEDDING''
        else if js_includes lower ''tool'' then ''TOOL''
        else if js_includes lower ''agent'' then ''AGENT'' else ''LLM'')
   | _ \<Rightarrow> ''LLM'')"

definition asNumber :: "json option \<Rightarrow> js_number option" where
  "asNumber v = (case v of
     Some (JNum x) \<Rightarrow> if isFinite x then Some x else None
   | Some (JStr s) \<Rightarrow> (let parsed = js_Number s in if isFinite parsed then Some parsed else None)
   | _ \<Rightarrow> None)"

definition toJsonString :: "(rat \<Rightarrow> string) \<Rightarrow> json option \<Rightarrow> string option" where
  "toJsonString num v = (case v of None \<Rightarrow> None | Some JNull \<Rightarrow> None | Some (JStr s) \<Rightarrow> Some s | Some j \<Rightarrow> Some (stringify num j))"

definition SIDE_EFFECT_VERBS :: "string list" where
  "SIDE_EFFECT_VERBS = [''create'', ''delete'', ''insert'', ''mutate'', ''patch'', ''remove'', ''set'', ''update'', ''upsert'', ''write'']"

definition word_char :: "char \<Rightarrow> bool" where
  "word_char c \<longleftrightarrow> is_digit c \<or> 97 \<le> char_code c \<and> char_code c \<le> 122"

definition inferToolSideEffect :: "json option \<Rightarrow> json" where
  "inferToolSideEffect toolName = (case toolName of
     Some (JStr s) \<Rightarrow>
       (let firstToken = takeWhile word_char (dropWhile (\<lambda>c. \<not> word_char c) (toLowerCase (trim s)))
        in JNum (Num (if firstToken \<noteq> [] \<and> firstToken \<in> set SIDE_EFFECT_VERBS then 1 else 0)))
   | _ \<Rightarrow> JNum (Num 0))"

section \<open>Indexed messages\<close>

text \<open>\<^verbatim>\<open>Number.parseInt(s, 10)\<close>: leading space, a sign, then as many digits as there are; \<open>None\<close> is \<^verbatim>\<open>NaN\<close>.\<close>

definition js_parseInt :: "string \<Rightarrow> int option" where
  "js_parseInt s =
     (let t = dropWhile is_space s; neg = startsWith t ''-'';
          u = (if neg \<or> startsWith t ''+'' then tl t else t); ds = takeWhile is_digit u
      in if ds = [] then None else Some (if neg then - int (digits_val ds) else int (digits_val ds)))"

text \<open>
  The array \<^verbatim>\<open>messages\<close> is kept as its elements in index order.  An index that is negative or not below \<open>2 ^ 32 - 1\<close> names a
  property of the array and no element of it.
\<close>

fun set_message :: "nat \<Rightarrow> string \<Rightarrow> json \<Rightarrow> (nat \<times> (string \<times> json) list) list \<Rightarrow> (nat \<times> (string \<times> json) list) list" where
  "set_message i field v [] = [(i, obj_assign [] field v)]"
| "set_message i field v ((j, m) # ms) =
     (if i = j then (j, obj_assign m field v) # ms
      else if i < j then (i, obj_assign [] field v) # (j, m) # ms
      else (j, m) # set_message i field v ms)"

definition before_dot :: "string \<Rightarrow> string" where
  "before_dot rest = (if CHR ''.'' \<in> set rest then takeWhile (\<lambda>c. c \<noteq> CHR ''.'') rest else butlast rest)"

definition after_dot :: "string \<Rightarrow> string" where
  "after_dot rest = (if CHR ''.'' \<in> set rest then tl (dropWhile (\<lambda>c. c \<noteq> CHR ''.'') rest) else rest)"

definition add_message ::
  "string \<Rightarrow> (string \<times> json) \<Rightarrow> (nat \<times> (string \<times> json) list) list \<Rightarrow> (nat \<times> (string \<times> json) list) list" where
  "add_message pre kv ms =
     (let rest = drop (length pre + 1) (fst kv) in
      case js_parseInt (before_dot rest) of None \<Rightarrow> ms
      | Some idx \<Rightarrow> if 0 \<le> idx \<and> idx < 4294967295 then set_message (nat idx) (after_dot rest) (snd kv) ms else ms)"

definition collectIndexed :: "(string \<times> json) list \<Rightarrow> string \<Rightarrow> json option" where
  "collectIndexed attrs pre =
     (case map_get attrs pre of Some scalar \<Rightarrow> Some scalar
      | None \<Rightarrow>
          (let compact = foldl (\<lambda>ms kv. add_message pre kv ms) [] (filter (\<lambda>kv. startsWith (fst kv) (pre @ ''.'')) attrs)
           in if compact = [] then None else Some (JArr (map (\<lambda>m. JObj (snd m)) compact))))"

section \<open>Normalising a span\<close>

text \<open>An attribute and its aliases, all set when the attribute itself is not.\<close>

definition define_group :: "string \<Rightarrow> string list \<Rightarrow> json \<Rightarrow> (string \<times> json) list \<Rightarrow> (string \<times> json) list" where
  "define_group k aliases v m = (if map_get m k = None then foldl (\<lambda>m k. obj_define m k v) m (k # aliases) else m)"

abbreviation define_absent :: "string \<Rightarrow> json \<Rightarrow> (string \<times> json) list \<Rightarrow> (string \<times> json) list" where
  "define_absent k \<equiv> define_group k []"

definition mcp_method :: "(string \<times> json) list \<Rightarrow> json option" where
  "mcp_method attrs = js_either (map_get attrs ''mcp.method.name'') (map_get attrs ''mcp.method'')"

definition has_mcp :: "(string \<times> json) list \<Rightarrow> bool" where
  "has_mcp attrs \<longleftrightarrow> mcp_method attrs \<noteq> None \<or>
     js_either (map_get attrs ''jsonrpc.request.id'') (map_get attrs ''jsonrpc.id'') \<noteq> None \<or>
     list_ex (\<lambda>kv. startsWith (fst kv) MCP_PREFIX) attrs"

definition has_gen_ai :: "(string \<times> json) list \<Rightarrow> bool" where
  "has_gen_ai attrs = list_ex (\<lambda>kv. startsWith (fst kv) GEN_AI_PREFIX) attrs"

definition is_ai_span :: "(string \<times> json) list \<Rightarrow> bool" where
  "is_ai_span attrs \<longleftrightarrow> has_gen_ai attrs \<or> has_mcp attrs \<or> map_get attrs OPENINFERENCE_SPAN_KIND_KEY \<noteq> None"

definition span_kind_of :: "(string \<times> json) list \<Rightarrow> json option" where
  "span_kind_of attrs =
     (let kind = map_get attrs OPENINFERENCE_SPAN_KIND_KEY in
      if has_mcp attrs \<and> \<not> js_truthy kind then
        Some (JStr (if mcp_method attrs = Some (JStr ''tools/call'') then ''TOOL''
          else if mcp_method attrs = Some (JStr ''resources/read'') then ''RETRIEVER''
          else if mcp_method attrs = Some (JStr ''prompts/get'') then ''PROMPT'' else ''CHAIN''))
      else if has_gen_ai attrs \<and> \<not> js_truthy kind then Some (JStr (operationToKind (map_get attrs ''gen_ai.operation.name'')))
      else kind)"

definition action_kind_of :: "(string \<times> json) list \<Rightarrow> json option \<Rightarrow> json option" where
  "action_kind_of attrs kind =
     (let actionKind = map_get attrs ACTION_KIND_KEY in
      if \<not> js_truthy actionKind \<and> js_truthy kind then
        Some (JStr (if kind = Some (JStr ''AGENT'') then ''agent.step''
          else if kind = Some (JStr ''LLM'') then ''llm.call''
          else if kind = Some (JStr ''TOOL'') then ''tool.call''
          else if kind = Some (JStr ''RETRIEVER'') then ''retrieval''
          else if kind = Some (JStr ''EVALUATOR'') then ''eval'' else ''agent.step''))
      else actionKind)"

definition define_truthy :: "string \<Rightarrow> json option \<Rightarrow> (string \<times> json) list \<Rightarrow> (string \<times> json) list" where
  "define_truthy k v m = (if js_truthy v then obj_define m k (the v) else m)"

definition define_some :: "string \<Rightarrow> json option \<Rightarrow> (string \<times> json) list \<Rightarrow> (string \<times> json) list" where
  "define_some k v m = (case v of None \<Rightarrow> m | Some j \<Rightarrow> obj_define m k j)"

definition graph_attributes ::
  "(string \<Rightarrow> string) \<Rightarrow> stored_span \<Rightarrow> (string \<times> json) list \<Rightarrow> (string \<times> json) list \<Rightarrow> (string \<times> json) list" where
  "graph_attributes sha s attrs normalized =
     (let identity = resolveActionIdentity sha s attrs in
      define_absent AGENT_RUN_ID_KEY (JStr (case ai_agentRunId identity of Some i \<Rightarrow> i | None \<Rightarrow> ai_rootActionId identity))
        (define_absent ACTOR_TYPE_KEY (JStr ''agent'') (write_identity identity normalized)))"

definition mcp_tool_attributes ::
  "(rat \<Rightarrow> string) \<Rightarrow> stored_span \<Rightarrow> string \<Rightarrow> (string \<times> json) list \<Rightarrow> (string \<times> json) list \<Rightarrow> (string \<times> json) list" where
  "mcp_tool_attributes num s actionId attrs normalized =
     (let tName = the (nullish (map_get attrs ''mcp.tool.name'') (nullish (map_get attrs ''mcp.operation.name'')
            (nullish (map_get attrs ''mcp.name'') (Some (JStr (st_spanName s))))));
          rawArgs = nullish (map_get attrs ''mcp.tool.arguments'') (nullish (map_get attrs ''mcp.operation.arguments'')
            (map_get attrs ''mcp.arguments''));
          tArgs = JStr (case toJsonString num rawArgs of Some t \<Rightarrow> t | None \<Rightarrow> ''{}'');
          sideEffect = the (nullish (map_get attrs ''mcp.tool.side_effect'') (nullish (map_get attrs ''mcp.side_effect'')
            (Some (inferToolSideEffect (map_get attrs ''mcp.tool.name'')))))
      in define_group TOOL_SIDE_EFFECT_KEY [''obs.tool_call.side_effect''] sideEffect
           (define_group TOOL_ARGS_KEY [''obs.tool_call.args'', AI_PAYLOAD_INPUT_KEY] tArgs
             (define_group TOOL_NAME_KEY [''obs.tool_call.tool_name''] tName
               (define_absent TOOL_CALL_ID_KEY (JStr actionId) normalized))))"

definition text_value :: "json option \<Rightarrow> json option" where
  "text_value v = (case v of Some (JStr s) \<Rightarrow> v | _ \<Rightarrow> None)"

definition model_attributes :: "(string \<times> json) list \<Rightarrow> json option \<Rightarrow> (string \<times> json) list \<Rightarrow> (string \<times> json) list" where
  "model_attributes attrs kind normalized =
     (let model = js_either (map_get attrs ''gen_ai.response.model'') (map_get attrs ''gen_ai.request.model'');
          provider = map_get attrs ''gen_ai.system'' in
      if kind = Some (JStr ''LLM'')
      then define_some ''llm.provider'' (text_value provider) (define_some ''llm.model_name'' (text_value model) normalized)
      else if kind = Some (JStr ''EMBEDDING'')
      then define_some ''embedding.provider'' (text_value provider) (define_some ''embedding.model_name'' (text_value model) normalized)
      else normalized)"

definition token_attributes ::
  "(js_number \<Rightarrow> js_number \<Rightarrow> js_number) \<Rightarrow> (string \<times> json) list \<Rightarrow> (string \<times> json) list \<Rightarrow> (string \<times> json) list" where
  "token_attributes add attrs normalized =
     (let promptTokens = first_some (map (\<lambda>k. asNumber (map_get attrs k)) [''gen_ai.usage.input_tokens'', ''gen_ai.usage.prompt_tokens'']);
          completionTokens = first_some (map (\<lambda>k. asNumber (map_get attrs k)) [''gen_ai.usage.output_tokens'', ''gen_ai.usage.completion_tokens'']);
          both = (case (promptTokens, completionTokens) of (Some p, Some c) \<Rightarrow> Some (JNum (add p c)) | _ \<Rightarrow> None)
      in define_some ''llm.token_count.total'' both
           (define_some ''llm.token_count.completion'' (map_option JNum completionTokens)
             (define_some ''llm.token_count.prompt'' (map_option JNum promptTokens) normalized)))"

definition payload_attribute :: "(rat \<Rightarrow> string) \<Rightarrow> (string \<times> json) list \<Rightarrow> string \<Rightarrow> string \<Rightarrow> (string \<times> json) list \<Rightarrow> (string \<times> json) list" where
  "payload_attribute num attrs k pre normalized =
     (case collectIndexed attrs pre of None \<Rightarrow> normalized
      | Some input \<Rightarrow> define_absent k (JStr (case toJsonString num (Some input) of Some t \<Rightarrow> t | None \<Rightarrow> [])) normalized)"

definition normalized_attributes ::
  "(rat \<Rightarrow> string) \<Rightarrow> (js_number \<Rightarrow> js_number \<Rightarrow> js_number) \<Rightarrow> (string \<Rightarrow> string) \<Rightarrow> stored_span \<Rightarrow> (string \<times> json) list \<Rightarrow> (string \<times> json) list" where
  "normalized_attributes num add sha s attrs =
     (let kind = span_kind_of attrs;
          identity = resolveActionIdentity sha s attrs;
          n1 = define_truthy OPENINFERENCE_SPAN_KIND_KEY kind attrs;
          n2 = graph_attributes sha s attrs n1;
          n3 = define_truthy ACTION_KIND_KEY (action_kind_of attrs kind) n2;
          n4 = (if has_mcp attrs \<and> kind = Some (JStr ''TOOL'') then mcp_tool_attributes num s (ai_actionId identity) attrs n3 else n3);
          n5 = model_attributes attrs kind n4;
          n6 = token_attributes add attrs n5;
          n7 = payload_attribute num attrs AI_PAYLOAD_INPUT_KEY ''gen_ai.prompt'' n6
      in payload_attribute num attrs AI_PAYLOAD_OUTPUT_KEY ''gen_ai.completion'' n7)"

definition gen_ai_normalize ::
  "(rat \<Rightarrow> string) \<Rightarrow> (js_number \<Rightarrow> js_number \<Rightarrow> js_number) \<Rightarrow> (string \<Rightarrow> string) \<Rightarrow> stored_span \<Rightarrow> stored_span" where
  "gen_ai_normalize num add sha s =
     (let attrs = parseJsonRecord (Some (st_attributesJson s)) in
      if \<not> is_ai_span attrs then s
      else s\<lparr>st_attributesJson := stringify num (JObj (normalized_attributes num add sha s attrs))\<rparr>)"

definition genAiNormalizer ::
  "(rat \<Rightarrow> string) \<Rightarrow> (js_number \<Rightarrow> js_number \<Rightarrow> js_number) \<Rightarrow> (string \<Rightarrow> string) \<Rightarrow> ('c, stored_span) processor" where
  "genAiNormalizer num add sha =
     \<lparr>processor_name = ''gen-ai-normalizer'', process = \<lambda>spans ctx. Inr (map (gen_ai_normalize num add sha) spans)\<rparr>"

section \<open>What each part writes\<close>

lemma get_defines: "map_get (foldl (\<lambda>m k. obj_define m k v) m ks) k' = (if k' \<in> set ks then Some v else map_get m k')"
  by (induction ks arbitrary: m) (auto simp: map_get_define)

lemma get_group:
  "map_get (define_group k aliases v m) k' = (if map_get m k = None \<and> k' \<in> set (k # aliases) then Some v else map_get m k')"
  unfolding define_group_def by (simp add: get_defines del: foldl_Cons)

lemma get_truthy: "map_get (define_truthy k v m) k' = (if k' = k \<and> js_truthy v then v else map_get m k')"
  by (auto simp: define_truthy_def map_get_define js_truthy_def split: option.splits)

lemma get_some: "map_get (define_some k v m) k' = (if k' = k \<and> v \<noteq> None then v else map_get m k')"
  by (auto simp: define_some_def map_get_define split: option.splits)

definition GRAPH_KEYS :: "string list" where
  "GRAPH_KEYS = [ACTION_ID_KEY, ACTION_CONFIDENCE_KEY, ACTION_ROOT_ID_KEY, ACTION_CAUSED_BY_ID_KEY]"

definition TOOL_KEYS :: "string list" where
  "TOOL_KEYS = [TOOL_CALL_ID_KEY, TOOL_NAME_KEY, ''obs.tool_call.tool_name'', TOOL_ARGS_KEY, ''obs.tool_call.args'',
     TOOL_SIDE_EFFECT_KEY, ''obs.tool_call.side_effect'', AI_PAYLOAD_INPUT_KEY]"

definition MODEL_KEYS :: "string list" where
  "MODEL_KEYS = [''llm.model_name'', ''llm.provider'', ''embedding.model_name'', ''embedding.provider'',
     ''llm.token_count.prompt'', ''llm.token_count.completion'', ''llm.token_count.total'']"

definition DERIVED_KEYS :: "string list" where
  "DERIVED_KEYS = GRAPH_KEYS @ TOOL_KEYS @ MODEL_KEYS @
     [OPENINFERENCE_SPAN_KIND_KEY, ACTION_KIND_KEY, ACTOR_TYPE_KEY, AGENT_RUN_ID_KEY, AI_PAYLOAD_OUTPUT_KEY]"

lemma get_identity_other: "k \<notin> set GRAPH_KEYS \<Longrightarrow> map_get (write_identity d m) k = map_get m k"
  by (simp add: write_identity_def map_get_define GRAPH_KEYS_def)

lemma get_graph:
  "map_get (graph_attributes sha s attrs m) k =
     (if k = AGENT_RUN_ID_KEY \<and> map_get m k = None
      then Some (JStr (case ai_agentRunId (resolveActionIdentity sha s attrs) of Some i \<Rightarrow> i | None \<Rightarrow> ai_rootActionId (resolveActionIdentity sha s attrs)))
      else if k = ACTOR_TYPE_KEY \<and> map_get m k = None then Some (JStr ''agent'')
      else map_get (write_identity (resolveActionIdentity sha s attrs) m) k)"
proof -
  have "AGENT_RUN_ID_KEY \<notin> set GRAPH_KEYS" "ACTOR_TYPE_KEY \<notin> set GRAPH_KEYS" "AGENT_RUN_ID_KEY \<noteq> ACTOR_TYPE_KEY"
    by (simp_all add: GRAPH_KEYS_def ai_keys)
  then show ?thesis by (auto simp: graph_attributes_def Let_def get_group get_identity_other)
qed

lemma tool_keys_distinct: "distinct TOOL_KEYS"
  by (simp add: TOOL_KEYS_def ai_keys)

lemma get_tool_other: "k \<notin> set TOOL_KEYS \<Longrightarrow> map_get (mcp_tool_attributes num s i attrs m) k = map_get m k"
  by (simp add: mcp_tool_attributes_def Let_def get_group TOOL_KEYS_def)

lemma group_keeps: "k' \<notin> set aliases \<Longrightarrow> map_get m k' \<noteq> None \<Longrightarrow> map_get (define_group k aliases v m) k' = map_get m k'"
  by (auto simp: get_group)

lemma get_tool_guarded:
  assumes "k \<in> {TOOL_CALL_ID_KEY, TOOL_NAME_KEY, TOOL_ARGS_KEY, TOOL_SIDE_EFFECT_KEY}" and "map_get m k \<noteq> None"
  shows "map_get (mcp_tool_attributes num s i attrs m) k = map_get m k"
proof -
  have k: "k \<notin> {''obs.tool_call.tool_name'', ''obs.tool_call.args'', ''obs.tool_call.side_effect'', AI_PAYLOAD_INPUT_KEY}"
    using assms(1) by (auto simp: ai_keys)
  show ?thesis unfolding mcp_tool_attributes_def Let_def
    using k assms(2) by (simp add: group_keeps)
qed

lemma get_model_other:
  "k \<notin> set MODEL_KEYS \<Longrightarrow> map_get (model_attributes attrs kind m) k = map_get m k"
  "k \<notin> set MODEL_KEYS \<Longrightarrow> map_get (token_attributes add attrs m) k = map_get m k"
  by (simp_all add: model_attributes_def token_attributes_def Let_def get_some MODEL_KEYS_def)

lemma get_payload: "map_get (payload_attribute num attrs k pre m) k' =
    (if k' = k \<and> map_get m k = None \<and> collectIndexed attrs pre \<noteq> None
     then Some (JStr (case toJsonString num (collectIndexed attrs pre) of Some t \<Rightarrow> t | None \<Rightarrow> [])) else map_get m k')"
  by (auto simp: payload_attribute_def get_group split: option.splits)

lemma get_normalized_other: "k \<notin> set DERIVED_KEYS \<Longrightarrow> map_get (normalized_attributes num add sha s attrs) k = map_get attrs k"
  by (simp add: normalized_attributes_def Let_def get_payload get_model_other get_truthy get_graph get_identity_other get_tool_other
      DERIVED_KEYS_def TOOL_KEYS_def)

lemma derived_distinct: "distinct DERIVED_KEYS"
  by (simp add: DERIVED_KEYS_def GRAPH_KEYS_def TOOL_KEYS_def MODEL_KEYS_def ai_keys)

lemma get_normalized_guarded:
  assumes "k \<in> {ACTOR_TYPE_KEY, AGENT_RUN_ID_KEY, TOOL_CALL_ID_KEY, TOOL_NAME_KEY, TOOL_ARGS_KEY, TOOL_SIDE_EFFECT_KEY, AI_PAYLOAD_OUTPUT_KEY}"
    and "map_get attrs k \<noteq> None"
  shows "map_get (normalized_attributes num add sha s attrs) k = map_get attrs k"
proof -
  have k: "k \<notin> set MODEL_KEYS" "k \<notin> set GRAPH_KEYS" "k \<noteq> OPENINFERENCE_SPAN_KIND_KEY" "k \<noteq> ACTION_KIND_KEY" "k \<noteq> AI_PAYLOAD_INPUT_KEY"
    using assms(1) by (auto simp: MODEL_KEYS_def GRAPH_KEYS_def ai_keys)
  have tool: "map_get (mcp_tool_attributes num s i attrs m) k = map_get attrs k" if "map_get m k = map_get attrs k" for i m
  proof (cases "k \<in> set TOOL_KEYS")
    case True
    then show ?thesis using get_tool_guarded [of k m num s i attrs] that assms by (auto simp: TOOL_KEYS_def ai_keys)
  next
    case False
    then show ?thesis using that by (simp add: get_tool_other)
  qed
  have graph: "map_get (graph_attributes sha s attrs m) k = map_get attrs k" if "map_get m k = map_get attrs k" for m
    using that assms(2) k(2) by (auto simp: get_graph get_identity_other)
  have payload: "map_get (payload_attribute num attrs k' pre m) k = map_get attrs k" if "map_get m k = map_get attrs k" for k' pre m
    using that assms(2) by (auto simp: get_payload)
  show ?thesis unfolding normalized_attributes_def Let_def
    by (intro payload) (simp add: get_model_other k get_truthy graph tool)
qed

section \<open>Properties of the written attributes\<close>

definition SOURCE_KEYS :: "string list" where
  "SOURCE_KEYS = [''mcp.tool.name'', ''mcp.operation.name'', ''mcp.name'', ''mcp.tool.side_effect'', ''mcp.side_effect'',
     ''gen_ai.response.model'', ''gen_ai.request.model'', ''gen_ai.system'', OPENINFERENCE_SPAN_KIND_KEY, ACTION_KIND_KEY]"

definition prompt_numbers :: "(string \<times> json) list \<Rightarrow> js_number list" where
  "prompt_numbers attrs = List.map_filter (\<lambda>k. asNumber (map_get attrs k)) [''gen_ai.usage.input_tokens'', ''gen_ai.usage.prompt_tokens'']"

definition completion_numbers :: "(string \<times> json) list \<Rightarrow> js_number list" where
  "completion_numbers attrs = List.map_filter (\<lambda>k. asNumber (map_get attrs k)) [''gen_ai.usage.output_tokens'', ''gen_ai.usage.completion_tokens'']"

definition token_numbers :: "(js_number \<Rightarrow> js_number \<Rightarrow> js_number) \<Rightarrow> (string \<times> json) list \<Rightarrow> js_number list" where
  "token_numbers add attrs = prompt_numbers attrs @ completion_numbers attrs @
     concat (map (\<lambda>p. map (add p) (completion_numbers attrs)) (prompt_numbers attrs))"

text \<open>Whatever holds of the incoming attributes and survives setting a derived key to a value of the kinds the processor writes
  holds of the outgoing ones.\<close>

lemma keys_in_derived:
  "set GRAPH_KEYS \<subseteq> set DERIVED_KEYS" "set TOOL_KEYS \<subseteq> set DERIVED_KEYS" "set MODEL_KEYS \<subseteq> set DERIVED_KEYS"
  "{OPENINFERENCE_SPAN_KIND_KEY, ACTION_KIND_KEY, ACTOR_TYPE_KEY, AGENT_RUN_ID_KEY, AI_PAYLOAD_OUTPUT_KEY, AI_PAYLOAD_INPUT_KEY} \<subseteq> set DERIVED_KEYS"
  by (auto simp: DERIVED_KEYS_def TOOL_KEYS_def)

lemma first_some_filter: "first_some (map f ks) = Some x \<Longrightarrow> x \<in> set (List.map_filter f ks)"
  by (induction ks) (auto simp: List.map_filter_simps split: option.splits)

lemma token_members:
  "x \<in> set (prompt_numbers attrs) \<Longrightarrow> x \<in> set (token_numbers add attrs)"
  "y \<in> set (completion_numbers attrs) \<Longrightarrow> y \<in> set (token_numbers add attrs)"
  "x \<in> set (prompt_numbers attrs) \<Longrightarrow> y \<in> set (completion_numbers attrs) \<Longrightarrow> add x y \<in> set (token_numbers add attrs)"
  unfolding token_numbers_def by auto

locale written_attributes =
  fixes Q :: "(string \<times> json) list \<Rightarrow> bool" and V :: "json \<Rightarrow> bool" and attrs :: "(string \<times> json) list"
    and add :: "js_number \<Rightarrow> js_number \<Rightarrow> js_number"
  assumes start: "Q attrs"
    and define_step: "Q m \<Longrightarrow> k \<in> set DERIVED_KEYS \<Longrightarrow> V v \<Longrightarrow> Q (obj_define m k v)"
    and texts: "V (JStr t)" and nulls: "V JNull" and flags: "V (JNum (Num 0))" "V (JNum (Num 1))"
    and tokens: "x \<in> set (token_numbers add attrs) \<Longrightarrow> V (JNum x)"
    and sources: "k \<in> set SOURCE_KEYS \<Longrightarrow> map_get attrs k = Some v \<Longrightarrow> V v"
begin

lemma group_step: "Q m \<Longrightarrow> set (k # ks) \<subseteq> set DERIVED_KEYS \<Longrightarrow> V v \<Longrightarrow> Q (define_group k ks v m)"
proof -
  have "Q m \<Longrightarrow> set xs \<subseteq> set DERIVED_KEYS \<Longrightarrow> V v \<Longrightarrow> Q (foldl (\<lambda>m k. obj_define m k v) m xs)" for xs m
    by (induction xs arbitrary: m) (simp_all add: define_step)
  then show "Q m \<Longrightarrow> set (k # ks) \<subseteq> set DERIVED_KEYS \<Longrightarrow> V v \<Longrightarrow> Q (define_group k ks v m)"
    by (simp only: define_group_def if_split) blast
qed

lemma some_step: "Q m \<Longrightarrow> k \<in> set DERIVED_KEYS \<Longrightarrow> (\<And>j. v = Some j \<Longrightarrow> V j) \<Longrightarrow> Q (define_some k v m)"
  by (cases v) (simp_all add: define_some_def define_step)

lemma truthy_step: "Q m \<Longrightarrow> k \<in> set DERIVED_KEYS \<Longrightarrow> (\<And>j. v = Some j \<Longrightarrow> V j) \<Longrightarrow> Q (define_truthy k v m)"
  by (cases v) (simp_all add: define_truthy_def define_step js_truthy_def)

definition value_ok :: "json option \<Rightarrow> bool" where "value_ok v \<longleftrightarrow> (\<forall>j. v = Some j \<longrightarrow> V j)"

lemma value_okD: "value_ok v \<Longrightarrow> v \<noteq> None \<Longrightarrow> V (the v)"
  by (auto simp: value_ok_def)

lemma nullish_ok: "value_ok a \<Longrightarrow> value_ok b \<Longrightarrow> value_ok (nullish a b)"
  by (simp add: nullish_def)

lemma nullish_some: "b \<noteq> None \<Longrightarrow> nullish a b \<noteq> None"
  by (simp add: nullish_def)

lemma source_ok: "k \<in> set SOURCE_KEYS \<Longrightarrow> value_ok (map_get attrs k)"
  by (auto simp: value_ok_def intro: sources)

lemma graph_step: "Q m \<Longrightarrow> Q (graph_attributes sha s attrs m)"
  unfolding graph_attributes_def write_identity_def Let_def
  by (intro group_step define_step texts) (auto simp: texts nulls DERIVED_KEYS_def GRAPH_KEYS_def split: option.splits)

lemma side_effect_value: "V (inferToolSideEffect v)"
  by (auto simp: inferToolSideEffect_def flags Let_def split: option.splits json.splits)

lemma tool_step:
  assumes "Q m"
  shows "Q (mcp_tool_attributes num s i attrs m)"
proof -
  have src: "value_ok (map_get attrs ''mcp.tool.name'')" "value_ok (map_get attrs ''mcp.operation.name'')" "value_ok (map_get attrs ''mcp.name'')"
    "value_ok (map_get attrs ''mcp.tool.side_effect'')" "value_ok (map_get attrs ''mcp.side_effect'')"
    by (rule source_ok, simp add: SOURCE_KEYS_def)+
  have lit: "value_ok (Some (JStr (st_spanName s)))" "value_ok (Some (inferToolSideEffect (map_get attrs ''mcp.tool.name'')))"
    by (simp_all add: value_ok_def texts side_effect_value)
  have tName: "V (the (nullish (map_get attrs ''mcp.tool.name'') (nullish (map_get attrs ''mcp.operation.name'')
      (nullish (map_get attrs ''mcp.name'') (Some (JStr (st_spanName s)))))))"
    by (intro value_okD nullish_ok nullish_some src lit) simp
  have side: "V (the (nullish (map_get attrs ''mcp.tool.side_effect'') (nullish (map_get attrs ''mcp.side_effect'')
      (Some (inferToolSideEffect (map_get attrs ''mcp.tool.name''))))))"
    by (intro value_okD nullish_ok nullish_some src lit) simp
  have keys: "k \<in> set DERIVED_KEYS" if "k \<in> set TOOL_KEYS" for k using that keys_in_derived(2) by blast
  show ?thesis unfolding mcp_tool_attributes_def Let_def
    by (intro group_step texts tName side assms) (simp_all add: keys TOOL_KEYS_def)
qed

lemma text_value_ok: "text_value v = Some j \<Longrightarrow> V j"
  by (auto simp: text_value_def texts split: option.splits json.splits)

lemma model_step: "Q m \<Longrightarrow> Q (model_attributes attrs kind m)"
  unfolding model_attributes_def Let_def
  using keys_in_derived(3) text_value_ok by (auto intro!: some_step simp: MODEL_KEYS_def)

lemma token_step:
  assumes "Q m"
  shows "Q (token_attributes add attrs m)"
proof -
  define p where "p = first_some (map (\<lambda>k. asNumber (map_get attrs k)) [''gen_ai.usage.input_tokens'', ''gen_ai.usage.prompt_tokens''])"
  define c where "c = first_some (map (\<lambda>k. asNumber (map_get attrs k)) [''gen_ai.usage.output_tokens'', ''gen_ai.usage.completion_tokens''])"
  have p: "x \<in> set (prompt_numbers attrs)" if "p = Some x" for x
    using that unfolding p_def prompt_numbers_def by (rule first_some_filter)
  have c: "y \<in> set (completion_numbers attrs)" if "c = Some y" for y
    using that unfolding c_def completion_numbers_def by (rule first_some_filter)
  have vals: "p = Some x \<Longrightarrow> V (JNum x)" "c = Some y \<Longrightarrow> V (JNum y)" "p = Some x \<Longrightarrow> c = Some y \<Longrightarrow> V (JNum (add x y))" for x y
    using token_members p c tokens by blast+
  have keys: "''llm.token_count.total'' \<in> set DERIVED_KEYS" "''llm.token_count.completion'' \<in> set DERIVED_KEYS" "''llm.token_count.prompt'' \<in> set DERIVED_KEYS"
    using keys_in_derived(3) by (simp_all add: MODEL_KEYS_def subset_iff)
  have prompts: "V j" if "map_option JNum p = Some j" for j using that vals(1) by auto
  have completions: "V j" if "map_option JNum c = Some j" for j using that vals(2) by auto
  have totals: "V j" if "(case (p, c) of (Some p, Some c) \<Rightarrow> Some (JNum (add p c)) | _ \<Rightarrow> None) = Some j" for j
    using that vals(3) by (auto split: option.splits)
  show ?thesis unfolding token_attributes_def Let_def p_def [symmetric] c_def [symmetric]
    by (rule some_step [OF some_step [OF some_step [OF assms keys(3) prompts] keys(2) completions] keys(1) totals])
qed

lemma payload_step: "Q m \<Longrightarrow> k \<in> set DERIVED_KEYS \<Longrightarrow> Q (payload_attribute num attrs k pre m)"
  unfolding payload_attribute_def by (auto intro!: group_step texts split: option.splits)

lemma kind_value: "span_kind_of attrs = Some j \<Longrightarrow> V j"
  by (auto simp: span_kind_of_def Let_def texts SOURCE_KEYS_def intro: sources [of OPENINFERENCE_SPAN_KIND_KEY] split: if_splits)

lemma action_kind_value: "action_kind_of attrs kind = Some j \<Longrightarrow> V j"
  by (auto simp: action_kind_of_def Let_def texts SOURCE_KEYS_def intro: sources [of ACTION_KIND_KEY] split: if_splits)

lemma normalized_holds: "Q (normalized_attributes num add sha s attrs)"
proof -
  have "Q (define_truthy OPENINFERENCE_SPAN_KIND_KEY (span_kind_of attrs) attrs)"
    using start kind_value keys_in_derived(4) by (intro truthy_step) auto
  note graph_step [OF this, of sha s]
  then have "Q (define_truthy ACTION_KIND_KEY (action_kind_of attrs (span_kind_of attrs))
      (graph_attributes sha s attrs (define_truthy OPENINFERENCE_SPAN_KIND_KEY (span_kind_of attrs) attrs)))"
    using action_kind_value keys_in_derived(4) by (intro truthy_step) auto
  moreover have "Q (if b then mcp_tool_attributes num s i attrs m else m)" if "Q m" for b i m
    using that tool_step by simp
  moreover have "AI_PAYLOAD_INPUT_KEY \<in> set DERIVED_KEYS" "AI_PAYLOAD_OUTPUT_KEY \<in> set DERIVED_KEYS" using keys_in_derived(4) by simp_all
  ultimately show ?thesis unfolding normalized_attributes_def Let_def
    by (intro payload_step token_step model_step)
qed

end

section \<open>Printing and redaction survive\<close>

definition numbers_ok :: "(rat \<Rightarrow> string) \<Rightarrow> (js_number \<Rightarrow> js_number \<Rightarrow> js_number) \<Rightarrow> (string \<times> json) list \<Rightarrow> bool" where
  "numbers_ok num add attrs \<longleftrightarrow> printable_json num (JObj attrs) \<and>
     list_all (\<lambda>x. printable_json num (JNum x)) (Num 0 # Num 1 # token_numbers add attrs)"

lemma attr_member: "map_get attrs k = Some v \<Longrightarrow> (k, v) \<in> set attrs"
  by (simp add: map_get_def map_of_SomeD)

interpretation printed: written_attributes "\<lambda>m. numbers_ok num add attrs \<longrightarrow> printable_json num (JObj m)"
  "\<lambda>v. numbers_ok num add attrs \<longrightarrow> printable_json num v" attrs add for num attrs add
proof
  show "numbers_ok num add attrs \<longrightarrow> printable_json num (JObj (obj_define m k v))"
    if "numbers_ok num add attrs \<longrightarrow> printable_json num (JObj m)" "numbers_ok num add attrs \<longrightarrow> printable_json num v" for m k v
    using that printable_define by blast
  show "numbers_ok num add attrs \<longrightarrow> printable_json num v" if "map_get attrs k = Some v" for k v
    using attr_member [OF that] by (auto simp: numbers_ok_def list_all_iff)
qed (auto simp: numbers_ok_def list_all_iff simp del: printable_json.simps(1))

definition keys_public :: "string list \<Rightarrow> bool" where
  "keys_public flds = list_all (\<lambda>k. \<not> shouldRedactKey k flds) (DERIVED_KEYS @ SOURCE_KEYS @ [''gen_ai.prompt'', ''gen_ai.completion''])"

lemma member_redacted:
  "redacted secret (JObj attrs) \<Longrightarrow> map_get attrs k = Some v \<Longrightarrow> if secret k then v = JStr REDACTED_VALUE else redacted secret v"
  using attr_member [of attrs k v] by (fastforce simp: list_all_iff)

interpretation hidden: written_attributes "\<lambda>m. redacted (secret_key flds) (JObj attrs) \<and> keys_public flds \<longrightarrow> redacted (secret_key flds) (JObj m)"
  "\<lambda>v. redacted (secret_key flds) (JObj attrs) \<and> keys_public flds \<longrightarrow> redacted (secret_key flds) v" attrs add for flds attrs add
proof
  let ?H = "redacted (secret_key flds) (JObj attrs) \<and> keys_public flds"
  show "?H \<longrightarrow> redacted (secret_key flds) (JObj (obj_define m k v))"
    if "?H \<longrightarrow> redacted (secret_key flds) (JObj m)" "k \<in> set DERIVED_KEYS" "?H \<longrightarrow> redacted (secret_key flds) v" for m k v
    using that redacted_define by (simp add: keys_public_def list_all_iff del: redacted.simps)
  show "?H \<longrightarrow> redacted (secret_key flds) v" if "k \<in> set SOURCE_KEYS" "map_get attrs k = Some v" for k v
    using member_redacted [of "secret_key flds" attrs k v] that by (simp add: keys_public_def list_all_iff del: redacted.simps)
qed simp_all

lemma secret_suffix: "shouldRedactKey k flds \<Longrightarrow> shouldRedactKey (pre @ k) flds"
proof -
  assume "shouldRedactKey k flds"
  then obtain f where f: "f \<in> set flds" "endsWith (toLowerCase k) f"
    by (auto simp: shouldRedactKey_def Let_def list_ex_iff endsWith_def)
  have "toLowerCase (pre @ k) = toLowerCase pre @ toLowerCase k" by (simp add: toLowerCase_def)
  moreover have "endsWith (toLowerCase pre @ toLowerCase k) f" using f(2) by (auto simp: endsWith_def)
  ultimately show ?thesis using f(1) by (auto simp: shouldRedactKey_def Let_def list_ex_iff)
qed

definition messages_redacted :: "(string \<Rightarrow> bool) \<Rightarrow> (nat \<times> (string \<times> json) list) list \<Rightarrow> bool" where
  "messages_redacted secret ms = list_all (\<lambda>m. redacted secret (JObj (snd m))) ms"

lemma redacted_assign:
  assumes "redacted secret (JObj m)" and "if secret k then v = JStr REDACTED_VALUE else redacted secret v"
  shows "redacted secret (JObj (obj_assign m k v))"
  using assms set_define [of m k v] by (fastforce simp: obj_assign_def list_all_iff split: if_splits)

lemma set_message_redacted:
  assumes "messages_redacted secret ms" and "if secret field then v = JStr REDACTED_VALUE else redacted secret v"
  shows "messages_redacted secret (set_message i field v ms)"
proof -
  have step: "redacted secret (JObj (obj_assign m field v))" if "redacted secret (JObj m)" for m
    using redacted_assign [OF that assms(2)] .
  have base: "redacted secret (JObj (obj_assign [] field v))" by (rule step) simp
  show ?thesis using assms(1) unfolding messages_redacted_def
    by (induction ms) (auto simp: base step simp del: redacted.simps(2))
qed

lemma after_dot_suffix: "\<exists>xs. rest = xs @ after_dot rest"
proof (cases "CHR ''.'' \<in> set rest")
  case True
  then have "dropWhile (\<lambda>c. c \<noteq> CHR ''.'') rest \<noteq> []" by (simp add: dropWhile_eq_Nil_conv)
  then have "(takeWhile (\<lambda>c. c \<noteq> CHR ''.'') rest @ [hd (dropWhile (\<lambda>c. c \<noteq> CHR ''.'') rest)]) @ tl (dropWhile (\<lambda>c. c \<noteq> CHR ''.'') rest) = rest"
    by simp
  then show ?thesis using True
    by (intro exI [of _ "takeWhile (\<lambda>c. c \<noteq> CHR ''.'') rest @ [hd (dropWhile (\<lambda>c. c \<noteq> CHR ''.'') rest)]"]) (simp add: after_dot_def)
qed (auto simp: after_dot_def)

lemma add_message_redacted:
  assumes "messages_redacted (secret_key flds) ms"
    and "if shouldRedactKey (fst kv) flds then snd kv = JStr REDACTED_VALUE else redacted (secret_key flds) (snd kv)"
  shows "messages_redacted (secret_key flds) (add_message pre kv ms)"
proof -
  define rest where "rest = drop (length pre + 1) (fst kv)"
  obtain xs where "fst kv = xs @ after_dot rest" using after_dot_suffix [of rest] unfolding rest_def by (metis append_assoc append_take_drop_id)
  then have "shouldRedactKey (after_dot rest) flds \<Longrightarrow> shouldRedactKey (fst kv) flds" by (metis secret_suffix)
  then have "if shouldRedactKey (after_dot rest) flds then snd kv = JStr REDACTED_VALUE else redacted (secret_key flds) (snd kv)"
    using assms(2) by (cases "shouldRedactKey (fst kv) flds") auto
  from set_message_redacted [OF assms(1) this] show ?thesis
    using assms(1) unfolding add_message_def Let_def rest_def [symmetric] by (simp split: option.splits)
qed

lemma collected_redacted:
  assumes red: "redacted (secret_key flds) (JObj attrs)" and pre: "\<not> shouldRedactKey pre flds" and j: "collectIndexed attrs pre = Some j"
  shows "redacted (secret_key flds) j"
proof (cases "map_get attrs pre")
  case None
  have fold: "messages_redacted (secret_key flds) ms \<Longrightarrow>
      list_all (\<lambda>kv. if shouldRedactKey (fst kv) flds then snd kv = JStr REDACTED_VALUE else redacted (secret_key flds) (snd kv)) kvs \<Longrightarrow>
      messages_redacted (secret_key flds) (foldl (\<lambda>ms kv. add_message pre kv ms) ms kvs)" for ms kvs
    by (induction kvs arbitrary: ms) (simp_all add: add_message_redacted)
  define compact where "compact = foldl (\<lambda>ms kv. add_message pre kv ms) [] (filter (\<lambda>kv. startsWith (fst kv) (pre @ ''.'')) attrs)"
  have "messages_redacted (secret_key flds) compact"
    unfolding compact_def using red by (intro fold) (auto simp: messages_redacted_def list_all_iff)
  moreover have "j = JArr (map (\<lambda>m. JObj (snd m)) compact)"
    using j None by (simp add: collectIndexed_def Let_def compact_def [symmetric] split: if_splits)
  ultimately show ?thesis by (simp add: messages_redacted_def list_all_iff del: redacted.simps(2))
next
  case (Some v)
  then show ?thesis using j member_redacted [OF red Some] pre by (simp add: collectIndexed_def del: redacted.simps)
qed

lemma endsWith_rev: "endsWith s f = prefix (rev f) (rev s)"
  by (metis endsWith_def suffix_def suffix_to_prefix append_eq_conv_conj append_take_drop_id diff_diff_cancel le_add2 length_append length_drop diff_add_inverse2)

text \<open>No name the normaliser reads or writes ends in a default secret field: they are lower case already, and are compared from
  their ends.\<close>

lemma default_public: "keys_public (toRedactionFieldSet None)"
proof -
  have fields: "toRedactionFieldSet None = DEFAULT_REDACT_FIELDS" by code_simp
  have lower: "list_all (\<lambda>k. toLowerCase k = k) (DERIVED_KEYS @ SOURCE_KEYS @ [''gen_ai.prompt'', ''gen_ai.completion''])" by code_simp
  have ends: "list_all (\<lambda>k. \<not> list_ex (\<lambda>f. prefix f (rev k)) (map rev DEFAULT_REDACT_FIELDS))
      (DERIVED_KEYS @ SOURCE_KEYS @ [''gen_ai.prompt'', ''gen_ai.completion''])" by code_simp
  show ?thesis unfolding keys_public_def fields
  proof (rule list_all_iff [THEN iffD2], rule ballI)
    fix k assume k: "k \<in> set (DERIVED_KEYS @ SOURCE_KEYS @ [''gen_ai.prompt'', ''gen_ai.completion''])"
    have "toLowerCase k = k" "\<not> list_ex (\<lambda>f. prefix f (rev k)) (map rev DEFAULT_REDACT_FIELDS)"
      using k lower ends unfolding list_all_iff by blast+
    then have "\<not> list_ex (\<lambda>f. endsWith k f) DEFAULT_REDACT_FIELDS" "toLowerCase k = k"
      by (auto simp: list_ex_iff endsWith_rev)
    moreover have "endsWith k k" by (simp add: endsWith_def)
    ultimately show "\<not> shouldRedactKey k DEFAULT_REDACT_FIELDS" by (auto simp: shouldRedactKey_def list_ex_iff)
  qed
qed

section \<open>Properties of the processor\<close>

lemma normalize_column:
  assumes "attrs = parseJsonRecord (Some (st_attributesJson s))" and "numbers_ok num add attrs" and "is_ai_span attrs"
  shows "parseJsonRecord (Some (st_attributesJson (gen_ai_normalize num add sha s))) = normalized_attributes num add sha s attrs"
proof -
  have p: "printable_json num (JObj (normalized_attributes num add sha s attrs))"
    using printed.normalized_holds [of num add attrs num sha s] assms(2) by blast
  have "stringify num (JObj (normalized_attributes num add sha s attrs)) \<noteq> []" using stringify_nonempty [OF p] .
  then show ?thesis using assms(1, 3) JSON_roundtrip [OF p]
    by (simp add: gen_ai_normalize_def Let_def parseJsonRecord_def del: stringify.simps)
qed

text \<open>The normaliser lets no redacted secret reappear: if the attributes of a span are redacted, those it writes are redacted too,
  and so is every prompt or completion it collects from indexed attributes before it prints it as a payload.  The names it reads
  and writes must not themselves be configured as secret; those of the default configuration are not.
\<close>

theorem normalizer_keeps_redaction:
  assumes "attrs = parseJsonRecord (Some (st_attributesJson s))" and "numbers_ok num add attrs"
    and "redacted (secret_key flds) (JObj attrs)" and "keys_public flds"
  shows "redacted (secret_key flds) (JObj (parseJsonRecord (Some (st_attributesJson (gen_ai_normalize num add sha s))))) \<and>
    (\<forall>pre \<in> {''gen_ai.prompt'', ''gen_ai.completion''}. \<forall>j. collectIndexed attrs pre = Some j \<longrightarrow> redacted (secret_key flds) j) \<and>
    keys_public (toRedactionFieldSet None)"
proof (intro conjI)
  show "redacted (secret_key flds) (JObj (parseJsonRecord (Some (st_attributesJson (gen_ai_normalize num add sha s)))))"
  proof (cases "is_ai_span attrs")
    case True
    have "redacted (secret_key flds) (JObj (normalized_attributes num add sha s attrs))"
      using hidden.normalized_holds [of flds attrs num add sha s] assms(3, 4) by blast
    then show ?thesis by (simp only: normalize_column [OF assms(1, 2) True])
  next
    case False
    then show ?thesis using assms(1, 3) by (simp only: gen_ai_normalize_def Let_def if_True simp_thms)
  qed
  have "\<not> shouldRedactKey ''gen_ai.prompt'' flds" "\<not> shouldRedactKey ''gen_ai.completion'' flds"
    using assms(4) by (simp_all add: keys_public_def)
  then show "\<forall>pre \<in> {''gen_ai.prompt'', ''gen_ai.completion''}. \<forall>j. collectIndexed attrs pre = Some j \<longrightarrow> redacted (secret_key flds) j"
    using collected_redacted [OF assms(3)] by (simp del: redacted.simps)
  show "keys_public (toRedactionFieldSet None)" by (rule default_public)
qed

lemma get_normalized_identity:
  assumes "k \<in> set GRAPH_KEYS"
  shows "map_get (normalized_attributes num add sha s attrs) k = map_get (write_identity (resolveActionIdentity sha s attrs) attrs) k"
proof -
  have k: "k \<notin> set TOOL_KEYS" "k \<notin> set MODEL_KEYS" "k \<notin> {OPENINFERENCE_SPAN_KIND_KEY, ACTION_KIND_KEY, ACTOR_TYPE_KEY, AGENT_RUN_ID_KEY, AI_PAYLOAD_OUTPUT_KEY, AI_PAYLOAD_INPUT_KEY}"
    using assms derived_distinct by (auto simp: DERIVED_KEYS_def TOOL_KEYS_def)
  define v where "v = map_get (write_identity (resolveActionIdentity sha s attrs) attrs) k"
  have v: "map_get (write_identity (resolveActionIdentity sha s attrs) m) k = v" for m
    using assms unfolding v_def by (auto simp: GRAPH_KEYS_def write_identity_def map_get_define)
  show ?thesis using k by (simp add: v normalized_attributes_def Let_def get_payload get_model_other get_truthy get_graph get_tool_other)
qed

text \<open>Normalising an AI span changes no attribute outside the derived ones, keeps the actor, the run, the tool fields and the output
  the sender set, and gives it a valid action id; whoever resolves the identity from the stored attributes again gets the same
  action, root, cause and confidence.
\<close>

theorem normalizer_frame:
  assumes "attrs = parseJsonRecord (Some (st_attributesJson s))" and "numbers_ok num add attrs" and "is_ai_span attrs"
  shows "let new = parseJsonRecord (Some (st_attributesJson (gen_ai_normalize num add sha s)));
      d = resolveActionIdentity sha s attrs; d' = resolveActionIdentity sha s new in
    (\<forall>k. k \<notin> set DERIVED_KEYS \<longrightarrow> map_get new k = map_get attrs k) \<and>
    (\<forall>k \<in> {ACTOR_TYPE_KEY, AGENT_RUN_ID_KEY, TOOL_CALL_ID_KEY, TOOL_NAME_KEY, TOOL_ARGS_KEY, TOOL_SIDE_EFFECT_KEY, AI_PAYLOAD_OUTPUT_KEY}.
       map_get attrs k \<noteq> None \<longrightarrow> map_get new k = map_get attrs k) \<and>
    map_get new ACTION_ID_KEY = Some (JStr (ai_actionId d)) \<and> ACTION_ID_RE (ai_actionId d) \<and>
    (ai_actionId d', ai_rootActionId d', ai_causedByActionId d', ai_confidence d') =
      (ai_actionId d, ai_rootActionId d, ai_causedByActionId d, ai_confidence d)"
proof -
  define d where "d = resolveActionIdentity sha s attrs"
  define new where "new = normalized_attributes num add sha s attrs"
  have get: "map_get new k = map_get (write_identity d attrs) k" if "k \<in> set GRAPH_KEYS" for k
    using get_normalized_identity [OF that, of num add sha s attrs] by (simp add: new_def d_def)
  have keys: "ACTION_ID_KEY \<in> set GRAPH_KEYS" "ACTION_CONFIDENCE_KEY \<in> set GRAPH_KEYS" "ACTION_ROOT_ID_KEY \<in> set GRAPH_KEYS" "ACTION_CAUSED_BY_ID_KEY \<in> set GRAPH_KEYS"
    by (simp_all add: GRAPH_KEYS_def)
  have valid: "ACTION_ID_RE (ai_actionId d)" "ACTION_ID_RE (ai_rootActionId d)" using resolved_valid by (simp_all add: d_def)
  have written: "map_get new ACTION_ID_KEY = Some (JStr (ai_actionId d))" "map_get new ACTION_ROOT_ID_KEY = Some (JStr (ai_rootActionId d))"
    unfolding get [OF keys(1)] get [OF keys(3)] by (simp_all add: write_identity_def map_get_define action_keys)
  have stable: "resolveActionIdentity sha s (write_identity d attrs) = d"
    using resolve_written [of sha s attrs] by (simp add: d_def)
  have "ai_actionId (resolveActionIdentity sha s new) = ai_actionId d" "ai_rootActionId (resolveActionIdentity sha s new) = ai_rootActionId d"
    using valid by (simp_all add: resolveActionIdentity_def Let_def written)
  moreover have "ai_causedByActionId (resolveActionIdentity sha s new) = ai_causedByActionId (resolveActionIdentity sha s (write_identity d attrs))"
    "ai_confidence (resolveActionIdentity sha s new) = ai_confidence (resolveActionIdentity sha s (write_identity d attrs))"
    unfolding resolveActionIdentity_def Let_def action_identity.select_convs get [OF keys(1)] get [OF keys(2)] get [OF keys(4)] by simp_all
  ultimately show ?thesis
    using written(1) valid(1) get_normalized_other get_normalized_guarded
    unfolding normalize_column [OF assms] Let_def new_def [symmetric] d_def [symmetric] stable by (auto simp: new_def)
qed

text \<open>Two faults of the order and of a missing guard.  Redaction runs before normalisation, so on a GenAI span a field configured for
  redaction by its canonical name, \<^verbatim>\<open>ai.payload.input\<close>, is written afterwards with the prompt in the clear; and on an MCP tool call
  without \<^verbatim>\<open>obs.tool.args\<close> a payload input the sender set is replaced by the arguments, \<^verbatim>\<open>{}\<close> when there are none.
\<close>

theorem payload_input_faults:
  "(map_get attrs AI_PAYLOAD_INPUT_KEY = None \<and> \<not> has_mcp attrs \<and> map_get attrs ''gen_ai.prompt'' = Some (JStr t) \<longrightarrow>
     map_get (normalized_attributes num add sha s attrs) AI_PAYLOAD_INPUT_KEY = Some (JStr t)) \<and>
   (has_mcp attrs \<and> span_kind_of attrs = Some (JStr ''TOOL'') \<and> map_get attrs TOOL_ARGS_KEY = None \<and>
     map_get attrs ''mcp.tool.arguments'' = None \<and> map_get attrs ''mcp.operation.arguments'' = None \<and> map_get attrs ''mcp.arguments'' = None \<longrightarrow>
     map_get (normalized_attributes num add sha s attrs) AI_PAYLOAD_INPUT_KEY = Some (JStr ''{}''))"
proof (intro conjI impI; elim conjE)
  have k: "AI_PAYLOAD_INPUT_KEY \<notin> set MODEL_KEYS" "AI_PAYLOAD_INPUT_KEY \<notin> set GRAPH_KEYS"
    "AI_PAYLOAD_INPUT_KEY \<notin> {OPENINFERENCE_SPAN_KIND_KEY, ACTION_KIND_KEY, ACTOR_TYPE_KEY, AGENT_RUN_ID_KEY, AI_PAYLOAD_OUTPUT_KEY}"
    by (simp_all add: MODEL_KEYS_def GRAPH_KEYS_def ai_keys)
  note gets = get_payload get_model_other get_truthy get_graph get_identity_other
  {
    assume "map_get attrs AI_PAYLOAD_INPUT_KEY = None" "\<not> has_mcp attrs" "map_get attrs ''gen_ai.prompt'' = Some (JStr t)"
    then show "map_get (normalized_attributes num add sha s attrs) AI_PAYLOAD_INPUT_KEY = Some (JStr t)"
      using k by (simp add: normalized_attributes_def Let_def gets collectIndexed_def toJsonString_def)
  }
  assume mcp: "has_mcp attrs" "span_kind_of attrs = Some (JStr ''TOOL'')" and args: "map_get attrs TOOL_ARGS_KEY = None"
    "map_get attrs ''mcp.tool.arguments'' = None" "map_get attrs ''mcp.operation.arguments'' = None" "map_get attrs ''mcp.arguments'' = None"
  have t: "TOOL_ARGS_KEY \<notin> set GRAPH_KEYS" "TOOL_ARGS_KEY \<notin> {OPENINFERENCE_SPAN_KIND_KEY, ACTION_KIND_KEY, ACTOR_TYPE_KEY, AGENT_RUN_ID_KEY}"
    "TOOL_ARGS_KEY \<notin> {TOOL_CALL_ID_KEY, TOOL_NAME_KEY, ''obs.tool_call.tool_name''}"
    "AI_PAYLOAD_INPUT_KEY \<notin> {TOOL_SIDE_EFFECT_KEY, ''obs.tool_call.side_effect''}"
    by (simp_all add: GRAPH_KEYS_def ai_keys)
  have "map_get (mcp_tool_attributes num s i attrs m) AI_PAYLOAD_INPUT_KEY = Some (JStr ''{}'')" if "map_get m TOOL_ARGS_KEY = None" for i m
    using that t args by (simp add: mcp_tool_attributes_def Let_def get_group nullish_def toJsonString_def)
  then show "map_get (normalized_attributes num add sha s attrs) AI_PAYLOAD_INPUT_KEY = Some (JStr ''{}'')"
    using mcp args(1) k t by (simp add: normalized_attributes_def Let_def gets)
qed

section \<open>The pipeline with the normaliser\<close>

lemma normalize_ids: "span_ids (gen_ai_normalize num add sha s) = span_ids s"
  by (simp add: gen_ai_normalize_def span_ids_def Let_def)

definition span_processors ::
  "(rat \<Rightarrow> string) \<Rightarrow> (js_number \<Rightarrow> js_number \<Rightarrow> js_number) \<Rightarrow> (string \<Rightarrow> string) \<Rightarrow> (string \<Rightarrow> string option) \<Rightarrow>
   (string option, stored_span) processor list" where
  "span_processors num add sha url_host = default_span_processors num url_host @ [genAiNormalizer num add sha]"

interpretation ai_spans: batch_pipeline "span_processors num add sha url_host" span_ids for num add sha url_host
proof
  fix p assume "p \<in> set (span_processors num add sha url_host)"
  then consider "p \<in> set (default_span_processors num url_host)" | "p = genAiNormalizer num add sha"
    by (auto simp: span_processors_def)
  then show "keeps_batch span_ids p"
  proof cases
    case 1
    then show ?thesis by (rule default_processors_keep)
  next
    case 2
    then show ?thesis
      by (intro keeps_batchI [where f = "\<lambda>_. gen_ai_normalize num add sha"]) (simp_all add: genAiNormalizer_def normalize_ids)
  qed
qed

section \<open>Witnesses\<close>

definition sample_ai :: "(string \<times> json) list" where
  "sample_ai = [(''gen_ai.prompt'', JStr ''hi''), (''token'', JStr REDACTED_VALUE)]"

abbreviation bit_text :: "rat \<Rightarrow> string" where "bit_text \<equiv> \<lambda>q. if q = 0 then ''0'' else ''1''"

lemma bit_numerals: "numeral_ok bit_text 0" "numeral_ok bit_text 1"
proof -
  have "decimal 0 = ''0''" "decimal 1 = ''1''" by code_simp+
  then have "js_Number ''0'' = Num 0" "js_Number ''1'' = Num 1" using js_Number_decimal [of 0] js_Number_decimal [of 1] by simp_all
  then show "numeral_ok bit_text 0" "numeral_ok bit_text 1"
    by (simp_all add: numeral_ok_def number_char_def is_digit_def char_code_def json_numeral_def startsWith_def exponent_part_def)
qed

lemma sample_ai_column:
  "printable_json bit_text (JObj sample_ai)"
  "parseJsonRecord (Some (stringify bit_text (JObj sample_ai))) = sample_ai"
proof -
  show p: "printable_json bit_text (JObj sample_ai)"
    by (simp add: sample_ai_def make_object_def obj_define_def is_index_def is_digit_def char_code_def)
  show "parseJsonRecord (Some (stringify bit_text (JObj sample_ai))) = sample_ai"
    using JSON_roundtrip [OF p] stringify_nonempty [OF p] by (simp add: parseJsonRecord_def del: stringify.simps)
qed

lemma sample_ai_ok: "numbers_ok bit_text add sample_ai" "is_ai_span sample_ai" "redacted (secret_key DEFAULT_REDACT_FIELDS) (JObj sample_ai)"
proof -
  have "token_numbers add sample_ai = []"
    by (simp add: token_numbers_def prompt_numbers_def completion_numbers_def sample_ai_def map_get_def asNumber_def List.map_filter_simps)
  then show "numbers_ok bit_text add sample_ai"
    using sample_ai_column(1) bit_numerals by (simp add: numbers_ok_def del: printable_json.simps(3))
  show "is_ai_span sample_ai" by (simp add: is_ai_span_def has_gen_ai_def sample_ai_def GEN_AI_PREFIX_def startsWith_def)
  have "\<not> shouldRedactKey ''gen_ai.prompt'' DEFAULT_REDACT_FIELDS" "shouldRedactKey ''token'' DEFAULT_REDACT_FIELDS" by code_simp+
  then show "redacted (secret_key DEFAULT_REDACT_FIELDS) (JObj sample_ai)" by (simp add: sample_ai_def)
qed

abbreviation sample_ai_span :: stored_span where
  "sample_ai_span \<equiv> sample_span (stringify bit_text (JObj sample_ai))"

lemma sample_ai_parsed: "sample_ai = parseJsonRecord (Some (st_attributesJson sample_ai_span))"
  using sample_ai_column(2) by (simp add: sample_span_def del: stringify.simps)

lemma default_fields: "toRedactionFieldSet None = DEFAULT_REDACT_FIELDS"
  by code_simp

theorem normalizer_keeps_redaction_witness:
  "redacted (secret_key DEFAULT_REDACT_FIELDS)
     (JObj (parseJsonRecord (Some (st_attributesJson (gen_ai_normalize bit_text (\<lambda>x y. x) (\<lambda>_. []) sample_ai_span)))))"
  using normalizer_keeps_redaction [OF sample_ai_parsed sample_ai_ok(1, 3) default_public [unfolded default_fields]] by blast

theorem normalizer_frame_witness:
  "map_get (parseJsonRecord (Some (st_attributesJson (gen_ai_normalize bit_text (\<lambda>x y. x) (\<lambda>_. []) sample_ai_span)))) ''token'' =
     Some (JStr REDACTED_VALUE)"
proof -
  have "''token'' \<notin> set DERIVED_KEYS" by (simp add: DERIVED_KEYS_def GRAPH_KEYS_def TOOL_KEYS_def MODEL_KEYS_def ai_keys)
  then show ?thesis using normalizer_frame [OF sample_ai_parsed sample_ai_ok(1, 2), of "\<lambda>x y. x" "\<lambda>_. []"]
    by (simp add: Let_def) (simp add: sample_ai_def map_get_def)
qed

theorem payload_input_faults_witness:
  "shouldRedactKey AI_PAYLOAD_INPUT_KEY (toRedactionFieldSet (Some ''ai.payload.input'')) \<and>
   map_get (normalized_attributes bit_text (\<lambda>x y. x) (\<lambda>_. []) sample_ai_span sample_ai) AI_PAYLOAD_INPUT_KEY = Some (JStr ''hi'')"
proof
  show "shouldRedactKey AI_PAYLOAD_INPUT_KEY (toRedactionFieldSet (Some ''ai.payload.input''))" by code_simp
  have "\<not> has_mcp sample_ai"
    by (simp add: has_mcp_def mcp_method_def js_either_def js_truthy_def sample_ai_def map_get_def MCP_PREFIX_def startsWith_def)
  then show "map_get (normalized_attributes bit_text (\<lambda>x y. x) (\<lambda>_. []) sample_ai_span sample_ai) AI_PAYLOAD_INPUT_KEY = Some (JStr ''hi'')"
    using payload_input_faults [of sample_ai "''hi''" bit_text "\<lambda>x y. x" "\<lambda>_. []" sample_ai_span]
    by (simp add: sample_ai_def map_get_def AI_PAYLOAD_INPUT_KEY_def)
qed

end
