(* ===== verification/Ai_Payloads.thy ===== *)
theory Ai_Payloads
  imports Gen_Ai Sql_Db
begin

text \<open>
  The last span processor, \<^verbatim>\<open>packages/obs-collector/src/plugins/ai-span-payloads-processor.ts\<close> with \<^verbatim>\<open>lib/payload-capture.ts\<close>: the
  prompt and the completion of an AI span move from its attributes to a side table, as text only where the project captures
  payloads.  The answer of the projects table, the failure of a write and the order in which the hashes of a batch are ready are
  parameters; the side table is a map from its primary key.  Shown: what is stripped and what is stored, span by span and for the
  table after a batch, in whatever order the rows arrive; and the two ways a payload is lost.
\<close>

section \<open>Payload capture\<close>

definition isTruthyFlag :: "json option \<Rightarrow> bool" where
  "isTruthyFlag v \<longleftrightarrow> v = Some (JBool True) \<or> v = Some (JNum (Num 1)) \<or> v = Some (JStr ''1'') \<or> v = Some (JStr ''true'')"

text \<open>The query answers with the flag of the project, \<open>None\<close> if there is no such row, or throws.\<close>

type_synonym capture_query = "string \<Rightarrow> string + json option"

definition isPayloadCaptureEnabled :: "json option \<Rightarrow> capture_query \<Rightarrow> string \<Rightarrow> string + bool" where
  "isPayloadCaptureEnabled captureDefault query projectId =
     (if isTruthyFlag captureDefault then Inr True
      else res_bind (query projectId) (\<lambda>flag. Inr (isTruthyFlag flag)))"

definition projectCaptureEnabled ::
  "json option \<Rightarrow> capture_query \<Rightarrow> (string, bool) js_map \<Rightarrow> string \<Rightarrow> string + (bool \<times> (string, bool) js_map)" where
  "projectCaptureEnabled captureDefault query captureByProject projectId =
     (case map_get captureByProject projectId of
        Some cached \<Rightarrow> Inr (cached, captureByProject)
      | None \<Rightarrow> res_bind (isPayloadCaptureEnabled captureDefault query projectId) (\<lambda>enabled.
          Inr (enabled, map_set captureByProject projectId enabled)))"

text \<open>A cache filled by earlier answers changes no answer.\<close>

lemma capture_cache:
  assumes "\<And>p b. map_get cache p = Some b \<Longrightarrow> isPayloadCaptureEnabled d query p = Inr b"
    and "projectCaptureEnabled d query cache pid = Inr (b, cache')"
  shows "isPayloadCaptureEnabled d query pid = Inr b"
    "map_get cache' p = Some b' \<Longrightarrow> isPayloadCaptureEnabled d query p = Inr b'"
  using assms by (auto simp: projectCaptureEnabled_def res_bind_eq_Inr map_get_set split: option.splits if_splits)

section \<open>One span\<close>

record payload_row =
  pr_projectId :: string
  pr_traceId :: string
  pr_spanId :: string
  pr_spanKind :: string
  pr_inputJson :: "string option"
  pr_outputJson :: "string option"
  pr_inputHash :: "string option"
  pr_outputHash :: "string option"
  pr_sessionId :: "string option"
  pr_userId :: "string option"
  pr_interactionId :: "string option"
  pr_actionId :: "string option"
  pr_receivedAt :: string
  pr_expiresAt :: string

definition USER_ID_KEY :: string where "USER_ID_KEY = ''user.id''"

definition OPENINFERENCE_SPAN_KIND_VALUES :: "string list" where
  "OPENINFERENCE_SPAN_KIND_VALUES =
     [''LLM'', ''CHAIN'', ''RETRIEVER'', ''EMBEDDING'', ''TOOL'', ''AGENT'', ''RERANKER'', ''GUARDRAIL'', ''EVALUATOR'', ''PROMPT'']"

definition isOpenInferenceSpanKind :: "json option \<Rightarrow> bool" where
  "isOpenInferenceSpanKind v \<longleftrightarrow> (case v of Some (JStr s) \<Rightarrow> s \<in> set OPENINFERENCE_SPAN_KIND_VALUES | _ \<Rightarrow> False)"

definition asString :: "json option \<Rightarrow> string option" where
  "asString v = (case v of Some (JStr s) \<Rightarrow> nonempty_text (Some s) | _ \<Rightarrow> None)"

definition payload_row_of :: "(rat \<Rightarrow> string) \<Rightarrow> (string \<Rightarrow> string) \<Rightarrow> bool \<Rightarrow> stored_span \<Rightarrow> (string \<times> json) list \<Rightarrow> payload_row" where
  "payload_row_of num sha capturePayloads s attrs =
     (let inputJson = toJsonString num (map_get attrs AI_PAYLOAD_INPUT_KEY);
          outputJson = toJsonString num (map_get attrs AI_PAYLOAD_OUTPUT_KEY)
      in \<lparr>pr_projectId = st_projectId s, pr_traceId = st_traceId s, pr_spanId = st_spanId s,
          pr_spanKind = (case map_get attrs OPENINFERENCE_SPAN_KIND_KEY of Some (JStr k) \<Rightarrow> k | _ \<Rightarrow> []),
          pr_inputJson = (if capturePayloads then inputJson else None),
          pr_outputJson = (if capturePayloads then outputJson else None),
          pr_inputHash = map_option sha (nonempty_text inputJson),
          pr_outputHash = map_option sha (nonempty_text outputJson),
          pr_sessionId = asString (map_get attrs SESSION_ID_KEY), pr_userId = asString (map_get attrs USER_ID_KEY),
          pr_interactionId = asString (map_get attrs INTERACTION_ID_KEY), pr_actionId = asString (map_get attrs ACTION_ID_KEY),
          pr_receivedAt = st_receivedAt s, pr_expiresAt = st_expiresAt s\<rparr>)"

definition strip_payloads :: "(rat \<Rightarrow> string) \<Rightarrow> stored_span \<Rightarrow> (string \<times> json) list \<Rightarrow> stored_span" where
  "strip_payloads num s attrs =
     (if map_get attrs AI_PAYLOAD_INPUT_KEY = None \<and> map_get attrs AI_PAYLOAD_OUTPUT_KEY = None then s
      else s\<lparr>st_attributesJson := stringify num (JObj (map_delete (map_delete attrs AI_PAYLOAD_INPUT_KEY) AI_PAYLOAD_OUTPUT_KEY))\<rparr>)"

definition is_openinference :: "stored_span \<Rightarrow> bool" where
  "is_openinference s \<longleftrightarrow> isOpenInferenceSpanKind (map_get (parseJsonRecord (Some (st_attributesJson s))) OPENINFERENCE_SPAN_KIND_KEY)"

text \<open>
  Every span of a batch looks its project up before any answer has arrived, so the cache it finds is the empty one.
\<close>

definition payload_span ::
  "(rat \<Rightarrow> string) \<Rightarrow> (string \<Rightarrow> string) \<Rightarrow> json option \<Rightarrow> capture_query \<Rightarrow> stored_span \<Rightarrow> string + (payload_row option \<times> stored_span)" where
  "payload_span num sha captureDefault query s =
     (let attrs = parseJsonRecord (Some (st_attributesJson s)) in
      if \<not> is_openinference s then Inr (None, s)
      else res_bind (projectCaptureEnabled captureDefault query [] (st_projectId s)) (\<lambda>(capturePayloads, _).
        Inr (Some (payload_row_of num sha capturePayloads s attrs), strip_payloads num s attrs)))"

section \<open>A batch\<close>

text \<open>\<^verbatim>\<open>Promise.all\<close>: the results in order, or a rejection.\<close>

fun promise_all :: "('e + 'a) list \<Rightarrow> 'e + 'a list" where
  "promise_all [] = Inr []"
| "promise_all (r # rs) = res_bind r (\<lambda>x. res_bind (promise_all rs) (\<lambda>xs. Inr (x # xs)))"

type_synonym payload_table = "(string \<times> string, payload_row) table"

definition row_key :: "payload_row \<Rightarrow> string \<times> string" where
  "row_key r = (pr_traceId r, pr_spanId r)"

text \<open>
  The spans returned, the side table and the messages logged.  The rows are pushed as their hashes become ready, an order
  \<open>arrange\<close> stands for; \<open>fault\<close> is the message of a failed write.
\<close>

definition process_payloads ::
  "(rat \<Rightarrow> string) \<Rightarrow> (string \<Rightarrow> string) \<Rightarrow> json option \<Rightarrow> capture_query \<Rightarrow> (payload_row list \<Rightarrow> payload_row list) \<Rightarrow> dialect \<Rightarrow> string option \<Rightarrow>
   payload_table \<Rightarrow> stored_span list \<Rightarrow> string + (stored_span list \<times> payload_table \<times> string list)" where
  "process_payloads num sha captureDefault query arrange d fault tbl spans =
     res_bind (promise_all (map (payload_span num sha captureDefault query) spans)) (\<lambda>results.
       let rows = arrange (List.map_filter fst results); transformed = map snd results in
       if rows = [] then Inr (transformed, tbl, [])
       else case commit (upsert_row row_key) fault (once_statements d ''ai_span_payloads'' rows) tbl of
           (Inl e, tbl') \<Rightarrow> Inr (transformed, tbl', [''[ai-span-payloads-processor] write failed: '' @ e])
         | (Inr ns, tbl') \<Rightarrow> Inr (transformed, tbl', []))"

section \<open>Results of a batch\<close>

lemma promise_all_Inr: "promise_all rs = Inr xs \<longleftrightarrow> rs = map Inr xs"
  by (induction rs arbitrary: xs) (auto simp: res_bind_eq_Inr)

lemma promise_all_map: "(\<And>x. x \<in> set xs \<Longrightarrow> f x = Inr (g x)) \<Longrightarrow> promise_all (map f xs) = Inr (map g xs)"
  by (induction xs) simp_all

lemma promise_all_Inl: "promise_all rs = Inl e \<Longrightarrow> Inl e \<in> set rs"
  by (induction rs) (auto simp: res_bind_eq_Inl)

abbreviation attributes :: "stored_span \<Rightarrow> (string \<times> json) list" where
  "attributes s \<equiv> parseJsonRecord (Some (st_attributesJson s))"

abbreviation payload_key :: "stored_span \<Rightarrow> string \<times> string" where
  "payload_key s \<equiv> (st_traceId s, st_spanId s)"

lemma get_stripped: "map_get (map_delete (map_delete attrs AI_PAYLOAD_INPUT_KEY) AI_PAYLOAD_OUTPUT_KEY) k =
    (if k \<in> {AI_PAYLOAD_INPUT_KEY, AI_PAYLOAD_OUTPUT_KEY} then None else map_get attrs k)"
  by (simp add: map_get_delete)

lemma canonical_delete: "canonical_object m \<Longrightarrow> canonical_object (map_delete m k)"
proof -
  have "map fst (map_delete m k) = filter (\<lambda>k'. k' \<noteq> k) (map fst m)"
    by (induction m) (auto simp: map_delete_def)
  then show "canonical_object m \<Longrightarrow> canonical_object (map_delete m k)"
    by (auto simp: canonical_object_def sorted_wrt_filter)
qed

lemma printable_delete: "printable_json num (JObj m) \<Longrightarrow> printable_json num (JObj (map_delete m k))"
  using canonical_delete [of m k] by (auto simp: make_object_canonical list_all_iff map_delete_def)

lemma record_of_text: "printable_json num (JObj m) \<Longrightarrow> parseJsonRecord (Some (stringify num (JObj m))) = m"
  using JSON_roundtrip [of num "JObj m"] stringify_nonempty [of num "JObj m"] by (simp add: parseJsonRecord_def del: stringify.simps printable_json.simps)

lemma strip_ids: "span_ids (strip_payloads num s attrs) = span_ids s"
  by (simp add: strip_payloads_def span_ids_def)

lemma get_strip:
  assumes "printable_json num (JObj (attributes s))"
  shows "map_get (attributes (strip_payloads num s (attributes s))) k =
    (if k \<in> {AI_PAYLOAD_INPUT_KEY, AI_PAYLOAD_OUTPUT_KEY} then None else map_get (attributes s) k)"
  using record_of_text [OF printable_delete [OF printable_delete [OF assms]]]
  by (auto simp: strip_payloads_def get_stripped simp del: stringify.simps)

lemma payload_span_Inr:
  assumes "is_openinference s \<Longrightarrow> isPayloadCaptureEnabled d query (st_projectId s) = Inr capture"
  shows "payload_span num sha d query s =
    Inr (if is_openinference s then (Some (payload_row_of num sha capture s (attributes s)), strip_payloads num s (attributes s)) else (None, s))"
  using assms by (auto simp: payload_span_def projectCaptureEnabled_def map_get_def Let_def)

lemma row_key_of [simp]: "row_key (payload_row_of num sha c s attrs) = payload_key s"
  by (simp add: payload_row_of_def Let_def row_key_def)

definition batch_rows :: "(rat \<Rightarrow> string) \<Rightarrow> (string \<Rightarrow> string) \<Rightarrow> (string \<Rightarrow> bool) \<Rightarrow> stored_span list \<Rightarrow> payload_row list" where
  "batch_rows num sha capture spans =
     map (\<lambda>s. payload_row_of num sha (capture (st_projectId s)) s (attributes s)) (filter is_openinference spans)"

definition batch_stripped :: "(rat \<Rightarrow> string) \<Rightarrow> stored_span list \<Rightarrow> stored_span list" where
  "batch_stripped num spans = map (\<lambda>s. if is_openinference s then strip_payloads num s (attributes s) else s) spans"

lemma processed_batch:
  assumes "\<And>s. s \<in> set spans \<Longrightarrow> is_openinference s \<Longrightarrow> isPayloadCaptureEnabled cd query (st_projectId s) = Inr (capture (st_projectId s))"
  defines "rows \<equiv> \<lambda>num sha arrange. arrange (batch_rows num sha capture spans)"
  shows "process_payloads num sha cd query arrange d fault tbl spans =
    Inr (batch_stripped num spans,
      case fault of Some e \<Rightarrow> tbl
        | None \<Rightarrow> upserted row_key (if d = Sqlite then rows num sha arrange else replicate (length (rows num sha arrange)) (last (rows num sha arrange))) tbl,
      case fault of Some e \<Rightarrow> if rows num sha arrange = [] then [] else [''[ai-span-payloads-processor] write failed: '' @ e] | None \<Rightarrow> [])"
proof -
  let ?g = "\<lambda>s. if is_openinference s then (Some (payload_row_of num sha (capture (st_projectId s)) s (attributes s)), strip_payloads num s (attributes s)) else (None, s)"
  have all: "promise_all (map (payload_span num sha cd query) spans) = Inr (map ?g spans)"
    by (rule promise_all_map) (use assms(1) in \<open>rule payload_span_Inr\<close>)
  have "List.map_filter fst (map ?g spans) = batch_rows num sha capture spans"
    unfolding batch_rows_def by (induction spans) (auto simp: List.map_filter_simps)
  moreover have "map snd (map ?g spans) = batch_stripped num spans" by (simp add: batch_stripped_def comp_def if_distrib)
  moreover obtain ns where "commit (upsert_row row_key) None (once_statements d ''ai_span_payloads'' (rows num sha arrange)) tbl =
      (Inr ns, upserted row_key (if d = Sqlite then rows num sha arrange else replicate (length (rows num sha arrange)) (last (rows num sha arrange))) tbl)"
    using commit_upsert [where key = row_key and sql = "''ai_span_payloads''"] by blast
  moreover have "commit (upsert_row row_key) (Some e) (once_statements d ''ai_span_payloads'' (rows num sha arrange)) tbl = (Inl e, tbl)" for e
    by (simp add: commit_def)
  ultimately show ?thesis
    by (cases fault) (auto simp: process_payloads_def all Let_def rows_def upserted_simps)
qed

text \<open>The side table after a batch: the row of each AI span, in whatever order the rows were written.\<close>

lemma rows_written:
  assumes "distinct (map payload_key (filter is_openinference spans))"
    and "mset rows = mset (batch_rows num sha capture spans)"
  shows "s \<in> set spans \<Longrightarrow> is_openinference s \<Longrightarrow>
      upserted row_key rows tbl (payload_key s) = Some (payload_row_of num sha (capture (st_projectId s)) s (attributes s))"
    and "key \<notin> payload_key ` {s \<in> set spans. is_openinference s} \<Longrightarrow> upserted row_key rows tbl key = tbl key"
proof -
  have rset: "set rows = set (batch_rows num sha capture spans)" by (rule mset_eq_setD [OF assms(2)])
  have keys: "map row_key (batch_rows num sha capture spans) = map payload_key (filter is_openinference spans)"
    by (simp add: batch_rows_def comp_def)
  have "mset (map row_key rows) = mset (map payload_key (filter is_openinference spans))"
    unfolding keys [symmetric] mset_map assms(2) ..
  then have dist: "distinct (map row_key rows)" using assms(1) by (metis mset_eq_imp_distinct_iff)
  show "upserted row_key rows tbl (payload_key s) = Some (payload_row_of num sha (capture (st_projectId s)) s (attributes s))"
    if "s \<in> set spans" "is_openinference s"
    using upserted_distinct [OF dist, of "payload_row_of num sha (capture (st_projectId s)) s (attributes s)" tbl] that rset
    by (auto simp: batch_rows_def)
  have "row_key ` set rows = payload_key ` {s \<in> set spans. is_openinference s}"
    using arg_cong [OF keys, of set] by (simp add: rset)
  then show "key \<notin> payload_key ` {s \<in> set spans. is_openinference s} \<Longrightarrow> upserted row_key rows tbl key = tbl key"
    using upserted_other [of key row_key rows tbl] by simp
qed

lemma batch_ids: "map span_ids (batch_stripped num spans) = map span_ids spans"
  by (simp add: batch_stripped_def strip_ids)

lemma batch_zip: "(s, t) \<in> set (zip spans (batch_stripped num spans)) \<Longrightarrow>
    s \<in> set spans \<and> t = (if is_openinference s then strip_payloads num s (attributes s) else s)"
  by (auto simp: batch_stripped_def zip_map2 zip_same_conv_map)

text \<open>
  C13: After a batch of AI spans with distinct keys whose write to D1 succeeds, with every question about a project answered and attributes
  that print and parse back, whatever order the rows come in: no returned AI span holds a payload, every
  other attribute is as it was, and the side table holds for every AI span one row under its ids, with the payload texts exactly
  if its project captures payloads and their hashes in any case; the other rows of the table are untouched.
\<close>

theorem payloads_stored:
  assumes "distinct (map payload_key (filter is_openinference spans))"
    and "\<forall>s \<in> set spans. printable_json num (JObj (attributes s)) \<and>
      isPayloadCaptureEnabled cd query (st_projectId s) = Inr (capture (st_projectId s))"
    and "\<And>rows. mset (arrange rows) = mset rows"
  shows "\<exists>out tbl'. process_payloads num sha cd query arrange Sqlite None tbl spans = Inr (out, tbl', []) \<and> map span_ids out = map span_ids spans \<and>
    (\<forall>(s, t) \<in> set (zip spans out). if is_openinference s
       then (\<forall>k. map_get (attributes t) k = (if k \<in> {AI_PAYLOAD_INPUT_KEY, AI_PAYLOAD_OUTPUT_KEY} then None else map_get (attributes s) k)) \<and>
         (\<exists>r. tbl' (payload_key s) = Some r \<and> pr_projectId r = st_projectId s \<and>
            (let inText = toJsonString num (map_get (attributes s) AI_PAYLOAD_INPUT_KEY); outText = toJsonString num (map_get (attributes s) AI_PAYLOAD_OUTPUT_KEY) in
             pr_inputJson r = (if capture (st_projectId s) then inText else None) \<and> pr_inputHash r = map_option sha (nonempty_text inText) \<and>
             pr_outputJson r = (if capture (st_projectId s) then outText else None) \<and> pr_outputHash r = map_option sha (nonempty_text outText)))
       else t = s) \<and>
    (\<forall>key. key \<notin> payload_key ` {s \<in> set spans. is_openinference s} \<longrightarrow> tbl' key = tbl key)"
proof -
  define rows where "rows = arrange (batch_rows num sha capture spans)"
  define tbl' where "tbl' = upserted row_key rows tbl"
  have run: "process_payloads num sha cd query arrange Sqlite None tbl spans = Inr (batch_stripped num spans, tbl', [])"
    using processed_batch [of spans cd query capture num sha arrange Sqlite None tbl] assms(2) by (auto simp: rows_def tbl'_def)
  have m: "mset rows = mset (batch_rows num sha capture spans)" unfolding rows_def by (rule assms(3))
  note written = rows_written [OF assms(1) m, where tbl = tbl, folded tbl'_def]
  have span: "if is_openinference s
      then (\<forall>k. map_get (attributes t) k = (if k \<in> {AI_PAYLOAD_INPUT_KEY, AI_PAYLOAD_OUTPUT_KEY} then None else map_get (attributes s) k)) \<and>
        tbl' (payload_key s) = Some (payload_row_of num sha (capture (st_projectId s)) s (attributes s)) else t = s"
    if "(s, t) \<in> set (zip spans (batch_stripped num spans))" for s t
    using batch_zip [OF that] get_strip [of num s] written(1) [of s] assms(2) by simp
  show ?thesis
    using run batch_ids [of num spans] span written(2) by (intro exI [of _ "batch_stripped num spans"] exI [of _ tbl'])
      (fastforce simp: payload_row_of_def Let_def split: if_splits)
qed

text \<open>Three ways a payload is lost.  When the write fails the span is still returned without its payload and the table is unchanged; on
  Postgres only the row pushed last is written, so the payload of every other span of a batch is in neither place; and the row of a
  span is keyed by trace and span id alone, so a request of another project under the same ids replaces it.
\<close>

theorem payload_write_faults:
  assumes "is_openinference s" and "printable_json num (JObj (attributes s))" and "isPayloadCaptureEnabled cd query (st_projectId s) = Inr c"
    and "is_openinference s'" and "isPayloadCaptureEnabled cd query (st_projectId s') = Inr c'" and "payload_key s \<noteq> payload_key s'"
  shows "\<exists>t t' tbl' tbl''. map_get (attributes t) AI_PAYLOAD_INPUT_KEY = None \<and> map_get (attributes t) AI_PAYLOAD_OUTPUT_KEY = None \<and>
    process_payloads num sha cd query (\<lambda>rows. rows) d (Some e) tbl [s] = Inr ([t], tbl, [''[ai-span-payloads-processor] write failed: '' @ e]) \<and>
    process_payloads num sha cd query (\<lambda>rows. rows) Postgres None tbl [s, s'] = Inr ([t, t'], tbl', []) \<and> tbl' (payload_key s) = tbl (payload_key s) \<and>
    process_payloads num sha cd query (\<lambda>rows. rows) d None tbl [s] = Inr ([t], tbl'', []) \<and>
    map_option pr_projectId (tbl'' (payload_key s)) = Some (st_projectId s)"
proof -
  have row: "pr_projectId (payload_row_of num sha c s a) = st_projectId s" for a by (simp add: payload_row_of_def Let_def)
  define capture where "capture = (\<lambda>p. if p = st_projectId s then c else c')"
  have cap: "isPayloadCaptureEnabled cd query (st_projectId u) = Inr (capture (st_projectId u))" if "u \<in> {s, s'}" for u
    using that assms(3, 5) by (auto simp: capture_def)
  define r where "r = payload_row_of num sha c s (attributes s)"
  define r' where "r' = payload_row_of num sha (capture (st_projectId s')) s' (attributes s')"
  have one: "batch_rows num sha capture [s] = [r]" "batch_rows num sha capture [s, s'] = [r, r']"
    using assms(1, 4) by (simp_all add: batch_rows_def r_def r'_def capture_def)
  have keys: "row_key r = payload_key s" "row_key r' = payload_key s'" by (simp_all only: r_def r'_def row_key_of)
  have t: "batch_stripped num [s] = [strip_payloads num s (attributes s)]"
    "batch_stripped num [s, s'] = [strip_payloads num s (attributes s), strip_payloads num s' (attributes s')]"
    using assms(1, 4) by (simp_all add: batch_stripped_def)
  show ?thesis
    using processed_batch [of "[s]" cd query capture num sha "\<lambda>rows. rows" d _ tbl] processed_batch [of "[s, s']" cd query capture num sha "\<lambda>rows. rows" Postgres None tbl]
      cap get_strip [OF assms(2)] assms(6)
    by (intro exI [of _ "strip_payloads num s (attributes s)"] exI [of _ "strip_payloads num s' (attributes s')"]
        exI [of _ "tbl(row_key r' \<mapsto> r')"] exI [of _ "tbl(row_key r \<mapsto> r)"])
      (auto simp: one t keys upserted_simps fun_upd_idem_iff row r_def)
qed

section \<open>Witnesses\<close>

definition sample_llm :: "(string \<times> json) list" where
  "sample_llm = [(OPENINFERENCE_SPAN_KIND_KEY, JStr ''LLM''), (AI_PAYLOAD_INPUT_KEY, JStr ''hi'')]"

abbreviation sample_llm_span :: stored_span where
  "sample_llm_span \<equiv> sample_span (stringify bit_text (JObj sample_llm))"

lemma sample_llm_ok:
  "attributes sample_llm_span = sample_llm" "printable_json bit_text (JObj (attributes sample_llm_span))" "is_openinference sample_llm_span"
proof -
  have p: "printable_json bit_text (JObj sample_llm)"
    by (simp add: sample_llm_def make_object_def obj_define_def is_index_def is_digit_def char_code_def ai_keys)
  show a: "attributes sample_llm_span = sample_llm" using record_of_text [OF p] by (simp add: sample_span_def del: stringify.simps)
  show "printable_json bit_text (JObj (attributes sample_llm_span))" by (simp only: a p)
  show "is_openinference sample_llm_span"
    unfolding is_openinference_def a
    by (simp add: sample_llm_def map_get_def isOpenInferenceSpanKind_def OPENINFERENCE_SPAN_KIND_VALUES_def ai_keys)
qed

lemma sample_capture: "isPayloadCaptureEnabled (Some (JBool True)) query pid = Inr True"
  by (simp add: isPayloadCaptureEnabled_def isTruthyFlag_def)

theorem payloads_stored_witness:
  "\<exists>out tbl' r. process_payloads bit_text (\<lambda>_. ''h'') (Some (JBool True)) (\<lambda>_. Inr None) rev Sqlite None (\<lambda>_. None) [sample_llm_span] = Inr (out, tbl', []) \<and>
     tbl' (payload_key sample_llm_span) = Some r \<and> pr_inputJson r = Some ''hi''"
proof -
  have "map_get sample_llm AI_PAYLOAD_INPUT_KEY = Some (JStr ''hi'')" by (simp add: sample_llm_def map_get_def ai_keys)
  then have "toJsonString bit_text (map_get (attributes sample_llm_span) AI_PAYLOAD_INPUT_KEY) = Some ''hi''"
    unfolding sample_llm_ok(1) by (simp add: toJsonString_def)
  then show ?thesis
    using payloads_stored [of "[sample_llm_span]" bit_text "Some (JBool True)" "\<lambda>_. Inr None" "\<lambda>_. True" rev "\<lambda>_. ''h''" "\<lambda>_. None"]
      sample_llm_ok(2, 3) sample_capture by (fastforce simp: Let_def simp del: printable_json.simps)
qed

theorem payload_write_faults_witness:
  "\<exists>t t' tbl'. process_payloads bit_text (\<lambda>_. ''h'') (Some (JBool True)) (\<lambda>_. Inr None) (\<lambda>rows. rows) Postgres None (\<lambda>_. None)
       [sample_llm_span, sample_llm_span \<lparr>st_spanId := ''u''\<rparr>] = Inr ([t, t'], tbl', []) \<and>
     map_get (attributes t) AI_PAYLOAD_INPUT_KEY = None \<and> tbl' (payload_key sample_llm_span) = None"
proof -
  have "is_openinference (sample_llm_span \<lparr>st_spanId := ''u''\<rparr>)" using sample_llm_ok(3) by (simp add: is_openinference_def)
  moreover have "payload_key sample_llm_span \<noteq> payload_key (sample_llm_span \<lparr>st_spanId := ''u''\<rparr>)" by (simp add: sample_span_def)
  ultimately show ?thesis
    using payload_write_faults [OF sample_llm_ok(3, 2) sample_capture, of "sample_llm_span \<lparr>st_spanId := ''u''\<rparr>" "\<lambda>_. Inr None" True "\<lambda>_. ''h''" Sqlite "[]" "\<lambda>_. None"]
      sample_capture by blast
qed

end
