(* ===== verification/Action_Records.thy ===== *)
theory Action_Records
  imports Ai_Payloads
begin

text \<open>
  The records the action graph keeps of a span: the readers of attributes, the payload redactor
  (\<^verbatim>\<open>plugins/action-graph-processor/redaction.ts\<close>), the enrichers and the six kinds of rows that
  \<^verbatim>\<open>packages/obs-collector/src/plugins/action-graph-processor.ts\<close> derives.  Columns the code fills with an attribute \<open>as string\<close>
  hold any JSON value.  An enricher is a function on the record, the span and the attributes; when it throws its result is the
  record as it left it.
\<close>

section \<open>Attribute readers\<close>

fun firstAttr :: "(string \<times> json) list \<Rightarrow> string list \<Rightarrow> json option" where
  "firstAttr attrs [] = None"
| "firstAttr attrs (k # ks) =
     (case map_get attrs k of None \<Rightarrow> firstAttr attrs ks | Some JNull \<Rightarrow> firstAttr attrs ks | Some v \<Rightarrow> Some v)"

definition firstStringAttr :: "(string \<times> json) list \<Rightarrow> string list \<Rightarrow> string option" where
  "firstStringAttr attrs ks = (case firstAttr attrs ks of Some (JStr s) \<Rightarrow> Some s | _ \<Rightarrow> None)"

definition firstNumberAttr :: "(string \<times> json) list \<Rightarrow> string list \<Rightarrow> js_number option" where
  "firstNumberAttr attrs ks =
     (case firstAttr attrs ks of
        Some (JNum x) \<Rightarrow> if isFinite x then Some x else None
      | Some (JStr s) \<Rightarrow> (let parsed = js_Number s in if isFinite parsed then Some parsed else None)
      | _ \<Rightarrow> None)"

definition toFiniteNumber :: "json option \<Rightarrow> js_number option" where
  "toFiniteNumber v =
     (case v of
        Some (JNum x) \<Rightarrow> if isFinite x then Some x else None
      | Some (JStr s) \<Rightarrow> (let parsed = js_Number s in if isFinite parsed then Some parsed else None)
      | _ \<Rightarrow> None)"

definition firstBoolLikeAttr :: "(string \<times> json) list \<Rightarrow> string list \<Rightarrow> bool" where
  "firstBoolLikeAttr attrs ks =
     (firstAttr attrs ks \<in> {Some (JBool True), Some (JNum (Num 1)), Some (JStr ''1''), Some (JStr ''true'')})"

definition firstJsonAttr :: "(rat \<Rightarrow> string) \<Rightarrow> (string \<times> json) list \<Rightarrow> string list \<Rightarrow> string option" where
  "firstJsonAttr num attrs ks =
     (case firstAttr attrs ks of
        None \<Rightarrow> None
      | Some JNull \<Rightarrow> None
      | Some (JStr s) \<Rightarrow> nonempty_text (Some (trim s))
      | Some j \<Rightarrow> Some (stringify num j))"

definition parseJsonObject :: "string \<Rightarrow> (string \<times> json) list option" where
  "parseJsonObject raw = (case JSON_parse raw of Some (JObj kvs) \<Rightarrow> Some kvs | _ \<Rightarrow> None)"

definition text_items :: "json option \<Rightarrow> json option" where
  "text_items v = (case v of Some (JArr xs) \<Rightarrow> Some (JArr (filter (\<lambda>x. case x of JStr _ \<Rightarrow> True | _ \<Rightarrow> False) xs)) | _ \<Rightarrow> None)"

definition object_member :: "json option \<Rightarrow> json option" where
  "object_member v = (case v of Some (JObj kvs) \<Rightarrow> Some (JObj kvs) | _ \<Rightarrow> None)"

definition normalizeMcpAuditJson :: "(rat \<Rightarrow> string) \<Rightarrow> (string \<times> json) list \<Rightarrow> string option" where
  "normalizeMcpAuditJson num attrs =
     (case nonempty_text (firstJsonAttr num attrs [''obs.mcp.audit'', ''obs.mcp.audit_json'', ''mcp.audit'', ''mcp.audit_json'']) of
        None \<Rightarrow> None
      | Some raw \<Rightarrow>
     (case parseJsonObject raw of
        None \<Rightarrow> None
      | Some parsed \<Rightarrow>
     (case (text_items (map_get parsed ''presentFields''), object_member (map_get parsed ''allowedFields'')) of
        (Some presentFields, Some allowedFields) \<Rightarrow>
          (let list_or_empty = (\<lambda>v. case text_items v of Some xs \<Rightarrow> xs | None \<Rightarrow> JArr []) in
           Some (stringify num (JObj
             [(''schemaVersion'', JNum (case toFiniteNumber (map_get parsed ''schemaVersion'') of Some x \<Rightarrow> x | None \<Rightarrow> Num 1)),
              (''presentFields'', presentFields),
              (''allowedFields'', allowedFields),
              (''redactedFields'', list_or_empty (map_get parsed ''redactedFields'')),
              (''hashedFields'', case object_member (map_get parsed ''hashedFields'') of Some m \<Rightarrow> m | None \<Rightarrow> JObj []),
              (''droppedFields'', list_or_empty (map_get parsed ''droppedFields'')),
              (''hasRawMeta'', JBool (map_get parsed ''hasRawMeta'' = Some (JBool True)))])))
      | _ \<Rightarrow> None)))"

definition normalizeMcpAuditEnvelope :: "(rat \<Rightarrow> string) \<Rightarrow> (string \<times> json) list \<Rightarrow> (string \<times> json) list option" where
  "normalizeMcpAuditEnvelope num attrs =
     (case nonempty_text (normalizeMcpAuditJson num attrs) of None \<Rightarrow> None | Some text \<Rightarrow> parseJsonObject text)"

definition normalizeMutationArtifactId :: "(string \<times> json) list \<Rightarrow> string option" where
  "normalizeMutationArtifactId attrs =
     firstStringAttr attrs [''obs.tool_call.mutation.artifact_id'', ''obs.tool.mutation.artifact_id'', ''tool.mutation.artifact_id'']"

section \<open>Keys\<close>

definition ACTION_NAME_KEY :: string where "ACTION_NAME_KEY = ''obs.action.name''"
definition ACTION_PROMPT_VERSION_KEY :: string where "ACTION_PROMPT_VERSION_KEY = ''obs.action.prompt_version''"
definition ACTION_MODEL_NAME_KEY :: string where "ACTION_MODEL_NAME_KEY = ''obs.action.model_name''"
definition ACTION_PROVIDER_KEY :: string where "ACTION_PROVIDER_KEY = ''obs.action.provider''"
definition ACTION_TOTAL_COST_USD_KEY :: string where "ACTION_TOTAL_COST_USD_KEY = ''obs.action.total_cost_usd''"
definition ACTOR_ID_KEY :: string where "ACTOR_ID_KEY = ''obs.actor.id''"
definition AGENT_ID_KEY :: string where "AGENT_ID_KEY = ''obs.agent.id''"
definition AGENT_NAME_KEY :: string where "AGENT_NAME_KEY = ''obs.agent.name''"
definition AGENT_VERSION_KEY :: string where "AGENT_VERSION_KEY = ''obs.agent.version''"
definition AGENT_GOAL_KEY :: string where "AGENT_GOAL_KEY = ''obs.agent.goal''"
definition AGENT_OUTCOME_KEY :: string where "AGENT_OUTCOME_KEY = ''obs.agent.outcome''"
definition AGENT_STEP_ID_KEY :: string where "AGENT_STEP_ID_KEY = ''obs.agent.step_id''"
definition AGENT_AUTONOMY_LEVEL_KEY :: string where "AGENT_AUTONOMY_LEVEL_KEY = ''obs.agent.autonomy_level''"
definition TOOL_RESULT_KEY :: string where "TOOL_RESULT_KEY = ''obs.tool.result''"
definition TOOL_ERROR_TYPE_KEY :: string where "TOOL_ERROR_TYPE_KEY = ''obs.tool.error_type''"
definition TOOL_APPROVAL_STATE_KEY :: string where "TOOL_APPROVAL_STATE_KEY = ''obs.tool.approval_state''"
definition RETRIEVAL_NAME_KEY :: string where "RETRIEVAL_NAME_KEY = ''obs.retrieval.retriever_name''"
definition RETRIEVAL_QUERY_KEY :: string where "RETRIEVAL_QUERY_KEY = ''obs.retrieval.query''"
definition RETRIEVAL_DOCUMENTS_KEY :: string where "RETRIEVAL_DOCUMENTS_KEY = ''obs.retrieval.documents''"
definition RETRIEVAL_TOTAL_RESULTS_KEY :: string where "RETRIEVAL_TOTAL_RESULTS_KEY = ''obs.retrieval.total_results''"
definition RETRIEVAL_MAX_RELEVANCE_SCORE_KEY :: string where "RETRIEVAL_MAX_RELEVANCE_SCORE_KEY = ''obs.retrieval.max_relevance_score''"
definition EVAL_EVALUATOR_NAME_KEY :: string where "EVAL_EVALUATOR_NAME_KEY = ''obs.eval.evaluator_name''"
definition EVAL_EVALUATOR_VERSION_KEY :: string where "EVAL_EVALUATOR_VERSION_KEY = ''obs.eval.evaluator_version''"
definition EVAL_SCORE_KEY :: string where "EVAL_SCORE_KEY = ''obs.eval.score''"
definition EVAL_PASSED_KEY :: string where "EVAL_PASSED_KEY = ''obs.eval.passed''"
definition EVAL_REASONING_KEY :: string where "EVAL_REASONING_KEY = ''obs.eval.reasoning''"
definition EVAL_RUBRIC_KEY :: string where "EVAL_RUBRIC_KEY = ''obs.eval.rubric''"
definition ARTIFACT_NAME_KEY :: string where "ARTIFACT_NAME_KEY = ''obs.artifact.name''"
definition ARTIFACT_TYPE_KEY :: string where "ARTIFACT_TYPE_KEY = ''obs.artifact.type''"
definition ARTIFACT_CONTENT_KEY :: string where "ARTIFACT_CONTENT_KEY = ''obs.artifact.content''"
definition ARTIFACT_STORAGE_REF_KEY :: string where "ARTIFACT_STORAGE_REF_KEY = ''obs.artifact.storage_ref''"
definition ARTIFACT_SIZE_BYTES_KEY :: string where "ARTIFACT_SIZE_BYTES_KEY = ''obs.artifact.size_bytes''"
definition ARTIFACT_SHA256_HASH_KEY :: string where "ARTIFACT_SHA256_HASH_KEY = ''obs.artifact.sha256_hash''"

lemmas payload_keys = ACTION_NAME_KEY_def ACTION_PROMPT_VERSION_KEY_def ACTION_MODEL_NAME_KEY_def ACTION_PROVIDER_KEY_def
  ACTION_TOTAL_COST_USD_KEY_def ACTOR_ID_KEY_def AGENT_ID_KEY_def AGENT_NAME_KEY_def AGENT_VERSION_KEY_def AGENT_GOAL_KEY_def
  AGENT_OUTCOME_KEY_def AGENT_STEP_ID_KEY_def AGENT_AUTONOMY_LEVEL_KEY_def TOOL_RESULT_KEY_def TOOL_ERROR_TYPE_KEY_def
  TOOL_APPROVAL_STATE_KEY_def RETRIEVAL_NAME_KEY_def RETRIEVAL_QUERY_KEY_def RETRIEVAL_DOCUMENTS_KEY_def
  RETRIEVAL_TOTAL_RESULTS_KEY_def RETRIEVAL_MAX_RELEVANCE_SCORE_KEY_def EVAL_EVALUATOR_NAME_KEY_def EVAL_EVALUATOR_VERSION_KEY_def
  EVAL_SCORE_KEY_def EVAL_PASSED_KEY_def EVAL_REASONING_KEY_def EVAL_RUBRIC_KEY_def ARTIFACT_NAME_KEY_def ARTIFACT_TYPE_KEY_def
  ARTIFACT_CONTENT_KEY_def ARTIFACT_STORAGE_REF_KEY_def ARTIFACT_SIZE_BYTES_KEY_def ARTIFACT_SHA256_HASH_KEY_def

definition EVIDENCE_ATTR_KEYS :: "string list" where
  "EVIDENCE_ATTR_KEYS =
     [''obs.mcp.audit'', ''obs.mcp.audit_json'', ''mcp.audit'', ''mcp.audit_json''] @
     concat (map (\<lambda>pre. map (\<lambda>post. pre @ post) [''before'', ''after'', ''diff''])
       [''obs.tool_call.mutation.'', ''obs.tool.mutation.'', ''tool.mutation.''])"

definition PAYLOAD_ATTR_KEYS :: "string list" where
  "PAYLOAD_ATTR_KEYS =
     [AI_PAYLOAD_INPUT_KEY, AI_PAYLOAD_OUTPUT_KEY, AGENT_GOAL_KEY, ''obs.agent_run.goal'', AGENT_OUTCOME_KEY, ''obs.agent_run.outcome'',
      TOOL_ARGS_KEY, ''obs.tool_call.args'', TOOL_RESULT_KEY, ''obs.tool_call.result'', RETRIEVAL_QUERY_KEY, RETRIEVAL_DOCUMENTS_KEY,
      ARTIFACT_CONTENT_KEY, EVAL_REASONING_KEY, EVAL_RUBRIC_KEY] @ EVIDENCE_ATTR_KEYS"

definition delete_keys :: "string list \<Rightarrow> (string \<times> json) list \<Rightarrow> (string \<times> json) list" where
  "delete_keys ks attrs = foldl map_delete attrs ks"

definition stripPayloadAttrs :: "(string \<times> json) list \<Rightarrow> (string \<times> json) list" where
  "stripPayloadAttrs attrs = delete_keys PAYLOAD_ATTR_KEYS attrs"

section \<open>Redaction of payloads\<close>

record redaction_context =
  rc_projectId :: string
  rc_actionId :: string
  rc_traceId :: string
  rc_spanId :: string
  rc_kind :: string
  rc_fieldName :: string

text \<open>A redactor throws, passes (\<open>None\<close>, \<^verbatim>\<open>undefined\<close>) or gives a value.\<close>

type_synonym payload_redactor = "json \<Rightarrow> redaction_context \<Rightarrow> string + json option"

definition DEFAULT_REDACT_KEYS :: "string list" where
  "DEFAULT_REDACT_KEYS =
     [''authorization'', ''cookie'', ''set-cookie'', ''password'', ''passwd'', ''secret'', ''token'', ''api-key'', ''x-api-key'',
      ''email'', ''enduser.id'']"

definition payload_secret :: "string \<Rightarrow> bool" where
  "payload_secret key \<longleftrightarrow> toLowerCase key \<in> set DEFAULT_REDACT_KEYS \<or> list_ex (endsWith (toLowerCase key)) DEFAULT_REDACT_KEYS"

fun redactObj :: "json \<Rightarrow> json" where
  "redactObj (JArr xs) = JArr (map redactObj xs)"
| "redactObj (JObj kvs) =
     JObj (make_object (map (\<lambda>kv. (fst kv, if payload_secret (fst kv) then JStr ''[REDACTED]'' else redactObj (snd kv))) kvs))"
| "redactObj j = j"

fun runRedaction :: "payload_redactor list \<Rightarrow> json \<Rightarrow> redaction_context \<Rightarrow> json" where
  "runRedaction [] v ctx = redactObj v"
| "runRedaction (redact # ps) v ctx = (case redact v ctx of Inr (Some res) \<Rightarrow> res | _ \<Rightarrow> runRedaction ps v ctx)"

interpretation payload_redactor: json_redactor payload_secret redactObj
proof
  show "redactObj j = j" if "\<not> (\<exists>xs. j = JArr xs)" "\<not> (\<exists>kvs. j = JObj kvs)" for j using that by (cases j) auto
qed (simp_all add: REDACTED_VALUE_def cong: if_cong)

section \<open>Rows\<close>

record action_row =
  ac_id :: string
  ac_projectId :: string
  ac_rootActionId :: string
  ac_causedByActionId :: "string option"
  ac_actorType :: string
  ac_actorId :: json
  ac_actionKind :: json
  ac_name :: string
  ac_status :: string
  ac_startedAt :: string
  ac_endedAt :: string
  ac_durationMs :: nat
  ac_traceId :: string
  ac_spanId :: string
  ac_sessionId :: json
  ac_interactionId :: json
  ac_userId :: json
  ac_agentRunId :: "string option"
  ac_stepId :: "string option"
  ac_toolCallId :: "string option"
  ac_promptVersion :: "string option"
  ac_modelName :: json
  ac_provider :: json
  ac_totalCostUsd :: "js_number option"
  ac_attrsJson :: string

record agent_run_row =
  ag_id :: string
  ag_projectId :: string
  ag_agentId :: json
  ag_agentName :: string
  ag_agentVersion :: string
  ag_goal :: json
  ag_outcome :: json
  ag_autonomyLevel :: string
  ag_status :: string
  ag_errorMessage :: "string option"
  ag_totalCostUsd :: js_number
  ag_totalDurationMs :: int
  ag_metadataJson :: string

record tool_call_row =
  tc_id :: string
  tc_actionId :: string
  tc_projectId :: string
  tc_toolName :: string
  tc_argsHash :: string
  tc_resultHash :: string
  tc_errorType :: "string option"
  tc_sideEffect :: nat
  tc_approvalState :: string
  tc_argsRedacted :: "string option"
  tc_resultRedacted :: "string option"
  tc_mcpAuditJson :: "string option"
  tc_mutationBeforeJson :: "string option"
  tc_mutationAfterJson :: "string option"
  tc_mutationDiffJson :: "string option"
  tc_mutationArtifactId :: "string option"

record retrieval_row =
  rt_id :: string
  rt_actionId :: string
  rt_projectId :: string
  rt_retrieverName :: string
  rt_queryHash :: string
  rt_documentsJson :: "string option"
  rt_totalResults :: js_number
  rt_maxRelevanceScore :: "js_number option"
  rt_durationMs :: nat

record eval_row =
  er_id :: string
  er_actionId :: string
  er_projectId :: string
  er_evaluatorName :: string
  er_evaluatorVersion :: string
  er_score :: "js_number option"
  er_passed :: nat
  er_reasoning :: "string option"
  er_rubricJson :: "string option"

record artifact_row =
  ar_id :: string
  ar_actionId :: string
  ar_projectId :: string
  ar_artifactName :: json
  ar_artifactType :: string
  ar_storageRef :: "string option"
  ar_sizeBytes :: "js_number option"
  ar_sha256Hash :: string
  ar_contentPreview :: "string option"

section \<open>Enrichers\<close>

type_synonym 'r enrich = "('r \<Rightarrow> stored_span \<Rightarrow> (string \<times> json) list \<Rightarrow> 'r) option"

record enricher =
  enrichActionRecord :: "action_row enrich"
  enrichAgentRunRecord :: "agent_run_row enrich"
  enrichToolCallRecord :: "tool_call_row enrich"
  enrichRetrievalRecord :: "retrieval_row enrich"
  enrichEvalRecord :: "eval_row enrich"
  enrichArtifactRecord :: "artifact_row enrich"

definition run_enrichers :: "'r enrich list \<Rightarrow> 'r \<Rightarrow> stored_span \<Rightarrow> (string \<times> json) list \<Rightarrow> 'r" where
  "run_enrichers ps r s attrs = foldl (\<lambda>r p. case p of None \<Rightarrow> r | Some f \<Rightarrow> f r s attrs) r ps"

lemma no_enrichers [simp]: "run_enrichers [] r s attrs = r"
  by (simp add: run_enrichers_def)

section \<open>What is derived of a span\<close>

definition is_action_span :: "(string \<times> json) list \<Rightarrow> bool" where
  "is_action_span attrs \<longleftrightarrow> map_get attrs ACTION_ID_KEY \<noteq> None \<or> map_get attrs OPENINFERENCE_SPAN_KIND_KEY \<noteq> None \<or>
     map_get attrs ''gen_ai.agent.id'' \<noteq> None"

definition string_or :: "string option \<Rightarrow> json option \<Rightarrow> json" where
  "string_or s v = (case s of Some t \<Rightarrow> JStr t | None \<Rightarrow> (case v of Some j \<Rightarrow> j | None \<Rightarrow> JNull))"

definition default_text :: "string option \<Rightarrow> string \<Rightarrow> string" where
  "default_text s d = (case s of Some t \<Rightarrow> t | None \<Rightarrow> d)"

definition graph_kind :: "(string \<times> json) list \<Rightarrow> json" where
  "graph_kind attrs =
     (case firstStringAttr attrs [ACTION_KIND_KEY] of Some k \<Rightarrow> JStr k
      | None \<Rightarrow> (case firstAttr attrs [OPENINFERENCE_SPAN_KIND_KEY] of Some j \<Rightarrow> j | None \<Rightarrow> JStr ''agent.step''))"

definition is_run_kind :: "json \<Rightarrow> bool" where
  "is_run_kind kind \<longleftrightarrow> kind = JStr ''agent.run'' \<or> kind = JStr ''agent''"

definition graph_identity :: "(string \<Rightarrow> string) \<Rightarrow> stored_span \<Rightarrow> (string \<times> json) list \<Rightarrow> action_identity" where
  "graph_identity sha s attrs = resolveActionIdentity sha s (obj_define attrs ACTION_KIND_KEY (graph_kind attrs))"

definition graph_run_id :: "(string \<Rightarrow> string) \<Rightarrow> stored_span \<Rightarrow> (string \<times> json) list \<Rightarrow> string option" where
  "graph_run_id sha s attrs =
     (let identity = graph_identity sha s attrs in
      case ai_agentRunId identity of Some i \<Rightarrow> Some i
      | None \<Rightarrow> if is_run_kind (graph_kind attrs) then Some (ai_actionId identity) else None)"

definition trusted_attributes :: "(rat \<Rightarrow> string) \<Rightarrow> (string \<Rightarrow> string) \<Rightarrow> stored_span \<Rightarrow> (string \<times> json) list \<Rightarrow> (string \<times> json) list" where
  "trusted_attributes num sha s attrs =
     (let identity = graph_identity sha s attrs;
          t1 = obj_define (obj_define (obj_define attrs ACTION_ID_KEY (JStr (ai_actionId identity)))
                 ACTION_ROOT_ID_KEY (JStr (ai_rootActionId identity))) ACTION_CONFIDENCE_KEY (JStr (ai_confidence identity));
          t2 = (case normalizeMcpAuditEnvelope num attrs of None \<Rightarrow> t1 | Some env \<Rightarrow> obj_define t1 ''obs.mcp.audit_envelope'' (JObj env));
          t3 = delete_keys (EVIDENCE_ATTR_KEYS @ [''obs.action.agent_run_id'', ''obs.agent_run.id'']) t2;
          t4 = obj_define t3 ACTION_CAUSED_BY_ID_KEY (case ai_causedByActionId identity of None \<Rightarrow> JNull | Some c \<Rightarrow> JStr c)
      in case graph_run_id sha s attrs of Some r \<Rightarrow> obj_define t4 AGENT_RUN_ID_KEY (JStr r) | None \<Rightarrow> map_delete t4 AGENT_RUN_ID_KEY)"

definition total_cost :: "(string \<times> json) list \<Rightarrow> js_number option" where
  "total_cost attrs =
     (case firstNumberAttr attrs [ACTION_TOTAL_COST_USD_KEY] of Some x \<Rightarrow> Some x
      | None \<Rightarrow> firstNumberAttr attrs [''llm.cost.total_usd'', ''gen_ai.usage.cost_usd'', ''llm.total_cost_usd''])"

definition attrs_column :: "(rat \<Rightarrow> string) \<Rightarrow> bool \<Rightarrow> (string \<times> json) list \<Rightarrow> string" where
  "attrs_column num capturePayloads trusted = stringify num (JObj (if capturePayloads then trusted else stripPayloadAttrs trusted))"

definition action_row_of ::
  "(rat \<Rightarrow> string) \<Rightarrow> (string \<Rightarrow> string) \<Rightarrow> bool \<Rightarrow> stored_span \<Rightarrow> (string \<times> json) list \<Rightarrow> action_row" where
  "action_row_of num sha capturePayloads s attrs =
     (let identity = graph_identity sha s attrs in
      \<lparr>ac_id = ai_actionId identity, ac_projectId = st_projectId s, ac_rootActionId = ai_rootActionId identity,
       ac_causedByActionId = ai_causedByActionId identity,
       ac_actorType = default_text (firstStringAttr attrs [ACTOR_TYPE_KEY, ''obs.action.actor_type'']) ''agent'',
       ac_actorId = string_or (firstStringAttr attrs [ACTOR_ID_KEY, ''obs.action.actor_id'']) (firstAttr attrs [''gen_ai.agent.id'']),
       ac_actionKind = graph_kind attrs,
       ac_name = default_text (firstStringAttr attrs [ACTION_NAME_KEY]) (st_spanName s),
       ac_status = (if st_statusCode s = 2 then ''error'' else ''ok''),
       ac_startedAt = st_startTime s, ac_endedAt = st_endTime s, ac_durationMs = st_durationMs s,
       ac_traceId = st_traceId s, ac_spanId = st_spanId s,
       ac_sessionId = string_or (st_sessionId s) (firstAttr attrs [''session.id'']),
       ac_interactionId = string_or (st_interactionId s) (firstAttr attrs [''interaction.id'']),
       ac_userId = string_or None (firstAttr attrs [''user.id'', ''enduser.id'', ''obs.user.id'']),
       ac_agentRunId = graph_run_id sha s attrs,
       ac_stepId = firstStringAttr attrs [AGENT_STEP_ID_KEY, ''obs.action.step_id''],
       ac_toolCallId = firstStringAttr attrs [TOOL_CALL_ID_KEY, ''obs.action.tool_call_id''],
       ac_promptVersion = firstStringAttr attrs [ACTION_PROMPT_VERSION_KEY],
       ac_modelName = string_or (firstStringAttr attrs [ACTION_MODEL_NAME_KEY]) (firstAttr attrs [''llm.model_name'']),
       ac_provider = string_or (firstStringAttr attrs [ACTION_PROVIDER_KEY]) (firstAttr attrs [''llm.provider'']),
       ac_totalCostUsd = total_cost attrs,
       ac_attrsJson = attrs_column num capturePayloads (trusted_attributes num sha s attrs)\<rparr>)"

definition is_agent_run :: "(string \<times> json) list \<Rightarrow> bool" where
  "is_agent_run attrs \<longleftrightarrow> is_run_kind (graph_kind attrs) \<or> firstAttr attrs [AGENT_ID_KEY, ''obs.agent_run.agent_id''] \<noteq> None"

definition agent_run_row_of ::
  "(rat \<Rightarrow> string) \<Rightarrow> (string \<Rightarrow> string) \<Rightarrow> bool \<Rightarrow> stored_span \<Rightarrow> (string \<times> json) list \<Rightarrow> agent_run_row" where
  "agent_run_row_of num sha capturePayloads s attrs =
     \<lparr>ag_id = ai_actionId (graph_identity sha s attrs), ag_projectId = st_projectId s,
      ag_agentId = string_or (firstStringAttr attrs [AGENT_ID_KEY, ''obs.agent_run.agent_id''])
        (nullish (firstAttr attrs [''gen_ai.agent.id'']) (Some (JStr ''default-agent''))),
      ag_agentName = default_text (firstStringAttr attrs [AGENT_NAME_KEY, ''obs.agent_run.agent_name'']) (st_spanName s),
      ag_agentVersion = default_text (firstStringAttr attrs [AGENT_VERSION_KEY, ''obs.agent_run.agent_version'']) ''1.0.0'',
      ag_goal = (if capturePayloads
        then string_or (firstStringAttr attrs [AGENT_GOAL_KEY, ''obs.agent_run.goal'']) (firstAttr attrs [AI_PAYLOAD_INPUT_KEY]) else JNull),
      ag_outcome = (if capturePayloads
        then string_or (firstStringAttr attrs [AGENT_OUTCOME_KEY, ''obs.agent_run.outcome'']) (firstAttr attrs [AI_PAYLOAD_OUTPUT_KEY]) else JNull),
      ag_autonomyLevel = default_text (firstStringAttr attrs [AGENT_AUTONOMY_LEVEL_KEY, ''obs.agent_run.autonomy_level'']) ''autonomous_write'',
      ag_status = (if st_statusCode s = 2 then ''failed'' else ''success''),
      ag_errorMessage = st_statusMessage s,
      ag_totalCostUsd = (case total_cost attrs of Some x \<Rightarrow> x | None \<Rightarrow> Num 0),
      ag_totalDurationMs = int (st_durationMs s),
      ag_metadataJson = attrs_column num capturePayloads (trusted_attributes num sha s attrs)\<rparr>"

text \<open>A payload as it is hashed: an attribute, the payload attribute of the normaliser or a default, converted to text.\<close>

definition raw_payload :: "(string \<times> json) list \<Rightarrow> string list \<Rightarrow> string \<Rightarrow> string \<Rightarrow> json" where
  "raw_payload attrs ks payloadKey d =
     string_or (firstStringAttr attrs ks) (nullish (firstAttr attrs [payloadKey]) (Some (JStr d)))"

definition redacted_column :: "(rat \<Rightarrow> string) \<Rightarrow> payload_redactor list \<Rightarrow> bool \<Rightarrow> json \<Rightarrow> redaction_context \<Rightarrow> string option" where
  "redacted_column num ps capturePayloads raw ctx =
     (if capturePayloads
      then (case runRedaction ps raw ctx of JNull \<Rightarrow> None | JStr t \<Rightarrow> Some t | j \<Rightarrow> Some (stringify num j)) else None)"

definition redaction_context_of :: "(string \<Rightarrow> string) \<Rightarrow> stored_span \<Rightarrow> (string \<times> json) list \<Rightarrow> string \<Rightarrow> string \<Rightarrow> redaction_context" where
  "redaction_context_of sha s attrs kind fieldName =
     \<lparr>rc_projectId = st_projectId s, rc_actionId = ai_actionId (graph_identity sha s attrs), rc_traceId = st_traceId s,
      rc_spanId = st_spanId s, rc_kind = kind, rc_fieldName = fieldName\<rparr>"

definition is_tool_call :: "(string \<times> json) list \<Rightarrow> bool" where
  "is_tool_call attrs \<longleftrightarrow> graph_kind attrs = JStr ''tool'' \<or> graph_kind attrs = JStr ''tool.call'' \<or>
     firstAttr attrs [TOOL_NAME_KEY, ''obs.tool_call.tool_name''] \<noteq> None"

definition tool_args :: "(string \<times> json) list \<Rightarrow> json" where
  "tool_args attrs = raw_payload attrs [TOOL_ARGS_KEY, ''obs.tool_call.args''] AI_PAYLOAD_INPUT_KEY ''{}''"

definition tool_result :: "(string \<times> json) list \<Rightarrow> json" where
  "tool_result attrs = raw_payload attrs [TOOL_RESULT_KEY, ''obs.tool_call.result''] AI_PAYLOAD_OUTPUT_KEY ''{}''"

definition mutation_column :: "(rat \<Rightarrow> string) \<Rightarrow> (string \<times> json) list \<Rightarrow> string \<Rightarrow> string option" where
  "mutation_column num attrs part =
     firstJsonAttr num attrs (map (\<lambda>pre. pre @ part) [''obs.tool_call.mutation.'', ''obs.tool.mutation.'', ''tool.mutation.''])"

definition tool_call_row_of ::
  "(rat \<Rightarrow> string) \<Rightarrow> (string \<Rightarrow> string) \<Rightarrow> payload_redactor list \<Rightarrow> bool \<Rightarrow> stored_span \<Rightarrow> (string \<times> json) list \<Rightarrow> tool_call_row" where
  "tool_call_row_of num sha ps capturePayloads s attrs =
     \<lparr>tc_id = st_spanId s, tc_actionId = ai_actionId (graph_identity sha s attrs), tc_projectId = st_projectId s,
      tc_toolName = default_text (firstStringAttr attrs [TOOL_NAME_KEY, ''obs.tool_call.tool_name'']) (st_spanName s),
      tc_argsHash = sha (js_String num (tool_args attrs)), tc_resultHash = sha (js_String num (tool_result attrs)),
      tc_errorType = (case firstStringAttr attrs [TOOL_ERROR_TYPE_KEY, ''obs.tool_call.error_type''] of
          Some e \<Rightarrow> Some e | None \<Rightarrow> st_statusMessage s),
      tc_sideEffect = (if firstBoolLikeAttr attrs [TOOL_SIDE_EFFECT_KEY, ''obs.tool_call.side_effect''] then 1 else 0),
      tc_approvalState = default_text (firstStringAttr attrs [TOOL_APPROVAL_STATE_KEY, ''obs.tool_call.approval_state'']) ''suggested'',
      tc_argsRedacted = redacted_column num ps capturePayloads (tool_args attrs) (redaction_context_of sha s attrs ''tool_call'' ''args''),
      tc_resultRedacted = redacted_column num ps capturePayloads (tool_result attrs) (redaction_context_of sha s attrs ''tool_call'' ''result''),
      tc_mcpAuditJson = normalizeMcpAuditJson num attrs,
      tc_mutationBeforeJson = mutation_column num attrs ''before'',
      tc_mutationAfterJson = mutation_column num attrs ''after'',
      tc_mutationDiffJson = mutation_column num attrs ''diff'',
      tc_mutationArtifactId = normalizeMutationArtifactId attrs\<rparr>"

definition is_retrieval :: "(string \<times> json) list \<Rightarrow> bool" where
  "is_retrieval attrs \<longleftrightarrow> graph_kind attrs = JStr ''retriever'' \<or> graph_kind attrs = JStr ''retrieval'' \<or> map_get attrs RETRIEVAL_NAME_KEY \<noteq> None"

definition retrieval_row_of ::
  "(rat \<Rightarrow> string) \<Rightarrow> (string \<Rightarrow> string) \<Rightarrow> payload_redactor list \<Rightarrow> bool \<Rightarrow> stored_span \<Rightarrow> (string \<times> json) list \<Rightarrow> retrieval_row" where
  "retrieval_row_of num sha ps capturePayloads s attrs =
     \<lparr>rt_id = st_spanId s, rt_actionId = ai_actionId (graph_identity sha s attrs), rt_projectId = st_projectId s,
      rt_retrieverName = default_text (firstStringAttr attrs [RETRIEVAL_NAME_KEY]) (st_spanName s),
      rt_queryHash = sha (js_String num (raw_payload attrs [RETRIEVAL_QUERY_KEY] AI_PAYLOAD_INPUT_KEY [])),
      rt_documentsJson = redacted_column num ps capturePayloads (raw_payload attrs [RETRIEVAL_DOCUMENTS_KEY] AI_PAYLOAD_OUTPUT_KEY ''[]'')
        (redaction_context_of sha s attrs ''retrieval'' ''documents''),
      rt_totalResults = (case firstNumberAttr attrs [RETRIEVAL_TOTAL_RESULTS_KEY] of Some x \<Rightarrow> x | None \<Rightarrow> Num 0),
      rt_maxRelevanceScore = firstNumberAttr attrs [RETRIEVAL_MAX_RELEVANCE_SCORE_KEY],
      rt_durationMs = st_durationMs s\<rparr>"

definition is_eval :: "(string \<times> json) list \<Rightarrow> bool" where
  "is_eval attrs \<longleftrightarrow> graph_kind attrs = JStr ''evaluator'' \<or> graph_kind attrs = JStr ''eval'' \<or> map_get attrs EVAL_EVALUATOR_NAME_KEY \<noteq> None"

definition eval_row_of :: "(string \<Rightarrow> string) \<Rightarrow> stored_span \<Rightarrow> (string \<times> json) list \<Rightarrow> eval_row" where
  "eval_row_of sha s attrs =
     \<lparr>er_id = st_spanId s, er_actionId = ai_actionId (graph_identity sha s attrs), er_projectId = st_projectId s,
      er_evaluatorName = default_text (firstStringAttr attrs [EVAL_EVALUATOR_NAME_KEY]) (st_spanName s),
      er_evaluatorVersion = default_text (firstStringAttr attrs [EVAL_EVALUATOR_VERSION_KEY]) ''1.0.0'',
      er_score = firstNumberAttr attrs [EVAL_SCORE_KEY],
      er_passed = (if map_get attrs EVAL_PASSED_KEY \<noteq> None then if firstBoolLikeAttr attrs [EVAL_PASSED_KEY] then 1 else 0 else 1),
      er_reasoning = firstStringAttr attrs [EVAL_REASONING_KEY], er_rubricJson = firstStringAttr attrs [EVAL_RUBRIC_KEY]\<rparr>"

definition has_artifact :: "(string \<times> json) list \<Rightarrow> bool" where
  "has_artifact attrs \<longleftrightarrow> map_get attrs ARTIFACT_NAME_KEY \<noteq> None"

definition artifact_row_of ::
  "(rat \<Rightarrow> string) \<Rightarrow> (string \<Rightarrow> string) \<Rightarrow> payload_redactor list \<Rightarrow> bool \<Rightarrow> stored_span \<Rightarrow> (string \<times> json) list \<Rightarrow> artifact_row" where
  "artifact_row_of num sha ps capturePayloads s attrs =
     (let content = default_text (firstStringAttr attrs [ARTIFACT_CONTENT_KEY]) [] in
      \<lparr>ar_id = st_spanId s, ar_actionId = ai_actionId (graph_identity sha s attrs), ar_projectId = st_projectId s,
       ar_artifactName = string_or None (map_get attrs ARTIFACT_NAME_KEY),
       ar_artifactType = default_text (firstStringAttr attrs [ARTIFACT_TYPE_KEY]) ''text'',
       ar_storageRef = firstStringAttr attrs [ARTIFACT_STORAGE_REF_KEY],
       ar_sizeBytes = firstNumberAttr attrs [ARTIFACT_SIZE_BYTES_KEY],
       ar_sha256Hash = default_text (firstStringAttr attrs [ARTIFACT_SHA256_HASH_KEY]) (sha content),
       ar_contentPreview = redacted_column num ps capturePayloads (JStr content) (redaction_context_of sha s attrs ''artifact'' ''content'')\<rparr>)"

end
