(* ===== verification/Action_Graph.thy ===== *)
theory Action_Graph
  imports Action_Records
begin

text \<open>
  The action graph processor, \<^verbatim>\<open>packages/obs-collector/src/plugins/action-graph-processor.ts\<close>, on a batch: the rows of every span, the
  roll-up of costs and durations into agent runs, and the statements of the six tables in one transaction.  Parameters: the order
  in which the spans of a batch push a row (\<open>order\<close>, a permutation for each table), \<^verbatim>\<open>Date.parse\<close>, the sum of two costs, the values a
  database refuses to bind, and the failure of the transaction.
\<close>

section \<open>One span\<close>

record span_rows =
  sw_action :: action_row
  sw_agentRun :: "agent_run_row option"
  sw_toolCall :: "tool_call_row option"
  sw_retrieval :: "retrieval_row option"
  sw_eval :: "eval_row option"
  sw_artifact :: "artifact_row option"

definition span_rows_of ::
  "(rat \<Rightarrow> string) \<Rightarrow> (string \<Rightarrow> string) \<Rightarrow> payload_redactor list \<Rightarrow> enricher list \<Rightarrow> bool \<Rightarrow> stored_span \<Rightarrow> (string \<times> json) list \<Rightarrow> span_rows" where
  "span_rows_of num sha ps es capturePayloads s attrs =
     (let trusted = trusted_attributes num sha s attrs in
      \<lparr>sw_action = run_enrichers (map enrichActionRecord es) (action_row_of num sha capturePayloads s attrs) s trusted,
       sw_agentRun = (if is_agent_run attrs
         then Some (run_enrichers (map enrichAgentRunRecord es) (agent_run_row_of num sha capturePayloads s attrs) s trusted) else None),
       sw_toolCall = (if is_tool_call attrs
         then Some (run_enrichers (map enrichToolCallRecord es) (tool_call_row_of num sha ps capturePayloads s attrs) s trusted) else None),
       sw_retrieval = (if is_retrieval attrs
         then Some (run_enrichers (map enrichRetrievalRecord es) (retrieval_row_of num sha ps capturePayloads s attrs) s trusted) else None),
       sw_eval = (if is_eval attrs
         then Some (run_enrichers (map enrichEvalRecord es) (eval_row_of sha s attrs) s trusted) else None),
       sw_artifact = (if has_artifact attrs
         then Some (run_enrichers (map enrichArtifactRecord es) (artifact_row_of num sha ps capturePayloads s attrs) s trusted) else None)\<rparr>)"

text \<open>As in the payload processor, every span asks for its project before an answer is there; a span that is no action asks too.\<close>

definition graph_span ::
  "(rat \<Rightarrow> string) \<Rightarrow> (string \<Rightarrow> string) \<Rightarrow> payload_redactor list \<Rightarrow> enricher list \<Rightarrow> json option \<Rightarrow> capture_query \<Rightarrow> stored_span \<Rightarrow>
   string + (span_rows option \<times> stored_span)" where
  "graph_span num sha ps es captureDefault query s =
     (let attrs = attributes s in
      res_bind (projectCaptureEnabled captureDefault query [] (st_projectId s)) (\<lambda>(capturePayloads, _).
        if \<not> is_action_span attrs then Inr (None, s)
        else Inr (Some (span_rows_of num sha ps es capturePayloads s attrs),
               s\<lparr>st_attributesJson := stringify num (JObj (trusted_attributes num sha s attrs))\<rparr>)))"

section \<open>Roll-up into agent runs\<close>

fun js_max :: "js_number \<Rightarrow> js_number \<Rightarrow> js_number" where
  "js_max NaN y = NaN"
| "js_max x NaN = NaN"
| "js_max (Num a) (Num b) = Num (max a b)"
| "js_max (Infinity p) y = (if p then Infinity True else y)"
| "js_max x (Infinity p) = (if p then Infinity True else x)"

definition child_of_run :: "string \<Rightarrow> action_row \<Rightarrow> bool" where
  "child_of_run runId a \<longleftrightarrow> ac_rootActionId a = runId \<or> ac_agentRunId a = Some runId \<or> ac_id a = runId"

definition finite_or_zero :: "js_number option \<Rightarrow> js_number" where
  "finite_or_zero v = (case v of Some x \<Rightarrow> if isFinite x then x else Num 0 | None \<Rightarrow> Num 0)"

definition child_cost :: "(js_number \<Rightarrow> js_number \<Rightarrow> js_number) \<Rightarrow> string \<Rightarrow> action_row list \<Rightarrow> js_number" where
  "child_cost add runId children =
     foldl (\<lambda>total a. add total (finite_or_zero (ac_totalCostUsd a))) (Num 0) (filter (\<lambda>a. ac_id a \<noteq> runId) children)"

definition wall_clock :: "(string \<Rightarrow> int option) \<Rightarrow> action_row list \<Rightarrow> int option" where
  "wall_clock date_parse children =
     (let starts = List.map_filter (\<lambda>a. date_parse (ac_startedAt a)) children;
          ends = List.map_filter (\<lambda>a. date_parse (ac_endedAt a)) children
      in if starts \<noteq> [] \<and> ends \<noteq> [] then Some (foldl max (hd ends) (tl ends) - foldl min (hd starts) (tl starts)) else None)"

definition roll_up ::
  "(js_number \<Rightarrow> js_number \<Rightarrow> js_number) \<Rightarrow> (string \<Rightarrow> int option) \<Rightarrow> action_row list \<Rightarrow> agent_run_row \<Rightarrow> agent_run_row" where
  "roll_up add date_parse actions run =
     (let children = filter (child_of_run (ag_id run)) actions;
          wallClockMs = wall_clock date_parse children;
          maxActionDuration = foldl (\<lambda>m a. max m (int (ac_durationMs a))) 0 children
      in run\<lparr>ag_totalCostUsd := js_max (finite_or_zero (Some (ag_totalCostUsd run))) (child_cost add (ag_id run) children),
             ag_totalDurationMs := max (max (ag_totalDurationMs run) (case wallClockMs of Some w \<Rightarrow> w | None \<Rightarrow> 0)) maxActionDuration\<rparr>)"

section \<open>The six tables\<close>

record graph_tables =
  gt_actions :: "(string, action_row) table"
  gt_agentRuns :: "(string, agent_run_row) table"
  gt_toolCalls :: "(string, tool_call_row) table"
  gt_retrievals :: "(string, retrieval_row) table"
  gt_evals :: "(string, eval_row) table"
  gt_artifacts :: "(string, artifact_row) table"

datatype graph_row =
    RAction action_row
  | RAgentRun agent_run_row
  | RToolCall tool_call_row
  | RRetrieval retrieval_row
  | REval eval_row
  | RArtifact artifact_row

text \<open>The columns that hold an attribute of any type; a database may refuse to bind one.\<close>

fun free_columns :: "graph_row \<Rightarrow> json list" where
  "free_columns (RAction r) = [ac_actorId r, ac_actionKind r, ac_sessionId r, ac_interactionId r, ac_userId r, ac_modelName r, ac_provider r]"
| "free_columns (RAgentRun r) = [ag_agentId r, ag_goal r, ag_outcome r]"
| "free_columns (RArtifact r) = [ar_artifactName r]"
| "free_columns _ = []"

text \<open>
  Every table is keyed by \<^verbatim>\<open>id\<close> alone and a conflict replaces the whole row (\<^verbatim>\<open>migrations/031_agent_action_graph.sql\<close>); the name of an
  artifact is the only column declared \<^verbatim>\<open>NOT NULL\<close> that the code may leave null.
\<close>

definition upsert_graph :: "(string, graph_row) sql_statement \<Rightarrow> graph_tables \<Rightarrow> string + (nat \<times> graph_tables)" where
  "upsert_graph s t =
     (case stmt_bound s of
        None \<Rightarrow> Inl ''missing parameters''
      | Some (RAction r) \<Rightarrow> Inr (1, t\<lparr>gt_actions := (gt_actions t)(ac_id r \<mapsto> r)\<rparr>)
      | Some (RAgentRun r) \<Rightarrow> Inr (1, t\<lparr>gt_agentRuns := (gt_agentRuns t)(ag_id r \<mapsto> r)\<rparr>)
      | Some (RToolCall r) \<Rightarrow> Inr (1, t\<lparr>gt_toolCalls := (gt_toolCalls t)(tc_id r \<mapsto> r)\<rparr>)
      | Some (RRetrieval r) \<Rightarrow> Inr (1, t\<lparr>gt_retrievals := (gt_retrievals t)(rt_id r \<mapsto> r)\<rparr>)
      | Some (REval r) \<Rightarrow> Inr (1, t\<lparr>gt_evals := (gt_evals t)(er_id r \<mapsto> r)\<rparr>)
      | Some (RArtifact r) \<Rightarrow>
          if ar_artifactName r = JNull then Inl ''NOT NULL constraint failed: artifacts.artifact_name''
          else Inr (1, t\<lparr>gt_artifacts := (gt_artifacts t)(ar_id r \<mapsto> r)\<rparr>))"

section \<open>A batch\<close>

definition in_order :: "(nat \<Rightarrow> nat list) \<Rightarrow> 'a list \<Rightarrow> 'a list" where
  "in_order perm xs = map (\<lambda>i. xs ! i) (perm (length xs))"

text \<open>
  The rows to insert, per table, in the order they were pushed.  The runs are rolled up over the actions pushed.
\<close>

definition graph_rows ::
  "(nat \<Rightarrow> nat \<Rightarrow> nat list) \<Rightarrow> (js_number \<Rightarrow> js_number \<Rightarrow> js_number) \<Rightarrow> (string \<Rightarrow> int option) \<Rightarrow> span_rows list \<Rightarrow> (string \<times> graph_row list) list" where
  "graph_rows order add date_parse rows =
     (let actions = in_order (order 0) (map sw_action rows);
          runs = in_order (order 1) (List.map_filter sw_agentRun rows)
      in [(''actions'', map RAction actions),
          (''agent_runs'', map RAgentRun (map (roll_up add date_parse actions) runs)),
          (''tool_calls'', map RToolCall (in_order (order 2) (List.map_filter sw_toolCall rows))),
          (''retrieval_events'', map RRetrieval (in_order (order 3) (List.map_filter sw_retrieval rows))),
          (''eval_results'', map REval (in_order (order 4) (List.map_filter sw_eval rows))),
          (''artifacts'', map RArtifact (in_order (order 5) (List.map_filter sw_artifact rows)))])"

fun bind_errors :: "(json \<Rightarrow> string option) \<Rightarrow> graph_row list \<Rightarrow> string option" where
  "bind_errors bind_error [] = None"
| "bind_errors bind_error (r # rs) =
     (case List.map_filter bind_error (free_columns r) of e # _ \<Rightarrow> Some e | [] \<Rightarrow> bind_errors bind_error rs)"

text \<open>
  The spans returned, the tables and the messages logged.  Binding happens outside the \<^verbatim>\<open>try\<close>, so an error of it is one of the
  processor.
\<close>

definition process_actions ::
  "(rat \<Rightarrow> string) \<Rightarrow> (string \<Rightarrow> string) \<Rightarrow> payload_redactor list \<Rightarrow> enricher list \<Rightarrow> json option \<Rightarrow> capture_query \<Rightarrow>
   (nat \<Rightarrow> nat \<Rightarrow> nat list) \<Rightarrow> (js_number \<Rightarrow> js_number \<Rightarrow> js_number) \<Rightarrow> (string \<Rightarrow> int option) \<Rightarrow> (json \<Rightarrow> string option) \<Rightarrow> dialect \<Rightarrow> string option \<Rightarrow>
   graph_tables \<Rightarrow> stored_span list \<Rightarrow> string + (stored_span list \<times> graph_tables \<times> string list)" where
  "process_actions num sha ps es captureDefault query order add date_parse bind_error d fault t spans =
     res_bind (promise_all (map (graph_span num sha ps es captureDefault query) spans)) (\<lambda>results.
       let tables = graph_rows order add date_parse (List.map_filter fst results); transformed = map snd results;
           statements = concat (map (\<lambda>(sql, rows). once_statements d sql rows) tables)
       in case bind_errors bind_error (concat (map snd tables)) of
            Some e \<Rightarrow> Inl e
          | None \<Rightarrow>
              if statements = [] then Inr (transformed, t, [])
              else (case commit upsert_graph fault statements t of
                  (Inl e, t') \<Rightarrow> Inr (transformed, t', [''[action-graph-processor] write failed: '' @ e])
                | (Inr ns, t') \<Rightarrow> Inr (transformed, t', [])))"

section \<open>Attributes of the span returned\<close>

lemma get_delete_keys: "map_get (delete_keys ks m) k = (if k \<in> set ks then None else map_get m k)"
  unfolding delete_keys_def by (induction ks arbitrary: m) (simp_all add: map_get_delete)

lemma printable_delete_keys: "printable_json num (JObj m) \<Longrightarrow> printable_json num (JObj (delete_keys ks m))"
  unfolding delete_keys_def
proof (induction ks arbitrary: m)
  case (Cons k ks)
  then show ?case using printable_delete [of num m k] by (simp only: foldl_Cons)
qed simp

definition GRAPH_WRITTEN :: "string list" where
  "GRAPH_WRITTEN = [ACTION_ID_KEY, ACTION_ROOT_ID_KEY, ACTION_CONFIDENCE_KEY, ''obs.mcp.audit_envelope'', ''obs.action.agent_run_id'',
     ''obs.agent_run.id'', ACTION_CAUSED_BY_ID_KEY, AGENT_RUN_ID_KEY]"

lemma get_trusted_other:
  assumes "k \<notin> set GRAPH_WRITTEN" and "k \<notin> set EVIDENCE_ATTR_KEYS"
  shows "map_get (trusted_attributes num sha s attrs) k = map_get attrs k"
  using assms
  by (simp add: GRAPH_WRITTEN_def trusted_attributes_def Let_def map_get_define map_get_delete get_delete_keys split: option.split)

lemma evidence_apart: "k \<in> set EVIDENCE_ATTR_KEYS \<Longrightarrow> k \<notin> {ACTION_CAUSED_BY_ID_KEY, AGENT_RUN_ID_KEY, ACTION_ID_KEY, ACTION_ROOT_ID_KEY, ACTION_CONFIDENCE_KEY, ''obs.mcp.audit_envelope''}"
  by (auto simp: EVIDENCE_ATTR_KEYS_def action_keys)

lemma get_trusted_evidence: "k \<in> set EVIDENCE_ATTR_KEYS \<Longrightarrow> map_get (trusted_attributes num sha s attrs) k = None"
  using evidence_apart [of k]
  by (simp add: trusted_attributes_def Let_def map_get_define map_get_delete get_delete_keys split: option.split)

lemma get_trusted_ids:
  defines "d \<equiv> \<lambda>sha s attrs. graph_identity sha s attrs"
  shows "map_get (trusted_attributes num sha s attrs) ACTION_ID_KEY = Some (JStr (ai_actionId (d sha s attrs)))"
    "map_get (trusted_attributes num sha s attrs) ACTION_ROOT_ID_KEY = Some (JStr (ai_rootActionId (d sha s attrs)))"
    "map_get (trusted_attributes num sha s attrs) ACTION_CONFIDENCE_KEY = Some (JStr (ai_confidence (d sha s attrs)))"
    "map_get (trusted_attributes num sha s attrs) ACTION_CAUSED_BY_ID_KEY = Some (case ai_causedByActionId (d sha s attrs) of None \<Rightarrow> JNull | Some c \<Rightarrow> JStr c)"
    "map_get (trusted_attributes num sha s attrs) AGENT_RUN_ID_KEY = map_option JStr (graph_run_id sha s attrs)"
proof -
  have k: "k \<notin> set EVIDENCE_ATTR_KEYS" if "k \<in> {ACTION_ID_KEY, ACTION_ROOT_ID_KEY, ACTION_CONFIDENCE_KEY}" for k
    using evidence_apart that by blast
  note simps = trusted_attributes_def Let_def map_get_define map_get_delete get_delete_keys action_keys
  show "map_get (trusted_attributes num sha s attrs) ACTION_ID_KEY = Some (JStr (ai_actionId (d sha s attrs)))"
    "map_get (trusted_attributes num sha s attrs) ACTION_ROOT_ID_KEY = Some (JStr (ai_rootActionId (d sha s attrs)))"
    "map_get (trusted_attributes num sha s attrs) ACTION_CONFIDENCE_KEY = Some (JStr (ai_confidence (d sha s attrs)))"
    using k [of ACTION_ID_KEY] k [of ACTION_ROOT_ID_KEY] k [of ACTION_CONFIDENCE_KEY] by (simp_all add: simps d_def split: option.split)
  show "map_get (trusted_attributes num sha s attrs) ACTION_CAUSED_BY_ID_KEY = Some (case ai_causedByActionId (d sha s attrs) of None \<Rightarrow> JNull | Some c \<Rightarrow> JStr c)"
    "map_get (trusted_attributes num sha s attrs) AGENT_RUN_ID_KEY = map_option JStr (graph_run_id sha s attrs)"
    by (simp_all add: simps d_def split: option.split)
qed

section \<open>What is kept when payloads are not captured\<close>

lemma get_attrs_column:
  assumes "printable_json num (JObj trusted)"
  shows "map_get (parseJsonRecord (Some (attrs_column num False trusted))) k = (if k \<in> set PAYLOAD_ATTR_KEYS then None else map_get trusted k)"
  using record_of_text [OF printable_delete_keys [OF assms, of PAYLOAD_ATTR_KEYS]]
  by (simp add: attrs_column_def stripPayloadAttrs_def get_delete_keys del: stringify.simps)


text \<open>Where payloads are protected in name only.  Whether or not the project captures payloads, the span returned, which is what the span table
  stores, keeps every payload attribute other than the evidence ones, the reasoning and the rubric of an evaluation and the state of a
  mutation before and after are stored as they came; and when it does, a tool argument that is a text, as all are, is stored verbatim in the
  column for redacted arguments, because the redactor looks into objects only.
\<close>

theorem payload_protection_faults:
  assumes "graph_span num sha [] [] cd query s = Inr (Some rows, t)" and "printable_json num (JObj (trusted_attributes num sha s (attributes s)))"
    and "isPayloadCaptureEnabled cd query (st_projectId s) = Inr capture"
  shows "(\<forall>k \<in> set PAYLOAD_ATTR_KEYS - set EVIDENCE_ATTR_KEYS. map_get (attributes t) k = map_get (attributes s) k) \<and>
    (\<forall>r. sw_eval rows = Some r \<longrightarrow> er_reasoning r = firstStringAttr (attributes s) [EVAL_REASONING_KEY] \<and>
      er_rubricJson r = firstStringAttr (attributes s) [EVAL_RUBRIC_KEY]) \<and>
    (\<forall>r. sw_toolCall rows = Some r \<longrightarrow> tc_mutationBeforeJson r = mutation_column num (attributes s) ''before'' \<and>
      (\<forall>txt. tool_args (attributes s) = JStr txt \<longrightarrow> tc_argsRedacted r = (if capture then Some txt else None)))"
proof -
  have rows: "rows = span_rows_of num sha [] [] capture s (attributes s)"
    and t: "t = s\<lparr>st_attributesJson := stringify num (JObj (trusted_attributes num sha s (attributes s)))\<rparr>"
    using assms(1, 3) by (auto simp: graph_span_def projectCaptureEnabled_def map_get_def [of "[]"] Let_def split: if_splits)
  have "map_get (attributes t) k = map_get (attributes s) k" if "k \<in> set PAYLOAD_ATTR_KEYS - set EVIDENCE_ATTR_KEYS" for k
  proof -
    have "k \<notin> set GRAPH_WRITTEN" using that by (auto simp: PAYLOAD_ATTR_KEYS_def GRAPH_WRITTEN_def ai_keys payload_keys)
    then show ?thesis
      using that get_trusted_other [of k num sha s "attributes s"] record_of_text [OF assms(2)] by (simp add: t del: stringify.simps)
  qed
  then show ?thesis
    by (auto simp: rows span_rows_of_def Let_def eval_row_of_def tool_call_row_of_def redacted_column_def split: if_splits)
qed

section \<open>Witnesses\<close>

definition sample_action :: "(string \<times> json) list" where
  "sample_action =
     [(ACTION_ID_KEY, JStr ''AAAAAAAAAAAAAAAAAAAAAAAAAA''), (ACTION_ROOT_ID_KEY, JStr ''AAAAAAAAAAAAAAAAAAAAAAAAAA''),
      (TOOL_NAME_KEY, JStr ''shell''), (TOOL_ARGS_KEY, JStr ''rm'')]"

abbreviation sample_action_span :: stored_span where
  "sample_action_span \<equiv> sample_span (stringify bit_text (JObj sample_action))"

lemma sample_trusted:
  "trusted_attributes bit_text (\<lambda>_. ''h'') (sample_span t) sample_action =
     sample_action @ [(ACTION_CONFIDENCE_KEY, JStr ''explicit''), (ACTION_CAUSED_BY_ID_KEY, JNull)]"
  by code_simp

lemma sample_action_ok:
  "attributes sample_action_span = sample_action"
  "printable_json bit_text (JObj (trusted_attributes bit_text (\<lambda>_. ''h'') (sample_span t) sample_action))"
  "is_tool_call sample_action" "is_action_span sample_action" "tool_args sample_action = JStr ''rm''" "\<not> is_eval sample_action"
proof -
  have p: "printable_json bit_text (JObj sample_action)"
    by (simp add: sample_action_def make_object_def obj_define_def is_index_def is_digit_def char_code_def action_keys ai_keys)
  then show "attributes sample_action_span = sample_action" using record_of_text [OF p] by (simp add: sample_span_def del: stringify.simps)
  show "printable_json bit_text (JObj (trusted_attributes bit_text (\<lambda>_. ''h'') (sample_span t) sample_action))"
    unfolding sample_trusted
    by (simp add: sample_action_def make_object_def obj_define_def is_index_def is_digit_def char_code_def action_keys ai_keys)
qed (code_simp+)


abbreviation sample_rows :: span_rows where
  "sample_rows \<equiv> span_rows_of bit_text (\<lambda>_. ''h'') [] [] True sample_action_span sample_action"

abbreviation sample_returned :: stored_span where
  "sample_returned \<equiv> sample_action_span
     \<lparr>st_attributesJson := stringify bit_text (JObj (trusted_attributes bit_text (\<lambda>_. ''h'') sample_action_span sample_action))\<rparr>"

lemma sample_graph_span:
  "graph_span bit_text (\<lambda>_. ''h'') [] [] (Some (JBool True)) (\<lambda>_. Inr None) sample_action_span = Inr (Some sample_rows, sample_returned)"
  using sample_action_ok(4) sample_capture
  by (simp add: graph_span_def projectCaptureEnabled_def map_get_def [of "[]"] sample_action_ok(1) del: stringify.simps)

lemma sample_tool_call: "\<exists>r. sw_toolCall sample_rows = Some r"
  using sample_action_ok(3) by (simp add: span_rows_of_def Let_def del: stringify.simps)

theorem payload_protection_faults_witness:
  "\<exists>rows t r. graph_span bit_text (\<lambda>_. ''h'') [] [] (Some (JBool True)) (\<lambda>_. Inr None) sample_action_span = Inr (Some rows, t) \<and>
     sw_toolCall rows = Some r \<and> tc_argsRedacted r = Some ''rm'' \<and> map_get (attributes t) TOOL_ARGS_KEY = Some (JStr ''rm'')"
proof -
  obtain r where r: "sw_toolCall sample_rows = Some r" using sample_tool_call by blast
  have key: "TOOL_ARGS_KEY \<in> set PAYLOAD_ATTR_KEYS - set EVIDENCE_ATTR_KEYS" "map_get sample_action TOOL_ARGS_KEY = Some (JStr ''rm'')"
    by code_simp+
  have printable: "printable_json bit_text (JObj (trusted_attributes bit_text (\<lambda>_. ''h'') sample_action_span (attributes sample_action_span)))"
    by (simp only: sample_action_ok)
  show ?thesis
    using r key payload_protection_faults [OF sample_graph_span printable sample_capture, unfolded sample_action_ok(1)] sample_action_ok(5)
    by (intro exI [of _ sample_rows] exI [of _ sample_returned] exI [of _ r] conjI [OF sample_graph_span]) (simp_all del: stringify.simps)
qed

end
