(* ===== verification/Action_Links.thy ===== *)
theory Action_Links
  imports Action_Graph
begin

text \<open>
  The invariants of the action graph: every row of the five other tables names an action that is stored, the action stored for a span
  and the span returned carry the same identity, and the totals of an agent run are those of its actions in the batch.
\<close>

section \<open>Rows name stored actions\<close>

definition linked_ids :: "graph_tables \<Rightarrow> string set" where
  "linked_ids t = ag_id ` ran (gt_agentRuns t) \<union> tc_actionId ` ran (gt_toolCalls t) \<union> rt_actionId ` ran (gt_retrievals t) \<union>
     er_actionId ` ran (gt_evals t) \<union> ar_actionId ` ran (gt_artifacts t)"

definition graph_linked :: "graph_tables \<Rightarrow> bool" where
  "graph_linked t \<longleftrightarrow> linked_ids t \<subseteq> dom (gt_actions t)"

fun row_link :: "graph_row \<Rightarrow> string" where
  "row_link (RAction r) = ac_id r"
| "row_link (RAgentRun r) = ag_id r"
| "row_link (RToolCall r) = tc_actionId r"
| "row_link (RRetrieval r) = rt_actionId r"
| "row_link (REval r) = er_actionId r"
| "row_link (RArtifact r) = ar_actionId r"

definition action_ids :: "graph_row list \<Rightarrow> string set" where
  "action_ids rs = {ac_id a |a. RAction a \<in> set rs}"

lemma ran_updD: "x \<in> ran (m(k \<mapsto> v)) \<Longrightarrow> x = v \<or> x \<in> ran m"
  by (auto simp: ran_def split: if_splits)

lemma upsert_links:
  assumes "upsert_graph (bound sql r) t = Inr (n, t')"
  shows "linked_ids t' \<subseteq> insert (row_link r) (linked_ids t) \<and> dom (gt_actions t') = action_ids [r] \<union> dom (gt_actions t)"
  using assms by (cases r) (auto simp: upsert_graph_def linked_ids_def action_ids_def split: if_splits dest!: ran_updD)

text \<open>A batch on D1: every statement holds its own row.\<close>

lemma run_links:
  "run_batch upsert_graph ss t = Inr (ns, t') \<Longrightarrow> map stmt_bound ss = map Some rs \<Longrightarrow>
     linked_ids t' \<subseteq> row_link ` set rs \<union> linked_ids t \<and> dom (gt_actions t') = action_ids rs \<union> dom (gt_actions t)"
proof (induction ss arbitrary: t rs ns)
  case (Cons s ss)
  obtain r rs' where rs: "rs = r # rs'" "stmt_bound s = Some r" "map stmt_bound ss = map Some rs'" using Cons.prems(2) by (cases rs) auto
  obtain n t1 ns' where step: "upsert_graph s t = Inr (n, t1)" "run_batch upsert_graph ss t1 = Inr (ns', t')"
    using Cons.prems(1) by (auto simp: res_bind_eq_Inr)
  have "s = bound (stmt_sql s) r" using rs(2) by (cases s) simp
  from upsert_links [of "stmt_sql s" r t n t1] step(1) this
  have one: "linked_ids t1 \<subseteq> insert (row_link r) (linked_ids t)" "dom (gt_actions t1) = action_ids [r] \<union> dom (gt_actions t)" by simp_all
  have rest: "linked_ids t' \<subseteq> row_link ` set rs' \<union> linked_ids t1" "dom (gt_actions t') = action_ids rs' \<union> dom (gt_actions t1)"
    using Cons.IH [OF step(2) rs(3)] by simp_all
  have "action_ids rs = action_ids [r] \<union> action_ids rs'" by (auto simp: action_ids_def rs(1))
  then show ?case using one rest by (auto simp: rs(1))
qed (auto simp: action_ids_def)

lemma graph_batch_linked:
  assumes "graph_linked t" and "run_batch upsert_graph ss t = Inr (ns, t')" and "map stmt_bound ss = map Some rs"
    and "row_link ` set rs \<subseteq> action_ids rs"
  shows "graph_linked t'"
proof -
  have "linked_ids t' \<subseteq> row_link ` set rs \<union> linked_ids t" "dom (gt_actions t') = action_ids rs \<union> dom (gt_actions t)"
    using run_links [OF assms(2, 3)] by simp_all
  moreover have "row_link ` set rs \<union> linked_ids t \<subseteq> action_ids rs \<union> dom (gt_actions t)"
    using assms(1, 4) unfolding graph_linked_def by (rule Un_mono [rotated])
  ultimately show ?thesis unfolding graph_linked_def by (simp only: order_trans)
qed

lemma permuted_set: "mset (perm (length xs)) = mset [0..<length xs] \<Longrightarrow> set (in_order perm xs) = set xs"
proof -
  assume "mset (perm (length xs)) = mset [0..<length xs]"
  then have "set (perm (length xs)) = {0..<length xs}" by (metis mset_eq_setD set_upt)
  then show ?thesis by (simp add: in_order_def nth_image)
qed

lemma rolled_id [simp]: "ag_id (roll_up add dp actions run) = ag_id run"
  by (simp add: roll_up_def Let_def)

lemma span_rows_links:
  assumes "rows = span_rows_of num sha ps [] c s attrs"
  shows "\<And>r. sw_agentRun rows = Some r \<Longrightarrow> ag_id r = ac_id (sw_action rows)"
    "\<And>r. sw_toolCall rows = Some r \<Longrightarrow> tc_actionId r = ac_id (sw_action rows)"
    "\<And>r. sw_retrieval rows = Some r \<Longrightarrow> rt_actionId r = ac_id (sw_action rows)"
    "\<And>r. sw_eval rows = Some r \<Longrightarrow> er_actionId r = ac_id (sw_action rows)"
    "\<And>r. sw_artifact rows = Some r \<Longrightarrow> ar_actionId r = ac_id (sw_action rows)"
  by (auto simp: assms span_rows_of_def Let_def action_row_of_def agent_run_row_of_def tool_call_row_of_def retrieval_row_of_def
      eval_row_of_def artifact_row_of_def split: if_splits)

lemma map_filter_set: "set (List.map_filter f xs) = {y. \<exists>x \<in> set xs. f x = Some y}"
  by (force simp: List.map_filter_def)

lemma graph_rows_set:
  assumes "\<And>i n. mset (order i n) = mset [0..<n]"
  shows "set (concat (map snd (graph_rows order add dp rows))) =
    RAction ` sw_action ` set rows \<union>
    (\<lambda>x. RAgentRun (roll_up add dp (in_order (order 0) (map sw_action rows)) x)) ` {x. \<exists>w \<in> set rows. sw_agentRun w = Some x} \<union>
    RToolCall ` {x. \<exists>w \<in> set rows. sw_toolCall w = Some x} \<union> RRetrieval ` {x. \<exists>w \<in> set rows. sw_retrieval w = Some x} \<union>
    REval ` {x. \<exists>w \<in> set rows. sw_eval w = Some x} \<union> RArtifact ` {x. \<exists>w \<in> set rows. sw_artifact w = Some x}"
proof -
  have set: "set (in_order (order i) xs) = set xs" for i and xs :: "'x list" by (rule permuted_set) (rule assms)
  show ?thesis
    by (simp only: graph_rows_def Let_def list.map prod.sel concat.simps append_Nil2 set_append set_map set map_filter_set image_image Un_assoc)
qed

lemma graph_rows_linked:
  assumes "\<And>i n. mset (order i n) = mset [0..<n]" and "\<forall>w \<in> set rows. \<exists>s attrs c. w = span_rows_of num sha ps [] c s attrs"
  shows "row_link ` set (concat (map snd (graph_rows order add dp rows))) \<subseteq> action_ids (concat (map snd (graph_rows order add dp rows)))"
proof -
  have own: "sw_agentRun w = Some r1 \<Longrightarrow> ag_id r1 = ac_id (sw_action w)" "sw_toolCall w = Some r2 \<Longrightarrow> tc_actionId r2 = ac_id (sw_action w)"
    "sw_retrieval w = Some r3 \<Longrightarrow> rt_actionId r3 = ac_id (sw_action w)" "sw_eval w = Some r4 \<Longrightarrow> er_actionId r4 = ac_id (sw_action w)"
    "sw_artifact w = Some r5 \<Longrightarrow> ar_actionId r5 = ac_id (sw_action w)" if "w \<in> set rows" for w r1 r2 r3 r4 r5
    using assms(2) that span_rows_links by metis+
  have "(\<lambda>w. ac_id (sw_action w)) ` set rows \<subseteq> action_ids (concat (map snd (graph_rows order add dp rows)))"
    unfolding action_ids_def graph_rows_set [OF assms(1)] by blast
  moreover have "row_link ` set (concat (map snd (graph_rows order add dp rows))) \<subseteq> (\<lambda>w. ac_id (sw_action w)) ` set rows"
    unfolding graph_rows_set [OF assms(1)] by (auto simp: own)
  ultimately show ?thesis by (rule order_trans [rotated])
qed

lemma once_bound: "map stmt_bound (concat (map (\<lambda>(sql, rows). once_statements Sqlite sql rows) tables)) = map Some (concat (map snd tables))"
  by (induction tables) (auto simp: once_sqlite)

lemma batch_rows_of_spans:
  assumes "promise_all (map (graph_span num sha ps es cd query) spans) = Inr results" and "w \<in> set (List.map_filter fst results)"
  shows "\<exists>s \<in> set spans. \<exists>c t. graph_span num sha ps es cd query s = Inr (Some w, t) \<and> w = span_rows_of num sha ps es c s (attributes s)"
proof -
  obtain t where "(Some w, t) \<in> set results" using assms(2) by (force simp: map_filter_set)
  then have "Inr (Some w, t) \<in> set (map (graph_span num sha ps es cd query) spans)" using assms(1) by (simp add: promise_all_Inr)
  then obtain s where s: "s \<in> set spans" "graph_span num sha ps es cd query s = Inr (Some w, t)" by auto
  then have "\<exists>c. w = span_rows_of num sha ps es c s (attributes s)"
    by (auto simp: graph_span_def Let_def res_bind_eq_Inr split: if_splits)
  then show ?thesis using s by blast
qed

text \<open>
  C18: The graph stays linked on D1.  If every agent run, tool call, retrieval, evaluation and artifact names an action that is stored, so
  it is after a batch, in whatever order its spans push their rows, and whether the transaction succeeds, fails or is refused.
\<close>

theorem graph_stays_linked:
  assumes "graph_linked t" and "\<And>i n. mset (order i n) = mset [0..<n]"
    and "process_actions num sha ps [] cd query order add dp bind_error Sqlite fault t spans = Inr (out, t', msgs)"
  shows "graph_linked t'"
proof -
  obtain results where res: "promise_all (map (graph_span num sha ps [] cd query) spans) = Inr results"
    using assms(3) by (auto simp: process_actions_def res_bind_eq_Inr)
  define rows where "rows = List.map_filter fst results"
  define tables where "tables = graph_rows order add dp rows"
  define ss where "ss = concat (map (\<lambda>(sql, rs). once_statements Sqlite sql rs) tables)"
  have t': "t' = t \<or> t' = snd (commit upsert_graph fault ss t)"
    using assms(3) by (auto simp: process_actions_def res Let_def tables_def [symmetric] ss_def [symmetric] rows_def [symmetric] split: option.splits if_splits sum.splits prod.splits)
  have links: "row_link ` set (concat (map snd tables)) \<subseteq> action_ids (concat (map snd tables))"
    unfolding tables_def rows_def
    by (rule graph_rows_linked [OF assms(2)]) (use batch_rows_of_spans [OF res] in blast)
  show ?thesis
  proof (cases "run_batch upsert_graph ss t")
    case (Inl e)
    then show ?thesis using t' assms(1) by (auto simp: commit_def split: option.splits)
  next
    case (Inr p)
    then obtain ns t1 where run: "run_batch upsert_graph ss t = Inr (ns, t1)" by (cases p) simp
    have "graph_linked t1" by (rule graph_batch_linked [OF assms(1) run _ links]) (simp add: ss_def once_bound)
    then show ?thesis using t' assms(1) run by (auto simp: commit_def split: option.splits)
  qed
qed

section \<open>The span returned carries the identity of its rows\<close>

lemma graph_run_valid: "graph_run_id sha s attrs = Some i \<Longrightarrow> ACTION_ID_RE i"
  using resolved_valid [of sha s "obj_define attrs ACTION_KIND_KEY (graph_kind attrs)"]
  by (auto simp: graph_run_id_def graph_identity_def Let_def split: option.splits if_splits)

lemma graph_run_none: "graph_run_id sha s attrs = None \<Longrightarrow> \<not> agent_kind attrs"
  by (auto simp: graph_run_id_def graph_kind_def is_run_kind_def agent_kind_def string_at_def firstStringAttr_def Let_def
      split: option.splits if_splits json.splits)

lemma trusted_run_ids: "first_some (run_id_attrs (trusted_attributes num sha s attrs)) = graph_run_id sha s attrs"
proof -
  have "map_get (trusted_attributes num sha s attrs) ''obs.action.agent_run_id'' = None"
    "map_get (trusted_attributes num sha s attrs) ''obs.agent_run.id'' = None"
    by (simp_all add: trusted_attributes_def Let_def map_get_define map_get_delete get_delete_keys action_keys split: option.split)
  then show ?thesis
    using graph_run_valid [of sha s attrs]
    by (cases "graph_run_id sha s attrs") (simp_all add: run_id_attrs_def get_trusted_ids asValidActionId_def [of None])
qed

lemma trusted_kind: "agent_kind (trusted_attributes num sha s attrs) = agent_kind attrs"
proof -
  have "ACTION_KIND_KEY \<notin> set GRAPH_WRITTEN" "ACTION_KIND_KEY \<notin> set EVIDENCE_ATTR_KEYS"
    by (simp_all add: GRAPH_WRITTEN_def EVIDENCE_ATTR_KEYS_def action_keys)
  then show ?thesis using get_trusted_other by (simp add: agent_kind_def string_at_def)
qed

lemma identity_returned:
  "resolveActionIdentity sha s (trusted_attributes num sha s attrs) = (graph_identity sha s attrs)\<lparr>ai_agentRunId := graph_run_id sha s attrs\<rparr>"
proof (rule resolve_kept)
  show "(case first_some (run_id_attrs (trusted_attributes num sha s attrs)) of Some i \<Rightarrow> Some i
      | None \<Rightarrow> if agent_kind (trusted_attributes num sha s attrs) then Some (ai_actionId (graph_identity sha s attrs)) else None) = graph_run_id sha s attrs"
    unfolding trusted_run_ids trusted_kind using graph_run_none by (auto split: option.split)
qed (use resolved_valid resolved_confidence in \<open>simp_all add: get_trusted_ids graph_identity_def\<close>)

text \<open>The action stored for a span and the span returned carry the same identity, whatever the span claims: resolving the returned
  span gives the id, root, cause and agent run of the stored action, the ids are valid, and the agent run, tool call, retrieval,
  evaluation and artifact of the span all name that action.
\<close>

theorem action_matches_span:
  assumes "graph_span num sha ps [] cd query s = Inr (Some rows, t)" and "printable_json num (JObj (trusted_attributes num sha s (attributes s)))"
  shows "let a = sw_action rows; d = resolveActionIdentity sha t (attributes t) in
    (ac_id a, ac_rootActionId a, ac_causedByActionId a, ac_agentRunId a) = (ai_actionId d, ai_rootActionId d, ai_causedByActionId d, ai_agentRunId d) \<and>
    ACTION_ID_RE (ac_id a) \<and> ACTION_ID_RE (ac_rootActionId a) \<and> span_ids t = span_ids s \<and>
    pred_option (\<lambda>r. ag_id r = ac_id a) (sw_agentRun rows) \<and> pred_option (\<lambda>r. tc_actionId r = ac_id a) (sw_toolCall rows) \<and>
    pred_option (\<lambda>r. rt_actionId r = ac_id a) (sw_retrieval rows) \<and> pred_option (\<lambda>r. er_actionId r = ac_id a) (sw_eval rows) \<and>
    pred_option (\<lambda>r. ar_actionId r = ac_id a) (sw_artifact rows)"
proof -
  obtain c where rows: "rows = span_rows_of num sha ps [] c s (attributes s)"
    and t: "t = s\<lparr>st_attributesJson := stringify num (JObj (trusted_attributes num sha s (attributes s)))\<rparr>"
    using assms(1) by (auto simp: graph_span_def Let_def res_bind_eq_Inr split: if_splits)
  have "attributes t = trusted_attributes num sha s (attributes s)" using record_of_text [OF assms(2)] by (simp add: t del: stringify.simps)
  moreover have same: "st_projectId t = st_projectId s" "st_traceId t = st_traceId s" "st_spanId t = st_spanId s" "st_parentSpanId t = st_parentSpanId s"
    by (simp_all add: t)
  have "resolveActionIdentity sha t m = resolveActionIdentity sha s m" for m
    unfolding resolveActionIdentity_def same ..
  ultimately have "resolveActionIdentity sha t (attributes t) = (graph_identity sha s (attributes s))\<lparr>ai_agentRunId := graph_run_id sha s (attributes s)\<rparr>"
    by (simp add: identity_returned)
  moreover have "span_ids t = span_ids s" by (simp add: t span_ids_def)
  ultimately show ?thesis
    using span_rows_links [OF rows] resolved_valid [of sha s]
    by (simp add: Let_def rows span_rows_of_def action_row_of_def graph_identity_def pred_option_def)
qed

section \<open>Totals of an agent run\<close>

lemma foldl_max_Max: "foldl max (m :: int) xs = Max (insert m (set xs))"
proof (induction xs arbitrary: m)
  case (Cons x xs)
  then show ?case by (cases "xs = []") (simp_all add: insert_commute max.left_commute ac_simps)
qed simp

lemma foldl_min_Min: "foldl min (m :: int) xs = Min (insert m (set xs))"
proof (induction xs arbitrary: m)
  case (Cons x xs)
  then show ?case by (cases "xs = []") (simp_all add: insert_commute min.left_commute ac_simps)
qed simp

lemma foldl_max_map: "foldl (\<lambda>m a. max m (f a)) (b :: int) xs = Max (insert b (f ` set xs))"
  using foldl_max_Max [of b "map f xs"] by (simp add: foldl_map)

text \<open>The wall clock: the longest span of time between a start and an end of the children.\<close>

lemma wall_clock_is: "wall_clock dp children = Some w \<longleftrightarrow>
    (\<exists>a \<in> set children. \<exists>b \<in> set children. \<exists>s e. dp (ac_startedAt a) = Some s \<and> dp (ac_endedAt b) = Some e \<and> w = e - s) \<and>
    (\<forall>a \<in> set children. \<forall>b \<in> set children. \<forall>s e. dp (ac_startedAt a) = Some s \<and> dp (ac_endedAt b) = Some e \<longrightarrow> e - s \<le> w)"
proof -
  define starts where "starts = List.map_filter (\<lambda>a. dp (ac_startedAt a)) children"
  define ends where "ends = List.map_filter (\<lambda>a. dp (ac_endedAt a)) children"
  have sets: "s \<in> set starts \<longleftrightarrow> (\<exists>a \<in> set children. dp (ac_startedAt a) = Some s)" "e \<in> set ends \<longleftrightarrow> (\<exists>b \<in> set children. dp (ac_endedAt b) = Some e)" for s e
    by (auto simp: starts_def ends_def map_filter_set)
  have wall: "wall_clock dp children = (if starts \<noteq> [] \<and> ends \<noteq> [] then Some (Max (set ends) - Min (set starts)) else None)"
    by (cases starts; cases ends) (simp_all add: wall_clock_def starts_def [symmetric] ends_def [symmetric] foldl_max_Max foldl_min_Min)
  have "wall_clock dp children = Some w \<longleftrightarrow>
      (\<exists>s \<in> set starts. \<exists>e \<in> set ends. w = e - s) \<and> (\<forall>s \<in> set starts. \<forall>e \<in> set ends. e - s \<le> w)"
  proof (cases "starts \<noteq> [] \<and> ends \<noteq> []")
    case True
    then have m: "Max (set ends) \<in> set ends" "Min (set starts) \<in> set starts" by simp_all
    have le: "e \<le> Max (set ends)" "Min (set starts) \<le> s" if "e \<in> set ends" "s \<in> set starts" for e s using that by simp_all
    have only: "w = Max (set ends) - Min (set starts)"
      if "s \<in> set starts" "e \<in> set ends" "w = e - s" "\<forall>s \<in> set starts. \<forall>e \<in> set ends. e - s \<le> w" for s e
      using le [OF that(2, 1)] that(3) m that(4) [rule_format, OF m(2, 1)] by linarith
    have upper: "e - s \<le> Max (set ends) - Min (set starts)" if "s \<in> set starts" "e \<in> set ends" for s e using le [OF that(2, 1)] by linarith
    have "wall_clock dp children = Some (Max (set ends) - Min (set starts))" using True wall by simp
    then show ?thesis using m only upper by (metis option.inject)
  next
    case False
    then show ?thesis unfolding wall by auto
  qed
  then show ?thesis unfolding Bex_def Ball_def sets by blast
qed

lemma wall_clock_none:
  assumes "wall_clock dp children = None" and "a \<in> set children" and "b \<in> set children" and "dp (ac_startedAt a) = Some s"
  shows "dp (ac_endedAt b) \<noteq> Some e"
proof
  assume "dp (ac_endedAt b) = Some e"
  then have "e \<in> set (List.map_filter (\<lambda>a. dp (ac_endedAt a)) children)" using assms(3) by (auto simp: map_filter_set)
  moreover have "s \<in> set (List.map_filter (\<lambda>a. dp (ac_startedAt a)) children)" using assms(2, 4) by (auto simp: map_filter_set)
  ultimately show False using assms(1) by (auto simp: wall_clock_def Let_def split: if_splits)
qed

definition cost_of :: "js_number option \<Rightarrow> rat" where
  "cost_of v = (case v of Some (Num x) \<Rightarrow> x | _ \<Rightarrow> 0)"

abbreviation row_cost :: "action_row \<Rightarrow> rat" where
  "row_cost a \<equiv> cost_of (ac_totalCostUsd a)"

lemma finite_cost: "finite_or_zero v = Num (cost_of v)"
  by (auto simp: finite_or_zero_def cost_of_def isFinite_def split: option.split js_number.split)

text \<open>The sums the code forms over these rows are exact, as they are for amounts with few enough binary digits.\<close>

definition exact_costs :: "(js_number \<Rightarrow> js_number \<Rightarrow> js_number) \<Rightarrow> action_row list \<Rightarrow> bool" where
  "exact_costs add actions \<longleftrightarrow>
     (\<forall>xs a. mset (xs @ [a]) \<subseteq># mset actions \<longrightarrow> add (Num (sum_list (map row_cost xs))) (Num (row_cost a)) = Num (sum_list (map row_cost (xs @ [a]))))"

lemma exact_sum:
  assumes "exact_costs add actions"
  shows "mset (xs @ ys) \<subseteq># mset actions \<Longrightarrow>
    foldl (\<lambda>total a. add total (finite_or_zero (ac_totalCostUsd a))) (Num (sum_list (map row_cost xs))) ys = Num (sum_list (map row_cost (xs @ ys)))"
proof (induction ys arbitrary: xs)
  case (Cons y ys)
  have "mset (xs @ [y]) \<subseteq># mset actions" using Cons.prems by (auto intro: subset_mset.order_trans [rotated])
  then have "add (Num (sum_list (map row_cost xs))) (Num (row_cost y)) = Num (sum_list (map row_cost (xs @ [y])))"
    using assms by (simp add: exact_costs_def)
  then show ?case using Cons.IH [of "xs @ [y]"] Cons.prems by (simp add: finite_cost)
qed simp

lemma child_cost_exact:
  assumes "exact_costs add actions"
  shows "child_cost add runId (filter (child_of_run runId) actions) =
    Num (\<Sum>a\<leftarrow>filter (\<lambda>a. child_of_run runId a \<and> ac_id a \<noteq> runId) actions. row_cost a)"
proof -
  have "mset (filter (\<lambda>a. ac_id a \<noteq> runId) (filter (child_of_run runId) actions)) \<subseteq># mset actions"
    using multiset_filter_subset [of "\<lambda>a. ac_id a \<noteq> runId" "mset (filter (child_of_run runId) actions)"] multiset_filter_subset [of "child_of_run runId" "mset actions"]
    by (simp only: mset_filter subset_mset.order_trans)
  then show ?thesis using exact_sum [OF assms, of "[]"] by (simp add: child_cost_def conj_commute)
qed


end
