(* ===== verification/Action_Batch.thy ===== *)
theory Action_Batch
  imports Action_Links
begin

text \<open>
  What a batch of the action graph leaves in the six tables: on D1 the rows of every span, on Postgres the last row of each table; and
  the ways a batch is lost.
\<close>

section \<open>The tables after a batch\<close>

fun action_of where "action_of (RAction r) = Some r" | "action_of _ = None"
fun agent_run_of where "agent_run_of (RAgentRun r) = Some r" | "agent_run_of _ = None"
fun tool_call_of where "tool_call_of (RToolCall r) = Some r" | "tool_call_of _ = None"
fun retrieval_of where "retrieval_of (RRetrieval r) = Some r" | "retrieval_of _ = None"
fun eval_of where "eval_of (REval r) = Some r" | "eval_of _ = None"
fun artifact_of where "artifact_of (RArtifact r) = Some r" | "artifact_of _ = None"

definition graph_after :: "graph_row list \<Rightarrow> graph_tables \<Rightarrow> graph_tables" where
  "graph_after rs t =
     \<lparr>gt_actions = upserted ac_id (List.map_filter action_of rs) (gt_actions t),
      gt_agentRuns = upserted ag_id (List.map_filter agent_run_of rs) (gt_agentRuns t),
      gt_toolCalls = upserted tc_id (List.map_filter tool_call_of rs) (gt_toolCalls t),
      gt_retrievals = upserted rt_id (List.map_filter retrieval_of rs) (gt_retrievals t),
      gt_evals = upserted er_id (List.map_filter eval_of rs) (gt_evals t),
      gt_artifacts = upserted ar_id (List.map_filter artifact_of rs) (gt_artifacts t)\<rparr>"

definition nameless :: "graph_row \<Rightarrow> bool" where
  "nameless r \<longleftrightarrow> (case r of RArtifact a \<Rightarrow> ar_artifactName a = JNull | _ \<Rightarrow> False)"

lemma upsert_after:
  assumes "\<not> nameless r"
  shows "\<exists>t1. upsert_graph (bound sql r) t = Inr (1, t1) \<and> graph_after rs t1 = graph_after (r # rs) t"
  using assms by (cases r) (simp_all add: upsert_graph_def graph_after_def nameless_def upserted_simps List.map_filter_simps)

lemma bound_sql: "stmt_bound s = Some r \<Longrightarrow> s = bound (stmt_sql s) r"
  by (cases s) simp

lemma run_graph:
  "map stmt_bound ss = map Some rs \<Longrightarrow> \<forall>r \<in> set rs. \<not> nameless r \<Longrightarrow> \<exists>ns. run_batch upsert_graph ss t = Inr (ns, graph_after rs t)"
proof (induction ss arbitrary: rs t)
  case (Cons s ss)
  obtain r rs' where rs: "rs = r # rs'" "s = bound (stmt_sql s) r" "map stmt_bound ss = map Some rs'"
    using Cons.prems(1) bound_sql by (cases rs) auto
  obtain t1 where t1: "upsert_graph s t = Inr (1, t1)" "graph_after rs' t1 = graph_after rs t"
    using upsert_after [of r "stmt_sql s" t rs'] Cons.prems(2) rs(1, 2) by auto
  obtain ns where "run_batch upsert_graph ss t1 = Inr (ns, graph_after rs' t1)" using Cons.IH [OF rs(3)] Cons.prems(2) rs(1) by auto
  then show ?case using t1 by simp
qed (simp add: graph_after_def upserted_simps List.map_filter_simps)

lemma run_nameless:
  "map stmt_bound ss = map Some rs \<Longrightarrow> \<exists>r \<in> set rs. nameless r \<Longrightarrow> \<exists>e. run_batch upsert_graph ss t = Inl e"
proof (induction ss arbitrary: rs t)
  case (Cons s ss)
  obtain r rs' where rs: "rs = r # rs'" "s = bound (stmt_sql s) r" "map stmt_bound ss = map Some rs'"
    using Cons.prems(1) bound_sql by (cases rs) auto
  show ?case
  proof (cases "nameless r")
    case True
    then have "upsert_graph (bound (stmt_sql s) r) t = Inl ''NOT NULL constraint failed: artifacts.artifact_name''"
      by (cases r) (simp_all add: nameless_def upsert_graph_def)
    then show ?thesis using rs(2) by (cases s) simp
  next
    case False
    then obtain t1 where t1: "upsert_graph s t = Inr (1, t1)" using upsert_after [of r "stmt_sql s" t] rs(2) by auto
    obtain e where "run_batch upsert_graph ss t1 = Inl e" using Cons.IH [OF rs(3)] Cons.prems(2) rs(1) False by auto
    then show ?thesis using t1 by simp
  qed
qed simp

lemma bind_all: "bind_errors (\<lambda>_. None) rs = None"
  by (induction rs) (simp_all add: List.map_filter_def)

text \<open>The outcome of a batch in terms of the rows that its statements hold.\<close>

lemma process_outcome:
  assumes "promise_all (map (graph_span num sha ps es cd query) spans) = Inr results"
    and "tables = graph_rows order add dp (List.map_filter fst results)"
    and "ss = concat (map (\<lambda>(sql, rows). once_statements d sql rows) tables)"
    and "map stmt_bound ss = map Some rs"
  shows "process_actions num sha ps es cd query order add dp (\<lambda>_. None) d None t spans = Inr (map snd results,
      (if \<exists>r \<in> set rs. nameless r then t else graph_after rs t),
      (if \<exists>r \<in> set rs. nameless r then [''[action-graph-processor] write failed: '' @ projl (run_batch upsert_graph ss t)] else []))"
proof -
  have p: "process_actions num sha ps es cd query order add dp (\<lambda>_. None) d None t spans =
      (if ss = [] then Inr (map snd results, t, [])
       else (case run_batch upsert_graph ss t of
           Inl e \<Rightarrow> Inr (map snd results, t, [''[action-graph-processor] write failed: '' @ e])
         | Inr (ns, t') \<Rightarrow> Inr (map snd results, t', [])))"
    by (simp add: process_actions_def assms(1) Let_def assms(2, 3) bind_all commit_def split: sum.split prod.split)
  have empty: "(ss = []) = (rs = [])" "graph_after [] t = t"
    using assms(4) by (auto simp: graph_after_def upserted_simps List.map_filter_simps)
  show ?thesis
  proof (cases "\<exists>r \<in> set rs. nameless r")
    case True
    moreover obtain e where "run_batch upsert_graph ss t = Inl e" using run_nameless [OF assms(4) True] by blast
    moreover have "rs \<noteq> []" using True by auto
    ultimately show ?thesis unfolding p empty by simp
  next
    case False
    moreover obtain ns where "run_batch upsert_graph ss t = Inr (ns, graph_after rs t)" using run_graph [OF assms(4)] False by blast
    ultimately show ?thesis unfolding p empty(1) using empty(2) by simp
  qed
qed

section \<open>A batch on D1\<close>

lemma filters_rows:
  "List.map_filter action_of (concat (map snd (graph_rows order add dp rows))) = in_order (order 0) (map sw_action rows)"
  "List.map_filter agent_run_of (concat (map snd (graph_rows order add dp rows))) =
     map (roll_up add dp (in_order (order 0) (map sw_action rows))) (in_order (order 1) (List.map_filter sw_agentRun rows))"
  "List.map_filter tool_call_of (concat (map snd (graph_rows order add dp rows))) = in_order (order 2) (List.map_filter sw_toolCall rows)"
  "List.map_filter retrieval_of (concat (map snd (graph_rows order add dp rows))) = in_order (order 3) (List.map_filter sw_retrieval rows)"
  "List.map_filter eval_of (concat (map snd (graph_rows order add dp rows))) = in_order (order 4) (List.map_filter sw_eval rows)"
  "List.map_filter artifact_of (concat (map snd (graph_rows order add dp rows))) = in_order (order 5) (List.map_filter sw_artifact rows)"
  by (simp_all add: graph_rows_def Let_def List.map_filter_def comp_def)

lemma in_order_mset: "mset (perm (length xs)) = mset [0..<length xs] \<Longrightarrow> mset (in_order perm xs) = mset xs"
proof -
  assume m: "mset (perm (length xs)) = mset [0..<length xs]"
  have "mset (in_order perm xs) = image_mset ((!) xs) (mset (perm (length xs)))" by (simp add: in_order_def)
  also have "\<dots> = mset (map ((!) xs) [0..<length xs])" unfolding m by simp
  finally show ?thesis by (simp add: map_nth)
qed

lemma distinct_mset: "mset xs = mset ys \<Longrightarrow> distinct (map f xs) = distinct (map f ys)"
  by (metis mset_eq_imp_distinct_iff mset_map)

lemma distinct_filtered:
  "distinct (map k xs) \<Longrightarrow> (\<And>x y. x \<in> set xs \<Longrightarrow> g x = Some y \<Longrightarrow> key y = k x) \<Longrightarrow> distinct (map key (List.map_filter g xs))"
proof (induction xs)
  case (Cons x xs)
  have rec: "distinct (map key (List.map_filter g xs))" using Cons by simp
  have "key y \<notin> key ` set (List.map_filter g xs)" if "g x = Some y" for y
  proof
    assume "key y \<in> key ` set (List.map_filter g xs)"
    then obtain z where z: "z \<in> set (List.map_filter g xs)" "key y = key z" by blast
    then obtain u where u: "u \<in> set xs" "g u = Some z" by (auto simp: map_filter_set)
    then have "k u = k x" using Cons.prems(2) [of u z] Cons.prems(2) [of x y] that z(2) by simp
    then show False using u(1) Cons.prems(1) by (force simp: image_iff)
  qed
  then show ?case using rec by (cases "g x") (simp_all add: List.map_filter_simps)
qed (simp add: List.map_filter_simps)

lemma map_filter_twice: "List.map_filter g (List.map_filter f xs) = List.map_filter (\<lambda>x. Option.bind (f x) g) xs"
  by (induction xs) (simp_all add: List.map_filter_simps split: option.split)

text \<open>One table of leaf rows, each under the id of its span.\<close>

lemma leaf_stored:
  assumes "mset (perm (length (List.map_filter g ws))) = mset [0..<length (List.map_filter g ws)]" and "ws = List.map_filter f xs"
    and "distinct (map k xs)" and "\<And>x w y. x \<in> set xs \<Longrightarrow> f x = Some w \<Longrightarrow> g w = Some y \<Longrightarrow> key y = k x"
    and "x \<in> set xs" and "f x = Some w" and "g w = Some y"
  shows "upserted key (in_order perm (List.map_filter g ws)) tbl (k x) = Some y"
proof -
  let ?rows = "List.map_filter (\<lambda>x. Option.bind (f x) g) xs"
  have rows: "List.map_filter g ws = ?rows" by (simp only: assms(2) map_filter_twice)
  have m: "mset (in_order perm ?rows) = mset ?rows" by (rule in_order_mset) (use assms(1) rows in simp)
  have "distinct (map key ?rows)"
  proof (rule distinct_filtered [OF assms(3)])
    fix z r
    assume "z \<in> set xs" "Option.bind (f z) g = Some r"
    then show "key r = k z" using assms(4) by (cases "f z") auto
  qed
  then have "distinct (map key (in_order perm ?rows))" using distinct_mset [OF m, of key] by simp
  moreover have "y \<in> set ?rows" using assms(5-7) by (force simp: map_filter_set)
  then have "y \<in> set (in_order perm ?rows)" using mset_eq_setD [OF m] by simp
  ultimately show ?thesis unfolding rows using upserted_distinct [of key _ y tbl] assms(4) [OF assms(5-7)] by metis
qed

lemma span_rows_ids:
  assumes "rows = span_rows_of num sha ps [] c s attrs"
  shows "\<And>r. sw_toolCall rows = Some r \<Longrightarrow> tc_id r = st_spanId s" "\<And>r. sw_retrieval rows = Some r \<Longrightarrow> rt_id r = st_spanId s"
    "\<And>r. sw_eval rows = Some r \<Longrightarrow> er_id r = st_spanId s" "\<And>r. sw_artifact rows = Some r \<Longrightarrow> ar_id r = st_spanId s"
    "\<And>r. sw_artifact rows = Some r \<Longrightarrow> ar_artifactName r = JNull \<Longrightarrow> map_get attrs ARTIFACT_NAME_KEY = Some JNull"
  by (auto simp: assms span_rows_of_def Let_def tool_call_row_of_def retrieval_row_of_def eval_row_of_def artifact_row_of_def
      has_artifact_def string_or_def nonempty_text_def split: if_splits option.splits)

lemma graph_span_rows:
  "graph_span num sha ps es cd query s = Inr (Some w, t) \<Longrightarrow> \<exists>c. w = span_rows_of num sha ps es c s (attributes s)"
  by (auto simp: graph_span_def Let_def res_bind_eq_Inr split: if_splits)

lemma no_nameless:
  assumes "\<And>i n. mset (order i n) = mset [0..<n]" and "\<And>w r. w \<in> set rows \<Longrightarrow> sw_artifact w = Some r \<Longrightarrow> ar_artifactName r \<noteq> JNull"
  shows "\<not> (\<exists>r \<in> set (concat (map snd (graph_rows order add dp rows))). nameless r)"
  unfolding graph_rows_set [OF assms(1)] by (auto simp: nameless_def dest: assms(2))

text \<open>
  C7: On D1, without enrichers, and with every question about a project answered, every value bindable and no fault of the database: if the
  actions of a batch have distinct ids and its spans distinct span ids, and no artifact is named null, then the write succeeds and afterwards the table of actions holds the action of every span, each agent run
  is stored with the totals over those actions, and the tool call, retrieval, evaluation and artifact of a span are stored under its
  span id, in whatever order the spans pushed them; no other action changes.
\<close>

theorem graph_batch_stored:
  assumes "\<And>s. s \<in> set spans \<Longrightarrow> graph_span num sha ps [] cd query s = Inr (f s)" and "rows = List.map_filter (\<lambda>s. fst (f s)) spans"
    and "distinct (map (\<lambda>w. ac_id (sw_action w)) rows)" and "distinct (map st_spanId spans)" and "\<And>i n. mset (order i n) = mset [0..<n]"
    and "\<And>s. s \<in> set spans \<Longrightarrow> map_get (attributes s) ARTIFACT_NAME_KEY \<noteq> Some JNull"
  shows "\<exists>t' actions. process_actions num sha ps [] cd query order add dp (\<lambda>_. None) Sqlite None t spans = Inr (map (\<lambda>s. snd (f s)) spans, t', []) \<and>
    mset actions = mset (map sw_action rows) \<and> (\<forall>a \<in> set actions. gt_actions t' (ac_id a) = Some a) \<and>
    (\<forall>k. k \<notin> ac_id ` set actions \<longrightarrow> gt_actions t' k = gt_actions t k) \<and>
    (\<forall>w r. w \<in> set rows \<and> sw_agentRun w = Some r \<longrightarrow> gt_agentRuns t' (ag_id r) = Some (roll_up add dp actions r)) \<and>
    (\<forall>s w. s \<in> set spans \<and> fst (f s) = Some w \<longrightarrow>
       pred_option (\<lambda>r. gt_toolCalls t' (st_spanId s) = Some r) (sw_toolCall w) \<and> pred_option (\<lambda>r. gt_retrievals t' (st_spanId s) = Some r) (sw_retrieval w) \<and>
       pred_option (\<lambda>r. gt_evals t' (st_spanId s) = Some r) (sw_eval w) \<and> pred_option (\<lambda>r. gt_artifacts t' (st_spanId s) = Some r) (sw_artifact w))"
proof -
  define actions where "actions = in_order (order 0) (map sw_action rows)"
  define rs where "rs = concat (map snd (graph_rows order add dp rows))"
  define t' where "t' = graph_after rs t"
  have all: "promise_all (map (graph_span num sha ps [] cd query) spans) = Inr (map f spans)"
    by (rule promise_all_map) (rule assms(1))
  have fst: "List.map_filter fst (map f spans) = rows" unfolding assms(2) by (simp add: List.map_filter_def filter_map comp_def)
  have made: "\<exists>c. w = span_rows_of num sha ps [] c s (attributes s)" if "s \<in> set spans" "fst (f s) = Some w" for s w
    using graph_span_rows assms(1) [OF that(1)] that(2) by (metis prod.collapse)
  have row: "\<exists>s \<in> set spans. fst (f s) = Some w" if "w \<in> set rows" for w using that by (auto simp: assms(2) map_filter_set)
  have named: "ar_artifactName r \<noteq> JNull" if "w \<in> set rows" "sw_artifact w = Some r" for w r
    using row [OF that(1)] made span_rows_ids(5) [OF _ that(2)] assms(6) by metis
  have named_rows: "\<not> (\<exists>r \<in> set rs. nameless r)" unfolding rs_def by (rule no_nameless [OF assms(5)]) (rule named)
  have run: "process_actions num sha ps [] cd query order add dp (\<lambda>_. None) Sqlite None t spans = Inr (map (\<lambda>s. snd (f s)) spans, t', [])"
    using process_outcome [OF all refl refl once_bound, of order add dp t] named_rows
    unfolding fst rs_def [symmetric] t'_def by (simp add: comp_def)
  have am: "mset actions = mset (map sw_action rows)" unfolding actions_def by (rule in_order_mset) (rule assms(5))
  have ad: "distinct (map ac_id actions)" using assms(3) distinct_mset [OF am, of ac_id] by (simp add: comp_def)
  have A: "gt_actions t' = upserted ac_id actions (gt_actions t)" by (simp add: t'_def graph_after_def rs_def filters_rows actions_def)
  have R: "gt_agentRuns t' (ag_id r) = Some (roll_up add dp actions r)" if "w \<in> set rows" "sw_agentRun w = Some r" for w r
  proof -
    let ?runs = "List.map_filter sw_agentRun rows"
    have m: "mset (in_order (order 1) ?runs) = mset ?runs" by (rule in_order_mset) (rule assms(5))
    have "distinct (map ag_id ?runs)"
      by (rule distinct_filtered [OF assms(3)]) (use row made span_rows_links(1) in metis)
    then have "distinct (map ag_id (map (roll_up add dp actions) (in_order (order 1) ?runs)))"
      using distinct_mset [OF m, of ag_id] by (simp add: comp_def)
    moreover have "roll_up add dp actions r \<in> set (map (roll_up add dp actions) (in_order (order 1) ?runs))"
      using that mset_eq_setD [OF m] by (auto simp: map_filter_set)
    ultimately show ?thesis
      using upserted_distinct [of ag_id _ "roll_up add dp actions r" "gt_agentRuns t"] by (simp add: t'_def graph_after_def rs_def filters_rows actions_def)
  qed
  have leaf: "upserted key (in_order (order i) (List.map_filter g rows)) tbl (st_spanId s) = Some y"
    if "\<And>c s r. g (span_rows_of num sha ps [] c s (attributes s)) = Some r \<Longrightarrow> key r = st_spanId s" "s \<in> set spans" "fst (f s) = Some w" "g w = Some y"
    for i g and key :: "'z \<Rightarrow> string" and tbl s w y
  proof (rule leaf_stored [where f = "\<lambda>s. fst (f s)" and xs = spans and w = w])
    show "key z = st_spanId x" if "x \<in> set spans" "fst (f x) = Some v" "g v = Some z" for x v z
      using made [OF that(1, 2)] that(3) \<open>\<And>c s r. g (span_rows_of num sha ps [] c s (attributes s)) = Some r \<Longrightarrow> key r = st_spanId s\<close> by blast
  qed (use assms(2, 4, 5) that(2-4) in simp_all)
  have L: "pred_option (\<lambda>r. gt_toolCalls t' (st_spanId s) = Some r) (sw_toolCall w)" "pred_option (\<lambda>r. gt_retrievals t' (st_spanId s) = Some r) (sw_retrieval w)"
    "pred_option (\<lambda>r. gt_evals t' (st_spanId s) = Some r) (sw_eval w)" "pred_option (\<lambda>r. gt_artifacts t' (st_spanId s) = Some r) (sw_artifact w)"
    if "s \<in> set spans" "fst (f s) = Some w" for s w
    using leaf [OF span_rows_ids(1) [OF refl] that] leaf [OF span_rows_ids(2) [OF refl] that] leaf [OF span_rows_ids(3) [OF refl] that]
      leaf [OF span_rows_ids(4) [OF refl] that]
    by (auto simp: pred_option_def t'_def graph_after_def rs_def filters_rows)
  show ?thesis
  proof (intro exI [of _ t'] exI [of _ actions] conjI allI impI ballI)
    show "gt_agentRuns t' (ag_id r) = Some (roll_up add dp actions r)" if "w \<in> set rows \<and> sw_agentRun w = Some r" for w r
      using R that by blast
  qed (use run am upserted_distinct [OF ad] upserted_other [of _ ac_id actions] L in \<open>simp_all only: A\<close>)
qed

section \<open>How a batch is lost\<close>

lemma once_bound_pg: "map stmt_bound (concat (map (\<lambda>(sql, rows). once_statements Postgres sql rows) tables)) =
    map Some (concat (map (\<lambda>(sql, rows). replicate (length rows) (last rows)) tables))"
  by (induction tables) (auto simp: once_postgres)

lemma bind_refused:
  "r \<in> set rs \<Longrightarrow> v \<in> set (free_columns r) \<Longrightarrow> bind_error v = Some e \<Longrightarrow> \<exists>e'. bind_errors bind_error rs = Some e'"
proof (induction rs)
  case (Cons a rs)
  show ?case
  proof (cases "r = a")
    case True
    then have "e \<in> set (List.map_filter bind_error (free_columns a))" using Cons.prems by (auto simp: map_filter_set)
    then show ?thesis by (cases "List.map_filter bind_error (free_columns a)") auto
  next
    case False
    then show ?thesis using Cons by (auto split: list.split)
  qed
qed simp

lemma same_order: "in_order (\<lambda>n. [0..<n]) xs = xs"
  by (simp add: in_order_def map_nth)

text \<open>The rows of two spans that have no artifact, where only the first is a tool call, as Postgres writes them.\<close>

lemma postgres_pair:
  assumes "sw_toolCall w = Some r" and "sw_toolCall w' = None" and "sw_artifact w = None" and "sw_artifact w' = None"
    and "rs = concat (map (\<lambda>(sql, rows). replicate (length rows) (last rows)) (graph_rows (\<lambda>_ n. [0..<n]) add dp [w, w']))"
  shows "List.map_filter action_of rs = [sw_action w', sw_action w'] \<and> List.map_filter tool_call_of rs = [r] \<and> \<not> (\<exists>r \<in> set rs. nameless r)"
  by (cases "sw_agentRun w"; cases "sw_agentRun w'"; cases "sw_retrieval w"; cases "sw_retrieval w'"; cases "sw_eval w"; cases "sw_eval w'")
    (simp_all add: assms graph_rows_def Let_def same_order List.map_filter_simps numeral_2_eq_2 nameless_def)


section \<open>Witnesses\<close>

definition sample_step :: "(string \<times> json) list" where
  "sample_step =
     [(ACTION_ID_KEY, JStr ''BBBBBBBBBBBBBBBBBBBBBBBBBB''), (ACTION_ROOT_ID_KEY, JStr ''AAAAAAAAAAAAAAAAAAAAAAAAAA'')]"

abbreviation sample_step_span :: stored_span where
  "sample_step_span \<equiv> sample_span (stringify bit_text (JObj sample_step))"

abbreviation step_rows :: span_rows where
  "step_rows \<equiv> span_rows_of bit_text (\<lambda>_. ''h'') [] [] True sample_step_span sample_step"

lemma sample_step_ok:
  "attributes sample_step_span = sample_step" "is_action_span sample_step" "\<not> is_tool_call sample_step" "\<not> has_artifact sample_step"
  "\<not> has_artifact sample_action" "ai_actionId (graph_identity (\<lambda>_. ''h'') (sample_span t) sample_step) = ''BBBBBBBBBBBBBBBBBBBBBBBBBB''"
  "ai_actionId (graph_identity (\<lambda>_. ''h'') (sample_span t) sample_action) = ''AAAAAAAAAAAAAAAAAAAAAAAAAA''"
proof -
  have p: "printable_json bit_text (JObj sample_step)"
    by (simp add: sample_step_def make_object_def obj_define_def is_index_def is_digit_def char_code_def action_keys ai_keys)
  then show "attributes sample_step_span = sample_step" using record_of_text [OF p] by (simp add: sample_span_def del: stringify.simps)
qed (code_simp+)

lemma sample_step_graph:
  "\<exists>u. graph_span bit_text (\<lambda>_. ''h'') [] [] (Some (JBool True)) (\<lambda>_. Inr None) sample_step_span = Inr (Some step_rows, u)"
  using sample_step_ok(2) sample_capture
  by (simp add: graph_span_def projectCaptureEnabled_def map_get_def [of "[]"] sample_step_ok(1) del: stringify.simps)

lemma sample_rows_parts:
  "sw_toolCall step_rows = None" "sw_artifact step_rows = None" "sw_artifact sample_rows = None"
  "ac_id (sw_action step_rows) = ''BBBBBBBBBBBBBBBBBBBBBBBBBB''" "ac_id (sw_action sample_rows) = ''AAAAAAAAAAAAAAAAAAAAAAAAAA''"
  using sample_step_ok(3-5) sample_step_ok(6) [of "stringify bit_text (JObj sample_step)"] sample_step_ok(7) [of "stringify bit_text (JObj sample_action)"]
  by (simp_all add: span_rows_of_def Let_def action_row_of_def del: stringify.simps)

abbreviation no_tables :: graph_tables where
  "no_tables \<equiv> \<lparr>gt_actions = \<lambda>_. None, gt_agentRuns = \<lambda>_. None, gt_toolCalls = \<lambda>_. None, gt_retrievals = \<lambda>_. None, gt_evals = \<lambda>_. None, gt_artifacts = \<lambda>_. None\<rparr>"


theorem graph_batch_stored_witness:
  "\<exists>out t'. process_actions bit_text (\<lambda>_. ''h'') [] [] (Some (JBool True)) (\<lambda>_. Inr None) (\<lambda>_ n. rev [0..<n]) (\<lambda>x y. x) (\<lambda>_. None) (\<lambda>_. None) Sqlite None
     no_tables [sample_action_span] = Inr (out, t', []) \<and> gt_actions t' ''AAAAAAAAAAAAAAAAAAAAAAAAAA'' \<noteq> None \<and> gt_toolCalls t' (st_spanId sample_action_span) \<noteq> None"
proof -
  obtain r where r: "sw_toolCall sample_rows = Some r" using sample_tool_call by blast
  define f where "f = (\<lambda>s :: stored_span. (Some sample_rows, sample_returned))"
  have span: "graph_span bit_text (\<lambda>_. ''h'') [] [] (Some (JBool True)) (\<lambda>_. Inr None) s = Inr (f s)" if "s \<in> set [sample_action_span]" for s
    using that sample_graph_span by (simp add: f_def)
  have rows: "[sample_rows] = List.map_filter (\<lambda>s. fst (f s)) [sample_action_span]" by (simp add: f_def List.map_filter_simps)
  have name: "map_get (attributes s) ARTIFACT_NAME_KEY \<noteq> Some JNull" if "s \<in> set [sample_action_span]" for s
    using that sample_step_ok(5) sample_action_ok(1) by (simp add: has_artifact_def del: stringify.simps)
  have perm: "mset (rev [0..<n]) = mset [0..<n]" for n by simp
  obtain t' actions where run: "process_actions bit_text (\<lambda>_. ''h'') [] [] (Some (JBool True)) (\<lambda>_. Inr None) (\<lambda>_ n. rev [0..<n]) (\<lambda>x y. x) (\<lambda>_. None)
      (\<lambda>_. None) Sqlite None no_tables [sample_action_span] = Inr (map (\<lambda>s. snd (f s)) [sample_action_span], t', [])"
    and acts: "mset actions = mset (map sw_action [sample_rows])" "\<forall>a \<in> set actions. gt_actions t' (ac_id a) = Some a"
    and leaf: "pred_option (\<lambda>r. gt_toolCalls t' (st_spanId sample_action_span) = Some r) (sw_toolCall sample_rows)"
    using graph_batch_stored [OF span rows _ _ perm name, of "\<lambda>x y. x" "\<lambda>_. None" no_tables] by (fastforce simp: f_def simp del: stringify.simps)
  have "sw_action sample_rows \<in> set actions" using mset_eq_setD [OF acts(1)] by simp
  then have "gt_actions t' (ac_id (sw_action sample_rows)) \<noteq> None" using acts(2) by simp
  then show ?thesis using run leaf r unfolding sample_rows_parts by auto
qed

theorem graph_stays_linked_witness:
  "\<exists>out t' msgs. process_actions bit_text (\<lambda>_. ''h'') [] [] (Some (JBool True)) (\<lambda>_. Inr None) (\<lambda>_ n. rev [0..<n]) (\<lambda>x y. x) (\<lambda>_. None) (\<lambda>_. None)
     Sqlite None no_tables [sample_action_span] = Inr (out, t', msgs) \<and> graph_linked t'"
proof -
  have all: "promise_all (map (graph_span bit_text (\<lambda>_. ''h'') [] [] (Some (JBool True)) (\<lambda>_. Inr None)) [sample_action_span]) =
      Inr [(Some sample_rows, sample_returned)]"
    using sample_graph_span by (simp del: stringify.simps)
  have empty: "graph_linked no_tables" by (simp add: graph_linked_def linked_ids_def)
  note run = process_outcome [OF all refl refl once_bound, of "\<lambda>_ n. rev [0..<n]" "\<lambda>x y. x" "\<lambda>_. None" no_tables]
  show ?thesis by (intro exI conjI, rule run, rule graph_stays_linked [OF empty _ run]) simp
qed

theorem action_matches_span_witness:
  "\<exists>rows t. graph_span bit_text (\<lambda>_. ''h'') [] [] (Some (JBool True)) (\<lambda>_. Inr None) sample_action_span = Inr (Some rows, t) \<and>
     ai_actionId (resolveActionIdentity (\<lambda>_. ''h'') t (attributes t)) = ''AAAAAAAAAAAAAAAAAAAAAAAAAA''"
proof -
  have printable: "printable_json bit_text (JObj (trusted_attributes bit_text (\<lambda>_. ''h'') sample_action_span (attributes sample_action_span)))"
    by (simp only: sample_action_ok)
  have "ai_actionId (resolveActionIdentity (\<lambda>_. ''h'') sample_returned (attributes sample_returned)) = ac_id (sw_action sample_rows)"
    using action_matches_span [OF sample_graph_span printable] by (simp only: Let_def prod.inject simp_thms)
  then show ?thesis unfolding sample_rows_parts
    by (intro exI [of _ sample_rows] exI [of _ sample_returned] conjI [OF sample_graph_span])
qed

definition exact_sum_of :: "js_number \<Rightarrow> js_number \<Rightarrow> js_number" where
  "exact_sum_of x y = (case (x, y) of (Num a, Num b) \<Rightarrow> Num (a + b) | _ \<Rightarrow> NaN)"


end
