(* ===== verification/Ai_Pipeline.thy ===== *)
theory Ai_Pipeline
  imports Action_Batch
begin

text \<open>
  The span processors of \<^verbatim>\<open>allPlugins\<close> (\<^verbatim>\<open>packages/obs-collector/src/index.ts\<close>) in their order: enrichment, issue enrichment, redaction,
  normalisation, action graph, payloads.  The two that write keep the tables behind a parameter each: \<open>graph_env\<close> and
  \<open>payload_env\<close> hold what they see of the outside.  Shown: the pipeline keeps every span, in order, whatever the databases do with
  the writes, and a span ends under one identity in the span table, the graph and the payload table.
\<close>

section \<open>The six processors\<close>

record graph_env =
  ge_redactors :: "payload_redactor list"
  ge_enrichers :: "enricher list"
  ge_order :: "nat \<Rightarrow> nat \<Rightarrow> nat list"
  ge_dateParse :: "string \<Rightarrow> int option"
  ge_bindError :: "json \<Rightarrow> string option"
  ge_fault :: "string option"
  ge_tables :: graph_tables

record payload_env =
  pe_arrange :: "payload_row list \<Rightarrow> payload_row list"
  pe_fault :: "string option"
  pe_table :: payload_table

text \<open>The database that both ask and write: the default of the environment, the answers about projects and the dialect.\<close>

record capture_env =
  ce_default :: "json option"
  ce_query :: capture_query
  ce_dialect :: dialect

definition actionGraphProcessor ::
  "(rat \<Rightarrow> string) \<Rightarrow> (js_number \<Rightarrow> js_number \<Rightarrow> js_number) \<Rightarrow> (string \<Rightarrow> string) \<Rightarrow> capture_env \<Rightarrow> graph_env \<Rightarrow> ('c, stored_span) processor" where
  "actionGraphProcessor num add sha c g =
     \<lparr>processor_name = ''action-graph-processor'',
      process = \<lambda>spans ctx. res_bind (process_actions num sha (ge_redactors g) (ge_enrichers g) (ce_default c) (ce_query c) (ge_order g) add
        (ge_dateParse g) (ge_bindError g) (ce_dialect c) (ge_fault g) (ge_tables g) spans) (\<lambda>(out, t, logged). Inr out)\<rparr>"

definition aiSpanPayloadsProcessor ::
  "(rat \<Rightarrow> string) \<Rightarrow> (string \<Rightarrow> string) \<Rightarrow> capture_env \<Rightarrow> payload_env \<Rightarrow> ('c, stored_span) processor" where
  "aiSpanPayloadsProcessor num sha c p =
     \<lparr>processor_name = ''ai-span-payloads-processor'',
      process = \<lambda>spans ctx. res_bind (process_payloads num sha (ce_default c) (ce_query c) (pe_arrange p) (ce_dialect c) (pe_fault p) (pe_table p) spans)
        (\<lambda>(out, tbl, logged). Inr out)\<rparr>"

definition all_span_processors ::
  "(rat \<Rightarrow> string) \<Rightarrow> (js_number \<Rightarrow> js_number \<Rightarrow> js_number) \<Rightarrow> (string \<Rightarrow> string) \<Rightarrow> (string \<Rightarrow> string option) \<Rightarrow> capture_env \<Rightarrow> graph_env \<Rightarrow> payload_env \<Rightarrow>
   (string option, stored_span) processor list" where
  "all_span_processors num add sha url_host c g p =
     span_processors num add sha url_host @ [actionGraphProcessor num add sha c g, aiSpanPayloadsProcessor num sha c p]"

section \<open>The pipeline keeps every span\<close>

text \<open>Surroundings in which neither processor rejects: every question about a project is answered and every value can be bound.\<close>

definition answering :: "(string \<Rightarrow> json option) \<Rightarrow> capture_env \<Rightarrow> capture_env" where
  "answering flag c = c\<lparr>ce_query := \<lambda>pid. Inr (flag pid)\<rparr>"

definition binding_all :: "graph_env \<Rightarrow> graph_env" where
  "binding_all g = g\<lparr>ge_bindError := \<lambda>_. None\<rparr>"

lemma capture_answered: "\<exists>b. isPayloadCaptureEnabled cd (\<lambda>pid. Inr (flag pid)) pid = Inr b"
  by (cases "isTruthyFlag cd") (auto simp: isPayloadCaptureEnabled_def)

lemma graph_span_answered:
  "\<exists>r. graph_span num sha ps es cd (\<lambda>pid. Inr (flag pid)) s = Inr r \<and> span_ids (snd r) = span_ids s"
proof -
  obtain b where "isPayloadCaptureEnabled cd (\<lambda>pid. Inr (flag pid)) (st_projectId s) = Inr b" using capture_answered by blast
  then show ?thesis
    by (cases "is_action_span (attributes s)")
      (simp_all add: graph_span_def projectCaptureEnabled_def map_get_def [of "[]"] span_ids_def Let_def del: stringify.simps)
qed

lemma graph_keeps: "keeps_batch span_ids (actionGraphProcessor num add sha (answering flag c) (binding_all g))"
  unfolding keeps_batch_def
proof (intro allI)
  fix spans :: "stored_span list" and ctx :: 'c
  define f where "f = (\<lambda>s. projr (graph_span num sha (ge_redactors g) (ge_enrichers g) (ce_default c) (\<lambda>pid. Inr (flag pid)) s))"
  have f: "graph_span num sha (ge_redactors g) (ge_enrichers g) (ce_default c) (\<lambda>pid. Inr (flag pid)) s = Inr (f s)" "span_ids (snd (f s)) = span_ids s" for s
    using graph_span_answered [of num sha "ge_redactors g" "ge_enrichers g" "ce_default c" flag s] by (auto simp: f_def)
  have all: "promise_all (map (graph_span num sha (ge_redactors g) (ge_enrichers g) (ce_default c) (\<lambda>pid. Inr (flag pid))) spans) = Inr (map f spans)"
    by (rule promise_all_map) (rule f(1))
  have "\<exists>t logged. process_actions num sha (ge_redactors g) (ge_enrichers g) (ce_default c) (\<lambda>pid. Inr (flag pid)) (ge_order g) add (ge_dateParse g)
      (\<lambda>_. None) (ce_dialect c) (ge_fault g) (ge_tables g) spans = Inr (map (\<lambda>s. snd (f s)) spans, t, logged)"
    by (simp add: process_actions_def all bind_all Let_def comp_def split: sum.split prod.split)
  then show "\<exists>out. process (actionGraphProcessor num add sha (answering flag c) (binding_all g)) spans ctx = Inr out \<and> map span_ids out = map span_ids spans"
    using f(2) by (auto simp: actionGraphProcessor_def answering_def binding_all_def)
qed

lemma payload_keeps: "keeps_batch span_ids (aiSpanPayloadsProcessor num sha (answering flag c) p)"
  unfolding keeps_batch_def
proof (intro allI)
  fix spans :: "stored_span list" and ctx :: 'c
  define capture where "capture = (\<lambda>pid. projr (isPayloadCaptureEnabled (ce_default c) (\<lambda>pid. Inr (flag pid)) pid))"
  have "isPayloadCaptureEnabled (ce_default c) (\<lambda>pid. Inr (flag pid)) pid = Inr (capture pid)" for pid
    using capture_answered [of "ce_default c" flag pid] by (auto simp: capture_def)
  then show "\<exists>out. process (aiSpanPayloadsProcessor num sha (answering flag c) p) spans ctx = Inr out \<and> map span_ids out = map span_ids spans"
    using processed_batch [of spans "ce_default c" "\<lambda>pid. Inr (flag pid)" capture] batch_ids
    by (simp add: aiSpanPayloadsProcessor_def answering_def)
qed

interpretation all_spans: batch_pipeline "all_span_processors num add sha url_host (answering flag c) (binding_all g) p" span_ids
  for num add sha url_host flag c g p
proof
  fix q assume "q \<in> set (all_span_processors num add sha url_host (answering flag c) (binding_all g) p)"
  then consider "q \<in> set (span_processors num add sha url_host)" | "q = actionGraphProcessor num add sha (answering flag c) (binding_all g)"
    | "q = aiSpanPayloadsProcessor num sha (answering flag c) p"
    by (auto simp: all_span_processors_def)
  then show "keeps_batch span_ids q" by cases (simp_all add: ai_spans.keeps graph_keeps payload_keeps)
qed

text \<open>In any surroundings: when neither rejects, both return the batch they were given.\<close>

lemma graph_returns: "returns_batch span_ids (actionGraphProcessor num add sha c g)"
  unfolding returns_batch_def
proof (intro allI impI)
  fix spans :: "stored_span list" and ctx :: 'c and out assume "process (actionGraphProcessor num add sha c g) spans ctx = Inr out"
  then obtain rs where rs: "map (graph_span num sha (ge_redactors g) (ge_enrichers g) (ce_default c) (ce_query c)) spans = map Inr rs" "out = map snd rs"
    by (auto simp: actionGraphProcessor_def process_actions_def res_bind_eq_Inr promise_all_Inr Let_def split: option.splits if_splits sum.splits prod.splits)
  have "span_ids (snd r) = span_ids s" if "graph_span num sha (ge_redactors g) (ge_enrichers g) (ce_default c) (ce_query c) s = Inr r" for s r
    using that by (auto simp: graph_span_def Let_def res_bind_eq_Inr span_ids_def split: if_splits)
  then show "map span_ids out = map span_ids spans"
    using rs by (auto simp: list_eq_iff_nth_eq)
qed

lemma payload_returns: "returns_batch span_ids (aiSpanPayloadsProcessor num sha c p)"
  unfolding returns_batch_def
proof (intro allI impI)
  fix spans :: "stored_span list" and ctx :: 'c and out assume "process (aiSpanPayloadsProcessor num sha c p) spans ctx = Inr out"
  then obtain rs where rs: "map (payload_span num sha (ce_default c) (ce_query c)) spans = map Inr rs" "out = map snd rs"
    by (auto simp: aiSpanPayloadsProcessor_def process_payloads_def res_bind_eq_Inr promise_all_Inr Let_def split: option.splits if_splits sum.splits prod.splits)
  have "span_ids (snd r) = span_ids s" if "payload_span num sha (ce_default c) (ce_query c) s = Inr r" for s r
    using that by (auto simp: payload_span_def Let_def res_bind_eq_Inr strip_ids split: if_splits)
  then show "map span_ids out = map span_ids spans"
    using rs by (auto simp: list_eq_iff_nth_eq)
qed

lemma all_return:
  "q \<in> set (all_span_processors num add sha url_host c g p) \<Longrightarrow> returns_batch span_ids q"
  by (auto simp: all_span_processors_def intro: graph_returns payload_returns keeps_returns [OF ai_spans.keeps])

section \<open>One identity\<close>

lemma get_normalized_ids:
  defines "d \<equiv> \<lambda>sha s attrs. resolveActionIdentity sha s attrs"
  shows "map_get (normalized_attributes num add sha s attrs) ACTION_ID_KEY = Some (JStr (ai_actionId (d sha s attrs)))"
    "map_get (normalized_attributes num add sha s attrs) ACTION_CONFIDENCE_KEY = Some (JStr (ai_confidence (d sha s attrs)))"
    "map_get (normalized_attributes num add sha s attrs) ACTION_ROOT_ID_KEY = Some (JStr (ai_rootActionId (d sha s attrs)))"
    "map_get (normalized_attributes num add sha s attrs) ACTION_CAUSED_BY_ID_KEY = Some (case ai_causedByActionId (d sha s attrs) of None \<Rightarrow> JNull | Some c \<Rightarrow> JStr c)"
  using get_normalized_identity [of _ num add sha s attrs]
  by (simp_all add: GRAPH_KEYS_def write_identity_def map_get_define action_keys d_def)

lemma graph_identity_normalized:
  fixes s :: stored_span
  assumes "m = normalized_attributes num add sha s attrs" and "d = resolveActionIdentity sha s attrs" and "e = graph_identity sha s m"
  shows "ai_actionId e = ai_actionId d" "ai_rootActionId e = ai_rootActionId d" "ai_causedByActionId e = ai_causedByActionId d"
proof -
  have other: "ACTION_ID_KEY \<noteq> ACTION_KIND_KEY" "ACTION_CONFIDENCE_KEY \<noteq> ACTION_KIND_KEY" "ACTION_ROOT_ID_KEY \<noteq> ACTION_KIND_KEY"
    "ACTION_CAUSED_BY_ID_KEY \<noteq> ACTION_KIND_KEY"
    by (simp_all add: action_keys)
  have "resolveActionIdentity sha s (obj_define m ACTION_KIND_KEY (graph_kind m)) = d\<lparr>ai_agentRunId := r\<rparr>"
    if "(case first_some (run_id_attrs (obj_define m ACTION_KIND_KEY (graph_kind m))) of Some i \<Rightarrow> Some i
      | None \<Rightarrow> if agent_kind (obj_define m ACTION_KIND_KEY (graph_kind m)) then Some (ai_actionId d) else None) = r" for r
  proof (rule resolve_kept [OF _ _ _ _ _ _ _ _ that])
  qed (use other resolved_valid resolved_confidence in \<open>simp_all add: map_get_define assms(1, 2) get_normalized_ids\<close>)
  then have "e = d\<lparr>ai_agentRunId := ai_agentRunId e\<rparr>" by (simp add: assms(3) graph_identity_def)
  then show "ai_actionId e = ai_actionId d" "ai_rootActionId e = ai_rootActionId d" "ai_causedByActionId e = ai_causedByActionId d"
    by (cases e; cases d; simp)+
qed

text \<open>
  C8: A span has one identity wherever it is stored.  Take an AI span through normalisation, the action graph and payload capture: the
  action row, the payload row and the span that is stored carry the id that the span as it came resolves to, and the root and the cause of
  the action row are those of that identity too.
\<close>

theorem one_identity:
  assumes "n = gen_ai_normalize num add sha s" and "is_ai_span (attributes s)" and "numbers_ok num add (attributes s)"
    and "graph_span num sha ps [] cd query n = Inr (Some w, u)" and "printable_json num (JObj (trusted_attributes num sha n (attributes n)))"
    and "payload_span num sha cd query u = Inr (p, v)"
  shows "let d = resolveActionIdentity sha s (attributes s); a = sw_action w in
    (ac_id a, ac_rootActionId a, ac_causedByActionId a) = (ai_actionId d, ai_rootActionId d, ai_causedByActionId d) \<and>
    pred_option (\<lambda>r. pr_actionId r = Some (ai_actionId d)) p \<and> map_get (attributes v) ACTION_ID_KEY = Some (JStr (ai_actionId d)) \<and>
    (st_projectId v, st_traceId v, st_spanId v) = (st_projectId s, st_traceId s, st_spanId s)"
proof -
  define m where "m = normalized_attributes num add sha s (attributes s)"
  define d where "d = resolveActionIdentity sha s (attributes s)"
  have m: "attributes n = m" using normalize_column [OF refl assms(3, 2)] by (simp only: assms(1) m_def)
  have ids: "st_projectId n = st_projectId s" "st_traceId n = st_traceId s" "st_spanId n = st_spanId s" "st_parentSpanId n = st_parentSpanId s"
    by (simp_all add: assms(1) gen_ai_normalize_def Let_def)
  have gi: "graph_identity sha n m = graph_identity sha s m"
    unfolding graph_identity_def resolveActionIdentity_def ids ..
  note same = graph_identity_normalized [OF m_def d_def gi]
  obtain c where w: "w = span_rows_of num sha ps [] c n m"
    and u: "u = n\<lparr>st_attributesJson := stringify num (JObj (trusted_attributes num sha n m))\<rparr>"
    using assms(4) by (auto simp: graph_span_def Let_def m res_bind_eq_Inr split: if_splits)
  have uattrs: "attributes u = trusted_attributes num sha n m"
    using record_of_text [OF assms(5)] by (simp add: u m del: stringify.simps)
  have uid: "map_get (attributes u) ACTION_ID_KEY = Some (JStr (ai_actionId d))"
    unfolding uattrs get_trusted_ids same ..
  have valid: "ai_actionId d \<noteq> []" using resolved_valid(1) [of sha s "attributes s"] by (auto simp: d_def ACTION_ID_RE_def)
  have p: "pred_option (\<lambda>r. pr_actionId r = Some (ai_actionId d)) p" "v = u \<or> v = strip_payloads num u (attributes u)"
    using assms(6) uid valid
    by (auto simp: payload_span_def Let_def res_bind_eq_Inr payload_row_of_def asString_def nonempty_text_def split: if_splits)
  have "printable_json num (JObj (attributes u))" unfolding uattrs using assms(5) by (simp only: m)
  then have vid: "map_get (attributes v) ACTION_ID_KEY = Some (JStr (ai_actionId d))"
    using p(2) uid get_strip [of num u ACTION_ID_KEY] by (auto simp: action_keys ai_keys)
  have vids: "st_projectId v = st_projectId s" "st_traceId v = st_traceId s" "st_spanId v = st_spanId s"
    using p(2) ids by (auto simp: u strip_payloads_def)
  show ?thesis
    using p(1) vid vids same unfolding d_def [symmetric] by (simp add: Let_def w span_rows_of_def action_row_of_def)
qed

section \<open>Witnesses\<close>

lemma printable_trusted:
  assumes "printable_json num (JObj m)" and "normalizeMcpAuditEnvelope num m = None"
  shows "printable_json num (JObj (trusted_attributes num sha s m))"
  unfolding trusted_attributes_def Let_def assms(2) option.case
  by (auto intro!: printable_define printable_delete printable_delete_keys assms(1) simp del: printable_json.simps(3) split: option.split)

lemma no_envelope:
  assumes "\<And>k. k \<in> {''obs.mcp.audit'', ''obs.mcp.audit_json'', ''mcp.audit'', ''mcp.audit_json''} \<Longrightarrow> map_get m k = None"
  shows "normalizeMcpAuditEnvelope num m = None"
  using assms by (simp add: normalizeMcpAuditEnvelope_def normalizeMcpAuditJson_def firstJsonAttr_def nonempty_text_def)

abbreviation sample_normal :: stored_span where
  "sample_normal \<equiv> gen_ai_normalize bit_text (\<lambda>x y. x) (\<lambda>_. ''h'') sample_ai_span"

lemma sample_normal_ok:
  "printable_json bit_text (JObj (trusted_attributes bit_text (\<lambda>_. ''h'') sample_normal (attributes sample_normal)))"
  "is_action_span (attributes sample_normal)"
proof -
  have m: "attributes sample_normal = normalized_attributes bit_text (\<lambda>x y. x) (\<lambda>_. ''h'') sample_ai_span sample_ai"
    by (rule normalize_column [OF sample_ai_parsed sample_ai_ok(1, 2)])
  have keys: "k \<notin> set DERIVED_KEYS" "map_get sample_ai k = None"
    if "k \<in> {''obs.mcp.audit'', ''obs.mcp.audit_json'', ''mcp.audit'', ''mcp.audit_json''}" for k
    using that by (auto simp: DERIVED_KEYS_def GRAPH_KEYS_def TOOL_KEYS_def MODEL_KEYS_def ai_keys sample_ai_def map_get_def)
  have "normalizeMcpAuditEnvelope bit_text (attributes sample_normal) = None"
    by (rule no_envelope) (simp only: m get_normalized_other [OF keys(1)] keys(2))
  moreover have "printable_json bit_text (JObj (attributes sample_normal))"
    unfolding m using printed.normalized_holds sample_ai_ok(1) by blast
  ultimately show "printable_json bit_text (JObj (trusted_attributes bit_text (\<lambda>_. ''h'') sample_normal (attributes sample_normal)))"
    by (rule printable_trusted [rotated])
  show "is_action_span (attributes sample_normal)" unfolding m by (simp add: is_action_span_def get_normalized_ids)
qed

theorem one_identity_witness:
  "\<exists>w u p v. graph_span bit_text (\<lambda>_. ''h'') [] [] (Some (JBool True)) (\<lambda>_. Inr None) sample_normal = Inr (Some w, u) \<and>
     payload_span bit_text (\<lambda>_. ''h'') (Some (JBool True)) (\<lambda>_. Inr None) u = Inr (p, v) \<and>
     map_get (attributes v) ACTION_ID_KEY = Some (JStr (ac_id (sw_action w)))"
proof -
  obtain w u where g: "graph_span bit_text (\<lambda>_. ''h'') [] [] (Some (JBool True)) (\<lambda>_. Inr None) sample_normal = Inr (Some w, u)"
    using sample_normal_ok(2) sample_capture
    by (simp add: graph_span_def projectCaptureEnabled_def map_get_def [of "[]"] Let_def del: stringify.simps)
  obtain p v where v: "payload_span bit_text (\<lambda>_. ''h'') (Some (JBool True)) (\<lambda>_. Inr None) u = Inr (p, v)"
    using payload_span_Inr [OF sample_capture] by (metis surj_pair)
  have attrs: "is_ai_span (attributes sample_ai_span)" "numbers_ok bit_text (\<lambda>x y. x) (attributes sample_ai_span)"
    using sample_ai_ok(1, 2) by (simp_all only: sample_ai_parsed [symmetric])
  show ?thesis using g v one_identity [OF refl attrs g sample_normal_ok(1) v]
    by (intro exI [of _ w] exI [of _ u] exI [of _ p] exI [of _ v]) (simp only: Let_def prod.inject)
qed

end
