(* ===== verification/Usage_Tracker.thy ===== *)
theory Usage_Tracker
  imports Interaction Usage_Events
begin

text \<open>
  The browser usage tracker, \<^verbatim>\<open>packages/analytics-sdk/src/usage-tracker.ts\<close> with \<^verbatim>\<open>usage-tracker/helpers.ts\<close>: sessions in
  \<^verbatim>\<open>sessionStorage\<close>, page views, interactions, errors, the replay buffer over rrweb and the clock.  The page is a browser page: \<^verbatim>\<open>window\<close> and
  both storages exist.  Of the platform, the ids of \<^verbatim>\<open>crypto.randomUUID\<close>, the parsing of URLs, the replies of \<^verbatim>\<open>fetch\<close> and the events rrweb emits
  when a recording starts are parameters; console output is left out.  Requests are kept in the order they are sent; a reply is an
  operation of its own.
\<close>

section \<open>Helpers\<close>

record storage =
  sg_items :: "string \<Rightarrow> string option"
  sg_readsFail :: bool
  sg_writesFail :: bool

definition storage_get :: "storage \<Rightarrow> string \<Rightarrow> string option" where
  "storage_get g k = (if sg_readsFail g then None else sg_items g k)"

definition storage_set :: "storage \<Rightarrow> string \<Rightarrow> string \<Rightarrow> storage" where
  "storage_set g k v = (if sg_writesFail g then g else g\<lparr>sg_items := (sg_items g)(k \<mapsto> v)\<rparr>)"

text \<open>A supply of ids: \<open>uuid n\<close> is the one made after \<open>n\<close> others.\<close>

definition getStorageValue :: "(nat \<Rightarrow> string) \<Rightarrow> storage \<Rightarrow> string \<Rightarrow> nat \<Rightarrow> string \<times> storage \<times> nat" where
  "getStorageValue uuid g k n =
     (case nonempty_text (storage_get g k) of Some v \<Rightarrow> (v, g, n) | None \<Rightarrow> (uuid n, storage_set g k (uuid n), n + 1))"

definition truncateValue :: "json \<Rightarrow> nat \<Rightarrow> json" where
  "truncateValue v maxLength = (case v of JStr s \<Rightarrow> JStr (take maxLength s) | _ \<Rightarrow> v)"

text \<open>The members of a metadata object; \<open>None\<close> is \<^verbatim>\<open>undefined\<close>.\<close>

definition normalizeMetadata :: "(string \<times> json option) list option \<Rightarrow> nat \<Rightarrow> (string \<times> json) list option" where
  "normalizeMetadata data maxLength =
     (case data of None \<Rightarrow> None
      | Some kvs \<Rightarrow> (let entries = List.map_filter (\<lambda>(k, v). map_option (\<lambda>j. (k, truncateValue j maxLength)) v) kvs
                    in if entries \<noteq> [] then Some entries else None))"

text \<open>The first parameter of a name, as \<^verbatim>\<open>URLSearchParams.get\<close> returns it.\<close>

definition getUtmParams :: "(string \<times> string) list \<Rightarrow> (string \<times> json) list" where
  "getUtmParams params =
     List.map_filter (\<lambda>key. map_option (\<lambda>v. (''utm'' @ drop 4 key, JStr v)) (nonempty_text (map_of params key)))
       [''utm_source'', ''utm_medium'', ''utm_campaign'', ''utm_term'', ''utm_content'']"

section \<open>The tracker and its page\<close>

record error_info =
  ei_name :: "string option"
  ei_message :: string
  ei_stack :: "string option"
  ei_component :: "string option"
  ei_source :: "string option"

record tracker_config =
  tc_collectorUrl :: "string option"
  tc_apiKey :: "string option"
  tc_endpoint :: "string option"
  tc_errorEndpoint :: "string option"
  tc_storagePrefix :: "string option"
  tc_credentials :: "string option"
  tc_errorFilter :: "(error_info \<Rightarrow> bool) option"
  tc_maxMetadataLength :: "nat option"

type_synonym replay_event = "(string \<times> json) list"

record usage_tracker =
  tk_endpoint :: string
  tk_errorEndpoint :: "string option"
  tk_storagePrefix :: string
  tk_credentials :: "string option"
  tk_errorFilter :: "(error_info \<Rightarrow> bool) option"
  tk_maxMetadataLength :: nat
  tk_apiKey :: "string option"
  tk_lastPagePath :: "string option"
  tk_onceKeys :: "string list"
  tk_timeOffsetMs :: rat
  tk_recorderRuns :: bool
  tk_replayEvents :: "replay_event list"
  tk_replaySequence :: nat
  tk_replayInterval :: bool
  tk_isRecording :: bool
  tk_dispatchDisabled :: bool
  tk_hasWarnedClockSync :: bool

record usage_payload =
  up_type :: string
  up_name :: string
  up_sessionId :: string
  up_visitorId :: string
  up_path :: string
  up_title :: string
  up_referrer :: "json option"
  up_occurredAt :: string
  up_severity :: string
  up_properties :: "(string \<times> json) list option"
  up_context :: "(string \<times> json) list"
  up_action :: "action_context option"

datatype body =
    Usage "usage_payload list"
  | Replay (replay_session: string) (replay_visitor: string) (replay_number: nat) (replay_events: "replay_event list")
  | Identify string string "(string \<times> json) list option"
  | ErrorReport error_info "string option" string

record request =
  rq_url :: string
  rq_authorization :: "string option"
  rq_credentials :: "string option"
  rq_body :: body

record browser_page =
  pg_session :: storage
  pg_local :: storage
  pg_now :: nat
  pg_ids :: nat
  pg_sent :: "request list"
  pg_stack :: istack
  pg_pathname :: string
  pg_title :: string
  pg_referrer :: string
  pg_search :: "(string \<times> string) list"
  pg_viewport :: "int \<times> int"

text \<open>What does not change while a page lives.\<close>

record platform =
  pf_uuid :: "nat \<Rightarrow> string"
  pf_href :: string
  pf_url :: "string \<Rightarrow> string \<Rightarrow> (string \<times> string \<times> string) option"
  pf_loadTime :: "rat option"
  pf_recordStart :: "replay_event list"

text \<open>\<open>pf_url endpoint href\<close> is \<^verbatim>\<open>new URL\<close>: the text before the path name, the path name and the text after it.\<close>

type_synonym tracker_state = "usage_tracker \<times> browser_page"

definition without_slash :: "string \<Rightarrow> string" where
  "without_slash s = (if endsWith s ''/'' then butlast s else s)"

definition new_UsageTracker :: "tracker_config \<Rightarrow> usage_tracker" where
  "new_UsageTracker config =
     (let url = nonempty_text (tc_collectorUrl config) in
      \<lparr>tk_endpoint = (case url of Some u \<Rightarrow> without_slash u @ ''/v1/usage''
         | None \<Rightarrow> (case tc_endpoint config of Some e \<Rightarrow> e | None \<Rightarrow> [])),
       tk_errorEndpoint = tc_errorEndpoint config,
       tk_storagePrefix = (case tc_storagePrefix config of Some p \<Rightarrow> p | None \<Rightarrow> ''usage''),
       tk_credentials = (if url \<noteq> None then None else tc_credentials config),
       tk_errorFilter = tc_errorFilter config,
       tk_maxMetadataLength = (case tc_maxMetadataLength config of Some n \<Rightarrow> n | None \<Rightarrow> 160),
       tk_apiKey = tc_apiKey config, tk_lastPagePath = None, tk_onceKeys = [], tk_timeOffsetMs = 0, tk_recorderRuns = False,
       tk_replayEvents = [], tk_replaySequence = 0, tk_replayInterval = False, tk_isRecording = False,
       tk_dispatchDisabled = (url \<noteq> None \<and> nonempty_text (tc_apiKey config) = None), tk_hasWarnedClockSync = False\<rparr>)"

section \<open>The clock\<close>

text \<open>One reply of \<^verbatim>\<open>/health\<close>: the round trip, the wall clock before it and the time the server gave, if any.\<close>

datatype health_reply = HttpError | NetworkError | ServerTime rat nat "rat option"

fun sync_loop :: "health_reply list \<Rightarrow> (rat \<times> rat) option \<Rightarrow> (rat \<times> rat) option option" where
  "sync_loop [] best = Some best"
| "sync_loop (ServerTime rtt startWall (Some serverTime) # rs) best =
     (let sample = (rtt, serverTime - (of_nat startWall + rtt / 2))
      in sync_loop rs (case best of None \<Rightarrow> Some sample | Some b \<Rightarrow> if rtt < fst b then Some sample else best))"
| "sync_loop (ServerTime rtt startWall None # rs) best = sync_loop rs best"
| "sync_loop (_ # rs) best = None"

text \<open>\<open>resolves\<close>: whether the endpoint is a valid URL; \<open>reply i\<close> is the reply of the i-th request.\<close>

definition syncTime :: "bool \<Rightarrow> (nat \<Rightarrow> health_reply) \<Rightarrow> usage_tracker \<Rightarrow> usage_tracker" where
  "syncTime resolves reply t =
     (if \<not> resolves then t\<lparr>tk_hasWarnedClockSync := True\<rparr>
      else (case sync_loop (map reply [0..<3]) None of
          None \<Rightarrow> t\<lparr>tk_hasWarnedClockSync := True\<rparr>
        | Some None \<Rightarrow> t
        | Some (Some (rtt, offsetMs)) \<Rightarrow> t\<lparr>tk_timeOffsetMs := offsetMs\<rparr>))"

definition js_trunc :: "rat \<Rightarrow> int" where
  "js_trunc q = (if q < 0 then \<lceil>q\<rceil> else \<lfloor>q\<rfloor>)"

text \<open>\<open>None\<close> is the \<^verbatim>\<open>RangeError\<close> of an invalid date.\<close>

definition getNowAdjusted :: "tracker_state \<Rightarrow> string option" where
  "getNowAdjusted s =
     (let ms = js_trunc (of_nat (pg_now (snd s)) + tk_timeOffsetMs (fst s)) in if valid_time ms then Some (toISOString ms) else None)"

section \<open>Sessions\<close>

abbreviation tracker_key :: "usage_tracker \<Rightarrow> string \<Rightarrow> string" where
  "tracker_key t name \<equiv> tk_storagePrefix t @ name"

definition stored_number :: "storage \<Rightarrow> string \<Rightarrow> int option" where
  "stored_number g k = parseInt10 (case nonempty_text (storage_get g k) of Some v \<Rightarrow> v | None \<Rightarrow> ''0'')"

definition idle_expired :: "nat \<Rightarrow> int option \<Rightarrow> int \<Rightarrow> bool" where
  "idle_expired now stamp limit \<longleftrightarrow> (case stamp of Some ts \<Rightarrow> 0 < ts \<and> limit < int now - ts | None \<Rightarrow> False)"

definition checkAndRotateSession :: "tracker_state \<Rightarrow> bool \<times> tracker_state" where
  "checkAndRotateSession s =
     (let (t, p) = s; g = pg_session p; now = pg_now p;
          activityKey = tracker_key t ''_last_act''; startKey = tracker_key t ''_start_ts''; sessionKey = tracker_key t ''_session_id'';
          rotated = (idle_expired now (stored_number g activityKey) 1800000 \<or> idle_expired now (stored_number g startKey) 3600000);
          g1 = (if rotated then storage_set (storage_set (storage_set g sessionKey []) startKey []) activityKey [] else g);
          t1 = (if rotated then t\<lparr>tk_lastPagePath := None, tk_onceKeys := []\<rparr> else t);
          g2 = (if nonempty_text (storage_get g1 startKey) = None then storage_set g1 startKey (decimal now) else g1)
      in (rotated, (t1, p\<lparr>pg_session := g2\<rparr>)))"

definition bumpActivity :: "tracker_state \<Rightarrow> tracker_state" where
  "bumpActivity s = (let (t, p) = s in (t, p\<lparr>pg_session := storage_set (pg_session p) (tracker_key t ''_last_act'') (decimal (pg_now p))\<rparr>))"

definition sessionId :: "platform \<Rightarrow> tracker_state \<Rightarrow> string \<times> tracker_state" where
  "sessionId P s =
     (let (t, p) = s; (i, g, n) = getStorageValue (pf_uuid P) (pg_session p) (tracker_key t ''_session_id'') (pg_ids p)
      in (i, (t, p\<lparr>pg_session := g, pg_ids := n\<rparr>)))"

definition visitorId :: "platform \<Rightarrow> tracker_state \<Rightarrow> string \<times> tracker_state" where
  "visitorId P s =
     (let (t, p) = s; (i, g, n) = getStorageValue (pf_uuid P) (pg_local p) (tracker_key t ''_visitor_id'') (pg_ids p)
      in (i, (t, p\<lparr>pg_local := g, pg_ids := n\<rparr>)))"

section \<open>Requests\<close>

definition silent :: "usage_tracker \<Rightarrow> bool" where
  "silent t \<longleftrightarrow> tk_dispatchDisabled t \<or> tk_endpoint t = []"

definition collectorBaseUrl :: "platform \<Rightarrow> usage_tracker \<Rightarrow> string" where
  "collectorBaseUrl P t =
     (case pf_url P (tk_endpoint t) (pf_href P) of
        Some (origin, pathname, rest) \<Rightarrow>
          (let path = (if endsWith pathname ''/v1/usage'' then take (length pathname - 6) pathname
                 else if endsWith pathname ''/events'' then take (length pathname - 7) pathname else pathname)
           in without_slash (origin @ (if path = [] then ''/'' else path) @ rest))
      | None \<Rightarrow>
          (let e = tk_endpoint t in
           if endsWith e ''/events'' then take (length e - 7) e else if endsWith e ''/usage'' then take (length e - 6) e else e))"

definition send :: "string \<Rightarrow> body \<Rightarrow> tracker_state \<Rightarrow> tracker_state" where
  "send url b s =
     (let (t, p) = s
      in (t, p\<lparr>pg_sent := pg_sent p @ [\<lparr>rq_url = url, rq_authorization = map_option (\<lambda>k. ''Bearer '' @ k) (nonempty_text (tk_apiKey t)),
                rq_credentials = nonempty_text (tk_credentials t), rq_body = b\<rparr>]\<rparr>))"

definition dispatch_events :: "usage_payload list \<Rightarrow> tracker_state \<Rightarrow> tracker_state" where
  "dispatch_events events s =
     (if events = [] \<or> silent (fst s) then s else send (tk_endpoint (fst s)) (Usage events) (bumpActivity s))"

text \<open>The reply to a dispatched request.\<close>

definition dispatch_replied :: "nat \<Rightarrow> usage_tracker \<Rightarrow> usage_tracker" where
  "dispatch_replied status t = (if status = 401 then t\<lparr>tk_dispatchDisabled := True\<rparr> else t)"

definition dispatchError :: "platform \<Rightarrow> error_info \<Rightarrow> tracker_state \<Rightarrow> tracker_state" where
  "dispatchError P e s =
     (case nonempty_text (tk_errorEndpoint (fst s)) of None \<Rightarrow> s
      | Some url \<Rightarrow> (case getNowAdjusted s of None \<Rightarrow> s
          | Some timestamp \<Rightarrow> (fst s, (snd s)\<lparr>pg_sent := pg_sent (snd s) @
              [\<lparr>rq_url = url, rq_authorization = None, rq_credentials = None, rq_body = ErrorReport e (Some (pf_href P)) timestamp\<rparr>]\<rparr>)))"

definition identify :: "platform \<Rightarrow> string \<Rightarrow> (string \<times> json) list option \<Rightarrow> tracker_state \<Rightarrow> tracker_state" where
  "identify P userId properties s =
     (if silent (fst s) then s
      else let url = collectorBaseUrl P (fst s) @ ''/identify''; (v, s1) = visitorId P s in send url (Identify userId v properties) s1)"

section \<open>Replay\<close>

text \<open>An event of rrweb: its time is moved to the server's, and it is stamped with the active interaction.\<close>

definition stamp_event :: "tracker_state \<Rightarrow> replay_event \<Rightarrow> replay_event" where
  "stamp_event s ev =
     (let offset = tk_timeOffsetMs (fst s);
          ev1 = (case map_get ev ''timestamp'' of
              Some (JNum (Num q)) \<Rightarrow> if offset \<noteq> 0 then obj_define ev ''timestamp'' (JNum (Num (q + offset))) else ev
            | _ \<Rightarrow> ev)
      in case currentInteractionContext (pg_stack (snd s)) of
           None \<Rightarrow> ev1
         | Some ctx \<Rightarrow> obj_define (obj_define (obj_define ev1 ''obsInteractionId'' (JStr (interactionId ctx)))
             ''obsRootActionId'' (JStr (rootActionId ctx))) ''obsActionId'' (JStr (actionId ctx)))"

abbreviation MAX_REPLAY_BUFFER :: nat where "MAX_REPLAY_BUFFER \<equiv> 500"

definition last_events :: "nat \<Rightarrow> replay_event list \<Rightarrow> replay_event list" where
  "last_events n evs = drop (length evs - n) evs"

abbreviation set_events :: "replay_event list \<Rightarrow> tracker_state \<Rightarrow> tracker_state" where
  "set_events evs s \<equiv> ((fst s)\<lparr>tk_replayEvents := evs\<rparr>, snd s)"

text \<open>
  These five operations call each other.  Each is a function of the operations it calls; \<open>perform\<close> ties them together, its second
  argument bounds the depth of the calls and \<open>None\<close> says that it was exceeded.  The text returned is the session id, for \<open>Ensure\<close>.
\<close>

datatype tracker_call = Ensure bool | Flush | Stop | Start | Emit replay_event

type_synonym callee = "tracker_call \<Rightarrow> tracker_state \<Rightarrow> (string \<times> tracker_state) option"

definition ensureSessionCurrent :: "platform \<Rightarrow> callee \<Rightarrow> bool \<Rightarrow> tracker_state \<Rightarrow> (string \<times> tracker_state) option" where
  "ensureSessionCurrent P call restartRecorder s =
     (let (rotated, s1) = checkAndRotateSession s; (i, s2) = sessionId P s1 in
      if restartRecorder \<and> rotated \<and> tk_isRecording (fst s2)
      then Option.bind (call Stop s2) (\<lambda>(_, s3). Option.bind (call Start s3) (\<lambda>(_, s4). Some (i, s4)))
      else Some (i, s2))"

definition flushReplays :: "platform \<Rightarrow> callee \<Rightarrow> tracker_state \<Rightarrow> (string \<times> tracker_state) option" where
  "flushReplays P call s =
     (let events = tk_replayEvents (fst s) in
      if events = [] then Some ([], s)
      else if silent (fst s) then Some ([], set_events [] s)
      else Option.bind (call (Ensure True) (set_events [] s)) (\<lambda>(i, s1).
        let url = collectorBaseUrl P (fst s1) @ ''/replays''; (v, s2) = visitorId P s1; k = tk_replaySequence (fst s2) in
        Some ([], send url (Replay i v k events) ((fst s2)\<lparr>tk_replaySequence := k + 1\<rparr>, snd s2))))"

definition stopReplay :: "callee \<Rightarrow> tracker_state \<Rightarrow> (string \<times> tracker_state) option" where
  "stopReplay call s =
     Option.bind (call Flush s) (\<lambda>(_, s1).
       Some ([], (fst s1)\<lparr>tk_recorderRuns := False, tk_replayInterval := False, tk_isRecording := False, tk_replaySequence := 0,
         tk_replayEvents := []\<rparr>, snd s1))"

text \<open>rrweb emits its first events before \<^verbatim>\<open>record\<close> returns.\<close>

primrec emit_all :: "callee \<Rightarrow> replay_event list \<Rightarrow> tracker_state \<Rightarrow> tracker_state option" where
  "emit_all call [] s = Some s"
| "emit_all call (ev # evs) s = Option.bind (call (Emit ev) s) (\<lambda>(_, s1). emit_all call evs s1)"

definition startReplay :: "platform \<Rightarrow> callee \<Rightarrow> tracker_state \<Rightarrow> (string \<times> tracker_state) option" where
  "startReplay P call s =
     (if tk_recorderRuns (fst s) \<or> tk_replayInterval (fst s) then Some ([], s)
      else Option.bind (call (Ensure False) s) (\<lambda>(_, s1).
        Option.bind (emit_all call (pf_recordStart P) ((fst s1)\<lparr>tk_isRecording := True\<rparr>, snd s1)) (\<lambda>s2.
          Some ([], (fst s2)\<lparr>tk_recorderRuns := True, tk_replayInterval := True\<rparr>, snd s2))))"

definition emit_event :: "callee \<Rightarrow> replay_event \<Rightarrow> tracker_state \<Rightarrow> (string \<times> tracker_state) option" where
  "emit_event call ev s =
     (let s1 = set_events (tk_replayEvents (fst s) @ [stamp_event s ev]) s in
      Option.bind (if 50 \<le> length (tk_replayEvents (fst s1)) then call Flush s1 else Some ([], s1)) (\<lambda>(_, s2).
        Some ([], if MAX_REPLAY_BUFFER < length (tk_replayEvents (fst s2)) then set_events (last_events 50 (tk_replayEvents (fst s2))) s2 else s2)))"

primrec perform :: "platform \<Rightarrow> nat \<Rightarrow> callee" where
  "perform P 0 = (\<lambda>c s. None)"
| "perform P (Suc n) = (\<lambda>c s. case c of
       Ensure restart \<Rightarrow> ensureSessionCurrent P (perform P n) restart s
     | Flush \<Rightarrow> flushReplays P (perform P n) s
     | Stop \<Rightarrow> stopReplay (perform P n) s
     | Start \<Rightarrow> startReplay P (perform P n) s
     | Emit ev \<Rightarrow> emit_event (perform P n) ev s)"

section \<open>Tracking\<close>

text \<open>A depth that is enough when rrweb emits fewer than fifty events before \<^verbatim>\<open>record\<close> returns.\<close>

definition call_depth :: nat where
  "call_depth = 10"

text \<open>
  The steps the three kinds of events share: the session, the visitor, the time and the active interaction, then the dispatch.  \<open>fill\<close>
  fills in the rest of the event.  An invalid time is an exception before anything is sent.
\<close>

definition viewport :: "browser_page \<Rightarrow> (string \<times> json) list" where
  "viewport p = [(''viewportWidth'', JNum (Num (of_int (fst (pg_viewport p))))), (''viewportHeight'', JNum (Num (of_int (snd (pg_viewport p)))))]"

definition track :: "platform \<Rightarrow> (tracker_state \<Rightarrow> usage_payload) \<Rightarrow> tracker_state \<Rightarrow> ((string + unit) \<times> tracker_state) option" where
  "track P fill s =
     Option.bind (perform P call_depth (Ensure True) s) (\<lambda>(i, s1).
       let (v, s2) = visitorId P s1 in
       case getNowAdjusted s2 of
         None \<Rightarrow> Some (Inl ''RangeError: Invalid time value'', s2)
       | Some occurredAt \<Rightarrow> Some (Inr (), dispatch_events [(fill s2)\<lparr>up_sessionId := i, up_visitorId := v, up_occurredAt := occurredAt,
             up_context := viewport (snd s2), up_action := currentInteractionContext (pg_stack (snd s2))\<rparr>] s2))"

definition page_payload :: "string \<Rightarrow> string \<Rightarrow> string \<Rightarrow> (string \<times> json) list option \<Rightarrow> tracker_state \<Rightarrow> usage_payload" where
  "page_payload type name severity properties s =
     \<lparr>up_type = type, up_name = name, up_sessionId = [], up_visitorId = [], up_path = pg_pathname (snd s), up_title = pg_title (snd s),
      up_referrer = None, up_occurredAt = [], up_severity = severity, up_properties = properties, up_context = [], up_action = None\<rparr>"

definition load_time :: "platform \<Rightarrow> (string \<times> json) list" where
  "load_time P = (case pf_loadTime P of Some q \<Rightarrow> [(''loadTimeMs'', JNum (Num (of_int \<lfloor>q + 1 / 2\<rfloor>)))] | None \<Rightarrow> [])"

definition trackPageView :: "platform \<Rightarrow> string \<Rightarrow> string \<Rightarrow> tracker_state \<Rightarrow> ((string + unit) \<times> tracker_state) option" where
  "trackPageView P path title s =
     (if tk_lastPagePath (fst s) = Some path then Some (Inr (), s)
      else track P (\<lambda>s'. (page_payload ''page_view'' ''page_view'' ''info'' (Some (getUtmParams (pg_search (snd s')) @ load_time P)) s')
          \<lparr>up_path := path, up_title := title,
           up_referrer := Some (if pg_referrer (snd s') = [] then JNull else JStr (pg_referrer (snd s')))\<rparr>)
        ((fst s)\<lparr>tk_lastPagePath := Some path\<rparr>, snd s))"

definition trackInteraction ::
  "platform \<Rightarrow> string \<Rightarrow> (string \<times> json option) list option \<Rightarrow> tracker_state \<Rightarrow> ((string + unit) \<times> tracker_state) option" where
  "trackInteraction P name properties s =
     track P (page_payload ''interaction'' name ''info'' (normalizeMetadata properties (tk_maxMetadataLength (fst s)))) s"

definition trackInteractionOnce ::
  "platform \<Rightarrow> string \<Rightarrow> string \<Rightarrow> (string \<times> json option) list option \<Rightarrow> tracker_state \<Rightarrow> ((string + unit) \<times> tracker_state) option" where
  "trackInteractionOnce P name onceKey properties s =
     (let key = name @ '':'' @ onceKey; storageKey = tracker_key (fst s) (''_once_'' @ key);
          seen = ((fst s)\<lparr>tk_onceKeys := set_add (tk_onceKeys (fst s)) key\<rparr>, snd s) in
      if key \<in> set (tk_onceKeys (fst s)) then Some (Inr (), s)
      else if nonempty_text (storage_get (pg_session (snd s)) storageKey) \<noteq> None then Some (Inr (), seen)
      else trackInteraction P name properties (fst seen, (snd s)\<lparr>pg_session := storage_set (pg_session (snd s)) storageKey ''1''\<rparr>))"

definition error_properties :: "error_info \<Rightarrow> (string \<times> json option) list" where
  "error_properties e =
     [(''errorName'', map_option JStr (ei_name e)), (''errorMessage'', Some (JStr (ei_message e))), (''errorStack'', map_option JStr (ei_stack e)),
      (''component'', map_option JStr (ei_component e)), (''errorSource'', map_option JStr (ei_source e))]"

definition reported :: "error_info \<Rightarrow> error_info" where
  "reported e = e\<lparr>ei_component := None, ei_source := None\<rparr>"

definition trackError :: "platform \<Rightarrow> error_info \<Rightarrow> tracker_state \<Rightarrow> ((string + unit) \<times> tracker_state) option" where
  "trackError P e s =
     (if (case tk_errorFilter (fst s) of Some f \<Rightarrow> \<not> f e | None \<Rightarrow> False) then Some (Inr (), s)
      else map_option (\<lambda>(r, s1). case r of Inl err \<Rightarrow> (Inl err, s1) | Inr _ \<Rightarrow> (Inr (), dispatchError P (reported e) s1))
        (track P (page_payload ''frontend_error'' ''frontend_error'' ''error''
          (normalizeMetadata (Some (error_properties e)) (tk_maxMetadataLength (fst s)))) s))"

end
