(* ===== verification/Usage_Sessions.thy ===== *)
theory Usage_Sessions
  imports Usage_Tracker
begin

text \<open>
  What the usage tracker keeps: the operations that call each other always return, the replay buffer stays small, a tracker that was turned
  away is silent; how sessions rotate, and what a rotation does to page views, interactions tracked once and replays.
\<close>

section \<open>Parts of the tracker an operation leaves alone\<close>

definition settings :: "usage_tracker \<Rightarrow> _" where
  "settings t = (tk_endpoint t, tk_errorEndpoint t, tk_storagePrefix t, tk_credentials t, tk_errorFilter t, tk_maxMetadataLength t, tk_apiKey t,
     tk_timeOffsetMs t, tk_dispatchDisabled t)"

definition recorder :: "usage_tracker \<Rightarrow> _" where
  "recorder t = (tk_recorderRuns t, tk_replayInterval t, tk_isRecording t, tk_replayEvents t, tk_replaySequence t)"

definition tracker_ok :: "usage_tracker \<Rightarrow> bool" where
  "tracker_ok t \<longleftrightarrow> tk_recorderRuns t = tk_isRecording t \<and> tk_replayInterval t = tk_isRecording t \<and>
     (\<not> tk_isRecording t \<longrightarrow> tk_replayEvents t = []) \<and> length (tk_replayEvents t) < 50"

lemma recorder_ok: "recorder t = recorder t' \<Longrightarrow> tracker_ok t = tracker_ok t'"
  by (simp add: recorder_def tracker_ok_def)

lemma settings_silent: "settings t = settings t' \<Longrightarrow> silent t = silent t'"
  by (simp add: settings_def silent_def)

text \<open>What every operation keeps, apart from the recorder: the settings, and the requests sent so far.\<close>

definition keeps :: "tracker_state \<Rightarrow> tracker_state \<Rightarrow> bool" where
  "keeps s s' \<longleftrightarrow> settings (fst s') = settings (fst s) \<and> (\<exists>rs. pg_sent (snd s') = pg_sent (snd s) @ rs \<and> (silent (fst s) \<longrightarrow> rs = []))"

lemma keeps_refl: "keeps s s"
  by (simp add: keeps_def)

lemma keeps_trans: "keeps s s1 \<Longrightarrow> keeps s1 s2 \<Longrightarrow> keeps s s2"
  using settings_silent unfolding keeps_def by (metis append.assoc append_Nil2)

lemma rotate_keeps:
  assumes "checkAndRotateSession s = (r, s1)"
  shows "keeps s s1" "recorder (fst s1) = recorder (fst s)"
  using assms by (auto simp: checkAndRotateSession_def keeps_def settings_def recorder_def Let_def split: prod.splits)

lemma session_keeps:
  assumes "sessionId P s = (i, s1)"
  shows "keeps s s1" "recorder (fst s1) = recorder (fst s)"
  using assms by (auto simp: sessionId_def keeps_def split: prod.splits)

lemma visitor_keeps:
  assumes "visitorId P s = (v, s1)"
  shows "keeps s s1" "recorder (fst s1) = recorder (fst s)"
  using assms by (auto simp: visitorId_def keeps_def split: prod.splits)

lemma recorder_keeps: "settings t = settings (fst s) \<Longrightarrow> keeps s (t, snd s)"
  by (simp add: keeps_def)

lemma send_keeps: "\<not> silent (fst s) \<Longrightarrow> keeps s (send url b s)" "fst (send url b s) = fst s"
  by (simp_all add: send_def keeps_def split: prod.split)

section \<open>Every call returns\<close>

lemma ensure_plain:
  "\<exists>i s1. perform P (Suc n) (Ensure False) s = Some (i, s1) \<and> keeps s s1 \<and> recorder (fst s1) = recorder (fst s) \<and> pg_sent (snd s1) = pg_sent (snd s)"
proof -
  obtain r s1 where r: "checkAndRotateSession s = (r, s1)" by (cases "checkAndRotateSession s")
  obtain i s2 where i: "sessionId P s1 = (i, s2)" by (cases "sessionId P s1")
  have "pg_sent (snd s2) = pg_sent (snd s)" using r i by (auto simp: checkAndRotateSession_def sessionId_def Let_def split: prod.splits)
  then show ?thesis
    using rotate_keeps [OF r] session_keeps [OF i] by (auto simp: ensureSessionCurrent_def r i intro: keeps_trans)
qed

lemma flush_nothing: "tk_replayEvents (fst s) = [] \<Longrightarrow> perform P (Suc n) Flush s = Some ([], s)"
  by (simp add: flushReplays_def)

definition stopped :: "usage_tracker \<Rightarrow> usage_tracker" where
  "stopped t = t\<lparr>tk_recorderRuns := False, tk_replayInterval := False, tk_isRecording := False, tk_replaySequence := 0, tk_replayEvents := []\<rparr>"

lemma stop_after: "perform P n Flush s = Some (r, s1) \<Longrightarrow> perform P (Suc n) Stop s = Some ([], stopped (fst s1), snd s1)"
  by (simp add: stopReplay_def stopped_def)

lemma stopped_keeps: "settings (stopped t) = settings t" "tracker_ok (stopped t)" "tk_replayEvents (stopped t) = []" "\<not> tk_isRecording (stopped t)"
  by (simp_all add: stopped_def settings_def tracker_ok_def)

lemma emit_small:
  "length (tk_replayEvents (fst s)) < 49 \<Longrightarrow>
     perform P (Suc n) (Emit ev) s = Some ([], set_events (tk_replayEvents (fst s) @ [stamp_event s ev]) s)"
  by (simp add: emit_event_def Let_def)

lemma emit_all_small:
  "length (tk_replayEvents (fst s)) + length evs < 50 \<Longrightarrow>
     \<exists>evs'. emit_all (perform P (Suc n)) evs s = Some (set_events (tk_replayEvents (fst s) @ evs') s) \<and> length evs' = length evs"
proof (induction evs arbitrary: s)
  case (Cons ev evs)
  let ?s = "set_events (tk_replayEvents (fst s) @ [stamp_event s ev]) s"
  have one: "perform P (Suc n) (Emit ev) s = Some ([], ?s)" using Cons.prems by (intro emit_small) simp
  obtain evs' where "emit_all (perform P (Suc n)) evs ?s = Some (set_events (tk_replayEvents (fst ?s) @ evs') ?s)" "length evs' = length evs"
    using Cons.IH [of ?s] Cons.prems by auto
  then show ?case using one by (intro exI [of _ "stamp_event s ev # evs'"]) (simp del: perform.simps)
qed simp

lemma start_returns:
  assumes "tk_replayEvents (fst s) = []" and "length (pf_recordStart P) < 50" and "\<not> tk_recorderRuns (fst s)" and "\<not> tk_replayInterval (fst s)"
  shows "\<exists>s1. perform P (Suc (Suc n)) Start s = Some ([], s1) \<and> keeps s s1 \<and> tracker_ok (fst s1) \<and>
    tk_replaySequence (fst s1) = tk_replaySequence (fst s) \<and> pg_sent (snd s1) = pg_sent (snd s)"
proof -
  obtain i s1 where e: "perform P (Suc n) (Ensure False) s = Some (i, s1)" "keeps s s1" "recorder (fst s1) = recorder (fst s)"
    "pg_sent (snd s1) = pg_sent (snd s)"
    using ensure_plain by blast
  let ?s = "((fst s1)\<lparr>tk_isRecording := True\<rparr>, snd s1)"
  have "length (tk_replayEvents (fst ?s)) + length (pf_recordStart P) < 50" using e(3) assms(1, 2) by (simp add: recorder_def)
  then obtain evs where a: "emit_all (perform P (Suc n)) (pf_recordStart P) ?s = Some (set_events (tk_replayEvents (fst ?s) @ evs) ?s)"
    "length evs = length (pf_recordStart P)"
    using emit_all_small by blast
  have "keeps s1 (((fst s1)\<lparr>tk_isRecording := True, tk_replayEvents := evs, tk_recorderRuns := True, tk_replayInterval := True\<rparr>), snd s1)"
    by (rule recorder_keeps) (simp add: settings_def)
  moreover have "perform P (Suc (Suc n)) Start s =
      Some ([], (fst s1)\<lparr>tk_isRecording := True, tk_replayEvents := evs, tk_recorderRuns := True, tk_replayInterval := True\<rparr>, snd s1)"
    using e(1, 3) a(1) assms(1, 3, 4) by (simp add: startReplay_def recorder_def perform.simps(2) [of P "Suc n"] del: perform.simps)
  ultimately show ?thesis
    using keeps_trans [OF e(2)] a(2) assms(2) e(3,4) by (simp add: tracker_ok_def recorder_def del: perform.simps)
qed

lemma ensure_returns:
  assumes ok: "tracker_ok (fst s)" and small: "length (pf_recordStart P) < 50"
    and stop: "\<And>s2. recorder (fst s2) = recorder (fst s) \<Longrightarrow>
      \<exists>s3. perform P (Suc (Suc n)) Stop s2 = Some ([], s3) \<and> keeps s2 s3 \<and> tracker_ok (fst s3) \<and> \<not> tk_isRecording (fst s3)"
  shows "\<exists>i s1. perform P (Suc (Suc (Suc n))) (Ensure restart) s = Some (i, s1) \<and> keeps s s1 \<and> tracker_ok (fst s1)"
proof -
  obtain r s1 where r: "checkAndRotateSession s = (r, s1)" by (cases "checkAndRotateSession s")
  obtain i s2 where i: "sessionId P s1 = (i, s2)" by (cases "sessionId P s1")
  have s2: "keeps s s2" "recorder (fst s2) = recorder (fst s)" "tracker_ok (fst s2)"
    using rotate_keeps [OF r] session_keeps [OF i] recorder_ok [of "fst s2" "fst s"] ok by (auto intro: keeps_trans)
  obtain s3 where s3: "perform P (Suc (Suc n)) Stop s2 = Some ([], s3)" "keeps s2 s3" "tracker_ok (fst s3)" "\<not> tk_isRecording (fst s3)"
    using stop s2(2) by blast
  have off: "tk_replayEvents (fst s3) = []" "\<not> tk_recorderRuns (fst s3)" "\<not> tk_replayInterval (fst s3)" using s3(3, 4) by (auto simp: tracker_ok_def)
  obtain s4 where s4: "perform P (Suc (Suc n)) Start s3 = Some ([], s4)" "keeps s3 s4" "tracker_ok (fst s4)"
    using start_returns [OF off(1) small off(2, 3)] by blast
  show ?thesis
  proof (cases "restart \<and> r \<and> tk_isRecording (fst s2)")
    case True
    then have "perform P (Suc (Suc (Suc n))) (Ensure restart) s = Some (i, s4)"
      by (simp add: perform.simps(2) [of P "Suc (Suc n)"] ensureSessionCurrent_def r i s3(1) s4(1) del: perform.simps)
    then show ?thesis using s2(1) s3(2) s4(2, 3) keeps_trans by blast
  next
    case False
    then have "perform P (Suc (Suc (Suc n))) (Ensure restart) s = Some (i, s2)"
      by (auto simp: perform.simps(2) [of P "Suc (Suc n)"] ensureSessionCurrent_def r i simp del: perform.simps)
    then show ?thesis using s2(1, 3) by blast
  qed
qed

lemma keeps_stopped: "keeps s s1 \<Longrightarrow> keeps s (stopped (fst s1), snd s1)"
  by (simp add: keeps_def stopped_keeps)

lemma flush_returns:
  assumes "tracker_ok ((fst s)\<lparr>tk_replayEvents := []\<rparr>)" and "length (pf_recordStart P) < 50"
  shows "\<exists>s1. perform P (Suc (Suc (Suc (Suc n)))) Flush s = Some ([], s1) \<and> keeps s s1 \<and> tracker_ok (fst s1)"
proof (cases "tk_replayEvents (fst s) = [] \<or> silent (fst s)")
  case True
  have "keeps s (set_events [] s)" by (rule recorder_keeps) (simp add: settings_def)
  moreover have "perform P (Suc (Suc (Suc (Suc n)))) Flush s = Some ([], if tk_replayEvents (fst s) = [] then s else set_events [] s)"
    using True by (auto simp: perform.simps(2) [of P "Suc (Suc (Suc n))"] flushReplays_def Let_def simp del: perform.simps)
  ultimately show ?thesis using assms(1) keeps_refl by (auto simp: tracker_ok_def)
next
  case False
  let ?s = "set_events [] s"
  have ok: "tracker_ok (fst ?s)" using assms(1) by simp
  have stop: "\<exists>s3. perform P (Suc (Suc n)) Stop s2 = Some ([], s3) \<and> keeps s2 s3 \<and> tracker_ok (fst s3) \<and> \<not> tk_isRecording (fst s3)"
    if "recorder (fst s2) = recorder (fst ?s)" for s2
  proof -
    have "perform P (Suc n) Flush s2 = Some ([], s2)" using that by (intro flush_nothing) (simp add: recorder_def)
    from stop_after [OF this] show ?thesis using keeps_stopped [OF keeps_refl, of s2] by (simp add: stopped_keeps del: perform.simps)
  qed
  obtain i s1 where e: "perform P (Suc (Suc (Suc n))) (Ensure True) ?s = Some (i, s1)" "keeps ?s s1" "tracker_ok (fst s1)"
    using ensure_returns [OF ok assms(2) stop] by blast
  obtain v s2 where v: "visitorId P s1 = (v, s2)" by (cases "visitorId P s1")
  note s2 = visitor_keeps [OF v]
  let ?t = "((fst s2)\<lparr>tk_replaySequence := tk_replaySequence (fst s2) + 1\<rparr>, snd s2)"
  let ?out = "send (collectorBaseUrl P (fst s1) @ ''/replays'') (Replay i v (tk_replaySequence (fst s2)) (tk_replayEvents (fst s))) ?t"
  have run: "perform P (Suc (Suc (Suc (Suc n)))) Flush s = Some ([], ?out)"
    using False by (simp add: perform.simps(2) [of P "Suc (Suc (Suc n))"] flushReplays_def e(1) v Let_def del: perform.simps)
  have k: "keeps s ?t"
  proof -
    have "keeps s ?s" by (rule recorder_keeps) (simp add: settings_def)
    moreover have "keeps s2 ?t" by (rule recorder_keeps) (simp add: settings_def)
    ultimately show ?thesis using e(2) s2(1) keeps_trans by blast
  qed
  have "settings (fst ?t) = settings (fst s)" using k by (simp add: keeps_def)
  then have "\<not> silent (fst ?t)" using False settings_silent by blast
  then have "keeps s ?out" "fst ?out = fst ?t" using k send_keeps keeps_trans by blast+
  moreover have "tracker_ok (fst ?t)" using e(3) s2(2) by (simp add: tracker_ok_def recorder_def)
  ultimately show ?thesis using run by metis
qed

lemma emptied_ok: "tracker_ok t \<Longrightarrow> tracker_ok (t\<lparr>tk_replayEvents := []\<rparr>)"
  by (simp add: tracker_ok_def)

lemma stop_returns:
  assumes "tracker_ok (fst s)" and "length (pf_recordStart P) < 50"
  shows "\<exists>s1. perform P (Suc (Suc (Suc (Suc (Suc n))))) Stop s = Some ([], s1) \<and> keeps s s1 \<and> tracker_ok (fst s1) \<and> \<not> tk_isRecording (fst s1)"
proof -
  obtain s1 where "perform P (Suc (Suc (Suc (Suc n)))) Flush s = Some ([], s1)" "keeps s s1" using flush_returns [OF emptied_ok [OF assms(1)] assms(2)] by blast
  then show ?thesis using stop_after keeps_stopped stopped_keeps by (metis fst_conv)
qed

lemma depth_ten: "call_depth = Suc (Suc (Suc (Suc (Suc (Suc (Suc (Suc (Suc (Suc 0)))))))))"
  by (simp add: call_depth_def)

lemma ensure_current:
  assumes "tracker_ok (fst s)" and "length (pf_recordStart P) < 50"
  shows "\<exists>i s1. perform P call_depth (Ensure True) s = Some (i, s1) \<and> keeps s s1 \<and> tracker_ok (fst s1)"
proof -
  have stop: "\<exists>s3. perform P (Suc (Suc (Suc (Suc (Suc (Suc (Suc (Suc (Suc 0))))))))) Stop s2 = Some ([], s3) \<and> keeps s2 s3 \<and> tracker_ok (fst s3) \<and> \<not> tk_isRecording (fst s3)"
    if "recorder (fst s2) = recorder (fst s)" for s2
    using stop_returns [OF _ assms(2), of s2 "Suc (Suc (Suc (Suc 0)))"] recorder_ok [OF that] assms(1) by blast
  show ?thesis using ensure_returns [OF assms stop] unfolding depth_ten by blast
qed

lemma emit_returns:
  assumes "tracker_ok (fst s)" and "length (pf_recordStart P) < 50" and "tk_isRecording (fst s)"
  shows "\<exists>s1. perform P call_depth (Emit ev) s = Some ([], s1) \<and> keeps s s1 \<and> tracker_ok (fst s1)"
proof -
  let ?s = "set_events (tk_replayEvents (fst s) @ [stamp_event s ev]) s"
  have k: "keeps s ?s" by (rule recorder_keeps) (simp add: settings_def)
  have ok: "tracker_ok ((fst ?s)\<lparr>tk_replayEvents := []\<rparr>)" using assms(1) by (simp add: tracker_ok_def)
  show ?thesis
  proof (cases "length (tk_replayEvents (fst s)) < 49")
    case True
    then show ?thesis unfolding depth_ten using emit_small [OF True] k assms(1, 3) by (simp add: tracker_ok_def del: perform.simps)
  next
    case False
    obtain s1 where s1: "perform P (Suc (Suc (Suc (Suc (Suc (Suc (Suc (Suc (Suc 0))))))))) Flush ?s = Some ([], s1)" "keeps ?s s1" "tracker_ok (fst s1)"
      using flush_returns [OF ok assms(2), of "Suc (Suc (Suc (Suc (Suc 0))))"] by blast
    have "perform P call_depth (Emit ev) s = Some ([], s1)"
      unfolding depth_ten using False s1 by (simp add: perform.simps(2) [of P "Suc (Suc (Suc (Suc (Suc (Suc (Suc (Suc 0)))))))"] perform.simps(2) [of P "Suc (Suc (Suc (Suc (Suc (Suc (Suc (Suc (Suc 0))))))))"] emit_event_def Let_def tracker_ok_def del: perform.simps)
    then show ?thesis using keeps_trans [OF k s1(2)] s1(3) by blast
  qed
qed

section \<open>Runs of a tracker\<close>

text \<open>What happens to a tracker; \<open>Outside\<close> is what the rest of the page does to its surroundings between two operations.\<close>

datatype tracker_op =
    PageView string string
  | UserInteraction string "(string \<times> json option) list option"
  | InteractionOnce string string "(string \<times> json option) list option"
  | FrontendError error_info
  | IdentifyUser string "(string \<times> json) list option"
  | StartRecording
  | StopRecording
  | FlushTimer
  | RrwebEvent replay_event
  | Replied nat
  | Synced bool "nat \<Rightarrow> health_reply"
  | Outside browser_page

definition outside :: "browser_page \<Rightarrow> browser_page \<Rightarrow> browser_page" where
  "outside new p = new\<lparr>pg_sent := pg_sent p, pg_ids := pg_ids p\<rparr>"

fun tracker_step :: "platform \<Rightarrow> tracker_op \<Rightarrow> tracker_state \<Rightarrow> tracker_state option" where
  "tracker_step P (PageView path title) s = map_option snd (trackPageView P path title s)"
| "tracker_step P (UserInteraction name props) s = map_option snd (trackInteraction P name props s)"
| "tracker_step P (InteractionOnce name key props) s = map_option snd (trackInteractionOnce P name key props s)"
| "tracker_step P (FrontendError e) s = map_option snd (trackError P e s)"
| "tracker_step P (IdentifyUser u props) s = Some (identify P u props s)"
| "tracker_step P StartRecording s = map_option snd (perform P call_depth Start s)"
| "tracker_step P StopRecording s = map_option snd (perform P call_depth Stop s)"
| "tracker_step P FlushTimer s = (if tk_replayInterval (fst s) then map_option snd (perform P call_depth Flush s) else Some s)"
| "tracker_step P (RrwebEvent ev) s = (if tk_recorderRuns (fst s) then map_option snd (perform P call_depth (Emit ev) s) else Some s)"
| "tracker_step P (Replied status) s = Some (dispatch_replied status (fst s), snd s)"
| "tracker_step P (Synced ok reply) s = Some (syncTime ok reply (fst s), snd s)"
| "tracker_step P (Outside new) s = Some (fst s, outside new (snd s))"

fun tracker_run :: "platform \<Rightarrow> tracker_op list \<Rightarrow> tracker_state \<Rightarrow> tracker_state option" where
  "tracker_run P [] s = Some s"
| "tracker_run P (op # ops) s = Option.bind (tracker_step P op s) (tracker_run P ops)"

text \<open>A tracker that was turned away sends reports of errors only.\<close>

definition quiet :: "tracker_state \<Rightarrow> tracker_state \<Rightarrow> bool" where
  "quiet s s' \<longleftrightarrow> (tk_dispatchDisabled (fst s) \<longrightarrow> tk_dispatchDisabled (fst s') \<and>
     (\<exists>rs. pg_sent (snd s') = pg_sent (snd s) @ rs \<and> (\<forall>r \<in> set rs. \<exists>e url time. rq_body r = ErrorReport e url time)))"

lemma quiet_refl: "quiet s s"
  by (simp add: quiet_def)

lemma quiet_trans: "quiet s s1 \<Longrightarrow> quiet s1 s2 \<Longrightarrow> quiet s s2"
proof -
  assume a: "quiet s s1" and b: "quiet s1 s2"
  show ?thesis
    unfolding quiet_def
  proof (intro impI)
    assume d: "tk_dispatchDisabled (fst s)"
    then have d1: "tk_dispatchDisabled (fst s1)" using a by (simp add: quiet_def)
    obtain rs where rs: "pg_sent (snd s1) = pg_sent (snd s) @ rs" "\<forall>r \<in> set rs. \<exists>e url time. rq_body r = ErrorReport e url time"
      using a d by (auto simp: quiet_def)
    obtain rs' where rs': "pg_sent (snd s2) = pg_sent (snd s1) @ rs'" "\<forall>r \<in> set rs'. \<exists>e url time. rq_body r = ErrorReport e url time"
      using b d1 by (auto simp: quiet_def)
    have "tk_dispatchDisabled (fst s2)" using b d1 by (simp add: quiet_def)
    moreover have "pg_sent (snd s2) = pg_sent (snd s) @ (rs @ rs')" using rs(1) rs'(1) by simp
    moreover have "\<forall>r \<in> set (rs @ rs'). \<exists>e url time. rq_body r = ErrorReport e url time" using rs(2) rs'(2) by auto
    ultimately show "tk_dispatchDisabled (fst s2) \<and> (\<exists>rs. pg_sent (snd s2) = pg_sent (snd s) @ rs \<and> (\<forall>r \<in> set rs. \<exists>e url time. rq_body r = ErrorReport e url time))"
      by blast
  qed
qed

lemma keeps_quiet: "keeps s s' \<Longrightarrow> quiet s s'"
  by (auto simp: keeps_def quiet_def settings_def silent_def)

lemma dispatch_keeps: "keeps s (dispatch_events evs s)" "recorder (fst (dispatch_events evs s)) = recorder (fst s)"
proof -
  have b: "keeps s (bumpActivity s)" "fst (bumpActivity s) = fst s" by (simp_all add: bumpActivity_def keeps_def split: prod.split)
  show "keeps s (dispatch_events evs s)"
    using b send_keeps [where s = "bumpActivity s"] keeps_refl keeps_trans by (simp add: dispatch_events_def)
  show "recorder (fst (dispatch_events evs s)) = recorder (fst s)" using b by (simp add: dispatch_events_def send_keeps(2))
qed

lemma track_returns:
  assumes "tracker_ok (fst s)" and "length (pf_recordStart P) < 50"
  shows "\<exists>r s1. track P fill s = Some (r, s1) \<and> keeps s s1 \<and> tracker_ok (fst s1)"
proof -
  obtain i s1 where e: "perform P call_depth (Ensure True) s = Some (i, s1)" "keeps s s1" "tracker_ok (fst s1)" using ensure_current [OF assms] by blast
  obtain v s2 where v: "visitorId P s1 = (v, s2)" by (cases "visitorId P s1")
  have s2: "keeps s s2" "tracker_ok (fst s2)" using visitor_keeps [OF v] e(2, 3) keeps_trans recorder_ok by blast+
  have "\<exists>r s3. track P fill s = Some (r, s3) \<and> (s3 = s2 \<or> (\<exists>evs. s3 = dispatch_events evs s2))"
    by (cases "getNowAdjusted s2") (simp_all add: track_def e(1) v, blast)
  then show ?thesis using s2 dispatch_keeps keeps_trans recorder_ok by metis
qed

text \<open>An operation settles: it returns, leaves a good tracker, and keeps a tracker silent that was turned away.\<close>

definition settles :: "tracker_state option \<Rightarrow> tracker_state \<Rightarrow> bool" where
  "settles f s \<longleftrightarrow> (case f of Some s1 \<Rightarrow> quiet s s1 \<and> tracker_ok (fst s1) | None \<Rightarrow> False)"

lemma settles_some: "settles (Some s1) s \<longleftrightarrow> quiet s s1 \<and> tracker_ok (fst s1)"
  by (simp add: settles_def)

lemma settles_some_ex: "settles f s \<Longrightarrow> \<exists>s1. f = Some s1 \<and> tracker_ok (fst s1)"
  by (cases f) (simp_all only: settles_def option.case, blast)

lemma settles_keeps: "\<exists>r s1. f = Some (r, s1) \<and> keeps s s1 \<and> tracker_ok (fst s1) \<Longrightarrow> settles (map_option snd f) s"
  by (elim exE conjE) (simp add: settles_def keeps_quiet)

lemma settles_call: "\<exists>s1. f = Some ([], s1) \<and> keeps s s1 \<and> tracker_ok (fst s1) \<Longrightarrow> settles (map_option snd f) s"
  by (elim exE conjE) (simp add: settles_def keeps_quiet)

lemma error_quiet: "quiet s (dispatchError P e s)" "fst (dispatchError P e s) = fst s"
  by (auto simp: dispatchError_def quiet_def split: option.split)

lemma page_settles:
  assumes ok: "tracker_ok (fst s)" and small: "length (pf_recordStart P) < 50"
  shows "settles (tracker_step P (PageView path title) s) s"
proof (cases "tk_lastPagePath (fst s) = Some path")
  case False
  let ?s = "((fst s)\<lparr>tk_lastPagePath := Some path\<rparr>, snd s)"
  have "keeps s ?s" by (rule recorder_keeps) (simp add: settings_def)
  moreover have "tracker_ok (fst ?s)" using ok by (simp add: tracker_ok_def)
  ultimately have "\<exists>r s1. track P fill ?s = Some (r, s1) \<and> keeps s s1 \<and> tracker_ok (fst s1)" for fill
    using track_returns [OF _ small, of ?s fill] keeps_trans by blast
  then show ?thesis unfolding trackPageView_def tracker_step.simps using False by (intro settles_keeps) (simp only: if_False)
qed (use ok quiet_refl in \<open>simp add: trackPageView_def settles_some\<close>)

lemma interaction_settles:
  assumes ok: "tracker_ok (fst s)" and small: "length (pf_recordStart P) < 50"
  shows "settles (tracker_step P (UserInteraction name props) s) s"
  unfolding tracker_step.simps trackInteraction_def by (rule settles_keeps [OF track_returns [OF ok small]])

lemma once_settles:
  assumes ok: "tracker_ok (fst s)" and small: "length (pf_recordStart P) < 50"
  shows "settles (tracker_step P (InteractionOnce name key props) s) s"
proof -
  let ?t = "(fst s)\<lparr>tk_onceKeys := set_add (tk_onceKeys (fst s)) (name @ '':'' @ key)\<rparr>"
  have t: "keeps s (?t, p)" if "pg_sent p = pg_sent (snd s)" for p using that by (simp add: keeps_def settings_def)
  have ok': "tracker_ok ?t" using ok by (simp add: tracker_ok_def)
  have "\<exists>r s1. trackInteractionOnce P name key props s = Some (r, s1) \<and> keeps s s1 \<and> tracker_ok (fst s1)"
  proof (cases "name @ '':'' @ key \<in> set (tk_onceKeys (fst s)) \<or>
      nonempty_text (storage_get (pg_session (snd s)) (tracker_key (fst s) (''_once_'' @ name @ '':'' @ key))) \<noteq> None")
    case True
    then have "trackInteractionOnce P name key props s = Some (Inr (), s) \<or> trackInteractionOnce P name key props s = Some (Inr (), (?t, snd s))"
      by (auto simp: trackInteractionOnce_def Let_def)
    then show ?thesis using ok ok' t [OF refl] keeps_refl by (metis fst_conv)
  next
    case False
    let ?p = "(snd s)\<lparr>pg_session := storage_set (pg_session (snd s)) (tracker_key (fst s) (''_once_'' @ name @ '':'' @ key)) ''1''\<rparr>"
    have "trackInteractionOnce P name key props s = trackInteraction P name props (?t, ?p)"
      using False by (simp add: trackInteractionOnce_def Let_def)
    moreover have "keeps s (?t, ?p)" by (rule t) simp
    ultimately show ?thesis
      using track_returns [of "(?t, ?p)", OF _ small] ok' keeps_trans by (simp add: trackInteraction_def) blast
  qed
  then show ?thesis unfolding tracker_step.simps by (rule settles_keeps)
qed

lemma error_settles:
  assumes ok: "tracker_ok (fst s)" and small: "length (pf_recordStart P) < 50"
  shows "settles (tracker_step P (FrontendError e) s) s"
proof (cases "case tk_errorFilter (fst s) of Some f \<Rightarrow> \<not> f e | None \<Rightarrow> False")
  case True
  then show ?thesis using ok quiet_refl by (simp add: trackError_def settles_some)
next
  case False
  obtain r s1 where tr: "track P (page_payload ''frontend_error'' ''frontend_error'' ''error''
      (normalizeMetadata (Some (error_properties e)) (tk_maxMetadataLength (fst s)))) s = Some (r, s1)" "keeps s s1" "tracker_ok (fst s1)"
    using track_returns [OF ok small] by blast
  have q: "quiet s s1" "quiet s (dispatchError P (reported e) s1)" using tr(2) keeps_quiet error_quiet(1) quiet_trans by blast+
  have "trackError P e s = Some (case r of Inl err \<Rightarrow> (Inl err, s1) | Inr _ \<Rightarrow> (Inr (), dispatchError P (reported e) s1))"
    unfolding trackError_def tr(1) using False by simp
  then show ?thesis using q tr(3) error_quiet(2) [of P "reported e" s1] by (cases r) (simp_all add: settles_some)
qed

lemma identify_settles:
  assumes ok: "tracker_ok (fst s)" and small: "length (pf_recordStart P) < 50"
  shows "settles (tracker_step P (IdentifyUser u props) s) s"
proof (cases "silent (fst s)")
  case False
  obtain v s1 where v: "visitorId P s = (v, s1)" by (cases "visitorId P s")
  have k: "keeps s s1" "recorder (fst s1) = recorder (fst s)" using visitor_keeps [OF v] by simp_all
  then have "\<not> silent (fst s1)" using False settings_silent unfolding keeps_def by blast
  then have "keeps s1 (send url b s1)" for url b by (rule send_keeps(1))
  then have "keeps s (identify P u props s)" using False keeps_trans [OF k(1)] by (simp add: identify_def v)
  moreover have "tracker_ok (fst (identify P u props s))" using False recorder_ok [OF k(2)] ok by (simp add: identify_def v send_keeps(2))
  ultimately show ?thesis using keeps_quiet by (simp add: settles_some)
qed (use ok quiet_refl in \<open>simp add: identify_def settles_some\<close>)

lemma recording_settles:
  assumes ok: "tracker_ok (fst s)" and small: "length (pf_recordStart P) < 50"
  shows "settles (tracker_step P StartRecording s) s" "settles (tracker_step P StopRecording s) s"
proof -
  show "settles (tracker_step P StartRecording s) s"
  proof (cases "tk_recorderRuns (fst s) \<or> tk_replayInterval (fst s)")
    case True
    then have "perform P call_depth Start s = Some ([], s)" unfolding depth_ten by (simp add: startReplay_def)
    then show ?thesis using ok quiet_refl by (simp add: settles_some del: perform.simps)
  next
    case False
    then have "tk_replayEvents (fst s) = []" using ok by (auto simp: tracker_ok_def)
    then have "\<exists>s1. perform P call_depth Start s = Some ([], s1) \<and> keeps s s1 \<and> tracker_ok (fst s1)"
      using start_returns [OF _ small, of s] False unfolding depth_ten by blast
    then show ?thesis unfolding tracker_step.simps by (rule settles_call)
  qed
  have "\<exists>s1. perform P call_depth Stop s = Some ([], s1) \<and> keeps s s1 \<and> tracker_ok (fst s1)"
    using stop_returns [OF ok small, of "Suc (Suc (Suc (Suc (Suc 0))))"] unfolding depth_ten by blast
  then show "settles (tracker_step P StopRecording s) s" unfolding tracker_step.simps by (rule settles_call)
qed

lemma timer_settles:
  assumes ok: "tracker_ok (fst s)" and small: "length (pf_recordStart P) < 50"
  shows "settles (tracker_step P FlushTimer s) s" "settles (tracker_step P (RrwebEvent ev) s) s"
proof -
  have "\<exists>s1. perform P call_depth Flush s = Some ([], s1) \<and> keeps s s1 \<and> tracker_ok (fst s1)"
    using flush_returns [OF emptied_ok [OF ok] small, of "Suc (Suc (Suc (Suc (Suc (Suc 0)))))"] unfolding depth_ten by blast
  then show "settles (tracker_step P FlushTimer s) s"
    using settles_call ok quiet_refl by (cases "tk_replayInterval (fst s)") (simp_all add: settles_some del: perform.simps)
  show "settles (tracker_step P (RrwebEvent ev) s) s"
  proof (cases "tk_recorderRuns (fst s)")
    case True
    then have "tk_isRecording (fst s)" using ok by (simp add: tracker_ok_def)
    then show ?thesis using settles_call [OF emit_returns [OF ok small]] True by (simp del: perform.simps)
  qed (use ok quiet_refl in \<open>simp add: settles_some\<close>)
qed

lemma sync_frame: "recorder (syncTime r reply t) = recorder t" "tk_dispatchDisabled (syncTime r reply t) = tk_dispatchDisabled t"
  by (auto simp: syncTime_def recorder_def split: option.split)

lemma reply_settles:
  assumes ok: "tracker_ok (fst s)" and small: "length (pf_recordStart P) < 50"
  shows "settles (tracker_step P (Replied status) s) s" "settles (tracker_step P (Synced r reply) s) s" "settles (tracker_step P (Outside new) s) s"
proof -
  have "recorder (dispatch_replied status (fst s)) = recorder (fst s)" by (simp add: dispatch_replied_def recorder_def)
  then show "settles (tracker_step P (Replied status) s) s"
    using ok recorder_ok [of "dispatch_replied status (fst s)" "fst s"] by (simp add: settles_some quiet_def) (simp add: dispatch_replied_def)
  show "settles (tracker_step P (Synced r reply) s) s"
    using ok recorder_ok [OF sync_frame(1), of r reply "fst s"] by (simp add: settles_some quiet_def sync_frame(2))
  show "settles (tracker_step P (Outside new) s) s" using ok by (simp add: settles_some quiet_def outside_def)
qed

lemma step_settles:
  assumes "tracker_ok (fst s)" and "length (pf_recordStart P) < 50"
  shows "settles (tracker_step P op s) s"
  by (cases op) (simp_all only: page_settles [OF assms] interaction_settles [OF assms] once_settles [OF assms] error_settles [OF assms]
    identify_settles [OF assms] recording_settles [OF assms] timer_settles [OF assms] reply_settles [OF assms])

lemma run_settles: "tracker_ok (fst s) \<Longrightarrow> length (pf_recordStart P) < 50 \<Longrightarrow> settles (tracker_run P ops s) s"
proof (induction ops arbitrary: s)
  case Nil
  then show ?case by (simp add: settles_some quiet_refl)
next
  case (Cons op ops)
  obtain s1 where s1: "tracker_step P op s = Some s1" "quiet s s1" "tracker_ok (fst s1)"
    using step_settles [OF Cons.prems, of op] by (cases "tracker_step P op s") (simp_all add: settles_def)
  have "settles (tracker_run P ops s1) s1" by (rule Cons.IH [OF s1(3) Cons.prems(2)])
  then show ?case using s1 quiet_trans by (cases "tracker_run P ops s1") (auto simp: settles_def)
qed

section \<open>Properties of runs\<close>

text \<open>
  C27: Every run of a tracker returns: the operations that call each other stop within the call depth, whatever the page does in between,
  and the recorder's flags agree and its buffer stays below fifty events, so the cap of five hundred is never reached.
\<close>

theorem tracker_runs:
  assumes "length (pf_recordStart P) < 50"
  shows "\<exists>s1. tracker_run P ops (new_UsageTracker config, p) = Some s1 \<and> length (tk_replayEvents (fst s1)) < 50 \<and>
    tk_recorderRuns (fst s1) = tk_isRecording (fst s1) \<and> tk_replayInterval (fst s1) = tk_isRecording (fst s1) \<and>
    (tk_isRecording (fst s1) \<or> tk_replayEvents (fst s1) = [])"
proof -
  have "tracker_ok (new_UsageTracker config)" by (simp add: tracker_ok_def new_UsageTracker_def Let_def)
  then have "settles (tracker_run P ops (new_UsageTracker config, p)) (new_UsageTracker config, p)" using assms by (intro run_settles) simp_all
  then show ?thesis by (cases "tracker_run P ops (new_UsageTracker config, p)") (auto simp: settles_def tracker_ok_def)
qed

lemma run_append: "tracker_run P (ops @ ops') s = Option.bind (tracker_run P ops s) (tracker_run P ops')"
  by (induction ops arbitrary: s) (auto split: Option.bind_splits)


definition sample_storage :: storage where
  "sample_storage = \<lparr>sg_items = (\<lambda>_. None), sg_readsFail = False, sg_writesFail = False\<rparr>"

definition sample_page :: browser_page where
  "sample_page = \<lparr>pg_session = sample_storage, pg_local = sample_storage, pg_now = 1000, pg_ids = 0, pg_sent = [], pg_stack = [],
     pg_pathname = ''/'', pg_title = ''t'', pg_referrer = [], pg_search = [], pg_viewport = (800, 600)\<rparr>"

definition sample_platform :: platform where
  "sample_platform = \<lparr>pf_uuid = (\<lambda>n. replicate (Suc n) CHR ''u''), pf_href = ''http://a/'', pf_url = (\<lambda>_ _. None), pf_loadTime = None, pf_recordStart = []\<rparr>"

definition sample_tracker_config :: tracker_config where
  "sample_tracker_config = \<lparr>tc_collectorUrl = Some ''http://c/'', tc_apiKey = Some ''k'', tc_endpoint = None, tc_errorEndpoint = None, tc_storagePrefix = None,
     tc_credentials = None, tc_errorFilter = None, tc_maxMetadataLength = None\<rparr>"

theorem tracker_runs_witness:
  "\<exists>s1. tracker_run sample_platform [StartRecording, UserInteraction ''go'' None, Outside (sample_page\<lparr>pg_now := 9000000\<rparr>), FlushTimer]
     (new_UsageTracker sample_tracker_config, sample_page) = Some s1 \<and> length (tk_replayEvents (fst s1)) < 50"
proof -
  have "length (pf_recordStart sample_platform) < 50" by (simp add: sample_platform_def)
  from tracker_runs [OF this, of "[StartRecording, UserInteraction ''go'' None, Outside (sample_page\<lparr>pg_now := 9000000\<rparr>), FlushTimer]"
      sample_tracker_config sample_page]
  show ?thesis by (elim exE conjE) (intro exI conjI)
qed


section \<open>Rotation\<close>

text \<open>The keys of a tracker in the session storage, with what they hold.\<close>

abbreviation stored_session :: "tracker_state \<Rightarrow> string option" where
  "stored_session s \<equiv> nonempty_text (storage_get (pg_session (snd s)) (tracker_key (fst s) ''_session_id''))"

abbreviation started_at :: "tracker_state \<Rightarrow> int option" where
  "started_at s \<equiv> stored_number (pg_session (snd s)) (tracker_key (fst s) ''_start_ts'')"

abbreviation active_at :: "tracker_state \<Rightarrow> int option" where
  "active_at s \<equiv> stored_number (pg_session (snd s)) (tracker_key (fst s) ''_last_act'')"

definition works :: "storage \<Rightarrow> bool" where
  "works g \<longleftrightarrow> \<not> sg_readsFail g \<and> \<not> sg_writesFail g"

lemma storage_works [simp]:
  "works g \<Longrightarrow> storage_get (storage_set g k v) k' = (if k' = k then Some v else storage_get g k')"
  "works (storage_set g k v) = works g"
  by (auto simp: works_def storage_get_def storage_set_def)

lemma nonempty_simps [simp]: "nonempty_text (Some []) = None" "v \<noteq> [] \<Longrightarrow> nonempty_text (Some v) = Some v" "nonempty_text None = None"
  by (simp_all add: nonempty_text_def)

lemma parseInt10_decimal: "parseInt10 (decimal n) = Some (int n)"
proof -
  define ds where "ds = decimal n"
  have d: "list_all is_digit ds" "ds \<noteq> []" "digits_val ds = n" using decimal_digits [of n] by (simp_all add: ds_def)
  then obtain c cs where c: "ds = c # cs" "is_digit c" by (cases ds) auto
  have "\<not> is_digit CHR ''-''" "\<not> is_digit CHR ''+''" by code_simp+
  then have sp: "\<not> is_space c" "c \<noteq> CHR ''-''" "c \<noteq> CHR ''+''" using c(2) by (auto simp: is_digit_def is_space_def)
  have tw: "takeWhile is_digit cs = cs" using d(1) unfolding takeWhile_eq_all_conv by (simp add: c list_all_iff)
  show ?thesis using sp c d(3) by (simp add: parseInt10_def sign_split_def ds_def [symmetric] tw)
qed

lemma decimal_nonempty [simp]: "decimal n \<noteq> []"
  using decimal_digits by blast

lemma stored_decimal: "storage_get g k = Some (decimal n) \<Longrightarrow> stored_number g k = Some (int n)"
  by (simp add: stored_number_def parseInt10_decimal)

lemma stored_number_set:
  "works g \<Longrightarrow> stored_number (storage_set g k (decimal n)) k' = (if k' = k then Some (int n) else stored_number g k')"
  "works g \<Longrightarrow> k' \<noteq> k \<Longrightarrow> stored_number (storage_set g k v) k' = stored_number g k'"
  by (simp_all add: stored_number_def parseInt10_decimal)

definition expired :: "tracker_state \<Rightarrow> bool" where
  "expired s \<longleftrightarrow> idle_expired (pg_now (snd s)) (active_at s) 1800000 \<or> idle_expired (pg_now (snd s)) (started_at s) 3600000"

text \<open>A tracker that records nothing: the session is the stored one unless it expired or there is none, else a fresh id.\<close>

lemma ensure_off:
  "\<not> tk_isRecording (fst s) \<Longrightarrow> perform P call_depth (Ensure True) s = Some (sessionId P (snd (checkAndRotateSession s)))"
proof -
  assume off: "\<not> tk_isRecording (fst s)"
  obtain r s1 where r: "checkAndRotateSession s = (r, s1)" by (cases "checkAndRotateSession s")
  obtain i s2 where i: "sessionId P s1 = (i, s2)" by (cases "sessionId P s1")
  have "tk_isRecording (fst s2) = tk_isRecording (fst s)" using rotate_keeps(2) [OF r] session_keeps(2) [OF i] by (simp add: recorder_def)
  then show ?thesis
    using off by (simp add: depth_ten perform.simps(2) [of P "Suc (Suc (Suc (Suc (Suc (Suc (Suc (Suc (Suc 0))))))))"] ensureSessionCurrent_def r i del: perform.simps)
qed

definition next_session :: "platform \<Rightarrow> tracker_state \<Rightarrow> string" where
  "next_session P s = (case stored_session s of Some i \<Rightarrow> if expired s then pf_uuid P (pg_ids (snd s)) else i | None \<Rightarrow> pf_uuid P (pg_ids (snd s)))"

lemma session_current:
  assumes "works (pg_session (snd s))" and "\<And>n. pf_uuid P n \<noteq> []" and "sessionId P (snd (checkAndRotateSession s)) = (i, s1)"
  shows "i = next_session P s" "stored_session s1 = Some i" "works (pg_session (snd s1))"
    "started_at s1 = (if expired s \<or> nonempty_text (storage_get (pg_session (snd s)) (tracker_key (fst s) ''_start_ts'')) = None
       then Some (int (pg_now (snd s))) else started_at s)"
    "pg_ids (snd s1) = (if stored_session s = None \<or> expired s then Suc (pg_ids (snd s)) else pg_ids (snd s))"
  using assms(1,2) assms(3)
  by (auto simp: stored_number_set checkAndRotateSession_def sessionId_def getStorageValue_def next_session_def expired_def Let_def
     split: prod.splits option.splits if_splits)

lemma session_frame:
  assumes "sessionId P (snd (checkAndRotateSession s)) = (i, s1)"
  shows "tk_storagePrefix (fst s1) = tk_storagePrefix (fst s)" "pg_now (snd s1) = pg_now (snd s)" "tk_timeOffsetMs (fst s1) = tk_timeOffsetMs (fst s)"
    "tk_lastPagePath (fst s1) = (if expired s then None else tk_lastPagePath (fst s))"
  using assms by (auto simp: expired_def checkAndRotateSession_def sessionId_def getStorageValue_def Let_def split: prod.splits option.splits if_splits)

definition event_sessions :: "tracker_state \<Rightarrow> string list" where
  "event_sessions s = concat (map (\<lambda>r. case rq_body r of Usage evs \<Rightarrow> map up_sessionId evs | _ \<Rightarrow> []) (pg_sent (snd s)))"

lemma dispatch_one:
  assumes "\<not> silent (fst s)" and "works (pg_session (snd s))"
  shows "event_sessions (dispatch_events [ev] s) = event_sessions s @ [up_sessionId ev]" "fst (dispatch_events [ev] s) = fst s"
    "active_at (dispatch_events [ev] s) = Some (int (pg_now (snd s)))" "started_at (dispatch_events [ev] s) = started_at s"
    "stored_session (dispatch_events [ev] s) = stored_session s" "works (pg_session (snd (dispatch_events [ev] s)))"
    "pg_ids (snd (dispatch_events [ev] s)) = pg_ids (snd s)" "pg_now (snd (dispatch_events [ev] s)) = pg_now (snd s)"
  using assms
  by (cases s; simp add: dispatch_events_def send_def bumpActivity_def event_sessions_def stored_number_set)+

lemma visitor_frame:
  assumes "visitorId P s = (v, s1)"
  shows "fst s1 = fst s" "pg_session (snd s1) = pg_session (snd s)" "pg_now (snd s1) = pg_now (snd s)" "pg_sent (snd s1) = pg_sent (snd s)"
    "pg_ids (snd s) \<le> pg_ids (snd s1)"
  using assms by (auto simp: visitorId_def getStorageValue_def split: prod.splits option.splits)

text \<open>One event of a tracker that records nothing: what it leaves behind.\<close>

definition session_event :: "platform \<Rightarrow> tracker_state \<Rightarrow> tracker_state \<Rightarrow> bool" where
  "session_event P s s1 \<longleftrightarrow> settings (fst s1) = settings (fst s) \<and> recorder (fst s1) = recorder (fst s) \<and>
    event_sessions s1 = event_sessions s @ [next_session P s] \<and> stored_session s1 = Some (next_session P s) \<and>
    active_at s1 = Some (int (pg_now (snd s))) \<and> works (pg_session (snd s1)) \<and>
    (if stored_session s = None \<or> expired s then Suc (pg_ids (snd s)) else pg_ids (snd s)) \<le> pg_ids (snd s1) \<and> pg_now (snd s1) = pg_now (snd s) \<and>
    tk_lastPagePath (fst s1) = (if expired s then None else tk_lastPagePath (fst s)) \<and> (\<not> expired s \<or> started_at s1 = Some (int (pg_now (snd s))))"

lemma session_eventD:
  assumes "session_event P s s1"
  shows "settings (fst s1) = settings (fst s)"
    "recorder (fst s1) = recorder (fst s)"
    "event_sessions s1 = event_sessions s @ [next_session P s]"
    "stored_session s1 = Some (next_session P s)"
    "active_at s1 = Some (int (pg_now (snd s)))"
    "works (pg_session (snd s1))"
    "(if stored_session s = None \<or> expired s then Suc (pg_ids (snd s)) else pg_ids (snd s)) \<le> pg_ids (snd s1)"
    "pg_now (snd s1) = pg_now (snd s)"
    "tk_lastPagePath (fst s1) = (if expired s then None else tk_lastPagePath (fst s))"
    "\<not> expired s \<or> started_at s1 = Some (int (pg_now (snd s)))"
  using assms by (simp_all add: session_event_def)

lemma track_session:
  assumes off: "\<not> tk_isRecording (fst s)" and on: "\<not> silent (fst s)" and w: "works (pg_session (snd s))"
    and ids: "\<And>n. pf_uuid P n \<noteq> []" and time: "getNowAdjusted s \<noteq> None"
  shows "\<exists>s1. track P fill s = Some (Inr (), s1) \<and> session_event P s s1"
proof -
  obtain i s1 where i: "sessionId P (snd (checkAndRotateSession s)) = (i, s1)" by (cases "sessionId P (snd (checkAndRotateSession s))")
  obtain r s0 where r: "checkAndRotateSession s = (r, s0)" by (cases "checkAndRotateSession s")
  note i' = i [unfolded r snd_conv]
  have same: "settings (fst s1) = settings (fst s)" "recorder (fst s1) = recorder (fst s)" "pg_sent (snd s1) = pg_sent (snd s)"
    using rotate_keeps [OF r] session_keeps [OF i'] r i' by (auto simp: keeps_def checkAndRotateSession_def sessionId_def Let_def split: prod.splits)
  obtain v s2 where v: "visitorId P s1 = (v, s2)" by (cases "visitorId P s1")
  note sc = session_current [OF w ids i] and sf = session_frame [OF i] and vf = visitor_frame [OF v]
  have "getNowAdjusted s2 = getNowAdjusted s" using sf vf by (simp add: getNowAdjusted_def)
  then obtain tm where "getNowAdjusted s2 = Some tm" using time by auto
  then obtain ev where ev: "track P fill s = Some (Inr (), dispatch_events [ev] s2)" "up_sessionId ev = i"
    by (simp add: track_def ensure_off [OF off] i v)
  have s2: "\<not> silent (fst s2)" "works (pg_session (snd s2))" "event_sessions s2 = event_sessions s"
    using on settings_silent [OF same(1)] vf sc(3) same(3) by (simp_all add: event_sessions_def)
  note d = dispatch_one [OF s2(1, 2), of ev]
  have q: "stored_session s2 = Some i" "started_at s2 = started_at s1" using sc(2) vf by simp_all
  have "session_event P s (dispatch_events [ev] s2)"
    unfolding session_event_def
  proof (intro conjI)
    show "event_sessions (dispatch_events [ev] s2) = event_sessions s @ [next_session P s]" using d(1) s2(3) ev(2) sc(1) by simp
    show "stored_session (dispatch_events [ev] s2) = Some (next_session P s)" using d(5) q(1) sc(1) by simp
    show "active_at (dispatch_events [ev] s2) = Some (int (pg_now (snd s)))" using d(3) vf(3) sf(2) by simp
    show "works (pg_session (snd (dispatch_events [ev] s2)))" by (rule d(6))
    show "(if stored_session s = None \<or> expired s then Suc (pg_ids (snd s)) else pg_ids (snd s)) \<le> pg_ids (snd (dispatch_events [ev] s2))"
      using d(7) vf(5) sc(5) by simp
    show "pg_now (snd (dispatch_events [ev] s2)) = pg_now (snd s)" using d(8) vf(3) sf(2) by simp
    show "tk_lastPagePath (fst (dispatch_events [ev] s2)) = (if expired s then None else tk_lastPagePath (fst s))" using d(2) vf(1) sf(4) by simp
    show "\<not> expired s \<or> started_at (dispatch_events [ev] s2) = Some (int (pg_now (snd s)))" using d(4) q(2) sc(4) by simp
  qed (simp_all add: d(2) vf(1) same)
  then show ?thesis using ev(1) by blast
qed

lemma interaction_session:
  assumes "\<not> tk_isRecording (fst s)" and "\<not> silent (fst s)" and "works (pg_session (snd s))" and "\<And>n. pf_uuid P n \<noteq> []"
    and "getNowAdjusted s \<noteq> None" and "tracker_step P (UserInteraction name props) s = Some s1"
  shows "session_event P s s1"
proof -
  let ?fill = "page_payload ''interaction'' name ''info'' (normalizeMetadata props (tk_maxMetadataLength (fst s)))"
  have "\<exists>r. track P ?fill s = Some (r, s1)" using assms(6) unfolding tracker_step.simps trackInteraction_def by auto
  then show ?thesis using track_session [OF assms(1-5), of ?fill] by (elim exE conjE) simp
qed

text \<open>
  C26: Sessions last as long as documented: of two consecutive events of a tracker that records nothing, both reach the collector, and they carry
  the same session exactly when at most half an hour lies between them and the session started at most an hour before the second;
  else the second opens a new one.  Ids made are distinct, and the stored session is none of those still to be made.
\<close>

theorem session_lifetime:
  assumes "\<not> tk_isRecording t" and "\<not> silent t" and "works (pg_session p)" and "0 < pg_now p"
    and "\<And>n. pf_uuid P n \<noteq> []" and "inj (pf_uuid P)" and "\<And>n. pg_ids p \<le> n \<Longrightarrow> stored_session (t, p) \<noteq> Some (pf_uuid P n)"
    and "getNowAdjusted (t, p) \<noteq> None" and "getNowAdjusted (t, p\<lparr>pg_now := later\<rparr>) \<noteq> None"
    and "tracker_step P (UserInteraction name1 props1) (t, p) = Some s1"
    and "tracker_step P (UserInteraction name2 props2) (fst s1, (snd s1)\<lparr>pg_now := later\<rparr>) = Some s2"
  shows "\<exists>first second. event_sessions s2 = event_sessions (t, p) @ [first, second] \<and>
    (first = second \<longleftrightarrow> int later - int (pg_now p) \<le> 1800000 \<and> \<not> idle_expired later (started_at s1) 3600000)"
proof -
  let ?s = "(t, p)" and ?l = "(fst s1, (snd s1)\<lparr>pg_now := later\<rparr>)"
  have i1: "\<not> tk_isRecording (fst ?s)" "\<not> silent (fst ?s)" "works (pg_session (snd ?s))" using assms(1-3) by simp_all
  note e1 = session_eventD [OF interaction_session [OF i1 assms(5,8,10)], unfolded fst_conv snd_conv]
  have off: "\<not> tk_isRecording (fst ?l)" "\<not> silent (fst ?l)" "works (pg_session (snd ?l))" "getNowAdjusted ?l \<noteq> None"
    using assms(1,2,9) e1(1,2,6) settings_silent [of "fst s1" t] by (simp_all add: recorder_def settings_def getNowAdjusted_def)
  note e2 = session_eventD(3) [OF interaction_session [OF off(1-3) assms(5) off(4) assms(11)]]
  have "next_session P ?s \<noteq> pf_uuid P (pg_ids (snd s1))"
  proof (cases "stored_session ?s = None \<or> expired ?s")
    case True
    then have "next_session P ?s = pf_uuid P (pg_ids p)" by (auto simp: next_session_def split: option.split)
    then show ?thesis using True e1(7) assms(6) by (auto simp: inj_eq)
  next
    case False
    then have "stored_session ?s = Some (next_session P ?s)" by (auto simp: next_session_def)
    then show ?thesis using assms(7) [of "pg_ids (snd s1)"] e1(7) False by auto
  qed
  then have "next_session P ?s = next_session P ?l \<longleftrightarrow> \<not> expired ?l" using e1(4) by (auto simp: next_session_def)
  moreover have "expired ?l \<longleftrightarrow> 1800000 < int later - int (pg_now p) \<or> idle_expired later (started_at s1) 3600000"
    using e1(5) assms(4) by (simp add: expired_def idle_expired_def)
  moreover have "event_sessions ?l = event_sessions s1" by (simp add: event_sessions_def)
  ultimately show ?thesis using e2 e1(3) by (intro exI [of _ "next_session P ?s"] exI [of _ "next_session P ?l"]) auto
qed

lemma sample_time: "getNowAdjusted (new_UsageTracker sample_tracker_config, sample_page\<lparr>pg_now := n\<rparr>) \<noteq> None" if "n \<le> 9000000"
proof -
  have "js_trunc (of_nat n) = int n" by (simp add: js_trunc_def)
  then show ?thesis using that
    by (simp add: getNowAdjusted_def new_UsageTracker_def sample_page_def valid_time_def Let_def)
qed

theorem session_lifetime_witness:
  "\<exists>s1 s2 first second. tracker_step sample_platform (UserInteraction ''go'' None) (new_UsageTracker sample_tracker_config, sample_page) = Some s1 \<and>
     tracker_step sample_platform (UserInteraction ''on'' None) (fst s1, (snd s1)\<lparr>pg_now := 9000000\<rparr>) = Some s2 \<and>
     event_sessions s2 = [first, second] \<and> first \<noteq> second"
proof -
  let ?t = "new_UsageTracker sample_tracker_config"
  have ok: "tracker_ok (fst (?t, sample_page))" "\<not> tk_isRecording ?t" "\<not> silent ?t"
    by (simp_all add: tracker_ok_def new_UsageTracker_def sample_tracker_config_def silent_def without_slash_def endsWith_def Let_def)
  have few: "length (pf_recordStart sample_platform) < 50" by (simp add: sample_platform_def)
  obtain s1 where s1: "tracker_step sample_platform (UserInteraction ''go'' None) (?t, sample_page) = Some s1" "tracker_ok (fst s1)"
    using settles_some_ex [OF step_settles [OF ok(1) few]] by blast
  let ?l = "(fst s1, (snd s1)\<lparr>pg_now := 9000000\<rparr>)"
  have l: "tracker_ok (fst ?l)" using s1(2) by simp
  obtain s2 where s2: "tracker_step sample_platform (UserInteraction ''on'' None) ?l = Some s2"
    using settles_some_ex [OF step_settles [OF l few]] by blast
  have page: "works (pg_session sample_page)" "0 < pg_now sample_page" "stored_session (?t, sample_page) = None" "event_sessions (?t, sample_page) = []"
    by (simp_all add: sample_page_def sample_storage_def works_def storage_get_def event_sessions_def)
  have ids: "\<And>n. pf_uuid sample_platform n \<noteq> []" "inj (pf_uuid sample_platform)"
    by (simp_all add: sample_platform_def inj_def list_eq_iff_nth_eq)
  have time: "getNowAdjusted (?t, sample_page) \<noteq> None" "getNowAdjusted (?t, sample_page\<lparr>pg_now := 9000000\<rparr>) \<noteq> None"
    using sample_time [of 1000] sample_time [of 9000000] by (simp_all add: sample_page_def)
  have unused: "stored_session (?t, sample_page) \<noteq> Some (pf_uuid sample_platform n)" for n using page(3) by simp
  obtain first second where two: "event_sessions s2 = event_sessions (?t, sample_page) @ [first, second]"
    "first = second \<longleftrightarrow> int 9000000 - int (pg_now sample_page) \<le> 1800000 \<and> \<not> idle_expired 9000000 (started_at s1) 3600000"
    using session_lifetime [OF ok(2,3) page(1,2) ids unused time s1(1) s2] by blast
  have "first \<noteq> second" using two(2) by (simp add: sample_page_def)
  moreover have "event_sessions s2 = [first, second]" using two(1) page(4) by simp
  ultimately show ?thesis using s1(1) s2 by blast
qed

end
