(* ===== verification/Usage_Faults.thy ===== *)
theory Usage_Faults
  imports Usage_Sessions
begin

text \<open>
  The limits of the usage tracker: how exact its clock is, what a rotation does to page views, to interactions tracked once and to the
  replay buffer, and which attribution the collector can read from what the tracker sends.
\<close>

section \<open>The clock\<close>

text \<open>A sample is sound if its offset is off by at most half its round trip.\<close>

definition sound_sample :: "rat \<Rightarrow> rat \<times> rat \<Rightarrow> bool" where
  "sound_sample skew sample \<longleftrightarrow> \<bar>snd sample - skew\<bar> \<le> fst sample / 2"

text \<open>A server whose clock is \<open>skew\<close> ahead reads it while the request is under way.\<close>

definition honest_reply :: "rat \<Rightarrow> health_reply \<Rightarrow> bool" where
  "honest_reply skew r \<longleftrightarrow> (case r of ServerTime rtt start (Some time) \<Rightarrow> of_nat start + skew \<le> time \<and> time \<le> of_nat start + rtt + skew
     | ServerTime rtt start None \<Rightarrow> True | _ \<Rightarrow> False)"

definition timed :: "health_reply \<Rightarrow> rat list" where
  "timed r = (case r of ServerTime rtt start (Some time) \<Rightarrow> [rtt] | _ \<Rightarrow> [])"

lemma sync_best:
  "list_all (honest_reply skew) rs \<Longrightarrow> (case best of None \<Rightarrow> True | Some b \<Rightarrow> sound_sample skew b) \<Longrightarrow>
     (case sync_loop rs best of None \<Rightarrow> False
      | Some None \<Rightarrow> best = None \<and> concat (map timed rs) = []
      | Some (Some b) \<Rightarrow> sound_sample skew b \<and> (\<forall>q \<in> set (concat (map timed rs)). fst b \<le> q) \<and> (case best of None \<Rightarrow> concat (map timed rs) \<noteq> [] | Some b' \<Rightarrow> fst b \<le> fst b'))"
proof (induction rs best rule: sync_loop.induct)
  case (1 best)
  then show ?case by (cases best) simp_all
next
  case (2 rtt startWall serverTime rs best)
  let ?sample = "(rtt, serverTime - (of_nat startWall + rtt / 2))"
  let ?best = "case best of None \<Rightarrow> Some ?sample | Some b \<Rightarrow> if rtt < fst b then Some ?sample else best"
  have "sound_sample skew ?sample" using "2.prems"(1) by (auto simp: honest_reply_def sound_sample_def abs_le_iff field_simps)
  then obtain b where b: "?best = Some b" "sound_sample skew b" "fst b \<le> rtt" "case best of None \<Rightarrow> True | Some b' \<Rightarrow> fst b \<le> fst b'"
    using "2.prems"(2) by (cases best; cases "rtt < fst (the best)") simp_all
  show ?case
    using "2.IH" [of ?sample] "2.prems"(1) b by (auto simp: Let_def timed_def split: option.splits)
next
  case (3 rtt startWall rs best)
  then show ?case by (auto simp: honest_reply_def timed_def split: option.splits)
qed (simp_all add: honest_reply_def)

text \<open>
  C28: When the three health requests are answered by a server that reads its clock while the request is under way, the clock of the tracker is
  off by at most half the shortest round trip; without a time in any reply it stays as it is.
\<close>

theorem clock_accuracy:
  assumes "list_all (honest_reply skew) (map reply [0..<3])"
  shows "case concat (map timed (map reply [0..<3])) of
      [] \<Rightarrow> syncTime True reply t = t
    | rtt # rtts \<Rightarrow> \<bar>tk_timeOffsetMs (syncTime True reply t) - skew\<bar> \<le> Min (set (rtt # rtts)) / 2"
proof -
  let ?rs = "map reply [0..<3]" let ?times = "concat (map timed ?rs)"
  note best = sync_best [OF assms, of None]
  show ?thesis
  proof (cases "sync_loop ?rs None")
    case (Some found)
    show ?thesis
    proof (cases found)
      case None
      then have none: "?times = []" and same: "syncTime True reply t = t" using best Some by (simp_all add: syncTime_def)
      show ?thesis unfolding none using same by simp
    next
      case (Some b)
      then have b: "sound_sample skew b" "\<forall>q \<in> set ?times. fst b \<le> q" "?times \<noteq> []" using best \<open>sync_loop ?rs None = Some found\<close> by simp_all
      have "tk_timeOffsetMs (syncTime True reply t) = snd b" using Some \<open>sync_loop ?rs None = Some found\<close> by (simp add: syncTime_def split: prod.split)
      moreover obtain q qs where q: "?times = q # qs" using b(3) by (cases ?times) simp_all
      moreover have "fst b \<le> Min (set (q # qs))" using b(2) unfolding q by simp
      moreover have "\<bar>snd b - skew\<bar> \<le> fst b / 2" using b(1) by (simp only: sound_sample_def)
      ultimately have "\<bar>tk_timeOffsetMs (syncTime True reply t) - skew\<bar> \<le> Min (set (q # qs)) / 2" by linarith
      then show ?thesis unfolding q list.case .
    qed
  qed (use best in simp)
qed

definition sample_reply :: "nat \<Rightarrow> health_reply" where
  "sample_reply i = ServerTime (rat_of_nat (10 * (i + 1))) 1000 (Some (6000 + rat_of_nat (5 * (i + 1))))"

theorem clock_accuracy_witness:
  "\<bar>tk_timeOffsetMs (syncTime True sample_reply (new_UsageTracker sample_tracker_config)) - 5000\<bar> \<le> 5"
proof -
  have three: "map sample_reply [0..<3] = [ServerTime 10 1000 (Some 6005), ServerTime 20 1000 (Some 6010), ServerTime 30 1000 (Some 6015)]"
    by (simp add: sample_reply_def upt_rec)
  have "list_all (honest_reply 5000) (map sample_reply [0..<3])" unfolding three by (simp add: honest_reply_def)
  from clock_accuracy [OF this] show ?thesis unfolding three by (simp add: timed_def)
qed

section \<open>Rotation and what a page has done\<close>

lemma rotated_page:
  assumes "checkAndRotateSession s = (r, s1)"
  shows "r = expired s" "tk_lastPagePath (fst s1) = (if expired s then None else tk_lastPagePath (fst s))"
    "tk_onceKeys (fst s1) = (if expired s then [] else tk_onceKeys (fst s))"
  using assms by (auto simp: checkAndRotateSession_def expired_def Let_def split: prod.splits)

text \<open>A page view that finds its session expired is counted twice: it opens the new session, but the rotation forgets the path the view has just set, so the
  same view is sent again.  In a session that did not expire the second view of a path is not sent.
\<close>

theorem page_views_repeat:
  assumes "\<not> tk_isRecording (fst s)" and "\<not> silent (fst s)" and "works (pg_session (snd s))" and "\<And>n. pf_uuid P n \<noteq> []"
    and "getNowAdjusted s \<noteq> None" and "tk_lastPagePath (fst s) \<noteq> Some path"
  shows "\<exists>s1 s2. trackPageView P path title s = Some (Inr (), s1) \<and> trackPageView P path title s1 = Some (Inr (), s2) \<and>
    event_sessions s2 = event_sessions s @ (if expired s then [next_session P s, next_session P s] else [next_session P s])"
proof -
  let ?first = "((fst s)\<lparr>tk_lastPagePath := Some path\<rparr>, snd s)"
  let ?fill = "\<lambda>s'. (page_payload ''page_view'' ''page_view'' ''info'' (Some (getUtmParams (pg_search (snd s')) @ load_time P)) s')
    \<lparr>up_path := path, up_title := title, up_referrer := Some (if pg_referrer (snd s') = [] then JNull else JStr (pg_referrer (snd s')))\<rparr>"
  have same: "expired ?first = expired s" "next_session P ?first = next_session P s" "getNowAdjusted ?first = getNowAdjusted s"
      "event_sessions ?first = event_sessions s" "silent (fst ?first) = silent (fst s)"
    by (simp_all add: expired_def next_session_def getNowAdjusted_def event_sessions_def silent_def split: option.split)
  have off: "\<not> tk_isRecording (fst ?first)" "\<not> silent (fst ?first)" "works (pg_session (snd ?first))" "getNowAdjusted ?first \<noteq> None"
    using assms(1-3,5) same by simp_all
  obtain s1 where t1: "track P ?fill ?first = Some (Inr (), s1)" and e1: "session_event P ?first s1"
    using track_session [OF off(1-3) assms(4) off(4), of ?fill] by blast
  note s1 = session_eventD [OF e1]
  have kept: "settings (fst s1) = settings (fst s)" "tk_isRecording (fst s1) = tk_isRecording (fst s)"
    "event_sessions s1 = event_sessions s @ [next_session P s]" "stored_session s1 = Some (next_session P s)"
    "tk_lastPagePath (fst s1) = (if expired s then None else Some path)"
    using s1 same by (simp_all add: settings_def recorder_def)
  have view1: "trackPageView P path title s = Some (Inr (), s1)" using assms(6) t1 by (simp add: trackPageView_def)
  show ?thesis
  proof (cases "expired s")
    case False
    then have "trackPageView P path title s1 = Some (Inr (), s1)" using kept(5) by (simp add: trackPageView_def)
    then show ?thesis using view1 kept(3) False by (intro exI [of _ s1] conjI) simp_all
  next
    case True
    let ?second = "((fst s1)\<lparr>tk_lastPagePath := Some path\<rparr>, snd s1)"
    have off2: "\<not> tk_isRecording (fst ?second)" "\<not> silent (fst ?second)" "works (pg_session (snd ?second))" "getNowAdjusted ?second \<noteq> None"
      using assms(1,2,5) kept(1,2) s1(6,8) by (simp_all add: settings_def getNowAdjusted_def silent_def)
    have "\<not> expired ?second" using True s1(5,8,10) same(1) by (simp add: expired_def idle_expired_def)
    then have "next_session P ?second = next_session P s" using kept(4) by (simp add: next_session_def)
    then have again: "event_sessions s2 = event_sessions s1 @ [next_session P s]" if "session_event P ?second s2" for s2
      using session_eventD(3) [OF that] by (simp add: event_sessions_def)
    obtain s2 where s2: "track P ?fill ?second = Some (Inr (), s2)" "session_event P ?second s2"
      using track_session [OF off2(1-3) assms(4) off2(4), of ?fill] by blast
    have "trackPageView P path title s1 = Some (Inr (), s2)" using kept(5) s2(1) True by (simp add: trackPageView_def)
    then show ?thesis using view1 kept(3) again [OF s2(2)] True by (intro exI [of _ s1] exI [of _ s2] conjI) simp_all
  qed
qed

definition idle_storage :: storage where
  "idle_storage = sample_storage\<lparr>sg_items := [''usage_session_id'' \<mapsto> ''old'', ''usage_last_act'' \<mapsto> ''5'', ''usage_start_ts'' \<mapsto> ''5'',
     ''usage_once_open:menu'' \<mapsto> ''1'']\<rparr>"

definition idle_page :: browser_page where
  "idle_page = sample_page\<lparr>pg_session := idle_storage, pg_now := 9000000\<rparr>"

lemma idle_tracker: "tk_storagePrefix (new_UsageTracker sample_tracker_config) = ''usage''"
  "\<not> silent (new_UsageTracker sample_tracker_config)" "\<not> tk_isRecording (new_UsageTracker sample_tracker_config)"
  "tk_onceKeys (new_UsageTracker sample_tracker_config) = []" "tk_lastPagePath (new_UsageTracker sample_tracker_config) = None"
  by (simp_all add: new_UsageTracker_def sample_tracker_config_def silent_def without_slash_def endsWith_def Let_def)

lemma idle_expired_page: "expired (new_UsageTracker sample_tracker_config, idle_page)" "works (pg_session idle_page)"
proof -
  have "parseInt10 ''5'' = Some 5" by code_simp
  then show "expired (new_UsageTracker sample_tracker_config, idle_page)"
    by (simp add: expired_def idle_expired_def stored_number_def storage_get_def idle_page_def idle_storage_def sample_storage_def idle_tracker)
  show "works (pg_session idle_page)" by (simp add: works_def idle_page_def idle_storage_def sample_storage_def)
qed

theorem page_views_repeat_witness:
  "\<exists>s1 s2. trackPageView sample_platform ''/b'' ''t'' (new_UsageTracker sample_tracker_config, idle_page) = Some (Inr (), s1) \<and>
     trackPageView sample_platform ''/b'' ''t'' s1 = Some (Inr (), s2) \<and> event_sessions s2 = [''u'', ''u'']"
proof -
  let ?s = "(new_UsageTracker sample_tracker_config, idle_page)"
  have ids: "\<And>n. pf_uuid sample_platform n \<noteq> []" by (simp add: sample_platform_def)
  have time: "getNowAdjusted ?s \<noteq> None" using sample_time [of 9000000] by (simp add: getNowAdjusted_def idle_page_def)
  have new: "\<not> tk_isRecording (fst ?s)" "\<not> silent (fst ?s)" "works (pg_session (snd ?s))" "tk_lastPagePath (fst ?s) \<noteq> Some ''/b''"
    using idle_tracker idle_expired_page by simp_all
  have "next_session sample_platform ?s = ''u''" "event_sessions ?s = []"
    using idle_expired_page(1)
    by (simp_all add: next_session_def sample_platform_def idle_page_def sample_page_def event_sessions_def split: option.split)
  with page_views_repeat [OF new(1-3) ids time new(4), of "''t''"] idle_expired_page(1) show ?thesis by simp
qed

text \<open>
  An interaction tracked once is tracked once per tab, not once per session: a rotation clears the keys the tracker remembers, but not the mark in the session
  storage, so in the new session, and in every later one, the call sends nothing.
\<close>

theorem once_per_tab:
  assumes "works (pg_session (snd s))" and "storage_get (pg_session (snd s)) (tracker_key (fst s) (''_once_'' @ name @ '':'' @ key)) = Some ''1''"
    and "expired s"
  shows "case checkAndRotateSession s of (rotated, s1) \<Rightarrow> rotated \<and> stored_session s1 = None \<and> tk_onceKeys (fst s1) = [] \<and>
    (case trackInteractionOnce P name key props s1 of Some (r, s2) \<Rightarrow> r = Inr () \<and> snd s2 = snd s1 | None \<Rightarrow> False)"
  using assms
  by (cases s) (simp add: checkAndRotateSession_def expired_def trackInteractionOnce_def Let_def stored_number_set)

theorem once_per_tab_witness:
  "case checkAndRotateSession (new_UsageTracker sample_tracker_config, idle_page) of (rotated, s1) \<Rightarrow> rotated \<and> stored_session s1 = None \<and>
    (case trackInteractionOnce sample_platform ''open'' ''menu'' None s1 of Some (r, s2) \<Rightarrow> snd s2 = snd s1 | None \<Rightarrow> False)"
proof -
  have "storage_get (pg_session idle_page) (tracker_key (new_UsageTracker sample_tracker_config) (''_once_'' @ ''open'' @ '':'' @ ''menu'')) = Some ''1''"
    by (simp add: storage_get_def idle_page_def idle_storage_def sample_storage_def idle_tracker)
  then show ?thesis
    using once_per_tab [of "(new_UsageTracker sample_tracker_config, idle_page)" "''open''" "''menu''" sample_platform None] idle_expired_page
    by (auto split: option.splits prod.splits)
qed

section \<open>Replays across a rotation\<close>

text \<open>A replay buffer that is flushed after its session expired is posted under the new session, as its first chunk, ahead of the snapshot the restarted recorder
  takes: the events of the old session are credited to the new one.
\<close>

theorem replay_under_new_session:
  assumes "tracker_ok (fst s)" and "tk_isRecording (fst s)" and "\<not> silent (fst s)" and "works (pg_session (snd s))" and "\<And>n. pf_uuid P n \<noteq> []"
    and "length (pf_recordStart P) < 50" and "expired s" and "tk_replayEvents (fst s) \<noteq> []"
  shows "\<exists>s1 r v. perform P call_depth Flush s = Some ([], s1) \<and> pg_sent (snd s1) = pg_sent (snd s) @ [r] \<and>
    rq_body r = Replay (pf_uuid P (pg_ids (snd s))) v 0 (tk_replayEvents (fst s))"
proof -
  let ?d = "Suc (Suc (Suc (Suc (Suc (Suc (Suc 0))))))" let ?s = "set_events [] s"
  obtain i s2 where i: "sessionId P (snd (checkAndRotateSession ?s)) = (i, s2)" by (cases "sessionId P (snd (checkAndRotateSession ?s))")
  obtain r s0 where r: "checkAndRotateSession ?s = (r, s0)" by (cases "checkAndRotateSession ?s")
  note i' = i [unfolded r snd_conv]
  have w: "works (pg_session (snd ?s))" using assms(4) by simp
  have ex: "expired ?s" using assms(7) by (simp add: expired_def)
  have new: "i = pf_uuid P (pg_ids (snd s))" using session_current(1) [OF w assms(5) i] ex by (simp add: next_session_def split: option.split)
  have rec: "recorder (fst s2) = recorder (fst ?s)" "pg_sent (snd s2) = pg_sent (snd s)" "r"
    using rotate_keeps(2) [OF r] session_keeps(2) [OF i'] rotated_page(1) [OF r] ex r i'
    by (auto simp: checkAndRotateSession_def sessionId_def Let_def split: prod.splits)
  have "perform P (Suc ?d) Stop s2 = Some ([], stopped (fst s2), snd s2)"
    using rec(1) by (intro stop_after [OF flush_nothing]) (simp add: recorder_def)
  moreover obtain s4 where s4: "perform P (Suc ?d) Start (stopped (fst s2), snd s2) = Some ([], s4)" "tk_replaySequence (fst s4) = 0"
      "pg_sent (snd s4) = pg_sent (snd s)"
    using start_returns [of "(stopped (fst s2), snd s2)" P "Suc (Suc (Suc (Suc (Suc (Suc 0)))))"] assms(6) rec(2) by (auto simp: stopped_def simp del: perform.simps)
  ultimately have ensured: "perform P (Suc (Suc ?d)) (Ensure True) ?s = Some (i, s4)"
    using rec(1,3) assms(2) by (simp add: perform.simps(2) [of P "Suc ?d"] ensureSessionCurrent_def r i' recorder_def del: perform.simps)
  obtain v s5 where v: "visitorId P s4 = (v, s5)" by (cases "visitorId P s4")
  have "perform P call_depth Flush s = Some ([], send (collectorBaseUrl P (fst s4) @ ''/replays'') (Replay i v 0 (tk_replayEvents (fst s)))
      ((fst s5)\<lparr>tk_replaySequence := 1\<rparr>, snd s5))"
    unfolding depth_ten using assms(3,8) ensured v visitor_frame(1) [OF v] s4(2)
    by (simp add: perform.simps(2) [of P "Suc (Suc ?d)"] flushReplays_def Let_def del: perform.simps)
  then show ?thesis using new visitor_frame(4) [OF v] s4(3) by (simp add: send_def)
qed

theorem replay_under_new_session_witness:
  "\<exists>s1 r v. perform sample_platform call_depth Flush ((new_UsageTracker sample_tracker_config)\<lparr>tk_recorderRuns := True, tk_replayInterval := True,
     tk_isRecording := True, tk_replayEvents := [[(''type'', JNum (Num 3))]], tk_replaySequence := 7\<rparr>, idle_page) = Some ([], s1) \<and>
     pg_sent (snd s1) = [r] \<and> rq_body r = Replay ''u'' v 0 [[(''type'', JNum (Num 3))]]"
proof -
  let ?t = "(new_UsageTracker sample_tracker_config)\<lparr>tk_recorderRuns := True, tk_replayInterval := True,
     tk_isRecording := True, tk_replayEvents := [[(''type'', JNum (Num 3))]], tk_replaySequence := 7\<rparr>"
  have t: "tracker_ok (fst (?t, idle_page))" "tk_isRecording (fst (?t, idle_page))" "\<not> silent (fst (?t, idle_page))" "works (pg_session (snd (?t, idle_page)))"
      "tk_replayEvents (fst (?t, idle_page)) \<noteq> []" "expired (?t, idle_page)"
    using idle_tracker(2) idle_expired_page by (simp_all add: tracker_ok_def silent_def expired_def)
  have P: "\<And>n. pf_uuid sample_platform n \<noteq> []" "length (pf_recordStart sample_platform) < 50" by (simp_all add: sample_platform_def)
  have "pf_uuid sample_platform (pg_ids idle_page) = ''u''" "pg_sent idle_page = []" by (simp_all add: sample_platform_def idle_page_def sample_page_def)
  with replay_under_new_session [OF t(1-4) P t(6,5)] show ?thesis by simp
qed

section \<open>Attribution\<close>

text \<open>
  The tracker names the campaign parameters \<open>utmsource\<close>, \<open>utmmedium\<close> and so on; the collector looks for \<open>utmSource\<close>, \<open>utmMedium\<close>
  and \<open>utmCampaign\<close>.
\<close>

lemma utm_names: "fst ` set (getUtmParams params) \<subseteq> {''utmsource'', ''utmmedium'', ''utmcampaign'', ''utmterm'', ''utmcontent''}"
  by (auto simp: getUtmParams_def map_filter_def split: if_splits option.splits)

lemma map_get_absent: "k \<notin> fst ` set m \<Longrightarrow> string_at m k = None"
proof -
  assume "k \<notin> fst ` set m"
  then have "map_of m k = None" by (simp add: map_of_eq_None_iff)
  then show ?thesis by (simp add: string_at_def map_get_def)
qed

lemma utm_source_sent: "map_get (getUtmParams params) ''utmsource'' = map_option JStr (nonempty_text (map_of params ''utm_source''))"
  by (cases "nonempty_text (map_of params ''utm_source'')")
    (simp_all add: getUtmParams_def map_get_def List.map_filter_simps del: nonempty_simps split: option.split)

text \<open>The collector attributes no page view the tracker sends: whatever campaign parameters the page has, what the usage pipeline hands to the store
  has no campaign source, medium or name, because the two sides spell the properties differently.
\<close>

theorem attribution_lost:
  assumes "printable_json num (JObj (getUtmParams params @ load_time P))"
    and "ui_properties input = Some (getUtmParams params @ load_time P)"
    and "run_processors kind (usage_processors num) [toUsageRecord num date_parse input agent country received project hours uuid] ctx = Inr ([t], spans)"
  shows "map_get (getUtmParams params) ''utmsource'' = map_option JStr (nonempty_text (map_of params ''utm_source'')) \<and>
    ue_utmSource t = None \<and> ue_utmMedium t = None \<and> ue_utmCampaign t = None"
proof -
  let ?m = "getUtmParams params @ load_time P"
  let ?e = "toUsageRecord num date_parse input agent country received project hours uuid"
  have t: "t = utm_enrich (bot_flag (ua_enrich (usage_redact num (usage_normalize num ?e))))" using run_usage [OF assms(3)] by simp
  obtain kvs where kvs: "redactJson (JObj ?m) = JObj kvs" "set kvs \<subseteq> set (map (\<lambda>kv. if usage_shouldRedactKey (fst kv) then (fst kv, JStr REDACTED_VALUE)
      else (fst kv, redactJson (snd kv))) ?m)"
    using that [OF redactJson.simps(2) set_make_object] by blast
  have "fst ` set kvs \<subseteq> fst ` set ?m" using image_mono [OF kvs(2), of fst] by (simp only: list.set_map image_image if_distrib fst_conv if_cancel)
  also have "\<dots> \<subseteq> {''utmsource'', ''utmmedium'', ''utmcampaign'', ''utmterm'', ''utmcontent'', ''loadTimeMs''}"
    using utm_names [of params] by (auto simp: load_time_def split: option.splits)
  finally have absent: "k \<notin> fst ` set kvs" if "k \<in> {''utmSource'', ''utmMedium'', ''utmCampaign''}" for k using that by auto
  have "printable_json num (redactJson (JObj ?m))" by (rule usage_redactor.redact_printable [OF assms(1)])
  then have "JSON_parse (stringify num (JObj kvs)) = Some (JObj kvs)" unfolding kvs(1) by (rule JSON_roundtrip)
  moreover have "parseJsonValue (stringify num (JObj ?m)) = JObj ?m" using JSON_roundtrip [OF assms(1)] by (simp add: parseJsonValue_def del: stringify.simps)
  ultimately have "parseJsonRecord (Some (ue_propertiesJson (usage_redact num (usage_normalize num ?e)))) = kvs"
    using assms(2) stringify_nonempty [OF \<open>printable_json num (redactJson (JObj ?m))\<close>]
    by (simp add: usage_redact_def usage_normalize_def toUsageRecord_def kvs(1) parseJsonRecord_def Let_def del: stringify.simps redactJson.simps)
  then have "ue_utmSource t = None \<and> ue_utmMedium t = None \<and> ue_utmCampaign t = None"
    using absent [THEN map_get_absent]
    by (simp add: t utm_enrich_def bot_flag_def ua_enrich_def js_or_def) (simp add: usage_redact_def usage_normalize_def toUsageRecord_def Let_def)
  then show ?thesis using utm_source_sent by blast
qed

theorem attribution_lost_witness:
  "\<exists>t spans. run_processors ''usage'' (usage_processors one_text) [toUsageRecord one_text (\<lambda>_. None)
       (sample_input\<lparr>ui_properties := Some (getUtmParams [(''utm_source'', ''ad'')] @ load_time sample_platform)\<rparr>) None None 0 ''p'' 72 ''u''] () =
       Inr ([t], spans) \<and> map_get (getUtmParams [(''utm_source'', ''ad'')]) ''utmsource'' = Some (JStr ''ad'') \<and> ue_utmSource t = None"
proof -
  let ?m = "getUtmParams [(''utm_source'', ''ad'')] @ load_time sample_platform"
  let ?run = "run_processors ''usage'' (usage_processors one_text) [toUsageRecord one_text (\<lambda>_. None) (sample_input\<lparr>ui_properties := Some ?m\<rparr>)
    None None 0 ''p'' 72 ''u''] ()"
  have m: "?m = [(''utmsource'', JStr ''ad'')]"
    by (simp add: getUtmParams_def List.map_filter_simps load_time_def sample_platform_def)
  have "printable_json one_text (JObj ?m)" unfolding m by (simp add: make_object_def obj_define_def is_index_def)
  moreover obtain t spans where run: "?run = Inr ([t], spans)" by (simp add: usage_processors_def each_def)
  ultimately show ?thesis
    using attribution_lost [of one_text "[(''utm_source'', ''ad'')]" sample_platform "sample_input\<lparr>ui_properties := Some ?m\<rparr>" "''usage''"
      "\<lambda>_. None" None None 0 "''p''" 72 "''u''" "()" t spans, OF _ _ run] by (intro exI [of _ t] exI [of _ spans]) simp
qed

end
