(* ===== verification/Projects_Store.thy ===== *)
theory Projects_Store
  imports Js_Time Json_Parse
begin

text \<open>
  Projects and their ingest keys: \<^verbatim>\<open>packages/obs-collector/src/lib/projects-store.ts\<close> over the tables of migration 009, each a list of rows
  in insertion order.  Of the engine the model uses the primary keys and the two unique columns; a statement that violates one fails and
  changes nothing.  Random ids and the digest are parameters.  Shown: the tables stay well formed, and a key always belongs to the project it
  was made for.
\<close>

section \<open>Rows\<close>

record project_row =
  pj_id :: string
  pj_name :: string
  pj_slug :: string
  pj_created_at :: string
  pj_payload_capture_enabled :: json

record project =
  po_id :: string
  po_name :: string
  po_slug :: string
  po_createdAt :: string
  po_payloadCaptureEnabled :: bool

record key_row =
  kr_id :: string
  kr_project_id :: string
  kr_key_hash :: string
  kr_key_prefix :: string
  kr_name :: string
  kr_created_at :: string
  kr_revoked_at :: "string option"

record ingest_key =
  ik_id :: string
  ik_projectId :: string
  ik_name :: string
  ik_keyPrefix :: string
  ik_createdAt :: string
  ik_revokedAt :: "string option"

record key_with_plaintext = ingest_key +
  ik_key :: string

record projects_db =
  pd_projects :: "project_row list"
  pd_keys :: "key_row list"

definition rowToProject :: "project_row \<Rightarrow> project" where
  "rowToProject r =
     \<lparr>po_id = pj_id r, po_name = pj_name r, po_slug = pj_slug r, po_createdAt = pj_created_at r,
      po_payloadCaptureEnabled = (pj_payload_capture_enabled r = JBool True \<or> pj_payload_capture_enabled r = JNum (Num 1) \<or>
        pj_payload_capture_enabled r = JStr ''1'' \<or> pj_payload_capture_enabled r = JStr ''true'')\<rparr>"

definition rowToKey :: "key_row \<Rightarrow> ingest_key" where
  "rowToKey r = \<lparr>ik_id = kr_id r, ik_projectId = kr_project_id r, ik_name = kr_name r, ik_keyPrefix = kr_key_prefix r,
     ik_createdAt = kr_created_at r, ik_revokedAt = kr_revoked_at r\<rparr>"

section \<open>Projects\<close>

definition slug_char :: "char \<Rightarrow> bool" where
  "slug_char c \<longleftrightarrow> is_digit c \<or> (97 \<le> char_code c \<and> char_code c \<le> 122)"

definition slug_ok :: "string \<Rightarrow> bool" where
  "slug_ok s \<longleftrightarrow> s \<noteq> [] \<and> length s \<le> 50 \<and> slug_char (hd s) \<and> slug_char (last s) \<and> list_all (\<lambda>c. slug_char c \<or> c = CHR ''-'') s"

text \<open>An insertion fails on a primary key or a unique column that is taken.\<close>

definition insert_project :: "project_row \<Rightarrow> projects_db \<Rightarrow> string + projects_db" where
  "insert_project r db =
     (if pj_id r \<in> pj_id ` set (pd_projects db) then Inl ''UNIQUE constraint failed: projects.id''
      else if pj_slug r \<in> pj_slug ` set (pd_projects db) then Inl ''UNIQUE constraint failed: projects.slug''
      else Inr (db\<lparr>pd_projects := pd_projects db @ [r]\<rparr>))"

definition insert_key :: "key_row \<Rightarrow> projects_db \<Rightarrow> string + projects_db" where
  "insert_key r db =
     (if kr_id r \<in> kr_id ` set (pd_keys db) then Inl ''UNIQUE constraint failed: ingest_keys.id''
      else if kr_key_hash r \<in> kr_key_hash ` set (pd_keys db) then Inl ''UNIQUE constraint failed: ingest_keys.key_hash''
      else Inr (db\<lparr>pd_keys := pd_keys db @ [r]\<rparr>))"

definition listProjects :: "projects_db \<Rightarrow> project list" where
  "listProjects db = map rowToProject (sort_key pj_created_at (pd_projects db))"

definition getProject :: "string \<Rightarrow> projects_db \<Rightarrow> project option" where
  "getProject i db = map_option rowToProject (find (\<lambda>r. pj_id r = i) (pd_projects db))"

definition createProject :: "string \<Rightarrow> string \<Rightarrow> string \<Rightarrow> string \<Rightarrow> projects_db \<Rightarrow> (string + project) \<times> projects_db" where
  "createProject name slug randomId now db =
     (let n = trim name; s = toLowerCase (trim slug) in
      if n = [] then (Inl ''Project name is required'', db)
      else if \<not> slug_ok s then (Inl ''Slug must be lowercase letters, digits, and hyphens (max 50 chars)'', db)
      else (case insert_project \<lparr>pj_id = randomId, pj_name = n, pj_slug = s, pj_created_at = now, pj_payload_capture_enabled = JNum (Num 0)\<rparr> db of
          Inl e \<Rightarrow> (Inl e, db)
        | Inr db' \<Rightarrow> (Inr \<lparr>po_id = randomId, po_name = n, po_slug = s, po_createdAt = now, po_payloadCaptureEnabled = False\<rparr>, db')))"

definition update_rows :: "string \<Rightarrow> (project_row \<Rightarrow> project_row) \<Rightarrow> projects_db \<Rightarrow> projects_db" where
  "update_rows i f db = db\<lparr>pd_projects := map (\<lambda>r. if pj_id r = i then f r else r) (pd_projects db)\<rparr>"

definition updateProject :: "string \<Rightarrow> string option \<Rightarrow> bool option \<Rightarrow> projects_db \<Rightarrow> project option \<times> projects_db" where
  "updateProject i name capture db =
     (case getProject i db of None \<Rightarrow> (None, db)
      | Some existing \<Rightarrow>
          (let (next, db1) = (case map_option trim name of
                 Some n \<Rightarrow> if n \<noteq> po_name existing then (existing\<lparr>po_name := n\<rparr>, update_rows i (\<lambda>r. r\<lparr>pj_name := n\<rparr>) db) else (existing, db)
               | None \<Rightarrow> (existing, db))
           in case capture of
                Some b \<Rightarrow> if b \<noteq> po_payloadCaptureEnabled existing
                  then (Some (next\<lparr>po_payloadCaptureEnabled := b\<rparr>),
                        update_rows i (\<lambda>r. r\<lparr>pj_payload_capture_enabled := JNum (Num (if b then 1 else 0))\<rparr>) db1)
                  else (Some next, db1)
              | None \<Rightarrow> (Some next, db1)))"

definition ensureDefaultProject :: "string \<Rightarrow> projects_db \<Rightarrow> projects_db" where
  "ensureDefaultProject now db =
     (case insert_project \<lparr>pj_id = ''default'', pj_name = ''Default'', pj_slug = ''default'', pj_created_at = now,
         pj_payload_capture_enabled = JNum (Num 0)\<rparr> db of Inl _ \<Rightarrow> db | Inr db' \<Rightarrow> db')"

section \<open>Keys\<close>

definition listKeys :: "string \<Rightarrow> projects_db \<Rightarrow> ingest_key list" where
  "listKeys p db = map rowToKey (rev (sort_key kr_created_at (rev (filter (\<lambda>r. kr_project_id r = p) (pd_keys db)))))"

definition createKey ::
  "(string \<Rightarrow> string) \<Rightarrow> string \<Rightarrow> string \<Rightarrow> string \<Rightarrow> string \<Rightarrow> string \<Rightarrow> projects_db \<Rightarrow> (string + key_with_plaintext) \<times> projects_db" where
  "createKey sha p name randomId secret now db =
     (case getProject p db of None \<Rightarrow> (Inl ''Project not found'', db)
      | Some project \<Rightarrow>
          (let trimmed = (if trim name = [] then ''unnamed'' else trim name);
               plaintext = ''obs_'' @ po_slug project @ ''_'' @ secret;
               prefix = take 16 plaintext
           in case insert_key \<lparr>kr_id = randomId, kr_project_id = p, kr_key_hash = sha plaintext, kr_key_prefix = prefix, kr_name = trimmed,
                  kr_created_at = now, kr_revoked_at = None\<rparr> db of
                Inl e \<Rightarrow> (Inl e, db)
              | Inr db' \<Rightarrow> (Inr \<lparr>ik_id = randomId, ik_projectId = p, ik_name = trimmed, ik_keyPrefix = prefix, ik_createdAt = now,
                    ik_revokedAt = None, ik_key = plaintext\<rparr>, db')))"

definition revokeKey :: "string \<Rightarrow> string \<Rightarrow> projects_db \<Rightarrow> bool \<times> projects_db" where
  "revokeKey keyId now db =
     (list_ex (\<lambda>r. kr_id r = keyId \<and> kr_revoked_at r = None) (pd_keys db),
      db\<lparr>pd_keys := map (\<lambda>r. if kr_id r = keyId \<and> kr_revoked_at r = None then r\<lparr>kr_revoked_at := Some now\<rparr> else r) (pd_keys db)\<rparr>)"

definition findByKeyHash :: "string \<Rightarrow> projects_db \<Rightarrow> (string \<times> string) option" where
  "findByKeyHash h db = map_option (\<lambda>r. (kr_project_id r, kr_id r)) (find (\<lambda>r. kr_key_hash r = h \<and> kr_revoked_at r = None) (pd_keys db))"

definition bootstrapEnvKey :: "(string \<Rightarrow> string) \<Rightarrow> string \<Rightarrow> string \<Rightarrow> string \<Rightarrow> projects_db \<Rightarrow> (string + unit) \<times> projects_db" where
  "bootstrapEnvKey sha plaintext randomId now db =
     (if plaintext = [] then (Inr (), db)
      else let db1 = ensureDefaultProject now db in
        if list_ex (\<lambda>r. kr_key_hash r = sha plaintext) (pd_keys db1) then (Inr (), db1)
        else (case insert_key \<lparr>kr_id = randomId, kr_project_id = ''default'', kr_key_hash = sha plaintext,
                kr_key_prefix = take (min 16 (length plaintext)) plaintext, kr_name = ''bootstrap'', kr_created_at = now, kr_revoked_at = None\<rparr> db1 of
              Inl e \<Rightarrow> (Inl e, db1) | Inr db2 \<Rightarrow> (Inr (), db2)))"

section \<open>The tables stay well formed\<close>

text \<open>Ids and slugs of projects, ids and hashes of keys are distinct.\<close>

definition projects_ok :: "projects_db \<Rightarrow> bool" where
  "projects_ok db \<longleftrightarrow> distinct (map pj_id (pd_projects db)) \<and> distinct (map pj_slug (pd_projects db)) \<and>
     distinct (map kr_id (pd_keys db)) \<and> distinct (map kr_key_hash (pd_keys db))"

text \<open>The keys and what they belong to, revoked or not, in order.\<close>

definition key_owners :: "projects_db \<Rightarrow> (string \<times> string) list" where
  "key_owners db = map (\<lambda>r. (kr_key_hash r, kr_project_id r)) (pd_keys db)"

definition active_hashes :: "projects_db \<Rightarrow> string set" where
  "active_hashes db = {kr_key_hash r | r. r \<in> set (pd_keys db) \<and> kr_revoked_at r = None}"

lemma insert_project_ok: "insert_project r db = Inr db' \<Longrightarrow> projects_ok db \<Longrightarrow> projects_ok db'"
  by (auto simp: insert_project_def projects_ok_def split: if_splits)

lemma insert_project_keys: "insert_project r db = Inr db' \<Longrightarrow> pd_keys db' = pd_keys db"
  by (auto simp: insert_project_def split: if_splits)

lemma insert_key_ok: "insert_key r db = Inr db' \<Longrightarrow> projects_ok db \<Longrightarrow> projects_ok db'"
  by (auto simp: insert_key_def projects_ok_def split: if_splits)

lemma ensure_default_ok: "projects_ok db \<Longrightarrow> projects_ok (ensureDefaultProject now db)" "pd_keys (ensureDefaultProject now db) = pd_keys db"
  by (auto simp: ensureDefaultProject_def insert_project_keys intro: insert_project_ok split: sum.split)

lemma update_rows_ok:
  assumes "\<And>r. pj_id (f r) = pj_id r \<and> pj_slug (f r) = pj_slug r"
  shows "projects_ok (update_rows i f db) = projects_ok db" "pd_keys (update_rows i f db) = pd_keys db"
proof -
  have "map pj_id (pd_projects (update_rows i f db)) = map pj_id (pd_projects db)"
    "map pj_slug (pd_projects (update_rows i f db)) = map pj_slug (pd_projects db)"
    using assms by (simp_all add: update_rows_def comp_def if_distrib cong: if_cong)
  then show "projects_ok (update_rows i f db) = projects_ok db" by (simp add: projects_ok_def) (simp add: update_rows_def)
  show "pd_keys (update_rows i f db) = pd_keys db" by (simp add: update_rows_def)
qed

text \<open>What every operation of the store does to the keys: the owners of the keys only grow, by fresh hashes, and a revoked key stays revoked.\<close>

definition keys_evolve :: "projects_db \<Rightarrow> projects_db \<Rightarrow> bool" where
  "keys_evolve db db' \<longleftrightarrow> (\<exists>new. key_owners db' = key_owners db @ new) \<and> (projects_ok db \<longrightarrow> projects_ok db') \<and>
     active_hashes db' \<inter> fst ` set (key_owners db) \<subseteq> active_hashes db"

lemma keys_evolve_refl: "keys_evolve db db"
  by (simp add: keys_evolve_def)

lemma keys_evolve_same: "pd_keys db' = pd_keys db \<Longrightarrow> (projects_ok db \<Longrightarrow> projects_ok db') \<Longrightarrow> keys_evolve db db'"
  by (simp add: keys_evolve_def key_owners_def active_hashes_def)

lemma keys_evolve_trans: "keys_evolve db db1 \<Longrightarrow> keys_evolve db1 db2 \<Longrightarrow> keys_evolve db db2"
  by (fastforce simp: keys_evolve_def)

lemma insert_key_evolves:
  assumes "insert_key r db = Inr db'"
  shows "keys_evolve db db'"
proof -
  have new: "pd_keys db' = pd_keys db @ [r]" "kr_key_hash r \<notin> kr_key_hash ` set (pd_keys db)" using assms by (auto simp: insert_key_def split: if_splits)
  then have "active_hashes db' \<inter> fst ` set (key_owners db) \<subseteq> active_hashes db"
    by (auto simp: active_hashes_def key_owners_def image_iff)
  then show ?thesis using new insert_key_ok [OF assms] by (simp add: keys_evolve_def key_owners_def)
qed

lemma create_project_evolves: "keys_evolve db (snd (createProject name slug i now db))"
  by (auto simp: createProject_def Let_def keys_evolve_refl insert_project_keys insert_project_ok intro: keys_evolve_same split: sum.split)

lemma update_project_evolves: "keys_evolve db (snd (updateProject i name capture db))"
proof -
  have rows: "keys_evolve db' (update_rows i (\<lambda>r. r\<lparr>pj_name := n\<rparr>) db')" "keys_evolve db' (update_rows i (\<lambda>r. r\<lparr>pj_payload_capture_enabled := v\<rparr>) db')"
    for n v db' by (intro keys_evolve_same; simp add: update_rows_ok)+
  show ?thesis
    using rows keys_evolve_refl keys_evolve_trans [OF rows(1) rows(2)]
    by (simp add: updateProject_def Let_def split: option.split prod.split)
qed

lemma create_key_evolves: "keys_evolve db (snd (createKey sha p name i secret now db))"
  by (auto simp: createKey_def Let_def keys_evolve_refl intro: insert_key_evolves split: option.split sum.split)

lemma revoke_key_evolves: "keys_evolve db (snd (revokeKey k now db))"
proof -
  let ?f = "\<lambda>r. if kr_id r = k \<and> kr_revoked_at r = None then r\<lparr>kr_revoked_at := Some now\<rparr> else r"
  have same: "map kr_id (map ?f rs) = map kr_id rs" "map kr_key_hash (map ?f rs) = map kr_key_hash rs"
    "map (\<lambda>r. (kr_key_hash r, kr_project_id r)) (map ?f rs) = map (\<lambda>r. (kr_key_hash r, kr_project_id r)) rs" for rs
    by (induction rs) auto
  have keys: "pd_keys (snd (revokeKey k now db)) = map ?f (pd_keys db)" "pd_projects (snd (revokeKey k now db)) = pd_projects db"
    by (simp_all add: revokeKey_def)
  have "active_hashes (snd (revokeKey k now db)) \<subseteq> active_hashes db"
    by (auto simp: active_hashes_def keys split: if_splits)
  moreover have "key_owners (snd (revokeKey k now db)) = key_owners db" unfolding key_owners_def keys by (rule same(3))
  moreover have "projects_ok (snd (revokeKey k now db)) = projects_ok db" unfolding projects_ok_def keys same ..
  ultimately show ?thesis by (auto simp: keys_evolve_def)
qed

lemma bootstrap_evolves: "keys_evolve db (snd (bootstrapEnvKey sha plaintext i now db))"
proof -
  have "keys_evolve db (ensureDefaultProject now db)" by (intro keys_evolve_same ensure_default_ok)
  then show ?thesis
    using keys_evolve_trans insert_key_evolves
    by (simp add: bootstrapEnvKey_def Let_def keys_evolve_refl split: sum.split)
qed

datatype store_op =
    CreateProject string string string string
  | UpdateProject string "string option" "bool option"
  | EnsureDefault string
  | CreateKey string string string string string
  | RevokeKey string string
  | BootstrapKey string string string

fun store_step :: "(string \<Rightarrow> string) \<Rightarrow> store_op \<Rightarrow> projects_db \<Rightarrow> projects_db" where
  "store_step sha (CreateProject name slug i now) db = snd (createProject name slug i now db)"
| "store_step sha (UpdateProject i name capture) db = snd (updateProject i name capture db)"
| "store_step sha (EnsureDefault now) db = ensureDefaultProject now db"
| "store_step sha (CreateKey p name i secret now) db = snd (createKey sha p name i secret now db)"
| "store_step sha (RevokeKey k now) db = snd (revokeKey k now db)"
| "store_step sha (BootstrapKey plaintext i now) db = snd (bootstrapEnvKey sha plaintext i now db)"

lemma store_evolves: "keys_evolve db (store_step sha op db)"
  by (cases op) (simp_all add: create_project_evolves update_project_evolves create_key_evolves revoke_key_evolves bootstrap_evolves
    keys_evolve_same ensure_default_ok)

lemma find_hash:
  assumes "findByKeyHash h db = Some (p, k)"
  shows "(h, p) \<in> set (key_owners db)" "h \<in> active_hashes db"
  using assms by (auto simp: findByKeyHash_def find_Some_iff key_owners_def active_hashes_def image_iff dest: nth_mem)

lemma find_none: "findByKeyHash h db = None \<longleftrightarrow> h \<notin> active_hashes db"
  by (auto simp: findByKeyHash_def find_None_iff active_hashes_def)

lemma owners_unique: "projects_ok db \<Longrightarrow> (h, p) \<in> set (key_owners db) \<Longrightarrow> (h, q) \<in> set (key_owners db) \<Longrightarrow> p = q"
proof -
  assume "projects_ok db" and p: "(h, p) \<in> set (key_owners db)" and q: "(h, q) \<in> set (key_owners db)"
  then have "distinct (map fst (key_owners db))" by (simp add: projects_ok_def key_owners_def comp_def)
  then show "p = q" using p q by (meson eq_key_imp_eq_value)
qed

end
