(* ===== verification/Ingest_Auth.thy ===== *)
theory Ingest_Auth
  imports Projects_Store Collector_Runtime
begin

text \<open>
  The middleware of the ingest paths, \<^verbatim>\<open>packages/obs-collector/src/auth/ingest-auth.ts\<close>: API keys, the cache of looked-up keys and the
  bootstrap of the key in the environment, statement by statement.  A handler runs up to its next \<^verbatim>\<open>await\<close> in one step; between the steps of a request the clock, the
  project store and other requests move on.  Shown over every interleaving: a request is only ever admitted to the project its key was made for,
  a revoked key is refused one minute later, the cache stays bounded, and a valid key is admitted.
\<close>

section \<open>The cache of keys\<close>

definition CACHE_TTL_MS :: nat where "CACHE_TTL_MS = 60000"
definition CACHE_MAX_ENTRIES :: nat where "CACHE_MAX_ENTRIES = 500"

record cache_entry =
  ce_projectId :: string
  ce_expiresAt :: nat

type_synonym key_cache = "(string, cache_entry) js_map"

definition pruneKeyCache :: "key_cache \<Rightarrow> nat \<Rightarrow> key_cache" where
  "pruneKeyCache cache now = filter (\<lambda>(h, e). \<not> ce_expiresAt e \<le> now) cache"

definition getCached :: "key_cache \<Rightarrow> string \<Rightarrow> nat \<Rightarrow> string option \<times> key_cache" where
  "getCached cache hash now =
     (let c = pruneKeyCache cache now in
      case map_get c hash of None \<Rightarrow> (None, c)
      | Some entry \<Rightarrow> if ce_expiresAt entry \<le> now then (None, map_delete c hash) else (Some (ce_projectId entry), c))"

text \<open>The oldest entries are dropped while the cache is full; an empty key would end the loop.\<close>

fun evict_oldest :: "key_cache \<Rightarrow> key_cache" where
  "evict_oldest [] = []"
| "evict_oldest ((h, e) # c) = (if CACHE_MAX_ENTRIES \<le> length ((h, e) # c) \<and> h \<noteq> [] then evict_oldest c else (h, e) # c)"

definition setCached :: "key_cache \<Rightarrow> string \<Rightarrow> string \<Rightarrow> nat \<Rightarrow> key_cache" where
  "setCached cache hash projectId now =
     map_set (evict_oldest (pruneKeyCache cache now)) hash \<lparr>ce_projectId = projectId, ce_expiresAt = now + CACHE_TTL_MS\<rparr>"

section \<open>The middleware\<close>

record ingest_request =
  ir_authorization :: "string option"
  ir_apiKey :: "string option"

record ingest_env =
  ie_INGEST_KEY :: "string option"
  ie_TELEMETRY_INGEST_TOKEN :: "string option"
  ie_ALLOW_UNAUTHENTICATED :: "string option"

definition strip_bearer :: "string \<Rightarrow> string" where
  "strip_bearer s =
     (let r = drop 6 s in if toLowerCase (take 6 s) = ''bearer'' \<and> r \<noteq> [] \<and> is_space (hd r) then dropWhile is_space r else s)"

definition ingest_token :: "ingest_request \<Rightarrow> string option" where
  "ingest_token r =
     (case nonempty_text (map_option strip_bearer (ir_authorization r)) of Some t \<Rightarrow> Some t | None \<Rightarrow> nonempty_text (ir_apiKey r))"

text \<open>Where a request waits: in the bootstrap of the environment's key, for the digest, for the store, and with the store's answer.  The bootstrap makes the
  default project, selects the key by its digest and inserts it if it is not there; at its end it has succeeded or thrown.\<close>

datatype boot_stage = Ensuring | Selecting | Inserting | Ended bool

datatype flight = Booting ingest_request string boot_stage | Hashing string nat | Looking string nat | Matched string nat string

datatype ingest_answer = Admitted string | Unauthorized | Failed

record auth_state =
  au_db :: projects_db
  au_cache :: key_cache
  au_bootstrapDone :: bool
  au_flights :: "nat \<Rightarrow> flight option"
  au_clock :: nat

text \<open>What does not change: the configuration, the environment and the digest.\<close>

record ingest_setup =
  is_allowUnauthenticated :: bool
  is_env :: ingest_env
  is_sha :: "string \<Rightarrow> string"

definition env_key :: "ingest_env \<Rightarrow> string option" where
  "env_key env = (case nonempty_text (ie_INGEST_KEY env) of Some k \<Rightarrow> Some k | None \<Rightarrow> nonempty_text (ie_TELEMETRY_INGEST_TOKEN env))"

definition unauthenticated_ok :: "ingest_setup \<Rightarrow> bool" where
  "unauthenticated_ok c \<longleftrightarrow> is_allowUnauthenticated c \<or> ie_ALLOW_UNAUTHENTICATED (is_env c) = Some ''true''"

text \<open>An answer is logged with the request, the digest of its key, if any, and the time it read.\<close>

type_synonym answer_log = "(nat \<times> string option \<times> nat \<times> ingest_answer) list"

definition set_flight :: "nat \<Rightarrow> flight option \<Rightarrow> auth_state \<Rightarrow> auth_state" where
  "set_flight n f s = s\<lparr>au_flights := (au_flights s)(n := f)\<rparr>"

definition ingest_proceed :: "ingest_setup \<Rightarrow> nat \<Rightarrow> ingest_request \<Rightarrow> auth_state \<Rightarrow> answer_log \<times> auth_state" where
  "ingest_proceed c n r s =
     (case ingest_token r of
        None \<Rightarrow> ([(n, None, au_clock s, if unauthenticated_ok c then Admitted ''default'' else Unauthorized)], set_flight n None s)
      | Some token \<Rightarrow> ([], set_flight n (Some (Hashing (is_sha c token) (au_clock s))) s))"

definition ingest_begin :: "ingest_setup \<Rightarrow> nat \<Rightarrow> ingest_request \<Rightarrow> auth_state \<Rightarrow> answer_log \<times> auth_state" where
  "ingest_begin c n r s =
     (if au_bootstrapDone s then ingest_proceed c n r s
      else (case env_key (is_env c) of
          None \<Rightarrow> ingest_proceed c n r (s\<lparr>au_bootstrapDone := True\<rparr>)
        | Some legacy \<Rightarrow> ([], set_flight n (Some (Booting r legacy Ensuring)) s)))"

text \<open>One statement of the bootstrap, or what follows its end; \<open>up\<close>: the store answers.  A failure is logged, the request goes on, and a later
  request tries again.\<close>

definition bootstrap_row :: "ingest_setup \<Rightarrow> string \<Rightarrow> string \<Rightarrow> string \<Rightarrow> key_row" where
  "bootstrap_row c legacy randomId now =
     \<lparr>kr_id = randomId, kr_project_id = ''default'', kr_key_hash = is_sha c legacy, kr_key_prefix = take (min 16 (length legacy)) legacy,
      kr_name = ''bootstrap'', kr_created_at = now, kr_revoked_at = None\<rparr>"

definition bootstrap_statement :: "ingest_setup \<Rightarrow> string \<Rightarrow> bool \<Rightarrow> string \<Rightarrow> string \<Rightarrow> boot_stage \<Rightarrow> projects_db \<Rightarrow> boot_stage \<times> projects_db" where
  "bootstrap_statement c legacy up randomId now stage db =
     (if \<not> up then (Ended False, db)
      else (case stage of
          Ensuring \<Rightarrow> (Selecting, ensureDefaultProject now db)
        | Selecting \<Rightarrow> (if list_ex (\<lambda>k. kr_key_hash k = is_sha c legacy) (pd_keys db) then Ended True else Inserting, db)
        | Inserting \<Rightarrow> (case insert_key (bootstrap_row c legacy randomId now) db of Inl e \<Rightarrow> (Ended False, db) | Inr db' \<Rightarrow> (Ended True, db'))
        | Ended ok \<Rightarrow> (Ended ok, db)))"

definition bootstrap_step :: "ingest_setup \<Rightarrow> nat \<Rightarrow> bool \<Rightarrow> string \<Rightarrow> string \<Rightarrow> auth_state \<Rightarrow> answer_log \<times> auth_state" where
  "bootstrap_step c n up randomId now s =
     (case au_flights s n of
        Some (Booting r legacy (Ended ok)) \<Rightarrow> ingest_proceed c n r (s\<lparr>au_bootstrapDone := au_bootstrapDone s \<or> ok\<rparr>)
      | Some (Booting r legacy stage) \<Rightarrow>
          (let (stage', db) = bootstrap_statement c legacy up randomId now stage (au_db s)
           in ([], set_flight n (Some (Booting r legacy stage')) (s\<lparr>au_db := db\<rparr>)))
      | _ \<Rightarrow> ([], s))"

definition ingest_check :: "nat \<Rightarrow> auth_state \<Rightarrow> answer_log \<times> auth_state" where
  "ingest_check n s =
     (case au_flights s n of
        Some (Hashing hash now) \<Rightarrow>
          (let (cached, cache) = getCached (au_cache s) hash now; s1 = s\<lparr>au_cache := cache\<rparr> in
           case nonempty_text cached of
             Some p \<Rightarrow> ([(n, Some hash, now, Admitted p)], set_flight n None s1)
           | None \<Rightarrow> ([], set_flight n (Some (Looking hash now)) s1))
      | _ \<Rightarrow> ([], s))"

definition ingest_lookup :: "nat \<Rightarrow> bool \<Rightarrow> auth_state \<Rightarrow> answer_log \<times> auth_state" where
  "ingest_lookup n up s =
     (case au_flights s n of
        Some (Looking hash now) \<Rightarrow>
          (if \<not> up then ([(n, Some hash, now, Failed)], set_flight n None s)
           else (case findByKeyHash hash (au_db s) of
               None \<Rightarrow> ([(n, Some hash, now, Unauthorized)], set_flight n None s)
             | Some (p, k) \<Rightarrow> ([], set_flight n (Some (Matched hash now p)) s)))
      | _ \<Rightarrow> ([], s))"

definition ingest_finish :: "nat \<Rightarrow> auth_state \<Rightarrow> answer_log \<times> auth_state" where
  "ingest_finish n s =
     (case au_flights s n of
        Some (Matched hash now p) \<Rightarrow> ([(n, Some hash, now, Admitted p)], set_flight n None (s\<lparr>au_cache := setCached (au_cache s) hash p now\<rparr>))
      | _ \<Rightarrow> ([], s))"

text \<open>A request arrives, goes on after each of its waits; time passes; the store is used by others.\<close>

datatype auth_event =
    Arrive nat ingest_request
  | Boot nat bool string string
  | Hashed nat
  | Looked nat bool
  | Finish nat
  | Pass_time nat
  | Store store_op

fun auth_step :: "ingest_setup \<Rightarrow> auth_event \<Rightarrow> auth_state \<Rightarrow> answer_log \<times> auth_state" where
  "auth_step c (Arrive n r) s = ingest_begin c n r s"
| "auth_step c (Boot n up i t) s = bootstrap_step c n up i t s"
| "auth_step c (Hashed n) s = ingest_check n s"
| "auth_step c (Looked n up) s = ingest_lookup n up s"
| "auth_step c (Finish n) s = ingest_finish n s"
| "auth_step c (Pass_time d) s = ([], s\<lparr>au_clock := au_clock s + d\<rparr>)"
| "auth_step c (Store op) s = ([], s\<lparr>au_db := store_step (is_sha c) op (au_db s)\<rparr>)"

fun auth_run :: "ingest_setup \<Rightarrow> auth_event list \<Rightarrow> auth_state \<Rightarrow> answer_log \<times> auth_state" where
  "auth_run c [] s = ([], s)"
| "auth_run c (e # es) s = (let (l, s1) = auth_step c e s; (l', s2) = auth_run c es s1 in (l @ l', s2))"

definition fresh_auth :: "projects_db \<Rightarrow> nat \<Rightarrow> auth_state" where
  "fresh_auth db clock = \<lparr>au_db = db, au_cache = [], au_bootstrapDone = False, au_flights = (\<lambda>_. None), au_clock = clock\<rparr>"

section \<open>The cache is bounded and truthful\<close>

lemma prune_subset: "set (pruneKeyCache cache now) \<subseteq> set cache"
  by (auto simp: pruneKeyCache_def)

lemma evict_subset: "set (evict_oldest c) \<subseteq> set c"
  by (induction c rule: evict_oldest.induct) auto

lemma evict_small: "list_all (\<lambda>(h, e). h \<noteq> []) c \<Longrightarrow> length (evict_oldest c) < CACHE_MAX_ENTRIES"
  by (induction c rule: evict_oldest.induct) (auto simp: CACHE_MAX_ENTRIES_def)

lemma wf_subseq: "map_wf c \<Longrightarrow> map_wf (pruneKeyCache c now)" "map_wf c \<Longrightarrow> map_wf (evict_oldest c)"
proof -
  show "map_wf c \<Longrightarrow> map_wf (pruneKeyCache c now)" by (induction c) (auto simp: map_wf_def pruneKeyCache_def)
  show "map_wf c \<Longrightarrow> map_wf (evict_oldest c)" by (induction c rule: evict_oldest.induct) (auto simp: map_wf_def)
qed

lemma length_map_set: "length (map_set m k v) \<le> Suc (length m)"
  by (induction m) auto

lemma set_cached_subset:
  "set (setCached c h p now) \<subseteq> insert (h, \<lparr>ce_projectId = p, ce_expiresAt = now + CACHE_TTL_MS\<rparr>) (set c)"
  using set_map_set [of "evict_oldest (pruneKeyCache c now)"] evict_subset prune_subset unfolding setCached_def by blast

lemma get_cached:
  "set (snd (getCached c h now)) \<subseteq> set c" "map_wf c \<Longrightarrow> map_wf (snd (getCached c h now))"
  "fst (getCached c h now) = Some p \<Longrightarrow> \<exists>e. (h, e) \<in> set c \<and> ce_projectId e = p \<and> now < ce_expiresAt e"
proof -
  have del: "set (map_delete m h) \<subseteq> set m" for m :: key_cache by (auto simp: map_delete_def)
  show "set (snd (getCached c h now)) \<subseteq> set c"
    using prune_subset [of c now] del [of "pruneKeyCache c now"] by (auto simp: getCached_def Let_def split: option.split)
  show "map_wf c \<Longrightarrow> map_wf (snd (getCached c h now))"
    by (auto simp: getCached_def Let_def wf_subseq map_wf_delete split: option.split)
  show "fst (getCached c h now) = Some p \<Longrightarrow> \<exists>e. (h, e) \<in> set c \<and> ce_projectId e = p \<and> now < ce_expiresAt e"
    using prune_subset [of c now] by (auto simp: getCached_def Let_def dest!: map_get_in split: option.splits if_splits)
qed

definition flight_ok :: "projects_db \<Rightarrow> nat \<Rightarrow> flight \<Rightarrow> bool" where
  "flight_ok db clock f \<longleftrightarrow> (case f of Booting r k st \<Rightarrow> True | Hashing h t \<Rightarrow> h \<noteq> [] \<and> t \<le> clock | Looking h t \<Rightarrow> h \<noteq> [] \<and> t \<le> clock
     | Matched h t p \<Rightarrow> h \<noteq> [] \<and> t \<le> clock \<and> (h, p) \<in> set (key_owners db))"

definition entry_ok :: "projects_db \<Rightarrow> nat \<Rightarrow> string \<times> cache_entry \<Rightarrow> bool" where
  "entry_ok db clock he \<longleftrightarrow> fst he \<noteq> [] \<and> (fst he, ce_projectId (snd he)) \<in> set (key_owners db) \<and> ce_expiresAt (snd he) \<le> clock + CACHE_TTL_MS"

definition auth_ok :: "auth_state \<Rightarrow> bool" where
  "auth_ok s \<longleftrightarrow> projects_ok (au_db s) \<and> map_wf (au_cache s) \<and> length (au_cache s) \<le> CACHE_MAX_ENTRIES \<and>
     (\<forall>he \<in> set (au_cache s). entry_ok (au_db s) (au_clock s) he) \<and> (\<forall>n f. au_flights s n = Some f \<longrightarrow> flight_ok (au_db s) (au_clock s) f)"

lemma auth_mono:
  assumes "keys_evolve db db'" and "clock \<le> clock'"
  shows "entry_ok db clock he \<Longrightarrow> entry_ok db' clock' he" "flight_ok db clock f \<Longrightarrow> flight_ok db' clock' f"
proof -
  have "set (key_owners db) \<subseteq> set (key_owners db')" using assms(1) by (auto simp: keys_evolve_def)
  then show "entry_ok db clock he \<Longrightarrow> entry_ok db' clock' he" "flight_ok db clock f \<Longrightarrow> flight_ok db' clock' f"
    using assms(2) by (auto simp: entry_ok_def flight_ok_def split: flight.splits)
qed

lemma auth_evolves:
  assumes "auth_ok s" and "keys_evolve (au_db s) db" and "au_clock s \<le> clock"
  shows "auth_ok (s\<lparr>au_db := db, au_clock := clock\<rparr>)"
  using assms auth_mono [OF assms(2, 3)] unfolding auth_ok_def by (simp add: keys_evolve_def)

text \<open>What a step of the bootstrap does to the tables; run to its end without interruption it is \<^verbatim>\<open>bootstrapEnvKey\<close>.\<close>

lemma statement_evolves:
  assumes "bootstrap_statement c legacy up i t stage db = (stage', db')"
  shows "keys_evolve db db'" "active_hashes db \<subseteq> active_hashes db'"
proof -
  show "keys_evolve db db'"
    using assms by (auto simp: bootstrap_statement_def keys_evolve_refl keys_evolve_same ensure_default_ok
        split: if_splits boot_stage.splits sum.splits dest: insert_key_evolves)
  have "active_hashes d \<subseteq> active_hashes d'" if "insert_key r d = Inr d'" for r d d'
    using that by (auto simp: insert_key_def active_hashes_def split: if_splits)
  moreover have "active_hashes (ensureDefaultProject now d) = active_hashes d" for now d by (simp add: active_hashes_def ensure_default_ok)
  ultimately show "active_hashes db \<subseteq> active_hashes db'"
    using assms by (fastforce simp: bootstrap_statement_def split: if_splits boot_stage.splits sum.splits)
qed

lemma boot_cases:
  obtains (going) r legacy ok where "au_flights s n = Some (Booting r legacy (Ended ok))"
      "bootstrap_step c n up i t s = ingest_proceed c n r (s\<lparr>au_bootstrapDone := au_bootstrapDone s \<or> ok\<rparr>)"
    | (waits) r legacy stage stage' db where "au_flights s n = Some (Booting r legacy stage)"
      "bootstrap_statement c legacy up i t stage (au_db s) = (stage', db)" "\<forall>ok. stage \<noteq> Ended ok"
      "bootstrap_step c n up i t s = ([], set_flight n (Some (Booting r legacy stage')) (s\<lparr>au_db := db\<rparr>))"
    | (other) "\<forall>r legacy stage. au_flights s n \<noteq> Some (Booting r legacy stage)" "bootstrap_step c n up i t s = ([], s)"
proof (cases "\<exists>r legacy stage. au_flights s n = Some (Booting r legacy stage)")
  case True
  then obtain r legacy stage where f: "au_flights s n = Some (Booting r legacy stage)" by blast
  obtain stage' db where b: "bootstrap_statement c legacy up i t stage (au_db s) = (stage', db)"
    by (cases "bootstrap_statement c legacy up i t stage (au_db s)")
  show thesis
  proof (cases "\<exists>ok. stage = Ended ok")
    case True
    then show thesis using going f by (auto simp: bootstrap_step_def)
  next
    case False
    then have "bootstrap_step c n up i t s = ([], set_flight n (Some (Booting r legacy stage')) (s\<lparr>au_db := db\<rparr>))"
      using b by (cases stage) (simp_all add: bootstrap_step_def f)
    then show thesis using waits [OF f b] False by blast
  qed
next
  case False
  then have "bootstrap_step c n up i t s = ([], s)" by (auto simp: bootstrap_step_def split: option.split flight.split)
  then show thesis using other False by blast
qed

lemma proceed_frame [simp]: "au_db (snd (ingest_proceed c n r s)) = au_db s" "au_clock (snd (ingest_proceed c n r s)) = au_clock s"
  by (simp_all add: ingest_proceed_def set_flight_def split: option.split)

lemma boot_evolves:
  "keys_evolve (au_db s) (au_db (snd (bootstrap_step c n up i t s)))" "active_hashes (au_db s) \<subseteq> active_hashes (au_db (snd (bootstrap_step c n up i t s)))"
  by (rule boot_cases [of s n c up i t]; simp add: keys_evolve_refl set_flight_def statement_evolves)+

lemma boot_alone:
  assumes "au_flights s n = Some (Booting r legacy Ensuring)" and "legacy \<noteq> []"
    and "auth_run c [Boot n True i t, Boot n True i t, Boot n True i t] s = (l, s')" and "\<not> list_ex (\<lambda>k. kr_key_hash k = is_sha c legacy) (pd_keys (au_db s))"
  shows "au_db s' = snd (bootstrapEnvKey (is_sha c) legacy i t (au_db s))"
  using assms by (auto simp: bootstrap_step_def bootstrap_statement_def set_flight_def bootstrapEnvKey_def bootstrap_row_def ensure_default_ok Let_def split: sum.splits)

lemma auth_ok_cong:
  "au_db s' = au_db s \<Longrightarrow> au_clock s' = au_clock s \<Longrightarrow> au_cache s' = au_cache s \<Longrightarrow> au_flights s' = au_flights s \<Longrightarrow> auth_ok s' = auth_ok s"
  by (simp add: auth_ok_def)

lemma flight_step: "auth_ok s \<Longrightarrow> (\<And>g. f = Some g \<Longrightarrow> flight_ok (au_db s) (au_clock s) g) \<Longrightarrow> auth_ok (set_flight n f s)"
  by (auto simp: auth_ok_def set_flight_def)

lemma cache_step:
  "auth_ok s \<Longrightarrow> map_wf cache \<Longrightarrow> length cache \<le> CACHE_MAX_ENTRIES \<Longrightarrow> (\<And>he. he \<in> set cache \<Longrightarrow> entry_ok (au_db s) (au_clock s) he) \<Longrightarrow>
     auth_ok (s\<lparr>au_cache := cache\<rparr>)"
  by (auto simp: auth_ok_def)

lemma length_get_cached: "length (snd (getCached c h now)) \<le> length c"
proof -
  have "length (pruneKeyCache c now) \<le> length c" "length (map_delete m h) \<le> length m" for m :: key_cache
    by (simp_all add: pruneKeyCache_def map_delete_def)
  from this(1) this(2) [of "pruneKeyCache c now"] show ?thesis by (auto simp: getCached_def Let_def split: option.split)
qed

section \<open>Every step keeps the invariant\<close>

definition granted :: "ingest_setup \<Rightarrow> projects_db \<Rightarrow> nat \<times> string option \<times> nat \<times> ingest_answer \<Rightarrow> bool" where
  "granted c db entry \<longleftrightarrow> (case entry of (n, hash, t, answer) \<Rightarrow> (case answer of
       Admitted p \<Rightarrow> (case hash of Some h \<Rightarrow> (h, p) \<in> set (key_owners db) | None \<Rightarrow> p = ''default'' \<and> unauthenticated_ok c)
     | _ \<Rightarrow> True))"

definition step_ok :: "ingest_setup \<Rightarrow> auth_state \<Rightarrow> answer_log \<times> auth_state \<Rightarrow> bool" where
  "step_ok c s out \<longleftrightarrow> auth_ok (snd out) \<and> keys_evolve (au_db s) (au_db (snd out)) \<and> au_clock s \<le> au_clock (snd out) \<and>
     list_all (granted c (au_db (snd out))) (fst out)"

lemma flight_frame: "au_db (set_flight n f s) = au_db s" "au_clock (set_flight n f s) = au_clock s" "au_cache (set_flight n f s) = au_cache s"
  by (simp_all add: set_flight_def)

lemma flight_known: "auth_ok s \<Longrightarrow> au_flights s n = Some f \<Longrightarrow> flight_ok (au_db s) (au_clock s) f"
  by (simp add: auth_ok_def)

lemma proceed_ok: "auth_ok s \<Longrightarrow> (\<And>t. is_sha c t \<noteq> []) \<Longrightarrow> step_ok c s (ingest_proceed c n r s)"
proof -
  assume ok: "auth_ok s" and sha: "\<And>t. is_sha c t \<noteq> []"
  have "auth_ok (set_flight n (Some (Hashing (is_sha c token) (au_clock s))) s)" for token
    using sha by (intro flight_step [OF ok]) (auto simp: flight_ok_def)
  moreover have "auth_ok (set_flight n None s)" by (rule flight_step [OF ok]) simp
  ultimately show ?thesis
    by (auto simp: ingest_proceed_def step_ok_def granted_def flight_frame keys_evolve_refl split: option.split)
qed

lemma done_ok: "auth_ok (s\<lparr>au_bootstrapDone := b\<rparr>) = auth_ok s" "step_ok c (s\<lparr>au_bootstrapDone := b\<rparr>) out = step_ok c s out"
  by (simp_all add: auth_ok_def step_ok_def)

lemma begin_ok: "auth_ok s \<Longrightarrow> (\<And>t. is_sha c t \<noteq> []) \<Longrightarrow> step_ok c s (ingest_begin c n r s)"
proof -
  assume ok: "auth_ok s" and sha: "\<And>t. is_sha c t \<noteq> []"
  have "auth_ok (set_flight n (Some (Booting r legacy Ensuring)) s)" for legacy by (rule flight_step [OF ok]) (simp add: flight_ok_def)
  moreover have "step_ok c s (ingest_proceed c n r (s\<lparr>au_bootstrapDone := True\<rparr>))"
    using proceed_ok [of "s\<lparr>au_bootstrapDone := True\<rparr>" c n r] ok sha by (simp add: done_ok)
  ultimately show ?thesis
    using proceed_ok [OF ok sha] by (auto simp: ingest_begin_def step_ok_def [of _ _ "([], _)"] flight_frame keys_evolve_refl split: option.split)
qed

lemma boot_ok: "auth_ok s \<Longrightarrow> (\<And>t. is_sha c t \<noteq> []) \<Longrightarrow> step_ok c s (bootstrap_step c n up i t s)"
proof -
  assume ok: "auth_ok s" and sha: "\<And>t. is_sha c t \<noteq> []"
  show ?thesis
  proof (cases rule: boot_cases [of s n c up i t])
    case (going r legacy ok')
    then show ?thesis using proceed_ok [of "s\<lparr>au_bootstrapDone := au_bootstrapDone s \<or> ok'\<rparr>" c n r] ok sha by (simp add: done_ok)
  next
    case (waits r legacy stage stage' db)
    have ev: "keys_evolve (au_db s) db" by (rule statement_evolves(1) [OF waits(2)])
    have "auth_ok (s\<lparr>au_db := db, au_clock := au_clock s\<rparr>)" by (rule auth_evolves [OF ok ev]) simp
    then have "auth_ok (s\<lparr>au_db := db\<rparr>)" by (simp add: auth_ok_def)
    then have "auth_ok (set_flight n (Some (Booting r legacy stage')) (s\<lparr>au_db := db\<rparr>))" by (rule flight_step) (simp add: flight_ok_def)
    then show ?thesis using ev by (simp add: waits step_ok_def flight_frame)
  next
    case other
    then show ?thesis using ok by (simp add: step_ok_def keys_evolve_refl)
  qed
qed

lemma check_ok: "auth_ok s \<Longrightarrow> step_ok c s (ingest_check n s)"
proof -
  assume ok: "auth_ok s"
  show ?thesis
  proof (cases "au_flights s n")
    case (Some f)
    show ?thesis
    proof (cases f)
      case (Hashing h t)
      have f: "flight_ok (au_db s) (au_clock s) (Hashing h t)" using flight_known [OF ok Some] Hashing by simp
      obtain cached cache where g: "getCached (au_cache s) h t = (cached, cache)" by (cases "getCached (au_cache s) h t")
      have sub: "set cache \<subseteq> set (au_cache s)" "length cache \<le> length (au_cache s)" "map_wf (au_cache s) \<Longrightarrow> map_wf cache"
        using get_cached(1,2) [of "au_cache s" h t] length_get_cached [of "au_cache s" h t] by (simp_all add: g)
      let ?s = "s\<lparr>au_cache := cache\<rparr>"
      have s1: "auth_ok ?s" using ok sub by (intro cache_step) (auto simp: auth_ok_def)
      have keep: "au_db ?s = au_db s" "au_clock ?s = au_clock s" by simp_all
      have "(h, p) \<in> set (key_owners (au_db s))" if p: "nonempty_text cached = Some p" for p
      proof -
        have "fst (getCached (au_cache s) h t) = Some p" using p by (auto simp: g nonempty_text_def split: option.splits if_splits)
        from get_cached(3) [OF this] show ?thesis using ok by (fastforce simp: auth_ok_def entry_ok_def)
      qed
      moreover have "auth_ok (set_flight n None ?s)" by (rule flight_step [OF s1]) simp
      moreover have "auth_ok (set_flight n (Some (Looking h t)) ?s)" using f by (intro flight_step [OF s1]) (auto simp: flight_ok_def)
      ultimately show ?thesis
        using Some Hashing keys_evolve_refl
        by (auto simp: ingest_check_def g Let_def step_ok_def granted_def flight_frame keep split: option.split)
    qed (use ok Some keys_evolve_refl in \<open>simp_all add: ingest_check_def step_ok_def\<close>)
  qed (use ok keys_evolve_refl in \<open>simp add: ingest_check_def step_ok_def\<close>)
qed

lemma lookup_ok: "auth_ok s \<Longrightarrow> step_ok c s (ingest_lookup n up s)"
proof -
  assume ok: "auth_ok s"
  have none: "auth_ok (set_flight n None s)" by (rule flight_step [OF ok]) simp
  have "auth_ok (set_flight n (Some (Matched h t p)) s)" if "au_flights s n = Some (Looking h t)" "findByKeyHash h (au_db s) = Some (p, k)" for h t p k
    using flight_known [OF ok that(1)] find_hash(1) [OF that(2)] by (intro flight_step [OF ok]) (auto simp: flight_ok_def)
  then show ?thesis
    using ok none keys_evolve_refl by (auto simp: ingest_lookup_def step_ok_def granted_def flight_frame split: option.split flight.split)
qed

lemma finish_ok: "auth_ok s \<Longrightarrow> step_ok c s (ingest_finish n s)"
proof -
  assume ok: "auth_ok s"
  have "auth_ok (set_flight n None (s\<lparr>au_cache := setCached (au_cache s) h p t\<rparr>)) \<and> (h, p) \<in> set (key_owners (au_db s))"
    if f: "au_flights s n = Some (Matched h t p)" for h t p
  proof -
    have fl: "h \<noteq> []" "t \<le> au_clock s" "(h, p) \<in> set (key_owners (au_db s))" using flight_known [OF ok f] by (simp_all add: flight_ok_def)
    have "list_all (\<lambda>(h, e). h \<noteq> []) (pruneKeyCache (au_cache s) t)"
      using ok prune_subset [of "au_cache s" t] by (fastforce simp: auth_ok_def entry_ok_def list_all_iff)
    from evict_small [OF this] have "length (setCached (au_cache s) h p t) \<le> CACHE_MAX_ENTRIES"
      unfolding setCached_def by (rule order_trans [OF length_map_set Suc_leI])
    moreover have "map_wf (setCached (au_cache s) h p t)" using ok by (auto simp: setCached_def auth_ok_def intro: map_wf_set wf_subseq)
    moreover have "entry_ok (au_db s) (au_clock s) he" if "he \<in> set (setCached (au_cache s) h p t)" for he
      using subsetD [OF set_cached_subset that] ok fl by (auto simp: auth_ok_def entry_ok_def)
    ultimately have "auth_ok (s\<lparr>au_cache := setCached (au_cache s) h p t\<rparr>)" by (intro cache_step [OF ok])
    from flight_step [OF this, of None n] show ?thesis using fl(3) by simp
  qed
  then show ?thesis
    using ok keys_evolve_refl by (auto simp: ingest_finish_def step_ok_def granted_def flight_frame split: option.split flight.split)
qed

lemma auth_step_ok: "auth_ok s \<Longrightarrow> (\<And>t. is_sha c t \<noteq> []) \<Longrightarrow> step_ok c s (auth_step c e s)"
proof (cases e)
  case (Pass_time d)
  assume "auth_ok s"
  then have "auth_ok (s\<lparr>au_db := au_db s, au_clock := au_clock s + d\<rparr>)" by (intro auth_evolves keys_evolve_refl) simp_all
  then show ?thesis using Pass_time keys_evolve_refl by (simp add: step_ok_def)
next
  case (Store op)
  assume ok: "auth_ok s"
  have "auth_ok (s\<lparr>au_db := store_step (is_sha c) op (au_db s), au_clock := au_clock s\<rparr>)" using ok by (intro auth_evolves store_evolves) simp_all
  then show ?thesis using Store store_evolves by (simp add: step_ok_def)
qed (simp_all add: begin_ok boot_ok check_ok lookup_ok finish_ok)

section \<open>Runs\<close>

lemma granted_mono: "keys_evolve db db' \<Longrightarrow> list_all (granted c db) l \<Longrightarrow> list_all (granted c db') l"
  by (fastforce simp: list_all_iff granted_def keys_evolve_def split: ingest_answer.splits option.splits)

lemma auth_run_ok: "auth_ok s \<Longrightarrow> (\<And>t. is_sha c t \<noteq> []) \<Longrightarrow> step_ok c s (auth_run c es s)"
proof (induction es arbitrary: s)
  case (Cons e es)
  obtain l s1 where one: "auth_step c e s = (l, s1)" by (cases "auth_step c e s")
  obtain l' s2 where rest: "auth_run c es s1 = (l', s2)" by (cases "auth_run c es s1")
  have a: "auth_ok s1" "keys_evolve (au_db s) (au_db s1)" "au_clock s \<le> au_clock s1" "list_all (granted c (au_db s1)) l"
    using auth_step_ok [OF Cons.prems, of e] by (simp_all add: step_ok_def one)
  have b: "auth_ok s2" "keys_evolve (au_db s1) (au_db s2)" "au_clock s1 \<le> au_clock s2" "list_all (granted c (au_db s2)) l'"
    using Cons.IH [OF a(1) Cons.prems(2)] by (simp_all add: step_ok_def rest)
  show ?case
    using a b keys_evolve_trans [OF a(2) b(2)] granted_mono [OF b(2) a(4)] by (simp add: step_ok_def one rest)
qed (simp add: step_ok_def keys_evolve_refl)

lemma fresh_ok: "projects_ok db \<Longrightarrow> auth_ok (fresh_auth db clock)"
  by (simp add: auth_ok_def fresh_auth_def map_wf_def)

lemma reached:
  assumes "projects_ok db" and "\<And>t. is_sha c t \<noteq> []" and "auth_run c es (fresh_auth db clock) = (answers, s)"
  shows "auth_ok s" "list_all (granted c (au_db s)) answers"
  using auth_run_ok [OF fresh_ok [OF assms(1)] assms(2), of clock es] by (simp_all add: step_ok_def assms(3))

text \<open>
  C30: Whatever requests, store operations and waits interleave, a request with a key is only ever admitted to the one project that has a key with
  the digest of its token; a request without a key only to the default project, and only where this is configured.
\<close>

theorem ingest_tenant:
  assumes "projects_ok db" and "\<And>t. is_sha c t \<noteq> []" and "auth_run c es (fresh_auth db clock) = (answers, s)"
    and "(n, hash, t, Admitted p) \<in> set answers"
  shows "case hash of None \<Rightarrow> p = ''default'' \<and> unauthenticated_ok c
    | Some h \<Rightarrow> kr_project_id ` {r \<in> set (pd_keys (au_db s)). kr_key_hash r = h} = {p}"
proof (cases hash)
  case None
  then show ?thesis using reached(2) [OF assms(1-3)] assms(4) by (fastforce simp: list_all_iff granted_def)
next
  case (Some h)
  have own: "(h, p) \<in> set (key_owners (au_db s))" using reached(2) [OF assms(1-3)] assms(4) Some by (fastforce simp: list_all_iff granted_def)
  have "projects_ok (au_db s)" using reached(1) [OF assms(1-3)] by (simp add: auth_ok_def)
  from owners_unique [OF this own] have "kr_project_id r = p" if "r \<in> set (pd_keys (au_db s))" "kr_key_hash r = h" for r
    using that by (force simp: key_owners_def)
  then have "kr_project_id ` {r \<in> set (pd_keys (au_db s)). kr_key_hash r = h} \<subseteq> {p}" by auto
  moreover have "p \<in> kr_project_id ` {r \<in> set (pd_keys (au_db s)). kr_key_hash r = h}" using own by (auto simp: key_owners_def image_iff)
  ultimately show ?thesis using Some by auto
qed

text \<open>The cache of keys never holds more than five hundred entries, each digest once, and no entry outlives its minute: whatever happened before, what is cached
  expires at most a minute from now.
\<close>

theorem ingest_cache_bounded:
  assumes "projects_ok db" and "\<And>t. is_sha c t \<noteq> []" and "auth_run c es (fresh_auth db clock) = (answers, s)"
  shows "length (au_cache s) \<le> 500 \<and> distinct (map fst (au_cache s)) \<and> list_all (\<lambda>(h, e). ce_expiresAt e \<le> au_clock s + 60000) (au_cache s)"
  using reached(1) [OF assms]
  by (fastforce simp: auth_ok_def map_wf_def entry_ok_def CACHE_MAX_ENTRIES_def CACHE_TTL_MS_def list_all_iff)

section \<open>Revocation\<close>

definition spent :: "string \<Rightarrow> nat \<Rightarrow> auth_state \<Rightarrow> bool" where
  "spent h r s \<longleftrightarrow> auth_ok s \<and> h \<notin> active_hashes (au_db s) \<and> h \<in> fst ` set (key_owners (au_db s)) \<and>
     (\<forall>e. (h, e) \<in> set (au_cache s) \<longrightarrow> ce_expiresAt e \<le> r + CACHE_TTL_MS) \<and> (\<forall>n t p. au_flights s n = Some (Matched h t p) \<longrightarrow> t \<le> r)"

definition early :: "string \<Rightarrow> nat \<Rightarrow> nat \<times> string option \<times> nat \<times> ingest_answer \<Rightarrow> bool" where
  "early h r entry \<longleftrightarrow> (case entry of (n, hash, t, answer) \<Rightarrow> (case answer of Admitted p \<Rightarrow> hash \<noteq> Some h \<or> t < r + CACHE_TTL_MS | _ \<Rightarrow> True))"

lemma spentD:
  assumes "spent h r s"
  shows "auth_ok s" "h \<notin> active_hashes (au_db s)" "h \<in> fst ` set (key_owners (au_db s))"
    "(h, e) \<in> set (au_cache s) \<Longrightarrow> ce_expiresAt e \<le> r + CACHE_TTL_MS" "au_flights s n = Some (Matched h t p) \<Longrightarrow> t \<le> r"
  using assms unfolding spent_def by blast+

lemma spentI:
  "auth_ok s \<Longrightarrow> h \<notin> active_hashes (au_db s) \<Longrightarrow> h \<in> fst ` set (key_owners (au_db s)) \<Longrightarrow>
     (\<And>e. (h, e) \<in> set (au_cache s) \<Longrightarrow> ce_expiresAt e \<le> r + CACHE_TTL_MS) \<Longrightarrow>
     (\<And>n t p. au_flights s n = Some (Matched h t p) \<Longrightarrow> t \<le> r) \<Longrightarrow> spent h r s"
  unfolding spent_def by blast

lemma evolves_spent:
  assumes "keys_evolve db db'" and "h \<notin> active_hashes db" and "h \<in> fst ` set (key_owners db)"
  shows "h \<notin> active_hashes db'" "h \<in> fst ` set (key_owners db')"
  using assms by (auto simp: keys_evolve_def)

lemma spent_evolves:
  assumes sp: "spent h r s" and "auth_ok s'" and ev: "keys_evolve (au_db s) (au_db s')"
    and "\<And>e. (h, e) \<in> set (au_cache s') \<Longrightarrow> ce_expiresAt e \<le> r + CACHE_TTL_MS"
    and "\<And>n t p. au_flights s' n = Some (Matched h t p) \<Longrightarrow> t \<le> r"
  shows "spent h r s'"
  using assms(2,4,5) evolves_spent [OF ev spentD(2,3) [OF sp]] by (intro spentI)

definition stays_spent :: "string \<Rightarrow> nat \<Rightarrow> answer_log \<times> auth_state \<Rightarrow> bool" where
  "stays_spent h r out \<longleftrightarrow> spent h r (snd out) \<and> list_all (early h r) (fst out)"

lemma spent_same: "spent h r s \<Longrightarrow> stays_spent h r ([], s)"
  by (simp add: stays_spent_def)

lemma spent_flight:
  assumes sp: "spent h r s" and "auth_ok (set_flight n f s)" and "case f of Some (Matched k t p) \<Rightarrow> k = h \<longrightarrow> t \<le> r | _ \<Rightarrow> True"
  shows "spent h r (set_flight n f s)"
proof (rule spentI)
  show "t \<le> r" if "au_flights (set_flight n f s) m = Some (Matched h t p)" for m t p
    using that assms(3) spentD(5) [OF sp] by (auto simp: set_flight_def split: if_splits)
qed (use assms(2) spentD [OF sp] in \<open>simp_all add: set_flight_def\<close>)

lemma spent_done: "spent h r (s\<lparr>au_bootstrapDone := b\<rparr>) = spent h r s"
  by (simp add: spent_def done_ok)

lemma spent_proceed: "spent h r s \<Longrightarrow> (\<And>t. is_sha c t \<noteq> []) \<Longrightarrow> stays_spent h r (ingest_proceed c n q s)"
proof -
  assume sp: "spent h r s" and sha: "\<And>t. is_sha c t \<noteq> []"
  have ok: "auth_ok (snd (ingest_proceed c n q s))" using proceed_ok [of s c n q] sp sha by (simp add: step_ok_def spent_def)
  show ?thesis
  proof (cases "ingest_token q")
    case None
    then show ?thesis using spent_flight [OF sp, of n None] ok by (simp add: ingest_proceed_def stays_spent_def early_def)
  next
    case (Some token)
    then show ?thesis using spent_flight [OF sp, of n "Some (Hashing (is_sha c token) (au_clock s))"] ok by (simp add: ingest_proceed_def stays_spent_def)
  qed
qed

lemma spent_begin: "spent h r s \<Longrightarrow> (\<And>t. is_sha c t \<noteq> []) \<Longrightarrow> stays_spent h r (ingest_begin c n q s)"
proof -
  assume sp: "spent h r s" and sha: "\<And>t. is_sha c t \<noteq> []"
  have "spent h r (set_flight n (Some (Booting q legacy Ensuring)) s)" for legacy
    using flight_step [OF spentD(1) [OF sp], of "Some (Booting q legacy Ensuring)" n] by (intro spent_flight [OF sp]) (simp_all add: flight_ok_def)
  then show ?thesis
    using spent_proceed [OF sp sha] spent_proceed [of h r "s\<lparr>au_bootstrapDone := True\<rparr>" c n q] sp sha
    by (auto simp: ingest_begin_def spent_done stays_spent_def [of _ _ "([], _)"] split: option.split)
qed

lemma spent_boot: "spent h r s \<Longrightarrow> (\<And>t. is_sha c t \<noteq> []) \<Longrightarrow> stays_spent h r (bootstrap_step c n up i t s)"
proof -
  assume sp: "spent h r s" and sha: "\<And>t. is_sha c t \<noteq> []"
  have ok: "auth_ok (snd (bootstrap_step c n up i t s))" using boot_ok [of s c n up i t] sp sha by (simp add: step_ok_def spent_def)
  show ?thesis
  proof (cases rule: boot_cases [of s n c up i t])
    case (going q legacy ok')
    then show ?thesis using spent_proceed [of h r "s\<lparr>au_bootstrapDone := au_bootstrapDone s \<or> ok'\<rparr>" c n q] sp sha by (simp add: spent_done)
  next
    case (waits q legacy stage stage' db)
    have "spent h r (snd (bootstrap_step c n up i t s))"
    proof (rule spent_evolves [OF sp ok boot_evolves(1)])
      show "ce_expiresAt e \<le> r + CACHE_TTL_MS" if "(h, e) \<in> set (au_cache (snd (bootstrap_step c n up i t s)))" for e
        using that spentD(4) [OF sp] by (simp add: waits set_flight_def)
      show "t' \<le> r" if "au_flights (snd (bootstrap_step c n up i t s)) m = Some (Matched h t' p)" for m t' p
        using that spentD(5) [OF sp] by (auto simp: waits set_flight_def split: if_splits)
    qed
    then show ?thesis by (simp add: waits stays_spent_def)
  next
    case other
    then show ?thesis using spent_same [OF sp] by simp
  qed
qed

lemma spent_check: "spent h r s \<Longrightarrow> stays_spent h r (ingest_check n s)"
proof -
  assume sp: "spent h r s"
  have ok: "auth_ok (snd (ingest_check n s))" using check_ok [of s undefined n] sp by (simp add: step_ok_def spent_def)
  show ?thesis
  proof (cases "au_flights s n")
    case (Some f)
    show ?thesis
    proof (cases f)
      case (Hashing k t)
      obtain cached cache where g: "getCached (au_cache s) k t = (cached, cache)" by (cases "getCached (au_cache s) k t")
      have sub: "set cache \<subseteq> set (au_cache s)" using get_cached(1) [of "au_cache s" k t] by (simp add: g)
      have early: "early h r (n, Some k, t, Admitted p)" if "nonempty_text cached = Some p" for p
      proof -
        have "fst (getCached (au_cache s) k t) = Some p" using that by (auto simp: g nonempty_text_def split: option.splits if_splits)
        from get_cached(3) [OF this] show ?thesis using sp by (fastforce simp: early_def spent_def)
      qed
      have "spent h r (snd (ingest_check n s))"
      proof (rule spent_evolves [OF sp ok])
        show "keys_evolve (au_db s) (au_db (snd (ingest_check n s)))" using check_ok [of s undefined n] sp by (simp add: step_ok_def spent_def)
        show "ce_expiresAt e \<le> r + CACHE_TTL_MS" if "(h, e) \<in> set (au_cache (snd (ingest_check n s)))" for e
          using that sub spentD(4) [OF sp] by (auto simp: Some Hashing ingest_check_def g Let_def set_flight_def split: option.splits)
        show "t' \<le> r" if "au_flights (snd (ingest_check n s)) m = Some (Matched h t' p)" for m t' p
          using that spentD(5) [OF sp] by (auto simp: Some Hashing ingest_check_def g Let_def set_flight_def split: option.splits if_splits)
      qed
      then show ?thesis using early by (auto simp: stays_spent_def Some Hashing ingest_check_def g Let_def split: option.split)
    qed (use sp spent_same in \<open>simp_all add: Some ingest_check_def\<close>)
  qed (use sp spent_same in \<open>simp add: ingest_check_def\<close>)
qed

lemma spent_lookup: "spent h r s \<Longrightarrow> stays_spent h r (ingest_lookup n up s)"
proof -
  assume sp: "spent h r s"
  have ok: "auth_ok (snd (ingest_lookup n up s))" using lookup_ok [of s undefined n up] sp by (simp add: step_ok_def spent_def)
  show ?thesis
  proof (cases "au_flights s n")
    case (Some f)
    show ?thesis
    proof (cases f)
      case (Looking k t)
      have "k \<noteq> h" if "findByKeyHash k (au_db s) = Some (p, i)" for p i
        using find_hash(2) [OF that] sp by (auto simp: spent_def)
      then have "spent h r (set_flight n f' s)" if "f' = None \<or> (\<exists>p i. findByKeyHash k (au_db s) = Some (p, i) \<and> f' = Some (Matched k t p))"
          "auth_ok (set_flight n f' s)" for f'
        using that by (intro spent_flight [OF sp]) auto
      then show ?thesis
        using ok by (auto simp: Some Looking ingest_lookup_def stays_spent_def early_def split: option.splits if_splits)
    qed (use sp spent_same in \<open>simp_all add: Some ingest_lookup_def\<close>)
  qed (use sp spent_same in \<open>simp add: ingest_lookup_def\<close>)
qed

lemma spent_finish: "spent h r s \<Longrightarrow> stays_spent h r (ingest_finish n s)"
proof -
  assume sp: "spent h r s"
  have ok: "auth_ok (snd (ingest_finish n s))" using finish_ok [of s undefined n] sp by (simp add: step_ok_def spent_def)
  show ?thesis
  proof (cases "au_flights s n")
    case (Some f)
    show ?thesis
    proof (cases f)
      case (Matched k t p)
      have t: "t \<le> r" if "k = h" by (rule spentD(5) [OF sp, of n t p]) (simp add: Some Matched that)
      have "spent h r (snd (ingest_finish n s))"
      proof (rule spent_evolves [OF sp ok])
        show "keys_evolve (au_db s) (au_db (snd (ingest_finish n s)))" using finish_ok [of s undefined n] sp by (simp add: step_ok_def spent_def)
        show "ce_expiresAt e \<le> r + CACHE_TTL_MS" if "(h, e) \<in> set (au_cache (snd (ingest_finish n s)))" for e
          using that subsetD [OF set_cached_subset, of "(h, e)" "au_cache s" k p t] spentD(4) [OF sp] t
          by (auto simp: Some Matched ingest_finish_def set_flight_def)
        show "t' \<le> r" if "au_flights (snd (ingest_finish n s)) m = Some (Matched h t' q)" for m t' q
          using that spentD(5) [OF sp] by (auto simp: Some Matched ingest_finish_def set_flight_def split: if_splits)
      qed
      then show ?thesis using t by (auto simp: stays_spent_def Some Matched ingest_finish_def early_def CACHE_TTL_MS_def)
    qed (use sp spent_same in \<open>simp_all add: Some ingest_finish_def\<close>)
  qed (use sp spent_same in \<open>simp add: ingest_finish_def\<close>)
qed

lemma spent_step: "spent h r s \<Longrightarrow> (\<And>t. is_sha c t \<noteq> []) \<Longrightarrow> stays_spent h r (auth_step c e s)"
proof (cases e)
  case (Pass_time d)
  assume sp: "spent h r s" and sha: "\<And>t. is_sha c t \<noteq> []"
  have "auth_ok (s\<lparr>au_clock := au_clock s + d\<rparr>)" using auth_step_ok [of s c "Pass_time d"] sp sha by (simp add: spent_def step_ok_def)
  then show ?thesis using sp by (simp add: Pass_time stays_spent_def spent_def)
next
  case (Store op)
  assume sp: "spent h r s" and sha: "\<And>t. is_sha c t \<noteq> []"
  let ?s = "s\<lparr>au_db := store_step (is_sha c) op (au_db s)\<rparr>"
  have "auth_ok ?s" using auth_step_ok [of s c "Store op"] sp sha by (simp add: spent_def step_ok_def)
  then have "spent h r ?s"
  proof (rule spent_evolves [OF sp])
    show "keys_evolve (au_db s) (au_db ?s)" using store_evolves by simp
    show "ce_expiresAt x \<le> r + CACHE_TTL_MS" if "(h, x) \<in> set (au_cache ?s)" for x using that spentD(4) [OF sp] by simp
    show "t \<le> r" if "au_flights ?s n = Some (Matched h t p)" for n t p by (rule spentD(5) [OF sp, of n t p]) (use that in simp)
  qed
  then show ?thesis by (simp add: Store stays_spent_def)
qed (simp_all add: spent_begin spent_boot spent_check spent_lookup spent_finish)

lemma spent_run: "spent h r s \<Longrightarrow> (\<And>t. is_sha c t \<noteq> []) \<Longrightarrow> stays_spent h r (auth_run c es s)"
proof (induction es arbitrary: s)
  case (Cons e es)
  obtain l s1 where one: "auth_step c e s = (l, s1)" by (cases "auth_step c e s")
  obtain l' s2 where rest: "auth_run c es s1 = (l', s2)" by (cases "auth_run c es s1")
  have a: "spent h r s1" "list_all (early h r) l" using spent_step [OF Cons.prems, of e] by (simp_all add: stays_spent_def one)
  show ?case using Cons.IH [OF a(1) Cons.prems(2)] a(2) by (simp add: stays_spent_def one rest)
qed (simp add: spent_same)

text \<open>
  C31: A revoked key is refused one minute later at the latest: once no key with a digest is active, no request that reads the clock a minute later or more is
  admitted by it, whatever interleaves, be it requests that looked the key up before it was revoked.
\<close>

theorem revoked_key_refused:
  assumes "projects_ok db" and "\<And>t. is_sha c t \<noteq> []" and "auth_run c es (fresh_auth db clock) = (earlier, s)"
    and "k \<in> set (pd_keys (au_db s))" and "kr_revoked_at k \<noteq> None" and "auth_run c later s = (answers, s')"
    and "(n, Some (kr_key_hash k), t, Admitted p) \<in> set answers"
  shows "t < au_clock s + 60000"
proof -
  let ?h = "kr_key_hash k"
  have ok: "auth_ok s" by (rule reached(1) [OF assms(1-3)])
  then have dist: "distinct (map kr_key_hash (pd_keys (au_db s)))" by (simp add: auth_ok_def projects_ok_def)
  have "r = k" if "r \<in> set (pd_keys (au_db s))" "kr_key_hash r = ?h" for r
    using dist that assms(4) by (metis distinct_map inj_on_eq_iff)
  then have "?h \<notin> active_hashes (au_db s)" using assms(5) by (auto simp: active_hashes_def)
  moreover have "?h \<in> fst ` set (key_owners (au_db s))" using assms(4) by (force simp: key_owners_def)
  ultimately have "spent ?h (au_clock s) s"
    using ok by (intro spentI) (auto simp: auth_ok_def entry_ok_def flight_ok_def dest!: spec split: flight.splits)
  then have "list_all (early ?h (au_clock s)) answers" using spent_run [of ?h "au_clock s" s c later] assms(2,6) by (simp add: stays_spent_def)
  then show ?thesis using assms(7) by (fastforce simp: list_all_iff early_def CACHE_TTL_MS_def)
qed

lemma token_of_key:
  assumes "token \<noteq> []" and "r = \<lparr>ir_authorization = None, ir_apiKey = Some token\<rparr> \<or>
    (\<not> is_space (hd token) \<and> (\<exists>other. r = \<lparr>ir_authorization = Some (''Bearer '' @ token), ir_apiKey = other\<rparr>))"
  shows "ingest_token r = Some token"
proof -
  have "is_space CHR '' ''" "toLowerCase ''Bearer'' = ''bearer''" by code_simp+
  then have "strip_bearer (''Bearer '' @ token) = token" if "\<not> is_space (hd token)"
    using that assms(1) by (cases token) (simp_all add: strip_bearer_def Let_def)
  then show ?thesis using assms by (auto simp: ingest_token_def nonempty_text_def)
qed

text \<open>The four steps of a request with an active key, one after the other.\<close>

lemma key_steps:
  assumes ok: "auth_ok s" and own: "(h, p) \<in> set (key_owners (au_db s))" and act: "h \<in> active_hashes (au_db s)"
    and fl: "au_flights s n = Some (Hashing h t)"
  shows "fst (auth_run c [Hashed n, Looked n True, Finish n] s) = [(n, Some h, t, Admitted p)]"
proof -
  obtain cached cache where g: "getCached (au_cache s) h t = (cached, cache)" by (cases "getCached (au_cache s) h t")
  have uniq: "q = p" if "(h, q) \<in> set (key_owners (au_db s))" for q using owners_unique that own ok by (auto simp: auth_ok_def)
  have hit: "q = p" if "nonempty_text cached = Some q" for q
  proof -
    have "fst (getCached (au_cache s) h t) = Some q" using that by (auto simp: g nonempty_text_def split: option.splits if_splits)
    from get_cached(3) [OF this] ok have "(h, q) \<in> set (key_owners (au_db s))" by (fastforce simp: auth_ok_def entry_ok_def)
    then show ?thesis by (rule uniq)
  qed
  obtain q k where q: "findByKeyHash h (au_db s) = Some (q, k)" using act find_none [of h "au_db s"] by (cases "findByKeyHash h (au_db s)") auto
  have "q = p" using uniq find_hash(1) [OF q] .
  then show ?thesis
    using hit q by (cases "nonempty_text cached") (simp_all add: ingest_check_def fl g ingest_lookup_def ingest_finish_def set_flight_def)
qed

text \<open>A request that arrives is past the bootstrap after four of its steps at most, whether the store answers or not.\<close>

definition booted :: "ingest_setup \<Rightarrow> nat \<Rightarrow> ingest_request \<Rightarrow> nat \<Rightarrow> auth_state \<Rightarrow> auth_state \<Rightarrow> bool" where
  "booted c n r left s s' \<longleftrightarrow> au_clock s' = au_clock s \<and> keys_evolve (au_db s) (au_db s') \<and> active_hashes (au_db s) \<subseteq> active_hashes (au_db s') \<and>
     (\<exists>token. ingest_token r = Some token \<and> au_flights s' n = Some (Hashing (is_sha c token) (au_clock s)) \<or>
        (\<exists>legacy stage. ingest_token r = Some token \<and> au_flights s' n = Some (Booting r legacy stage) \<and>
           (case stage of Ensuring \<Rightarrow> 4 \<le> left | Selecting \<Rightarrow> 3 \<le> left | Inserting \<Rightarrow> 2 \<le> left | Ended ok \<Rightarrow> 1 \<le> left)))"

lemma begin_booted: "ingest_token r = Some token \<Longrightarrow> booted c n r 4 s (snd (ingest_begin c n r s)) \<and> fst (ingest_begin c n r s) = []"
  by (auto simp: booted_def ingest_begin_def ingest_proceed_def set_flight_def keys_evolve_refl split: option.split)

lemma booted_hashing:
  assumes "booted c n r 0 s s'" and "ingest_token r = Some token"
  shows "au_flights s' n = Some (Hashing (is_sha c token) (au_clock s))"
proof (cases "au_flights s' n = Some (Hashing (is_sha c token) (au_clock s))")
  case False
  then obtain stage where "case stage of Ensuring \<Rightarrow> 4 \<le> (0::nat) | Selecting \<Rightarrow> 3 \<le> (0::nat) | Inserting \<Rightarrow> 2 \<le> (0::nat) | Ended ok \<Rightarrow> 1 \<le> (0::nat)"
    using assms by (auto simp: booted_def)
  then show ?thesis by (cases stage) simp_all
qed

lemma boot_booted:
  assumes "booted c n r (Suc left) s s'"
  shows "booted c n r left s (snd (bootstrap_step c n up i t s')) \<and> fst (bootstrap_step c n up i t s') = []"
proof -
  have ev: "keys_evolve (au_db s) (au_db (snd (bootstrap_step c n up i t s')))" "active_hashes (au_db s) \<subseteq> active_hashes (au_db (snd (bootstrap_step c n up i t s')))"
    using assms keys_evolve_trans [OF _ boot_evolves(1)] boot_evolves(2) [of s' c n up i t] unfolding booted_def by blast+
  show ?thesis
  proof (cases rule: boot_cases [of s' n c up i t])
    case (going q legacy ok)
    then show ?thesis using assms ev by (auto simp: booted_def ingest_proceed_def set_flight_def)
  next
    case (waits q legacy stage stage' db)
    then show ?thesis using assms ev
      by (cases stage) (auto simp: booted_def set_flight_def bootstrap_statement_def split: if_splits sum.splits)
  next
    case other
    then show ?thesis using assms by (auto simp: booted_def)
  qed
qed

text \<open>
  C32: A request that carries an active key as its bearer token, or as its API key with no authorization header beside it, is admitted to the project of the key,
  from the cache or from the store, if the store answers its lookup; be it that it first has to go through the bootstrap, and whether that succeeds or not.  This
  holds in every state requests, store operations and waits lead to, for a request taken through its steps one after the other from there; once it is past the
  bootstrap, further \<open>Boot\<close> steps leave it as it is.  (Any authorization header, of whatever scheme, takes the place of the API key.)
\<close>

theorem active_key_admitted:
  assumes "projects_ok db" and "\<And>t. is_sha c t \<noteq> []" and "auth_run c es (fresh_auth db clock) = (earlier, s)"
    and "k \<in> set (pd_keys (au_db s))" and "kr_revoked_at k = None" and "kr_key_hash k = is_sha c token" and "token \<noteq> []"
    and "r = \<lparr>ir_authorization = None, ir_apiKey = Some token\<rparr> \<or>
      (\<not> is_space (hd token) \<and> (\<exists>other. r = \<lparr>ir_authorization = Some (''Bearer '' @ token), ir_apiKey = other\<rparr>))"
  shows "fst (auth_run c [Arrive n r, Boot n up i t, Boot n up' i' t', Boot n up3 i3 t3, Boot n up4 i4 t4, Hashed n, Looked n True, Finish n] s) =
    [(n, Some (is_sha c token), au_clock s, Admitted (kr_project_id k))]"
proof -
  let ?h = "is_sha c token"
  define s0 where "s0 = snd (ingest_begin c n r s)"
  define s1 where "s1 = snd (bootstrap_step c n up i t s0)"
  define s2 where "s2 = snd (bootstrap_step c n up' i' t' s1)"
  define s3 where "s3 = snd (bootstrap_step c n up3 i3 t3 s2)"
  define s4 where "s4 = snd (bootstrap_step c n up4 i4 t4 s3)"
  have ok: "auth_ok s" by (rule reached(1) [OF assms(1-3)])
  have tok: "ingest_token r = Some token" by (rule token_of_key [OF assms(7,8)])
  have b0: "booted c n r 4 s s0" "fst (ingest_begin c n r s) = []" using begin_booted [OF tok, of c n s] by (simp_all add: s0_def)
  have b1: "booted c n r 3 s s1" "fst (bootstrap_step c n up i t s0) = []"
    using boot_booted [of c n r 3 s s0 up i t] b0 by (simp_all add: s1_def)
  have b2: "booted c n r 2 s s2" "fst (bootstrap_step c n up' i' t' s1) = []"
    using boot_booted [of c n r 2 s s1 up' i' t'] b1 by (simp_all add: s2_def)
  have b3: "booted c n r 1 s s3" "fst (bootstrap_step c n up3 i3 t3 s2) = []"
    using boot_booted [of c n r 1 s s2 up3 i3 t3] b2 by (simp_all add: s3_def numeral_2_eq_2)
  have b4: "booted c n r 0 s s4" "fst (bootstrap_step c n up4 i4 t4 s3) = []"
    using boot_booted [of c n r 0 s s3 up4 i4 t4] b3 by (simp_all add: s4_def)
  have o0: "auth_ok s0" using begin_ok [of s c n r] ok assms(2) by (simp add: s0_def step_ok_def)
  have o1: "auth_ok s1" using boot_ok [of s0 c n up i t] o0 assms(2) by (simp add: s1_def step_ok_def)
  have o2: "auth_ok s2" using boot_ok [of s1 c n up' i' t'] o1 assms(2) by (simp add: s2_def step_ok_def)
  have o3: "auth_ok s3" using boot_ok [of s2 c n up3 i3 t3] o2 assms(2) by (simp add: s3_def step_ok_def)
  have o4: "auth_ok s4" using boot_ok [of s3 c n up4 i4 t4] o3 assms(2) by (simp add: s4_def step_ok_def)
  have "(?h, kr_project_id k) \<in> set (key_owners (au_db s))" "?h \<in> active_hashes (au_db s)"
    using assms(4-6) by (force simp: key_owners_def active_hashes_def)+
  then have own: "(?h, kr_project_id k) \<in> set (key_owners (au_db s4))" "?h \<in> active_hashes (au_db s4)"
    using b4(1) by (auto simp: booted_def keys_evolve_def)
  have "au_flights s4 n = Some (Hashing ?h (au_clock s))" using booted_hashing [OF b4(1) tok] .
  from key_steps [OF o4 own this, of c] have last: "fst (auth_run c [Hashed n, Looked n True, Finish n] s4) = [(n, Some ?h, au_clock s, Admitted (kr_project_id k))]" .
  have "auth_step c (Arrive n r) s = ([], s0)" "auth_step c (Boot n up i t) s0 = ([], s1)" "auth_step c (Boot n up' i' t') s1 = ([], s2)"
    "auth_step c (Boot n up3 i3 t3) s2 = ([], s3)" "auth_step c (Boot n up4 i4 t4) s3 = ([], s4)"
    using b0(2) b1(2) b2(2) b3(2) b4(2) by (simp_all add: s0_def s1_def s2_def s3_def s4_def prod_eq_iff)
  then have "auth_run c [Arrive n r, Boot n up i t, Boot n up' i' t', Boot n up3 i3 t3, Boot n up4 i4 t4, Hashed n, Looked n True, Finish n] s =
      auth_run c [Hashed n, Looked n True, Finish n] s4"
    by (simp only: auth_run.simps(2) [where e = "Arrive n r"] auth_run.simps(2) [where e = "Boot n up i t"] auth_run.simps(2) [where e = "Boot n up' i' t'"]
        auth_run.simps(2) [where e = "Boot n up3 i3 t3"] auth_run.simps(2) [where e = "Boot n up4 i4 t4"] Let_def prod.case append_Nil case_prod_eta)
      (simp del: auth_run.simps)
  then show ?thesis using last by simp
qed

section \<open>A project with one key\<close>

lemma auth_run_append: "auth_run c (es @ es') s = (let (l, s1) = auth_run c es s; (l', s2) = auth_run c es' s1 in (l @ l', s2))"
  by (induction es arbitrary: s) (auto simp: Let_def split: prod.splits)

definition sample_setup :: ingest_setup where
  "sample_setup = \<lparr>is_allowUnauthenticated = False,
     is_env = \<lparr>ie_INGEST_KEY = None, ie_TELEMETRY_INGEST_TOKEN = None, ie_ALLOW_UNAUTHENTICATED = None\<rparr>, is_sha = (\<lambda>t. CHR ''h'' # t)\<rparr>"

definition sample_key :: key_row where
  "sample_key = \<lparr>kr_id = ''k'', kr_project_id = ''p'', kr_key_hash = ''hobs'', kr_key_prefix = ''obs'', kr_name = ''n'', kr_created_at = ''0'', kr_revoked_at = None\<rparr>"

definition sample_projects :: projects_db where
  "sample_projects = \<lparr>pd_projects = [\<lparr>pj_id = ''p'', pj_name = ''P'', pj_slug = ''p'', pj_created_at = ''0'', pj_payload_capture_enabled = JNum (Num 0)\<rparr>],
     pd_keys = [sample_key]\<rparr>"

definition sample_request :: ingest_request where
  "sample_request = \<lparr>ir_authorization = None, ir_apiKey = Some ''obs''\<rparr>"

abbreviation one_request :: "nat \<Rightarrow> auth_event list" where
  "one_request n \<equiv> [Arrive n sample_request, Hashed n, Looked n True, Finish n]"

lemma sample_auth: "projects_ok sample_projects" "\<And>t. is_sha sample_setup t \<noteq> []"
  by (simp_all add: projects_ok_def sample_projects_def sample_setup_def)

lemma sample_admitted:
  "auth_run sample_setup (one_request n) (fresh_auth sample_projects 5) =
     ([(n, Some ''hobs'', 5, Admitted ''p'')], \<lparr>au_db = sample_projects, au_cache = [(''hobs'', \<lparr>ce_projectId = ''p'', ce_expiresAt = 60005\<rparr>)],
       au_bootstrapDone = True, au_flights = (\<lambda>_. None), au_clock = 5\<rparr>)"
  by (simp add: fresh_auth_def ingest_begin_def ingest_proceed_def env_key_def sample_setup_def sample_request_def ingest_token_def nonempty_text_def
      ingest_check_def getCached_def pruneKeyCache_def map_get_def set_flight_def ingest_lookup_def findByKeyHash_def sample_projects_def sample_key_def
      ingest_finish_def setCached_def CACHE_TTL_MS_def Let_def fun_eq_iff)

theorem ingest_tenant_witness:
  "kr_project_id ` {r \<in> set (pd_keys sample_projects). kr_key_hash r = ''hobs''} = {''p''}"
  using ingest_tenant [OF sample_auth sample_admitted [of 0], of 0 "Some ''hobs''" 5 "''p''"] by simp

theorem ingest_cache_bounded_witness:
  "\<exists>answers s. auth_run sample_setup (one_request 0) (fresh_auth sample_projects 5) = (answers, s) \<and> length (au_cache s) \<le> 500"
  using ingest_cache_bounded [OF sample_auth sample_admitted [of 0]] sample_admitted [of 0] by blast

theorem active_key_admitted_witness:
  "fst (auth_run sample_setup [Arrive 3 sample_request, Boot 3 True ''i'' ''0'', Boot 3 True ''i'' ''0'', Boot 3 True ''i'' ''0'', Boot 3 True ''i'' ''0'',
     Hashed 3, Looked 3 True, Finish 3] (fresh_auth sample_projects 5)) = [(3, Some ''hobs'', 5, Admitted ''p'')]"
proof -
  have run: "auth_run sample_setup [] (fresh_auth sample_projects 5) = ([], fresh_auth sample_projects 5)" by simp
  have key: "sample_key \<in> set (pd_keys (au_db (fresh_auth sample_projects 5)))" "kr_revoked_at sample_key = None" "kr_key_hash sample_key = is_sha sample_setup ''obs''"
    by (simp_all add: fresh_auth_def sample_projects_def sample_key_def sample_setup_def)
  have "sample_request = \<lparr>ir_authorization = None, ir_apiKey = Some ''obs''\<rparr>" by (simp add: sample_request_def)
  with active_key_admitted [OF sample_auth run key, of sample_request 3 True "''i''" "''0''" True "''i''" "''0''" True "''i''" "''0''" True "''i''" "''0''"] show ?thesis
    by (simp add: sample_setup_def sample_key_def fresh_auth_def del: auth_run.simps)
qed

text \<open>The key is revoked after a first request; a second one a second later is still admitted from the cache.\<close>

theorem revoked_key_refused_witness:
  "\<exists>earlier s answers s'. auth_run sample_setup (one_request 0 @ [Store (RevokeKey ''k'' ''6''), Pass_time 1000]) (fresh_auth sample_projects 5) = (earlier, s) \<and>
     auth_run sample_setup [Arrive 1 sample_request, Hashed 1] s = (answers, s') \<and>
     (1, Some ''hobs'', 1005, Admitted ''p'') \<in> set answers \<and> 1005 < au_clock s + 60000"
proof -
  let ?cache = "[(''hobs'', \<lparr>ce_projectId = ''p'', ce_expiresAt = 60005\<rparr>)]"
  let ?db = "snd (revokeKey ''k'' ''6'' sample_projects)"
  let ?s = "\<lparr>au_db = ?db, au_cache = ?cache, au_bootstrapDone = True, au_flights = (\<lambda>_. None), au_clock = 1005\<rparr>"
  have e: "auth_run sample_setup (one_request 0 @ [Store (RevokeKey ''k'' ''6''), Pass_time 1000]) (fresh_auth sample_projects 5) =
      ([(0, Some ''hobs'', 5, Admitted ''p'')], ?s)"
    by (simp add: auth_run_append sample_admitted del: append.simps auth_run.simps(2)) simp
  have l: "auth_run sample_setup [Arrive 1 sample_request, Hashed 1] ?s = ([(1, Some ''hobs'', 1005, Admitted ''p'')], ?s)"
    by (simp add: ingest_begin_def ingest_proceed_def sample_setup_def sample_request_def ingest_token_def nonempty_text_def ingest_check_def getCached_def
        pruneKeyCache_def map_get_def set_flight_def Let_def fun_eq_iff)
  have k: "sample_key\<lparr>kr_revoked_at := Some ''6''\<rparr> \<in> set (pd_keys (au_db ?s))" "kr_revoked_at (sample_key\<lparr>kr_revoked_at := Some ''6''\<rparr>) \<noteq> None"
    by (simp_all add: revokeKey_def sample_projects_def sample_key_def)
  have "kr_key_hash (sample_key\<lparr>kr_revoked_at := Some ''6''\<rparr>) = ''hobs''" by (simp add: sample_key_def)
  then have "1005 < au_clock ?s + 60000" using revoked_key_refused [OF sample_auth e k l, of 1 1005 "''p''"] by simp
  then show ?thesis by (intro exI conjI) (rule e, rule l, simp_all)
qed

end
