(* ===== verification/Dashboard_Auth.thy ===== *)
theory Dashboard_Auth
  imports Projects_Store Collector_Runtime Otlp_Body
begin

text \<open>
  The password login of the dashboard, \<^verbatim>\<open>packages/obs-collector/src/auth/dashboard-auth.ts\<close>: signed session cookies, the middleware of the
  internal paths with its cache of projects, and the three routes.  HMAC and SHA-256 are parameters (bytes of a key and a text, bytes of a
  text), and so is the platform's decoding of escaped bytes above 127.  Shown: how long a login is good, nothing passes without the
  password's signature, and a new project is unknown for up to half a minute.
\<close>

section \<open>Cookies\<close>

definition uri_plain :: "char \<Rightarrow> bool" where
  "uri_plain c \<longleftrightarrow> is_digit c \<or> (65 \<le> char_code c \<and> char_code c \<le> 90) \<or> (97 \<le> char_code c \<and> char_code c \<le> 122) \<or> c \<in> set ''-_.!~*()'' \<or> char_code c = 39"

definition upper_hex :: "nat \<Rightarrow> char" where
  "upper_hex n = ''0123456789ABCDEF'' ! n"

definition percent :: "nat \<Rightarrow> string" where
  "percent b = [CHR ''%'', upper_hex (b div 16), upper_hex (b mod 16)]"

definition encode_char :: "char \<Rightarrow> string" where
  "encode_char c = (let n = char_code c in
     if uri_plain c then [c] else if n < 128 then percent n else percent (192 + n div 64) @ percent (128 + n mod 64))"

definition encodeURIComponent :: "string \<Rightarrow> string" where
  "encodeURIComponent s = concat (map encode_char s)"

text \<open>The characters and the escaped bytes of a text; \<open>None\<close>: an escape that is none.\<close>

datatype uri_item = Plain char | Escaped nat

fun uri_items :: "string \<Rightarrow> uri_item list option" where
  "uri_items [] = Some []"
| "uri_items (c # s) =
     (if c = CHR ''%''
      then (case s of a # b # r \<Rightarrow> if is_hex_char a \<and> is_hex_char b then map_option (Cons (Escaped (hex_code [a, b]))) (uri_items r) else None
            | _ \<Rightarrow> None)
      else map_option (Cons (Plain c)) (uri_items s))"

text \<open>Bytes up to 127 are characters; a run of larger ones is decoded by \<open>utf8\<close>.\<close>

fun uri_text :: "(nat list \<Rightarrow> string option) \<Rightarrow> nat list \<Rightarrow> uri_item list \<Rightarrow> string option" where
  "uri_text utf8 high [] = (if high = [] then Some [] else utf8 high)"
| "uri_text utf8 high (i # is) =
     (case i of
        Escaped n \<Rightarrow> if n < 128 then Option.bind (uri_text utf8 high []) (\<lambda>h. map_option (\<lambda>r. h @ char_of n # r) (uri_text utf8 [] is))
          else uri_text utf8 (high @ [n]) is
      | Plain c \<Rightarrow> Option.bind (uri_text utf8 high []) (\<lambda>h. map_option (\<lambda>r. h @ c # r) (uri_text utf8 [] is)))"

definition decodeURIComponent :: "(nat list \<Rightarrow> string option) \<Rightarrow> string \<Rightarrow> string option" where
  "decodeURIComponent utf8 s = Option.bind (uri_items s) (uri_text utf8 [])"

text \<open>The regular expression of \<^verbatim>\<open>getCookie\<close>: the name at the start, or after a semicolon and blanks, and the value up to the next semicolon.\<close>

definition cookie_at :: "string \<Rightarrow> string \<Rightarrow> string option" where
  "cookie_at name s = (if startsWith s (name @ ''='') then Some (takeWhile (\<lambda>c. c \<noteq> CHR '';'') (drop (length name + 1) s)) else None)"

fun cookie_after :: "string \<Rightarrow> string \<Rightarrow> string option" where
  "cookie_after name [] = None"
| "cookie_after name (c # s) =
     (if c = CHR '';'' \<and> cookie_at name (dropWhile is_space s) \<noteq> None then cookie_at name (dropWhile is_space s) else cookie_after name s)"

text \<open>\<open>Inl\<close> is the \<^verbatim>\<open>URIError\<close>.\<close>

definition getCookie :: "(nat list \<Rightarrow> string option) \<Rightarrow> string option \<Rightarrow> string \<Rightarrow> string + string option" where
  "getCookie utf8 cookieHeader name =
     (case nonempty_text cookieHeader of None \<Rightarrow> Inr None
      | Some h \<Rightarrow> (case (case cookie_at name h of Some v \<Rightarrow> Some v | None \<Rightarrow> cookie_after name h) of
            None \<Rightarrow> Inr None
          | Some v \<Rightarrow> (case decodeURIComponent utf8 v of None \<Rightarrow> Inl ''URIError: URI malformed'' | Some d \<Rightarrow> Inr (Some d))))"

section \<open>Signatures and tokens\<close>

record dash_platform =
  dp_hmac :: "string \<Rightarrow> string \<Rightarrow> byte list"
  dp_sha256 :: "string \<Rightarrow> byte list"
  dp_utf8 :: "nat list \<Rightarrow> string option"
  dp_num :: "rat \<Rightarrow> string"

definition sign :: "dash_platform \<Rightarrow> string \<Rightarrow> string \<Rightarrow> string" where
  "sign D payload secret = btoa (map unat (dp_hmac D secret payload))"

definition timingSafeEqualStr :: "dash_platform \<Rightarrow> string \<Rightarrow> string \<Rightarrow> bool" where
  "timingSafeEqualStr D a b =
     (let ha = dp_sha256 D a; hb = dp_sha256 D b
      in foldl (\<lambda>diff i. or diff (xor (ha ! i) (if i < length hb then hb ! i else 0))) 0 [0..<length ha] = 0)"

definition verify_signature :: "dash_platform \<Rightarrow> string \<Rightarrow> string \<Rightarrow> string \<Rightarrow> bool" where
  "verify_signature D payload signature secret = timingSafeEqualStr D (sign D payload secret) signature"

definition createSessionToken :: "dash_platform \<Rightarrow> nat \<Rightarrow> string" where
  "createSessionToken D expiresAt = stringify (dp_num D) (JObj [(''exp'', JNum (Num (of_nat expiresAt)))])"

text \<open>The expiry of a token.\<close>

definition parseSessionToken :: "string \<Rightarrow> js_number option" where
  "parseSessionToken token =
     (case JSON_parse token of
        Some j \<Rightarrow> (case member_of j ''exp'' of Some (JNum x) \<Rightarrow> Some x | _ \<Rightarrow> None)
      | None \<Rightarrow> None)"

definition split_last_dot :: "string \<Rightarrow> (string \<times> string) option" where
  "split_last_dot s =
     (if CHR ''.'' \<in> set s
      then let sig = rev (takeWhile (\<lambda>c. c \<noteq> CHR ''.'') (rev s)) in Some (take (length s - length sig - 1) s, sig)
      else None)"

definition SESSION_COOKIE :: string where "SESSION_COOKIE = ''obs_session''"
definition SESSION_MAX_AGE :: nat where "SESSION_MAX_AGE = 7 * 24 * 60 * 60"
definition PROJECT_CACHE_TTL_MS :: nat where "PROJECT_CACHE_TTL_MS = 30000"

text \<open>Both the middleware and \<^verbatim>\<open>/auth/check\<close> go through these steps with a session value; \<open>now\<close> is in milliseconds.\<close>

datatype session_state = Missing | Invalid | Expired | Live

definition js_before :: "js_number \<Rightarrow> nat \<Rightarrow> bool" where
  "js_before x n = (case x of NaN \<Rightarrow> False | Infinity positive \<Rightarrow> \<not> positive | Num q \<Rightarrow> q < of_nat n)"

definition session_state :: "dash_platform \<Rightarrow> string \<Rightarrow> nat \<Rightarrow> string option \<Rightarrow> session_state" where
  "session_state D password now value =
     (case nonempty_text value of None \<Rightarrow> Missing
      | Some v \<Rightarrow> (case split_last_dot v of None \<Rightarrow> Invalid
          | Some (payload, sig) \<Rightarrow>
              if \<not> verify_signature D payload sig password then Invalid
              else (case parseSessionToken payload of None \<Rightarrow> Expired
                  | Some e \<Rightarrow> if js_before e (now div 1000) then Expired else Live)))"

section \<open>The middleware\<close>

record dash_request =
  dr_path :: string
  dr_cookie :: "string option"
  dr_accept :: "string option"
  dr_project :: "string option"

datatype dash_outcome = Reply nat string | ToLogin | Proceed "string option" | Threw string

type_synonym project_cache = "(string list \<times> nat) option"

text \<open>\<open>None\<close>: the store does not answer.\<close>

definition knownProjectIds :: "bool \<Rightarrow> projects_db \<Rightarrow> nat \<Rightarrow> project_cache \<Rightarrow> (string list \<times> project_cache) option" where
  "knownProjectIds up db now cache =
     (case cache of
        Some (ids, expiresAt) \<Rightarrow>
          if now < expiresAt then Some (ids, cache)
          else if up then Some (map po_id (listProjects db), Some (map po_id (listProjects db), now + PROJECT_CACHE_TTL_MS)) else None
      | None \<Rightarrow> if up then Some (map po_id (listProjects db), Some (map po_id (listProjects db), now + PROJECT_CACHE_TTL_MS)) else None)"

definition js_includes :: "string \<Rightarrow> string \<Rightarrow> bool" where
  "js_includes s t = list_ex (\<lambda>i. startsWith (drop i s) t) [0..<length s + 1]"

definition dashboard_middleware ::
  "dash_platform \<Rightarrow> string \<Rightarrow> bool \<Rightarrow> projects_db \<Rightarrow> nat \<Rightarrow> dash_request \<Rightarrow> project_cache \<Rightarrow> dash_outcome \<times> project_cache" where
  "dashboard_middleware D password up db now r cache =
     (if password = []
      then (Reply 500 ''DASHBOARD_PASSWORD is not configured. Set the DASHBOARD_PASSWORD environment variable.'', cache)
      else (case getCookie (dp_utf8 D) (dr_cookie r) SESSION_COOKIE of
          Inl e \<Rightarrow> (Threw e, cache)
        | Inr value \<Rightarrow> (case session_state D password now value of
              Missing \<Rightarrow> (if js_includes (case dr_accept r of Some a \<Rightarrow> a | None \<Rightarrow> []) ''text/html'' then ToLogin else Reply 401 ''Unauthorized'', cache)
            | Invalid \<Rightarrow> (Reply 401 ''Invalid session'', cache)
            | Expired \<Rightarrow> (Reply 401 ''Session expired'', cache)
            | Live \<Rightarrow>
                (if startsWith (dr_path r) ''/internal/'' \<and> \<not> startsWith (dr_path r) ''/internal/projects''
                 then let projectId = (case nonempty_text (map_option trim (dr_project r)) of Some p \<Rightarrow> p | None \<Rightarrow> ''default'') in
                   (case knownProjectIds up db now cache of
                      None \<Rightarrow> (Threw ''Error: database'', cache)
                    | Some (known, cache') \<Rightarrow>
                        if projectId \<noteq> ''default'' \<and> projectId \<notin> set known then (Reply 400 (''Unknown project: '' @ projectId), cache')
                        else (Proceed (Some projectId), cache'))
                 else (Proceed None, cache)))))"

section \<open>The routes\<close>

record login_response =
  lr_status :: nat
  lr_setCookie :: "string option"

definition session_cookie :: "bool \<Rightarrow> string \<Rightarrow> nat \<Rightarrow> string" where
  "session_cookie isSecure v maxAge =
     SESSION_COOKIE @ ''='' @ v @ ''; Path=/; HttpOnly; SameSite=Strict; Max-Age='' @ decimal maxAge @ (if isSecure then ''; Secure'' else [])"

definition cookie_value :: "dash_platform \<Rightarrow> string \<Rightarrow> nat \<Rightarrow> string" where
  "cookie_value D password now =
     (let payload = createSessionToken D (now div 1000 + SESSION_MAX_AGE) in payload @ ''.'' @ sign D payload password)"

text \<open>\<open>body\<close>: the parsed body, \<open>None\<close> where it is no JSON; a body \<^verbatim>\<open>null\<close> is a \<^verbatim>\<open>TypeError\<close>, which the framework answers with 500.\<close>

definition post_auth_login :: "dash_platform \<Rightarrow> string \<Rightarrow> nat \<Rightarrow> string \<Rightarrow> json option \<Rightarrow> login_response" where
  "post_auth_login D password now url body =
     (if password = [] \<or> body = Some JNull then \<lparr>lr_status = 500, lr_setCookie = None\<rparr>
      else let given = (case body of Some j \<Rightarrow> member_of j ''password'' | None \<Rightarrow> None) in
        if \<not> js_truthy given \<or> \<not> timingSafeEqualStr D (member_text (dp_num D) given) password then \<lparr>lr_status = 401, lr_setCookie = None\<rparr>
        else \<lparr>lr_status = 200,
              lr_setCookie = Some (session_cookie (startsWith url ''https:'') (encodeURIComponent (cookie_value D password now)) SESSION_MAX_AGE)\<rparr>)"

definition get_auth_check :: "dash_platform \<Rightarrow> string \<Rightarrow> nat \<Rightarrow> string option \<Rightarrow> string + bool" where
  "get_auth_check D password now cookieHeader =
     (case getCookie (dp_utf8 D) cookieHeader SESSION_COOKIE of Inl e \<Rightarrow> Inl e | Inr value \<Rightarrow> Inr (session_state D password now value = Live))"

definition post_auth_logout :: "string \<Rightarrow> login_response" where
  "post_auth_logout url = \<lparr>lr_status = 200, lr_setCookie = Some (session_cookie (startsWith url ''https:'') [] 0)\<rparr>"

section \<open>Cookies read back\<close>

lemma xor_nothing: "xor x y = 0 \<longleftrightarrow> x = (y :: byte)"
proof
  assume "xor x y = 0"
  then have "xor (xor x y) y = y" by simp
  then show "x = y" by (simp add: xor.assoc)
qed simp

lemma diff_zero: "foldl (\<lambda>d i. or d (f i)) d is = 0 \<longleftrightarrow> d = 0 \<and> (\<forall>i \<in> set is. f i = (0 :: byte))"
  by (induction "is" arbitrary: d) (auto simp: or_eq_0_iff)

lemma equal_digests:
  assumes "length (dp_sha256 D a) = length (dp_sha256 D b)"
  shows "timingSafeEqualStr D a b \<longleftrightarrow> dp_sha256 D a = dp_sha256 D b"
proof -
  have "(\<forall>i < length (dp_sha256 D a). dp_sha256 D a ! i = dp_sha256 D b ! i) \<longleftrightarrow> dp_sha256 D a = dp_sha256 D b"
  proof
    assume "\<forall>i < length (dp_sha256 D a). dp_sha256 D a ! i = dp_sha256 D b ! i"
    then show "dp_sha256 D a = dp_sha256 D b" by (intro nth_equalityI [OF assms]) simp
  qed simp
  moreover have "timingSafeEqualStr D a b \<longleftrightarrow> (\<forall>i < length (dp_sha256 D a). dp_sha256 D a ! i = dp_sha256 D b ! i)"
    using assms by (simp add: timingSafeEqualStr_def Let_def diff_zero xor_nothing Ball_def)
  ultimately show ?thesis by simp
qed

lemma equal_self: "timingSafeEqualStr D a a"
  by (simp add: equal_digests)

definition ascii :: "string \<Rightarrow> bool" where
  "ascii s \<longleftrightarrow> list_all (\<lambda>c. char_code c < 128) s"

lemma upper_hex_digits: "n < 16 \<Longrightarrow> is_hex_char (upper_hex n) \<and> radix_digit (upper_hex n) = n \<and> upper_hex n \<noteq> CHR '';''"
proof -
  have "list_all (\<lambda>n. is_hex_char (upper_hex n) \<and> radix_digit (upper_hex n) = n \<and> upper_hex n \<noteq> CHR '';'') [0..<16]" by code_simp
  then show "n < 16 \<Longrightarrow> is_hex_char (upper_hex n) \<and> radix_digit (upper_hex n) = n \<and> upper_hex n \<noteq> CHR '';''" by (simp add: list_all_iff)
qed

lemma not_plain: "\<not> uri_plain CHR ''%''" "\<not> uri_plain CHR '';''"
  by code_simp+

lemma items_append_char:
  "char_code c < 128 \<Longrightarrow> uri_items (encode_char c @ s) = map_option (Cons (if uri_plain c then Plain c else Escaped (char_code c))) (uri_items s)"
proof (cases "uri_plain c")
  case False
  assume c: "char_code c < 128"
  then have d: "char_code c div 16 < 16" "char_code c mod 16 < 16" by simp_all
  have "hex_code [upper_hex (char_code c div 16), upper_hex (char_code c mod 16)] = char_code c"
    using upper_hex_digits [OF d(1)] upper_hex_digits [OF d(2)] by (simp add: hex_code_def)
  then show ?thesis using False c upper_hex_digits [OF d(1)] upper_hex_digits [OF d(2)] by (simp add: encode_char_def percent_def Let_def)
qed (use not_plain in \<open>auto simp: encode_char_def\<close>)

lemma items_encoded: "ascii s \<Longrightarrow> uri_items (encodeURIComponent s) = Some (map (\<lambda>c. if uri_plain c then Plain c else Escaped (char_code c)) s)"
  by (induction s) (simp_all add: ascii_def encodeURIComponent_def items_append_char)

lemma text_encoded: "ascii s \<Longrightarrow> uri_text utf8 [] (map (\<lambda>c. if uri_plain c then Plain c else Escaped (char_code c)) s) = Some s"
  by (induction s) (simp_all add: ascii_def char_code_def)

lemma uri_roundtrip: "ascii s \<Longrightarrow> decodeURIComponent utf8 (encodeURIComponent s) = Some s"
  by (simp add: decodeURIComponent_def items_encoded text_encoded)

lemma no_semicolon: "ascii s \<Longrightarrow> CHR '';'' \<notin> set (encodeURIComponent s)"
proof (induction s)
  case (Cons c s)
  have "CHR '';'' \<notin> set (encode_char c)"
  proof (cases "uri_plain c")
    case False
    have d: "char_code c div 16 < 16" "char_code c mod 16 < 16" using Cons.prems by (auto simp: ascii_def)
    have "char_code c < 128" using Cons.prems by (simp add: ascii_def)
    then show ?thesis using False upper_hex_digits [OF d(1)] upper_hex_digits [OF d(2)] by (auto simp: encode_char_def percent_def Let_def)
  qed (use not_plain in \<open>auto simp: encode_char_def\<close>)
  then show ?case using Cons by (simp add: ascii_def encodeURIComponent_def)
qed (simp add: encodeURIComponent_def)

lemma cookie_found:
  assumes "ascii s" and "others = [] \<or> hd others = CHR '';''"
  shows "getCookie utf8 (Some (name @ ''='' @ encodeURIComponent s @ others)) name = Inr (Some s)"
proof -
  have "takeWhile (\<lambda>c. c \<noteq> CHR '';'') (encodeURIComponent s @ others) = encodeURIComponent s"
  proof -
    have "takeWhile (\<lambda>c. c \<noteq> CHR '';'') others = []" using assms(2) by (cases others) simp_all
    then show ?thesis using no_semicolon [OF assms(1)] by (subst takeWhile_append2) auto
  qed
  then show ?thesis by (simp add: getCookie_def nonempty_text_def cookie_at_def startsWith_def uri_roundtrip [OF assms(1)])
qed

lemma base64_chars: "list_all (\<lambda>b. b < 256) bs \<Longrightarrow> list_all (\<lambda>c. char_code c < 128 \<and> c \<noteq> CHR ''.'') (btoa bs)"
proof -
  define good where "good c \<longleftrightarrow> char_code c < 128 \<and> c \<noteq> CHR ''.''" for c
  have b64: "good (B64 ! n)" if "n < 64" for n
  proof -
    have "list_all (\<lambda>n. char_code (B64 ! n) < 128 \<and> B64 ! n \<noteq> CHR ''.'') [0..<64]" by code_simp
    then show ?thesis using that by (simp add: list_all_iff good_def)
  qed
  have "char_code CHR ''='' < 128" by code_simp
  then have eq: "good CHR ''=''" by (simp add: good_def)
  have parts: "a div 4 < 64" "a mod 4 * 16 < 64" "b mod 16 * 4 < 64" "a mod 4 * 16 + b div 16 < 64" "b mod 16 * 4 + c div 64 < 64" "c mod 64 < 64"
    if "a < 256" "b < 256" "c < (256 :: nat)" for a b c
  proof -
    have "a div 4 < 64" "b div 16 < 16" "c div 64 < 4" "a mod 4 < 4" "b mod 16 < 16" "c mod 64 < 64" using that by (simp_all add: div_less_iff_less_mult)
    then show "a div 4 < 64" "a mod 4 * 16 < 64" "b mod 16 * 4 < 64" "a mod 4 * 16 + b div 16 < 64" "b mod 16 * 4 + c div 64 < 64" "c mod 64 < 64"
      by linarith+
  qed
  have "list_all (\<lambda>b. b < 256) bs \<Longrightarrow> list_all good (btoa bs)"
  proof (induction bs rule: btoa.induct)
    case (2 a)
    then have a: "a < 256" "(0 :: nat) < 256" by simp_all
    show ?case unfolding btoa.simps using b64 [OF parts(1) [OF a(1,2,2)]] b64 [OF parts(2) [OF a(1,2,2)]] eq by (simp only: list.pred_inject simp_thms)
  next
    case (3 a b)
    then have a: "a < 256" "b < 256" "(0 :: nat) < 256" by simp_all
    show ?case unfolding btoa.simps using b64 [OF parts(1) [OF a]] b64 [OF parts(3) [OF a]] b64 [OF parts(4) [OF a]] eq by (simp only: list.pred_inject simp_thms)
  next
    case (4 a b c r)
    then have a: "a < 256" "b < 256" "c < 256" and r: "list_all good (btoa r)" by simp_all
    show ?case
      unfolding btoa.simps using b64 [OF parts(1) [OF a]] b64 [OF parts(4) [OF a]] b64 [OF parts(5) [OF a]] b64 [OF parts(6) [OF a]] r
      by (simp only: list.pred_inject simp_thms append_Cons append_Nil)
  qed simp
  then show "list_all (\<lambda>b. b < 256) bs \<Longrightarrow> list_all (\<lambda>c. char_code c < 128 \<and> c \<noteq> CHR ''.'') (btoa bs)" unfolding good_def .
qed

section \<open>Sessions\<close>

lemma sign_chars: "list_all (\<lambda>c. char_code c < 128 \<and> c \<noteq> CHR ''.'') (sign D payload secret)"
proof -
  have "unat b < 256" for b :: byte using unsigned_less [of b] by simp
  then show ?thesis unfolding sign_def by (intro base64_chars) (simp add: list_all_iff)
qed

lemma split_at_dot: "CHR ''.'' \<notin> set sig \<Longrightarrow> split_last_dot (payload @ CHR ''.'' # sig) = Some (payload, sig)"
proof -
  assume "CHR ''.'' \<notin> set sig"
  then have "takeWhile (\<lambda>c. c \<noteq> CHR ''.'') (rev sig @ CHR ''.'' # rev payload) = rev sig" by (subst takeWhile_append2) auto
  then show ?thesis by (simp add: split_last_dot_def)
qed

lemma token_printable: "numeral_ok (dp_num D) (of_nat e) \<Longrightarrow> printable_json (dp_num D) (JObj [(''exp'', JNum (Num (of_nat e)))])"
  by (simp add: make_object_def obj_define_def is_index_def is_digit_def char_code_def)

lemma token_reads: "numeral_ok (dp_num D) (of_nat e) \<Longrightarrow> parseSessionToken (createSessionToken D e) = Some (Num (of_nat e))"
  using JSON_roundtrip [OF token_printable [of D e]]
  by (simp add: parseSessionToken_def createSessionToken_def member_of_def map_get_def del: stringify.simps)

lemma number_char_ascii: "number_char c \<Longrightarrow> char_code c < 128"
  by (auto simp: number_char_def is_digit_def char_code_def)

lemma token_ascii: "numeral_ok (dp_num D) (of_nat e) \<Longrightarrow> ascii (createSessionToken D e)"
proof -
  assume "numeral_ok (dp_num D) (of_nat e)"
  then have "ascii (dp_num D (of_nat e))" using number_char_ascii by (auto simp: numeral_ok_def ascii_def list_all_iff)
  moreover have "ascii (quote ''exp'')" by code_simp
  moreover have "ascii ''{:}''" by code_simp
  ultimately show ?thesis by (simp add: createSessionToken_def ascii_def)
qed

lemma login_state:
  assumes "numeral_ok (dp_num D) (of_nat (now div 1000 + SESSION_MAX_AGE))"
  shows "session_state D password later (Some (cookie_value D password now)) = (if later div 1000 \<le> now div 1000 + SESSION_MAX_AGE then Live else Expired)"
proof -
  let ?e = "now div 1000 + SESSION_MAX_AGE" let ?p = "createSessionToken D ?e"
  have "CHR ''.'' \<notin> set (sign D ?p password)" using sign_chars [of D ?p password] by (auto simp: list_all_iff)
  then have "split_last_dot (cookie_value D password now) = Some (?p, sign D ?p password)" by (simp add: cookie_value_def Let_def split_at_dot)
  moreover have "cookie_value D password now \<noteq> []" by (simp add: cookie_value_def Let_def)
  moreover have "verify_signature D ?p (sign D ?p password) password" by (simp add: verify_signature_def equal_self)
  ultimately show ?thesis
    using token_reads [OF assms] by (simp add: session_state_def nonempty_text_def js_before_def del: of_nat_add)
qed

lemma cookie_ascii: "numeral_ok (dp_num D) (of_nat (now div 1000 + SESSION_MAX_AGE)) \<Longrightarrow> ascii (cookie_value D password now)"
  using token_ascii [of D "now div 1000 + SESSION_MAX_AGE"] sign_chars [of D "createSessionToken D (now div 1000 + SESSION_MAX_AGE)" password]
  by (auto simp: cookie_value_def Let_def ascii_def list_all_iff char_code_def)

text \<open>
  C33: The password opens a session of seven days: a login with the configured password answers 200 with a cookie, and a request that sends this cookie back,
  first among others, is live for the check route up to and including the second 604800 after that of the login, and expired from the next second on.  While it is
  live the middleware never asks for a new login: a path outside the scoped internal ones is let through, a scoped one is let through for the default project and for a
  project that the cached list or the store knows, answered with 400 for another, and fails only with the store; once expired, every path is answered with 401.
\<close>

theorem login_good_for_a_week:
  assumes "password \<noteq> []" and "numeral_ok (dp_num D) (of_nat (now div 1000 + 604800))"
    and "others = [] \<or> hd others = CHR '';''" and "cookie = ''obs_session='' @ encodeURIComponent (cookie_value D password now)"
    and "dr_cookie r = Some (cookie @ others)"
    and scoped: "scoped \<longleftrightarrow> startsWith (dr_path r) ''/internal/'' \<and> \<not> startsWith (dr_path r) ''/internal/projects''"
    and project: "project = (case nonempty_text (map_option trim (dr_project r)) of Some p \<Rightarrow> p | None \<Rightarrow> ''default'')"
  shows "post_auth_login D password now url (Some (JObj [(''password'', JStr password)])) =
      \<lparr>lr_status = 200, lr_setCookie = Some (cookie @ ''; Path=/; HttpOnly; SameSite=Strict; Max-Age=604800'' @ (if startsWith url ''https:'' then ''; Secure'' else []))\<rparr> \<and>
    fst (dashboard_middleware D password up db later r cache) =
      (if now div 1000 + 604800 < later div 1000 then Reply 401 ''Session expired''
       else if \<not> scoped then Proceed None
       else (case knownProjectIds up db later cache of
           None \<Rightarrow> Threw ''Error: database''
         | Some (known, cache') \<Rightarrow> if project \<in> insert ''default'' (set known) then Proceed (Some project) else Reply 400 (''Unknown project: '' @ project))) \<and>
    get_auth_check D password later (dr_cookie r) = Inr (later div 1000 \<le> now div 1000 + 604800)"
proof -
  have age: "SESSION_MAX_AGE = 604800" by (simp add: SESSION_MAX_AGE_def)
  have num: "numeral_ok (dp_num D) (of_nat (now div 1000 + SESSION_MAX_AGE))" using assms(2) by (simp add: age)
  have sent: "getCookie (dp_utf8 D) (dr_cookie r) SESSION_COOKIE = Inr (Some (cookie_value D password now))"
    using cookie_found [OF cookie_ascii [OF num, of password] assms(3), of "dp_utf8 D" SESSION_COOKIE] assms(4,5) by (simp add: SESSION_COOKIE_def)
  note live = login_state [OF num, of password later, unfolded age]
  have "char_of (54 :: nat) = CHR ''6''" "char_of (48 :: nat) = CHR ''0''" "char_of (52 :: nat) = CHR ''4''" "char_of (56 :: nat) = CHR ''8''" by code_simp+
  then have "decimal SESSION_MAX_AGE = ''604800''" unfolding age
    by (simp add: decimal.simps [of 604800] decimal.simps [of 60480] decimal.simps [of 6048] decimal.simps [of 604] decimal.simps [of 60] decimal.simps [of 6])
  then have cookie: "session_cookie secure (encodeURIComponent (cookie_value D password now)) SESSION_MAX_AGE =
      cookie @ ''; Path=/; HttpOnly; SameSite=Strict; Max-Age=604800'' @ (if secure then ''; Secure'' else [])" for secure
    by (simp add: session_cookie_def assms(4) SESSION_COOKIE_def)
  have given: "member_of (JObj [(''password'', JStr password)]) ''password'' = Some (JStr password)" by (simp add: member_of_def map_get_def)
  have "post_auth_login D password now url (Some (JObj [(''password'', JStr password)])) =
      \<lparr>lr_status = 200, lr_setCookie = Some (cookie @ ''; Path=/; HttpOnly; SameSite=Strict; Max-Age=604800'' @ (if startsWith url ''https:'' then ''; Secure'' else []))\<rparr>"
    using assms(1) equal_self by (simp add: post_auth_login_def given cookie js_truthy_def member_text_def)
  moreover have "fst (dashboard_middleware D password up db later r cache) =
      (if now div 1000 + 604800 < later div 1000 then Reply 401 ''Session expired''
       else if \<not> scoped then Proceed None
       else (case knownProjectIds up db later cache of
           None \<Rightarrow> Threw ''Error: database''
         | Some (known, cache') \<Rightarrow> if project \<in> insert ''default'' (set known) then Proceed (Some project) else Reply 400 (''Unknown project: '' @ project)))"
    using assms(1) by (simp add: dashboard_middleware_def sent live scoped project [symmetric] Let_def split: option.splits prod.splits)
  moreover have "get_auth_check D password later (dr_cookie r) = Inr (later div 1000 \<le> now div 1000 + 604800)"
    by (simp add: get_auth_check_def sent live)
  ultimately show ?thesis by blast
qed

lemma split_dot: "split_last_dot v = Some (payload, sig) \<Longrightarrow> v = payload @ CHR ''.'' # sig"
proof -
  assume s: "split_last_dot v = Some (payload, sig)"
  then have dot: "CHR ''.'' \<in> set (rev v)" and sig: "sig = rev (takeWhile (\<lambda>c. c \<noteq> CHR ''.'') (rev v))"
    and payload: "payload = take (length v - length sig - 1) v"
    by (auto simp: split_last_dot_def Let_def split: if_splits)
  obtain a b where v: "rev v = a @ CHR ''.'' # b" "CHR ''.'' \<notin> set a" using split_list_first [OF dot] by blast
  then have "takeWhile (\<lambda>c. c \<noteq> CHR ''.'') (rev v) = a" by (simp add: takeWhile_append2) (subst takeWhile_append2; auto)
  moreover have "v = rev b @ CHR ''.'' # rev a" using arg_cong [OF v(1), of rev] by simp
  ultimately show ?thesis using sig payload by simp
qed

lemma live_signed:
  assumes "session_state D password now found = Live"
  shows "\<exists>payload sig e. found = Some (payload @ CHR ''.'' # sig) \<and> verify_signature D payload sig password \<and>
    parseSessionToken payload = Some e \<and> \<not> js_before e (now div 1000)"
proof -
  obtain v where v: "nonempty_text found = Some v" using assms by (cases "nonempty_text found") (simp_all add: session_state_def)
  then have found: "found = Some v" by (auto simp: nonempty_text_def split: option.splits if_splits)
  obtain payload sig where p: "split_last_dot v = Some (payload, sig)" using assms by (cases "split_last_dot v") (auto simp: session_state_def v)
  have "verify_signature D payload sig password" using assms by (simp add: session_state_def v p split: if_splits)
  moreover obtain e where e: "parseSessionToken payload = Some e" using assms calculation by (cases "parseSessionToken payload") (simp_all add: session_state_def v p)
  moreover have "\<not> js_before e (now div 1000)" using assms calculation by (simp add: session_state_def v p split: if_splits)
  ultimately show ?thesis using found split_dot [OF p] by blast
qed

lemma known_cached: "knownProjectIds up db now cache = Some (known, cache') \<Longrightarrow> \<exists>expiresAt. cache' = Some (known, expiresAt)"
  by (auto simp: knownProjectIds_def split: option.splits prod.splits if_splits)

text \<open>
  C34: Nothing passes the middleware without a session: a request that is let through carries a cookie whose part after the last dot has the digest of the password's
  signature over the part before it, that part is a token whose expiry is not over, and a scoped path is only served for the default project or one that was listed.
\<close>

theorem session_required:
  assumes "\<And>t. length (dp_sha256 D t) = 32" and "dashboard_middleware D password up db now r cache = (Proceed project, cache')"
  shows "password \<noteq> [] \<and>
    (\<exists>payload sig e. getCookie (dp_utf8 D) (dr_cookie r) ''obs_session'' = Inr (Some (payload @ CHR ''.'' # sig)) \<and>
       dp_sha256 D sig = dp_sha256 D (sign D payload password) \<and> parseSessionToken payload = Some e \<and> \<not> js_before e (now div 1000)) \<and>
    (case project of None \<Rightarrow> \<not> startsWith (dr_path r) ''/internal/'' \<or> startsWith (dr_path r) ''/internal/projects''
     | Some p \<Rightarrow> p = ''default'' \<or> (case cache' of Some (ids, expiresAt) \<Rightarrow> p \<in> set ids | None \<Rightarrow> False))"
proof -
  have pw: "password \<noteq> []" using assms(2) by (auto simp: dashboard_middleware_def)
  obtain found where v: "getCookie (dp_utf8 D) (dr_cookie r) SESSION_COOKIE = Inr found"
    using assms(2) pw by (cases "getCookie (dp_utf8 D) (dr_cookie r) SESSION_COOKIE") (simp_all add: dashboard_middleware_def)
  have live: "session_state D password now found = Live"
    using assms(2) pw v by (cases "session_state D password now found") (auto simp: dashboard_middleware_def split: if_splits)
  obtain payload sig e where l: "found = Some (payload @ CHR ''.'' # sig)" "verify_signature D payload sig password"
    "parseSessionToken payload = Some e" "\<not> js_before e (now div 1000)"
    using live_signed [OF live] by blast
  have "dp_sha256 D sig = dp_sha256 D (sign D payload password)"
    using equal_digests [of D "sign D payload password" sig] assms(1) l(2) by (simp add: verify_signature_def)
  moreover have "getCookie (dp_utf8 D) (dr_cookie r) ''obs_session'' = Inr (Some (payload @ CHR ''.'' # sig))" using v l(1) by (simp add: SESSION_COOKIE_def)
  ultimately have signed: "\<exists>payload sig e. getCookie (dp_utf8 D) (dr_cookie r) ''obs_session'' = Inr (Some (payload @ CHR ''.'' # sig)) \<and>
       dp_sha256 D sig = dp_sha256 D (sign D payload password) \<and> parseSessionToken payload = Some e \<and> \<not> js_before e (now div 1000)"
    using l(3,4) by blast
  have "case project of None \<Rightarrow> \<not> startsWith (dr_path r) ''/internal/'' \<or> startsWith (dr_path r) ''/internal/projects''
     | Some p \<Rightarrow> p = ''default'' \<or> (case cache' of Some (ids, expiresAt) \<Rightarrow> p \<in> set ids | None \<Rightarrow> False)"
  proof (cases "startsWith (dr_path r) ''/internal/'' \<and> \<not> startsWith (dr_path r) ''/internal/projects''")
    case True
    define p where "p = (case nonempty_text (map_option trim (dr_project r)) of Some p \<Rightarrow> p | None \<Rightarrow> ''default'')"
    obtain known c where k: "knownProjectIds up db now cache = Some (known, c)"
      using assms(2) pw v live True by (cases "knownProjectIds up db now cache") (auto simp: dashboard_middleware_def Let_def)
    then have "project = Some p \<and> cache' = c \<and> (p = ''default'' \<or> p \<in> set known)"
      using assms(2) pw v live True by (simp add: dashboard_middleware_def Let_def p_def [symmetric] split: if_splits)
    then show ?thesis using known_cached [OF k] by (elim exE conjE) simp
  next
    case False
    then have "project = None" using assms(2) pw v live by (auto simp: dashboard_middleware_def)
    then show ?thesis using False by simp
  qed
  then show ?thesis using pw signed by blast
qed

text \<open>
  C35: A project that was just created cannot be used until the list of projects cached before expires, half a minute at most: every scoped request for it is answered
  with 400, although the store has it; after that it is served.
\<close>

theorem new_project_unknown:
  assumes "password \<noteq> []" and "getCookie (dp_utf8 D) (dr_cookie r) ''obs_session'' = Inr found"
    and "session_state D password now found = Live" and "session_state D password later found = Live"
    and "startsWith (dr_path r) ''/internal/''" and "\<not> startsWith (dr_path r) ''/internal/projects''"
    and "nonempty_text (map_option trim (dr_project r)) = Some p" and "p \<noteq> ''default''"
    and "dashboard_middleware D password True db listed r' None = (outcome, Some (ids, expiresAt))" and "p \<notin> po_id ` set (listProjects db)"
    and "createProject name slug p time db = (Inr project, db')" and "now < expiresAt" and "expiresAt \<le> later"
  shows "fst (dashboard_middleware D password True db' now r (Some (ids, expiresAt))) = Reply 400 (''Unknown project: '' @ p) \<and>
    fst (dashboard_middleware D password True db' later r (Some (ids, expiresAt))) = Proceed (Some p) \<and> expiresAt = listed + 30000"
proof -
  have cached: "ids = map po_id (listProjects db)" "expiresAt = listed + 30000"
    using assms(1,9) by (auto simp: dashboard_middleware_def knownProjectIds_def PROJECT_CACHE_TTL_MS_def Let_def split: sum.splits session_state.splits if_splits option.splits)
  have "p \<in> pj_id ` set (pd_projects db')"
    using assms(11) by (auto simp: createProject_def insert_project_def Let_def split: if_splits sum.splits)
  then have known: "p \<in> set (map po_id (listProjects db'))" by (force simp: listProjects_def rowToProject_def)
  have "fst (dashboard_middleware D password True db' now r (Some (ids, expiresAt))) = Reply 400 (''Unknown project: '' @ p)"
    using assms(1-3,5-8,10,12) cached(1) by (simp add: dashboard_middleware_def knownProjectIds_def SESSION_COOKIE_def)
  moreover have "fst (dashboard_middleware D password True db' later r (Some (ids, expiresAt))) = Proceed (Some p)"
    using assms(1,2,4-8,13) known by (simp add: dashboard_middleware_def knownProjectIds_def SESSION_COOKIE_def)
  ultimately show ?thesis using cached(2) by blast
qed

section \<open>A sample platform\<close>

text \<open>The signature is the text itself, as bytes; every numeral prints as 604800, the expiry of a login at time 0.\<close>

definition sample_dash :: dash_platform where
  "sample_dash = \<lparr>dp_hmac = (\<lambda>k t. [1, 2, 3]), dp_sha256 = (\<lambda>t. replicate 32 (of_nat (length t))), dp_utf8 = (\<lambda>_. None), dp_num = (\<lambda>_. ''604800'')\<rparr>"

definition sample_dash_request :: "string \<Rightarrow> string option \<Rightarrow> dash_request" where
  "sample_dash_request path project = \<lparr>dr_path = path, dr_cookie = Some (''obs_session='' @ encodeURIComponent (cookie_value sample_dash ''pw'' 0)),
     dr_accept = None, dr_project = project\<rparr>"

lemma week_text: "decimal 604800 = ''604800''"
proof -
  have "char_of (54 :: nat) = CHR ''6''" "char_of (48 :: nat) = CHR ''0''" "char_of (52 :: nat) = CHR ''4''" "char_of (56 :: nat) = CHR ''8''" by code_simp+
  then show ?thesis
    by (simp add: decimal.simps [of 604800] decimal.simps [of 60480] decimal.simps [of 6048] decimal.simps [of 604] decimal.simps [of 60] decimal.simps [of 6])
qed

lemma sample_numeral: "numeral_ok (dp_num sample_dash) (of_nat (0 div 1000 + 604800))"
proof -
  have "js_Number ''604800'' = Num 604800" using js_Number_decimal [of 604800] by (simp add: week_text)
  moreover have "list_all number_char ''604800'' \<and> json_numeral ''604800''" by code_simp
  ultimately show ?thesis by (simp add: numeral_ok_def sample_dash_def)
qed

lemma sample_cookie:
  "getCookie (dp_utf8 sample_dash) (dr_cookie (sample_dash_request path project)) ''obs_session'' = Inr (Some (cookie_value sample_dash ''pw'' 0))"
  "later div 1000 \<le> 604800 \<Longrightarrow> session_state sample_dash ''pw'' later (Some (cookie_value sample_dash ''pw'' 0)) = Live"
proof -
  have n: "numeral_ok (dp_num sample_dash) (of_nat (0 div 1000 + SESSION_MAX_AGE))" using sample_numeral by (simp add: SESSION_MAX_AGE_def)
  show "getCookie (dp_utf8 sample_dash) (dr_cookie (sample_dash_request path project)) ''obs_session'' = Inr (Some (cookie_value sample_dash ''pw'' 0))"
    using cookie_found [OF cookie_ascii [OF n, of "''pw''"], of "[]" "dp_utf8 sample_dash" "''obs_session''"] by (simp add: sample_dash_request_def)
  show "later div 1000 \<le> 604800 \<Longrightarrow> session_state sample_dash ''pw'' later (Some (cookie_value sample_dash ''pw'' 0)) = Live"
    using login_state [OF n, of "''pw''" later] by (simp add: SESSION_MAX_AGE_def)
qed

theorem login_good_for_a_week_witness:
  "fst (dashboard_middleware sample_dash ''pw'' True \<lparr>pd_projects = [], pd_keys = []\<rparr> 604801000 (sample_dash_request ''/internal/x'' None) None) = Reply 401 ''Session expired'' \<and>
   fst (dashboard_middleware sample_dash ''pw'' True \<lparr>pd_projects = [], pd_keys = []\<rparr> 604800000 (sample_dash_request ''/internal/x'' None) None) = Proceed (Some ''default'')"
proof -
  have sent: "dr_cookie (sample_dash_request ''/internal/x'' None) = Some ((''obs_session='' @ encodeURIComponent (cookie_value sample_dash ''pw'' 0)) @ [])"
    by (simp add: sample_dash_request_def)
  have path: "startsWith (dr_path (sample_dash_request ''/internal/x'' None)) ''/internal/''" "\<not> startsWith (dr_path (sample_dash_request ''/internal/x'' None)) ''/internal/projects''"
    "nonempty_text (map_option trim (dr_project (sample_dash_request ''/internal/x'' None))) = None"
    by (simp_all add: sample_dash_request_def startsWith_def nonempty_text_def)
  show ?thesis
    using login_good_for_a_week [OF _ sample_numeral _ refl sent refl refl, of "''http:''" True "\<lparr>pd_projects = [], pd_keys = []\<rparr>" 604801000 None]
      login_good_for_a_week [OF _ sample_numeral _ refl sent refl refl, of "''http:''" True "\<lparr>pd_projects = [], pd_keys = []\<rparr>" 604800000 None] path
    by (simp add: knownProjectIds_def)
qed

theorem session_required_witness:
  "\<exists>payload sig. getCookie (dp_utf8 sample_dash) (dr_cookie (sample_dash_request ''/dashboard/x'' None)) ''obs_session'' = Inr (Some (payload @ CHR ''.'' # sig)) \<and>
     dp_sha256 sample_dash sig = dp_sha256 sample_dash (sign sample_dash payload ''pw'')"
proof -
  have "dashboard_middleware sample_dash ''pw'' True \<lparr>pd_projects = [], pd_keys = []\<rparr> 5 (sample_dash_request ''/dashboard/x'' None) None = (Proceed None, None)"
    using sample_cookie(1) [of "''/dashboard/x''" None] sample_cookie(2) [of 5] by (simp add: dashboard_middleware_def SESSION_COOKIE_def) (simp add: sample_dash_request_def startsWith_def)
  from session_required [OF _ this] show ?thesis by (simp add: sample_dash_def) blast
qed

theorem new_project_unknown_witness:
  "\<exists>db'. createProject ''N'' ''n'' ''p'' ''0'' \<lparr>pd_projects = [], pd_keys = []\<rparr> = (Inr \<lparr>po_id = ''p'', po_name = ''N'', po_slug = ''n'', po_createdAt = ''0'', po_payloadCaptureEnabled = False\<rparr>, db') \<and>
     fst (dashboard_middleware sample_dash ''pw'' True db' 20000 (sample_dash_request ''/internal/x'' (Some ''p'')) (Some ([], 30000))) = Reply 400 ''Unknown project: p''"
proof -
  let ?db = "\<lparr>pd_projects = [], pd_keys = []\<rparr> :: projects_db"
  have "slug_ok ''n''" "trim ''N'' = ''N''" "toLowerCase (trim ''n'') = ''n''" "trim ''p'' = ''p''" by code_simp+
  then obtain db' where c: "createProject ''N'' ''n'' ''p'' ''0'' ?db =
      (Inr \<lparr>po_id = ''p'', po_name = ''N'', po_slug = ''n'', po_createdAt = ''0'', po_payloadCaptureEnabled = False\<rparr>, db')" and t: "trim ''p'' = ''p''"
    by (simp add: createProject_def insert_project_def Let_def)
  let ?r = "sample_dash_request ''/internal/x'' (Some ''p'')"
  have path: "startsWith (dr_path ?r) ''/internal/''" "\<not> startsWith (dr_path ?r) ''/internal/projects''" "nonempty_text (map_option trim (dr_project ?r)) = Some ''p''"
    using t by (simp_all add: sample_dash_request_def startsWith_def nonempty_text_def)
  have first: "dashboard_middleware sample_dash ''pw'' True ?db 0 (sample_dash_request ''/internal/x'' None) None = (Proceed (Some ''default''), Some ([], 30000))"
    using sample_cookie(1) [of "''/internal/x''" None] sample_cookie(2) [of 0]
    by (simp add: dashboard_middleware_def SESSION_COOKIE_def knownProjectIds_def listProjects_def PROJECT_CACHE_TTL_MS_def) (simp add: sample_dash_request_def startsWith_def nonempty_text_def)
  have "''p'' \<notin> po_id ` set (listProjects ?db)" by (simp add: listProjects_def)
  from new_project_unknown [OF _ sample_cookie(1) sample_cookie(2) [of 20000] sample_cookie(2) [of 30000] path _ first this c] c show ?thesis by simp
qed

end
