(* ===== verification/Sdk_Exporter.thy ===== *)
theory Sdk_Exporter
  imports Json "HOL-Library.Sublist"
begin

text \<open>
  The buffers in which the telemetry SDK keeps what it has recorded until the collector has it: \<^verbatim>\<open>packages/telemetry-sdk/src/logger.ts\<close>,
  \<^verbatim>\<open>span.ts\<close> and \<^verbatim>\<open>ai.ts\<close>, which share one design, and \<^verbatim>\<open>flush-lifecycle.ts\<close>, which flushes them.  A flush runs up to its
  \<^verbatim>\<open>await fetch\<close> in one step, and the reply is another; between them the application goes on recording.  How the payload of a request
  is built is a parameter of the machine that may throw, and modelled for each of the three.  Shown for all three: the buffer is
  bounded, what is requested and what is answered is in order and answered once, nothing is lost while less than a buffer's worth is outstanding, and
  where records are lost.
\<close>

section \<open>The buffer\<close>

text \<open>What distinguishes the three: the cap, the length at which recording starts a flush, and whether the configuration matters to recording
  and ends with a shutdown.\<close>

record export_policy =
  xp_cap :: nat
  xp_trigger :: "nat option"
  xp_needs_config :: bool
  xp_forgets :: bool

definition push_buffer :: "nat \<Rightarrow> 'a \<Rightarrow> 'a list \<Rightarrow> 'a list" where
  "push_buffer cap x b = (if cap \<le> length b then drop (length b - cap + 1) b else b) @ [x]"

definition requeue :: "nat \<Rightarrow> 'a list \<Rightarrow> 'a list \<Rightarrow> 'a list" where
  "requeue cap batch b =
     (if batch = [] then b
      else let r = batch @ b in if cap < length r then drop (length r - cap) r else r)"

text \<open>The state of one exporter.  \<open>xs_flight\<close> is the batch of the flush in progress; of the shutdowns that wait for a flush to
  end, \<open>xs_ended\<close> may go on.  \<open>xs_stuck\<close>: a payload could not be built and \<^verbatim>\<open>flushInProgress\<close> is still set.  \<open>xs_offered\<close>, \<open>xs_started\<close> and
  \<open>xs_answered\<close> are its history: all that was recorded, the requests that were started, each with its batch and payload, and the batches that
  were answered, with the status of the answer.\<close>

record ('a, 'p) exporter =
  xs_config :: bool
  xs_lifecycle :: bool
  xs_buffer :: "'a list"
  xs_flight :: "'a list option"
  xs_stuck :: bool
  xs_awaited :: bool
  xs_ended :: nat
  xs_offered :: "'a list"
  xs_started :: "('a list \<times> 'p) list"
  xs_answered :: "('a list \<times> nat) list"

definition new_exporter :: "('a, 'p) exporter" where
  "new_exporter = \<lparr>xs_config = False, xs_lifecycle = False, xs_buffer = [], xs_flight = None, xs_stuck = False, xs_awaited = False, xs_ended = 0,
     xs_offered = [], xs_started = [], xs_answered = []\<rparr>"

type_synonym ('a, 'p) builder = "'a list \<Rightarrow> string + 'p"

section \<open>Its operations\<close>

definition init_exporter :: "('a, 'p) exporter \<Rightarrow> ('a, 'p) exporter" where
  "init_exporter s = s\<lparr>xs_config := True, xs_lifecycle := True\<rparr>"

text \<open>The payload is built before the \<^verbatim>\<open>try\<close>: when that throws, the batch is gone and the flag stays set.\<close>

definition flush_buffer :: "('a, 'p) builder \<Rightarrow> ('a, 'p) exporter \<Rightarrow> ('a, 'p) exporter" where
  "flush_buffer build s =
     (if \<not> xs_config s \<or> xs_buffer s = [] \<or> xs_flight s \<noteq> None \<or> xs_stuck s then s
      else (case build (xs_buffer s) of
          Inl e \<Rightarrow> s\<lparr>xs_buffer := [], xs_stuck := True\<rparr>
        | Inr payload \<Rightarrow> s\<lparr>xs_buffer := [], xs_flight := Some (xs_buffer s), xs_started := xs_started s @ [(xs_buffer s, payload)]\<rparr>))"

definition enqueue_item :: "export_policy \<Rightarrow> ('a, 'p) builder \<Rightarrow> 'a \<Rightarrow> ('a, 'p) exporter \<Rightarrow> ('a, 'p) exporter" where
  "enqueue_item pol build x s =
     (if xp_needs_config pol \<and> \<not> xs_config s then s
      else let s1 = s\<lparr>xs_buffer := push_buffer (xp_cap pol) x (xs_buffer s), xs_offered := xs_offered s @ [x]\<rparr>
        in case xp_trigger pol of
             Some n \<Rightarrow> if n \<le> length (xs_buffer s1) \<and> xs_flight s1 = None \<and> \<not> xs_stuck s1 then flush_buffer build s1 else s1
           | None \<Rightarrow> s1)"

text \<open>\<^verbatim>\<open>fetch\<close> resolves with whatever status the collector answers, and rejects when there is no answer within ten seconds; a payload that has no
  JSON text is caught in the same place.\<close>

datatype reply = Answered nat | No_answer

definition flush_reply :: "export_policy \<Rightarrow> reply \<Rightarrow> ('a, 'p) exporter \<Rightarrow> ('a, 'p) exporter" where
  "flush_reply pol r s =
     (case xs_flight s of
        None \<Rightarrow> s
      | Some batch \<Rightarrow>
          (let s1 = (case r of Answered n \<Rightarrow> s\<lparr>xs_answered := xs_answered s @ [(batch, n)]\<rparr>
                 | No_answer \<Rightarrow> s\<lparr>xs_buffer := requeue (xp_cap pol) batch (xs_buffer s)\<rparr>)
           in s1\<lparr>xs_flight := None, xs_awaited := False, xs_ended := (if xs_awaited s then Suc (xs_ended s) else xs_ended s)\<rparr>))"

text \<open>A shutdown awaits the flush it starts, which returns at once when another is in progress and rejects when the payload cannot be built.\<close>

definition shutdown_exporter :: "export_policy \<Rightarrow> ('a, 'p) builder \<Rightarrow> ('a, 'p) exporter \<Rightarrow> ('a, 'p) exporter" where
  "shutdown_exporter pol build s =
     (let s1 = flush_buffer build (s\<lparr>xs_lifecycle := False\<rparr>)
      in if \<not> xp_forgets pol then s1
         else if xs_flight s = None \<and> xs_flight s1 \<noteq> None then s1\<lparr>xs_awaited := True\<rparr>
         else if \<not> xs_stuck s \<and> xs_stuck s1 then s1
         else s1\<lparr>xs_ended := Suc (xs_ended s1)\<rparr>)"

text \<open>A shutdown goes on after the flush it awaited: the configuration is dropped.\<close>

definition shutdown_ends :: "('a, 'p) exporter \<Rightarrow> ('a, 'p) exporter" where
  "shutdown_ends s = (case xs_ended s of 0 \<Rightarrow> s | Suc n \<Rightarrow> s\<lparr>xs_config := False, xs_ended := n\<rparr>)"

text \<open>The timer and the events of the page or the process flush only while the lifecycle is installed.\<close>

datatype 'a export_event = Init | Record 'a | Flush | Lifecycle | Reply_came reply | Shutdown | Shutdown_goes_on

fun export_step :: "export_policy \<Rightarrow> ('a, 'p) builder \<Rightarrow> 'a export_event \<Rightarrow> ('a, 'p) exporter \<Rightarrow> ('a, 'p) exporter" where
  "export_step pol build Init s = init_exporter s"
| "export_step pol build (Record x) s = enqueue_item pol build x s"
| "export_step pol build Flush s = flush_buffer build s"
| "export_step pol build Lifecycle s = (if xs_lifecycle s then flush_buffer build s else s)"
| "export_step pol build (Reply_came r) s = flush_reply pol r s"
| "export_step pol build Shutdown s = shutdown_exporter pol build s"
| "export_step pol build Shutdown_goes_on s = shutdown_ends s"

definition export_run :: "export_policy \<Rightarrow> ('a, 'p) builder \<Rightarrow> 'a export_event list \<Rightarrow> ('a, 'p) exporter \<Rightarrow> ('a, 'p) exporter" where
  "export_run pol build es s = foldl (\<lambda>s e. export_step pol build e s) s es"

section \<open>The three exporters\<close>

definition log_exporter :: export_policy where
  "log_exporter = \<lparr>xp_cap = 500, xp_trigger = Some 20, xp_needs_config = False, xp_forgets = False\<rparr>"

definition span_exporter :: export_policy where
  "span_exporter = \<lparr>xp_cap = 200, xp_trigger = None, xp_needs_config = True, xp_forgets = True\<rparr>"

definition ai_exporter :: export_policy where
  "ai_exporter = \<lparr>xp_cap = 200, xp_trigger = Some 10, xp_needs_config = False, xp_forgets = False\<rparr>"

section \<open>Their payloads\<close>

text \<open>\<^verbatim>\<open>buildOtlpLogsPayload\<close>: the logs of a batch grouped by logger, in the order in which the loggers first appear.\<close>

record buffered_log =
  bl_severity :: string
  bl_severityNumber :: nat
  bl_loggerName :: string
  bl_message :: string
  bl_attributes :: "(string \<times> json) list"
  bl_occurredAtNs :: string
  bl_traceId :: "string option"
  bl_spanId :: "string option"

fun toOtlpAnyValue :: "(rat \<Rightarrow> string) \<Rightarrow> json \<Rightarrow> json" where
  "toOtlpAnyValue num JNull = JObj []"
| "toOtlpAnyValue num (JStr t) = JObj [(''stringValue'', JStr t)]"
| "toOtlpAnyValue num (JBool b) = JObj [(''boolValue'', JBool b)]"
| "toOtlpAnyValue num (JNum x) =
     (case x of Num r \<Rightarrow> if of_int \<lfloor>r\<rfloor> = r then JObj [(''intValue'', JStr (num r))] else JObj [(''doubleValue'', JNum x)]
      | _ \<Rightarrow> JObj [(''doubleValue'', JNum x)])"
| "toOtlpAnyValue num (JArr xs) = JObj [(''arrayValue'', JObj [(''values'', JArr (map (toOtlpAnyValue num) xs))])]"
| "toOtlpAnyValue num (JObj kvs) =
     JObj [(''kvlistValue'', JObj [(''values'', JArr (map (\<lambda>(k, v). JObj [(''key'', JStr k), (''value'', toOtlpAnyValue num v)]) kvs))])]"

definition toOtlpLogRecord :: "(rat \<Rightarrow> string) \<Rightarrow> buffered_log \<Rightarrow> json" where
  "toOtlpLogRecord num l =
     JObj ([(''timeUnixNano'', JStr (bl_occurredAtNs l)), (''observedTimeUnixNano'', JStr (bl_occurredAtNs l)),
        (''severityNumber'', JNum (Num (of_nat (bl_severityNumber l)))), (''severityText'', JStr (bl_severity l)),
        (''body'', JObj [(''stringValue'', JStr (bl_message l))])] @
       (if bl_attributes l = [] then []
        else [(''attributes'', JArr (map (\<lambda>(k, v). JObj [(''key'', JStr k), (''value'', toOtlpAnyValue num v)]) (bl_attributes l)))]) @
       (case bl_traceId l of Some (c # cs) \<Rightarrow> [(''traceId'', JStr (c # cs))] | _ \<Rightarrow> []) @
       (case bl_spanId l of Some (c # cs) \<Rightarrow> [(''spanId'', JStr (c # cs))] | _ \<Rightarrow> []))"

text \<open>The map \<^verbatim>\<open>byLogger\<close>, in insertion order.\<close>

fun group_log :: "buffered_log \<Rightarrow> (string \<times> buffered_log list) list \<Rightarrow> (string \<times> buffered_log list) list" where
  "group_log l [] = [(bl_loggerName l, [l])]"
| "group_log l ((name, ls) # gs) = (if name = bl_loggerName l then (name, ls @ [l]) # gs else (name, ls) # group_log l gs)"

record logs_payload =
  lp_serviceName :: string
  lp_scopeLogs :: "(string \<times> json list) list"

definition buildOtlpLogsPayload :: "(rat \<Rightarrow> string) \<Rightarrow> string \<Rightarrow> (buffered_log, logs_payload) builder" where
  "buildOtlpLogsPayload num serviceName batch =
     Inr \<lparr>lp_serviceName = serviceName,
          lp_scopeLogs = map (\<lambda>(name, ls). (name, map (toOtlpLogRecord num) ls)) (fold group_log batch [])\<rparr>"

text \<open>A request of the span exporter: its resource spans, which may be missing.\<close>

definition mergeTraceExportRequests :: "('r list option, 'r list) builder" where
  "mergeTraceExportRequests batch = Inr (concat (map (\<lambda>request. case request of Some rs \<Rightarrow> rs | None \<Rightarrow> []) batch))"

definition ai_call_payload :: "('c, 'c list) builder" where
  "ai_call_payload batch = Inr batch"

text \<open>Grouping keeps every log, once, under its logger, and the order of a logger's logs.\<close>

lemma group_log_keys:
  "distinct (map fst gs) \<Longrightarrow> distinct (map fst (group_log l gs)) \<and> set (map fst (group_log l gs)) = insert (bl_loggerName l) (set (map fst gs))"
  by (induction l gs rule: group_log.induct) auto

lemma group_log_of:
  "distinct (map fst gs) \<Longrightarrow> map_of (group_log l gs) name =
     (if name = bl_loggerName l then Some (case map_of gs name of Some ls \<Rightarrow> ls @ [l] | None \<Rightarrow> [l]) else map_of gs name)"
  by (induction l gs rule: group_log.induct) auto

lemma grouped_keys: "distinct (map fst (fold group_log batch [])) \<and> set (map fst (fold group_log batch [])) = bl_loggerName ` set batch"
proof (induction batch rule: rev_induct)
  case (snoc l batch)
  then show ?case using group_log_keys [of "fold group_log batch []" l] by simp
qed simp

lemma grouped_logs:
  "map_of (fold group_log batch []) name = (if name \<in> bl_loggerName ` set batch then Some (filter (\<lambda>l. bl_loggerName l = name) batch) else None)"
proof (induction batch rule: rev_induct)
  case (snoc l batch)
  have none: "filter (\<lambda>l. bl_loggerName l = name) batch = []" if "name \<notin> bl_loggerName ` set batch"
    using that by (auto simp: filter_empty_conv)
  show ?case using snoc grouped_keys [of batch] none by (auto simp: group_log_of)
qed simp

lemma logs_payload:
  "\<exists>payload. buildOtlpLogsPayload num service logs = Inr payload \<and> distinct (map fst (lp_scopeLogs payload)) \<and>
     (\<forall>name. map_of (lp_scopeLogs payload) name = (if name \<in> bl_loggerName ` set logs
        then Some (map (toOtlpLogRecord num) (filter (\<lambda>l. bl_loggerName l = name) logs)) else None))"
proof -
  let ?gs = "fold group_log logs []" and ?f = "\<lambda>(name :: string, ls). (name, map (toOtlpLogRecord num) ls)"
  have "map fst (map ?f ?gs) = map fst ?gs" by (simp add: comp_def case_prod_unfold)
  moreover have "map_of (map ?f ?gs) name = (if name \<in> bl_loggerName ` set logs
      then Some (map (toOtlpLogRecord num) (filter (\<lambda>l. bl_loggerName l = name) logs)) else None)" for name
    unfolding map_of_map comp_apply grouped_logs by simp
  ultimately show ?thesis using grouped_keys [of logs] by (intro exI conjI) (auto simp only: buildOtlpLogsPayload_def logs_payload.simps)
qed

section \<open>What every policy keeps\<close>

lemma export_run_Nil [simp]: "export_run pol build [] s = s"
  by (simp add: export_run_def)

lemma export_run_Cons [simp]: "export_run pol build (e # es) s = export_run pol build es (export_step pol build e s)"
  by (simp add: export_run_def)

lemma export_run_append: "export_run pol build (es @ es') s = export_run pol build es' (export_run pol build es s)"
  by (simp add: export_run_def)

lemma subseq_drop_right: "subseq (as @ drop n bs) (as @ bs)"
  by (rule list_emb_append_mono) (simp_all add: suffix_drop suffix_imp_subseq)

lemma push_suffix: "\<exists>n. push_buffer cap x b = drop n (b @ [x]) \<and> (length b < cap \<longrightarrow> n = 0)"
proof (cases "cap \<le> length b \<and> cap \<noteq> 0")
  case True
  then show ?thesis by (intro exI [of _ "length b - cap + 1"]) (simp add: push_buffer_def)
next
  case False
  then show ?thesis by (cases "cap = 0") (auto simp: push_buffer_def intro: exI [of _ "length b"] exI [of _ 0])
qed

lemma requeue_suffix: "\<exists>n. requeue cap batch b = drop n (batch @ b) \<and> (length batch + length b \<le> cap \<longrightarrow> n = 0)"
  by (cases "batch = []"; cases "cap < length batch + length b")
    (auto simp: requeue_def Let_def intro: exI [of _ 0] exI [of _ "length batch + length b - cap"])

definition in_flight :: "('a, 'p) exporter \<Rightarrow> 'a list" where
  "in_flight s = (case xs_flight s of Some b \<Rightarrow> b | None \<Rightarrow> [])"

definition answered_items :: "('a, 'p) exporter \<Rightarrow> 'a list" where
  "answered_items s = concat (map fst (xs_answered s))"

text \<open>The requests are built from batches of records in their order, and what is answered or in flight was requested.\<close>

definition requests_ok :: "('a, 'p) builder \<Rightarrow> ('a, 'p) exporter \<Rightarrow> bool" where
  "requests_ok build s \<longleftrightarrow> (\<forall>(batch, payload) \<in> set (xs_started s). subseq batch (xs_offered s) \<and> build batch = Inr payload) \<and>
     fst ` set (xs_answered s) \<union> set_option (xs_flight s) \<subseteq> fst ` set (xs_started s)"

definition exporter_ok :: "nat \<Rightarrow> ('a, 'p) builder \<Rightarrow> ('a, 'p) exporter \<Rightarrow> bool" where
  "exporter_ok cap build s \<longleftrightarrow> length (xs_buffer s) \<le> cap \<and> length (in_flight s) \<le> cap \<and>
     subseq (answered_items s @ in_flight s @ xs_buffer s) (xs_offered s) \<and> requests_ok build s"

definition exporter_whole :: "nat \<Rightarrow> ('a, 'p) exporter \<Rightarrow> bool" where
  "exporter_whole cap s \<longleftrightarrow> \<not> xs_stuck s \<and> length (in_flight s) + length (xs_buffer s) \<le> cap \<and> answered_items s @ in_flight s @ xs_buffer s = xs_offered s"

text \<open>A payload can be built of every batch.\<close>

definition builds :: "('a, 'p) builder \<Rightarrow> bool" where
  "builds build \<longleftrightarrow> (\<forall>batch e. build batch \<noteq> Inl e)"

lemma payloads_build: "builds (buildOtlpLogsPayload num service)" "builds mergeTraceExportRequests" "builds ai_call_payload"
  by (simp_all add: builds_def buildOtlpLogsPayload_def mergeTraceExportRequests_def ai_call_payload_def)

text \<open>A record is made while less than a buffer's worth is outstanding.\<close>

definition has_room :: "export_policy \<Rightarrow> ('a, 'p) exporter \<Rightarrow> 'a export_event \<Rightarrow> bool" where
  "has_room pol s e \<longleftrightarrow> (case e of Record x \<Rightarrow> length (in_flight s) + length (xs_buffer s) < xp_cap pol | _ \<Rightarrow> True)"

fun roomy :: "export_policy \<Rightarrow> ('a, 'p) builder \<Rightarrow> 'a export_event list \<Rightarrow> ('a, 'p) exporter \<Rightarrow> bool" where
  "roomy pol build [] s \<longleftrightarrow> True"
| "roomy pol build (e # es) s \<longleftrightarrow> has_room pol s e \<and> roomy pol build es (export_step pol build e s)"

lemma flush_cases:
  obtains "flush_buffer build s = s"
  | e where "build (xs_buffer s) = Inl e" "xs_flight s = None" "flush_buffer build s = s\<lparr>xs_buffer := [], xs_stuck := True\<rparr>"
  | payload where "build (xs_buffer s) = Inr payload" "xs_flight s = None" "\<not> xs_stuck s" "xs_config s"
      "flush_buffer build s = s\<lparr>xs_buffer := [], xs_flight := Some (xs_buffer s), xs_started := xs_started s @ [(xs_buffer s, payload)]\<rparr>"
proof (cases "\<not> xs_config s \<or> xs_buffer s = [] \<or> xs_flight s \<noteq> None \<or> xs_stuck s")
  case True
  then show ?thesis by (intro that(1)) (simp only: flush_buffer_def if_True)
next
  case False
  then show ?thesis
    by (cases "build (xs_buffer s)") (simp_all add: flush_buffer_def that(2,3))
qed

lemma subseq_last: "subseq (as @ bs) cs \<Longrightarrow> subseq bs cs"
  using subseq_order.order_trans [of bs "as @ bs" cs] by (simp add: list_emb_append2)

lemma flush_ok:
  assumes "exporter_ok cap build s"
  shows "exporter_ok cap build (flush_buffer build s)"
proof (cases rule: flush_cases [of build s])
  case 1
  then show ?thesis using assms by simp
next
  case (2 e)
  have "subseq (answered_items s) (xs_offered s)"
    using assms subseq_order.order_trans [of "answered_items s" "answered_items s @ in_flight s @ xs_buffer s" "xs_offered s"]
    by (simp add: exporter_ok_def subseq_rev_drop_many)
  then show ?thesis using assms 2 by (simp add: exporter_ok_def in_flight_def answered_items_def requests_ok_def)
next
  case (3 payload)
  have "subseq (xs_buffer s) (xs_offered s)"
    using assms subseq_last [of "answered_items s @ in_flight s" "xs_buffer s" "xs_offered s"] by (simp add: exporter_ok_def)
  then show ?thesis using assms 3 by (auto simp: exporter_ok_def in_flight_def answered_items_def requests_ok_def)
qed

lemma flush_whole: "builds build \<Longrightarrow> exporter_whole cap s \<Longrightarrow> exporter_whole cap (flush_buffer build s)"
  by (cases rule: flush_cases [of build s]) (auto simp: exporter_whole_def in_flight_def answered_items_def builds_def)

lemma ok_frame:
  "exporter_ok cap build (s\<lparr>xs_config := a\<rparr>) = exporter_ok cap build s" "exporter_ok cap build (s\<lparr>xs_lifecycle := a\<rparr>) = exporter_ok cap build s"
  "exporter_ok cap build (s\<lparr>xs_awaited := a\<rparr>) = exporter_ok cap build s" "exporter_ok cap build (s\<lparr>xs_ended := n\<rparr>) = exporter_ok cap build s"
  "exporter_whole cap (s\<lparr>xs_config := a\<rparr>) = exporter_whole cap s" "exporter_whole cap (s\<lparr>xs_lifecycle := a\<rparr>) = exporter_whole cap s"
  "exporter_whole cap (s\<lparr>xs_awaited := a\<rparr>) = exporter_whole cap s" "exporter_whole cap (s\<lparr>xs_ended := n\<rparr>) = exporter_whole cap s"
  by (simp_all add: exporter_ok_def exporter_whole_def in_flight_def answered_items_def requests_ok_def)

lemma ended_frame:
  "exporter_ok cap build (shutdown_ends s) = exporter_ok cap build s" "exporter_whole cap (shutdown_ends s) = exporter_whole cap s"
  by (auto simp: shutdown_ends_def ok_frame split: nat.split)

lemma push_length: "0 < cap \<Longrightarrow> length b \<le> cap \<Longrightarrow> length (push_buffer cap x b) \<le> cap"
  by (auto simp: push_buffer_def)

lemma requeue_length: "length b \<le> cap \<Longrightarrow> length (requeue cap batch b) \<le> cap"
  by (simp add: requeue_def Let_def)

lemma pushed_ok:
  assumes "exporter_ok cap build s" and "0 < cap"
  shows "exporter_ok cap build (s\<lparr>xs_buffer := push_buffer cap x (xs_buffer s), xs_offered := xs_offered s @ [x]\<rparr>)"
proof -
  let ?past = "answered_items s @ in_flight s"
  obtain n where n: "push_buffer cap x (xs_buffer s) = drop n (xs_buffer s @ [x])" using push_suffix [of cap x "xs_buffer s"] by (elim exE conjE)
  have "subseq (?past @ xs_buffer s) (xs_offered s)" using assms(1) by (simp add: exporter_ok_def)
  then have "subseq ((?past @ xs_buffer s) @ [x]) (xs_offered s @ [x])" by (rule list_emb_append_mono) (rule subseq_order.order_refl)
  then have "subseq (?past @ push_buffer cap x (xs_buffer s)) (xs_offered s @ [x])"
    unfolding n append_assoc by (rule subseq_order.order_trans [OF subseq_drop_right [of ?past n "xs_buffer s @ [x]", unfolded append_assoc]])
  moreover have "subseq batch (xs_offered s @ [x])" if "subseq batch (xs_offered s)" for batch using that by (rule subseq_rev_drop_many)
  ultimately show ?thesis using assms push_length [of cap "xs_buffer s" x]
    by (auto simp: exporter_ok_def in_flight_def answered_items_def requests_ok_def)
qed

lemma pushed_whole:
  assumes "exporter_whole cap s" and "length (in_flight s) + length (xs_buffer s) < cap"
  shows "exporter_whole cap (s\<lparr>xs_buffer := push_buffer cap x (xs_buffer s), xs_offered := xs_offered s @ [x]\<rparr>)"
  using assms by (simp add: exporter_whole_def in_flight_def answered_items_def push_buffer_def)

lemma reply_ok: "exporter_ok (xp_cap pol) build s \<Longrightarrow> exporter_ok (xp_cap pol) build (flush_reply pol r s)"
proof (cases "xs_flight s")
  case (Some batch)
  assume ok: "exporter_ok (xp_cap pol) build s"
  obtain n where n: "requeue (xp_cap pol) batch (xs_buffer s) = drop n (batch @ xs_buffer s)" using requeue_suffix [of "xp_cap pol" batch "xs_buffer s"] by (elim exE conjE)
  have "subseq (answered_items s @ drop n (batch @ xs_buffer s)) (xs_offered s)"
    by (rule subseq_order.order_trans [OF subseq_drop_right [of "answered_items s" n "batch @ xs_buffer s"]])
      (use ok Some in \<open>simp add: exporter_ok_def in_flight_def\<close>)
  then show ?thesis using Some ok n requeue_length [of "xs_buffer s" "xp_cap pol" batch]
    by (cases r) (auto simp: flush_reply_def Let_def exporter_ok_def in_flight_def answered_items_def requests_ok_def)
qed (simp add: flush_reply_def)

lemma reply_whole: "exporter_whole (xp_cap pol) s \<Longrightarrow> exporter_whole (xp_cap pol) (flush_reply pol r s)"
  by (cases "xs_flight s"; cases r) (auto simp: flush_reply_def Let_def exporter_whole_def in_flight_def answered_items_def requeue_def)

section \<open>The contract of a policy\<close>

text \<open>A buffer that can hold a record.\<close>

locale bounded_export =
  fixes pol :: export_policy
  assumes cap_positive: "0 < xp_cap pol"
begin

lemma export_step_ok: "exporter_ok (xp_cap pol) build s \<Longrightarrow> exporter_ok (xp_cap pol) build (export_step pol build e s)"
  using cap_positive
  by (cases e) (auto simp: init_exporter_def ok_frame ended_frame flush_ok reply_ok shutdown_exporter_def enqueue_item_def Let_def pushed_ok
      intro!: flush_ok split: option.split)

lemma export_run_ok: "exporter_ok (xp_cap pol) build s \<Longrightarrow> exporter_ok (xp_cap pol) build (export_run pol build es s)"
  by (induction es arbitrary: s) (simp_all add: export_step_ok)

lemma export_step_whole:
  "builds build \<Longrightarrow> exporter_whole (xp_cap pol) s \<Longrightarrow> has_room pol s e \<Longrightarrow> exporter_whole (xp_cap pol) (export_step pol build e s)"
  by (cases e) (auto simp: init_exporter_def ok_frame ended_frame flush_whole reply_whole shutdown_exporter_def enqueue_item_def Let_def pushed_whole has_room_def
      intro!: flush_whole split: option.split)

lemma export_run_whole:
  "builds build \<Longrightarrow> exporter_whole (xp_cap pol) s \<Longrightarrow> roomy pol build es s \<Longrightarrow> exporter_whole (xp_cap pol) (export_run pol build es s)"
  by (induction es arbitrary: s) (simp_all add: export_step_whole)

lemma new_export_ok: "exporter_ok (xp_cap pol) build new_exporter" "exporter_whole (xp_cap pol) new_exporter"
  by (simp_all add: exporter_ok_def exporter_whole_def new_exporter_def in_flight_def answered_items_def requests_ok_def)

end

interpretation logs: bounded_export log_exporter
  by unfold_locales (simp add: log_exporter_def)

interpretation spans: bounded_export span_exporter
  by unfold_locales (simp add: span_exporter_def)

interpretation ai_calls: bounded_export ai_exporter
  by unfold_locales (simp add: ai_exporter_def)

definition exporters :: "export_policy list" where
  "exporters = [log_exporter, span_exporter, ai_exporter]"

lemma each_exporter: "pol \<in> set exporters \<Longrightarrow> bounded_export pol"
  by (auto simp: exporters_def intro: logs.bounded_export_axioms spans.bounded_export_axioms ai_calls.bounded_export_axioms)

section \<open>Delivery\<close>

text \<open>
  C36: Every request an exporter of the SDK starts is built from records in the order in which they were made, and the requests that get an answer, whatever its
  status, carry, one after the other and before what is in flight and what is buffered, the records in that order and each of them in one answered request only; a record
  whose request got no answer may be sent again.  The buffer and a request stay within the cap (500 log records, 200 requests' spans, 200 AI calls),
  whatever flushes, failures and shutdowns happen.  As long as payloads can be built and less than a buffer's worth is outstanding whenever something is recorded, everything
  recorded was answered, is in flight or still buffered.  Inside a request logs are grouped by logger: under each logger's name are exactly its logs of
  the batch, in order.
\<close>

theorem exporter_in_order:
  assumes "pol \<in> set exporters" and "s = export_run pol build es new_exporter"
  shows "length (xs_buffer s) \<le> xp_cap pol \<and> length (in_flight s) \<le> xp_cap pol \<and>
    subseq (answered_items s @ in_flight s @ xs_buffer s) (xs_offered s) \<and>
    (\<forall>(batch, payload) \<in> set (xs_started s). subseq batch (xs_offered s) \<and> build batch = Inr payload) \<and>
    fst ` set (xs_answered s) \<subseteq> fst ` set (xs_started s) \<and>
    (builds build \<and> roomy pol build es new_exporter \<longrightarrow> answered_items s @ in_flight s @ xs_buffer s = xs_offered s) \<and>
    (\<exists>payload. buildOtlpLogsPayload num service logs = Inr payload \<and> distinct (map fst (lp_scopeLogs payload)) \<and>
      (\<forall>name. map_of (lp_scopeLogs payload) name = (if name \<in> bl_loggerName ` set logs
         then Some (map (toOtlpLogRecord num) (filter (\<lambda>l. bl_loggerName l = name) logs)) else None)))"
proof -
  note pol = each_exporter [OF assms(1)]
  have "exporter_ok (xp_cap pol) build s"
    unfolding assms(2) by (rule bounded_export.export_run_ok [OF pol bounded_export.new_export_ok(1) [OF pol]])
  moreover have "exporter_whole (xp_cap pol) s" if "builds build" "roomy pol build es new_exporter"
    unfolding assms(2) using that by (intro bounded_export.export_run_whole [OF pol] bounded_export.new_export_ok(2) [OF pol])
  moreover have "\<exists>payload. buildOtlpLogsPayload num service logs = Inr payload \<and> distinct (map fst (lp_scopeLogs payload)) \<and>
      (\<forall>name. map_of (lp_scopeLogs payload) name = (if name \<in> bl_loggerName ` set logs
         then Some (map (toOtlpLogRecord num) (filter (\<lambda>l. bl_loggerName l = name) logs)) else None))"
    by (rule logs_payload)
  ultimately show ?thesis by (simp add: exporter_ok_def exporter_whole_def requests_ok_def)
qed

lemma reply_ends_flush:
  "xs_flight (flush_reply pol r s) = None" "xs_config (flush_reply pol r s) = xs_config s" "xs_stuck (flush_reply pol r s) = xs_stuck s"
  by (auto simp: flush_reply_def Let_def split: option.split reply.split)

definition delivered_items :: "('a, 'p) exporter \<Rightarrow> 'a list" where
  "delivered_items s = concat (map fst (filter (\<lambda>(batch, status). 200 \<le> status \<and> status < 300) (xs_answered s)))"

lemma reply_delivers:
  "200 \<le> n \<Longrightarrow> n < 300 \<Longrightarrow> delivered_items (flush_reply pol (Answered n) s) = delivered_items s @ in_flight s"
  "xs_buffer (flush_reply pol (Answered n) s) = xs_buffer s"
  by (auto simp: flush_reply_def Let_def delivered_items_def in_flight_def split: option.split)

lemma never_stuck: "builds build \<Longrightarrow> \<not> xs_stuck s \<Longrightarrow> \<not> xs_stuck (export_step pol build e s)"
proof -
  assume b: "builds build" and "\<not> xs_stuck s"
  have flush: "\<not> xs_stuck (flush_buffer build u)" if "\<not> xs_stuck u" for u
    using that b by (cases rule: flush_cases [of build u]) (auto simp: builds_def)
  show ?thesis using \<open>\<not> xs_stuck s\<close>
    by (cases e) (auto simp: init_exporter_def enqueue_item_def shutdown_exporter_def shutdown_ends_def reply_ends_flush flush Let_def split: option.split nat.split)
qed

lemma run_never_stuck: "builds build \<Longrightarrow> \<not> xs_stuck s \<Longrightarrow> \<not> xs_stuck (export_run pol build es s)"
  by (induction es arbitrary: s) (simp_all add: never_stuck)

text \<open>
  C37: Once the collector accepts again, everything outstanding is delivered: from whatever state a configured exporter is in, if its payloads can be built, a 2xx answer to
  the flush in progress, one more flush and a 2xx answer to that leave nothing behind, and have delivered the batch that was in flight and then, as one batch,
  what was buffered.
\<close>

theorem exporter_drains:
  assumes "pol \<in> set exporters" and "builds build" and "s = export_run pol build es new_exporter" and "xs_config s"
    and "200 \<le> n" and "n < 300" and "200 \<le> m" and "m < 300"
    and "s' = export_run pol build [Reply_came (Answered n), Flush, Reply_came (Answered m)] s"
  shows "in_flight s' = [] \<and> xs_buffer s' = [] \<and> delivered_items s' = delivered_items s @ in_flight s @ xs_buffer s"
proof -
  define r where "r = flush_reply pol (Answered n) s"
  have "\<not> xs_stuck s" unfolding assms(3) by (rule run_never_stuck [OF assms(2)]) (simp add: new_exporter_def)
  then have r: "xs_flight r = None" "xs_config r" "\<not> xs_stuck r" "delivered_items r = delivered_items s @ in_flight s" "xs_buffer r = xs_buffer s"
    using assms(4-6) by (simp_all add: r_def reply_ends_flush reply_delivers)
  have f: "xs_buffer (flush_buffer build r) = []" "in_flight (flush_buffer build r) = xs_buffer s" "delivered_items (flush_buffer build r) = delivered_items r"
    using r assms(2) by (auto simp: flush_buffer_def in_flight_def delivered_items_def builds_def split: sum.split)
  have "s' = flush_reply pol (Answered m) (flush_buffer build r)" by (simp add: assms(9) r_def)
  then show ?thesis using r(4) f assms(7,8) by (simp add: reply_delivers in_flight_def [of "flush_reply _ _ _"] reply_ends_flush)
qed

section \<open>Shutdown\<close>

definition never_init :: "'a export_event list \<Rightarrow> bool" where
  "never_init es \<longleftrightarrow> list_all (\<lambda>e. e \<noteq> Init) es"

text \<open>What became of the request in progress: the first reply in a run of events.\<close>

fun first_reply :: "'a export_event list \<Rightarrow> reply option" where
  "first_reply [] = None"
| "first_reply (Reply_came r # es) = Some r"
| "first_reply (e # es) = first_reply es"

definition switched_off :: "('a, 'p) exporter \<Rightarrow> ('a, 'p) exporter \<Rightarrow> bool" where
  "switched_off s s' \<longleftrightarrow> \<not> xs_config s' \<and> xs_started s' = xs_started s \<and> xs_answered s' = xs_answered s \<and> xs_flight s' = xs_flight s"

lemma off_step:
  "switched_off s s' \<Longrightarrow> e \<noteq> Init \<Longrightarrow> first_reply [e] = None \<Longrightarrow> switched_off s (export_step pol build e s')"
  by (cases e) (auto simp: switched_off_def enqueue_item_def shutdown_exporter_def shutdown_ends_def flush_buffer_def Let_def split: option.split nat.split)

lemma off_reply:
  "\<not> xs_config s \<Longrightarrow> xs_flight s = Some batch \<Longrightarrow> \<not> xs_config (flush_reply pol r s) \<and> xs_flight (flush_reply pol r s) = None \<and>
     xs_started (flush_reply pol r s) = xs_started s \<and>
     xs_answered (flush_reply pol r s) = xs_answered s @ (case r of Answered n \<Rightarrow> [(batch, n)] | No_answer \<Rightarrow> [])"
  by (cases r) (simp_all add: flush_reply_def Let_def)

lemma idle_run:
  "\<not> xs_config s \<Longrightarrow> xs_flight s = None \<Longrightarrow> never_init es \<Longrightarrow>
     xs_started (export_run pol build es s) = xs_started s \<and> xs_answered (export_run pol build es s) = xs_answered s \<and> xs_flight (export_run pol build es s) = None"
proof (induction es arbitrary: s)
  case (Cons e es)
  have "\<not> xs_config (export_step pol build e s) \<and> xs_started (export_step pol build e s) = xs_started s \<and>
    xs_answered (export_step pol build e s) = xs_answered s \<and> xs_flight (export_step pol build e s) = None"
    using Cons.prems by (cases e) (auto simp: never_init_def enqueue_item_def shutdown_exporter_def shutdown_ends_def flush_buffer_def flush_reply_def Let_def
      split: option.split nat.split)
  then show ?case using Cons.IH [of "export_step pol build e s"] Cons.prems(3) by (simp add: never_init_def)
qed simp

lemma off_run:
  "\<not> xs_config s \<Longrightarrow> xs_flight s = Some batch \<Longrightarrow> never_init es \<Longrightarrow>
     xs_started (export_run pol build es s) = xs_started s \<and>
     xs_flight (export_run pol build es s) = (case first_reply es of None \<Rightarrow> Some batch | Some r \<Rightarrow> None) \<and>
     xs_answered (export_run pol build es s) = xs_answered s @ (case first_reply es of Some (Answered n) \<Rightarrow> [(batch, n)] | _ \<Rightarrow> [])"
proof (induction es arbitrary: s)
  case (Cons e es)
  show ?case
  proof (cases "\<exists>r. e = Reply_came r")
    case True
    then obtain r where r: "e = Reply_came r" by blast
    have "never_init es" using Cons.prems(3) by (simp add: never_init_def)
    then show ?thesis using off_reply [OF Cons.prems(1,2), of pol r] idle_run [of "flush_reply pol r s" es pol build] by (simp add: r split: reply.split)
  next
    case False
    then have none: "first_reply [e] = None" "first_reply (e # es) = first_reply es" by (cases e; simp)+
    have "switched_off s (export_step pol build e s)"
      using Cons.prems none(1) by (intro off_step) (simp_all add: switched_off_def never_init_def)
    then show ?thesis using Cons.IH [of "export_step pol build e s"] Cons.prems(2,3) none(2) by (simp add: switched_off_def never_init_def)
  qed
qed simp

text \<open>
  C38: A shutdown of the span exporter while a flush is in progress does not wait for it and sends nothing.  Whatever happens afterwards, unless the exporter is
  initialised again: no request is ever started, so what was buffered, or is recorded later, is not sent; and the batch in flight is answered only if the first reply
  that comes is an answer to it, for when that request fails it is not sent again.
\<close>

theorem shutdown_loses_spans:
  assumes "xs_flight s = Some batch" and "never_init es" and "xs_ended s = 0"
    and "s' = export_run span_exporter build ([Shutdown, Shutdown_goes_on] @ es) s"
  shows "xs_started s' = xs_started s \<and>
    xs_flight s' = (case first_reply es of None \<Rightarrow> Some batch | Some r \<Rightarrow> None) \<and>
    xs_answered s' = xs_answered s @ (case first_reply es of Some (Answered n) \<Rightarrow> [(batch, n)] | _ \<Rightarrow> [])"
proof -
  let ?off = "export_run span_exporter build [Shutdown, Shutdown_goes_on] s"
  have off: "\<not> xs_config ?off" "xs_flight ?off = Some batch" "xs_started ?off = xs_started s" "xs_answered ?off = xs_answered s"
    using assms(1,3) by (auto simp: shutdown_exporter_def shutdown_ends_def span_exporter_def flush_buffer_def Let_def)
  have "s' = export_run span_exporter build es ?off" by (simp add: assms(4))
  then show ?thesis using off_run [OF off(1,2) assms(2), of span_exporter build] off(3,4) by simp
qed

theorem exporter_in_order_witness:
  "roomy log_exporter ai_call_payload [Init, Record (1 :: nat), Flush, Record 2, Reply_came No_answer, Flush, Reply_came (Answered 200)] new_exporter \<and>
    map fst (xs_started (export_run log_exporter ai_call_payload [Init, Record (1 :: nat), Flush, Record 2, Reply_came No_answer, Flush, Reply_came (Answered 200)] new_exporter)) = [[1], [1, 2]] \<and>
    xs_answered (export_run log_exporter ai_call_payload [Init, Record (1 :: nat), Flush, Record 2, Reply_came No_answer, Flush, Reply_came (Answered 200)] new_exporter) = [([1, 2], 200)]"
proof -
  let ?es = "[Init, Record (1 :: nat), Flush, Record 2, Reply_came No_answer, Flush, Reply_came (Answered 200)]"
  have r: "roomy log_exporter ai_call_payload ?es new_exporter" by code_simp
  have "log_exporter \<in> set exporters" by (simp add: exporters_def)
  from exporter_in_order [OF this refl, of ai_call_payload ?es] r payloads_build(3)
  have "answered_items (export_run log_exporter ai_call_payload ?es new_exporter) @ in_flight (export_run log_exporter ai_call_payload ?es new_exporter) @
    xs_buffer (export_run log_exporter ai_call_payload ?es new_exporter) = xs_offered (export_run log_exporter ai_call_payload ?es new_exporter)" by blast
  moreover have "xs_answered (export_run log_exporter ai_call_payload ?es new_exporter) = [([1, 2], 200)]"
    "map fst (xs_started (export_run log_exporter ai_call_payload ?es new_exporter)) = [[1], [1, 2]]" by code_simp+
  ultimately show ?thesis using r by simp
qed

theorem exporter_drains_witness:
  "delivered_items (export_run ai_exporter ai_call_payload [Reply_came (Answered 200), Flush, Reply_came (Answered 200)]
     (export_run ai_exporter ai_call_payload [Init, Record (1 :: nat), Flush, Record 2] new_exporter)) = [1, 2]"
proof -
  let ?s = "export_run ai_exporter ai_call_payload [Init, Record (1 :: nat), Flush, Record 2] new_exporter"
  have "ai_exporter \<in> set exporters" by (simp add: exporters_def)
  moreover have "xs_config ?s" "delivered_items ?s @ in_flight ?s @ xs_buffer ?s = [1, 2]" by code_simp+
  ultimately show ?thesis using exporter_drains [OF _ payloads_build(3) refl _ _ _ _ _ refl, of ai_exporter "[Init, Record (1 :: nat), Flush, Record 2]" 200 200] by simp
qed

theorem shutdown_loses_spans_witness:
  "map fst (xs_started (export_run span_exporter mergeTraceExportRequests ([Shutdown, Shutdown_goes_on] @ [Reply_came No_answer, Flush, Lifecycle])
     (export_run span_exporter mergeTraceExportRequests [Init, Record (Some [1 :: nat]), Flush, Record None] new_exporter))) = [[Some [1]]]"
proof -
  let ?s = "export_run span_exporter mergeTraceExportRequests [Init, Record (Some [1 :: nat]), Flush, Record None] new_exporter"
  have "xs_flight ?s = Some [Some [1]]" "never_init [Reply_came No_answer, Flush, Lifecycle :: nat list option export_event]" "xs_ended ?s = 0"
    "map fst (xs_started ?s) = [[Some [1]]]" by code_simp+
  then show ?thesis using shutdown_loses_spans [OF _ _ _ refl, of ?s "[Some [1]]" "[Reply_came No_answer, Flush, Lifecycle]" mergeTraceExportRequests] by simp
qed

end
