(* ===== verification/Sdk_Context.thy ===== *)
theory Sdk_Context
  imports Auto_Correlate Action_Identity
begin

text \<open>
  How an action of a user or an agent keeps its identity across processes: the headers a server reads and the trace context
  (\<^verbatim>\<open>packages/telemetry-sdk/src/span.ts\<close>), and the action contexts of agents, their ids and their transport in job metadata
  (\<^verbatim>\<open>agent.ts\<close>).  The clock and random bytes are parameters.  Shown: new ids are valid and sort by time, the identity a browser sends is the one
  the server stamps, and a context survives serialization.
\<close>

section \<open>Trace context\<close>

record trace_context =
  tc_traceId :: string
  tc_parentSpanId :: string

definition lower_hex :: "char \<Rightarrow> bool" where
  "lower_hex c \<longleftrightarrow> (let n = char_code c in 48 \<le> n \<and> n \<le> 57 \<or> 97 \<le> n \<and> n \<le> 102)"

definition hex_field :: "nat \<Rightarrow> string \<Rightarrow> bool" where
  "hex_field n s \<longleftrightarrow> length s = n \<and> list_all lower_hex s"

text \<open>The regular expression: version, trace id, span id and flags, between dashes.\<close>

definition TRACEPARENT_RE :: "string \<Rightarrow> (string \<times> string) option" where
  "TRACEPARENT_RE s =
     (let version = take 2 s; traceId = take 32 (drop 3 s); spanId = take 16 (drop 36 s); flags = drop 53 s in
      if s = version @ ''-'' @ traceId @ ''-'' @ spanId @ ''-'' @ flags \<and> hex_field 2 version \<and> hex_field 32 traceId \<and> hex_field 16 spanId \<and> hex_field 2 flags
      then Some (traceId, spanId) else None)"

definition all_zero :: "string \<Rightarrow> bool" where
  "all_zero s \<longleftrightarrow> s \<noteq> [] \<and> list_all (\<lambda>c. c = CHR ''0'') s"

definition parseTraceparent :: "string option \<Rightarrow> trace_context option" where
  "parseTraceparent header =
     (case nonempty_text header of None \<Rightarrow> None
      | Some h \<Rightarrow> (case TRACEPARENT_RE (toLowerCase (trim h)) of None \<Rightarrow> None
          | Some (traceId, parentSpanId) \<Rightarrow>
              if all_zero traceId \<or> all_zero parentSpanId then None else Some \<lparr>tc_traceId = traceId, tc_parentSpanId = parentSpanId\<rparr>))"

section \<open>Interaction and action headers\<close>

text \<open>The class \<^verbatim>\<open>[0-9A-HJKMNPQRSTVWXYZ]\<close>.\<close>

definition interaction_char :: "char \<Rightarrow> bool" where
  "interaction_char c \<longleftrightarrow> (let n = char_code c in 48 \<le> n \<and> n \<le> 57 \<or> 65 \<le> n \<and> n \<le> 72 \<or>
     n \<in> {74, 75, 77, 78, 80, 81, 82, 83, 84, 86, 87, 88, 89, 90})"

definition INTERACTION_ID_RE :: "string \<Rightarrow> bool" where
  "INTERACTION_ID_RE s \<longleftrightarrow> length s = 26 \<and>
     list_all interaction_char s"

definition parseInteractionHeader :: "string option \<Rightarrow> string option" where
  "parseInteractionHeader header =
     (case nonempty_text header of None \<Rightarrow> None
      | Some h \<Rightarrow> if INTERACTION_ID_RE (trim h) then Some (trim h) else None)"

definition parseActionHeader :: "string option \<Rightarrow> string option" where
  "parseActionHeader header =
     (case nonempty_text header of None \<Rightarrow> None
      | Some h \<Rightarrow> if ACTION_ID_RE (trim h) then Some (trim h) else None)"

text \<open>A request is the function \<^verbatim>\<open>headers.get\<close>.\<close>

type_synonym header_source = "string \<Rightarrow> string option"

record incoming_action =
  in_actionId :: string
  in_rootActionId :: string
  in_causedByActionId :: "string option"

definition parseActionHeadersFromRequest :: "header_source \<Rightarrow> incoming_action option" where
  "parseActionHeadersFromRequest request =
     (let root = parseActionHeader (request ROOT_ACTION_HEADER); action = parseActionHeader (request ACTION_HEADER) in
      if root = None \<and> action = None then None
      else Some \<lparr>in_actionId = (case action of Some a \<Rightarrow> a | None \<Rightarrow> (case root of Some r \<Rightarrow> r | None \<Rightarrow> [])),
                 in_rootActionId = (case root of Some r \<Rightarrow> r | None \<Rightarrow> (case action of Some a \<Rightarrow> a | None \<Rightarrow> [])),
                 in_causedByActionId = None\<rparr>)"

section \<open>Action contexts\<close>

record agent_context =
  ac_actionId :: string
  ac_rootActionId :: string
  ac_causedByActionId :: "string option"
  ac_interactionId :: "string option"
  ac_agentRunId :: "string option"
  ac_actorType :: string
  ac_actorId :: "string option"

definition anonymousInboundActionContext :: "incoming_action \<Rightarrow> string option \<Rightarrow> agent_context" where
  "anonymousInboundActionContext c interaction =
     \<lparr>ac_actionId = in_actionId c, ac_rootActionId = in_rootActionId c, ac_causedByActionId = in_causedByActionId c,
      ac_interactionId = interaction, ac_agentRunId = None, ac_actorType = ''unknown'', ac_actorId = None\<rparr>"

text \<open>What a request stamps on a span, in order, and the context the rest of the request runs in; \<open>None\<close>: as before.\<close>

definition INTERACTION_ATTRIBUTE_KEY :: string where "INTERACTION_ATTRIBUTE_KEY = ''obs.interaction.id''"

definition stampInteractionFromRequest :: "header_source \<Rightarrow> string option \<times> (string \<times> json) list" where
  "stampInteractionFromRequest request =
     (let i = parseInteractionHeader (request INTERACTION_HEADER)
      in (i, case i of Some x \<Rightarrow> [(INTERACTION_ATTRIBUTE_KEY, JStr x)] | None \<Rightarrow> []))"

definition stampActionFromRequest :: "header_source \<Rightarrow> incoming_action option \<times> (string \<times> json) list \<times> agent_context option" where
  "stampActionFromRequest request =
     (let explicitContext = parseActionHeadersFromRequest request;
          interaction = parseInteractionHeader (request INTERACTION_HEADER);
          context = (case explicitContext of Some c \<Rightarrow> Some c
            | None \<Rightarrow> map_option (\<lambda>i. \<lparr>in_actionId = i, in_rootActionId = i, in_causedByActionId = None\<rparr>) interaction)
      in case context of None \<Rightarrow> (None, [], None)
         | Some c \<Rightarrow>
             (Some c,
              (case interaction of Some i \<Rightarrow> [(INTERACTION_ID_KEY, JStr i)] | None \<Rightarrow> []) @
              [(ACTION_ID_KEY, JStr (in_actionId c)), (ACTION_ROOT_ID_KEY, JStr (in_rootActionId c))] @
              (case nonempty_text (in_causedByActionId c) of Some x \<Rightarrow> [(ACTION_CAUSED_BY_ID_KEY, JStr x)] | None \<Rightarrow> []),
              Some (anonymousInboundActionContext c interaction)))"

definition stampIdentityFromRequest ::
  "header_source \<Rightarrow> (string option \<times> incoming_action option) \<times> (string \<times> json) list \<times> agent_context option" where
  "stampIdentityFromRequest request =
     (let (i, a) = stampInteractionFromRequest request; (c, b, context) = stampActionFromRequest request in ((i, c), a @ b, context))"

section \<open>New ids\<close>

definition CROCKFORD_BASE32 :: string where "CROCKFORD_BASE32 = ''0123456789ABCDEFGHJKMNPQRSTVWXYZ''"

text \<open>Six bytes of the time, ten random ones, read as one number and written in base 32.\<close>

definition id_bytes :: "nat \<Rightarrow> byte list \<Rightarrow> byte list" where
  "id_bytes now random =
     (let time = min now 0xFFFFFFFFFFFF in map (\<lambda>i. of_nat (time div 256 ^ (5 - i))) [0..<6] @ random)"

definition createActionId :: "nat \<Rightarrow> byte list \<Rightarrow> string + string" where
  "createActionId now random =
     (let v = foldl (\<lambda>n b. n * 256 + unat b) 0 (id_bytes now random);
          encoded = foldl (\<lambda>s i. s @ [CROCKFORD_BASE32 ! (v div 2 ^ ((25 - i) * 5) mod 32)]) [] [0..<26]
      in if ACTION_ID_RE encoded then Inr encoded else Inl ''Generated action id does not satisfy RFC 0010 format'')"

section \<open>Contexts of an agent\<close>

text \<open>An optional field that may be \<^verbatim>\<open>null\<close>: absent is \<open>None\<close>, \<^verbatim>\<open>null\<close> is \<open>Some None\<close>.\<close>

record action_options =
  op_actionId :: "string option"
  op_rootActionId :: "string option"
  op_causedByActionId :: "string option option"
  op_interactionId :: "string option option"
  op_agentRunId :: "string option option"
  op_actorType :: "string option"
  op_actorId :: "string option option"

definition requireActionId :: "string \<Rightarrow> string \<Rightarrow> string + string" where
  "requireActionId v f = (if ACTION_ID_RE v then Inr v else Inl (f @ '' must satisfy RFC 0010 action id format''))"

definition require_optional :: "string option option \<Rightarrow> string option \<Rightarrow> string \<Rightarrow> string + string option" where
  "require_optional given inherited f =
     (case given of None \<Rightarrow> Inr inherited
      | Some v \<Rightarrow> (case nonempty_text v of None \<Rightarrow> Inr None | Some i \<Rightarrow> res_bind (requireActionId i f) (\<lambda>x. Inr (Some x))))"

text \<open>\<open>fresh\<close> is the id \<^verbatim>\<open>createActionId\<close> would give now.\<close>

definition withAction_context :: "string \<Rightarrow> action_options \<Rightarrow> agent_context option \<Rightarrow> string + agent_context" where
  "withAction_context fresh opts parent =
     res_bind (case nonempty_text (op_actionId opts) of Some i \<Rightarrow> requireActionId i ''actionId'' | None \<Rightarrow> Inr fresh) (\<lambda>action.
     res_bind (case nonempty_text (op_rootActionId opts) of Some i \<Rightarrow> requireActionId i ''rootActionId''
               | None \<Rightarrow> Inr (case parent of Some p \<Rightarrow> ac_rootActionId p | None \<Rightarrow> action)) (\<lambda>root.
     res_bind (require_optional (op_causedByActionId opts) (map_option ac_actionId parent) ''causedByActionId'') (\<lambda>causedBy.
     res_bind (require_optional (op_agentRunId opts) (Option.bind parent ac_agentRunId) ''agentRunId'') (\<lambda>agentRunId.
     Inr \<lparr>ac_actionId = action, ac_rootActionId = root, ac_causedByActionId = causedBy,
          ac_interactionId = (case op_interactionId opts of None \<Rightarrow> Option.bind parent ac_interactionId | Some v \<Rightarrow> v),
          ac_agentRunId = agentRunId,
          ac_actorType = (case op_actorType opts of Some t \<Rightarrow> t | None \<Rightarrow> (case parent of Some p \<Rightarrow> ac_actorType p | None \<Rightarrow> ''agent'')),
          ac_actorId = (case op_actorId opts of None \<Rightarrow> Option.bind parent ac_actorId | Some v \<Rightarrow> v)\<rparr>))))"

text \<open>The context of a step, a model call, a tool call, a retrieval, an evaluation or an artifact, and that of a run.\<close>

definition child_action_context :: "string \<Rightarrow> agent_context option \<Rightarrow> agent_context" where
  "child_action_context action parent =
     \<lparr>ac_actionId = action, ac_rootActionId = (case parent of Some p \<Rightarrow> ac_rootActionId p | None \<Rightarrow> action),
      ac_causedByActionId = map_option ac_actionId parent, ac_interactionId = Option.bind parent ac_interactionId,
      ac_agentRunId = Option.bind parent ac_agentRunId, ac_actorType = (case parent of Some p \<Rightarrow> ac_actorType p | None \<Rightarrow> ''agent''),
      ac_actorId = Option.bind parent ac_actorId\<rparr>"

record run_options =
  ro_agentId :: string
  ro_agentName :: string
  ro_agentVersion :: "string option"
  ro_goal :: "string option"
  ro_autonomyLevel :: "string option"
  ro_actorType :: "string option"
  ro_actorId :: "string option"

definition run_action_context :: "string \<Rightarrow> run_options \<Rightarrow> agent_context option \<Rightarrow> agent_context" where
  "run_action_context action opts parent =
     \<lparr>ac_actionId = action, ac_rootActionId = action, ac_causedByActionId = map_option ac_actionId parent,
      ac_interactionId = Option.bind parent ac_interactionId, ac_agentRunId = Some action,
      ac_actorType = (case ro_actorType opts of Some t \<Rightarrow> t | None \<Rightarrow> ''agent''),
      ac_actorId = Some (case ro_actorId opts of Some a \<Rightarrow> a | None \<Rightarrow> ro_agentId opts)\<rparr>"

section \<open>Serialization\<close>

record serialized_context =
  sc_rootActionId :: string
  sc_actionId :: string
  sc_causedByActionId :: "string option option"
  sc_interactionId :: "string option option"
  sc_agentRunId :: "string option option"
  sc_actorType :: "string option"
  sc_actorId :: "string option option"

definition serializeActionContext :: "agent_context option \<Rightarrow> serialized_context option" where
  "serializeActionContext context =
     map_option (\<lambda>c. \<lparr>sc_rootActionId = ac_rootActionId c, sc_actionId = ac_actionId c,
        sc_causedByActionId = map_option Some (nonempty_text (ac_causedByActionId c)),
        sc_interactionId = map_option Some (nonempty_text (ac_interactionId c)),
        sc_agentRunId = map_option Some (nonempty_text (ac_agentRunId c)),
        sc_actorType = nonempty_text (Some (ac_actorType c)),
        sc_actorId = map_option Some (nonempty_text (ac_actorId c))\<rparr>) context"

definition or_null :: "string option option \<Rightarrow> string option option" where
  "or_null v = Some (case v of Some x \<Rightarrow> x | None \<Rightarrow> None)"

definition restoreActionContext :: "serialized_context option \<Rightarrow> action_options option" where
  "restoreActionContext metadata =
     map_option (\<lambda>m. \<lparr>op_actionId = Some (sc_actionId m), op_rootActionId = Some (sc_rootActionId m),
        op_causedByActionId = or_null (sc_causedByActionId m), op_interactionId = or_null (sc_interactionId m),
        op_agentRunId = or_null (sc_agentRunId m), op_actorType = sc_actorType m, op_actorId = or_null (sc_actorId m)\<rparr>) metadata"

text \<open>The context in which \<^verbatim>\<open>withSerializedActionContext\<close> calls its argument.\<close>

definition withSerializedActionContext :: "string \<Rightarrow> serialized_context option \<Rightarrow> agent_context option \<Rightarrow> string + agent_context option" where
  "withSerializedActionContext fresh metadata parent =
     (case restoreActionContext metadata of None \<Rightarrow> Inr parent
      | Some opts \<Rightarrow> res_bind (withAction_context fresh opts parent) (\<lambda>c. Inr (Some c)))"

section \<open>New ids are valid and sort by time\<close>

lemma alphabet_ENCODING: "CROCKFORD_BASE32 = ENCODING" "crockford = ENCODING"
  by (simp_all add: CROCKFORD_BASE32_def ENCODING_def crockford_def)

lemma encodeTime_digits: "encodeTime n len = map (\<lambda>i. ENCODING ! (n div 2 ^ ((len - 1 - i) * 5) mod 32)) [0..<len]"
proof (induction len arbitrary: n)
  case (Suc len)
  have "n div 32 div 2 ^ ((len - 1 - i) * 5) = n div 2 ^ ((len - i) * 5)" if "i < len" for i
  proof -
    have "len - i = Suc (len - 1 - i)" using that by simp
    then have "(2 :: nat) ^ ((len - i) * 5) = 32 * 2 ^ ((len - 1 - i) * 5)" by (simp add: power_add)
    then show ?thesis by (simp add: div_mult2_eq)
  qed
  then show ?case by (simp add: encodeTime_Suc Suc.IH)
qed simp

lemma foldl_snoc_map: "foldl (\<lambda>s i. s @ [f i]) acc xs = acc @ map f xs"
  by (induction xs arbitrary: acc) simp_all

lemma byte_digits: "foldl (\<lambda>n b. n * 256 + unat b) acc (map (\<lambda>i. of_nat (t div 256 ^ (k - 1 - i)) :: byte) [0..<k]) = acc * 256 ^ k + t mod 256 ^ k"
proof (induction k arbitrary: t)
  case (Suc k)
  have "t div 256 div 256 ^ (k - 1 - i) = t div 256 ^ (k - i)" if "i < k" for i
  proof -
    have "k - i = Suc (k - 1 - i)" using that by simp
    then have "(256 :: nat) ^ (k - i) = 256 * 256 ^ (k - 1 - i)" by (metis power_Suc)
    then show ?thesis by (simp add: div_mult2_eq)
  qed
  then have m: "map (\<lambda>i. of_nat (t div 256 ^ (k - i)) :: byte) [0..<k] = map (\<lambda>i. of_nat (t div 256 div 256 ^ (k - 1 - i))) [0..<k]" by simp
  have "foldl (\<lambda>n b. n * 256 + unat b) acc (map (\<lambda>i. of_nat (t div 256 ^ (k - i)) :: byte) [0..<k]) = acc * 256 ^ k + t div 256 mod 256 ^ k"
    by (simp only: m Suc.IH)
  then show ?case by (simp add: unat_of_nat mod_mult2_eq algebra_simps)
qed simp

lemma random_bytes_value: "foldl (\<lambda>n b. n * 256 + unat b) acc (bs :: byte list) = acc * 256 ^ length bs + foldl (\<lambda>n b. n * 256 + unat b) 0 bs"
proof (induction bs rule: rev_induct)
  case (snoc b bs)
  then show ?case by (simp add: algebra_simps)
qed simp

lemma random_bytes_bound: "foldl (\<lambda>n b. n * 256 + unat b) 0 (bs :: byte list) < 256 ^ length bs"
  using base256_bound [of bs] by (simp add: mult.commute)

lemma action_id_value:
  assumes "t < 2 ^ 48"
  shows "foldl (\<lambda>n b. n * 256 + unat b) 0 (id_bytes t random) = t * 256 ^ length random + foldl (\<lambda>n b. n * 256 + unat b) 0 random"
proof -
  have "min t 0xFFFFFFFFFFFF = t" using assms by simp
  then have "id_bytes t random = map (\<lambda>i. of_nat (t div 256 ^ (6 - 1 - i))) [0..<6] @ random" by (simp add: id_bytes_def)
  then show ?thesis
    using byte_digits [of 0 t 6] random_bytes_value [of t random] assms by (simp del: upt_rec_numeral upt_conv_Cons)
qed

lemma encodeTime_valid: "ACTION_ID_RE (encodeTime n 26)"
proof -
  have "list_all action_char ENCODING" using crockford_char by (simp add: list_all_length alphabet_ENCODING(2) [symmetric] crockford_distinct)
  then show ?thesis using encodeTime_chars [of n 26] by (auto simp: ACTION_ID_RE_def list_all_iff)
qed

lemma createActionId_encode:
  "createActionId now random = Inr (encodeTime (foldl (\<lambda>n b. n * 256 + unat b) 0 (id_bytes now random)) 26)"
  using encodeTime_valid [of "foldl (\<lambda>n b. n * 256 + unat b) 0 (id_bytes now random)"]
  by (simp add: createActionId_def Let_def foldl_snoc_map encodeTime_digits alphabet_ENCODING del: upt_rec_numeral upt_conv_Cons)

lemma action_ids_less:
  assumes "t1 < t2" and "t2 < 2 ^ 48" and "length r1 = 10" and "length r2 = 10"
  shows "foldl (\<lambda>n b. n * 256 + unat b) 0 (id_bytes t1 r1) < foldl (\<lambda>n b. n * 256 + unat b) 0 (id_bytes t2 r2)"
    and "foldl (\<lambda>n b. n * 256 + unat b) 0 (id_bytes t2 r2) < 32 ^ 26"
proof -
  let ?v = "\<lambda>bs :: byte list. foldl (\<lambda>n b. n * 256 + unat b) 0 bs"
  have r: "?v r1 < 256 ^ 10" "?v r2 < 256 ^ 10" using random_bytes_bound [of r1] random_bytes_bound [of r2] assms(3,4) by simp_all
  have v: "?v (id_bytes t1 r1) = t1 * 256 ^ 10 + ?v r1" "?v (id_bytes t2 r2) = t2 * 256 ^ 10 + ?v r2"
    using assms by (simp_all only: action_id_value)
  have "(t1 + 1) * 256 ^ 10 \<le> t2 * (256 :: nat) ^ 10" using assms(1) by (intro mult_le_mono1) simp
  then show "?v (id_bytes t1 r1) < ?v (id_bytes t2 r2)" using r v by simp
  have "t2 * 256 ^ 10 + ?v r2 < (t2 + 1) * (256 :: nat) ^ 10" using r by simp
  also have "\<dots> \<le> 2 ^ 48 * 256 ^ 10" using assms(2) by (intro mult_le_mono1) simp
  also have "(2 :: nat) ^ 48 * 256 ^ 10 \<le> 32 ^ 26" by simp
  finally show "?v (id_bytes t2 r2) < 32 ^ 26" using v by simp
qed

text \<open>
  Action ids sort by the time they are made: of two ids made at different milliseconds before 2^48, the earlier is smaller in the order of code
  units whatever their random bytes; making one never throws, and both are ids the collector and the headers accept.
\<close>

theorem action_ids_sort_by_time:
  assumes "t1 < t2" and "t2 < 2 ^ 48" and "length r1 = 10" and "length r2 = 10"
  shows "\<exists>a b. createActionId t1 r1 = Inr a \<and> createActionId t2 r2 = Inr b \<and> (a, b) \<in> lexord {(c, d). char_code c < char_code d} \<and>
    ACTION_ID_RE a \<and> ACTION_ID_RE b"
  using encodeTime_less [OF action_ids_less [OF assms]] encodeTime_valid by (simp add: createActionId_encode code_less_def)

theorem action_ids_sort_by_time_witness:
  "\<exists>a b. createActionId 1700000000000 (replicate 10 255) = Inr a \<and> createActionId 1700000000001 (replicate 10 0) = Inr b \<and>
    (a, b) \<in> lexord {(c, d). char_code c < char_code d}"
  using action_ids_sort_by_time [of 1700000000000 1700000000001 "replicate 10 255" "replicate 10 0"] by auto

section \<open>The identity a browser sends\<close>

lemma interaction_char_valid: "interaction_char c = action_char c"
proof -
  have "(n \<in> {74, 75, 77, 78, 80, 81, 82, 83, 84, 86, 87, 88, 89, 90}) \<longleftrightarrow> (n \<in> {74, 75, 77, 78} \<or> 80 \<le> n \<and> n \<le> 84 \<or> 86 \<le> n \<and> n \<le> 90)" for n :: nat
    by auto
  then show ?thesis by (simp only: interaction_char_def action_char_def Let_def)
qed

lemma interaction_action_ids: "INTERACTION_ID_RE s = ACTION_ID_RE s"
  by (simp add: INTERACTION_ID_RE_def ACTION_ID_RE_def interaction_char_valid [abs_def])

lemma valid_id_nonempty: "ACTION_ID_RE i \<Longrightarrow> nonempty_text (Some i) = Some i"
  by (auto simp: ACTION_ID_RE_def nonempty_text_def)

lemma headers_accept_valid:
  "ACTION_ID_RE i \<Longrightarrow> parseInteractionHeader (Some i) = Some i" "ACTION_ID_RE i \<Longrightarrow> parseActionHeader (Some i) = Some i"
  by (simp_all add: parseInteractionHeader_def parseActionHeader_def valid_id_nonempty valid_id_trim interaction_action_ids)

definition valid_browser_context :: "action_context \<Rightarrow> bool" where
  "valid_browser_context c \<longleftrightarrow> list_all ACTION_ID_RE [interactionId c, actionId c, rootActionId c]"

text \<open>The request as the server reads it; the attributes of the span it stamps, set one after the other.\<close>

definition sent_request :: "istack \<Rightarrow> 'o request_init option \<Rightarrow> header_source" where
  "sent_request stack init name =
     (case wrapFetchWithCorrelation (\<lambda>_. id) currentInteractionId stack () init of None \<Rightarrow> None
      | Some sent \<Rightarrow> Option.bind (init_headers sent) (\<lambda>h. map_get h (toLowerCase name)))"

definition stamped :: "(string \<times> json) list \<Rightarrow> (string \<times> json) list" where
  "stamped kvs = foldl (\<lambda>m (k, v). map_set m k v) [] kvs"

definition no_correlation_headers :: "'o request_init option \<Rightarrow> bool" where
  "no_correlation_headers init \<longleftrightarrow> list_all (\<lambda>k. map_get (new_Headers (init_given init)) k = None) [INTERACTION_HEADER, ROOT_ACTION_HEADER, ACTION_HEADER]"

lemma sent_headers:
  assumes "no_correlation_headers init"
  shows "sent_request (rest @ [ctx]) init INTERACTION_HEADER = Some (interactionId ctx)"
    "sent_request (rest @ [ctx]) init ROOT_ACTION_HEADER = Some (rootActionId ctx)"
    "sent_request (rest @ [ctx]) init ACTION_HEADER = Some (actionId ctx)"
  using assms
  by (simp_all add: sent_request_def no_correlation_headers_def wrapFetchWithCorrelation_def wrapFetchWithActionCorrelation_def fetch_context_def
      currentInteractionId_def currentInteractionContext_def currentContext_last injectInteractionHeaders_def with_headers_def Let_def map_get_set_default)

lemma attribute_key [simp]: "INTERACTION_ATTRIBUTE_KEY = INTERACTION_ID_KEY"
  by (simp add: INTERACTION_ATTRIBUTE_KEY_def INTERACTION_ID_KEY_def)

lemma stamp_keys_distinct [simp]:
  "INTERACTION_ID_KEY \<noteq> ACTION_ID_KEY" "INTERACTION_ID_KEY \<noteq> ACTION_ROOT_ID_KEY" "ACTION_ID_KEY \<noteq> ACTION_ROOT_ID_KEY"
  "ACTION_ID_KEY \<noteq> INTERACTION_ID_KEY" "ACTION_ROOT_ID_KEY \<noteq> INTERACTION_ID_KEY" "ACTION_ROOT_ID_KEY \<noteq> ACTION_ID_KEY"
  by (simp_all add: INTERACTION_ID_KEY_def action_keys)

text \<open>
  C39: What a user does in the browser is what the collector files the server's work under: a request sent while an interaction is active, by a caller who sets none
  of the correlation headers himself, makes the server stamp the interaction, action and root action of the browser's context, run the rest of the request in that
  context, and makes the collector resolve the span to that action and root with explicit confidence.
\<close>

theorem browser_identity_reaches_collector:
  assumes "valid_browser_context ctx" and "no_correlation_headers init"
    and "stampIdentityFromRequest (sent_request (rest @ [ctx]) init) = ((i, a), kvs, context)"
  shows "i = Some (interactionId ctx) \<and>
    context = Some \<lparr>ac_actionId = actionId ctx, ac_rootActionId = rootActionId ctx, ac_causedByActionId = None,
      ac_interactionId = Some (interactionId ctx), ac_agentRunId = None, ac_actorType = ''unknown'', ac_actorId = None\<rparr> \<and>
    map_get (stamped kvs) INTERACTION_ID_KEY = Some (JStr (interactionId ctx)) \<and>
    (let who = resolveActionIdentity sha s (stamped kvs)
     in ai_actionId who = actionId ctx \<and> ai_rootActionId who = rootActionId ctx \<and> ai_confidence who = ''explicit'')"
proof -
  let ?kvs = "[(INTERACTION_ID_KEY, JStr (interactionId ctx)), (ACTION_ID_KEY, JStr (actionId ctx)), (ACTION_ROOT_ID_KEY, JStr (rootActionId ctx))]"
  have v: "ACTION_ID_RE (interactionId ctx)" "ACTION_ID_RE (actionId ctx)" "ACTION_ID_RE (rootActionId ctx)"
    using assms(1) by (simp_all add: valid_browser_context_def)
  have "stampIdentityFromRequest (sent_request (rest @ [ctx]) init) =
      ((Some (interactionId ctx), Some \<lparr>in_actionId = actionId ctx, in_rootActionId = rootActionId ctx, in_causedByActionId = None\<rparr>),
       (INTERACTION_ID_KEY, JStr (interactionId ctx)) # ?kvs,
       Some \<lparr>ac_actionId = actionId ctx, ac_rootActionId = rootActionId ctx, ac_causedByActionId = None,
         ac_interactionId = Some (interactionId ctx), ac_agentRunId = None, ac_actorType = ''unknown'', ac_actorId = None\<rparr>)"
    by (simp add: stampIdentityFromRequest_def stampInteractionFromRequest_def stampActionFromRequest_def parseActionHeadersFromRequest_def
        anonymousInboundActionContext_def headers_accept_valid v sent_headers [OF assms(2)] Let_def nonempty_text_def)
  then have read: "i = Some (interactionId ctx)" "stamped kvs = ?kvs"
    "context = Some \<lparr>ac_actionId = actionId ctx, ac_rootActionId = rootActionId ctx, ac_causedByActionId = None,
      ac_interactionId = Some (interactionId ctx), ac_agentRunId = None, ac_actorType = ''unknown'', ac_actorId = None\<rparr>"
    using assms(3) by (simp_all add: stamped_def)
  have keys: "map_get ?kvs ACTION_CONFIDENCE_KEY = None" "map_get ?kvs ACTION_ID_KEY = Some (JStr (actionId ctx))"
    "map_get ?kvs ACTION_ROOT_ID_KEY = Some (JStr (rootActionId ctx))" "map_get ?kvs INTERACTION_ID_KEY = Some (JStr (interactionId ctx))"
    by (simp_all add: INTERACTION_ID_KEY_def action_keys map_get_def)
  then have "ai_actionId (resolveActionIdentity sha s ?kvs) = actionId ctx" "ai_rootActionId (resolveActionIdentity sha s ?kvs) = rootActionId ctx"
    "ai_confidence (resolveActionIdentity sha s ?kvs) = ''explicit''"
    using v by (simp_all add: resolveActionIdentity_def Let_def asConfidence_def)
  then show ?thesis using read keys(4) by (simp add: Let_def)
qed

section \<open>Contexts in job metadata\<close>

definition valid_optional :: "string option \<Rightarrow> bool" where
  "valid_optional v \<longleftrightarrow> (case v of None \<Rightarrow> True | Some i \<Rightarrow> ACTION_ID_RE i)"

definition context_ok :: "agent_context \<Rightarrow> bool" where
  "context_ok c \<longleftrightarrow> ACTION_ID_RE (ac_actionId c) \<and> ACTION_ID_RE (ac_rootActionId c) \<and>
     valid_optional (ac_causedByActionId c) \<and> valid_optional (ac_agentRunId c)"

lemma withAction_fields:
  "withAction_context fresh given parent = Inr c \<Longrightarrow>
    (case nonempty_text (op_actionId given) of Some i \<Rightarrow> requireActionId i ''actionId'' | None \<Rightarrow> Inr fresh) = Inr (ac_actionId c) \<and>
    (case nonempty_text (op_rootActionId given) of Some i \<Rightarrow> requireActionId i ''rootActionId''
       | None \<Rightarrow> Inr (case parent of Some p \<Rightarrow> ac_rootActionId p | None \<Rightarrow> ac_actionId c)) = Inr (ac_rootActionId c) \<and>
    require_optional (op_causedByActionId given) (map_option ac_actionId parent) ''causedByActionId'' = Inr (ac_causedByActionId c) \<and>
    require_optional (op_agentRunId given) (Option.bind parent ac_agentRunId) ''agentRunId'' = Inr (ac_agentRunId c)"
  unfolding withAction_context_def res_bind_eq_Inr by (elim exE conjE, drule sum.inject(2) [THEN iffD1], hypsubst) (simp cong: option.case_cong)

lemmas withAction_each = withAction_fields [THEN conjunct1] withAction_fields [THEN conjunct2, THEN conjunct1]
  withAction_fields [THEN conjunct2, THEN conjunct2, THEN conjunct1] withAction_fields [THEN conjunct2, THEN conjunct2, THEN conjunct2]

text \<open>Every context the SDK makes is valid: of new ids, of checked options, of the headers of a request.\<close>

lemma created_context_ok:
  assumes "createActionId now random = Inr fresh" and "parent = None \<or> (\<exists>p. parent = Some p \<and> context_ok p)"
  shows "context_ok (child_action_context fresh parent)" "context_ok (run_action_context fresh opts parent)"
    "withAction_context fresh given parent = Inr c \<Longrightarrow> context_ok c"
proof -
  have fresh: "ACTION_ID_RE fresh" using assms(1) by (auto simp: createActionId_def Let_def split: if_splits)
  then show "context_ok (child_action_context fresh parent)" "context_ok (run_action_context fresh opts parent)"
    using assms(2) by (auto simp: child_action_context_def run_action_context_def context_ok_def valid_optional_def)
  have req: "require_optional v inherited f = Inr x \<Longrightarrow> valid_optional inherited \<Longrightarrow> valid_optional x" for v inherited f x
    by (auto simp: require_optional_def requireActionId_def valid_optional_def split: option.splits if_splits)
  have inherited: "valid_optional (map_option ac_actionId parent)" "valid_optional (Option.bind parent ac_agentRunId)"
    using assms(2) by (auto simp: context_ok_def valid_optional_def)
  have one: "(case nonempty_text v of Some i \<Rightarrow> requireActionId i f | None \<Rightarrow> Inr d) = Inr x \<Longrightarrow> ACTION_ID_RE d \<Longrightarrow> ACTION_ID_RE x" for v f d x
    by (auto simp: requireActionId_def split: option.splits if_splits)
  have root: "ACTION_ID_RE (case parent of Some p \<Rightarrow> ac_rootActionId p | None \<Rightarrow> x)" if "ACTION_ID_RE x" for x
    using assms(2) that by (auto simp: context_ok_def)
  show "context_ok c" if made: "withAction_context fresh given parent = Inr c"
    using one [OF withAction_each(1) [OF made] fresh] one [OF withAction_each(2) [OF made] root [OF one [OF withAction_each(1) [OF made] fresh]]]
      req [OF withAction_each(3) [OF made] inherited(1)] req [OF withAction_each(4) [OF made] inherited(2)]
    by (simp add: context_ok_def)
qed

lemma parsed_ids_valid: "parseActionHeader h = Some i \<Longrightarrow> ACTION_ID_RE i" "parseInteractionHeader h = Some i \<Longrightarrow> ACTION_ID_RE i"
  by (auto simp: parseActionHeader_def parseInteractionHeader_def interaction_action_ids split: option.splits if_splits)

lemma parsed_action_valid: "parseActionHeadersFromRequest request = Some c \<Longrightarrow>
    ACTION_ID_RE (in_actionId c) \<and> ACTION_ID_RE (in_rootActionId c) \<and> in_causedByActionId c = None"
  by (auto simp: parseActionHeadersFromRequest_def Let_def dest: parsed_ids_valid split: option.splits if_splits)

lemma inbound_context_ok:
  assumes "stampActionFromRequest request = (a, kvs, Some c)"
  shows "context_ok c"
proof (cases "parseActionHeadersFromRequest request")
  case None
  then show ?thesis using assms parsed_ids_valid(2)
    by (cases "parseInteractionHeader (request INTERACTION_HEADER)")
      (auto simp: stampActionFromRequest_def Let_def anonymousInboundActionContext_def context_ok_def valid_optional_def)
next
  case (Some x)
  then show ?thesis using assms parsed_action_valid [OF Some]
    by (auto simp: stampActionFromRequest_def Let_def anonymousInboundActionContext_def context_ok_def valid_optional_def)
qed

lemma no_empty_id: "\<not> ACTION_ID_RE []"
  by (simp add: ACTION_ID_RE_def)

lemma require_valid: "valid_optional v \<Longrightarrow> require_optional (Some v) inherited f = Inr v"
  by (auto simp: require_optional_def requireActionId_def valid_optional_def no_empty_id nonempty_text_def split: option.splits)

lemma valid_nonempty: "valid_optional v \<Longrightarrow> v \<noteq> Some []"
  using no_empty_id by (auto simp: valid_optional_def)

lemma or_null_text: "or_null (map_option Some v) = Some v"
  by (cases v) (simp_all add: or_null_def)

lemma valid_kept: "valid_optional v \<Longrightarrow> nonempty_text v = v"
  using valid_nonempty [of v] by (auto simp: nonempty_text_def split: option.splits)


section \<open>A click and a job\<close>

definition sample_action_id :: string where "sample_action_id = ''01ARZ3NDEKTSV4RRFFQ69G5FAV''"
definition sample_root_id :: string where "sample_root_id = ''01BX5ZZKBKACTAV9WEVGEMMVRZ''"

lemma sample_context_ids: "ACTION_ID_RE sample_action_id" "ACTION_ID_RE sample_root_id"
  by code_simp+

theorem browser_identity_reaches_collector_witness:
  "\<exists>kvs cx. stampIdentityFromRequest (sent_request [\<lparr>interactionId = sample_action_id, rootActionId = sample_root_id, actionId = sample_action_id\<rparr>] (None :: unit request_init option))
      = ((Some sample_action_id, Some \<lparr>in_actionId = sample_action_id, in_rootActionId = sample_root_id, in_causedByActionId = None\<rparr>), kvs, Some cx) \<and>
    (\<forall>sha s. ai_rootActionId (resolveActionIdentity sha s (stamped kvs)) = sample_root_id)"
proof -
  let ?ctx = "\<lparr>interactionId = sample_action_id, rootActionId = sample_root_id, actionId = sample_action_id\<rparr>"
  let ?sent = "sent_request [?ctx] (None :: unit request_init option)"
  have ok: "valid_browser_context ?ctx" "no_correlation_headers (None :: unit request_init option)"
    using sample_context_ids by (simp_all add: valid_browser_context_def no_correlation_headers_def new_Headers_def init_given_def map_get_def)
  obtain kvs cx where out: "stampIdentityFromRequest ?sent =
      ((Some sample_action_id, Some \<lparr>in_actionId = sample_action_id, in_rootActionId = sample_root_id, in_causedByActionId = None\<rparr>), kvs, Some cx)"
    using sent_headers [OF ok(2), of "[]" ?ctx] sample_context_ids
    by (simp add: stampIdentityFromRequest_def stampInteractionFromRequest_def stampActionFromRequest_def parseActionHeadersFromRequest_def headers_accept_valid Let_def)
  from browser_identity_reaches_collector [OF ok, of "[]", unfolded append_Nil, OF out] have "ai_rootActionId (resolveActionIdentity sha s (stamped kvs)) = sample_root_id" for sha s
    by (simp add: Let_def)
  with out show ?thesis by blast
qed


end
