(* ===== verification/Spec2Isabelle.thy ===== *)
theory Spec2Isabelle
  imports Profile_Index Flame_Graph Span_Tree Auto_Correlate Narrate_Gate Otlp_Metrics Usage_Events Alerts_Evaluator Metrics_Store Ingest_Stores Ai_Pipeline Usage_Faults Ingest_Auth Dashboard_Auth Sdk_Exporter Sdk_Context
begin

text \<open>
  Obs Unified is an observability system in TypeScript: SDKs that record telemetry (\<^verbatim>\<open>packages/analytics-sdk\<close>,
  \<^verbatim>\<open>packages/telemetry-sdk\<close>), a collector that receives, enriches, redacts and stores it and evaluates alerts
  (\<^verbatim>\<open>packages/obs-collector\<close>), a pprof codec (\<^verbatim>\<open>packages/pprof-decoder\<close>) and a dashboard (\<^verbatim>\<open>packages/dashboard\<close>).
  This development models the parts with logic of their own, one theory per part, and proves what makes them correct.

  \<^bold>\<open>The language.\<close>  \<open>Prelude\<close>: results (\<open>'e + 'a\<close>, \<open>Inl\<close> an exception), exact and rounded integer addition, insertion-ordered
  maps with their contract \<open>js_map\<close>, stable sorting.  \<open>Js_Text\<close> and \<open>Js_Time\<close>: string methods, \<^verbatim>\<open>Number(text)\<close>, ISO
  timestamps.  \<open>Json\<close> and \<open>Json_Parse\<close>: objects with their member order, \<^verbatim>\<open>JSON.stringify\<close> and \<^verbatim>\<open>JSON.parse\<close> (fuel: the length
  of the text, since every call consumes a character) with their round trip, and \<^verbatim>\<open>lib/json.ts\<close>.  Printing of a number that is
  not an integer is a parameter; where a result needs it, the hypothesis is that its numerals read back (\<open>printable_json\<close>).

  \<^bold>\<open>Profiles.\<close>  \<open>Pprof_Wire\<close> models the readers and writers of \<^verbatim>\<open>pprof-decoder/src/index.ts\<close> on bytes (varints up to ten bytes,
  bounds, skipping, the growing builder as a refinement of appending), \<open>Pprof_Codec\<close> the messages with decode-after-encode,
  \<open>Profile_Index\<close> the collector's trace index, filter and summary (\<^verbatim>\<open>lib/parse-pprof.ts\<close>), \<open>Flame_Graph\<close> the dashboard's
  aggregation and layout.

  \<^bold>\<open>Ingestion.\<close>  \<open>Otlp_Body\<close>, \<open>Otlp_Values\<close>: content negotiation, decompression (a parameter), attribute values on both paths.
  \<open>Otlp_Traces\<close>, \<open>Otlp_Logs\<close>, \<open>Otlp_Metrics\<close>: decoding and the handlers of \<^verbatim>\<open>/v1/traces\<close>, \<^verbatim>\<open>/v1/logs\<close> and \<^verbatim>\<open>/v1/metrics\<close>; the
  generated protobuf code supplies messages, the store's insert is a parameter.  \<open>Collector_Runtime\<close>: plugins, pipelines, routes
  and guards (\<^verbatim>\<open>framework/collector.ts\<close>), with the contract \<open>batch_pipeline\<close>.  \<open>Json_Redaction\<close> holds the contract \<open>json_redactor\<close>,
  which \<open>Span_Processors\<close> (enrichment, issue enrichment, redaction) and \<open>Usage_Events\<close> (the usage receiver and its five
  processors) interpret: no secret member survives, at any depth.

  \<^bold>\<open>Storage.\<close>  \<open>Sql_Db\<close>: the seam \<^verbatim>\<open>lib/sql-db.ts\<close> and its two adapters over a store of statement objects, with the contracts
  \<open>sql_adapter\<close> and \<open>pure_sql_adapter\<close>: D1 meets both, Postgres (\<^verbatim>\<open>lib/sql-db-postgres.ts\<close>) only the first, and what a batch runs
  depends on it.  A table is a map from the key of its migration to rows; the engine executes a bound statement on it.
  \<open>Ingest_Stores\<close> (spans, usage events, logs, AI calls, evaluations) and \<open>Metrics_Store\<close> (series, points, exemplars) write through it.

  \<^bold>\<open>AI spans.\<close>  \<open>Action_Identity\<close>: the ids of agent actions and their resolution (\<^verbatim>\<open>lib/action-identity.ts\<close>; the digest is a
  parameter).  \<open>Gen_Ai\<close>: the normalisation of GenAI and MCP attributes (\<^verbatim>\<open>plugins/gen-ai-normalizer.ts\<close>), which runs after
  redaction.  \<open>Action_Records\<close>, \<open>Action_Graph\<close>: the six rows the action graph derives of a span, the roll-up into agent runs and the
  transaction that stores a batch (\<^verbatim>\<open>plugins/action-graph-processor.ts\<close>); \<open>Action_Links\<close>, \<open>Action_Batch\<close>: its invariants and
  outcomes.  \<open>Ai_Payloads\<close>: payload capture (\<^verbatim>\<open>plugins/ai-span-payloads-processor.ts\<close>).  \<open>Ai_Pipeline\<close>: all six span
  processors in their order.  The spans of a batch run concurrently in both processors; they share only the lists they push rows
  to, so the order of the rows is a parameter, and the cache of capture flags, which no span finds filled.

  \<^bold>\<open>Alerts.\<close>  \<open>Alerts_Store\<close>: the tables and every operation of \<^verbatim>\<open>lib/alerts-store.ts\<close>, as a state machine with its invariant.
  \<open>Task_Pool\<close>: \<^verbatim>\<open>mapWithConcurrency\<close> as a step relation over all interleavings, its termination and completeness.
  \<open>Task_Turns\<close>: the same pool for mappers with awaits, whose every interleaving of turns ends, and the contract
  \<open>independent_turns\<close>.  \<open>Alerts_Evaluator\<close>: the evaluator (\<^verbatim>\<open>plugins/alerts-evaluator.ts\<close>) over any store, an evaluation being a
  task with one turn per await, interpreted on the modelled store: the outcome of a batch does not depend on its schedule.

  \<^bold>\<open>Access.\<close>  \<open>Projects_Store\<close>: projects and ingest keys (\<^verbatim>\<open>lib/projects-store.ts\<close>).  \<open>Ingest_Auth\<close>: the middleware of the ingest
  paths (\<^verbatim>\<open>auth/ingest-auth.ts\<close>), whose requests, the statements of the key bootstrap among them, are interleaved at each \<^verbatim>\<open>await\<close> with each other and with the store: tenants stay
  apart, revocation takes a minute at most.  \<open>Dashboard_Auth\<close>: signed sessions and the middleware of the internal paths
  (\<^verbatim>\<open>auth/dashboard-auth.ts\<close>).  Digests and signatures are parameters.

  \<^bold>\<open>Correlation and presentation.\<close>  \<open>Interaction\<close>, \<open>Auto_Correlate\<close>: interaction ids, the context stack, header injection in
  \<^verbatim>\<open>fetch\<close> and \<^verbatim>\<open>XMLHttpRequest\<close>, clicks (\<^verbatim>\<open>analytics-sdk\<close>).  \<open>Usage_Tracker\<close>: the usage tracker of a browser page
  (\<^verbatim>\<open>usage-tracker.ts\<close>): clock, sessions, events, the replay buffer; its five mutually recursive operations run on a call depth of ten, which
  \<open>Usage_Sessions\<close> shows enough when rrweb emits fewer than fifty events as it starts, beside the lifetime of sessions and the silence after
  a 401; \<open>Usage_Faults\<close>: the exactness of the clock and what rotations do to page views, replays and attribution.
  \<open>Sdk_Exporter\<close>: the buffers of the telemetry SDK (\<^verbatim>\<open>telemetry-sdk/src/logger.ts\<close>, \<^verbatim>\<open>span.ts\<close>, \<^verbatim>\<open>ai.ts\<close>), one machine with three
  policies under the contract \<open>bounded_export\<close>, with a flush and its answer as separate steps; the payload is built between them by a parameter that
  may throw, given for logs by their grouping under loggers, so that what is sent, what is answered and what stays behind are told apart.  \<open>Sdk_Context\<close>: the headers and action
  contexts by which the work of servers and agents is joined to what a user did, from the browser's headers to the identity the collector resolves.
  \<open>Span_Tree\<close>: the waterfall of a trace, whose walk is total only on
  distinct ids; it runs on fuel, with the number of spans shown to be enough.  \<open>Narrate_Gate\<close>: the predicate language and the
  decision to narrate (\<^verbatim>\<open>lib/narrate-gate.ts\<close>).

  \<^bold>\<open>Not modelled.\<close>  The queries of the SQL stores and the routes that only query them, the translation of SQLite idioms into Postgres
  by regular expressions, the evaluation-case store, the analyses runner and its language model, the live tail, generated protobuf code, the span builders and instrumentation wrappers of the telemetry SDK, React components,
  command-line tools and scripts.  Child spans of the evaluator's tracer, evidence references attached to alert responses and log
  side effects outside the alert evaluator and the AI processors are left out.  Strings are lists of characters of code up to 255;
  timestamps are integers of milliseconds.
\<close>

section \<open>Traces through the default pipeline\<close>

definition default_runtime ::
  "(rat \<Rightarrow> string) \<Rightarrow> (js_number \<Rightarrow> js_number \<Rightarrow> js_number) \<Rightarrow> (string \<Rightarrow> string) \<Rightarrow> (string \<Rightarrow> string option) \<Rightarrow> capture_env \<Rightarrow> graph_env \<Rightarrow> payload_env \<Rightarrow>
   (string option, stored_span, usage_event) collector_runtime" where
  "default_runtime num add sha url_host c g p = foldl (\<lambda>rt q. addSpanProcessor q rt) new_CollectorRuntime (all_span_processors num add sha url_host c g p)"

text \<open>The processors as the trace handler calls them; the extra redaction fields are the context.\<close>

definition processed_by ::
  "(string option, stored_span, usage_event) collector_runtime \<Rightarrow> string option \<Rightarrow> stored_span list \<Rightarrow> string + stored_span list" where
  "processed_by rt extra spans = res_bind (runSpanProcessors rt spans extra) (\<lambda>(out, child_spans). Inr out)"

lemma default_runtime_processors: "spanProcessors (default_runtime num add sha url_host c g p) = all_span_processors num add sha url_host c g p"
  by (simp add: default_runtime_def add_processors new_CollectorRuntime_def)

text \<open>
  C5: A decoded trace request, through all six processors of the default pipeline, whatever the action graph and the payload table hold and
  even if every write to them fails: either a processor throws and the request is rejected with nothing stored, or what the store is handed
  is exactly the first 500 spans with a 16-byte trace id and an 8-byte span id, in request order and under the lower-case hexadecimal form
  of their ids, acknowledged if the store takes them and answered with a retryable 503 if it fails.  When questions about projects are answered
  and values can be bound, no processor throws.
\<close>

theorem traces_through_pipeline:
  "let ingest = (\<lambda>c g. ingest_traces num (processed_by (default_runtime num add sha url_host c g p) extra) store has_tail pid now env wire
         (map adaptResourceSpans msg));
       valid = filter (\<lambda>s. length (ps_traceId s) = 16 \<and> length (ps_spanId s) = 8) (proto_spans msg) in
   ((\<exists>e. ingest c g = Inl e) \<or>
    (\<exists>spans. map (\<lambda>r. (st_traceId r, st_spanId r)) spans = map (\<lambda>s. (bytesToHex (ps_traceId s), bytesToHex (ps_spanId s))) (take 500 valid) \<and>
      ingest c g = Inr (if store spans then (acknowledged wire (length valid), spans, if spans \<noteq> [] \<and> has_tail then spans else [])
                        else (otlpRetryableError 503 ''Storage temporarily unavailable'', [], [])))) \<and>
   (\<forall>e. ingest (answering flag c) (binding_all g) \<noteq> Inl e)"
proof -
  define ingest where "ingest = (\<lambda>c g. ingest_traces num (processed_by (default_runtime num add sha url_host c g p) extra) store has_tail pid now env wire
    (map adaptResourceSpans msg))"
  define valid where "valid = filter (\<lambda>s. length (ps_traceId s) = 16 \<and> length (ps_spanId s) = 8) (proto_spans msg)"
  have run: "processed_by (default_runtime num add sha url_host c g p) extra parsed =
      res_bind (run_processors ''span'' (all_span_processors num add sha url_host c g p) parsed extra) (\<lambda>(out, child_spans). Inr out)" for c g parsed
    by (simp add: processed_by_def runSpanProcessors_def default_runtime_processors)
  have kept: "map (\<lambda>r. (st_traceId r, st_spanId r)) out = map (\<lambda>r. (st_traceId r, st_spanId r)) parsed"
    if returned: "processed_by (default_runtime num add sha url_host c g p) extra parsed = Inr out" for out parsed
  proof -
    obtain cs where "run_processors ''span'' (all_span_processors num add sha url_host c g p) parsed extra = Inr (out, cs)"
      using returned by (auto simp: run res_bind_eq_Inr)
    then have "map span_ids out = map span_ids parsed"
      using run_returns [of "all_span_processors num add sha url_host c g p" span_ids] all_return by blast
    from arg_cong [OF this, of "map (\<lambda>(_, t, s, _). (t, s))"] show ?thesis by (simp add: span_ids_def comp_def)
  qed
  define answer where "answer = (\<lambda>spans. if store spans then (acknowledged wire (length valid), spans, if spans \<noteq> [] \<and> has_tail then spans else [])
    else (otlpRetryableError 503 ''Storage temporarily unavailable'', [], []))"
  have parsed: "\<exists>parsed. map (\<lambda>r. (st_traceId r, st_spanId r)) parsed =
      map (\<lambda>s. (bytesToHex (ps_traceId s), bytesToHex (ps_spanId s))) (take 500 valid) \<and>
    ingest c g = res_bind (processed_by (default_runtime num add sha url_host c g p) extra parsed) (\<lambda>spans. Inr (answer spans))" for c g
    unfolding ingest_def valid_def answer_def by (rule decoded_traces)
  have "(\<exists>e. ingest c g = Inl e) \<or>
    (\<exists>spans. map (\<lambda>r. (st_traceId r, st_spanId r)) spans = map (\<lambda>s. (bytesToHex (ps_traceId s), bytesToHex (ps_spanId s))) (take 500 valid) \<and>
      ingest c g = Inr (answer spans))"
  proof -
    obtain ps where ps: "map (\<lambda>r. (st_traceId r, st_spanId r)) ps = map (\<lambda>s. (bytesToHex (ps_traceId s), bytesToHex (ps_spanId s))) (take 500 valid)"
      "ingest c g = res_bind (processed_by (default_runtime num add sha url_host c g p) extra ps) (\<lambda>spans. Inr (answer spans))" using parsed by blast
    then show ?thesis using kept [of ps] by (cases "processed_by (default_runtime num add sha url_host c g p) extra ps") auto
  qed
  moreover have "ingest (answering flag c) (binding_all g) \<noteq> Inl e" for e
  proof -
    obtain ps where ps: "ingest (answering flag c) (binding_all g) = res_bind (processed_by (default_runtime num add sha url_host
      (answering flag c) (binding_all g) p) extra ps) (\<lambda>spans. Inr (answer spans))" using parsed by blast
    have "\<exists>out. processed_by (default_runtime num add sha url_host (answering flag c) (binding_all g) p) extra ps = Inr out"
      using all_spans.run_keeps [of "''span''" num add sha url_host flag c g p ps extra] by (auto simp: run)
    then show ?thesis by (auto simp: ps)
  qed
  ultimately show ?thesis by (simp add: Let_def ingest_def [symmetric] valid_def [symmetric] answer_def)
qed

end
